(* ===== verification/Prelude.thy ===== *)
theory Prelude
  imports Main "HOL-Library.Word" "HOL-Library.AList" "HOL-Library.Product_Lexorder"
begin

text \<open>
  Shared vocabulary of the development: the integer widths, identifiers and strings of the
  Rust code, the hash maps it keeps (association lists with distinct keys, listed in the
  map's iteration order), the iterator idioms it uses (\<open>iter_mut().find\<close>, \<open>min_by_key\<close>),
  and the locale of state machines whose operations keep an invariant.
\<close>

unbundle bit_operations_syntax

named_theorems hm_simps \<open>lookups, keys and distinctness of the hash-map operations\<close>

section \<open>Types\<close>

type_synonym u8 = "8 word"
type_synonym u32 = "32 word"

text \<open>
  A UUID is its 128 bits; \<open>Uuid\<close>'s \<open>Ord\<close> compares the sixteen bytes from the most
  significant one, which is the unsigned order of the word. Public keys and signatures are
  byte lists. Wall-clock readings are Rust \<open>i64\<close> milliseconds, kept as \<open>int\<close>.
\<close>

type_synonym uuid = "128 word"
type_synonym bytes = "u8 list"
type_synonym millis = int

text \<open>
  A Rust \<open>String\<close> that a client can choose is a list of Unicode scalar values:
  \<open>chars().count()\<close> is its length, \<open>len()\<close> counts the bytes of its UTF-8 form.
\<close>

type_synonym rstring = "nat list"

definition utf8_width :: "nat \<Rightarrow> nat" where
  "utf8_width c = (if c < 128 then 1 else if c < 2048 then 2 else if c < 65536 then 3 else 4)"

definition utf8_len :: "rstring \<Rightarrow> nat" where
  "utf8_len s = sum_list (map utf8_width s)"

definition ascii :: "string \<Rightarrow> rstring" where
  "ascii s = map of_char s"

lemma utf8_width_pos: "1 \<le> utf8_width c"
  by (simp add: utf8_width_def)

lemma length_le_utf8_len: "length s \<le> utf8_len s"
proof (induction s)
  case (Cons c s)
  with utf8_width_pos [of c] show ?case by (simp add: utf8_len_def)
qed (simp add: utf8_len_def)

section \<open>Machine integers\<close>

text \<open>
  \<open>i64\<close> values are \<open>int\<close> with the width written out where the code relies on it:
  \<open>saturating_sub\<close> clamps, a plain \<open>+\<close> or \<open>-\<close> wraps in a release build. \<open>u64\<close> values are
  \<open>nat\<close> below \<open>2 ^ 64\<close>.
\<close>

definition i64_min :: int where "i64_min = - (2 ^ 63)"
definition i64_max :: int where "i64_max = 2 ^ 63 - 1"

definition i64_clamp :: "int \<Rightarrow> int" where
  "i64_clamp x = max i64_min (min i64_max x)"

definition i64_wrap :: "int \<Rightarrow> int" where
  "i64_wrap x = (x + 2 ^ 63) mod 2 ^ 64 - 2 ^ 63"

definition saturating_sub_i64 :: "int \<Rightarrow> int \<Rightarrow> int" where
  "saturating_sub_i64 a b = i64_clamp (a - b)"

definition in_i64 :: "int \<Rightarrow> bool" where
  "in_i64 x \<longleftrightarrow> i64_min \<le> x \<and> x \<le> i64_max"

lemma i64_wrap_id: "in_i64 x \<Longrightarrow> i64_wrap x = x"
  by (simp add: in_i64_def i64_wrap_def i64_min_def i64_max_def)

lemma i64_clamp_id: "in_i64 x \<Longrightarrow> i64_clamp x = x"
  by (simp add: in_i64_def i64_clamp_def)

lemma i64_clamp_in: "in_i64 (i64_clamp x)"
  by (auto simp: in_i64_def i64_clamp_def i64_min_def i64_max_def)

definition u64_max :: nat where "u64_max = 2 ^ 64 - 1"
definition u32_max :: nat where "u32_max = 2 ^ 32 - 1"

definition saturating_add_u64 :: "nat \<Rightarrow> nat \<Rightarrow> nat" where
  "saturating_add_u64 a b = min u64_max (a + b)"

definition saturating_mul_u64 :: "nat \<Rightarrow> nat \<Rightarrow> nat" where
  "saturating_mul_u64 a b = min u64_max (a * b)"

definition checked_add_u64 :: "nat \<Rightarrow> nat \<Rightarrow> nat option" where
  "checked_add_u64 a b = (if a + b \<le> u64_max then Some (a + b) else None)"

definition wrapping_add_u64 :: "nat \<Rightarrow> nat \<Rightarrow> nat" where
  "wrapping_add_u64 a b = (a + b) mod 2 ^ 64"

lemma wrapping_add_u64_small: "a + b \<le> u64_max \<Longrightarrow> wrapping_add_u64 a b = a + b"
  by (simp add: wrapping_add_u64_def u64_max_def)

section \<open>Hash maps\<close>

text \<open>
  A \<open>HashMap\<close> is an association list with distinct keys. Its order stands for the map's
  iteration order, which the code may not rely on; insertion replaces an existing entry in
  place, as \<open>AList.update\<close> does.
\<close>

type_synonym ('k, 'v) hashmap = "('k \<times> 'v) list"

abbreviation hm_get :: "('k, 'v) hashmap \<Rightarrow> 'k \<Rightarrow> 'v option" where
  "hm_get m k \<equiv> map_of m k"

abbreviation hm_insert :: "'k \<Rightarrow> 'v \<Rightarrow> ('k, 'v) hashmap \<Rightarrow> ('k, 'v) hashmap" where
  "hm_insert k v m \<equiv> AList.update k v m"

abbreviation hm_remove :: "'k \<Rightarrow> ('k, 'v) hashmap \<Rightarrow> ('k, 'v) hashmap" where
  "hm_remove k m \<equiv> AList.delete k m"

definition hm_contains :: "('k, 'v) hashmap \<Rightarrow> 'k \<Rightarrow> bool" where
  "hm_contains m k \<longleftrightarrow> map_of m k \<noteq> None"

definition hm_keys :: "('k, 'v) hashmap \<Rightarrow> 'k list" where
  "hm_keys m = map fst m"

definition hm_wf :: "('k, 'v) hashmap \<Rightarrow> bool" where
  "hm_wf m \<longleftrightarrow> distinct (map fst m)"

text \<open>\<open>values_mut\<close>: one function applied to every value.\<close>

definition hm_map_values :: "('v \<Rightarrow> 'v) \<Rightarrow> ('k, 'v) hashmap \<Rightarrow> ('k, 'v) hashmap" where
  "hm_map_values f m = map (\<lambda>(k, v). (k, f v)) m"

lemma hm_wf_Nil [simp, hm_simps]: "hm_wf []"
  by (simp add: hm_wf_def)

lemma hm_wf_insert [simp, hm_simps]: "hm_wf m \<Longrightarrow> hm_wf (hm_insert k v m)"
  by (simp add: hm_wf_def distinct_update)

lemma hm_wf_remove [simp, hm_simps]: "hm_wf m \<Longrightarrow> hm_wf (hm_remove k m)"
  by (simp add: hm_wf_def distinct_delete)

lemma hm_get_insert [simp, hm_simps]:
  "hm_get (hm_insert k v m) k' = (if k' = k then Some v else hm_get m k')"
  by (simp add: update_conv')

lemma hm_get_remove [simp, hm_simps]:
  "hm_get (hm_remove k m) k' = (if k' = k then None else hm_get m k')"
  by (simp add: delete_conv')

lemma fst_hm_insert [hm_simps]: "fst ` set (hm_insert k v m) = insert k (fst ` set m)"
  by (induction m) auto

lemma fst_hm_remove [hm_simps]: "fst ` set (hm_remove k m) = fst ` set m - {k}"
  by (induction m) auto

lemma hm_contains_iff [hm_simps]: "hm_contains m k \<longleftrightarrow> k \<in> fst ` set m"
  by (simp add: hm_contains_def map_of_eq_None_iff)

lemma hm_get_Some_iff: "hm_wf m \<Longrightarrow> hm_get m k = Some v \<longleftrightarrow> (k, v) \<in> set m"
  by (simp add: hm_wf_def)

lemma hm_get_SomeD: "hm_get m k = Some v \<Longrightarrow> (k, v) \<in> set m"
  by (rule map_of_SomeD)

lemma hm_get_key: "k \<in> fst ` set m \<Longrightarrow> \<exists>v. hm_get m k = Some v"
  by (metis map_of_eq_None_iff not_Some_eq)

lemma hm_key_get: "hm_get m k = Some v \<Longrightarrow> k \<in> fst ` set m"
  by (metis map_of_eq_None_iff option.distinct(1))

lemma hm_map_values_Cons [simp]: "hm_map_values f ((k, v) # m) = (k, f v) # hm_map_values f m"
  by (simp add: hm_map_values_def)

lemma hm_map_values_Nil [simp]: "hm_map_values f [] = []"
  by (simp add: hm_map_values_def)

lemma keys_hm_map_values [simp, hm_simps]: "map fst (hm_map_values f m) = map fst m"
  by (induction m) auto

lemma fst_hm_map_values [simp, hm_simps]: "fst ` set (hm_map_values f m) = fst ` set m"
  by (metis keys_hm_map_values list.set_map)

lemma hm_wf_map_values [simp, hm_simps]: "hm_wf (hm_map_values f m) = hm_wf m"
  by (simp add: hm_wf_def)

lemma hm_get_map_values [simp, hm_simps]:
  "hm_get (hm_map_values f m) k = map_option f (hm_get m k)"
  by (induction m) auto

text \<open>Sums over the values of a map, for the budgets the code keeps incrementally.\<close>

definition hm_sum :: "('v \<Rightarrow> nat) \<Rightarrow> ('k, 'v) hashmap \<Rightarrow> nat" where
  "hm_sum f m = sum_list (map (f \<circ> snd) m)"

lemma hm_sum_Nil [simp]: "hm_sum f [] = 0"
  by (simp add: hm_sum_def)

lemma hm_sum_Cons [simp]: "hm_sum f ((k, v) # m) = f v + hm_sum f m"
  by (simp add: hm_sum_def)

lemma hm_sum_insert_new: "hm_get m k = None \<Longrightarrow> hm_sum f (hm_insert k v m) = hm_sum f m + f v"
  by (induction m) auto

lemma hm_sum_insert: "hm_get m k = Some w \<Longrightarrow> hm_sum f (hm_insert k v m) + f w = hm_sum f m + f v"
  by (induction m) (auto split: if_splits)

lemma hm_remove_absent: "hm_get m k = None \<Longrightarrow> hm_remove k m = m"
  by (induction m) (auto split: if_splits)

lemma hm_sum_remove:
  "hm_wf m \<Longrightarrow> hm_get m k = Some w \<Longrightarrow> hm_sum f (hm_remove k m) + f w = hm_sum f m"
proof (induction m)
  case (Cons e m)
  obtain a b where e: "e = (a, b)" by (cases e)
  show ?case
  proof (cases "a = k")
    case True
    with Cons.prems e have "hm_get m k = None"
      by (simp add: hm_wf_def map_of_eq_None_iff)
    with True e Cons.prems show ?thesis by (simp add: hm_remove_absent)
  next
    case False
    with Cons e show ?thesis by (simp add: hm_wf_def)
  qed
qed simp

lemma hm_sum_mono_key: "hm_get m k = Some v \<Longrightarrow> f v \<le> hm_sum f m"
  by (induction m) (auto split: if_splits)

section \<open>Iterator idioms\<close>

text \<open>\<open>iter_mut().find(p)\<close> followed by a mutation of the record found: the first match only.\<close>

fun update_first :: "('a \<Rightarrow> bool) \<Rightarrow> ('a \<Rightarrow> 'a) \<Rightarrow> 'a list \<Rightarrow> 'a list" where
  "update_first P f [] = []"
| "update_first P f (x # xs) = (if P x then f x # xs else x # update_first P f xs)"

lemma length_update_first [simp]: "length (update_first P f xs) = length xs"
  by (induction xs) auto

lemma map_update_first: "(\<And>x. P x \<Longrightarrow> g (f x) = g x) \<Longrightarrow> map g (update_first P f xs) = map g xs"
  by (induction xs) auto

lemma update_first_none: "\<forall>x \<in> set xs. \<not> P x \<Longrightarrow> update_first P f xs = xs"
  by (induction xs) auto

lemma update_first_id: "(\<And>x. P x \<Longrightarrow> f x = x) \<Longrightarrow> update_first P f xs = xs"
  by (induction xs) auto

lemma set_update_first: "y \<in> set (update_first P f xs) \<Longrightarrow> y \<in> set xs \<or> (\<exists>x \<in> set xs. P x \<and> y = f x)"
  by (induction xs) (auto split: if_splits)

lemma set_update_first_keep: "y \<in> set xs \<Longrightarrow> \<not> P y \<Longrightarrow> y \<in> set (update_first P f xs)"
  by (induction xs) auto

lemma find_None_iff_all: "find P xs = None \<longleftrightarrow> (\<forall>x \<in> set xs. \<not> P x)"
  by (induction xs) auto

lemma find_SomeD: "find P xs = Some x \<Longrightarrow> x \<in> set xs \<and> P x"
  by (induction xs) (auto split: if_splits)

lemma update_first_find:
  "find P xs = Some x \<Longrightarrow> \<exists>us vs. xs = us @ x # vs \<and> update_first P f xs = us @ f x # vs"
proof (induction xs)
  case (Cons y ys)
  show ?case
  proof (cases "P y")
    case True
    with Cons.prems have "y # ys = [] @ x # ys \<and> update_first P f (y # ys) = [] @ f x # ys"
      by simp
    then show ?thesis by blast
  next
    case False
    with Cons obtain us vs where "ys = us @ x # vs" and "update_first P f ys = us @ f x # vs"
      by auto
    with False have "y # ys = (y # us) @ x # vs \<and> update_first P f (y # ys) = (y # us) @ f x # vs"
      by simp
    then show ?thesis by blast
  qed
qed simp

text \<open>\<open>iter().min_by_key\<close>: the first element with the least key.\<close>

fun min_by_key :: "('a \<Rightarrow> 'k::linorder) \<Rightarrow> 'a list \<Rightarrow> 'a option" where
  "min_by_key k [] = None"
| "min_by_key k (x # xs) =
     (case min_by_key k xs of None \<Rightarrow> Some x | Some y \<Rightarrow> Some (if k x \<le> k y then x else y))"

lemma min_by_key_None [simp]: "min_by_key k xs = None \<longleftrightarrow> xs = []"
  by (cases xs) (auto split: option.splits)

lemma min_by_key_SomeD: "min_by_key k xs = Some m \<Longrightarrow> m \<in> set xs \<and> (\<forall>x \<in> set xs. k m \<le> k x)"
proof (induction xs arbitrary: m)
  case (Cons x xs)
  show ?case
  proof (cases "min_by_key k xs")
    case None
    with Cons.prems show ?thesis by simp
  next
    case (Some y)
    from Cons.IH [OF Some] have "y \<in> set xs" and "\<forall>z \<in> set xs. k y \<le> k z" by auto
    moreover from Cons.prems Some have "m = (if k x \<le> k y then x else y)" by simp
    ultimately show ?thesis by (auto split: if_splits)
  qed
qed simp

section \<open>Machines that keep an invariant\<close>

text \<open>
  The contract every stateful component offers: a step function and an invariant that each
  step keeps. A run folds the step over a list of operations, and keeps the invariant.
\<close>

locale invariant_machine =
  fixes step :: "'s \<Rightarrow> 'op \<Rightarrow> 's"
    and inv :: "'s \<Rightarrow> bool"
  assumes step_inv: "inv s \<Longrightarrow> inv (step s a)"
begin

lemma run_inv: "inv s \<Longrightarrow> inv (foldl step s ops)"
  by (induction ops arbitrary: s) (auto simp: step_inv)

lemma prefix_inv: "inv s \<Longrightarrow> inv (foldl step s (take n ops))"
  by (rule run_inv)

end

text \<open>
  A machine with a counter that no step decreases, such as the sequence numbers the server
  stamps on what it publishes.
\<close>

locale counting_machine = invariant_machine step inv
  for step :: "'s \<Rightarrow> 'op \<Rightarrow> 's" and inv :: "'s \<Rightarrow> bool" +
  fixes counter :: "'s \<Rightarrow> nat"
  assumes step_counter: "inv s \<Longrightarrow> counter s \<le> counter (step s a)"
begin

lemma run_counter: "inv s \<Longrightarrow> counter s \<le> counter (foldl step s ops)"
proof (induction ops arbitrary: s)
  case (Cons a ops)
  from Cons.prems have "inv (step s a)" by (rule step_inv)
  then have "counter (step s a) \<le> counter (foldl step (step s a) ops)" by (rule Cons.IH)
  with step_counter [OF Cons.prems, of a] show ?case by simp
qed simp

end

end
