(* ===== verification/Protocol.thy ===== *)
theory Protocol
  imports Prelude
begin

text \<open>
  The wire vocabulary of rooms: \<open>shared/protocol/src/room.rs\<close> (capability bits, statuses, the
  payload structs the server reads and publishes), the server's closed error set with its wire
  form (\<open>rooms/error.rs\<close>) and the capability presets (\<open>rooms/presets.rs\<close>). A \<open>f32\<close> is kept
  as the 32 bits of its IEEE-754 encoding; the server only compares and relays it.
\<close>

section \<open>Capability bits\<close>

definition PLAYBACK_CONTROL :: u32 where "PLAYBACK_CONTROL = 0x01"
definition DRAW :: u32 where "DRAW = 0x02"
definition LASER :: u32 where "LASER = 0x04"
definition MANAGE_ROOM :: u32 where "MANAGE_ROOM = 0x08"
definition KICK :: u32 where "KICK = 0x10"
definition PUBLISH_MANIFEST :: u32 where "PUBLISH_MANIFEST = 0x20"
definition INVITE :: u32 where "INVITE = 0x40"
definition CHAT :: u32 where "CHAT = 0x80"
definition MEDIA :: u32 where "MEDIA = 0x100"
definition UNDO_OWN :: u32 where "UNDO_OWN = 0x200"
definition UNDO_ANY :: u32 where "UNDO_ANY = 0x400"
definition CLEAR_ALL :: u32 where "CLEAR_ALL = 0x800"

lemmas cap_bits =
  PLAYBACK_CONTROL_def DRAW_def LASER_def MANAGE_ROOM_def KICK_def PUBLISH_MANIFEST_def
  INVITE_def CHAT_def MEDIA_def UNDO_OWN_def UNDO_ANY_def CLEAR_ALL_def

definition HOST :: u32 where
  "HOST = PLAYBACK_CONTROL OR DRAW OR LASER OR MANAGE_ROOM OR KICK OR PUBLISH_MANIFEST OR INVITE
     OR CHAT OR UNDO_OWN OR UNDO_ANY OR CLEAR_ALL"

definition VIEWER_PRESET :: u32 where "VIEWER_PRESET = CHAT"

definition EDITOR_PRESET :: u32 where
  "EDITOR_PRESET = CHAT OR DRAW OR LASER OR UNDO_OWN"

definition COHOST_PRESET :: u32 where
  "COHOST_PRESET = PLAYBACK_CONTROL OR DRAW OR LASER OR CHAT OR MANAGE_ROOM OR KICK OR INVITE
     OR MEDIA OR UNDO_OWN OR CLEAR_ALL"

definition ALL_PRESETS :: "(string \<times> u32) list" where
  "ALL_PRESETS = [(''Viewer'', VIEWER_PRESET), (''Editor'', EDITOR_PRESET),
     (''CoHost'', COHOST_PRESET)]"

definition preset_by_name :: "string \<Rightarrow> u32 option" where
  "preset_by_name name = map_option snd (find (\<lambda>(n, _). n = name) ALL_PRESETS)"

section \<open>Participants and room summaries\<close>

datatype participant_status = Joining | Connected | Reconnecting | Disconnected | Left

record participant =
  pub_user_id :: uuid
  pub_pubkey :: bytes
  pub_display_name :: rstring
  pub_joined_ms :: millis
  pub_status :: participant_status
  pub_last_seen_ms :: millis
  pub_is_host :: bool

record participant_self =
  self_user_id :: uuid
  self_cap_set :: u32
  self_joined_ms :: millis

record playback_snapshot =
  ps_paused :: bool
  ps_media_position_ms :: nat
  ps_server_ts_ms :: millis
  ps_server_seq :: nat
  ps_sender_id :: uuid
  ps_monotonic_seq :: nat

record room_summary =
  rsum_id :: uuid
  rsum_code :: rstring
  rsum_title :: rstring
  rsum_host_user_id :: uuid
  rsum_host_migration_enabled :: bool
  rsum_created_ms :: millis
  rsum_participants :: "participant list"
  rsum_host_disconnected :: bool
  rsum_host_disconnect_deadline_ms :: "millis option"
  rsum_playback :: "playback_snapshot option"

section \<open>Payloads\<close>

record room_create_payload =
  rcp_title :: rstring
  rcp_migration_enabled :: bool

record room_created_payload =
  rcd_room :: room_summary
  rcd_you :: participant_self

record room_join_request_payload =
  rjr_code :: rstring
  rjr_display_name :: rstring

record room_joined_payload =
  rjd_room :: room_summary
  rjd_you :: participant_self

record room_state_payload =
  rst_room :: room_summary
  rst_host_disconnect_deadline_ms :: "millis option"

record participant_left_payload =
  pl_user_id :: uuid
  pl_reason :: string

record host_disconnected_payload =
  hd_previous_host_user_id :: uuid
  hd_reconnect_deadline_ms :: millis
  hd_new_host_user_id :: "uuid option"

record host_migrated_payload =
  hm_previous_host_user_id :: uuid
  hm_new_host_user_id :: uuid
  hm_summary :: "room_summary option"

record permission_set_payload =
  perm_target_user_id :: uuid
  perm_add_cap_set :: u32
  perm_remove_cap_set :: u32

datatype playback_action = Play | Pause | Seek

record playback_command_payload =
  pc_action :: playback_action
  pc_monotonic_seq :: nat
  pc_media_position_ms :: nat
  pc_client_ts_ms :: millis

type_synonym f32 = "32 word"

datatype stroke_tool = Pen | Arrow | Rect | Circle | Text | Eraser

record stroke_begin_payload =
  sbp_stroke_id :: uuid
  sbp_tool :: stroke_tool
  sbp_color :: rstring
  sbp_width :: f32
  sbp_x :: f32
  sbp_y :: f32
  sbp_pressure :: f32
  sbp_ts_ms :: millis

record stroke_point_payload =
  spp_stroke_id :: uuid
  spp_x :: f32
  spp_y :: f32
  spp_pressure :: f32
  spp_ts_ms :: millis

record stroke_end_payload =
  sep_stroke_id :: uuid
  sep_ts_ms :: millis

record stroke_undo_payload =
  sup_stroke_id :: uuid

record laser_move_payload =
  lm_x :: f32
  lm_y :: f32

record stroke_sync_point =
  ssp_x :: f32
  ssp_y :: f32
  ssp_pressure :: f32
  ssp_ts_ms :: millis

record stroke_sync_stroke =
  sss_stroke_id :: uuid
  sss_owner_id :: uuid
  sss_begin :: "stroke_begin_payload option"
  sss_points :: "stroke_sync_point list"
  sss_end_ts_ms :: "millis option"

record stroke_sync_payload =
  ssync_seq :: nat
  ssync_strokes :: "stroke_sync_stroke list"

record position_report_payload =
  pos_user_id :: uuid
  pos_media_position_ms :: nat
  pos_playing :: bool
  pos_client_ts_ms :: millis

text \<open>
  \<open>ChatPayload\<close> has a hand-written \<open>Deserialize\<close>: after the derived reading of its fields it
  refuses a text longer than 2048 bytes. \<open>decode_chat\<close> is that second half.
\<close>

definition CHAT_MAX_TEXT_LEN :: nat where "CHAT_MAX_TEXT_LEN = 2048"

record chat_payload =
  chat_sender_id :: uuid
  chat_text :: rstring
  chat_reply_to :: "uuid option"
  chat_sent_ms :: millis

definition decode_chat :: "chat_payload \<Rightarrow> chat_payload option" where
  "decode_chat inner =
     (if utf8_len (chat_text inner) > CHAT_MAX_TEXT_LEN then None else Some inner)"

section \<open>Errors\<close>

datatype room_error_code =
  CUnauthorized | CInvalidCode | CRoomNotFound | CRoomClosed | CRoomFull | CAlreadyJoined
| CNotJoined | CInvalidState | CNotHost | CMigrationDisabled | CInternal | CStaleCommand

record room_error_payload =
  rep_code :: room_error_code
  rep_expected_seq :: "nat option"

datatype room_error =
  Unauthorized | InvalidCode | RoomNotFound | RoomClosedErr | RoomFull | AlreadyJoined
| NotJoined | InvalidState | NotHost | MigrationDisabled
| StaleCommand (stale_got: nat) (stale_expected: nat)
| DuplicateCommand (dup_got: nat) (dup_last: nat)
| Internal string

fun to_error_code :: "room_error \<Rightarrow> room_error_code" where
  "to_error_code Unauthorized = CUnauthorized"
| "to_error_code InvalidCode = CInvalidCode"
| "to_error_code RoomNotFound = CRoomNotFound"
| "to_error_code RoomClosedErr = CRoomClosed"
| "to_error_code RoomFull = CRoomFull"
| "to_error_code AlreadyJoined = CAlreadyJoined"
| "to_error_code NotJoined = CNotJoined"
| "to_error_code InvalidState = CInvalidState"
| "to_error_code NotHost = CNotHost"
| "to_error_code MigrationDisabled = CMigrationDisabled"
| "to_error_code (StaleCommand _ _) = CStaleCommand"
| "to_error_code (DuplicateCommand _ _) = CStaleCommand"
| "to_error_code (Internal _) = CInternal"

text \<open>A fallible operation returns its error on the left, as \<open>Result\<close> does on \<open>Err\<close>.\<close>

type_synonym 'a result = "room_error + 'a"

section \<open>Facts about the capability sets\<close>

lemma preset_by_name_simps [simp]:
  "preset_by_name ''Viewer'' = Some VIEWER_PRESET"
  "preset_by_name ''Editor'' = Some EDITOR_PRESET"
  "preset_by_name ''CoHost'' = Some COHOST_PRESET"
  by (simp_all add: preset_by_name_def ALL_PRESETS_def)

lemma preset_by_name_SomeD:
  "preset_by_name name = Some c \<Longrightarrow> c \<in> {VIEWER_PRESET, EDITOR_PRESET, COHOST_PRESET}"
  by (auto simp: preset_by_name_def ALL_PRESETS_def split: if_splits)

lemma HOST_value: "HOST = 0xEFF"
  by (simp add: HOST_def cap_bits)

lemma decode_chat_bound: "decode_chat c = Some c' \<Longrightarrow> c' = c \<and> utf8_len (chat_text c') \<le> 2048"
  by (auto simp: decode_chat_def CHAT_MAX_TEXT_LEN_def split: if_splits)

end
