(* ===== verification/Codes.thy ===== *)
theory Codes
  imports Prelude
begin

text \<open>
  Room codes, \<open>rooms/codes.rs\<close>: the alphabet, the generator over a random source given as the
  successive eight-byte buffers \<open>fill_bytes\<close> produces, validation and normalization. The
  lemmas show that one buffer always suffices (the rejection branch is never taken), that every
  code is produced by the same number of byte draws, and that what \<open>normalize\<close> accepts is
  exactly the codes up to ASCII case.
\<close>

definition ALPHABET :: rstring where
  "ALPHABET = ascii ''ABCDEFGHJKLMNPQRSTUVWXYZ23456789''"

definition CODE_LEN :: nat where "CODE_LEN = 6"

section \<open>Generation\<close>

definition code_index :: "u8 \<Rightarrow> nat" where
  "code_index b = unat (drop_bit 3 b AND 0x1F)"

text \<open>The inner \<open>for &b in &buf\<close> with its rejection test and its \<open>break\<close>.\<close>

fun draw_chars :: "u8 list \<Rightarrow> rstring \<Rightarrow> rstring" where
  "draw_chars [] out = out"
| "draw_chars (b # buf) out =
     (let v = code_index b in
      if v < length ALPHABET
      then let out' = out @ [ALPHABET ! v] in
           if length out' = CODE_LEN then out' else draw_chars buf out'
      else draw_chars buf out)"

text \<open>
  The \<open>while out.len() < CODE_LEN\<close> loop over the buffers of the random source; \<open>None\<close> when the
  listed buffers are used up before the code is complete.
\<close>

fun generate_loop :: "u8 list list \<Rightarrow> rstring \<Rightarrow> rstring option" where
  "generate_loop bufs out =
     (if length out < CODE_LEN
      then (case bufs of [] \<Rightarrow> None | buf # rest \<Rightarrow> generate_loop rest (draw_chars buf out))
      else Some out)"

declare generate_loop.simps [simp del]

definition generate_code :: "u8 list list \<Rightarrow> rstring option" where
  "generate_code rng = generate_loop rng []"

section \<open>Validation\<close>

definition is_valid_code :: "rstring \<Rightarrow> bool" where
  "is_valid_code s \<longleftrightarrow> utf8_len s = CODE_LEN \<and> list_all (\<lambda>c. c \<in> set ALPHABET) s"

definition to_ascii_uppercase :: "rstring \<Rightarrow> rstring" where
  "to_ascii_uppercase s = map (\<lambda>c. if 97 \<le> c \<and> c \<le> 122 then c - 32 else c) s"

definition normalize :: "rstring \<Rightarrow> rstring option" where
  "normalize s =
     (let upper = to_ascii_uppercase s in if is_valid_code upper then Some upper else None)"

section \<open>The alphabet\<close>

lemma ALPHABET_codes:
  "ALPHABET = [65, 66, 67, 68, 69, 70, 71, 72, 74, 75, 76, 77, 78, 80, 81, 82, 83, 84, 85, 86, 87,
     88, 89, 90, 50, 51, 52, 53, 54, 55, 56, 57]"
  by (simp add: ALPHABET_def ascii_def)

lemma length_ALPHABET [simp]: "length ALPHABET = 32"
  by (simp add: ALPHABET_codes)

lemma distinct_ALPHABET: "distinct ALPHABET"
  by (simp add: ALPHABET_codes)

lemma ALPHABET_ascii: "c \<in> set ALPHABET \<Longrightarrow> 50 \<le> c \<and> c \<le> 90"
  by (auto simp: ALPHABET_codes)

lemma utf8_len_ascii: "\<forall>c \<in> set s. c < 128 \<Longrightarrow> utf8_len s = length s"
  by (induction s) (auto simp: utf8_len_def utf8_width_def)

lemma utf8_len_code: "set s \<subseteq> set ALPHABET \<Longrightarrow> utf8_len s = length s"
  by (rule utf8_len_ascii) (use ALPHABET_ascii in fastforce)

lemma is_valid_code_iff: "is_valid_code s \<longleftrightarrow> length s = 6 \<and> set s \<subseteq> set ALPHABET"
  by (auto simp: is_valid_code_def CODE_LEN_def list_all_iff utf8_len_code subset_iff)

lemma uppercase_code: "set s \<subseteq> set ALPHABET \<Longrightarrow> to_ascii_uppercase s = s"
  by (auto simp: to_ascii_uppercase_def intro!: map_idI dest!: subsetD ALPHABET_ascii)

lemma uppercase_idem: "to_ascii_uppercase (to_ascii_uppercase s) = to_ascii_uppercase s"
  by (auto simp: to_ascii_uppercase_def)

lemma length_uppercase [simp]: "length (to_ascii_uppercase s) = length s"
  by (simp add: to_ascii_uppercase_def)

section \<open>Generation needs one buffer\<close>

lemma code_index_div: "code_index b = unat b div 8"
proof -
  have "drop_bit 3 b AND 0x1F = take_bit 5 (drop_bit 3 b)"
    by (simp add: take_bit_eq_mask mask_eq_exp_minus_1)
  moreover have "unat b < 2 ^ LENGTH(8)" by (rule unsigned_less)
  ultimately show ?thesis
    by (simp add: code_index_def unsigned_take_bit_eq unsigned_drop_bit_eq take_bit_nat_eq_self
        drop_bit_nat_def take_bit_nat_def)
qed

lemma code_index_less [simp]: "code_index b < 32"
proof -
  have "unat b < 2 ^ LENGTH(8)" by (rule unsigned_less)
  then show ?thesis by (simp add: code_index_div)
qed

definition code_char :: "u8 \<Rightarrow> nat" where
  "code_char b = ALPHABET ! code_index b"

lemma code_char_in: "code_char b \<in> set ALPHABET"
  by (simp add: code_char_def nth_mem)

lemma draw_chars_take:
  "length out < CODE_LEN \<Longrightarrow>
     draw_chars buf out = out @ map code_char (take (CODE_LEN - length out) buf)"
proof (induction buf arbitrary: out)
  case (Cons b buf)
  show ?case
  proof (cases "Suc (length out) = CODE_LEN")
    case True
    then have "CODE_LEN - length out = Suc 0" by simp
    with True show ?thesis by (simp add: Let_def code_char_def)
  next
    case False
    with Cons.prems have less: "length (out @ [code_char b]) < CODE_LEN" by simp
    have "draw_chars (b # buf) out = draw_chars buf (out @ [code_char b])"
      using False by (simp add: Let_def code_char_def)
    also have "\<dots> = (out @ [code_char b]) @ map code_char (take (CODE_LEN - Suc (length out)) buf)"
      using Cons.IH [OF less] by simp
    also have "\<dots> = out @ map code_char (take (Suc (CODE_LEN - Suc (length out))) (b # buf))"
      by simp
    also have "Suc (CODE_LEN - Suc (length out)) = CODE_LEN - length out"
      using less by simp
    finally show ?thesis .
  qed
qed simp

lemma generate_code_first_buffer:
  assumes "6 \<le> length buf"
  shows "generate_code (buf # rest) = Some (map code_char (take 6 buf))"
  using assms
  by (simp add: generate_code_def generate_loop.simps [of "buf # rest"] draw_chars_take
      generate_loop.simps [of rest] CODE_LEN_def)

section \<open>Every code is equally likely\<close>

lemma code_char_eq_iff: "i < 32 \<Longrightarrow> code_char b = ALPHABET ! i \<longleftrightarrow> unat b div 8 = i"
  using nth_eq_iff_index_eq [OF distinct_ALPHABET, of "unat b div 8" i] code_index_less [of b]
  by (simp add: code_char_def code_index_div)

lemma unat_u8: "n < 256 \<Longrightarrow> unat (word_of_nat n :: u8) = n"
  by (simp add: unat_of_nat)

lemma card_draws: "i < 32 \<Longrightarrow> card {b :: u8. unat b div 8 = i} = 8"
proof -
  assume i: "i < 32"
  have "{b :: u8. unat b div 8 = i} = word_of_nat ` {8 * i ..< 8 * i + 8}" (is "?L = ?R")
  proof
    show "?L \<subseteq> ?R"
    proof
      fix b :: u8 assume "b \<in> ?L"
      then have "unat b \<in> {8 * i ..< 8 * i + 8}" by auto
      then show "b \<in> ?R" by (metis image_eqI of_nat_unat ucast_id)
    qed
    show "?R \<subseteq> ?L"
    proof
      fix b :: u8 assume "b \<in> ?R"
      then obtain n where n: "b = word_of_nat n" "8 * i \<le> n" "n < 8 * i + 8" by auto
      then have "unat b = n" using i by (simp add: unat_u8)
      with n show "b \<in> ?L" by simp
    qed
  qed
  moreover have "inj_on (word_of_nat :: nat \<Rightarrow> u8) {8 * i ..< 8 * i + 8}"
  proof (rule inj_onI)
    fix x y
    assume x: "x \<in> {8 * i ..< 8 * i + 8}" and y: "y \<in> {8 * i ..< 8 * i + 8}"
      and eq: "(word_of_nat x :: u8) = word_of_nat y"
    have "x = unat (word_of_nat x :: u8)" by (rule unat_u8 [symmetric]) (use x i in simp)
    also have "\<dots> = unat (word_of_nat y :: u8)" by (simp only: eq)
    also have "\<dots> = y" by (rule unat_u8) (use y i in simp)
    finally show "x = y" .
  qed
  ultimately show ?thesis by (simp add: card_image)
qed

lemma card_code_char: "c \<in> set ALPHABET \<Longrightarrow> card {b. code_char b = c} = 8"
  by (auto simp: in_set_conv_nth code_char_eq_iff card_draws)

lemma card_draws_list:
  "set c \<subseteq> set ALPHABET \<Longrightarrow> card {bs. map code_char bs = c} = 8 ^ length c"
proof (induction c)
  case (Cons x c)
  have "{bs. map code_char bs = x # c} =
      (\<lambda>(b, bs). b # bs) ` ({b. code_char b = x} \<times> {bs. map code_char bs = c})"
    by (auto simp: map_eq_Cons_conv)
  moreover have "inj_on (\<lambda>(b, bs). b # bs) A" for A :: "(u8 \<times> u8 list) set"
    by (auto simp: inj_on_def)
  ultimately show ?case
    using Cons by (simp add: card_image card_cartesian_product card_code_char)
qed simp

lemma card_codes: "card {s. is_valid_code s} = 32 ^ 6"
proof -
  have "{s. is_valid_code s} = {s. set s \<subseteq> set ALPHABET \<and> length s = 6}"
    by (auto simp: is_valid_code_iff)
  then show ?thesis
    using card_lists_length_eq [of "set ALPHABET" 6] distinct_card [OF distinct_ALPHABET]
    by simp
qed

section \<open>Properties\<close>

text \<open>
  Given one full buffer of random bytes, \<open>generate_code\<close> returns a valid code: the
  loop ends after that buffer and no byte is ever rejected.
\<close>

theorem generate_code_valid:
  assumes "length buf = 8"
  shows "\<exists>code. generate_code (buf # rest) = Some code \<and> is_valid_code code \<and> normalize code = Some code"
proof -
  let ?code = "map code_char (take 6 buf)"
  have "set ?code \<subseteq> set ALPHABET" using code_char_in by auto
  moreover from this assms have "is_valid_code ?code" by (simp add: is_valid_code_iff)
  moreover have "generate_code (buf # rest) = Some ?code"
    using assms by (simp add: generate_code_first_buffer)
  ultimately show ?thesis by (simp add: normalize_def uppercase_code Let_def)
qed

theorem generate_code_valid_witness:
  "\<exists>code. generate_code ([0, 8, 16, 24, 32, 255, 1, 2] # []) = Some code \<and> is_valid_code code
     \<and> normalize code = Some code"
  using generate_code_valid [of "[0, 8, 16, 24, 32, 255, 1, 2]" "[]"] by simp

text \<open>
  The generator is unbiased: each of the \<open>32 ^ 6\<close> valid codes is produced by
  exactly \<open>8 ^ 6\<close> of the \<open>2 ^ 48\<close> possible draws of six random bytes.
\<close>

theorem generate_code_uniform:
  assumes "is_valid_code code"
  shows "card {bs. length bs = 6 \<and> generate_code [bs] = Some code} = 8 ^ 6"
proof -
  have "{bs. length bs = 6 \<and> generate_code [bs] = Some code} = {bs. map code_char bs = code}"
    using assms by (auto simp: generate_code_first_buffer is_valid_code_iff)
  then show ?thesis
    using assms by (simp add: card_draws_list is_valid_code_iff)
qed

theorem generate_code_uniform_witness:
  "card {bs. length bs = 6 \<and> generate_code [bs] = Some (ascii ''ABCDEF'')} = 8 ^ 6"
  by (rule generate_code_uniform) (simp add: is_valid_code_iff ascii_def ALPHABET_codes)

text \<open>
  What \<open>normalize\<close> accepts, it turns into a valid code by upper-casing ASCII letters
  only, it accepts exactly the strings whose upper-cased form is a valid code, and doing it
  twice changes nothing.
\<close>

theorem normalize_spec:
  "normalize s = Some t \<longleftrightarrow> t = to_ascii_uppercase s \<and> length s = 6 \<and> set t \<subseteq> set ALPHABET
     \<and> normalize t = Some t"
  by (auto simp: normalize_def Let_def is_valid_code_iff uppercase_idem)

text \<open>
  The alphabet contains \<open>L\<close>: a code spelt with \<open>L\<close> is accepted, although the module's comment
  lists \<open>L\<close> among the excluded letters.
\<close>

lemma alphabet_contains_L: "is_valid_code (ascii ''LLLLLL'') \<and> 76 \<in> set ALPHABET"
  by (simp add: is_valid_code_iff ascii_def ALPHABET_codes)

end
