(* ===== verification/Validation.thy ===== *)
theory Validation
  imports Protocol
begin

text \<open>
  Validation of what a client supplies, \<open>rooms/validation.rs\<close>: room titles, display names and
  coordinates. \<open>str::trim\<close> strips the Unicode \<open>White_Space\<close> characters; \<open>f32\<close> comparisons are
  read off the IEEE-754 bits. The lemmas characterise exactly what each validator accepts.
\<close>

definition MAX_DISPLAY_NAME_CHARS :: nat where "MAX_DISPLAY_NAME_CHARS = 32"
definition MAX_ROOM_TITLE_CHARS :: nat where "MAX_ROOM_TITLE_CHARS = 80"

definition is_deceptive_format_char :: "nat \<Rightarrow> bool" where
  "is_deceptive_format_char c \<longleftrightarrow>
     c = 0x061C \<or> c = 0x200B \<or> c = 0x200E \<or> c = 0x200F \<or> (0x202A \<le> c \<and> c \<le> 0x202E)
     \<or> c = 0x2060 \<or> (0x2066 \<le> c \<and> c \<le> 0x2069) \<or> c = 0xFEFF"

definition is_refused_char :: "nat \<Rightarrow> bool" where
  "is_refused_char c \<longleftrightarrow> c < 0x20 \<or> (0x7F \<le> c \<and> c \<le> 0x9F) \<or> is_deceptive_format_char c"

definition validate_room_title :: "rstring \<Rightarrow> rstring result" where
  "validate_room_title title =
     (if length title > MAX_ROOM_TITLE_CHARS then Inl InvalidState
      else if list_ex is_refused_char title then Inl InvalidState
      else Inr title)"

section \<open>Trimming\<close>

definition is_white_space :: "nat \<Rightarrow> bool" where
  "is_white_space c \<longleftrightarrow>
     (0x9 \<le> c \<and> c \<le> 0xD) \<or> c = 0x20 \<or> c = 0x85 \<or> c = 0xA0 \<or> c = 0x1680
     \<or> (0x2000 \<le> c \<and> c \<le> 0x200A) \<or> c = 0x2028 \<or> c = 0x2029 \<or> c = 0x202F \<or> c = 0x205F
     \<or> c = 0x3000"

definition trim_matches :: "(nat \<Rightarrow> bool) \<Rightarrow> rstring \<Rightarrow> rstring" where
  "trim_matches P s = rev (dropWhile P (rev (dropWhile P s)))"

definition is_ascii_space :: "nat \<Rightarrow> bool" where
  "is_ascii_space c \<longleftrightarrow> c = 32 \<or> c = 9 \<or> c = 10 \<or> c = 13 \<or> c = 11 \<or> c = 12"

definition trim_ascii :: "rstring \<Rightarrow> rstring option" where
  "trim_ascii s = (let trimmed = trim_matches is_ascii_space s in
     if trimmed = [] then None else Some trimmed)"

definition validate_display_name :: "rstring \<Rightarrow> rstring result" where
  "validate_display_name name =
     (if name = [] then Inl InvalidState
      else if name \<noteq> trim_matches is_white_space name then Inl InvalidState
      else case trim_ascii name of
        None \<Rightarrow> Inl InvalidState
      | Some cleaned \<Rightarrow>
          if length cleaned > MAX_DISPLAY_NAME_CHARS then Inl InvalidState
          else if list_ex is_refused_char cleaned then Inl InvalidState
          else Inr cleaned)"

section \<open>Coordinates\<close>

text \<open>
  The fields of an IEEE-754 single: the sign bit, the eight exponent bits and the 23 fraction
  bits; the exponent and the fraction together are the magnitude. A value is finite when its
  exponent bits are not all ones. Two values that are not NaN compare as their magnitudes with
  the sign applied, so the two zeros are equal.
\<close>

definition f32_magnitude :: "f32 \<Rightarrow> nat" where
  "f32_magnitude n = unat n mod 2 ^ 31"

definition f32_negative :: "f32 \<Rightarrow> bool" where
  "f32_negative n \<longleftrightarrow> 2 ^ 31 \<le> unat n"

definition f32_exponent :: "f32 \<Rightarrow> nat" where
  "f32_exponent n = f32_magnitude n div 2 ^ 23"

definition f32_fraction :: "f32 \<Rightarrow> nat" where
  "f32_fraction n = f32_magnitude n mod 2 ^ 23"

definition f32_is_finite :: "f32 \<Rightarrow> bool" where
  "f32_is_finite n \<longleftrightarrow> f32_exponent n \<noteq> 255"

definition f32_is_nan :: "f32 \<Rightarrow> bool" where
  "f32_is_nan n \<longleftrightarrow> f32_magnitude n > 0x7F800000"

definition f32_key :: "f32 \<Rightarrow> int" where
  "f32_key n = (if f32_negative n then - int (f32_magnitude n) else int (f32_magnitude n))"

definition f32_le :: "f32 \<Rightarrow> f32 \<Rightarrow> bool" where
  "f32_le a b \<longleftrightarrow> \<not> f32_is_nan a \<and> \<not> f32_is_nan b \<and> f32_key a \<le> f32_key b"

definition f32_zero :: f32 where "f32_zero = 0"
definition f32_one :: f32 where "f32_one = 0x3F800000"

definition validate_unit_range :: "f32 \<Rightarrow> bool" where
  "validate_unit_range n =
     (if \<not> f32_is_finite n then False else f32_le f32_zero n \<and> f32_le n f32_one)"

section \<open>What the validators accept\<close>

lemma trim_matches_fixed:
  "trim_matches P s = s \<longleftrightarrow> s = [] \<or> (\<not> P (hd s) \<and> \<not> P (last s))"
proof (cases "s = []")
  case False
  have "trim_matches P s = s \<longleftrightarrow> \<not> P (hd s) \<and> \<not> P (last s)"
  proof
    assume eq: "trim_matches P s = s"
    have "length (trim_matches P s) \<le> length (dropWhile P s)"
      by (metis length_dropWhile_le length_rev trim_matches_def)
    with eq have "length s \<le> length (dropWhile P s)" by simp
    then have drop: "dropWhile P s = s"
      by (metis append_eq_append_conv append_Nil le_antisym length_dropWhile_le
          takeWhile_dropWhile_id)
    then have hd: "\<not> P (hd s)" using False by (metis hd_dropWhile)
    from eq drop have "dropWhile P (rev s) = rev s"
      by (metis rev_swap trim_matches_def)
    then have "\<not> P (hd (rev s))" using False by (metis hd_dropWhile rev_is_Nil_conv)
    with hd False show "\<not> P (hd s) \<and> \<not> P (last s)" by (simp add: hd_rev)
  next
    assume ends: "\<not> P (hd s) \<and> \<not> P (last s)"
    from False ends have "dropWhile P s = s" by (cases s) auto
    moreover from False ends have "dropWhile P (rev s) = rev s"
      by (cases "rev s") (auto simp: hd_rev [symmetric])
    ultimately show "trim_matches P s = s" by (simp add: trim_matches_def)
  qed
  with False show ?thesis by simp
qed (simp add: trim_matches_def)

lemma ascii_space_white: "is_ascii_space c \<Longrightarrow> is_white_space c"
  by (auto simp: is_ascii_space_def is_white_space_def)

lemma trimmed_ascii: "trim_matches is_white_space s = s \<Longrightarrow> trim_matches is_ascii_space s = s"
  by (auto simp: trim_matches_fixed dest: ascii_space_white)

lemma validate_room_title_Inr:
  "validate_room_title t = Inr u \<longleftrightarrow> u = t \<and> length t \<le> 80 \<and> (\<forall>c \<in> set t. \<not> is_refused_char c)"
  by (auto simp: validate_room_title_def MAX_ROOM_TITLE_CHARS_def list_ex_iff)

text \<open>The value of a finite encoding, counted in units of \<open>2 ^ -149\<close> (the least subnormal).\<close>

definition f32_units :: "f32 \<Rightarrow> int" where
  "f32_units n =
     (let m = (if f32_exponent n = 0 then f32_fraction n
               else (2 ^ 23 + f32_fraction n) * 2 ^ (f32_exponent n - 1))
      in if f32_negative n then - int m else int m)"

lemma f32_magnitude_less: "f32_magnitude n < 2 ^ 31"
  by (simp add: f32_magnitude_def)

lemma f32_exponent_le: "f32_exponent n \<le> 255"
  using f32_magnitude_less [of n] by (simp add: f32_exponent_def)

lemma f32_fraction_less: "f32_fraction n < 2 ^ 23"
  by (simp add: f32_fraction_def)

lemma f32_magnitude_split: "f32_magnitude n = f32_exponent n * 2 ^ 23 + f32_fraction n"
  by (simp add: f32_exponent_def f32_fraction_def)

lemma f32_finite_not_nan: "f32_is_finite n \<Longrightarrow> \<not> f32_is_nan n"
  using f32_exponent_le [of n] f32_fraction_less [of n]
  by (auto simp: f32_is_finite_def f32_is_nan_def f32_magnitude_split)

lemma abs_units_le_one:
  fixes e f :: nat
  assumes "f < 2 ^ 23"
  shows "(if e = 0 then f else (2 ^ 23 + f) * 2 ^ (e - 1)) \<le> 2 ^ 149
    \<longleftrightarrow> e * 2 ^ 23 + f \<le> 127 * 2 ^ 23"
proof -
  consider "e = 0" | "1 \<le> e" "e \<le> 126" | "e = 127" | "128 \<le> e" by linarith
  then show ?thesis
  proof cases
    case 1
    with assms show ?thesis by simp
  next
    case 2
    have "(2 ^ 23 + f) * 2 ^ (e - 1) \<le> (2 ^ 24) * 2 ^ (125 :: nat)"
    proof (rule mult_le_mono)
      show "2 ^ 23 + f \<le> 2 ^ 24" using assms by simp
      show "(2 :: nat) ^ (e - 1) \<le> 2 ^ 125" using 2 by (intro power_increasing) auto
    qed
    also have "\<dots> = 2 ^ 149" by simp
    finally have le: "(2 ^ 23 + f) * 2 ^ (e - 1) \<le> 2 ^ 149" .
    have "e * 2 ^ 23 \<le> 126 * 2 ^ 23" using 2 by simp
    with assms have "e * 2 ^ 23 + f \<le> 127 * 2 ^ 23" by simp
    with le 2 show ?thesis by simp
  next
    case 3
    then show ?thesis by simp
  next
    case 4
    have "2 ^ 150 \<le> (2 ^ 23) * (2 :: nat) ^ (127 :: nat)" by simp
    also have "\<dots> \<le> (2 ^ 23 + f) * 2 ^ (e - 1)"
    proof (rule mult_le_mono)
      show "(2 :: nat) ^ 127 \<le> 2 ^ (e - 1)" using 4 by (intro power_increasing) auto
    qed simp
    finally have "\<not> (2 ^ 23 + f) * 2 ^ (e - 1) \<le> 2 ^ 149" by simp
    moreover have "128 * 2 ^ 23 \<le> e * 2 ^ 23" using 4 by simp
    ultimately show ?thesis using 4 by simp
  qed
qed

lemma abs_f32_units: "\<bar>f32_units n\<bar> \<le> 2 ^ 149 \<longleftrightarrow> f32_magnitude n \<le> 127 * 2 ^ 23"
proof -
  let ?m = "if f32_exponent n = 0 then f32_fraction n
    else (2 ^ 23 + f32_fraction n) * 2 ^ (f32_exponent n - 1)"
  have "\<bar>f32_units n\<bar> = int ?m" by (simp only: f32_units_def Let_def split: if_split) auto
  then have "\<bar>f32_units n\<bar> \<le> 2 ^ 149 \<longleftrightarrow> ?m \<le> 2 ^ 149"
    by (metis of_nat_le_iff of_nat_numeral of_nat_power)
  also have "\<dots> \<longleftrightarrow> f32_magnitude n \<le> 127 * 2 ^ 23"
    by (subst f32_magnitude_split) (rule abs_units_le_one [OF f32_fraction_less])
  finally show ?thesis .
qed

lemma f32_units_sign: "0 \<le> f32_units n \<longleftrightarrow> \<not> f32_negative n \<or> f32_magnitude n = 0"
  by (auto simp: f32_units_def Let_def f32_magnitude_split)

section \<open>Properties\<close>

text \<open>
  A display name is accepted exactly when it is one to 32 characters, neither
  starts nor ends with white space, and contains no control or deceptive character; the name
  used is then the one supplied.
\<close>

theorem validate_display_name_accepts:
  "validate_display_name name = Inr n \<longleftrightarrow>
     n = name \<and> 1 \<le> length name \<and> length name \<le> 32
     \<and> \<not> is_white_space (hd name) \<and> \<not> is_white_space (last name)
     \<and> \<not> list_ex is_refused_char name"
proof (cases "name \<noteq> [] \<and> trim_matches is_white_space name = name")
  case True
  then have "trim_ascii name = Some name" by (simp add: trim_ascii_def trimmed_ascii)
  moreover from True have "\<not> is_white_space (hd name)" "\<not> is_white_space (last name)"
    using trim_matches_fixed [of is_white_space name] by auto
  moreover from True have "Suc 0 \<le> length name" by (cases name) auto
  ultimately show ?thesis using True
    by (auto simp: validate_display_name_def MAX_DISPLAY_NAME_CHARS_def)
next
  case False
  then have "name = [] \<or> name \<noteq> trim_matches is_white_space name" by metis
  then have refused: "validate_display_name name = Inl InvalidState"
    by (auto simp: validate_display_name_def)
  from False have "name = [] \<or> is_white_space (hd name) \<or> is_white_space (last name)"
    using trim_matches_fixed [of is_white_space name] by metis
  then show ?thesis by (auto simp: refused)
qed

text \<open>
  A coordinate is accepted exactly when it is a finite number between zero and one,
  where the value of the encoding is counted in units of \<open>2 ^ -149\<close>: NaN, the infinities and
  every number outside the range are refused.
\<close>

theorem validate_unit_range_value:
  "validate_unit_range n \<longleftrightarrow> f32_is_finite n \<and> 0 \<le> f32_units n \<and> f32_units n \<le> 2 ^ 149"
proof (cases "f32_is_finite n")
  case True
  have "\<not> f32_is_nan f32_zero" "\<not> f32_is_nan f32_one" "f32_key f32_zero = 0"
      "f32_key f32_one = 127 * 2 ^ 23"
    by (simp_all add: f32_is_nan_def f32_zero_def f32_one_def f32_key_def f32_magnitude_def
        f32_negative_def)
  with True have "validate_unit_range n \<longleftrightarrow> 0 \<le> f32_key n \<and> f32_key n \<le> 127 * 2 ^ 23"
    by (simp add: validate_unit_range_def f32_le_def f32_finite_not_nan)
  also have "\<dots> \<longleftrightarrow> 0 \<le> f32_units n \<and> f32_magnitude n \<le> 127 * 2 ^ 23"
    by (auto simp: f32_units_sign f32_key_def)
  also have "\<dots> \<longleftrightarrow> 0 \<le> f32_units n \<and> f32_units n \<le> 2 ^ 149"
    using abs_f32_units [of n] by (auto simp: abs_le_iff)
  finally show ?thesis using True by simp
qed (simp add: validate_unit_range_def)

end
