(* ===== verification/Ratelimit.thy ===== *)
theory Ratelimit
  imports Prelude
begin

text \<open>
  The per-connection rate limiter: \<open>TokenBucket\<close> of \<open>ws/mod.rs\<close> and \<open>PerConnLimiter\<close> of
  \<open>ratelimit/mod.rs\<close>. Clock readings are arguments, as in \<open>try_consume_n_at\<close>. The lemmas show
  that the saturating arithmetic never distorts a refill, and the two sides of the contract: no
  sequence of requests is granted more than the burst plus the refill, and a sender that keeps
  to that arrival curve is never refused.
\<close>

section \<open>The token bucket\<close>

record token_bucket =
  tb_capacity :: u32
  tb_refill_per_sec :: u32
  tb_milli_tokens :: nat
  tb_last_refill_ms :: millis

definition bucket_new_at :: "u32 \<Rightarrow> u32 \<Rightarrow> millis \<Rightarrow> token_bucket" where
  "bucket_new_at capacity refill now =
     \<lparr>tb_capacity = capacity, tb_refill_per_sec = refill,
      tb_milli_tokens = unat capacity * 1000, tb_last_refill_ms = now\<rparr>"

definition refill_bucket :: "token_bucket \<Rightarrow> millis \<Rightarrow> token_bucket" where
  "refill_bucket b now =
     (let elapsed = nat (max 0 (i64_wrap (now - tb_last_refill_ms b)));
          cap = unat (tb_capacity b) * 1000
      in b\<lparr>tb_milli_tokens := min cap (saturating_add_u64 (tb_milli_tokens b)
               (saturating_mul_u64 elapsed (unat (tb_refill_per_sec b)))),
           tb_last_refill_ms := max (tb_last_refill_ms b) now\<rparr>)"

definition try_consume_n_at :: "token_bucket \<Rightarrow> u32 \<Rightarrow> millis \<Rightarrow> bool \<times> token_bucket" where
  "try_consume_n_at b n now =
     (let b' = refill_bucket b now; need = unat n * 1000
      in if tb_milli_tokens b' < need then (False, b')
         else (True, b'\<lparr>tb_milli_tokens := tb_milli_tokens b' - need\<rparr>))"

definition try_consume_at :: "token_bucket \<Rightarrow> millis \<Rightarrow> bool \<times> token_bucket" where
  "try_consume_at b now = try_consume_n_at b 1 now"

section \<open>The connection's limiter\<close>

datatype rate_limit_scope = ConnScope | RoomScope | IpScope

record rate_limit_hit =
  rl_scope :: rate_limit_scope
  rl_observed :: u32
  rl_limit :: u32
  rl_retry_after_ms :: u32

definition DEFAULT_RETRY_AFTER_MS :: u32 where "DEFAULT_RETRY_AFTER_MS = 1000"
definition LASER_MSGS_PER_SEC :: u32 where "LASER_MSGS_PER_SEC = 60"
definition LASER_MSG_BURST :: u32 where "LASER_MSG_BURST = 60"

record per_conn_limiter =
  pcl_msg :: token_bucket
  pcl_bytes :: token_bucket
  pcl_laser :: token_bucket
  pcl_msg_limit :: u32
  pcl_bytes_limit :: u32

definition limiter_new :: "u32 \<Rightarrow> u32 \<Rightarrow> u32 \<Rightarrow> u32 \<Rightarrow> millis \<Rightarrow> per_conn_limiter" where
  "limiter_new msg_per_sec msg_burst bytes_per_sec bytes_burst now =
     \<lparr>pcl_msg = bucket_new_at msg_burst msg_per_sec now,
      pcl_bytes = bucket_new_at bytes_burst bytes_per_sec now,
      pcl_laser = bucket_new_at LASER_MSG_BURST LASER_MSGS_PER_SEC now,
      pcl_msg_limit = msg_per_sec,
      pcl_bytes_limit = bytes_per_sec\<rparr>"

definition limit_hit :: "u32 \<Rightarrow> u32 \<Rightarrow> rate_limit_hit" where
  "limit_hit observed limit =
     \<lparr>rl_scope = ConnScope, rl_observed = observed, rl_limit = limit,
      rl_retry_after_ms = DEFAULT_RETRY_AFTER_MS\<rparr>"

text \<open>\<open>u32::try_from(frame_bytes).unwrap_or(u32::MAX)\<close>.\<close>

definition frame_cost :: "nat \<Rightarrow> u32" where
  "frame_cost frame_bytes = (if frame_bytes \<le> u32_max then word_of_nat frame_bytes else - 1)"

definition check_msg ::
    "per_conn_limiter \<Rightarrow> millis \<Rightarrow> rate_limit_hit option \<times> per_conn_limiter" where
  "check_msg l now =
     (let (ok, b) = try_consume_at (pcl_msg l) now; l' = l\<lparr>pcl_msg := b\<rparr>
      in if ok then (None, l') else (Some (limit_hit 1 (pcl_msg_limit l)), l'))"

definition check_bytes ::
    "per_conn_limiter \<Rightarrow> nat \<Rightarrow> millis \<Rightarrow> rate_limit_hit option \<times> per_conn_limiter" where
  "check_bytes l frame_bytes now =
     (let n = frame_cost frame_bytes;
          (ok, b) = try_consume_n_at (pcl_bytes l) n now; l' = l\<lparr>pcl_bytes := b\<rparr>
      in if ok then (None, l') else (Some (limit_hit n (pcl_bytes_limit l)), l'))"

definition check_laser :: "per_conn_limiter \<Rightarrow> millis \<Rightarrow> bool \<times> per_conn_limiter" where
  "check_laser l now =
     (let (ok, b) = try_consume_at (pcl_laser l) now in (ok, l\<lparr>pcl_laser := b\<rparr>))"

text \<open>The two buckets read the clock one after the other, hence the two readings.\<close>

definition on_frame ::
    "per_conn_limiter \<Rightarrow> nat \<Rightarrow> millis \<Rightarrow> millis \<Rightarrow> rate_limit_hit option \<times> per_conn_limiter" where
  "on_frame l frame_bytes now now' =
     (let (ok, b) = try_consume_at (pcl_msg l) now; l1 = l\<lparr>pcl_msg := b\<rparr>
      in if \<not> ok then (Some (limit_hit 1 (pcl_msg_limit l)), l1)
         else let n = frame_cost frame_bytes;
                  (ok', b') = try_consume_n_at (pcl_bytes l1) n now'; l2 = l1\<lparr>pcl_bytes := b'\<rparr>
              in if \<not> ok' then (Some (limit_hit n (pcl_bytes_limit l1)), l2) else (None, l2))"

definition limiter_reset ::
    "per_conn_limiter \<Rightarrow> u32 \<Rightarrow> u32 \<Rightarrow> u32 \<Rightarrow> u32 \<Rightarrow> millis \<Rightarrow> per_conn_limiter" where
  "limiter_reset l msg_per_sec msg_burst bytes_per_sec bytes_burst now =
     l\<lparr>pcl_msg := bucket_new_at msg_burst msg_per_sec now,
       pcl_bytes := bucket_new_at bytes_burst bytes_per_sec now,
       pcl_laser := bucket_new_at LASER_MSG_BURST LASER_MSGS_PER_SEC now,
       pcl_msg_limit := msg_per_sec,
       pcl_bytes_limit := bytes_per_sec\<rparr>"

section \<open>The refill is exact\<close>

text \<open>A clock reading the code can meet: unix milliseconds of an \<open>i64\<close>, not negative.\<close>

definition clock_reading :: "millis \<Rightarrow> bool" where
  "clock_reading t \<longleftrightarrow> 0 \<le> t \<and> t \<le> i64_max"

lemma clock_difference: "clock_reading s \<Longrightarrow> clock_reading t \<Longrightarrow> i64_wrap (s - t) = s - t"
  by (rule i64_wrap_id) (simp add: clock_reading_def in_i64_def i64_min_def i64_max_def)

lemma clock_reading_max: "clock_reading s \<Longrightarrow> clock_reading t \<Longrightarrow> clock_reading (max s t)"
  by (simp add: clock_reading_def max_def)

lemma unat_u32_le: "unat (w :: u32) \<le> u32_max"
proof -
  have "unat w < 2 ^ LENGTH(32)" by (rule unsigned_less)
  then show ?thesis by (simp add: u32_max_def)
qed

lemma min_saturating:
  assumes "cap \<le> u64_max"
  shows "min cap (saturating_add_u64 m (saturating_mul_u64 e r)) = min cap (m + e * r)"
  using assms by (auto simp: saturating_add_u64_def saturating_mul_u64_def)

lemma refill_exact:
  assumes "clock_reading now" and "clock_reading (tb_last_refill_ms b)"
  shows "tb_milli_tokens (refill_bucket b now) =
      min (unat (tb_capacity b) * 1000)
        (tb_milli_tokens b + nat (max 0 (now - tb_last_refill_ms b)) * unat (tb_refill_per_sec b))"
proof -
  have "unat (tb_capacity b) * 1000 \<le> u64_max"
    using unat_u32_le [of "tb_capacity b"] by (simp add: u32_max_def u64_max_def)
  then show ?thesis
    using assms by (simp add: refill_bucket_def Let_def min_saturating clock_difference)
qed

lemma refill_simps [simp]:
  "tb_capacity (refill_bucket b now) = tb_capacity b"
  "tb_refill_per_sec (refill_bucket b now) = tb_refill_per_sec b"
  "tb_last_refill_ms (refill_bucket b now) = max (tb_last_refill_ms b) now"
  by (simp_all add: refill_bucket_def Let_def)

lemma consume_simps [simp]:
  "tb_capacity (snd (try_consume_n_at b n now)) = tb_capacity b"
  "tb_refill_per_sec (snd (try_consume_n_at b n now)) = tb_refill_per_sec b"
  "tb_last_refill_ms (snd (try_consume_n_at b n now)) = max (tb_last_refill_ms b) now"
  by (simp_all add: try_consume_n_at_def Let_def)

section \<open>Runs of requests\<close>

text \<open>The answers to a list of requests, each a number of tokens and a clock reading.\<close>

fun run_bucket :: "token_bucket \<Rightarrow> (u32 \<times> millis) list \<Rightarrow> bool list \<times> token_bucket" where
  "run_bucket b [] = ([], b)"
| "run_bucket b ((n, t) # reqs) =
     (let (ok, b') = try_consume_n_at b n t; (oks, b'') = run_bucket b' reqs in (ok # oks, b''))"

definition granted :: "(u32 \<times> millis) list \<Rightarrow> bool list \<Rightarrow> nat" where
  "granted reqs oks = sum_list (map (\<lambda>((n, _), ok). if ok then unat n else 0) (zip reqs oks))"

lemma granted_Cons [simp]:
  "granted ((n, t) # reqs) (ok # oks) = (if ok then unat n else 0) + granted reqs oks"
  by (simp add: granted_def)

lemma granted_Nil [simp]: "granted [] oks = 0"
  by (simp add: granted_def)

lemma nat_le_int_mult: "(0::int) \<le> a \<Longrightarrow> int (nat a * r) = a * int r"
  by simp

lemma consume_level:
  assumes "clock_reading now" and "clock_reading (tb_last_refill_ms b)"
  shows "int (tb_milli_tokens (snd (try_consume_n_at b n now)))
      + (if fst (try_consume_n_at b n now) then 1000 * int (unat n) else 0)
    = int (tb_milli_tokens (refill_bucket b now))"
  by (auto simp: try_consume_n_at_def Let_def)

lemma refill_level_le:
  assumes "clock_reading now" and "clock_reading (tb_last_refill_ms b)"
  shows "int (tb_milli_tokens (refill_bucket b now)) \<le> int (tb_milli_tokens b)
      + (max (tb_last_refill_ms b) now - tb_last_refill_ms b) * int (unat (tb_refill_per_sec b))"
proof -
  let ?e = "max 0 (now - tb_last_refill_ms b)"
  have "int (tb_milli_tokens (refill_bucket b now))
      \<le> int (tb_milli_tokens b + nat ?e * unat (tb_refill_per_sec b))"
    unfolding refill_exact [OF assms] by (rule of_nat_le_iff [THEN iffD2, OF min.cobounded2])
  also have "\<dots> = int (tb_milli_tokens b) + ?e * int (unat (tb_refill_per_sec b))"
    by simp
  also have "?e = max (tb_last_refill_ms b) now - tb_last_refill_ms b" by simp
  finally show ?thesis .
qed

lemma run_granted_le:
  assumes "clock_reading (tb_last_refill_ms b)" and "\<forall>(n, t) \<in> set reqs. clock_reading t"
    and "run_bucket b reqs = (oks, b')"
  shows "1000 * int (granted reqs oks) + int (tb_milli_tokens b') \<le> int (tb_milli_tokens b)
      + (tb_last_refill_ms b' - tb_last_refill_ms b) * int (unat (tb_refill_per_sec b))
    \<and> tb_refill_per_sec b' = tb_refill_per_sec b"
  using assms
proof (induction reqs arbitrary: b oks)
  case (Cons req reqs)
  obtain n t where req: "req = (n, t)" by (cases req)
  obtain ok c where c: "try_consume_n_at b n t = (ok, c)" by (cases "try_consume_n_at b n t")
  obtain oks' where r: "run_bucket c reqs = (oks', b')" and oks: "oks = ok # oks'"
    using Cons.prems(3) by (auto simp: req c Let_def split: prod.splits)
  have t: "clock_reading t" using Cons.prems(2) by (simp add: req)
  note b = Cons.prems(1)
  have c_simps: "tb_last_refill_ms c = max (tb_last_refill_ms b) t"
      "tb_refill_per_sec c = tb_refill_per_sec b"
    using consume_simps [of b n t] by (simp_all add: c)
  have "clock_reading (tb_last_refill_ms c)"
    unfolding c_simps using b t by (rule clock_reading_max)
  from Cons.IH [OF this _ r] Cons.prems(2) c_simps
  have IH: "1000 * int (granted reqs oks') + int (tb_milli_tokens b') \<le> int (tb_milli_tokens c)
      + (tb_last_refill_ms b' - tb_last_refill_ms c) * int (unat (tb_refill_per_sec b))"
    and refill: "tb_refill_per_sec b' = tb_refill_per_sec b" by auto
  have "int (tb_milli_tokens c) + (if ok then 1000 * int (unat n) else 0) \<le> int (tb_milli_tokens b)
      + (tb_last_refill_ms c - tb_last_refill_ms b) * int (unat (tb_refill_per_sec b))"
    using consume_level [OF t b, of n] refill_level_le [OF t b] by (simp add: c c_simps)
  with IH show ?case
    by (cases ok) (simp_all add: req oks refill left_diff_distrib)
qed auto

section \<open>Conforming senders\<close>

definition demand :: "(u32 \<times> millis) list \<Rightarrow> nat" where
  "demand reqs = sum_list (map (unat \<circ> fst) reqs)"

text \<open>
  Every window of consecutive requests asks for at most the capacity plus what is refilled over
  the window.
\<close>

definition conforming :: "u32 \<Rightarrow> u32 \<Rightarrow> (u32 \<times> millis) list \<Rightarrow> bool" where
  "conforming capacity refill reqs \<longleftrightarrow>
     (\<forall>j < length reqs. \<forall>i \<le> j.
        1000 * int (demand (take (Suc j - i) (drop i reqs)))
          \<le> 1000 * int (unat capacity) + int (unat refill) * (snd (reqs ! j) - snd (reqs ! i)))"

lemma demand_Cons [simp]: "demand (r # rs) = unat (fst r) + demand rs"
  by (simp add: demand_def)

lemma conforming_Cons: "conforming c r (x # xs) \<Longrightarrow> conforming c r xs"
  unfolding conforming_def
proof (intro allI impI)
  fix j i
  assume a: "\<forall>j < length (x # xs). \<forall>i \<le> j. 1000 * int (demand (take (Suc j - i) (drop i (x # xs))))
      \<le> 1000 * int (unat c) + int (unat r) * (snd ((x # xs) ! j) - snd ((x # xs) ! i))"
    and "j < length xs" "i \<le> j"
  then have "Suc j < length (x # xs)" "Suc i \<le> Suc j" by auto
  with a have "1000 * int (demand (take (Suc (Suc j) - Suc i) (drop (Suc i) (x # xs))))
      \<le> 1000 * int (unat c) + int (unat r) * (snd ((x # xs) ! Suc j) - snd ((x # xs) ! Suc i))"
    by blast
  then show "1000 * int (demand (take (Suc j - i) (drop i xs)))
      \<le> 1000 * int (unat c) + int (unat r) * (snd (xs ! j) - snd (xs ! i))" by simp
qed

text \<open>What the level must offer to the requests that follow: each prefix fits it.\<close>

definition prefixes_fit :: "int \<Rightarrow> u32 \<Rightarrow> millis \<Rightarrow> (u32 \<times> millis) list \<Rightarrow> bool" where
  "prefixes_fit level refill t reqs \<longleftrightarrow>
     (\<forall>j < length reqs. 1000 * int (demand (take (Suc j) reqs))
        \<le> level + int (unat refill) * (snd (reqs ! j) - t))"

lemma prefixes_fit_head:
  "prefixes_fit level r t (x # xs) \<Longrightarrow>
     1000 * int (unat (fst x)) \<le> level + int (unat r) * (snd x - t)"
  by (auto simp: prefixes_fit_def demand_def dest: spec [of _ 0])

lemma prefixes_fit_tail:
  assumes "prefixes_fit level r t (x # xs)"
  shows "prefixes_fit (level + int (unat r) * (snd x - t) - 1000 * int (unat (fst x))) r (snd x) xs"
  unfolding prefixes_fit_def
proof (intro allI impI)
  fix j assume "j < length xs"
  then have "Suc j < length (x # xs)" by simp
  with assms have "1000 * int (demand (take (Suc (Suc j)) (x # xs)))
      \<le> level + int (unat r) * (snd ((x # xs) ! Suc j) - t)"
    unfolding prefixes_fit_def by blast
  then show "1000 * int (demand (take (Suc j) xs))
      \<le> level + int (unat r) * (snd x - t) - 1000 * int (unat (fst x))
        + int (unat r) * (snd (xs ! j) - snd x)"
    by (simp add: right_diff_distrib)
qed

lemma prefixes_fit_min:
  "prefixes_fit l r t xs \<Longrightarrow> prefixes_fit l' r t xs \<Longrightarrow> prefixes_fit (min l l') r t xs"
  by (auto simp: prefixes_fit_def min_def)

lemma conforming_fits:
  assumes "conforming c r (x # xs)"
  shows "prefixes_fit (1000 * int (unat c)) r (snd x) (x # xs)"
  unfolding prefixes_fit_def
proof (intro allI impI)
  fix j assume "j < length (x # xs)"
  with assms have "\<forall>i \<le> j. 1000 * int (demand (take (Suc j - i) (drop i (x # xs))))
      \<le> 1000 * int (unat c) + int (unat r) * (snd ((x # xs) ! j) - snd ((x # xs) ! i))"
    unfolding conforming_def by blast
  from spec [OF this, of 0]
  show "1000 * int (demand (take (Suc j) (x # xs)))
      \<le> 1000 * int (unat c) + int (unat r) * (snd ((x # xs) ! j) - snd x)"
    by simp
qed

lemma run_all_granted:
  assumes "clock_reading (tb_last_refill_ms b)" and "\<forall>(n, t) \<in> set reqs. clock_reading t"
    and "sorted (map snd reqs)" and "\<forall>(n, t) \<in> set reqs. tb_last_refill_ms b \<le> t"
    and "conforming (tb_capacity b) (tb_refill_per_sec b) reqs"
    and "prefixes_fit (int (tb_milli_tokens b)) (tb_refill_per_sec b) (tb_last_refill_ms b) reqs"
  shows "fst (run_bucket b reqs) = replicate (length reqs) True"
  using assms
proof (induction reqs arbitrary: b)
  case (Cons req reqs)
  obtain n t where req: "req = (n, t)" by (cases req)
  let ?r = "int (unat (tb_refill_per_sec b))" and ?cap = "1000 * int (unat (tb_capacity b))"
  let ?b = "refill_bucket b t"
  have t: "clock_reading t" "tb_last_refill_ms b \<le> t" using Cons.prems by (auto simp: req)
  have level: "int (tb_milli_tokens ?b)
      = min ?cap (int (tb_milli_tokens b) + ?r * (t - tb_last_refill_ms b))"
    using refill_exact [OF t(1) Cons.prems(1)] t(2) by (simp add: mult.commute of_nat_min)
  have fit: "prefixes_fit ?cap (tb_refill_per_sec b) t (req # reqs)"
    using conforming_fits [OF Cons.prems(5)] by (simp add: req)
  have need: "1000 * int (unat n) \<le> int (tb_milli_tokens ?b)"
    using prefixes_fit_head [OF fit] prefixes_fit_head [OF Cons.prems(6)] by (simp add: level req)
  have "int (1000 * unat n) \<le> int (tb_milli_tokens ?b)"
    using need by (simp only: of_nat_mult of_nat_numeral)
  then have enough: "\<not> tb_milli_tokens ?b < unat n * 1000" by linarith
  let ?c = "?b\<lparr>tb_milli_tokens := tb_milli_tokens ?b - unat n * 1000\<rparr>"
  have consume: "try_consume_n_at b n t = (True, ?c)"
    using enough by (simp add: try_consume_n_at_def Let_def)
  have last: "tb_last_refill_ms ?c = t" using t(2) by simp
  have left: "int (tb_milli_tokens ?c) = min (?cap - 1000 * int (unat n))
      (int (tb_milli_tokens b) + ?r * (t - tb_last_refill_ms b) - 1000 * int (unat n))"
  proof -
    have "int (tb_milli_tokens ?c) = int (tb_milli_tokens ?b) - int (unat n * 1000)"
      using enough by (simp add: of_nat_diff not_less)
    then show ?thesis unfolding level by (simp add: min_diff_distrib_left)
  qed
  have "prefixes_fit (int (tb_milli_tokens ?c)) (tb_refill_per_sec b) t reqs"
    unfolding left
  proof (rule prefixes_fit_min)
    show "prefixes_fit (?cap - 1000 * int (unat n)) (tb_refill_per_sec b) t reqs"
      using prefixes_fit_tail [OF fit] by (simp add: req)
    show "prefixes_fit (int (tb_milli_tokens b) + ?r * (t - tb_last_refill_ms b) - 1000 * int (unat n))
        (tb_refill_per_sec b) t reqs"
      using prefixes_fit_tail [OF Cons.prems(6)] by (simp add: req)
  qed
  then have "fst (run_bucket ?c reqs) = replicate (length reqs) True"
    using Cons.prems t last conforming_Cons [OF Cons.prems(5)]
    by (intro Cons.IH) (auto simp: req)
  then show ?case by (auto simp: req consume Let_def split: prod.splits)
qed simp

section \<open>Properties\<close>

text \<open>
  No list of requests, whatever their sizes and however the clock steps (backwards
  included), is granted more tokens than the capacity plus the refill over the time the latest
  reading is past the bucket's creation.
\<close>

theorem bucket_never_over_grants:
  assumes "clock_reading t0" and "\<forall>(n, t) \<in> set reqs. clock_reading t"
  shows "1000 * int (granted reqs (fst (run_bucket (bucket_new_at capacity refill t0) reqs)))
    \<le> 1000 * int (unat capacity)
      + (tb_last_refill_ms (snd (run_bucket (bucket_new_at capacity refill t0) reqs)) - t0)
        * int (unat refill)"
  using run_granted_le [of "bucket_new_at capacity refill t0" reqs] assms
  by (cases "run_bucket (bucket_new_at capacity refill t0) reqs")
    (fastforce simp: bucket_new_at_def)

theorem bucket_never_over_grants_witness:
  "1000 * int (granted [(3, 5), (2, 9)] (fst (run_bucket (bucket_new_at 4 1000 5) [(3, 5), (2, 9)])))
    \<le> 1000 * int (unat (4 :: u32))
      + (tb_last_refill_ms (snd (run_bucket (bucket_new_at 4 1000 5) [(3, 5), (2, 9)])) - 5)
        * int (unat (1000 :: u32))"
  by (rule bucket_never_over_grants) (simp_all add: clock_reading_def i64_max_def)

text \<open>
  A sender whose requests keep to the arrival curve of the bucket (every window of
  consecutive requests asks for at most the capacity plus the refill over the window) is granted
  every request: no fraction of a token is lost to rounding.
\<close>

theorem bucket_grants_conforming:
  assumes "clock_reading t0" and "\<forall>(n, t) \<in> set reqs. clock_reading t \<and> t0 \<le> t"
    and "sorted (map snd reqs)" and "conforming capacity refill reqs"
  shows "fst (run_bucket (bucket_new_at capacity refill t0) reqs) = replicate (length reqs) True"
proof -
  have fits: "prefixes_fit (1000 * int (unat capacity)) refill t0 reqs"
  proof (cases reqs)
    case (Cons x xs)
    with assms have "t0 \<le> snd x" by (cases x) auto
    moreover have "prefixes_fit (1000 * int (unat capacity)) refill (snd x) reqs"
      using conforming_fits [of capacity refill x xs] assms(4) by (simp add: Cons)
    ultimately show ?thesis
      unfolding prefixes_fit_def
      by (smt (verit) mult_left_mono of_nat_0_le_iff)
  qed (simp add: prefixes_fit_def)
  show ?thesis
    by (rule run_all_granted) (use assms fits in \<open>auto simp: bucket_new_at_def mult.commute\<close>)
qed

theorem bucket_grants_conforming_witness:
  "fst (run_bucket (bucket_new_at 2 60 100) [(2, 100), (1, 117), (1, 134)]) = [True, True, True]"
proof -
  have "conforming 2 60 [(2, 100), (1, 117), (1, 134)]"
    by (simp add: conforming_def demand_def All_less_Suc less_Suc_eq_le le_Suc_eq all_conj_distrib
        imp_conjL)
  then show ?thesis
    using bucket_grants_conforming [of 100 "[(2, 100), (1, 117), (1, 134)]" 2 60]
    by (simp add: clock_reading_def i64_max_def)
qed

end
