(* ===== verification/Strokes.thy ===== *)
theory Strokes
  imports Protocol "HOL-Library.Multiset"
begin

text \<open>
  The drawing bookkeeping of a room, \<open>StrokeBookkeeping\<close> of \<open>rooms/state.rs\<close>: open strokes,
  committed strokes with their owners and commit order, the content kept for DRAW_SYNC within
  its budgets, and the drawing sequence. Each method is one definition; the loops are
  \<open>trim_committed\<close> (the cap of \<open>commit\<close>), \<open>pop_victim\<close> and \<open>make_room\<close> (the eviction loops of
  \<open>record_point\<close>) and \<open>finish_oldest_open_strokes\<close>, each with its termination proof.
\<close>

section \<open>State\<close>

record pending_stroke =
  pst_sender_id :: uuid
  pst_sender_pubkey :: bytes
  pst_started_ms :: millis
  pst_cleared :: bool

record stroke_content =
  sc_owner :: uuid
  sc_begin :: stroke_begin_payload
  sc_points :: "stroke_sync_point list"
  sc_end_ts_ms :: "millis option"
  sc_dropped :: bool

record stroke_bookkeeping =
  sb_pending :: "(uuid, pending_stroke) hashmap"
  sb_committed :: "(uuid, uuid) hashmap"
  sb_committed_order :: "uuid list"
  sb_seq :: nat
  sb_content :: "(uuid, stroke_content) hashmap"
  sb_retained_points :: nat
  sb_evict_order :: "uuid list"

definition MAX_COMMITTED_STROKES :: nat where "MAX_COMMITTED_STROKES = 5000"
definition MAX_RETAINED_POINTS :: nat where "MAX_RETAINED_POINTS = 50000"
definition MAX_RETAINED_POINTS_PER_STROKE :: nat where "MAX_RETAINED_POINTS_PER_STROKE = 10000"
definition MAX_RETAINED_COLOR_BYTES :: nat where "MAX_RETAINED_COLOR_BYTES = 64"
definition MAX_OPEN_STROKES_PER_USER :: nat where "MAX_OPEN_STROKES_PER_USER = 8"
definition MAX_OPEN_STROKES_PER_ROOM :: nat where "MAX_OPEN_STROKES_PER_ROOM = 64"

section \<open>Content\<close>

definition forget_content :: "uuid \<Rightarrow> stroke_bookkeeping \<Rightarrow> stroke_bookkeeping" where
  "forget_content sid sb =
     (case hm_get (sb_content sb) sid of
        None \<Rightarrow> sb
      | Some c \<Rightarrow> sb\<lparr>sb_content := hm_remove sid (sb_content sb),
                     sb_retained_points := sb_retained_points sb - length (sc_points c)\<rparr>)"

definition drop_content :: "uuid \<Rightarrow> stroke_bookkeeping \<Rightarrow> stroke_bookkeeping" where
  "drop_content sid sb =
     (case hm_get (sb_content sb) sid of
        None \<Rightarrow> sb
      | Some c \<Rightarrow> sb\<lparr>sb_content := hm_insert sid (c\<lparr>sc_points := []\<rparr>) (sb_content sb),
                     sb_retained_points := sb_retained_points sb - length (sc_points c)\<rparr>)"

definition mark_dropped :: "uuid \<Rightarrow> stroke_bookkeeping \<Rightarrow> stroke_bookkeeping" where
  "mark_dropped sid sb =
     (case hm_get (sb_content sb) sid of
        None \<Rightarrow> sb
      | Some c \<Rightarrow> sb\<lparr>sb_content := hm_insert sid (c\<lparr>sc_dropped := True\<rparr>) (sb_content sb)\<rparr>)"

section \<open>Committing\<close>

text \<open>The \<open>while committed_order.len() > MAX\<close> loop: forgotten ids, order and map left.\<close>

fun trim_committed ::
    "uuid list \<Rightarrow> (uuid, uuid) hashmap \<Rightarrow> uuid list \<times> uuid list \<times> (uuid, uuid) hashmap" where
  "trim_committed [] committed = ([], [], committed)"
| "trim_committed (old # order) committed =
     (if length (old # order) > MAX_COMMITTED_STROKES
      then let (forgotten, order', committed') = trim_committed order (hm_remove old committed)
           in (old # forgotten, order', committed')
      else ([], old # order, committed))"

definition commit :: "uuid \<Rightarrow> uuid \<Rightarrow> stroke_bookkeeping \<Rightarrow> uuid list \<times> stroke_bookkeeping" where
  "commit sid owner sb =
     (let order = (if hm_get (sb_committed sb) sid = None then sb_committed_order sb @ [sid]
                   else sb_committed_order sb);
          (forgotten, order', committed') =
            trim_committed order (hm_insert sid owner (sb_committed sb));
          sb' = sb\<lparr>sb_committed := committed', sb_committed_order := order'\<rparr>
      in (forgotten, fold forget_content forgotten sb'))"

definition stroke_bookkeeping_new :: "nat \<Rightarrow> stroke_bookkeeping" where
  "stroke_bookkeeping_new now_ms =
     \<lparr>sb_pending = [], sb_committed = [], sb_committed_order = [],
      sb_seq = saturating_mul_u64 now_ms 1000, sb_content = [], sb_retained_points = 0,
      sb_evict_order = []\<rparr>"

definition next_seq :: "stroke_bookkeeping \<Rightarrow> nat \<times> stroke_bookkeeping" where
  "next_seq sb = (let n = wrapping_add_u64 (sb_seq sb) 1 in (n, sb\<lparr>sb_seq := n\<rparr>))"

section \<open>Recording\<close>

definition record_begin ::
    "uuid \<Rightarrow> stroke_begin_payload \<Rightarrow> stroke_bookkeeping \<Rightarrow> stroke_bookkeeping" where
  "record_begin owner p sb =
     (let sb' = forget_content (sbp_stroke_id p) sb;
          oversized = utf8_len (sbp_color p) > MAX_RETAINED_COLOR_BYTES;
          kept = (if oversized then p\<lparr>sbp_color := []\<rparr> else p)
      in sb'\<lparr>sb_content := hm_insert (sbp_stroke_id p)
               \<lparr>sc_owner = owner, sc_begin = kept, sc_points = [], sc_end_ts_ms = None,
                sc_dropped = oversized\<rparr> (sb_content sb')\<rparr>)"

definition holds_points :: "stroke_bookkeeping \<Rightarrow> uuid \<Rightarrow> bool" where
  "holds_points sb sid \<longleftrightarrow> hm_contains (sb_committed sb) sid
     \<and> (case hm_get (sb_content sb) sid of
          None \<Rightarrow> False | Some c \<Rightarrow> \<not> sc_dropped c \<and> sc_points c \<noteq> [])"

text \<open>The inner \<open>while let Some(sid) = evict_order.pop_front()\<close>: the victim and the queue left.\<close>

fun pop_victim :: "(uuid \<Rightarrow> bool) \<Rightarrow> uuid list \<Rightarrow> uuid option \<times> uuid list" where
  "pop_victim holds [] = (None, [])"
| "pop_victim holds (sid # queue) =
     (if holds sid then (Some sid, queue) else pop_victim holds queue)"

lemma pop_victim_shorter: "pop_victim holds q = (Some sid, q') \<Longrightarrow> length q' < length q"
  by (induction q) (auto split: if_splits)

lemma mark_dropped_evict [simp]: "sb_evict_order (mark_dropped sid sb) = sb_evict_order sb"
  by (simp add: mark_dropped_def split: option.splits)

lemma drop_content_evict [simp]: "sb_evict_order (drop_content sid sb) = sb_evict_order sb"
  by (simp add: drop_content_def split: option.splits)

text \<open>
  The outer eviction loop: whether the new point may be kept. \<open>False\<close> is the early return in
  which only strokes in progress hold content.
\<close>

function make_room :: "uuid \<Rightarrow> stroke_bookkeeping \<Rightarrow> bool \<times> stroke_bookkeeping" where
  "make_room pid sb =
     (if sb_retained_points sb \<ge> MAX_RETAINED_POINTS
      then (case pop_victim (holds_points sb) (sb_evict_order sb) of
              (Some sid, queue) \<Rightarrow>
                make_room pid (mark_dropped sid (drop_content sid (sb\<lparr>sb_evict_order := queue\<rparr>)))
            | (None, queue) \<Rightarrow>
                (False, mark_dropped pid (drop_content pid (sb\<lparr>sb_evict_order := queue\<rparr>))))
      else (True, sb))"
  by pat_completeness auto
termination
  by (relation "measure (\<lambda>(_, sb). length (sb_evict_order sb))")
    (auto dest: pop_victim_shorter [OF sym])

declare make_room.simps [simp del]

definition push_point :: "stroke_point_payload \<Rightarrow> stroke_bookkeeping \<Rightarrow> stroke_bookkeeping" where
  "push_point p sb =
     (case hm_get (sb_content sb) (spp_stroke_id p) of
        None \<Rightarrow> sb
      | Some c \<Rightarrow>
          sb\<lparr>sb_content := hm_insert (spp_stroke_id p)
               (c\<lparr>sc_points := sc_points c @ [\<lparr>ssp_x = spp_x p, ssp_y = spp_y p,
                  ssp_pressure = spp_pressure p, ssp_ts_ms = spp_ts_ms p\<rparr>]\<rparr>) (sb_content sb),
             sb_retained_points := sb_retained_points sb + 1\<rparr>)"

definition record_point :: "stroke_point_payload \<Rightarrow> stroke_bookkeeping \<Rightarrow> stroke_bookkeeping" where
  "record_point p sb =
     (case hm_get (sb_content sb) (spp_stroke_id p) of
        None \<Rightarrow> sb
      | Some c \<Rightarrow>
          if sc_dropped c then sb
          else if length (sc_points c) \<ge> MAX_RETAINED_POINTS_PER_STROKE
          then mark_dropped (spp_stroke_id p) (drop_content (spp_stroke_id p) sb)
          else (case make_room (spp_stroke_id p) sb of
                  (False, sb') \<Rightarrow> sb'
                | (True, sb') \<Rightarrow> push_point p sb'))"

definition record_end :: "uuid \<Rightarrow> millis \<Rightarrow> stroke_bookkeeping \<Rightarrow> stroke_bookkeeping" where
  "record_end sid ts_ms sb =
     (let sb1 = (case hm_get (sb_content sb) sid of
                   None \<Rightarrow> sb
                 | Some c \<Rightarrow> sb\<lparr>sb_content := hm_insert sid (c\<lparr>sc_end_ts_ms := Some ts_ms\<rparr>) (sb_content sb),
                                sb_evict_order := sb_evict_order sb @ [sid]\<rparr>)
      in if length (sb_evict_order sb1) > 2 * MAX_COMMITTED_STROKES
         then sb1\<lparr>sb_evict_order := filter (hm_contains (sb_committed sb1)) (sb_evict_order sb1)\<rparr>
         else sb1)"

section \<open>Finishing abandoned strokes\<close>

definition open_by :: "uuid \<Rightarrow> stroke_bookkeeping \<Rightarrow> nat" where
  "open_by user sb = length (filter (\<lambda>(_, p). pst_sender_id p = user) (sb_pending sb))"

definition oldest_open :: "uuid \<Rightarrow> stroke_bookkeeping \<Rightarrow> (uuid \<times> pending_stroke) option" where
  "oldest_open user sb =
     (let over_user = open_by user sb \<ge> MAX_OPEN_STROKES_PER_USER
      in min_by_key (\<lambda>(sid, p). (pst_started_ms p, sid))
           (filter (\<lambda>(_, p). \<not> over_user \<or> pst_sender_id p = user) (sb_pending sb)))"

text \<open>One turn of the loop on a victim: what it commits and the state after it.\<close>

definition finish_stroke ::
    "millis \<Rightarrow> uuid \<Rightarrow> pending_stroke \<Rightarrow> stroke_bookkeeping
       \<Rightarrow> (uuid \<times> uuid) list \<times> stroke_bookkeeping" where
  "finish_stroke now_ms sid stroke sb =
     (let sb1 = sb\<lparr>sb_pending := hm_remove sid (sb_pending sb)\<rparr>
      in if pst_cleared stroke then ([], forget_content sid sb1)
         else ([(sid, pst_sender_id stroke)],
               record_end sid now_ms (snd (commit sid (pst_sender_id stroke) sb1))))"

lemma forget_content_pending [simp]: "sb_pending (forget_content sid sb) = sb_pending sb"
  by (simp add: forget_content_def split: option.splits)

lemma fold_forget_pending [simp]: "sb_pending (fold forget_content ids sb) = sb_pending sb"
  by (induction ids arbitrary: sb) auto

lemma commit_pending [simp]: "sb_pending (snd (commit sid owner sb)) = sb_pending sb"
  by (simp add: commit_def Let_def split: prod.splits)

lemma record_end_pending [simp]: "sb_pending (record_end sid ts sb) = sb_pending sb"
  by (simp add: record_end_def Let_def split: option.splits)

lemma finish_stroke_pending [simp]:
  "sb_pending (snd (finish_stroke now sid p sb)) = hm_remove sid (sb_pending sb)"
  by (simp add: finish_stroke_def Let_def)

lemma length_remove_less:
  "(sid, p) \<in> set m \<Longrightarrow> length (hm_remove sid m) < length (m :: ('k, 'v) hashmap)"
proof (induction m)
  case (Cons e m)
  have "length (hm_remove sid m) \<le> length m" by (rule length_delete_le)
  with Cons show ?case by (cases e) (auto simp: less_Suc_eq_le)
qed simp

lemma oldest_open_in: "oldest_open user sb = Some (sid, p) \<Longrightarrow> (sid, p) \<in> set (sb_pending sb)"
  by (auto simp: oldest_open_def Let_def dest!: min_by_key_SomeD)

function finish_oldest_open_strokes ::
    "uuid \<Rightarrow> millis \<Rightarrow> stroke_bookkeeping \<Rightarrow> (uuid \<times> uuid) list \<times> stroke_bookkeeping" where
  "finish_oldest_open_strokes user now_ms sb =
     (if open_by user sb < MAX_OPEN_STROKES_PER_USER
         \<and> length (sb_pending sb) < MAX_OPEN_STROKES_PER_ROOM
      then ([], sb)
      else (case oldest_open user sb of
              None \<Rightarrow> ([], sb)
            | Some (sid, stroke) \<Rightarrow>
                let (done, sb') = finish_stroke now_ms sid stroke sb;
                    (rest, sb'') = finish_oldest_open_strokes user now_ms sb'
                in (done @ rest, sb'')))"
  by pat_completeness auto
termination
proof (relation "measure (\<lambda>(_, _, sb). length (sb_pending sb))", goal_cases)
  case (2 user now_ms sb x sid stroke y dn sb')
  then have "sb_pending sb' = hm_remove sid (sb_pending sb)"
    by (metis finish_stroke_pending prod.collapse prod.sel(2))
  with 2 show ?case by (auto intro: length_remove_less dest: oldest_open_in)
qed simp

declare finish_oldest_open_strokes.simps [simp del]

section \<open>Snapshots, undo and clear\<close>

definition sync_entry :: "stroke_bookkeeping \<Rightarrow> uuid \<Rightarrow> uuid \<Rightarrow> stroke_sync_stroke" where
  "sync_entry sb sid owner =
     (case hm_get (sb_content sb) sid of
        Some c \<Rightarrow>
          if \<not> sc_dropped c
          then \<lparr>sss_stroke_id = sid, sss_owner_id = sc_owner c, sss_begin = Some (sc_begin c),
                sss_points = sc_points c, sss_end_ts_ms = sc_end_ts_ms c\<rparr>
          else \<lparr>sss_stroke_id = sid, sss_owner_id = owner, sss_begin = None, sss_points = [],
                sss_end_ts_ms = sc_end_ts_ms c\<rparr>
      | None \<Rightarrow> \<lparr>sss_stroke_id = sid, sss_owner_id = owner, sss_begin = None, sss_points = [],
                 sss_end_ts_ms = None\<rparr>)"

definition open_in_order :: "stroke_bookkeeping \<Rightarrow> (uuid \<times> pending_stroke) list" where
  "open_in_order sb = sort_key (\<lambda>(sid, p). (pst_started_ms p, sid))
     (filter (\<lambda>(_, p). \<not> pst_cleared p) (sb_pending sb))"

definition snapshot_strokes :: "stroke_bookkeeping \<Rightarrow> stroke_sync_payload" where
  "snapshot_strokes sb =
     \<lparr>ssync_seq = sb_seq sb,
      ssync_strokes =
        List.map_filter (\<lambda>sid. map_option (sync_entry sb sid) (hm_get (sb_committed sb) sid))
          (sb_committed_order sb)
        @ map (\<lambda>(sid, p). sync_entry sb sid (pst_sender_id p)) (open_in_order sb)\<rparr>"

definition owner_of :: "uuid \<Rightarrow> stroke_bookkeeping \<Rightarrow> uuid option" where
  "owner_of sid sb = hm_get (sb_committed sb) sid"

definition remove_committed :: "uuid \<Rightarrow> stroke_bookkeeping \<Rightarrow> bool \<times> stroke_bookkeeping" where
  "remove_committed sid sb =
     (case hm_get (sb_committed sb) sid of
        None \<Rightarrow> (False, sb)
      | Some _ \<Rightarrow>
          (True, forget_content sid
             (sb\<lparr>sb_committed := hm_remove sid (sb_committed sb),
                sb_committed_order := filter (\<lambda>x. x \<noteq> sid) (sb_committed_order sb)\<rparr>)))"

definition clear_all :: "stroke_bookkeeping \<Rightarrow> nat \<times> stroke_bookkeeping" where
  "clear_all sb =
     (length (sb_committed sb),
      sb\<lparr>sb_committed := [], sb_committed_order := [],
         sb_pending := hm_map_values (\<lambda>p. p\<lparr>pst_cleared := True\<rparr>) (sb_pending sb),
         sb_content := [], sb_retained_points := 0, sb_evict_order := []\<rparr>)"

section \<open>The invariant\<close>

text \<open>
  The parts of the invariant, each kept by most operations: the tables are maps and the commit
  order lists the committed strokes; the point count is exact and within the budgets; content
  belongs to an open or committed stroke (or, half-way through an end, to one of \<open>extra\<close>);
  every committed stroke that holds points can still be found by the eviction queue.
\<close>

definition tables_ok :: "stroke_bookkeeping \<Rightarrow> bool" where
  "tables_ok sb \<longleftrightarrow> hm_wf (sb_pending sb) \<and> hm_wf (sb_committed sb) \<and> hm_wf (sb_content sb)
     \<and> distinct (sb_committed_order sb)
     \<and> set (sb_committed_order sb) = fst ` set (sb_committed sb)
     \<and> length (sb_committed_order sb) \<le> MAX_COMMITTED_STROKES
     \<and> fst ` set (sb_pending sb) \<inter> fst ` set (sb_committed sb) = {}"

definition content_ok :: "stroke_content \<Rightarrow> bool" where
  "content_ok c \<longleftrightarrow> length (sc_points c) \<le> MAX_RETAINED_POINTS_PER_STROKE
     \<and> (sc_dropped c \<longrightarrow> sc_points c = []) \<and> utf8_len (sbp_color (sc_begin c)) \<le> MAX_RETAINED_COLOR_BYTES"

definition counts_ok :: "stroke_bookkeeping \<Rightarrow> bool" where
  "counts_ok sb \<longleftrightarrow> sb_retained_points sb = hm_sum (length \<circ> sc_points) (sb_content sb)
     \<and> sb_retained_points sb \<le> MAX_RETAINED_POINTS
     \<and> (\<forall>sid c. hm_get (sb_content sb) sid = Some c \<longrightarrow> content_ok c)"

definition placed_ok :: "uuid set \<Rightarrow> stroke_bookkeeping \<Rightarrow> bool" where
  "placed_ok extra sb \<longleftrightarrow>
     fst ` set (sb_content sb) \<subseteq> fst ` set (sb_pending sb) \<union> fst ` set (sb_committed sb) \<union> extra"

definition evictable_ok :: "uuid set \<Rightarrow> stroke_bookkeeping \<Rightarrow> bool" where
  "evictable_ok extra sb \<longleftrightarrow>
     (\<forall>sid c. hm_get (sb_content sb) sid = Some c \<longrightarrow> hm_get (sb_committed sb) sid \<noteq> None \<longrightarrow>
        sc_points c \<noteq> [] \<longrightarrow> sid \<in> set (sb_evict_order sb) \<union> extra)"

definition owners_ok :: "stroke_bookkeeping \<Rightarrow> bool" where
  "owners_ok sb \<longleftrightarrow>
     (\<forall>sid c. hm_get (sb_content sb) sid = Some c \<longrightarrow>
        (\<forall>p. hm_get (sb_pending sb) sid = Some p \<longrightarrow> pst_sender_id p = sc_owner c)
        \<and> (\<forall>u. hm_get (sb_committed sb) sid = Some u \<longrightarrow> u = sc_owner c))"

definition open_ok :: "stroke_bookkeeping \<Rightarrow> bool" where
  "open_ok sb \<longleftrightarrow> length (sb_pending sb) \<le> MAX_OPEN_STROKES_PER_ROOM
     \<and> (\<forall>user. open_by user sb \<le> MAX_OPEN_STROKES_PER_USER)"

definition strokes_inv :: "stroke_bookkeeping \<Rightarrow> bool" where
  "strokes_inv sb \<longleftrightarrow> tables_ok sb \<and> counts_ok sb \<and> placed_ok {} sb \<and> evictable_ok {} sb
     \<and> owners_ok sb \<and> open_ok sb"

lemmas strokes_parts =
  tables_ok_def counts_ok_def placed_ok_def evictable_ok_def owners_ok_def open_ok_def

lemma strokes_inv_new: "strokes_inv (stroke_bookkeeping_new now_ms)"
  by (simp add: strokes_inv_def strokes_parts stroke_bookkeeping_new_def open_by_def)

subsection \<open>Content operations\<close>

lemma forget_content_simps [simp]:
  "sb_committed (forget_content sid sb) = sb_committed sb"
  "sb_committed_order (forget_content sid sb) = sb_committed_order sb"
  "sb_evict_order (forget_content sid sb) = sb_evict_order sb"
  "sb_seq (forget_content sid sb) = sb_seq sb"
  by (simp_all add: forget_content_def split: option.splits)

lemma content_forget: "sb_content (forget_content sid sb) = hm_remove sid (sb_content sb)"
  by (simp add: forget_content_def hm_remove_absent split: option.splits)

lemma retained_forget:
  assumes "tables_ok sb" and "counts_ok sb"
  shows "sb_retained_points (forget_content sid sb)
    = hm_sum (length \<circ> sc_points) (sb_content (forget_content sid sb))"
proof (cases "hm_get (sb_content sb) sid")
  case None
  with assms show ?thesis by (simp add: forget_content_def counts_ok_def)
next
  case (Some c)
  have "hm_sum (length \<circ> sc_points) (hm_remove sid (sb_content sb)) + length (sc_points c)
      = hm_sum (length \<circ> sc_points) (sb_content sb)"
    using hm_sum_remove [of "sb_content sb" sid c "length \<circ> sc_points"] assms Some
    by (simp add: tables_ok_def)
  with assms Some show ?thesis by (simp add: forget_content_def counts_ok_def)
qed

lemma forget_tables: "tables_ok sb \<Longrightarrow> tables_ok (forget_content sid sb)"
  by (simp add: tables_ok_def content_forget)

lemma forget_counts: "tables_ok sb \<Longrightarrow> counts_ok sb \<Longrightarrow> counts_ok (forget_content sid sb)"
  unfolding counts_ok_def
proof (intro conjI)
  assume t: "tables_ok sb"
    and c: "sb_retained_points sb = hm_sum (length \<circ> sc_points) (sb_content sb)
      \<and> sb_retained_points sb \<le> MAX_RETAINED_POINTS
      \<and> (\<forall>sid c. hm_get (sb_content sb) sid = Some c \<longrightarrow> content_ok c)"
  then show "sb_retained_points (forget_content sid sb)
      = hm_sum (length \<circ> sc_points) (sb_content (forget_content sid sb))"
    by (intro retained_forget) (simp_all add: counts_ok_def)
  show "sb_retained_points (forget_content sid sb) \<le> MAX_RETAINED_POINTS"
    using c by (auto simp: forget_content_def split: option.splits)
  show "\<forall>x c. hm_get (sb_content (forget_content sid sb)) x = Some c \<longrightarrow> content_ok c"
    using c by (auto simp: content_forget)
qed

lemma forget_placed: "placed_ok X sb \<Longrightarrow> placed_ok X (forget_content sid sb)"
  by (auto simp: placed_ok_def content_forget fst_hm_remove)

lemma forget_evictable: "evictable_ok X sb \<Longrightarrow> evictable_ok X (forget_content sid sb)"
  by (auto simp: evictable_ok_def content_forget)

lemma forget_owners: "owners_ok sb \<Longrightarrow> owners_ok (forget_content sid sb)"
  by (auto simp: owners_ok_def content_forget)

lemma forget_open: "open_ok sb \<Longrightarrow> open_ok (forget_content sid sb)"
  by (simp add: open_ok_def open_by_def)

lemmas forget_keeps =
  forget_tables forget_counts forget_placed forget_evictable forget_owners forget_open

text \<open>Dropping a stroke's points and marking it, as the code always does the two.\<close>

abbreviation drop_mark :: "uuid \<Rightarrow> stroke_bookkeeping \<Rightarrow> stroke_bookkeeping" where
  "drop_mark sid sb \<equiv> mark_dropped sid (drop_content sid sb)"

lemma drop_mark_simps [simp]:
  "sb_pending (drop_mark sid sb) = sb_pending sb"
  "sb_committed (drop_mark sid sb) = sb_committed sb"
  "sb_committed_order (drop_mark sid sb) = sb_committed_order sb"
  "sb_seq (drop_mark sid sb) = sb_seq sb"
  by (simp_all add: mark_dropped_def drop_content_def split: option.splits)

lemma content_drop_mark:
  "hm_get (sb_content (drop_mark sid sb)) x =
     (if x = sid then map_option (\<lambda>c. c\<lparr>sc_points := [], sc_dropped := True\<rparr>) (hm_get (sb_content sb) sid)
      else hm_get (sb_content sb) x)"
  by (auto simp: mark_dropped_def drop_content_def split: option.splits)

lemma keys_drop_mark: "fst ` set (sb_content (drop_mark sid sb)) = fst ` set (sb_content sb)"
  by (auto simp: mark_dropped_def drop_content_def fst_hm_insert dest: hm_get_SomeD
      split: option.splits intro: rev_image_eqI)

lemma drop_mark_tables: "tables_ok sb \<Longrightarrow> tables_ok (drop_mark sid sb)"
  by (simp add: tables_ok_def mark_dropped_def drop_content_def split: option.splits)

lemma drop_mark_counts: "counts_ok sb \<Longrightarrow> counts_ok (drop_mark sid sb)"
proof (cases "hm_get (sb_content sb) sid")
  case None
  then show "counts_ok sb \<Longrightarrow> ?thesis" by (simp add: mark_dropped_def drop_content_def)
next
  case (Some c)
  assume c: "counts_ok sb"
  let ?f = "length \<circ> sc_points" and ?m = "sb_content sb"
  let ?m1 = "hm_insert sid (c\<lparr>sc_points := []\<rparr>) ?m"
  let ?m2 = "hm_insert sid (c\<lparr>sc_points := [], sc_dropped := True\<rparr>) ?m1"
  have "hm_sum ?f ?m1 + length (sc_points c) = hm_sum ?f ?m"
    using hm_sum_insert [of ?m sid c ?f "c\<lparr>sc_points := []\<rparr>"] Some by simp
  moreover have "hm_sum ?f ?m2 = hm_sum ?f ?m1"
    using hm_sum_insert [of ?m1 sid "c\<lparr>sc_points := []\<rparr>" ?f "c\<lparr>sc_points := [], sc_dropped := True\<rparr>"]
    by simp
  ultimately have "hm_sum ?f ?m - length (sc_points c) = hm_sum ?f ?m2" by linarith
  moreover have "drop_mark sid sb = sb\<lparr>sb_content := ?m2,
      sb_retained_points := sb_retained_points sb - length (sc_points c)\<rparr>"
    using Some by (simp add: mark_dropped_def drop_content_def)
  ultimately show ?thesis
    using c Some by (auto simp: counts_ok_def content_ok_def)
qed

lemma drop_mark_placed: "placed_ok X sb \<Longrightarrow> placed_ok X (drop_mark sid sb)"
  by (simp add: placed_ok_def keys_drop_mark)

lemma drop_mark_owners: "owners_ok sb \<Longrightarrow> owners_ok (drop_mark sid sb)"
  by (auto simp: owners_ok_def content_drop_mark split: if_splits)

lemma drop_mark_evictable:
  "(\<And>x c. hm_get (sb_content sb) x = Some c \<Longrightarrow> hm_get (sb_committed sb) x \<noteq> None \<Longrightarrow>
      sc_points c \<noteq> [] \<Longrightarrow> x \<noteq> sid \<Longrightarrow> x \<in> set (sb_evict_order sb) \<union> X) \<Longrightarrow>
   evictable_ok X (drop_mark sid sb)"
  by (auto simp: evictable_ok_def content_drop_mark split: if_splits)

lemma drop_mark_open: "open_ok sb \<Longrightarrow> open_ok (drop_mark sid sb)"
  by (simp add: open_ok_def open_by_def)

subsection \<open>Keeping a point\<close>

lemma update_evict_simps [simp]:
  "tables_ok (sb\<lparr>sb_evict_order := q\<rparr>) = tables_ok sb"
  "counts_ok (sb\<lparr>sb_evict_order := q\<rparr>) = counts_ok sb"
  "placed_ok X (sb\<lparr>sb_evict_order := q\<rparr>) = placed_ok X sb"
  "owners_ok (sb\<lparr>sb_evict_order := q\<rparr>) = owners_ok sb"
  "open_ok (sb\<lparr>sb_evict_order := q\<rparr>) = open_ok sb"
  by (simp_all add: strokes_parts open_by_def)

lemma pop_victim_SomeD:
  "pop_victim holds q = (Some v, q') \<Longrightarrow>
     holds v \<and> (\<forall>x \<in> set q. holds x \<longrightarrow> x = v \<or> x \<in> set q')"
  by (induction q) (auto split: if_splits)

lemma pop_victim_NoneD: "pop_victim holds q = (None, q') \<Longrightarrow> q' = [] \<and> (\<forall>x \<in> set q. \<not> holds x)"
  by (induction q) (auto split: if_splits)

lemma holds_pointsI:
  "counts_ok sb \<Longrightarrow> hm_get (sb_content sb) x = Some c \<Longrightarrow> hm_get (sb_committed sb) x \<noteq> None \<Longrightarrow>
     sc_points c \<noteq> [] \<Longrightarrow> holds_points sb x"
  by (auto simp: holds_points_def hm_contains_def counts_ok_def content_ok_def)

lemma evict_step_inv:
  assumes inv: "strokes_inv sb" and pop: "pop_victim (holds_points sb) (sb_evict_order sb) = (v, q)"
  shows "strokes_inv (drop_mark (case v of Some x \<Rightarrow> x | None \<Rightarrow> y) (sb\<lparr>sb_evict_order := q\<rparr>))"
proof -
  let ?x = "case v of Some x \<Rightarrow> x | None \<Rightarrow> y"
  from inv have parts: "tables_ok sb" "counts_ok sb" "placed_ok {} sb" "owners_ok sb" "open_ok sb"
      "evictable_ok {} sb" by (simp_all add: strokes_inv_def)
  have "evictable_ok {} (drop_mark ?x (sb\<lparr>sb_evict_order := q\<rparr>))"
  proof (rule drop_mark_evictable)
    fix x c
    assume "hm_get (sb_content (sb\<lparr>sb_evict_order := q\<rparr>)) x = Some c"
      and "hm_get (sb_committed (sb\<lparr>sb_evict_order := q\<rparr>)) x \<noteq> None" "sc_points c \<noteq> []" "x \<noteq> ?x"
    moreover from this parts have "x \<in> set (sb_evict_order sb)" and "holds_points sb x"
      by (auto simp: evictable_ok_def intro: holds_pointsI)
    ultimately show "x \<in> set (sb_evict_order (sb\<lparr>sb_evict_order := q\<rparr>)) \<union> {}"
      using pop by (cases v) (auto dest!: pop_victim_SomeD pop_victim_NoneD)
  qed
  with parts show ?thesis
    by (simp add: strokes_inv_def drop_mark_tables drop_mark_counts drop_mark_placed
        drop_mark_owners drop_mark_open)
qed

lemma make_room_spec:
  assumes "strokes_inv sb" and "make_room pid sb = (kept, sb')"
  shows "strokes_inv sb' \<and> sb_pending sb' = sb_pending sb \<and> sb_committed sb' = sb_committed sb
    \<and> sb_committed_order sb' = sb_committed_order sb \<and> sb_seq sb' = sb_seq sb
    \<and> (kept \<longrightarrow> sb_retained_points sb' < MAX_RETAINED_POINTS
         \<and> (hm_get (sb_committed sb) pid = None \<longrightarrow>
              hm_get (sb_content sb') pid = hm_get (sb_content sb) pid))"
  using assms
proof (induction pid sb rule: make_room.induct)
  case (1 pid sb)
  show ?case
  proof (cases "sb_retained_points sb \<ge> MAX_RETAINED_POINTS")
    case False
    with "1.prems" show ?thesis by (auto simp: make_room.simps [of pid sb])
  next
    case True
    obtain v q where pop: "pop_victim (holds_points sb) (sb_evict_order sb) = (v, q)"
      by (cases "pop_victim (holds_points sb) (sb_evict_order sb)")
    note step = evict_step_inv [OF "1.prems"(1) pop]
    show ?thesis
    proof (cases v)
      case None
      with True pop "1.prems" have "kept = False" "sb' = drop_mark pid (sb\<lparr>sb_evict_order := q\<rparr>)"
        by (auto simp: make_room.simps [of pid sb])
      with step [of pid] None show ?thesis by simp
    next
      case (Some x)
      let ?sb = "drop_mark x (sb\<lparr>sb_evict_order := q\<rparr>)"
      from pop Some have "holds_points sb x" by (auto dest!: pop_victim_SomeD)
      then have "hm_get (sb_committed sb) x \<noteq> None" by (simp add: holds_points_def hm_contains_def)
      moreover from True pop Some "1.prems" have "make_room pid ?sb = (kept, sb')"
        by (simp add: make_room.simps [of pid sb])
      moreover from step Some have "strokes_inv ?sb" by simp
      ultimately show ?thesis
        using "1.IH" [OF True pop [symmetric] Some] by (auto simp: content_drop_mark)
    qed
  qed
qed

lemma record_point_simps:
  assumes "strokes_inv sb"
  shows "sb_pending (record_point p sb) = sb_pending sb
    \<and> sb_committed (record_point p sb) = sb_committed sb
    \<and> sb_committed_order (record_point p sb) = sb_committed_order sb
    \<and> sb_seq (record_point p sb) = sb_seq sb"
proof -
  obtain kept sb' where m: "make_room (spp_stroke_id p) sb = (kept, sb')"
    by (cases "make_room (spp_stroke_id p) sb")
  have "sb_pending (push_point p sb') = sb_pending sb' \<and> sb_committed (push_point p sb') = sb_committed sb'
      \<and> sb_committed_order (push_point p sb') = sb_committed_order sb'
      \<and> sb_seq (push_point p sb') = sb_seq sb'"
    by (simp add: push_point_def split: option.split)
  with make_room_spec [OF assms m] m show ?thesis
    by (simp add: record_point_def split: option.split bool.split)
qed

lemma push_point_inv:
  assumes inv: "strokes_inv sb" and open_stroke: "hm_get (sb_pending sb) (spp_stroke_id p) \<noteq> None"
    and c: "hm_get (sb_content sb) (spp_stroke_id p) = Some c"
    and room: "sb_retained_points sb < MAX_RETAINED_POINTS"
    and short: "length (sc_points c) < MAX_RETAINED_POINTS_PER_STROKE" "\<not> sc_dropped c"
  shows "strokes_inv (push_point p sb)"
proof -
  let ?s = "spp_stroke_id p"
  from inv have parts: "tables_ok sb" "counts_ok sb" "placed_ok {} sb" "owners_ok sb" "open_ok sb"
      "evictable_ok {} sb" by (simp_all add: strokes_inv_def)
  from open_stroke parts(1) have uncommitted: "hm_get (sb_committed sb) ?s = None"
    by (auto simp: tables_ok_def map_of_eq_None_iff)
  from open_stroke have key: "?s \<in> fst ` set (sb_pending sb)"
    by (simp add: map_of_eq_None_iff del: not_None_eq)
  let ?c = "c\<lparr>sc_points := sc_points c @ [\<lparr>ssp_x = spp_x p, ssp_y = spp_y p,
    ssp_pressure = spp_pressure p, ssp_ts_ms = spp_ts_ms p\<rparr>]\<rparr>"
  have "hm_sum (length \<circ> sc_points) (hm_insert ?s ?c (sb_content sb)) + length (sc_points c)
      = hm_sum (length \<circ> sc_points) (sb_content sb) + Suc (length (sc_points c))"
    using hm_sum_insert [OF c, of "length \<circ> sc_points" ?c] by simp
  then have sum: "hm_sum (length \<circ> sc_points) (hm_insert ?s ?c (sb_content sb))
      = Suc (hm_sum (length \<circ> sc_points) (sb_content sb))" by simp
  have push: "push_point p sb = sb\<lparr>sb_content := hm_insert ?s ?c (sb_content sb),
      sb_retained_points := sb_retained_points sb + 1\<rparr>"
    using c by (simp add: push_point_def)
  have "counts_ok (push_point p sb)"
    unfolding push using parts(2) c room short by (auto simp: counts_ok_def content_ok_def sum)
  moreover have "tables_ok (push_point p sb)" "open_ok (push_point p sb)"
    unfolding push using parts(1,5) by (simp_all add: tables_ok_def open_ok_def open_by_def)
  moreover have "placed_ok {} (push_point p sb)"
    unfolding push using parts(3) key by (auto simp: placed_ok_def fst_hm_insert)
  moreover have "owners_ok (push_point p sb)"
    unfolding push using parts(4) c by (auto simp: owners_ok_def)
  moreover have "evictable_ok {} (push_point p sb)"
    unfolding push using parts(6) uncommitted by (auto simp: evictable_ok_def)
  ultimately show ?thesis by (simp add: strokes_inv_def)
qed

lemma record_point_inv:
  assumes inv: "strokes_inv sb" and open_stroke: "hm_get (sb_pending sb) (spp_stroke_id p) \<noteq> None"
  shows "strokes_inv (record_point p sb)"
proof -
  let ?s = "spp_stroke_id p"
  from open_stroke inv have uncommitted: "hm_get (sb_committed sb) ?s = None"
    by (auto simp: strokes_inv_def tables_ok_def map_of_eq_None_iff)
  obtain kept sb' where m: "make_room ?s sb = (kept, sb')" by (cases "make_room ?s sb")
  note room = make_room_spec [OF inv m]
  show ?thesis
  proof (cases "hm_get (sb_content sb) ?s")
    case None
    then show ?thesis using inv by (simp add: record_point_def)
  next
    case (Some c)
    have drop: "strokes_inv (drop_mark ?s sb)"
      using inv drop_mark_evictable [of sb ?s "{}"]
      by (simp add: strokes_inv_def drop_mark_tables drop_mark_counts drop_mark_placed
          drop_mark_owners drop_mark_open evictable_ok_def)
    have "kept \<Longrightarrow> \<not> sc_dropped c \<Longrightarrow> length (sc_points c) < MAX_RETAINED_POINTS_PER_STROKE \<Longrightarrow>
        strokes_inv (push_point p sb')"
      using room uncommitted Some open_stroke by (intro push_point_inv) auto
    then show ?thesis
      using drop room inv m Some by (auto simp: record_point_def split: bool.splits)
  qed
qed

subsection \<open>Committing a stroke\<close>

lemma trim_committed_fits:
  "length order \<le> MAX_COMMITTED_STROKES \<Longrightarrow> trim_committed order m = ([], order, m)"
  by (cases order) auto

text \<open>
  Committing a new stroke while the room is below the cap adds it last; at the cap the oldest
  remembered stroke is forgotten, and only that one.
\<close>

lemma commit_below:
  assumes "hm_get (sb_committed sb) sid = None"
    and "length (sb_committed_order sb) < MAX_COMMITTED_STROKES"
  shows "commit sid owner sb = ([], sb\<lparr>sb_committed := hm_insert sid owner (sb_committed sb),
      sb_committed_order := sb_committed_order sb @ [sid]\<rparr>)"
  using assms by (simp add: commit_def trim_committed_fits Let_def)

lemma commit_full:
  assumes "hm_get (sb_committed sb) sid = None" and "sb_committed_order sb = old # order"
    and "length (sb_committed_order sb) = MAX_COMMITTED_STROKES"
  shows "commit sid owner sb = ([old], forget_content old
      (sb\<lparr>sb_committed := hm_remove old (hm_insert sid owner (sb_committed sb)),
         sb_committed_order := order @ [sid]\<rparr>))"
  using assms by (simp add: commit_def trim_committed_fits Let_def)

lemma commit_cases:
  assumes "tables_ok sb" and "hm_get (sb_committed sb) sid = None"
  obtains (below) "length (sb_committed_order sb) < MAX_COMMITTED_STROKES"
      "commit sid owner sb = ([], sb\<lparr>sb_committed := hm_insert sid owner (sb_committed sb),
         sb_committed_order := sb_committed_order sb @ [sid]\<rparr>)"
    | (full) old order where "sb_committed_order sb = old # order"
      "length (sb_committed_order sb) = MAX_COMMITTED_STROKES"
      "commit sid owner sb = ([old], forget_content old
         (sb\<lparr>sb_committed := hm_remove old (hm_insert sid owner (sb_committed sb)),
            sb_committed_order := order @ [sid]\<rparr>))"
proof (cases "length (sb_committed_order sb) < MAX_COMMITTED_STROKES")
  case True
  with assms that(1) show thesis by (simp add: commit_below)
next
  case False
  with assms have len: "length (sb_committed_order sb) = MAX_COMMITTED_STROKES"
    by (simp add: tables_ok_def)
  then obtain old order where "sb_committed_order sb = old # order"
    by (cases "sb_committed_order sb") (auto simp: MAX_COMMITTED_STROKES_def)
  with assms len that(2) show thesis by (simp add: commit_full)
qed

lemma commit_new_parts:
  assumes "tables_ok sb" and "counts_ok sb" and "placed_ok {sid} sb" and "evictable_ok {sid} sb"
    and "owners_ok sb" and "open_ok sb"
    and new: "hm_get (sb_committed sb) sid = None" "hm_get (sb_pending sb) sid = None"
    and owner: "\<And>c. hm_get (sb_content sb) sid = Some c \<Longrightarrow> sc_owner c = owner"
  shows "tables_ok (snd (commit sid owner sb)) \<and> counts_ok (snd (commit sid owner sb))
    \<and> placed_ok {} (snd (commit sid owner sb)) \<and> evictable_ok {sid} (snd (commit sid owner sb))
    \<and> owners_ok (snd (commit sid owner sb)) \<and> open_ok (snd (commit sid owner sb))
    \<and> hm_get (sb_committed (snd (commit sid owner sb))) sid = Some owner"
  using assms(1) new(1)
proof (cases rule: commit_cases [of sb sid owner])
  case below
  let ?sb = "sb\<lparr>sb_committed := hm_insert sid owner (sb_committed sb),
    sb_committed_order := sb_committed_order sb @ [sid]\<rparr>"
  have "tables_ok ?sb"
    using assms(1) new below(1) by (auto simp: tables_ok_def fst_hm_insert map_of_eq_None_iff)
  moreover have "counts_ok ?sb" and "evictable_ok {sid} ?sb" and "owners_ok ?sb" and "open_ok ?sb"
    using assms(2,4-6) owner by (auto simp: counts_ok_def evictable_ok_def owners_ok_def open_ok_def open_by_def)
  moreover have "placed_ok {} ?sb"
    using assms(3) by (auto simp: placed_ok_def fst_hm_insert)
  ultimately show ?thesis by (simp add: below(2))
next
  case (full old order)
  let ?sb = "sb\<lparr>sb_committed := hm_remove old (hm_insert sid owner (sb_committed sb)),
    sb_committed_order := order @ [sid]\<rparr>"
  have keys: "fst ` set (sb_committed sb) = insert old (set order)"
    using assms(1) full(1) by (simp add: tables_ok_def)
  have disjoint: "fst ` set (sb_pending sb) \<inter> fst ` set (sb_committed sb) = {}"
    using assms(1) by (simp add: tables_ok_def)
  have old: "old \<noteq> sid" "hm_get (sb_pending sb) old = None"
    using new disjoint keys unfolding map_of_eq_None_iff by blast+
  moreover have "old \<notin> set order" using assms(1) full(1) by (simp add: tables_ok_def)
  ultimately have t: "tables_ok ?sb"
    using assms(1) new full(1,2)
    by (auto simp: tables_ok_def fst_hm_insert fst_hm_remove map_of_eq_None_iff keys)
  have c: "counts_ok ?sb" and ev: "evictable_ok {sid} ?sb" and ow: "owners_ok ?sb"
      and op: "open_ok ?sb"
    using assms(2,4-6) owner
    by (auto simp: counts_ok_def evictable_ok_def owners_ok_def open_ok_def open_by_def)
  have "placed_ok {} (forget_content old ?sb)"
    using assms(3) by (auto simp: placed_ok_def content_forget fst_hm_insert fst_hm_remove)
  with t c ev ow op full old show ?thesis
    by (simp add: forget_keeps)
qed

lemma record_end_simps [simp]:
  "sb_committed (record_end sid ts sb) = sb_committed sb"
  "sb_committed_order (record_end sid ts sb) = sb_committed_order sb"
  "sb_retained_points (record_end sid ts sb) = sb_retained_points sb"
  "sb_seq (record_end sid ts sb) = sb_seq sb"
  by (simp_all add: record_end_def Let_def split: option.splits)

lemma content_record_end:
  "hm_get (sb_content (record_end sid ts sb)) x =
     (if x = sid then map_option (\<lambda>c. c\<lparr>sc_end_ts_ms := Some ts\<rparr>) (hm_get (sb_content sb) sid)
      else hm_get (sb_content sb) x)"
  by (auto simp: record_end_def Let_def split: option.splits)

lemma keys_record_end: "fst ` set (sb_content (record_end sid ts sb)) = fst ` set (sb_content sb)"
  by (auto simp: record_end_def Let_def fst_hm_insert dest: hm_get_SomeD
      split: option.splits intro: rev_image_eqI)

lemma evict_record_end:
  "x \<in> set (sb_evict_order sb) \<or> (x = sid \<and> hm_get (sb_content sb) sid \<noteq> None) \<Longrightarrow>
     hm_get (sb_committed sb) x \<noteq> None \<Longrightarrow> x \<in> set (sb_evict_order (record_end sid ts sb))"
  by (auto simp: record_end_def Let_def hm_contains_def split: option.splits)

lemma record_end_keeps:
  assumes "tables_ok sb" and "counts_ok sb" and "placed_ok {} sb" and "evictable_ok {sid} sb"
    and "owners_ok sb" and "open_ok sb"
  shows "strokes_inv (record_end sid ts sb)"
proof -
  have "tables_ok (record_end sid ts sb)"
    using assms(1) by (simp add: tables_ok_def) (simp add: record_end_def Let_def split: option.split)
  moreover have "counts_ok (record_end sid ts sb)"
  proof -
    have "hm_sum (length \<circ> sc_points) (sb_content (record_end sid ts sb))
        = hm_sum (length \<circ> sc_points) (sb_content sb)"
    proof (cases "hm_get (sb_content sb) sid")
      case (Some c)
      then show ?thesis
        using hm_sum_insert [OF Some, of "length \<circ> sc_points" "c\<lparr>sc_end_ts_ms := Some ts\<rparr>"]
        by (simp add: record_end_def Let_def)
    qed (simp add: record_end_def Let_def)
    with assms(2) show ?thesis
      by (auto simp: counts_ok_def content_record_end content_ok_def split: if_splits)
  qed
  moreover have "placed_ok {} (record_end sid ts sb)" "open_ok (record_end sid ts sb)"
    using assms(3,6) by (simp_all add: placed_ok_def keys_record_end open_ok_def open_by_def)
  moreover have "owners_ok (record_end sid ts sb)"
    using assms(5) by (auto simp: owners_ok_def content_record_end split: if_splits)
  moreover have "evictable_ok {} (record_end sid ts sb)"
    using assms(4) by (auto simp: evictable_ok_def content_record_end intro!: evict_record_end
        split: if_splits)
  ultimately show ?thesis by (simp add: strokes_inv_def)
qed

lemma open_by_remove: "open_by u (sb\<lparr>sb_pending := hm_remove sid (sb_pending sb)\<rparr>) \<le> open_by u sb"
proof -
  have "length (filter P (hm_remove sid m)) \<le> length (filter P m)" for P and m :: "(uuid, pending_stroke) hashmap"
    by (induction m) auto
  then show ?thesis by (simp add: open_by_def)
qed

lemma close_pending_parts:
  assumes inv: "strokes_inv sb" and p: "hm_get (sb_pending sb) sid = Some p"
  shows "tables_ok (sb\<lparr>sb_pending := hm_remove sid (sb_pending sb)\<rparr>)
    \<and> counts_ok (sb\<lparr>sb_pending := hm_remove sid (sb_pending sb)\<rparr>)
    \<and> placed_ok {sid} (sb\<lparr>sb_pending := hm_remove sid (sb_pending sb)\<rparr>)
    \<and> evictable_ok X (sb\<lparr>sb_pending := hm_remove sid (sb_pending sb)\<rparr>)
    \<and> owners_ok (sb\<lparr>sb_pending := hm_remove sid (sb_pending sb)\<rparr>)
    \<and> open_ok (sb\<lparr>sb_pending := hm_remove sid (sb_pending sb)\<rparr>)
    \<and> hm_get (sb_committed sb) sid = None
    \<and> (\<forall>c. hm_get (sb_content sb) sid = Some c \<longrightarrow> sc_owner c = pst_sender_id p)"
proof -
  from inv have parts: "tables_ok sb" "counts_ok sb" "placed_ok {} sb" "owners_ok sb" "open_ok sb"
      "evictable_ok {} sb" by (simp_all add: strokes_inv_def)
  from p have key: "sid \<in> fst ` set (sb_pending sb)" by (auto dest: hm_get_SomeD intro: rev_image_eqI)
  have "tables_ok (sb\<lparr>sb_pending := hm_remove sid (sb_pending sb)\<rparr>)"
    using parts(1) by (auto simp: tables_ok_def fst_hm_remove)
  moreover have "open_ok (sb\<lparr>sb_pending := hm_remove sid (sb_pending sb)\<rparr>)"
    using parts(5) open_by_remove [of _ sid sb] length_delete_le [of sid "sb_pending sb"]
    by (auto simp: open_ok_def intro: order_trans)
  moreover have "hm_get (sb_committed sb) sid = None"
    using parts(1) key by (auto simp: tables_ok_def map_of_eq_None_iff)
  moreover have "\<forall>c. hm_get (sb_content sb) sid = Some c \<longrightarrow> sc_owner c = pst_sender_id p"
    using parts(4) p by (auto simp: owners_ok_def)
  ultimately show ?thesis
    using parts by (auto simp: counts_ok_def placed_ok_def evictable_ok_def owners_ok_def fst_hm_remove)
qed

text \<open>Ending an open stroke: what DRAW_END and the bound on open strokes both do.\<close>

lemma finish_stroke_inv:
  assumes inv: "strokes_inv sb" and p: "hm_get (sb_pending sb) sid = Some p"
  shows "strokes_inv (snd (finish_stroke ts sid p sb))"
proof -
  let ?sb = "sb\<lparr>sb_pending := hm_remove sid (sb_pending sb)\<rparr>"
  note parts = close_pending_parts [OF inv p]
  show ?thesis
  proof (cases "pst_cleared p")
    case True
    have "placed_ok {} (forget_content sid ?sb)"
      using parts [of "{}"] by (auto simp: placed_ok_def content_forget fst_hm_remove)
    with True parts [of "{}"] show ?thesis
      by (simp add: finish_stroke_def Let_def strokes_inv_def forget_keeps)
  next
    case False
    have "strokes_inv (record_end sid ts (snd (commit sid (pst_sender_id p) ?sb)))"
      using parts [of "{sid}"] commit_new_parts [of ?sb sid "pst_sender_id p"]
      by (intro record_end_keeps) simp_all
    with False show ?thesis by (simp add: finish_stroke_def Let_def)
  qed
qed

lemma commit_simps [simp]:
  "sb_seq (snd (commit sid owner sb)) = sb_seq sb"
  "sb_evict_order (snd (commit sid owner sb)) = sb_evict_order sb"
proof -
  have "sb_seq (fold forget_content ids sb') = sb_seq sb'"
      and "sb_evict_order (fold forget_content ids sb') = sb_evict_order sb'" for ids sb'
    by (induction ids arbitrary: sb') auto
  then show "sb_seq (snd (commit sid owner sb)) = sb_seq sb"
      and "sb_evict_order (snd (commit sid owner sb)) = sb_evict_order sb"
    by (simp_all add: commit_def Let_def split: prod.splits)
qed

lemma commit_keys:
  assumes "tables_ok sb" and "hm_get (sb_committed sb) sid = None" and "x \<noteq> sid"
  shows "hm_get (sb_committed (snd (commit sid owner sb))) x = hm_get (sb_committed sb) x
    \<or> hm_get (sb_committed (snd (commit sid owner sb))) x = None"
  using assms(1,2) by (cases rule: commit_cases [of sb sid owner]) (use assms(3) in auto)

lemma finish_stroke_simps:
  assumes "strokes_inv sb" and "hm_get (sb_pending sb) sid = Some p" and "x \<noteq> sid"
  shows "hm_get (sb_committed (snd (finish_stroke ts sid p sb))) x = hm_get (sb_committed sb) x
    \<or> hm_get (sb_committed (snd (finish_stroke ts sid p sb))) x = None"
  using commit_keys [of "sb\<lparr>sb_pending := hm_remove sid (sb_pending sb)\<rparr>" sid x "pst_sender_id p"]
    close_pending_parts [OF assms(1,2), of "{}"] assms(3)
  by (auto simp: finish_stroke_def Let_def)

lemma finish_stroke_seq [simp]: "sb_seq (snd (finish_stroke ts sid p sb)) = sb_seq sb"
  by (simp add: finish_stroke_def Let_def)

lemma oldest_open_exists:
  "\<not> (open_by user sb < MAX_OPEN_STROKES_PER_USER \<and> length (sb_pending sb) < MAX_OPEN_STROKES_PER_ROOM)
     \<Longrightarrow> oldest_open user sb \<noteq> None"
proof -
  assume over: "\<not> (open_by user sb < MAX_OPEN_STROKES_PER_USER
    \<and> length (sb_pending sb) < MAX_OPEN_STROKES_PER_ROOM)"
  show ?thesis
  proof (cases "open_by user sb \<ge> MAX_OPEN_STROKES_PER_USER")
    case True
    then have "filter (\<lambda>(_, p). pst_sender_id p = user) (sb_pending sb) \<noteq> []"
      by (auto simp: open_by_def MAX_OPEN_STROKES_PER_USER_def)
    with True show ?thesis by (simp add: oldest_open_def Let_def)
  next
    case False
    with over have "sb_pending sb \<noteq> []" by (auto simp: MAX_OPEN_STROKES_PER_ROOM_def)
    with False show ?thesis by (simp add: oldest_open_def Let_def)
  qed
qed

lemma oldest_open_get:
  "strokes_inv sb \<Longrightarrow> oldest_open user sb = Some (sid, p) \<Longrightarrow> hm_get (sb_pending sb) sid = Some p"
  by (auto simp: strokes_inv_def tables_ok_def hm_get_Some_iff dest: oldest_open_in)

text \<open>
  What finishing the oldest strokes guarantees: room for one more, nothing but open strokes
  closed, and one announcement per stroke committed, with its recorded owner.
\<close>

lemma finish_oldest_spec:
  assumes "strokes_inv sb" and "finish_oldest_open_strokes user now sb = (fin, sb')"
  shows "strokes_inv sb' \<and> sb_seq sb' = sb_seq sb
    \<and> open_by user sb' < MAX_OPEN_STROKES_PER_USER
    \<and> length (sb_pending sb') < MAX_OPEN_STROKES_PER_ROOM
    \<and> (\<forall>x p. hm_get (sb_pending sb') x = Some p \<longrightarrow> hm_get (sb_pending sb) x = Some p)
    \<and> (\<forall>x. hm_get (sb_pending sb) x = None \<longrightarrow>
          hm_get (sb_committed sb') x = hm_get (sb_committed sb) x \<or> hm_get (sb_committed sb') x = None)
    \<and> (\<forall>(x, u) \<in> set fin. \<exists>p. hm_get (sb_pending sb) x = Some p \<and> pst_sender_id p = u
          \<and> \<not> pst_cleared p \<and> hm_get (sb_pending sb') x = None)"
  using assms
proof (induction user now sb arbitrary: fin sb' rule: finish_oldest_open_strokes.induct)
  case (1 user now sb)
  show ?case
  proof (cases "open_by user sb < MAX_OPEN_STROKES_PER_USER
      \<and> length (sb_pending sb) < MAX_OPEN_STROKES_PER_ROOM")
    case True
    with "1.prems" show ?thesis by (auto simp: finish_oldest_open_strokes.simps [of user now sb])
  next
    case False
    then obtain sid p where oldest: "oldest_open user sb = Some (sid, p)"
      using oldest_open_exists by fastforce
    note get = oldest_open_get [OF "1.prems"(1) oldest]
    obtain d sb1 where step: "finish_stroke now sid p sb = (d, sb1)"
      by (cases "finish_stroke now sid p sb")
    obtain r sb2 where rest: "finish_oldest_open_strokes user now sb1 = (r, sb2)"
      by (cases "finish_oldest_open_strokes user now sb1")
    have result: "fin = d @ r" "sb' = sb2"
      using "1.prems"(2) False oldest step rest
      by (auto simp: finish_oldest_open_strokes.simps [of user now sb])
    have inv1: "strokes_inv sb1" using finish_stroke_inv [OF "1.prems"(1) get, of now] step by simp
    have pend: "sb_pending sb1 = hm_remove sid (sb_pending sb)" and seq: "sb_seq sb1 = sb_seq sb"
      using finish_stroke_pending [of now sid p sb] finish_stroke_seq [of now sid p sb] step by auto
    have d: "\<forall>(x, u) \<in> set d. x = sid \<and> u = pst_sender_id p \<and> \<not> pst_cleared p"
      using step by (auto simp: finish_stroke_def Let_def split: if_splits)
    have com: "x \<noteq> sid \<Longrightarrow> hm_get (sb_committed sb1) x = hm_get (sb_committed sb) x
        \<or> hm_get (sb_committed sb1) x = None" for x
      using finish_stroke_simps [OF "1.prems"(1) get, of x now] step by simp
    note IH = "1.IH" [OF False oldest refl step [symmetric] refl inv1 rest]
    then have inv2: "strokes_inv sb2" "sb_seq sb2 = sb_seq sb1"
        "open_by user sb2 < MAX_OPEN_STROKES_PER_USER"
        "length (sb_pending sb2) < MAX_OPEN_STROKES_PER_ROOM"
      and keep: "\<And>x q. hm_get (sb_pending sb2) x = Some q \<Longrightarrow> hm_get (sb_pending sb1) x = Some q"
      and com2: "\<And>x. hm_get (sb_pending sb1) x = None \<Longrightarrow>
          hm_get (sb_committed sb2) x = hm_get (sb_committed sb1) x \<or> hm_get (sb_committed sb2) x = None"
      and r: "\<forall>(x, u) \<in> set r. \<exists>q. hm_get (sb_pending sb1) x = Some q \<and> pst_sender_id q = u
          \<and> \<not> pst_cleared q \<and> hm_get (sb_pending sb2) x = None"
      by simp_all
    have sub: "x \<noteq> sid \<and> hm_get (sb_pending sb) x = Some q" if "hm_get (sb_pending sb2) x = Some q" for x q
      using keep [OF that] by (simp add: pend split: if_splits)
    have done_rest: "\<forall>(x, u) \<in> set r. \<exists>q. hm_get (sb_pending sb) x = Some q \<and> pst_sender_id q = u
        \<and> \<not> pst_cleared q \<and> hm_get (sb_pending sb2) x = None"
      using r by (auto simp: pend split: if_splits)
    have gone: "hm_get (sb_pending sb2) sid = None"
      using sub [of sid] by (cases "hm_get (sb_pending sb2) sid") auto
    have done_first: "\<forall>(x, u) \<in> set d. \<exists>q. hm_get (sb_pending sb) x = Some q \<and> pst_sender_id q = u
        \<and> \<not> pst_cleared q \<and> hm_get (sb_pending sb2) x = None"
      using d get gone by auto
    have com_all: "hm_get (sb_committed sb2) x = hm_get (sb_committed sb) x
        \<or> hm_get (sb_committed sb2) x = None" if "hm_get (sb_pending sb) x = None" for x
    proof -
      from that get have "x \<noteq> sid" by auto
      then show ?thesis using com2 [of x] com [of x] that by (auto simp: pend)
    qed
    show ?thesis
      unfolding result
    proof (intro conjI)
      show "\<forall>(x, u) \<in> set (d @ r). \<exists>p. hm_get (sb_pending sb) x = Some p \<and> pst_sender_id p = u
          \<and> \<not> pst_cleared p \<and> hm_get (sb_pending sb2) x = None"
        using done_first done_rest by auto
    qed (use inv2 seq sub com_all in auto)
  qed
qed

subsection \<open>Opening, undoing and clearing\<close>

lemma begin_stroke_inv:
  assumes inv: "strokes_inv sb"
    and room: "open_by (pst_sender_id p) sb < MAX_OPEN_STROKES_PER_USER"
      "length (sb_pending sb) < MAX_OPEN_STROKES_PER_ROOM"
    and new: "hm_get (sb_pending sb) (sbp_stroke_id b) = None"
      "hm_get (sb_committed sb) (sbp_stroke_id b) = None"
  shows "strokes_inv (record_begin (pst_sender_id p) b
    (sb\<lparr>sb_pending := hm_insert (sbp_stroke_id b) p (sb_pending sb)\<rparr>))"
proof -
  let ?s = "sbp_stroke_id b"
  let ?sb = "sb\<lparr>sb_pending := hm_insert ?s p (sb_pending sb)\<rparr>"
  let ?c = "\<lparr>sc_owner = pst_sender_id p,
    sc_begin = (if utf8_len (sbp_color b) > MAX_RETAINED_COLOR_BYTES then b\<lparr>sbp_color := []\<rparr> else b),
    sc_points = [], sc_end_ts_ms = None,
    sc_dropped = (utf8_len (sbp_color b) > MAX_RETAINED_COLOR_BYTES)\<rparr>"
  from inv have parts: "tables_ok sb" "counts_ok sb" "placed_ok {} sb" "owners_ok sb" "open_ok sb"
      "evictable_ok {} sb" by (simp_all add: strokes_inv_def)
  have keys: "?s \<notin> fst ` set (sb_pending sb)" "?s \<notin> fst ` set (sb_committed sb)"
    using new by (simp_all add: map_of_eq_None_iff)
  with parts(3) have fresh: "hm_get (sb_content sb) ?s = None"
    by (auto simp: placed_ok_def map_of_eq_None_iff)
  have eq: "record_begin (pst_sender_id p) b ?sb
      = ?sb\<lparr>sb_content := hm_insert ?s ?c (sb_content sb)\<rparr>"
    using fresh by (simp add: record_begin_def forget_content_def Let_def)
  have grow: "length (hm_insert ?s p m) = Suc (length m)
      \<and> (filter P (hm_insert ?s p m) = filter P m @ (if P (?s, p) then [(?s, p)] else []))"
    if "?s \<notin> fst ` set m" for m P
    using that by (induction m) auto
  have "open_ok (record_begin (pst_sender_id p) b ?sb)"
    using parts(5) room grow [OF keys(1)]
    by (auto simp: eq open_ok_def open_by_def)
  moreover have "tables_ok (record_begin (pst_sender_id p) b ?sb)"
    using parts(1) keys by (auto simp: eq tables_ok_def fst_hm_insert)
  moreover have "counts_ok (record_begin (pst_sender_id p) b ?sb)"
    using parts(2) hm_sum_insert_new [OF fresh, of "length \<circ> sc_points" ?c]
    by (auto simp: eq counts_ok_def content_ok_def utf8_len_def)
  moreover have "placed_ok {} (record_begin (pst_sender_id p) b ?sb)"
    using parts(3) by (auto simp: eq placed_ok_def fst_hm_insert)
  moreover have "evictable_ok {} (record_begin (pst_sender_id p) b ?sb)"
    using parts(6) by (auto simp: eq evictable_ok_def)
  moreover have "owners_ok (record_begin (pst_sender_id p) b ?sb)"
    using parts(4) new by (auto simp: eq owners_ok_def)
  ultimately show ?thesis by (simp add: strokes_inv_def)
qed

lemma record_begin_simps [simp]:
  "sb_pending (record_begin owner b sb) = sb_pending sb"
  "sb_committed (record_begin owner b sb) = sb_committed sb"
  "sb_committed_order (record_begin owner b sb) = sb_committed_order sb"
  "sb_seq (record_begin owner b sb) = sb_seq sb"
  by (simp_all add: record_begin_def Let_def)

lemma remove_committed_inv:
  assumes inv: "strokes_inv sb"
  shows "strokes_inv (snd (remove_committed sid sb))"
proof (cases "hm_get (sb_committed sb) sid")
  case None
  then show ?thesis using inv by (simp add: remove_committed_def)
next
  case (Some owner)
  let ?sb = "sb\<lparr>sb_committed := hm_remove sid (sb_committed sb),
    sb_committed_order := filter (\<lambda>x. x \<noteq> sid) (sb_committed_order sb)\<rparr>"
  from inv have parts: "tables_ok sb" "counts_ok sb" "placed_ok {} sb" "owners_ok sb" "open_ok sb"
      "evictable_ok {} sb" by (simp_all add: strokes_inv_def)
  have "length (filter (\<lambda>x. x \<noteq> sid) (sb_committed_order sb)) \<le> MAX_COMMITTED_STROKES"
    by (rule order_trans [OF length_filter_le]) (use parts(1) in \<open>simp add: tables_ok_def\<close>)
  then have "tables_ok ?sb"
    using parts(1) by (auto simp: tables_ok_def fst_hm_remove)
  moreover have "counts_ok ?sb" "owners_ok ?sb" "open_ok ?sb" "evictable_ok {} ?sb"
    using parts(2,4-6) by (auto simp: counts_ok_def owners_ok_def open_ok_def open_by_def evictable_ok_def)
  moreover have "placed_ok {} (forget_content sid ?sb)"
    using parts(3) by (auto simp: placed_ok_def content_forget fst_hm_remove)
  ultimately show ?thesis
    using Some by (simp add: remove_committed_def strokes_inv_def forget_keeps)
qed

lemma remove_committed_simps [simp]:
  "sb_pending (snd (remove_committed sid sb)) = sb_pending sb"
  "sb_committed (snd (remove_committed sid sb)) = hm_remove sid (sb_committed sb)"
  "sb_seq (snd (remove_committed sid sb)) = sb_seq sb"
  by (simp_all add: remove_committed_def hm_remove_absent split: option.split)

lemma open_by_clear:
  "open_by u (sb\<lparr>sb_pending := hm_map_values (\<lambda>p. p\<lparr>pst_cleared := True\<rparr>) (sb_pending sb)\<rparr>) = open_by u sb"
proof -
  have "length (filter (\<lambda>(_, p). pst_sender_id p = u) (hm_map_values (\<lambda>p. p\<lparr>pst_cleared := True\<rparr>) m))
      = length (filter (\<lambda>(_, p). pst_sender_id p = u) m)" for m :: "(uuid, pending_stroke) hashmap"
    by (induction m) auto
  then show ?thesis by (simp add: open_by_def)
qed

lemma clear_all_inv: "strokes_inv sb \<Longrightarrow> strokes_inv (snd (clear_all sb))"
proof -
  assume inv: "strokes_inv sb"
  have "open_by u (snd (clear_all sb)) = open_by u sb" for u
    using open_by_clear [of u sb] by (simp add: clear_all_def open_by_def)
  moreover have "length (sb_pending (snd (clear_all sb))) = length (sb_pending sb)"
    by (simp add: clear_all_def hm_map_values_def)
  ultimately have "open_ok (snd (clear_all sb))"
    using inv by (simp add: strokes_inv_def open_ok_def)
  then show ?thesis
    using inv by (simp add: strokes_inv_def tables_ok_def counts_ok_def placed_ok_def
        evictable_ok_def owners_ok_def clear_all_def)
qed

lemma clear_all_simps [simp]:
  "sb_committed (snd (clear_all sb)) = []"
  "sb_content (snd (clear_all sb)) = []"
  "sb_seq (snd (clear_all sb)) = sb_seq sb"
  "hm_get (sb_pending (snd (clear_all sb))) sid
     = map_option (\<lambda>p. p\<lparr>pst_cleared := True\<rparr>) (hm_get (sb_pending sb) sid)"
  by (simp_all add: clear_all_def)

lemma next_seq_inv [simp]: "strokes_inv (snd (next_seq sb)) = strokes_inv sb"
  by (simp add: next_seq_def Let_def strokes_inv_def strokes_parts open_by_def)

section \<open>Snapshots\<close>

lemma sync_entry_id [simp]: "sss_stroke_id (sync_entry sb sid owner) = sid"
  by (simp add: sync_entry_def split: option.split)

lemma sync_entry_owner:
  assumes "owners_ok sb"
    and "hm_get (sb_committed sb) sid = Some owner
      \<or> (\<exists>p. hm_get (sb_pending sb) sid = Some p \<and> pst_sender_id p = owner)"
  shows "sss_owner_id (sync_entry sb sid owner) = owner"
  using assms by (auto simp: sync_entry_def owners_ok_def split: option.split)

lemma snapshot_committed_ids:
  assumes "tables_ok sb"
  shows "List.map_filter (\<lambda>sid. map_option (sync_entry sb sid) (hm_get (sb_committed sb) sid))
      (sb_committed_order sb)
    = map (\<lambda>sid. sync_entry sb sid (the (hm_get (sb_committed sb) sid))) (sb_committed_order sb)"
proof -
  have "\<forall>sid \<in> set order. hm_get m sid \<noteq> None \<Longrightarrow>
      List.map_filter (\<lambda>sid. map_option (f sid) (hm_get m sid)) order
        = map (\<lambda>sid. f sid (the (hm_get m sid))) order"
    for order :: "uuid list" and m :: "(uuid, uuid) hashmap" and f :: "uuid \<Rightarrow> uuid \<Rightarrow> stroke_sync_stroke"
    by (induction order) (auto simp: List.map_filter_simps)
  moreover have "\<forall>sid \<in> set (sb_committed_order sb). hm_get (sb_committed sb) sid \<noteq> None"
    using assms by (simp add: tables_ok_def map_of_eq_None_iff del: not_None_eq)
  ultimately show ?thesis by blast
qed

text \<open>The strokes a fresh client must show: the committed ones and the open ones not cleared.\<close>

definition visible :: "stroke_bookkeeping \<Rightarrow> uuid set" where
  "visible sb = fst ` set (sb_committed sb)
     \<union> {sid. \<exists>p. hm_get (sb_pending sb) sid = Some p \<and> \<not> pst_cleared p}"

lemma snapshot_ids:
  assumes "strokes_inv sb"
  shows "map sss_stroke_id (ssync_strokes (snapshot_strokes sb))
      = sb_committed_order sb @ map fst (open_in_order sb)"
proof -
  from assms have "tables_ok sb" by (simp add: strokes_inv_def)
  then show ?thesis
    by (simp add: snapshot_strokes_def snapshot_committed_ids o_def case_prod_beta)
qed

lemma set_open_in_order:
  "hm_wf (sb_pending sb) \<Longrightarrow> (sid, p) \<in> set (open_in_order sb)
     \<longleftrightarrow> hm_get (sb_pending sb) sid = Some p \<and> \<not> pst_cleared p"
  by (auto simp: open_in_order_def hm_get_Some_iff)

lemma distinct_open_in_order: "hm_wf (sb_pending sb) \<Longrightarrow> distinct (map fst (open_in_order sb))"
proof -
  assume "hm_wf (sb_pending sb)"
  then have "distinct (map fst (filter (\<lambda>(_, p). \<not> pst_cleared p) (sb_pending sb)))"
    by (simp add: hm_wf_def distinct_map_filter)
  moreover have "mset (map fst (open_in_order sb))
      = mset (map fst (filter (\<lambda>(_, p). \<not> pst_cleared p) (sb_pending sb)))"
    by (simp add: open_in_order_def mset_map)
  ultimately show ?thesis using mset_eq_imp_distinct_iff by blast
qed

section \<open>Properties\<close>

text \<open>
  C18: a DRAW_SYNC snapshot of a well-formed room lists every visible stroke
  exactly once, committed strokes in commit order before the open ones, each with the owner
  recorded at its DRAW_BEGIN, and carries at most 50,000 points.
\<close>

theorem snapshot_lists_visible:
  assumes "strokes_inv sb"
  shows "distinct (map sss_stroke_id (ssync_strokes (snapshot_strokes sb)))
    \<and> set (map sss_stroke_id (ssync_strokes (snapshot_strokes sb))) = visible sb
    \<and> (\<forall>e \<in> set (ssync_strokes (snapshot_strokes sb)).
          hm_get (sb_committed sb) (sss_stroke_id e) = Some (sss_owner_id e)
          \<or> map_option pst_sender_id (hm_get (sb_pending sb) (sss_stroke_id e)) = Some (sss_owner_id e))
    \<and> ssync_seq (snapshot_strokes sb) = sb_seq sb
    \<and> sb_retained_points sb \<le> 50000"
proof -
  from assms have tables: "tables_ok sb" and owners: "owners_ok sb" and counts: "counts_ok sb"
    by (simp_all add: strokes_inv_def)
  then have wf: "hm_wf (sb_pending sb)" by (simp add: tables_ok_def)
  have open_set: "set (map fst (open_in_order sb))
      = {sid. \<exists>p. hm_get (sb_pending sb) sid = Some p \<and> \<not> pst_cleared p}"
    using set_open_in_order [OF wf] by (force simp: image_iff)
  have open_keys: "set (map fst (open_in_order sb)) \<subseteq> fst ` set (sb_pending sb)"
    unfolding open_set by (auto dest: hm_get_SomeD intro: rev_image_eqI)
  have distinct: "distinct (sb_committed_order sb @ map fst (open_in_order sb))"
    using tables open_keys distinct_open_in_order [OF wf] by (auto simp: tables_ok_def)
  have ids: "set (sb_committed_order sb @ map fst (open_in_order sb)) = visible sb"
    using tables open_set by (simp add: visible_def tables_ok_def)
  have "\<forall>e \<in> set (ssync_strokes (snapshot_strokes sb)).
      hm_get (sb_committed sb) (sss_stroke_id e) = Some (sss_owner_id e)
      \<or> map_option pst_sender_id (hm_get (sb_pending sb) (sss_stroke_id e)) = Some (sss_owner_id e)"
  proof
    fix e assume "e \<in> set (ssync_strokes (snapshot_strokes sb))"
    then consider (com) sid where "sid \<in> set (sb_committed_order sb)"
        "e = sync_entry sb sid (the (hm_get (sb_committed sb) sid))"
      | (opn) sid p where "(sid, p) \<in> set (open_in_order sb)" "e = sync_entry sb sid (pst_sender_id p)"
      by (auto simp: snapshot_strokes_def snapshot_committed_ids [OF tables])
    then show "hm_get (sb_committed sb) (sss_stroke_id e) = Some (sss_owner_id e)
        \<or> map_option pst_sender_id (hm_get (sb_pending sb) (sss_stroke_id e)) = Some (sss_owner_id e)"
    proof cases
      case com
      then obtain u where u: "hm_get (sb_committed sb) sid = Some u"
        using tables hm_get_key [of sid "sb_committed sb"] by (auto simp: tables_ok_def)
      then show ?thesis using com sync_entry_owner [OF owners, of sid u] by simp
    next
      case opn
      then have "hm_get (sb_pending sb) sid = Some p" by (simp add: set_open_in_order [OF wf])
      then show ?thesis using opn sync_entry_owner [OF owners, of sid "pst_sender_id p"] by simp
    qed
  qed
  moreover have "sb_retained_points sb \<le> 50000"
    using counts by (simp add: counts_ok_def MAX_RETAINED_POINTS_def)
  ultimately show ?thesis
    using distinct ids by (simp only: snapshot_ids [OF assms]) (simp add: snapshot_strokes_def)
qed

theorem snapshot_lists_visible_witness:
  "set (map sss_stroke_id (ssync_strokes (snapshot_strokes (stroke_bookkeeping_new 7)))) = {}"
  using snapshot_lists_visible [OF strokes_inv_new, of 7]
  by (simp add: visible_def stroke_bookkeeping_new_def)

text \<open>
  Before a stroke is opened the oldest abandoned ones are finished: whatever the
  room holds, afterwards the user has fewer than eight strokes open and the room fewer than 64,
  only open strokes were closed, every announced stroke is one that was open, not cleared and is
  announced with its recorded owner, and the invariant holds.
\<close>

theorem finish_oldest_bounds:
  assumes "strokes_inv sb" and "finish_oldest_open_strokes user now sb = (announced, sb')"
  shows "strokes_inv sb' \<and> open_by user sb' < 8 \<and> length (sb_pending sb') < 64
    \<and> sb_seq sb' = sb_seq sb
    \<and> (\<forall>x p. hm_get (sb_pending sb') x = Some p \<longrightarrow> hm_get (sb_pending sb) x = Some p)
    \<and> (\<forall>(x, u) \<in> set announced. \<exists>p. hm_get (sb_pending sb) x = Some p \<and> pst_sender_id p = u
          \<and> \<not> pst_cleared p \<and> hm_get (sb_pending sb') x = None)"
  using finish_oldest_spec [OF assms]
  by (simp add: MAX_OPEN_STROKES_PER_USER_def MAX_OPEN_STROKES_PER_ROOM_def)

theorem finish_oldest_bounds_witness:
  "strokes_inv (stroke_bookkeeping_new 7) \<and> open_by 3 (stroke_bookkeeping_new 7) < 8"
proof -
  have "finish_oldest_open_strokes 3 9 (stroke_bookkeeping_new 7) = ([], stroke_bookkeeping_new 7)"
    by (simp add: finish_oldest_open_strokes.simps open_by_def stroke_bookkeeping_new_def
        MAX_OPEN_STROKES_PER_USER_def MAX_OPEN_STROKES_PER_ROOM_def)
  from finish_oldest_bounds [OF strokes_inv_new this] show ?thesis by simp
qed

text \<open>One user's BEGIN, END and UNDO of one stroke, in the operations the handlers call.\<close>

definition draw_undo_cycle ::
    "pending_stroke \<Rightarrow> stroke_begin_payload \<Rightarrow> millis \<Rightarrow> stroke_bookkeeping \<Rightarrow> stroke_bookkeeping" where
  "draw_undo_cycle p b ts sb =
     (let sb1 = record_begin (pst_sender_id p) b
                  (sb\<lparr>sb_pending := hm_insert (sbp_stroke_id b) p (sb_pending sb)\<rparr>);
          sb2 = snd (finish_stroke ts (sbp_stroke_id b) p sb1)
      in snd (remove_committed (sbp_stroke_id b) sb2))"

lemma draw_undo_cycle_step:
  assumes "sb_pending sb = []" "sb_committed sb = []" "sb_committed_order sb = []"
    "sb_content sb = []" "sb_retained_points sb = 0"
    "sb_evict_order sb = replicate n (sbp_stroke_id b)" and "\<not> pst_cleared p"
  shows "draw_undo_cycle p b ts sb = sb\<lparr>sb_evict_order := replicate (Suc n) (sbp_stroke_id b)\<rparr>"
proof -
  have "replicate n (sbp_stroke_id b) @ [sbp_stroke_id b] = replicate (Suc n) (sbp_stroke_id b)"
    by (simp add: replicate_append_same)
  with assms show ?thesis
    by (simp add: draw_undo_cycle_def Let_def record_begin_def forget_content_def finish_stroke_def
        commit_def trim_committed_fits MAX_COMMITTED_STROKES_def record_end_def hm_contains_def
        remove_committed_def filter_replicate)
qed

text \<open>
  The eviction queue is not bounded by the pruning in \<open>record_end\<close>, against its
  comment: drawing, ending and undoing one stroke id over and over leaves one more entry for it
  every time, since each pruning happens while that id is committed.
\<close>

theorem evict_queue_grows:
  assumes "\<not> pst_cleared p"
  shows "length (sb_evict_order ((draw_undo_cycle p b ts ^^ n) (stroke_bookkeeping_new now_ms))) = n"
proof -
  have "(draw_undo_cycle p b ts ^^ n) (stroke_bookkeeping_new now_ms)
      = (stroke_bookkeeping_new now_ms)\<lparr>sb_evict_order := replicate n (sbp_stroke_id b)\<rparr>"
  proof (induction n)
    case (Suc n)
    then show ?case
      using draw_undo_cycle_step [of "(stroke_bookkeeping_new now_ms)
          \<lparr>sb_evict_order := replicate n (sbp_stroke_id b)\<rparr>" n b p ts] assms
      by (simp add: stroke_bookkeeping_new_def)
  qed (simp add: stroke_bookkeeping_new_def)
  then show ?thesis by simp
qed

theorem evict_queue_grows_witness:
  "length (sb_evict_order ((draw_undo_cycle
      \<lparr>pst_sender_id = 1, pst_sender_pubkey = [], pst_started_ms = 0, pst_cleared = False\<rparr>
      \<lparr>sbp_stroke_id = 2, sbp_tool = Pen, sbp_color = [], sbp_width = 1, sbp_x = 0, sbp_y = 0,
       sbp_pressure = 0, sbp_ts_ms = 0\<rparr> 5 ^^ 20000) (stroke_bookkeeping_new 7))) = 20000"
  by (rule evict_queue_grows) simp

end
