(* ===== verification/Events.thy ===== *)
theory Events
  imports Protocol
begin

text \<open>
  Message kinds and envelopes (\<open>shared/protocol/src/envelope.rs\<close>), the room events of the
  registry and the broadcast items they become (\<open>rooms/registry.rs\<close>). A manifest is a type
  variable \<open>'m\<close>: the room service relays it and reads it only through the functions of the
  manifest crate. An inbound payload is a JSON value of type \<open>'j\<close> that \<open>serde_json\<close> decodes; an
  outbound payload is the typed value that is serialized.
\<close>

section \<open>Message kinds\<close>

datatype message_kind =
  MkHello | MkWelcome | MkChallenge | MkAuth | MkAuthOk | MkAuthFail | MkAuthResume
| MkRoomCreate | MkRoomCreated | MkRoomJoinRequest | MkRoomJoined | MkRoomLeave | MkRoomState
| MkParticipantJoined | MkParticipantLeft | MkHostDisconnected | MkHostReconnected
| MkHostMigrated | MkRoomClosed | MkRoomError | MkPresence | MkRateLimit
| MkManifestPublish | MkManifestPublished | MkManifestRequest | MkManifestResponse
| MkManifestPart | MkSignal | MkPlaybackCmd | MkPositionReport | MkPermissionSet
| MkCapabilityUpdate | MkChatMessage | MkStrokeBegin | MkStrokePoint | MkStrokeEnd
| MkStrokeUndo | MkStrokeClear | MkStrokeSync | MkLaserMove | MkLaserOff
| MkSkewProbe | MkSkewReply | MkOther rstring

fun as_str :: "message_kind \<Rightarrow> rstring" where
  "as_str MkHello = ascii ''HELLO''"
| "as_str MkWelcome = ascii ''WELCOME''"
| "as_str MkChallenge = ascii ''CHALLENGE''"
| "as_str MkAuth = ascii ''AUTH''"
| "as_str MkAuthOk = ascii ''AUTH_OK''"
| "as_str MkAuthFail = ascii ''AUTH_FAIL''"
| "as_str MkAuthResume = ascii ''AUTH_RESUME''"
| "as_str MkRoomCreate = ascii ''ROOM_CREATE''"
| "as_str MkRoomCreated = ascii ''ROOM_CREATED''"
| "as_str MkRoomJoinRequest = ascii ''ROOM_JOIN_REQUEST''"
| "as_str MkRoomJoined = ascii ''ROOM_JOINED''"
| "as_str MkRoomLeave = ascii ''ROOM_LEAVE''"
| "as_str MkRoomState = ascii ''ROOM_STATE''"
| "as_str MkParticipantJoined = ascii ''PARTICIPANT_JOINED''"
| "as_str MkParticipantLeft = ascii ''PARTICIPANT_LEFT''"
| "as_str MkHostDisconnected = ascii ''HOST_DISCONNECTED''"
| "as_str MkHostReconnected = ascii ''HOST_RECONNECTED''"
| "as_str MkHostMigrated = ascii ''HOST_MIGRATED''"
| "as_str MkRoomClosed = ascii ''ROOM_CLOSED''"
| "as_str MkRoomError = ascii ''ROOM_ERROR''"
| "as_str MkPresence = ascii ''PRESENCE''"
| "as_str MkRateLimit = ascii ''RATE_LIMIT''"
| "as_str MkManifestPublish = ascii ''MANIFEST_PUBLISH''"
| "as_str MkManifestPublished = ascii ''MANIFEST_PUBLISHED''"
| "as_str MkManifestRequest = ascii ''MANIFEST_REQUEST''"
| "as_str MkManifestResponse = ascii ''MANIFEST_RESPONSE''"
| "as_str MkManifestPart = ascii ''MANIFEST_PART''"
| "as_str MkSignal = ascii ''SIGNAL''"
| "as_str MkPlaybackCmd = ascii ''PLAYBACK_CMD''"
| "as_str MkPositionReport = ascii ''POSITION_REPORT''"
| "as_str MkPermissionSet = ascii ''PERMISSION_SET''"
| "as_str MkCapabilityUpdate = ascii ''CAPABILITY_UPDATE''"
| "as_str MkChatMessage = ascii ''CHAT_MESSAGE''"
| "as_str MkStrokeBegin = ascii ''DRAW_BEGIN''"
| "as_str MkStrokePoint = ascii ''DRAW_POINT''"
| "as_str MkStrokeEnd = ascii ''DRAW_END''"
| "as_str MkStrokeUndo = ascii ''DRAW_UNDO''"
| "as_str MkStrokeClear = ascii ''DRAW_CLEAR''"
| "as_str MkStrokeSync = ascii ''DRAW_SYNC''"
| "as_str MkLaserMove = ascii ''LASER_MOVE''"
| "as_str MkLaserOff = ascii ''LASER_OFF''"
| "as_str MkSkewProbe = ascii ''SKEW_PROBE''"
| "as_str MkSkewReply = ascii ''SKEW_REPLY''"
| "as_str (MkOther s) = s"

definition is_room_lifecycle :: "message_kind \<Rightarrow> bool" where
  "is_room_lifecycle k \<longleftrightarrow> k \<in> {MkRoomCreate, MkRoomJoinRequest, MkRoomLeave, MkPresence}"

definition is_manifest_lifecycle :: "message_kind \<Rightarrow> bool" where
  "is_manifest_lifecycle k \<longleftrightarrow> k \<in> {MkManifestPublish, MkManifestPublished, MkManifestRequest,
     MkManifestResponse, MkManifestPart}"

definition is_signal_lifecycle :: "message_kind \<Rightarrow> bool" where
  "is_signal_lifecycle k \<longleftrightarrow> k = MkSignal"

definition is_playback_lifecycle :: "message_kind \<Rightarrow> bool" where
  "is_playback_lifecycle k \<longleftrightarrow> k = MkPlaybackCmd"

definition is_position_report :: "message_kind \<Rightarrow> bool" where
  "is_position_report k \<longleftrightarrow> k = MkPositionReport"

definition is_skew_probe :: "message_kind \<Rightarrow> bool" where
  "is_skew_probe k \<longleftrightarrow> k = MkSkewProbe"

definition is_drawing :: "message_kind \<Rightarrow> bool" where
  "is_drawing k \<longleftrightarrow> k \<in> {MkStrokeBegin, MkStrokePoint, MkStrokeEnd, MkStrokeUndo, MkStrokeClear}"

definition is_laser :: "message_kind \<Rightarrow> bool" where
  "is_laser k \<longleftrightarrow> k = MkLaserMove \<or> k = MkLaserOff"

lemmas kind_predicates =
  is_room_lifecycle_def is_manifest_lifecycle_def is_signal_lifecycle_def
  is_playback_lifecycle_def is_position_report_def is_skew_probe_def is_drawing_def is_laser_def

section \<open>Envelopes\<close>

record sender =
  snd_user_id :: uuid
  snd_pubkey :: bytes
  snd_sig :: bytes

record 'p envelope =
  env_v :: nat
  env_type :: message_kind
  env_id :: uuid
  env_room_id :: "uuid option"
  env_sender :: "sender option"
  env_ts_ms :: millis
  env_seq :: nat
  env_payload :: 'p

section \<open>Manifest pieces\<close>

datatype manifest_part_kind = PartPublish | PartPublished | PartResponse

record manifest_part_payload =
  mp_assembly_id :: uuid
  mp_kind :: manifest_part_kind
  mp_index :: nat
  mp_total :: nat
  mp_total_bytes :: nat
  mp_digest :: string
  mp_version :: int
  mp_published_at_ms :: millis
  mp_data :: string

section \<open>Room events\<close>

record playback_accepted_event =
  pa_sender_id :: uuid
  pa_action :: playback_action
  pa_monotonic_seq :: nat
  pa_media_position_ms :: nat
  pa_client_ts_ms :: millis
  pa_server_seq :: nat
  pa_server_ts_ms :: millis

record chat_message =
  cm_room_id :: uuid
  cm_sender_id :: uuid
  cm_text :: rstring
  cm_reply_to :: "uuid option"
  cm_sent_ms :: millis

datatype 'm room_event =
  EvParticipantJoined participant
| EvParticipantLeft participant_left_payload
| EvHostDisconnected host_disconnected_payload
| EvHostReconnected uuid
| EvHostMigrated host_migrated_payload
| EvRoomClosed string
| EvError uuid room_error_payload
| EvManifestPublished uuid 'm int millis
| EvPlaybackCommand playback_accepted_event
| EvPositionReport uuid uuid position_report_payload
| EvStrokeBegin uuid uuid stroke_begin_payload
| EvStrokePoint uuid uuid stroke_point_payload
| EvStrokeEnd uuid uuid stroke_end_payload
| EvStrokeUndo uuid uuid stroke_undo_payload
| EvStrokeClear uuid uuid
| EvLaserMove uuid uuid laser_move_payload
| EvLaserOff uuid uuid
| EvCapabilityUpdated uuid u32
| EvChatMessage chat_message

text \<open>The payload of an outgoing message, before \<open>serde_json::to_value\<close>.\<close>

datatype 'm wire_payload =
  WParticipantJoined participant
| WParticipantLeft participant_left_payload
| WHostDisconnected host_disconnected_payload
| WHostReconnected uuid
| WHostMigrated host_migrated_payload
| WRoomClosed string
| WRoomError room_error_payload
| WManifestPublished 'm int millis
| WManifestResponse 'm int millis
| WManifestPart manifest_part_payload
| WPlaybackAccepted playback_accepted_event
| WPositionReport position_report_payload
| WStrokeBegin stroke_begin_payload
| WStrokePoint stroke_point_payload
| WStrokeEnd stroke_end_payload
| WStrokeUndo stroke_undo_payload
| WStrokeSync stroke_sync_payload
| WLaserMove laser_move_payload
| WCapabilityUpdate uuid u32
| WChat chat_payload
| WRoomCreated room_created_payload
| WRoomJoined room_joined_payload
| WRoomState room_state_payload
| WSkewReply millis millis
| WEmptyObject

record 'm broadcast_item =
  bi_kind :: message_kind
  bi_payload :: "'m wire_payload"
  bi_room_id :: uuid
  bi_originator :: "uuid option"
  bi_sender :: "uuid option"
  bi_seq :: nat

fun event_payload :: "'m room_event \<Rightarrow> message_kind \<times> 'm wire_payload" where
  "event_payload (EvParticipantJoined p) = (MkParticipantJoined, WParticipantJoined p)"
| "event_payload (EvParticipantLeft p) = (MkParticipantLeft, WParticipantLeft p)"
| "event_payload (EvHostDisconnected p) = (MkHostDisconnected, WHostDisconnected p)"
| "event_payload (EvHostReconnected u) = (MkHostReconnected, WHostReconnected u)"
| "event_payload (EvHostMigrated p) = (MkHostMigrated, WHostMigrated p)"
| "event_payload (EvRoomClosed reason) = (MkRoomClosed, WRoomClosed reason)"
| "event_payload (EvError _ payload) = (MkRoomError, WRoomError payload)"
| "event_payload (EvManifestPublished _ m version at) =
     (MkManifestPublished, WManifestPublished m version at)"
| "event_payload (EvPlaybackCommand e) = (MkPlaybackCmd, WPlaybackAccepted e)"
| "event_payload (EvPositionReport _ _ p) = (MkPositionReport, WPositionReport p)"
| "event_payload (EvStrokeBegin _ _ p) = (MkStrokeBegin, WStrokeBegin p)"
| "event_payload (EvStrokePoint _ _ p) = (MkStrokePoint, WStrokePoint p)"
| "event_payload (EvStrokeEnd _ _ p) = (MkStrokeEnd, WStrokeEnd p)"
| "event_payload (EvStrokeUndo _ _ p) = (MkStrokeUndo, WStrokeUndo p)"
| "event_payload (EvStrokeClear _ _) = (MkStrokeClear, WEmptyObject)"
| "event_payload (EvLaserMove _ _ p) = (MkLaserMove, WLaserMove p)"
| "event_payload (EvLaserOff _ _) = (MkLaserOff, WEmptyObject)"
| "event_payload (EvCapabilityUpdated u c) = (MkCapabilityUpdate, WCapabilityUpdate u c)"
| "event_payload (EvChatMessage e) =
     (MkChatMessage, WChat \<lparr>chat_sender_id = cm_sender_id e, chat_text = cm_text e,
        chat_reply_to = cm_reply_to e, chat_sent_ms = cm_sent_ms e\<rparr>)"

fun event_sender :: "'m room_event \<Rightarrow> uuid option" where
  "event_sender (EvStrokeBegin _ u _) = Some u"
| "event_sender (EvStrokePoint _ u _) = Some u"
| "event_sender (EvStrokeEnd _ u _) = Some u"
| "event_sender (EvStrokeUndo _ u _) = Some u"
| "event_sender (EvStrokeClear _ u) = Some u"
| "event_sender (EvLaserMove _ u _) = Some u"
| "event_sender (EvLaserOff _ u) = Some u"
| "event_sender _ = None"

definition event_to_broadcast_item ::
    "'m room_event \<Rightarrow> uuid \<Rightarrow> uuid option \<Rightarrow> 'm broadcast_item" where
  "event_to_broadcast_item e room_id originator =
     \<lparr>bi_kind = fst (event_payload e), bi_payload = snd (event_payload e), bi_room_id = room_id,
      bi_originator = originator, bi_sender = event_sender e, bi_seq = 0\<rparr>"

text \<open>Who \<open>publish_event\<close> names as the originator, and the room it publishes to.\<close>

fun event_originator :: "'m room_event \<Rightarrow> uuid option" where
  "event_originator (EvParticipantJoined p) = Some (pub_user_id p)"
| "event_originator (EvParticipantLeft p) = Some (pl_user_id p)"
| "event_originator (EvHostDisconnected p) = Some (hd_previous_host_user_id p)"
| "event_originator (EvHostReconnected u) = Some u"
| "event_originator (EvHostMigrated p) = Some (hm_new_host_user_id p)"
| "event_originator (EvRoomClosed _) = None"
| "event_originator (EvError target _) = Some target"
| "event_originator (EvManifestPublished _ _ _ _) = None"
| "event_originator (EvPlaybackCommand e) = Some (pa_sender_id e)"
| "event_originator (EvPositionReport _ u _) = Some u"
| "event_originator (EvStrokeBegin _ u _) = Some u"
| "event_originator (EvStrokePoint _ u _) = Some u"
| "event_originator (EvStrokeEnd _ u _) = Some u"
| "event_originator (EvStrokeUndo _ _ _) = None"
| "event_originator (EvStrokeClear _ _) = None"
| "event_originator (EvLaserMove _ u _) = Some u"
| "event_originator (EvLaserOff _ u) = Some u"
| "event_originator (EvCapabilityUpdated _ _) = None"
| "event_originator (EvChatMessage e) = Some (cm_sender_id e)"

fun event_room :: "uuid \<Rightarrow> 'm room_event \<Rightarrow> uuid" where
  "event_room _ (EvManifestPublished rid _ _ _) = rid"
| "event_room _ (EvPositionReport rid _ _) = rid"
| "event_room _ (EvStrokeBegin rid _ _) = rid"
| "event_room _ (EvStrokePoint rid _ _) = rid"
| "event_room _ (EvStrokeEnd rid _ _) = rid"
| "event_room _ (EvStrokeUndo rid _ _) = rid"
| "event_room _ (EvStrokeClear rid _) = rid"
| "event_room _ (EvLaserMove rid _ _) = rid"
| "event_room _ (EvLaserOff rid _) = rid"
| "event_room _ (EvChatMessage e) = cm_room_id e"
| "event_room fallback _ = fallback"

end
