(* ===== verification/RoomState.thy ===== *)
theory RoomState
  imports Events Strokes
begin

text \<open>
  The state of one room, \<open>RoomState\<close> of \<open>rooms/state.rs\<close>, its snapshots, and the host-disconnect
  decisions of \<open>rooms/host.rs\<close>. The invariant \<open>room_inv\<close> is what every operation on a room
  keeps: one record per user and, while the room is live, exactly one host record, whose user
  has not left.
\<close>

section \<open>State\<close>

datatype room_lifecycle = Open | Playing | Paused | Ended

record participant_record =
  p_user_id :: uuid
  p_pubkey :: bytes
  p_display_name :: rstring
  p_joined_ms :: millis
  p_status :: participant_status
  p_last_seen_ms :: millis
  p_is_host :: bool
  p_cap_set :: u32

record playback_bookkeeping =
  pb_server_seq :: nat
  pb_last_acked_seq :: "(uuid, nat) hashmap"
  pb_last_position_ms :: nat
  pb_last_server_ts_ms :: millis
  pb_last_sender :: "uuid option"
  pb_last_monotonic_seq :: nat

record room_state =
  rs_id :: uuid
  rs_code :: rstring
  rs_title :: rstring
  rs_host_user_id :: uuid
  rs_host_pubkey :: bytes
  rs_host_migration_enabled :: bool
  rs_created_ms :: millis
  rs_state :: room_lifecycle
  rs_host_disconnect_deadline_ms :: "millis option"
  rs_participants :: "participant_record list"
  rs_playback :: playback_bookkeeping
  rs_drawing :: stroke_bookkeeping

definition playback_default :: playback_bookkeeping where
  "playback_default = \<lparr>pb_server_seq = 0, pb_last_acked_seq = [], pb_last_position_ms = 0,
     pb_last_server_ts_ms = 0, pb_last_sender = None, pb_last_monotonic_seq = 0\<rparr>"

text \<open>\<open>clock_ms\<close> is the reading of \<open>SystemTime::now()\<close> that \<open>StrokeBookkeeping::new\<close> takes.\<close>

definition room_state_new ::
    "uuid \<Rightarrow> rstring \<Rightarrow> rstring \<Rightarrow> uuid \<Rightarrow> bytes \<Rightarrow> bool \<Rightarrow> millis \<Rightarrow> u32 \<Rightarrow> nat \<Rightarrow> room_state" where
  "room_state_new rid code title host pubkey migration created cap_set clock_ms =
     \<lparr>rs_id = rid, rs_code = code, rs_title = title, rs_host_user_id = host,
      rs_host_pubkey = pubkey, rs_host_migration_enabled = migration, rs_created_ms = created,
      rs_state = Open, rs_host_disconnect_deadline_ms = None,
      rs_participants =
        [\<lparr>p_user_id = host, p_pubkey = pubkey, p_display_name = [], p_joined_ms = created,
          p_status = Connected, p_last_seen_ms = created, p_is_host = True, p_cap_set = cap_set\<rparr>],
      rs_playback = playback_default, rs_drawing = stroke_bookkeeping_new clock_ms\<rparr>"

definition host :: "room_state \<Rightarrow> participant_record option" where
  "host rs = find p_is_host (rs_participants rs)"

text \<open>\<open>host_mut\<close> followed by a mutation of the record found.\<close>

definition host_mut :: "(participant_record \<Rightarrow> participant_record) \<Rightarrow> room_state \<Rightarrow> room_state" where
  "host_mut f rs = rs\<lparr>rs_participants := update_first p_is_host f (rs_participants rs)\<rparr>"

definition host_disconnected :: "room_state \<Rightarrow> bool" where
  "host_disconnected rs \<longleftrightarrow> rs_host_disconnect_deadline_ms rs \<noteq> None"

definition to_public :: "participant_record \<Rightarrow> participant" where
  "to_public p = \<lparr>pub_user_id = p_user_id p, pub_pubkey = p_pubkey p,
     pub_display_name = p_display_name p, pub_joined_ms = p_joined_ms p,
     pub_status = p_status p, pub_last_seen_ms = p_last_seen_ms p, pub_is_host = p_is_host p\<rparr>"

definition playback_snapshot_of :: "room_state \<Rightarrow> playback_snapshot option" where
  "playback_snapshot_of rs =
     (let snap = (\<lambda>paused. case pb_last_sender (rs_playback rs) of
                    None \<Rightarrow> None
                  | Some sender \<Rightarrow> Some
                      \<lparr>ps_paused = paused,
                       ps_media_position_ms = pb_last_position_ms (rs_playback rs),
                       ps_server_ts_ms = pb_last_server_ts_ms (rs_playback rs),
                       ps_server_seq = pb_server_seq (rs_playback rs),
                       ps_sender_id = sender,
                       ps_monotonic_seq = pb_last_monotonic_seq (rs_playback rs)\<rparr>)
      in case rs_state rs of
           Playing \<Rightarrow> snap False
         | Paused \<Rightarrow> snap True
         | Open \<Rightarrow> None
         | Ended \<Rightarrow> None)"

definition snapshot :: "room_state \<Rightarrow> room_summary" where
  "snapshot rs =
     \<lparr>rsum_id = rs_id rs, rsum_code = rs_code rs, rsum_title = rs_title rs,
      rsum_host_user_id = rs_host_user_id rs,
      rsum_host_migration_enabled = rs_host_migration_enabled rs,
      rsum_created_ms = rs_created_ms rs,
      rsum_participants = map to_public (filter (\<lambda>p. p_status p \<noteq> Left) (rs_participants rs)),
      rsum_host_disconnected = host_disconnected rs,
      rsum_host_disconnect_deadline_ms = rs_host_disconnect_deadline_ms rs,
      rsum_playback = playback_snapshot_of rs\<rparr>"

definition self_view :: "uuid \<Rightarrow> room_state \<Rightarrow> participant_self option" where
  "self_view user rs =
     map_option (\<lambda>p. \<lparr>self_user_id = p_user_id p, self_cap_set = p_cap_set p,
                      self_joined_ms = p_joined_ms p\<rparr>)
       (find (\<lambda>p. p_user_id p = user \<and> p_status p \<noteq> Left) (rev (rs_participants rs)))"

text \<open>The membership tests the registry and the handlers repeat.\<close>

abbreviation live :: "participant_record \<Rightarrow> bool" where
  "live p \<equiv> p_status p \<noteq> Left"

abbreviation present :: "participant_record \<Rightarrow> bool" where
  "present p \<equiv> p_status p = Connected \<or> p_status p = Reconnecting"

definition live_record :: "uuid \<Rightarrow> room_state \<Rightarrow> participant_record option" where
  "live_record user rs = find (\<lambda>p. p_user_id p = user \<and> live p) (rs_participants rs)"

definition has_live_record :: "uuid \<Rightarrow> room_state \<Rightarrow> bool" where
  "has_live_record user rs \<longleftrightarrow> list_ex (\<lambda>p. p_user_id p = user \<and> live p) (rs_participants rs)"

definition is_present :: "uuid \<Rightarrow> room_state \<Rightarrow> bool" where
  "is_present user rs \<longleftrightarrow> list_ex (\<lambda>p. p_user_id p = user \<and> present p) (rs_participants rs)"

section \<open>Host election and grace\<close>

text \<open>
  \<open>elect_new_host\<close> sorts the candidates by join time and then by the bytes of the user id, and
  takes the first. \<open>sort_key\<close> is stable, as \<open>sort_by\<close> is.
\<close>

definition candidates :: "room_state \<Rightarrow> participant_record list" where
  "candidates rs = filter (\<lambda>p. \<not> p_is_host p \<and> present p) (rs_participants rs)"

definition promote :: "uuid \<Rightarrow> participant_record \<Rightarrow> participant_record" where
  "promote new_host p =
     (if p_user_id p = new_host then p\<lparr>p_is_host := True, p_cap_set := HOST\<rparr>
      else if p_is_host p \<and> p_user_id p \<noteq> new_host then p\<lparr>p_is_host := False, p_cap_set := CHAT\<rparr>
      else p)"

definition elect_new_host :: "room_state \<Rightarrow> uuid option \<times> room_state" where
  "elect_new_host rs =
     (if candidates rs = [] then (None, rs)
      else let new_host = p_user_id (hd (sort_key (\<lambda>p. (p_joined_ms p, p_user_id p)) (candidates rs)))
           in (Some new_host,
               rs\<lparr>rs_participants := map (promote new_host) (rs_participants rs),
                  rs_host_user_id := new_host\<rparr>))"

definition try_migrate_host :: "room_state \<Rightarrow> uuid option" where
  "try_migrate_host rs = None"

definition GRACE_REASON :: string where
  "GRACE_REASON = ''host_disconnected_no_migration''"

definition process_room_grace ::
    "room_state \<Rightarrow> millis \<Rightarrow> 'm room_event option \<times> room_state" where
  "process_room_grace rs now_ms =
     (case rs_host_disconnect_deadline_ms rs of
        None \<Rightarrow> (None, rs)
      | Some deadline \<Rightarrow>
          if now_ms < deadline then (None, rs)
          else let prev = rs_host_user_id rs;
                   ended = (Some (EvRoomClosed GRACE_REASON), rs\<lparr>rs_state := Ended\<rparr>)
               in if rs_host_migration_enabled rs
                  then (case try_migrate_host rs of
                          Some new_host \<Rightarrow>
                            (let rs' = rs\<lparr>rs_host_disconnect_deadline_ms := None\<rparr>
                             in (Some (EvHostMigrated
                                   \<lparr>hm_previous_host_user_id = prev,
                                    hm_new_host_user_id = new_host,
                                    hm_summary = Some (snapshot rs')\<rparr>), rs'))
                        | None \<Rightarrow> ended)
                  else ended)"

section \<open>The room invariant\<close>

text \<open>
  While a room is live its list names exactly one host, whose transport is up or in its grace
  period; each user has one record; a room in which a command was accepted knows its sender.
\<close>

definition one_host :: "participant_record list \<Rightarrow> bool" where
  "one_host ps \<longleftrightarrow> (\<exists>h. filter p_is_host ps = [h] \<and> present h)"

definition playback_inv :: "room_state \<Rightarrow> bool" where
  "playback_inv rs \<longleftrightarrow> hm_wf (pb_last_acked_seq (rs_playback rs))
     \<and> (rs_state rs = Open \<longrightarrow> pb_server_seq (rs_playback rs) = 0 \<and> pb_last_sender (rs_playback rs) = None)
     \<and> (rs_state rs = Playing \<or> rs_state rs = Paused \<longrightarrow> pb_last_sender (rs_playback rs) \<noteq> None)"

definition room_inv :: "room_state \<Rightarrow> bool" where
  "room_inv rs \<longleftrightarrow> distinct (map p_user_id (rs_participants rs)) \<and> strokes_inv (rs_drawing rs)
     \<and> playback_inv rs \<and> (rs_state rs \<noteq> Ended \<longrightarrow> one_host (rs_participants rs))"

definition live_count :: "room_state \<Rightarrow> nat" where
  "live_count rs = length (filter live (rs_participants rs))"

lemma room_inv_new: "room_inv (room_state_new rid code title h pk mig created caps clock_ms)"
  by (simp add: room_inv_def room_state_new_def one_host_def playback_inv_def playback_default_def
      strokes_inv_new)

lemma host_of_one_host: "one_host ps \<Longrightarrow> \<exists>h. find p_is_host ps = Some h \<and> filter p_is_host ps = [h] \<and> present h"
proof -
  assume "one_host ps"
  then obtain h where h: "filter p_is_host ps = [h]" "present h" by (auto simp: one_host_def)
  have "find p_is_host ps = Some (hd (filter p_is_host ps))" if "filter p_is_host ps \<noteq> []"
    using that by (induction ps) auto
  with h show ?thesis by simp
qed

lemma room_inv_host:
  assumes "room_inv rs" and "rs_state rs \<noteq> Ended"
  obtains h where "host rs = Some h" "filter p_is_host (rs_participants rs) = [h]" "present h"
    "h \<in> set (rs_participants rs)" "p_is_host h"
proof -
  from assms have "one_host (rs_participants rs)" by (simp add: room_inv_def)
  from host_of_one_host [OF this] obtain h where h: "find p_is_host (rs_participants rs) = Some h"
      "filter p_is_host (rs_participants rs) = [h]" "present h" by blast
  from h(1) have "h \<in> set (rs_participants rs)" "p_is_host h" by (auto dest: find_SomeD)
  with h that show thesis by (simp add: host_def)
qed

lemma distinct_user_eq:
  "distinct (map p_user_id ps) \<Longrightarrow> p \<in> set ps \<Longrightarrow> q \<in> set ps \<Longrightarrow> p_user_id p = p_user_id q \<Longrightarrow> p = q"
  by (auto simp: distinct_map dest: inj_onD)

lemma filter_user_distinct:
  "distinct (map p_user_id ps) \<Longrightarrow> p \<in> set ps \<Longrightarrow> filter (\<lambda>q. p_user_id q = p_user_id p) ps = [p]"
proof (induction ps)
  case (Cons q ps)
  show ?case
  proof (cases "q = p")
    case True
    with Cons.prems(1) have "p_user_id p \<notin> p_user_id ` set ps" by simp
    then have "\<forall>r \<in> set ps. p_user_id r \<noteq> p_user_id p" by (metis image_eqI)
    with True show ?thesis by (simp add: filter_empty_conv)
  next
    case False
    with Cons.prems(2) have "p \<in> set ps" by simp
    moreover from this Cons.prems(1) have "p_user_id q \<noteq> p_user_id p" by (metis distinct.simps(2) image_eqI list.set_map list.simps(9))
    ultimately have "p \<in> set ps" "p_user_id q \<noteq> p_user_id p" by auto
    with Cons show ?thesis by simp
  qed
qed simp

text \<open>Changing one record without touching its user or host flag keeps the participant list well formed.\<close>

lemma one_host_update:
  assumes "one_host ps"
    and "\<And>p. P p \<Longrightarrow> p_is_host (f p) = p_is_host p"
    and "\<And>p. p \<in> set ps \<Longrightarrow> P p \<Longrightarrow> p_is_host p \<Longrightarrow> present p \<Longrightarrow> present (f p)"
  shows "one_host (update_first P f ps)"
proof -
  obtain h where h: "filter p_is_host ps = [h]" "present h" using assms(1) by (auto simp: one_host_def)
  show ?thesis
  proof (cases "find P ps")
    case None
    then show ?thesis using assms(1) by (simp add: find_None_iff_all update_first_none)
  next
    case (Some x)
    from update_first_find [OF Some] obtain us vs where
      split: "ps = us @ x # vs" "update_first P f ps = us @ f x # vs" by blast
    have x: "P x" using find_SomeD [OF Some] by simp
    show ?thesis
    proof (cases "p_is_host x")
      case True
      with h(1) split(1) have "filter p_is_host us = []" "filter p_is_host vs = []" "x = h"
        by (auto simp: append_eq_Cons_conv)
      moreover have "x \<in> set ps" by (simp add: split(1))
      ultimately show ?thesis using split(2) x True h(2) assms(2,3) by (simp add: one_host_def)
    next
      case False
      with split x h assms(2) show ?thesis by (simp add: one_host_def)
    qed
  qed
qed

lemma map_user_update:
  "(\<And>p. P p \<Longrightarrow> p_user_id (f p) = p_user_id p) \<Longrightarrow>
     map p_user_id (update_first P f ps) = map p_user_id ps"
  by (rule map_update_first)

lemma live_update_le:
  "(\<And>p. P p \<Longrightarrow> live (f p) \<Longrightarrow> live p) \<Longrightarrow>
     length (filter live (update_first P f ps)) \<le> length (filter live ps)"
  by (induction ps) auto

section \<open>Election\<close>

lemma promote_simps [simp]:
  "p_user_id (promote u p) = p_user_id p"
  "p_status (promote u p) = p_status p"
  "p_is_host (promote u p) \<longleftrightarrow> p_user_id p = u"
  "p_joined_ms (promote u p) = p_joined_ms p"
  by (auto simp: promote_def)

lemma filter_host_promote:
  "filter p_is_host (map (promote u) ps) = map (promote u) (filter (\<lambda>p. p_user_id p = u) ps)"
  by (induction ps) auto

definition seniority :: "participant_record \<Rightarrow> millis \<times> uuid" where
  "seniority p = (p_joined_ms p, p_user_id p)"

lemma hd_sort_key:
  "xs \<noteq> [] \<Longrightarrow> hd (sort_key f xs) \<in> set xs \<and> (\<forall>x \<in> set xs. f (hd (sort_key f xs)) \<le> f x)"
proof -
  assume "xs \<noteq> []"
  then obtain y ys where ys: "sort_key f xs = y # ys"
    by (metis list.exhaust set_empty set_sort)
  have "sorted (map f (sort_key f xs))" by simp
  then have "\<forall>x \<in> set (sort_key f xs). f y \<le> f x" unfolding ys by auto
  then have "\<forall>x \<in> set xs. f y \<le> f x" by (simp only: set_sort)
  moreover have "y \<in> set (sort_key f xs)" unfolding ys by simp
  then have "y \<in> set xs" by (simp only: set_sort)
  ultimately show ?thesis by (simp add: ys)
qed

lemma elect_new_host_cases:
  obtains (none) "elect_new_host rs = (None, rs)" "candidates rs = []"
    | (elected) c where "c \<in> set (candidates rs)"
      "\<forall>q \<in> set (candidates rs). seniority c \<le> seniority q"
      "elect_new_host rs = (Some (p_user_id c), rs\<lparr>rs_participants :=
         map (promote (p_user_id c)) (rs_participants rs), rs_host_user_id := p_user_id c\<rparr>)"
proof (cases "candidates rs = []")
  case True
  with none show thesis by (simp add: elect_new_host_def)
next
  case False
  let ?c = "hd (sort_key (\<lambda>p. (p_joined_ms p, p_user_id p)) (candidates rs))"
  note min = hd_sort_key [OF False, of "\<lambda>p. (p_joined_ms p, p_user_id p)"]
  show thesis
  proof (rule elected)
    show "?c \<in> set (candidates rs)" using min by blast
    show "\<forall>q \<in> set (candidates rs). seniority ?c \<le> seniority q"
      unfolding seniority_def using min by blast
  qed (simp add: elect_new_host_def False Let_def)
qed

lemma one_host_elected:
  assumes "distinct (map p_user_id ps)" and "c \<in> set ps" and "present c"
  shows "filter p_is_host (map (promote (p_user_id c)) ps) = [promote (p_user_id c) c]
    \<and> one_host (map (promote (p_user_id c)) ps)"
  using filter_user_distinct [OF assms(1,2)] assms(3)
  by (auto simp: filter_host_promote one_host_def)

lemma map_user_promote [simp]: "map p_user_id (map (promote u) ps) = map p_user_id ps"
  by (simp add: o_def)

lemma live_promote: "length (filter live (map (promote u) ps)) = length (filter live ps)"
  by (induction ps) auto

section \<open>Properties\<close>

text \<open>
  C8: election promotes the eligible participant (not the host, connected or reconnecting)
  that joined first, the least user id deciding a tie; afterwards that participant is the only
  host and holds the host capabilities, every former host is an ordinary participant with CHAT
  only, and nobody is added, removed or reordered.
\<close>

theorem elect_new_host_spec:
  assumes "distinct (map p_user_id (rs_participants rs))" and "elect_new_host rs = (Some u, rs')"
  shows "\<exists>c \<in> set (rs_participants rs). p_user_id c = u \<and> \<not> p_is_host c \<and> present c
    \<and> (\<forall>q \<in> set (rs_participants rs). \<not> p_is_host q \<and> present q \<longrightarrow> seniority c \<le> seniority q)
    \<and> filter p_is_host (rs_participants rs') = [c\<lparr>p_is_host := True, p_cap_set := HOST\<rparr>]
    \<and> (\<forall>q \<in> set (rs_participants rs). p_is_host q \<longrightarrow>
          q\<lparr>p_is_host := False, p_cap_set := CHAT\<rparr> \<in> set (rs_participants rs'))
    \<and> rs_host_user_id rs' = u
    \<and> map p_user_id (rs_participants rs') = map p_user_id (rs_participants rs)"
proof (cases rule: elect_new_host_cases [of rs])
  case none
  with assms show ?thesis by simp
next
  case (elected c)
  then have c: "c \<in> set (rs_participants rs)" "\<not> p_is_host c" "present c"
    by (auto simp: candidates_def)
  have rs': "rs' = rs\<lparr>rs_participants := map (promote u) (rs_participants rs), rs_host_user_id := u\<rparr>"
      and u: "p_user_id c = u"
    using elected(3) assms(2) by auto
  have "filter p_is_host (rs_participants rs') = [c\<lparr>p_is_host := True, p_cap_set := HOST\<rparr>]"
    using one_host_elected [OF assms(1) c(1) c(3)] by (simp add: rs' u promote_def)
  moreover have "q\<lparr>p_is_host := False, p_cap_set := CHAT\<rparr> \<in> set (rs_participants rs')"
    if "q \<in> set (rs_participants rs)" "p_is_host q" for q
  proof -
    have "p_user_id q \<noteq> u"
      using distinct_user_eq [OF assms(1) that(1) c(1)] that(2) c(2) u by auto
    with that have "promote u q = q\<lparr>p_is_host := False, p_cap_set := CHAT\<rparr>" by (simp add: promote_def)
    with that(1) show ?thesis by (force simp: rs')
  qed
  ultimately show ?thesis
    using c u elected(2) by (intro bexI [of _ c]) (auto simp: rs' candidates_def o_def)
qed

definition example_room :: room_state where
  "example_room =
     (room_state_new 1 (ascii ''ABCDEF'') [] 7 [] True 0 HOST 0)\<lparr>rs_participants :=
       [\<lparr>p_user_id = 7, p_pubkey = [], p_display_name = [], p_joined_ms = 0, p_status = Left,
         p_last_seen_ms = 0, p_is_host = True, p_cap_set = HOST\<rparr>,
        \<lparr>p_user_id = 9, p_pubkey = [], p_display_name = [], p_joined_ms = 5, p_status = Connected,
         p_last_seen_ms = 5, p_is_host = False, p_cap_set = CHAT\<rparr>,
        \<lparr>p_user_id = 8, p_pubkey = [], p_display_name = [], p_joined_ms = 5, p_status = Connected,
         p_last_seen_ms = 5, p_is_host = False, p_cap_set = CHAT\<rparr>]\<rparr>"

theorem elect_new_host_spec_witness:
  "\<exists>c \<in> set (rs_participants example_room). p_user_id c = 8 \<and> \<not> p_is_host c
     \<and> rs_host_user_id (snd (elect_new_host example_room)) = 8"
proof -
  have "elect_new_host example_room = (Some 8, snd (elect_new_host example_room))"
    by (simp add: elect_new_host_def candidates_def example_room_def Let_def)
  from elect_new_host_spec [OF _ this] show ?thesis
    by (auto simp: example_room_def)
qed

text \<open>
  At a tick, a room whose host-disconnect deadline has been reached is closed, and
  nothing else happens to it; any other room is left alone. This holds whether or not the room
  has migration enabled: no host is ever elected at the deadline.
\<close>

theorem grace_closes_at_deadline:
  "process_room_grace rs now_ms =
     (if \<exists>d. rs_host_disconnect_deadline_ms rs = Some d \<and> d \<le> now_ms
      then (Some (EvRoomClosed ''host_disconnected_no_migration''), rs\<lparr>rs_state := Ended\<rparr>)
      else (None, rs))"
  by (auto simp: process_room_grace_def try_migrate_host_def GRACE_REASON_def Let_def split: option.split)

end
