(* ===== verification/Store.thy ===== *)
theory Store
  imports Events
begin

text \<open>
  The durable side of the room service: the rows of \<open>rooms\<close>, \<open>room_participants\<close> and
  \<open>room_manifests\<close> and the statements of \<open>db.rs\<close> behind the \<open>RoomStore\<close> trait of
  \<open>rooms/store.rs\<close>. A statement can fail at any time: \<open>db_faults\<close> lists the outcome of the
  calls to come (\<open>Some e\<close> for an error), one per call, and a call past its end succeeds. The
  locale \<open>participant_store\<close> states what the registry relies on.
\<close>

section \<open>Rows\<close>

record room_row =
  rr_id :: uuid
  rr_code :: rstring
  rr_title :: rstring
  rr_host_user_id :: uuid
  rr_host_pubkey :: bytes
  rr_host_migration_enabled :: bool
  rr_state :: string
  rr_host_disconnect_deadline_ms :: "millis option"
  rr_created_ms :: millis
  rr_ended_ms :: "millis option"
  rr_last_activity_ms :: millis

record participant_row =
  pr_user_id :: uuid
  pr_pubkey :: bytes
  pr_display_name :: rstring
  pr_is_host :: bool
  pr_joined_ms :: millis
  pr_left_ms :: "millis option"
  pr_last_seen_ms :: millis
  pr_status :: string
  pr_cap_set :: u32

record manifest_row =
  mr_id :: uuid
  mr_room_id :: uuid
  mr_version :: int
  mr_created_at :: millis
  mr_manifest_json :: rstring
  mr_manifest_hash :: bytes
  mr_host_user_id :: uuid

text \<open>\<open>db_clock\<close> is what \<open>now_ms()\<close> of \<open>db.rs\<close> reads.\<close>

record database =
  db_rooms :: "room_row list"
  db_participants :: "((uuid \<times> uuid) \<times> participant_row) list"
  db_manifests :: "manifest_row list"
  db_clock :: millis
  db_faults :: "string option list"

type_synonym 'a dbresult = "(string + 'a) \<times> database"

definition attempt :: "(database \<Rightarrow> 'a dbresult) \<Rightarrow> database \<Rightarrow> 'a dbresult" where
  "attempt f db =
     (case db_faults db of
        [] \<Rightarrow> f db
      | fault # faults \<Rightarrow>
          (case fault of
             Some e \<Rightarrow> (Inl e, db\<lparr>db_faults := faults\<rparr>)
           | None \<Rightarrow> f (db\<lparr>db_faults := faults\<rparr>)))"

section \<open>Statements\<close>

definition db_insert_room ::
    "uuid \<Rightarrow> rstring \<Rightarrow> rstring \<Rightarrow> uuid \<Rightarrow> bytes \<Rightarrow> bool \<Rightarrow> millis \<Rightarrow> database \<Rightarrow> unit dbresult" where
  "db_insert_room rid code title host pubkey migration created = attempt (\<lambda>db.
     if list_ex (\<lambda>r. rr_id r = rid \<or> rr_code r = code) (db_rooms db)
     then (Inl ''UNIQUE constraint failed'', db)
     else (Inr (), db\<lparr>db_rooms := db_rooms db @
            [\<lparr>rr_id = rid, rr_code = code, rr_title = title, rr_host_user_id = host,
              rr_host_pubkey = pubkey, rr_host_migration_enabled = migration, rr_state = ''open'',
              rr_host_disconnect_deadline_ms = None, rr_created_ms = created, rr_ended_ms = None,
              rr_last_activity_ms = created\<rparr>]\<rparr>))"

definition db_add_room_participant ::
    "uuid \<Rightarrow> uuid \<Rightarrow> bytes \<Rightarrow> rstring \<Rightarrow> bool \<Rightarrow> millis \<Rightarrow> u32 \<Rightarrow> database \<Rightarrow> unit dbresult" where
  "db_add_room_participant rid user pubkey name is_host joined cap_set = attempt (\<lambda>db.
     (Inr (), db\<lparr>db_participants := AList.update (rid, user)
        \<lparr>pr_user_id = user, pr_pubkey = pubkey, pr_display_name = name, pr_is_host = is_host,
         pr_joined_ms = joined, pr_left_ms = None, pr_last_seen_ms = joined,
         pr_status = ''connected'', pr_cap_set = cap_set\<rparr> (db_participants db)\<rparr>))"

definition db_update_participant ::
    "uuid \<Rightarrow> uuid \<Rightarrow> (participant_row \<Rightarrow> participant_row) \<Rightarrow> database \<Rightarrow> database" where
  "db_update_participant rid user f db =
     db\<lparr>db_participants := map (\<lambda>(k, r). if k = (rid, user) then (k, f r) else (k, r))
          (db_participants db)\<rparr>"

definition db_update_participant_status ::
    "uuid \<Rightarrow> uuid \<Rightarrow> string \<Rightarrow> millis \<Rightarrow> database \<Rightarrow> unit dbresult" where
  "db_update_participant_status rid user status last_seen = attempt (\<lambda>db.
     (Inr (), db_update_participant rid user
        (\<lambda>r. r\<lparr>pr_status := status, pr_last_seen_ms := last_seen,
               pr_left_ms := (if status = ''left'' then Some last_seen else pr_left_ms r)\<rparr>) db))"

definition db_update_participant_cap_set ::
    "uuid \<Rightarrow> uuid \<Rightarrow> u32 \<Rightarrow> database \<Rightarrow> unit dbresult" where
  "db_update_participant_cap_set rid user cap_set = attempt (\<lambda>db.
     (Inr (), db_update_participant rid user (\<lambda>r. r\<lparr>pr_cap_set := cap_set\<rparr>) db))"

definition db_end_room :: "uuid \<Rightarrow> millis \<Rightarrow> database \<Rightarrow> unit dbresult" where
  "db_end_room rid ended = attempt (\<lambda>db.
     (Inr (), db\<lparr>db_rooms := map (\<lambda>r. if rr_id r = rid
        then r\<lparr>rr_state := ''ended'', rr_ended_ms := Some ended, rr_last_activity_ms := ended\<rparr> else r)
        (db_rooms db)\<rparr>))"

definition db_set_host_disconnect_deadline ::
    "uuid \<Rightarrow> millis option \<Rightarrow> database \<Rightarrow> unit dbresult" where
  "db_set_host_disconnect_deadline rid deadline = attempt (\<lambda>db.
     (Inr (), db\<lparr>db_rooms := map (\<lambda>r. if rr_id r = rid
        then r\<lparr>rr_host_disconnect_deadline_ms := deadline, rr_last_activity_ms := db_clock db\<rparr>
        else r) (db_rooms db)\<rparr>))"

definition db_room_code_taken :: "rstring \<Rightarrow> database \<Rightarrow> bool dbresult" where
  "db_room_code_taken code = attempt (\<lambda>db.
     (Inr (find (\<lambda>r. rr_code r = code) (db_rooms db) \<noteq> None), db))"

text \<open>
  The \<open>SELECT\<close> of the purge reads the rows the \<open>DELETE\<close> then removes; the trait drops the list.
\<close>

definition purge_matches :: "uuid \<Rightarrow> millis \<Rightarrow> (uuid \<times> uuid) \<times> participant_row \<Rightarrow> bool" where
  "purge_matches rid cutoff e \<longleftrightarrow>
     fst (fst e) = rid \<and> \<not> pr_is_host (snd e) \<and> pr_status (snd e) \<noteq> ''left''
     \<and> pr_last_seen_ms (snd e) < cutoff"

definition db_purge_stale_participants ::
    "uuid \<Rightarrow> millis \<Rightarrow> database \<Rightarrow> (uuid \<times> uuid) list dbresult" where
  "db_purge_stale_participants rid cutoff = attempt (\<lambda>db.
     (Inr (map fst (filter (purge_matches rid cutoff) (db_participants db))),
      db\<lparr>db_participants := filter (\<lambda>e. \<not> purge_matches rid cutoff e) (db_participants db)\<rparr>))"

definition db_list_open_rooms :: "database \<Rightarrow> room_row list dbresult" where
  "db_list_open_rooms = attempt (\<lambda>db.
     (Inr (sort_key rr_created_ms (filter (\<lambda>r. rr_state r = ''open'') (db_rooms db))), db))"

definition db_list_room_participants :: "uuid \<Rightarrow> database \<Rightarrow> participant_row list dbresult" where
  "db_list_room_participants rid = attempt (\<lambda>db.
     (Inr (sort_key (\<lambda>r. (pr_joined_ms r, pr_user_id r))
        (map snd (filter (\<lambda>((room, _), r). room = rid \<and> pr_status r \<noteq> ''left'')
           (db_participants db)))), db))"

subsection \<open>Manifests\<close>

definition db_insert_room_manifest :: "manifest_row \<Rightarrow> database \<Rightarrow> unit dbresult" where
  "db_insert_room_manifest row = attempt (\<lambda>db.
     if list_ex (\<lambda>r. mr_id r = mr_id row
          \<or> (mr_room_id r = mr_room_id row \<and> mr_version r = mr_version row)) (db_manifests db)
     then (Inl ''UNIQUE constraint failed'', db)
     else (Inr (), db\<lparr>db_manifests := db_manifests db @ [row]\<rparr>))"

definition manifests_of :: "uuid \<Rightarrow> database \<Rightarrow> manifest_row list" where
  "manifests_of rid db = filter (\<lambda>r. mr_room_id r = rid) (db_manifests db)"

definition db_prune_room_manifests :: "uuid \<Rightarrow> int \<Rightarrow> database \<Rightarrow> nat dbresult" where
  "db_prune_room_manifests rid keep = attempt (\<lambda>db.
     case manifests_of rid db of
       [] \<Rightarrow> (Inr 0, db)
     | rows \<Rightarrow>
         (let newest = Max (set (map mr_version rows));
              gone = (\<lambda>r. mr_room_id r = rid \<and> mr_version r \<le> newest - keep)
          in (Inr (length (filter gone (db_manifests db))),
              db\<lparr>db_manifests := filter (\<lambda>r. \<not> gone r) (db_manifests db)\<rparr>)))"

text \<open>\<open>ORDER BY version DESC LIMIT 1\<close>, and the decoding of the 32-byte hash.\<close>

definition db_get_latest_room_manifest :: "uuid \<Rightarrow> database \<Rightarrow> manifest_row option dbresult" where
  "db_get_latest_room_manifest rid = attempt (\<lambda>db.
     case min_by_key (\<lambda>r. - mr_version r) (manifests_of rid db) of
       None \<Rightarrow> (Inr None, db)
     | Some r \<Rightarrow> if length (mr_manifest_hash r) \<noteq> 32 then (Inl ''manifest_hash'', db)
                 else (Inr (Some r), db))"

section \<open>What the registry relies on\<close>

definition participant_lookup :: "database \<Rightarrow> uuid \<Rightarrow> uuid \<Rightarrow> participant_row option" where
  "participant_lookup db rid user = map_of (db_participants db) (rid, user)"

text \<open>
  The contract of the participant rows: a successful write is what the next read returns, a
  failed one changes no row, and a write to one seat never touches another.
\<close>

locale participant_store =
  fixes lookup :: "'db \<Rightarrow> uuid \<Rightarrow> uuid \<Rightarrow> participant_row option"
    and upsert :: "uuid \<Rightarrow> uuid \<Rightarrow> bytes \<Rightarrow> rstring \<Rightarrow> bool \<Rightarrow> millis \<Rightarrow> u32 \<Rightarrow> 'db \<Rightarrow> (string + unit) \<times> 'db"
    and set_status :: "uuid \<Rightarrow> uuid \<Rightarrow> string \<Rightarrow> millis \<Rightarrow> 'db \<Rightarrow> (string + unit) \<times> 'db"
    and set_caps :: "uuid \<Rightarrow> uuid \<Rightarrow> u32 \<Rightarrow> 'db \<Rightarrow> (string + unit) \<times> 'db"
  assumes upsert_ok: "upsert rid u pk nm h j c db = (Inr (), db') \<Longrightarrow>
      lookup db' rid u = Some \<lparr>pr_user_id = u, pr_pubkey = pk, pr_display_name = nm, pr_is_host = h,
        pr_joined_ms = j, pr_left_ms = None, pr_last_seen_ms = j, pr_status = ''connected'',
        pr_cap_set = c\<rparr>"
    and upsert_other: "(rid', u') \<noteq> (rid, u) \<Longrightarrow>
      lookup (snd (upsert rid u pk nm h j c db)) rid' u' = lookup db rid' u'"
    and upsert_err: "upsert rid u pk nm h j c db = (Inl e, db') \<Longrightarrow> lookup db' r x = lookup db r x"
    and status_ok: "set_status rid u s t db = (Inr (), db') \<Longrightarrow>
      map_option (\<lambda>r. (pr_status r, pr_last_seen_ms r, pr_is_host r, pr_cap_set r)) (lookup db' rid u)
        = map_option (\<lambda>r. (s, t, pr_is_host r, pr_cap_set r)) (lookup db rid u)"
    and status_other: "(rid', u') \<noteq> (rid, u) \<Longrightarrow>
      lookup (snd (set_status rid u s t db)) rid' u' = lookup db rid' u'"
    and status_err: "set_status rid u s t db = (Inl e, db') \<Longrightarrow> lookup db' r x = lookup db r x"
    and caps_ok: "set_caps rid u c db = (Inr (), db') \<Longrightarrow>
      lookup db' rid u = map_option (\<lambda>r. r\<lparr>pr_cap_set := c\<rparr>) (lookup db rid u)"
    and caps_other: "(rid', u') \<noteq> (rid, u) \<Longrightarrow>
      lookup (snd (set_caps rid u c db)) rid' u' = lookup db rid' u'"
    and caps_err: "set_caps rid u c db = (Inl e, db') \<Longrightarrow> lookup db' r x = lookup db r x"
begin

text \<open>A seat written and then closed is a closed seat of a former participant.\<close>

lemma upsert_then_left:
  assumes "upsert rid u pk nm False j c db = (Inr (), db1)"
    and "set_status rid u ''left'' t db1 = (Inr (), db2)"
  shows "map_option (\<lambda>r. (pr_status r, pr_is_host r)) (lookup db2 rid u) = Some (''left'', False)"
proof -
  from upsert_ok [OF assms(1)] status_ok [OF assms(2)]
  have "map_option (\<lambda>r. (pr_status r, pr_last_seen_ms r, pr_is_host r, pr_cap_set r)) (lookup db2 rid u)
      = Some (''left'', t, False, c)" by simp
  then show ?thesis by (cases "lookup db2 rid u") auto
qed

lemma upsert_keeps_others:
  assumes "(rid', u') \<noteq> (rid, u)"
  shows "lookup (snd (set_status rid u s t (snd (upsert rid u pk nm h j c db)))) rid' u' = lookup db rid' u'"
  using assms by (simp add: status_other upsert_other)

end

lemma map_of_update_where:
  "map_of (map (\<lambda>(k, r). if k = key then (k, f r) else (k, r)) xs) k'
     = (if k' = key then map_option f (map_of xs k') else map_of xs k')"
  by (induction xs) auto

lemma lookup_faults [simp]: "participant_lookup (db\<lparr>db_faults := fs\<rparr>) = participant_lookup db"
  by (simp add: participant_lookup_def fun_eq_iff)

interpretation seats: participant_store participant_lookup db_add_room_participant
  db_update_participant_status db_update_participant_cap_set
proof
qed (auto simp: db_add_room_participant_def db_update_participant_status_def
    db_update_participant_cap_set_def db_update_participant_def attempt_def participant_lookup_def
    map_of_update_where update_conv' option.map_comp o_def split: list.splits option.splits)

end
