(* ===== verification/ManifestParts.thy ===== *)
theory ManifestParts
  imports Events
begin

text \<open>
  Chunked transport of manifests, \<open>shared/protocol/src/manifest_parts.rs\<close>, and the server's
  \<open>split_for_wire\<close> of \<open>rooms/manifest.rs\<close>. Serialization, SHA-256 and base64 are crates outside
  the repository: they are the fields of a \<open>codec\<close> that every definition using them takes.
\<close>

record 'm codec =
  cd_to_vec :: "'m \<Rightarrow> bytes option"
  cd_from_slice :: "bytes \<Rightarrow> 'm option"
  cd_to_string :: "'m \<Rightarrow> rstring option"
  cd_from_str :: "rstring \<Rightarrow> 'm option"
  cd_sha256_hex :: "bytes \<Rightarrow> string"
  cd_to_base64 :: "bytes \<Rightarrow> string"
  cd_from_base64 :: "string \<Rightarrow> bytes option"
  cd_assembly_id :: uuid

definition MAX_PART_BYTES :: nat where "MAX_PART_BYTES = 512 * 1024"
definition MAX_ASSEMBLED_BYTES :: nat where "MAX_ASSEMBLED_BYTES = 32 * 1024 * 1024"
definition MAX_PARTS :: nat where "MAX_PARTS = 1024"
definition SINGLE_FRAME_MANIFEST_BYTES :: nat where "SINGLE_FRAME_MANIFEST_BYTES = 640 * 1024"
definition FRAME_OVERHEAD_BYTES :: nat where "FRAME_OVERHEAD_BYTES = 4096"

datatype part_error =
  BadHeader | TooLarge nat nat | OutOfOrder nat nat | Conflict nat | BadPiece nat
| LengthMismatch | DigestMismatch | BadManifest | BudgetExhausted | FrameCapTooSmall nat

definition div_ceil :: "nat \<Rightarrow> nat \<Rightarrow> nat" where
  "div_ceil a b = (if a mod b = 0 then a div b else a div b + 1)"

section \<open>Splitting\<close>

definition encode_manifest :: "'m codec \<Rightarrow> 'm \<Rightarrow> part_error + bytes" where
  "encode_manifest cd m =
     (case cd_to_vec cd m of
        None \<Rightarrow> Inl BadManifest
      | Some bs \<Rightarrow> if length bs > MAX_ASSEMBLED_BYTES
                  then Inl (TooLarge (length bs) MAX_ASSEMBLED_BYTES) else Inr bs)"

definition part_size_for_frame_cap :: "nat \<Rightarrow> part_error + nat" where
  "part_size_for_frame_cap frame_cap =
     (let room = frame_cap - FRAME_OVERHEAD_BYTES;
          size = min (room div 4 * 3) MAX_PART_BYTES
      in if size < div_ceil MAX_ASSEMBLED_BYTES MAX_PARTS then Inl (FrameCapTooSmall frame_cap)
         else Inr size)"

text \<open>\<open>slice::chunks\<close>: consecutive slices of \<open>n\<close> bytes, the last one shorter.\<close>

function chunks :: "nat \<Rightarrow> bytes \<Rightarrow> bytes list" where
  "chunks n bs = (if bs = [] \<or> n = 0 then [] else take n bs # chunks n (drop n bs))"
  by pat_completeness auto
termination by (relation "measure (\<lambda>(_, bs). length bs)") auto

declare chunks.simps [simp del]

definition split_manifest_bytes ::
    "'m codec \<Rightarrow> bytes \<Rightarrow> manifest_part_kind \<Rightarrow> int \<Rightarrow> millis \<Rightarrow> uuid \<Rightarrow> nat
       \<Rightarrow> part_error + manifest_part_payload list" where
  "split_manifest_bytes cd bs kind version published_at assembly_id part_size =
     (if bs = [] \<or> part_size = 0 \<or> part_size > MAX_PART_BYTES then Inl BadHeader
      else if length bs > MAX_ASSEMBLED_BYTES then Inl (TooLarge (length bs) MAX_ASSEMBLED_BYTES)
      else let total = div_ceil (length bs) part_size
           in if total > MAX_PARTS then Inl (TooLarge (length bs) (part_size * MAX_PARTS))
              else Inr (map (\<lambda>(i, piece).
                      \<lparr>mp_assembly_id = assembly_id, mp_kind = kind, mp_index = i,
                       mp_total = total, mp_total_bytes = length bs,
                       mp_digest = cd_sha256_hex cd bs, mp_version = version,
                       mp_published_at_ms = published_at, mp_data = cd_to_base64 cd piece\<rparr>)
                    (List.enumerate 0 (chunks part_size bs))))"

definition split_for_wire ::
    "'m codec \<Rightarrow> manifest_part_kind \<Rightarrow> 'm \<Rightarrow> int \<Rightarrow> millis \<Rightarrow> manifest_part_payload list option" where
  "split_for_wire cd kind m version published_at =
     (case encode_manifest cd m of
        Inl _ \<Rightarrow> None
      | Inr bs \<Rightarrow>
          if length bs \<le> SINGLE_FRAME_MANIFEST_BYTES then None
          else (case split_manifest_bytes cd bs kind version published_at (cd_assembly_id cd)
                       MAX_PART_BYTES of
                  Inl _ \<Rightarrow> None
                | Inr parts \<Rightarrow> Some parts))"

lemma concat_chunks: "0 < n \<Longrightarrow> concat (chunks n bs) = bs"
  by (induction n bs rule: chunks.induct) (subst chunks.simps, auto)

lemma chunks_sizes: "c \<in> set (chunks n bs) \<Longrightarrow> c \<noteq> [] \<and> length c \<le> n"
proof (induction n bs rule: chunks.induct)
  case (1 n bs)
  then show ?case by (subst (asm) chunks.simps) (auto split: if_splits)
qed

lemma div_ceil_0 [simp]: "div_ceil 0 b = 0"
  by (simp add: div_ceil_def)

lemma div_ceil_step: "0 < b \<Longrightarrow> 0 < a \<Longrightarrow> div_ceil a b = Suc (div_ceil (a - b) b)"
proof (cases "b \<le> a")
  case True
  assume "0 < b"
  with True show ?thesis by (simp add: div_ceil_def le_div_geq le_mod_geq)
next
  case False
  assume "0 < a"
  with False show ?thesis by (simp add: div_ceil_def)
qed

lemma length_chunks: "0 < n \<Longrightarrow> length (chunks n bs) = div_ceil (length bs) n"
proof (induction n bs rule: chunks.induct)
  case (1 n bs)
  then show ?case
    by (subst chunks.simps) (auto simp: div_ceil_step [of n "length bs"])
qed

text \<open>A small instance of the crates, for concrete runs.\<close>

definition example_codec :: "nat codec" where
  "example_codec = \<lparr>cd_to_vec = (\<lambda>m. Some (replicate m 0)), cd_from_slice = (\<lambda>bs. Some (length bs)),
     cd_to_string = (\<lambda>m. Some (replicate m 48)), cd_from_str = (\<lambda>s. Some (length s)),
     cd_sha256_hex = (\<lambda>bs. replicate 64 CHR ''a''), cd_to_base64 = map (char_of \<circ> unat),
     cd_from_base64 = (\<lambda>s. Some (map (of_nat \<circ> of_char) s)), cd_assembly_id = 1\<rparr>"

end
