(* ===== verification/Registry.thy ===== *)
theory Registry
  imports Codes RoomState Store ManifestParts
begin

text \<open>
  The room registry, \<open>RoomRegistry\<close> of \<open>rooms/registry.rs\<close>: its maps, publishing, the queries,
  ROOM_CREATE and ROOM_JOIN_REQUEST. A room's broadcast channel is the list of every item sent
  on it, oldest first; the handlers hold the room's lock while they read and change it, so each
  is one step on the registry. Generated room codes, fresh ids and clock readings are arguments.
\<close>

section \<open>State\<close>

record 'm cached_manifest =
  cman_version :: int
  cman_manifest :: 'm
  cman_host_user_id :: uuid
  cman_published_at_ms :: millis
  cman_manifest_hash :: bytes

record registry_config =
  cfg_max_participants :: u8
  cfg_host_disconnect_grace_ms :: millis
  cfg_participant_stale_after_ms :: millis
  cfg_participant_disconnect_after_ms :: millis

record 'm registry =
  rg_by_id :: "(uuid, room_state) hashmap"
  rg_by_code :: "(rstring, uuid) hashmap"
  rg_room_tx :: "(uuid, 'm broadcast_item list) hashmap"
  rg_manifest_cache :: "(uuid, 'm cached_manifest) hashmap"
  rg_config :: registry_config

definition registry_new :: "registry_config \<Rightarrow> 'm registry" where
  "registry_new config = \<lparr>rg_by_id = [], rg_by_code = [], rg_room_tx = [],
     rg_manifest_cache = [], rg_config = config\<rparr>"

definition get_by_id :: "uuid \<Rightarrow> 'm registry \<Rightarrow> room_state option" where
  "get_by_id rid reg = hm_get (rg_by_id reg) rid"

definition get_by_code :: "rstring \<Rightarrow> 'm registry \<Rightarrow> uuid option" where
  "get_by_code code reg = hm_get (rg_by_code reg) code"

definition current_manifest :: "uuid \<Rightarrow> 'm registry \<Rightarrow> 'm cached_manifest option" where
  "current_manifest rid reg = hm_get (rg_manifest_cache reg) rid"

definition put_current_manifest :: "uuid \<Rightarrow> 'm cached_manifest \<Rightarrow> 'm registry \<Rightarrow> 'm registry" where
  "put_current_manifest rid v reg =
     reg\<lparr>rg_manifest_cache := hm_insert rid v (rg_manifest_cache reg)\<rparr>"

text \<open>Writing through a \<open>RoomHandle\<close>: the room's state is replaced under its lock.\<close>

definition put_room :: "uuid \<Rightarrow> room_state \<Rightarrow> 'm registry \<Rightarrow> 'm registry" where
  "put_room rid rs reg = reg\<lparr>rg_by_id := hm_insert rid rs (rg_by_id reg)\<rparr>"

definition channel :: "uuid \<Rightarrow> 'm registry \<Rightarrow> 'm broadcast_item list option" where
  "channel rid reg = hm_get (rg_room_tx reg) rid"

section \<open>Publishing\<close>

definition publish :: "uuid \<Rightarrow> 'm broadcast_item \<Rightarrow> 'm registry \<Rightarrow> 'm registry" where
  "publish rid item reg =
     (case hm_get (rg_room_tx reg) rid of
        None \<Rightarrow> reg
      | Some sent \<Rightarrow> reg\<lparr>rg_room_tx := hm_insert rid (sent @ [item]) (rg_room_tx reg)\<rparr>)"

definition publish_all :: "(uuid \<times> 'm broadcast_item) list \<Rightarrow> 'm registry \<Rightarrow> 'm registry" where
  "publish_all items reg = fold (\<lambda>(rid, item). publish rid item) items reg"

definition part_item :: "uuid \<Rightarrow> uuid option \<Rightarrow> manifest_part_payload \<Rightarrow> 'm broadcast_item" where
  "part_item rid originator part =
     \<lparr>bi_kind = MkManifestPart, bi_payload = WManifestPart part, bi_room_id = rid,
      bi_originator = originator, bi_sender = None, bi_seq = 0\<rparr>"

definition publish_event ::
    "'m codec \<Rightarrow> 'm room_event \<Rightarrow> uuid \<Rightarrow> nat \<Rightarrow> 'm registry \<Rightarrow> 'm registry" where
  "publish_event cd event fallback seq reg =
     (let originator = event_originator event;
          rid = event_room fallback event;
          whole = publish rid ((event_to_broadcast_item event rid originator)\<lparr>bi_seq := seq\<rparr>) reg
      in case event of
           EvManifestPublished _ m version at \<Rightarrow>
             (case split_for_wire cd PartPublished m version at of
                Some parts \<Rightarrow> fold (\<lambda>part. publish rid (part_item rid originator part)) parts reg
              | None \<Rightarrow> whole)
         | _ \<Rightarrow> whole)"

definition publish_events ::
    "'m codec \<Rightarrow> 'm room_event list \<Rightarrow> uuid \<Rightarrow> 'm registry \<Rightarrow> 'm registry" where
  "publish_events cd events rid reg = fold (\<lambda>e. publish_event cd e rid 0) events reg"

section \<open>Queries\<close>

definition drawing_seq :: "uuid \<Rightarrow> 'm registry \<Rightarrow> nat option" where
  "drawing_seq rid reg = map_option (\<lambda>rs. sb_seq (rs_drawing rs)) (get_by_id rid reg)"

definition drawing_snapshot :: "uuid \<Rightarrow> 'm registry \<Rightarrow> stroke_sync_payload option" where
  "drawing_snapshot rid reg = map_option (\<lambda>rs. snapshot_strokes (rs_drawing rs)) (get_by_id rid reg)"

definition state_payload :: "room_state \<Rightarrow> room_state_payload" where
  "state_payload rs = \<lparr>rst_room = snapshot rs,
     rst_host_disconnect_deadline_ms = rs_host_disconnect_deadline_ms rs\<rparr>"

definition list_snapshot :: "uuid \<Rightarrow> 'm registry \<Rightarrow> room_state_payload option" where
  "list_snapshot user reg =
     map_option (\<lambda>(_, rs). state_payload rs)
       (find (\<lambda>(_, rs). has_live_record user rs) (rg_by_id reg))"

definition snapshot_for_room :: "uuid \<Rightarrow> 'm registry \<Rightarrow> room_state_payload option" where
  "snapshot_for_room rid reg = map_option state_payload (get_by_id rid reg)"

definition get_user_room :: "uuid \<Rightarrow> 'm registry \<Rightarrow> uuid option" where
  "get_user_room user reg =
     map_option fst (find (\<lambda>(_, rs). rs_state rs \<noteq> Ended \<and> is_present user rs) (rg_by_id reg))"

definition has_live_participant_record :: "uuid \<Rightarrow> 'm registry \<Rightarrow> bool" where
  "has_live_participant_record user reg \<longleftrightarrow>
     list_ex (\<lambda>(_, rs). rs_state rs \<noteq> Ended \<and> has_live_record user rs) (rg_by_id reg)"

definition is_user_in_room :: "uuid \<Rightarrow> uuid \<Rightarrow> 'm registry \<Rightarrow> bool" where
  "is_user_in_room user rid reg \<longleftrightarrow>
     (case get_by_id rid reg of None \<Rightarrow> False | Some rs \<Rightarrow> is_present user rs)"

definition is_room_host :: "uuid \<Rightarrow> uuid \<Rightarrow> 'm registry \<Rightarrow> bool" where
  "is_room_host rid user reg \<longleftrightarrow>
     (case get_by_id rid reg of
        None \<Rightarrow> False
      | Some rs \<Rightarrow> list_ex (\<lambda>p. p_user_id p = user \<and> p_is_host p \<and> live p) (rs_participants rs))"

definition rooms_of_user :: "uuid \<Rightarrow> 'm registry \<Rightarrow> uuid list" where
  "rooms_of_user user reg = map fst (filter (\<lambda>(_, rs). has_live_record user rs) (rg_by_id reg))"

definition list_all_rooms :: "'m registry \<Rightarrow> (uuid \<times> room_summary \<times> millis option) list" where
  "list_all_rooms reg =
     map (\<lambda>(rid, rs). (rid, snapshot rs, rs_host_disconnect_deadline_ms rs)) (rg_by_id reg)"

section \<open>Removing a room\<close>

definition remove_room :: "uuid \<Rightarrow> 'm registry \<Rightarrow> 'm registry" where
  "remove_room rid reg =
     (let reg1 = reg\<lparr>rg_by_id := hm_remove rid (rg_by_id reg)\<rparr>;
          reg2 = (case hm_get (rg_by_id reg) rid of
                    None \<Rightarrow> reg1
                  | Some rs \<Rightarrow> reg1\<lparr>rg_by_code := hm_remove (rs_code rs) (rg_by_code reg1),
                                   rg_room_tx := hm_remove rid (rg_room_tx reg1)\<rparr>)
      in reg2\<lparr>rg_manifest_cache := hm_remove rid (rg_manifest_cache reg2)\<rparr>)"

section \<open>Creating a room\<close>

definition MAX_COLLISIONS :: nat where "MAX_COLLISIONS = 5"

text \<open>
  The retry loop over the codes the generator draws; the first \<open>MAX_COLLISIONS + 1\<close> are tried.
\<close>

fun choose_code :: "rstring list \<Rightarrow> 'm registry \<Rightarrow> database \<Rightarrow> rstring result \<times> database" where
  "choose_code [] reg db = (Inl (Internal ''code collision''), db)"
| "choose_code (candidate # rest) reg db =
     (if hm_contains (rg_by_code reg) candidate then choose_code rest reg db
      else case db_room_code_taken candidate db of
        (Inl e, db') \<Rightarrow> (Inl (Internal (''room_code_taken: '' @ e)), db')
      | (Inr taken, db') \<Rightarrow> if taken then choose_code rest reg db' else (Inr candidate, db'))"

definition insert_room_state :: "room_state \<Rightarrow> 'm registry \<Rightarrow> 'm registry" where
  "insert_room_state rs reg =
     reg\<lparr>rg_by_id := hm_insert (rs_id rs) rs (rg_by_id reg),
        rg_by_code := hm_insert (rs_code rs) (rs_id rs) (rg_by_code reg),
        rg_room_tx := hm_insert (rs_id rs) [] (rg_room_tx reg)\<rparr>"

definition create ::
    "rstring list \<Rightarrow> uuid \<Rightarrow> nat \<Rightarrow> rstring \<Rightarrow> uuid \<Rightarrow> bytes \<Rightarrow> bool \<Rightarrow> millis \<Rightarrow> 'm registry \<Rightarrow> database
       \<Rightarrow> (room_summary \<times> participant_self) result \<times> 'm registry \<times> database" where
  "create draws new_id clock_ms title host_id pubkey migration now_ms reg db =
     (case choose_code (take (MAX_COLLISIONS + 1) draws) reg db of
        (Inl e, db1) \<Rightarrow> (Inl e, reg, db1)
      | (Inr code, db1) \<Rightarrow>
          (case db_insert_room new_id code title host_id pubkey migration now_ms db1 of
             (Inl e, db2) \<Rightarrow> (Inl (Internal (''insert_room: '' @ e)), reg, db2)
           | (Inr _, db2) \<Rightarrow>
               (case db_add_room_participant new_id host_id pubkey [] True now_ms HOST db2 of
                  (Inl e, db3) \<Rightarrow> (Inl (Internal (''add_room_participant: '' @ e)), reg, db3)
                | (Inr _, db3) \<Rightarrow>
                    (let rs = room_state_new new_id code title host_id pubkey migration now_ms HOST clock_ms
                     in (Inr (snapshot rs, the (self_view host_id rs)),
                         insert_room_state rs reg, db3)))))"

section \<open>Joining a room\<close>

definition joined_record ::
    "uuid \<Rightarrow> bytes \<Rightarrow> rstring \<Rightarrow> millis \<Rightarrow> participant_record" where
  "joined_record user pubkey name now_ms =
     \<lparr>p_user_id = user, p_pubkey = pubkey, p_display_name = name, p_joined_ms = now_ms,
      p_status = Connected, p_last_seen_ms = now_ms, p_is_host = False, p_cap_set = CHAT\<rparr>"

definition admit :: "participant_record \<Rightarrow> room_state \<Rightarrow> room_state" where
  "admit p rs =
     rs\<lparr>rs_participants :=
          filter (\<lambda>q. \<not> (p_user_id q = p_user_id p \<and> p_status q = Left)) (rs_participants rs) @ [p],
        rs_playback := (rs_playback rs)\<lparr>pb_last_acked_seq :=
          hm_remove (p_user_id p) (pb_last_acked_seq (rs_playback rs))\<rparr>\<rparr>"

definition join ::
    "rstring \<Rightarrow> uuid \<Rightarrow> bytes \<Rightarrow> rstring \<Rightarrow> millis \<Rightarrow> 'm registry \<Rightarrow> database
       \<Rightarrow> (room_joined_payload \<times> 'm room_event) result \<times> 'm registry \<times> database" where
  "join code user pubkey name now_ms reg db =
     (case hm_get (rg_by_code reg) code of
        None \<Rightarrow> (Inl RoomNotFound, reg, db)
      | Some rid \<Rightarrow>
     (case hm_get (rg_by_id reg) rid of
        None \<Rightarrow> (Inl RoomNotFound, reg, db)
      | Some rs \<Rightarrow>
          if rs_state rs = Ended then (Inl RoomClosedErr, reg, db)
          else if has_live_record user rs then (Inl AlreadyJoined, reg, db)
          else if live_count rs \<ge> unat (cfg_max_participants (rg_config reg))
          then (Inl RoomFull, reg, db)
          else (case db_add_room_participant rid user pubkey name False now_ms CHAT db of
                  (Inl e, db') \<Rightarrow> (Inl (Internal (''add_room_participant: '' @ e)), reg, db')
                | (Inr _, db') \<Rightarrow>
                    (let rec = joined_record user pubkey name now_ms;
                         rs' = admit rec rs;
                         payload = \<lparr>rjd_room = snapshot rs', rjd_you = the (self_view user rs')\<rparr>;
                         event = EvParticipantJoined (to_public rec);
                         item = event_to_broadcast_item event rid (Some user)
                     in (Inr (payload, event), publish rid item (put_room rid rs' reg), db')))))"

section \<open>The registry invariant\<close>

text \<open>
  The maps agree: every room is found by its id and by its code, has a channel, is well formed
  and holds no more live participants than the configured maximum (the creator is always let
  in); codes and channels belong to rooms, and a cached manifest to one of them.
\<close>

definition room_limit :: "'m registry \<Rightarrow> nat" where
  "room_limit reg = max 1 (unat (cfg_max_participants (rg_config reg)))"

definition registry_inv :: "'m registry \<Rightarrow> bool" where
  "registry_inv reg \<longleftrightarrow>
     hm_wf (rg_by_id reg) \<and> hm_wf (rg_by_code reg) \<and> hm_wf (rg_room_tx reg)
     \<and> hm_wf (rg_manifest_cache reg)
     \<and> fst ` set (rg_room_tx reg) = fst ` set (rg_by_id reg)
     \<and> fst ` set (rg_manifest_cache reg) \<subseteq> fst ` set (rg_by_id reg)
     \<and> (\<forall>rid rs. hm_get (rg_by_id reg) rid = Some rs \<longrightarrow>
          rs_id rs = rid \<and> room_inv rs \<and> live_count rs \<le> room_limit reg
          \<and> hm_get (rg_by_code reg) (rs_code rs) = Some rid)
     \<and> (\<forall>code rid. hm_get (rg_by_code reg) code = Some rid \<longrightarrow>
          (\<exists>rs. hm_get (rg_by_id reg) rid = Some rs \<and> rs_code rs = code))"

lemma registry_inv_new: "registry_inv (registry_new config)"
  by (simp add: registry_inv_def registry_new_def)

lemma registry_room:
  "registry_inv reg \<Longrightarrow> hm_get (rg_by_id reg) rid = Some rs \<Longrightarrow>
     room_inv rs \<and> rs_id rs = rid \<and> live_count rs \<le> room_limit reg"
  by (auto simp: registry_inv_def)

lemma registry_code:
  "registry_inv reg \<Longrightarrow> hm_get (rg_by_id reg) rid = Some rs \<Longrightarrow>
     hm_get (rg_by_code reg) (rs_code rs) = Some rid"
  by (simp add: registry_inv_def)

lemma registry_code_room:
  "registry_inv reg \<Longrightarrow> hm_get (rg_by_code reg) code = Some rid \<Longrightarrow>
     \<exists>rs. hm_get (rg_by_id reg) rid = Some rs \<and> rs_code rs = code"
  by (simp add: registry_inv_def)

lemma registry_limits [simp]:
  "room_limit (reg\<lparr>rg_by_id := a\<rparr>) = room_limit reg"
  "room_limit (reg\<lparr>rg_by_code := b\<rparr>) = room_limit reg"
  "room_limit (reg\<lparr>rg_room_tx := c\<rparr>) = room_limit reg"
  "room_limit (reg\<lparr>rg_manifest_cache := d\<rparr>) = room_limit reg"
  by (simp_all add: room_limit_def)

subsection \<open>Publishing changes nothing but channels\<close>

lemma publish_simps [simp]:
  "rg_by_id (publish rid item reg) = rg_by_id reg"
  "rg_by_code (publish rid item reg) = rg_by_code reg"
  "rg_manifest_cache (publish rid item reg) = rg_manifest_cache reg"
  "rg_config (publish rid item reg) = rg_config reg"
  by (simp_all add: publish_def split: option.split)

lemma publish_inv: "registry_inv reg \<Longrightarrow> registry_inv (publish rid item reg)"
  by (auto simp: registry_inv_def publish_def fst_hm_insert dest: hm_key_get split: option.split)

lemma channel_publish:
  "channel x (publish rid item reg) =
     (if x = rid then map_option (\<lambda>sent. sent @ [item]) (channel rid reg) else channel x reg)"
  by (auto simp: channel_def publish_def split: option.split)

lemma fold_publish_simps [simp]:
  "rg_by_id (fold (\<lambda>x. publish (f x) (g x)) xs reg) = rg_by_id reg"
  "rg_by_code (fold (\<lambda>x. publish (f x) (g x)) xs reg) = rg_by_code reg"
  "rg_manifest_cache (fold (\<lambda>x. publish (f x) (g x)) xs reg) = rg_manifest_cache reg"
  "rg_config (fold (\<lambda>x. publish (f x) (g x)) xs reg) = rg_config reg"
  by (induction xs arbitrary: reg) auto

lemma fold_publish_inv: "registry_inv reg \<Longrightarrow> registry_inv (fold (\<lambda>x. publish (f x) (g x)) xs reg)"
  by (induction xs arbitrary: reg) (auto intro: publish_inv)

lemma publish_all_simps [simp]:
  "rg_by_id (publish_all items reg) = rg_by_id reg"
  "rg_by_code (publish_all items reg) = rg_by_code reg"
  "rg_manifest_cache (publish_all items reg) = rg_manifest_cache reg"
  "rg_config (publish_all items reg) = rg_config reg"
  unfolding publish_all_def by (induction items arbitrary: reg) auto

lemma publish_all_inv: "registry_inv reg \<Longrightarrow> registry_inv (publish_all items reg)"
  unfolding publish_all_def by (induction items arbitrary: reg) (auto intro: publish_inv)

lemma publish_event_simps [simp]:
  "rg_by_id (publish_event cd e rid seq reg) = rg_by_id reg"
  "rg_by_code (publish_event cd e rid seq reg) = rg_by_code reg"
  "rg_manifest_cache (publish_event cd e rid seq reg) = rg_manifest_cache reg"
  "rg_config (publish_event cd e rid seq reg) = rg_config reg"
  by (simp_all add: publish_event_def Let_def split: room_event.split option.split)

lemma publish_event_inv: "registry_inv reg \<Longrightarrow> registry_inv (publish_event cd e rid seq reg)"
  by (auto simp: publish_event_def Let_def publish_inv fold_publish_inv split: room_event.split option.split)

lemma publish_events_simps [simp]:
  "rg_by_id (publish_events cd es rid reg) = rg_by_id reg"
  "rg_by_code (publish_events cd es rid reg) = rg_by_code reg"
  "rg_manifest_cache (publish_events cd es rid reg) = rg_manifest_cache reg"
  "rg_config (publish_events cd es rid reg) = rg_config reg"
  unfolding publish_events_def by (induction es arbitrary: reg) auto

lemma publish_events_inv: "registry_inv reg \<Longrightarrow> registry_inv (publish_events cd es rid reg)"
  unfolding publish_events_def by (induction es arbitrary: reg) (auto intro: publish_event_inv)

text \<open>An event without a manifest is one item on its room's channel, stamped with the sequence.\<close>

lemma publish_event_plain:
  "(\<And>r m v t. e \<noteq> EvManifestPublished r m v t) \<Longrightarrow>
     publish_event cd e rid seq reg =
       publish (event_room rid e)
         ((event_to_broadcast_item e (event_room rid e) (event_originator e))\<lparr>bi_seq := seq\<rparr>) reg"
  by (cases e) (simp_all add: publish_event_def Let_def, blast)

subsection \<open>Changing one room\<close>

lemma put_room_simps [simp]:
  "rg_by_code (put_room rid rs reg) = rg_by_code reg"
  "rg_room_tx (put_room rid rs reg) = rg_room_tx reg"
  "rg_manifest_cache (put_room rid rs reg) = rg_manifest_cache reg"
  "rg_config (put_room rid rs reg) = rg_config reg"
  "hm_get (rg_by_id (put_room rid rs reg)) x = (if x = rid then Some rs else hm_get (rg_by_id reg) x)"
  "room_limit (put_room rid rs reg) = room_limit reg"
  "channel x (put_room rid rs reg) = channel x reg"
  by (simp_all add: put_room_def channel_def)

lemma put_room_inv:
  assumes "registry_inv reg" and "hm_get (rg_by_id reg) rid = Some rs"
    and "room_inv rs'" and "rs_id rs' = rs_id rs" and "rs_code rs' = rs_code rs"
    and "live_count rs' \<le> room_limit reg"
  shows "registry_inv (put_room rid rs' reg)"
proof -
  have "rid \<in> fst ` set (rg_by_id reg)" using assms(2) by (rule hm_key_get)
  then have keys: "fst ` set (rg_by_id (put_room rid rs' reg)) = fst ` set (rg_by_id reg)"
    by (auto simp: put_room_def fst_hm_insert)
  have wf: "hm_wf (rg_by_id (put_room rid rs' reg))"
    using assms(1) by (simp add: registry_inv_def put_room_def)
  have rooms: "rs_id r = x \<and> room_inv r \<and> live_count r \<le> room_limit reg
      \<and> hm_get (rg_by_code reg) (rs_code r) = Some x"
    if "hm_get (rg_by_id (put_room rid rs' reg)) x = Some r" for x r
  proof (cases "x = rid")
    case True
    with that have "r = rs'" by simp
    with True show ?thesis
      using assms(3-6) registry_code [OF assms(1,2)] registry_room [OF assms(1,2)] by simp
  next
    case False
    with that have "hm_get (rg_by_id reg) x = Some r" by simp
    then show ?thesis using registry_code [OF assms(1)] registry_room [OF assms(1)] by simp
  qed
  have codes: "\<exists>r. hm_get (rg_by_id (put_room rid rs' reg)) x = Some r \<and> rs_code r = code"
    if "hm_get (rg_by_code reg) code = Some x" for code x
    using registry_code_room [OF assms(1) that] assms(2,5) by auto
  show ?thesis
    using assms(1) rooms codes wf unfolding registry_inv_def keys put_room_simps by blast
qed

lemma put_manifest_inv:
  assumes "registry_inv reg" and "hm_get (rg_by_id reg) rid \<noteq> None"
  shows "registry_inv (put_current_manifest rid v reg)"
proof -
  from assms(2) have "rid \<in> fst ` set (rg_by_id reg)" by (auto dest: hm_key_get)
  with assms(1) show ?thesis
    by (auto simp: registry_inv_def put_current_manifest_def fst_hm_insert)
qed

lemma put_manifest_simps [simp]:
  "rg_by_id (put_current_manifest rid v reg) = rg_by_id reg"
  "rg_by_code (put_current_manifest rid v reg) = rg_by_code reg"
  "rg_room_tx (put_current_manifest rid v reg) = rg_room_tx reg"
  "rg_config (put_current_manifest rid v reg) = rg_config reg"
  by (simp_all add: put_current_manifest_def)

lemma remove_room_by_id [simp]: "rg_by_id (remove_room rid reg) = hm_remove rid (rg_by_id reg)"
  by (simp add: remove_room_def Let_def split: option.split)

lemma remove_room_config [simp]: "rg_config (remove_room rid reg) = rg_config reg"
  by (simp add: remove_room_def Let_def split: option.split)

lemma remove_room_inv:
  assumes inv: "registry_inv reg"
  shows "registry_inv (remove_room rid reg)"
proof (cases "hm_get (rg_by_id reg) rid")
  case None
  then have "rid \<notin> fst ` set (rg_manifest_cache reg)"
    using inv by (auto simp: registry_inv_def map_of_eq_None_iff)
  then have "hm_remove rid (rg_manifest_cache reg) = rg_manifest_cache reg"
    by (simp add: hm_remove_absent map_of_eq_None_iff)
  with None have "remove_room rid reg = reg"
    by (simp add: remove_room_def Let_def hm_remove_absent)
  with inv show ?thesis by simp
next
  case (Some rs)
  let ?reg = "remove_room rid reg"
  have maps: "rg_by_code ?reg = hm_remove (rs_code rs) (rg_by_code reg)"
      "rg_room_tx ?reg = hm_remove rid (rg_room_tx reg)"
      "rg_manifest_cache ?reg = hm_remove rid (rg_manifest_cache reg)"
      "room_limit ?reg = room_limit reg"
    using Some by (simp_all add: remove_room_def Let_def room_limit_def)
  have code: "hm_get (rg_by_code reg) (rs_code rs) = Some rid"
    using inv Some by (simp add: registry_inv_def)
  have other: "rs_code rs' \<noteq> rs_code rs" if "hm_get (rg_by_id reg) x = Some rs'" "x \<noteq> rid" for x rs'
    using registry_code [OF inv that(1)] that(2) code by auto
  have unique: "x \<noteq> rid" if "hm_get (rg_by_code reg) c = Some x" "c \<noteq> rs_code rs" for c x
    using registry_code_room [OF inv that(1)] that(2) Some by auto
  show ?thesis
    using inv other unique unfolding registry_inv_def maps
    by (auto simp: fst_hm_remove)
qed

lemma insert_room_state_inv:
  assumes inv: "registry_inv reg" and rs: "room_inv rs" "live_count rs \<le> room_limit reg"
    and new: "hm_get (rg_by_id reg) (rs_id rs) = None" "hm_get (rg_by_code reg) (rs_code rs) = None"
  shows "registry_inv (insert_room_state rs reg)"
proof -
  have code: "hm_get (rg_by_id reg) x = Some rs' \<Longrightarrow> rs_code rs' \<noteq> rs_code rs" for x rs'
    using registry_code [OF inv, of x rs'] new by auto
  have rid: "hm_get (rg_by_code reg) c = Some x \<Longrightarrow> x \<noteq> rs_id rs" for c x
    using registry_code_room [OF inv, of c x] new by auto
  show ?thesis
    using inv rs code rid unfolding registry_inv_def insert_room_state_def
    by (auto simp: fst_hm_insert)
qed

section \<open>Creating and joining keep the invariant\<close>

lemma choose_code_fresh:
  "choose_code draws reg db = (Inr code, db') \<Longrightarrow> code \<in> set draws \<and> hm_get (rg_by_code reg) code = None"
  by (induction draws reg db rule: choose_code.induct)
    (auto simp: hm_contains_def split: if_splits prod.splits sum.splits)

lemma create_cases:
  obtains (err) e db' where "create draws new_id clock_ms title h pk mig now reg db = (Inl e, reg, db')"
    | (ok) code db' where "code \<in> set draws" "hm_get (rg_by_code reg) code = None"
      "create draws new_id clock_ms title h pk mig now reg db =
        (Inr (snapshot (room_state_new new_id code title h pk mig now HOST clock_ms),
              the (self_view h (room_state_new new_id code title h pk mig now HOST clock_ms))),
         insert_room_state (room_state_new new_id code title h pk mig now HOST clock_ms) reg, db')"
proof (cases "choose_code (take (MAX_COLLISIONS + 1) draws) reg db")
  case (Pair r db1)
  show thesis
  proof (cases r)
    case (Inl e)
    with Pair err show thesis by (simp add: create_def)
  next
    case (Inr code)
    from choose_code_fresh [OF Pair [unfolded Inr]]
    have fresh: "code \<in> set draws" "hm_get (rg_by_code reg) code = None"
      by (auto dest: in_set_takeD)
    obtain r2 db2 where 2: "db_insert_room new_id code title h pk mig now db1 = (r2, db2)"
      by (cases "db_insert_room new_id code title h pk mig now db1")
    obtain r3 db3 where 3: "db_add_room_participant new_id h pk [] True now HOST db2 = (r3, db3)"
      by (cases "db_add_room_participant new_id h pk [] True now HOST db2")
    show thesis
    proof (cases r2)
      case (Inl e)
      with Pair Inr 2 err show thesis by (simp add: create_def)
    next
      case r2: (Inr u)
      show thesis
      proof (cases r3)
        case (Inl e)
        with Pair Inr 2 3 r2 err show thesis by (simp add: create_def)
      next
        case r3: (Inr v)
        from Pair Inr 2 3 r2 r3 fresh show thesis
          by (intro ok [of code db3]) (simp_all add: create_def Let_def)
      qed
    qed
  qed
qed

lemma room_new_simps [simp]:
  "rs_id (room_state_new rid code t h pk m c caps k) = rid"
  "rs_code (room_state_new rid code t h pk m c caps k) = code"
  "live_count (room_state_new rid code t h pk m c caps k) = 1"
  by (simp_all add: room_state_new_def live_count_def)

lemma create_inv:
  assumes "registry_inv reg" and "hm_get (rg_by_id reg) new_id = None"
  shows "registry_inv (fst (snd (create draws new_id clock_ms title h pk mig now reg db)))"
  by (cases rule: create_cases [of draws new_id clock_ms title h pk mig now reg db])
    (use assms in \<open>auto intro!: insert_room_state_inv room_inv_new simp: room_limit_def\<close>)

text \<open>Admitting a user who holds no live record.\<close>

lemma admit_simps [simp]:
  "rs_id (admit p rs) = rs_id rs"
  "rs_code (admit p rs) = rs_code rs"
  "rs_state (admit p rs) = rs_state rs"
  "rs_drawing (admit p rs) = rs_drawing rs"
  "rs_host_user_id (admit p rs) = rs_host_user_id rs"
  "rs_host_disconnect_deadline_ms (admit p rs) = rs_host_disconnect_deadline_ms rs"
  by (simp_all add: admit_def)

lemma no_live_records:
  "\<not> has_live_record u rs \<Longrightarrow> q \<in> set (rs_participants rs) \<Longrightarrow> p_user_id q = u \<Longrightarrow> p_status q = Left"
  by (auto simp: has_live_record_def list_ex_iff)

lemma admit_participants:
  assumes "\<not> has_live_record (p_user_id p) rs"
  shows "rs_participants (admit p rs) =
    filter (\<lambda>q. p_user_id q \<noteq> p_user_id p) (rs_participants rs) @ [p]"
  using no_live_records [OF assms] by (auto simp: admit_def intro!: filter_cong)

lemma live_count_admit:
  assumes "\<not> has_live_record (p_user_id p) rs" and "live p"
  shows "live_count (admit p rs) = Suc (live_count rs)"
proof -
  have "filter live (filter (\<lambda>q. p_user_id q \<noteq> p_user_id p) (rs_participants rs))
      = filter live (rs_participants rs)"
    using no_live_records [OF assms(1)] by (auto intro!: filter_cong simp: filter_filter)
  with assms show ?thesis by (simp add: live_count_def admit_participants)
qed

lemma admit_inv:
  assumes inv: "room_inv rs" and new: "\<not> has_live_record (p_user_id p) rs" and guest: "\<not> p_is_host p"
  shows "room_inv (admit p rs)"
proof -
  let ?ps = "rs_participants rs"
  have "distinct (map p_user_id (filter (\<lambda>q. p_user_id q \<noteq> p_user_id p) ?ps @ [p]))"
    using inv by (auto simp: room_inv_def distinct_map_filter)
  moreover have "playback_inv (admit p rs)"
    using inv by (auto simp: room_inv_def playback_inv_def admit_def)
  moreover have "one_host (filter (\<lambda>q. p_user_id q \<noteq> p_user_id p) ?ps @ [p])" if "one_host ?ps"
  proof -
    from that obtain h where h: "filter p_is_host ?ps = [h]" "present h" by (auto simp: one_host_def)
    have "h \<in> set (filter p_is_host ?ps)" by (simp add: h)
    then have "h \<in> set ?ps" by simp
    with new h(2) have "p_user_id h \<noteq> p_user_id p" by (auto dest: no_live_records)
    then have "filter (\<lambda>q. p_user_id q \<noteq> p_user_id p) (filter p_is_host ?ps) = [h]" by (simp add: h)
    then have "filter p_is_host (filter (\<lambda>q. p_user_id q \<noteq> p_user_id p) ?ps) = [h]"
      by (simp add: conj_commute)
    with guest h(2) show ?thesis by (simp add: one_host_def)
  qed
  ultimately show ?thesis
    using inv by (simp add: room_inv_def admit_participants [OF new])
qed

lemma join_cases:
  obtains (err) e db' where "join code u pk nm now reg db = (Inl e, reg, db')"
    | (ok) rid rs db' where "hm_get (rg_by_code reg) code = Some rid"
      "hm_get (rg_by_id reg) rid = Some rs" "rs_state rs \<noteq> Ended" "\<not> has_live_record u rs"
      "live_count rs < unat (cfg_max_participants (rg_config reg))"
      "db_add_room_participant rid u pk nm False now CHAT db = (Inr (), db')"
      "join code u pk nm now reg db =
        (Inr (\<lparr>rjd_room = snapshot (admit (joined_record u pk nm now) rs),
               rjd_you = the (self_view u (admit (joined_record u pk nm now) rs))\<rparr>,
              EvParticipantJoined (to_public (joined_record u pk nm now))),
         publish rid (event_to_broadcast_item
             (EvParticipantJoined (to_public (joined_record u pk nm now))) rid (Some u))
           (put_room rid (admit (joined_record u pk nm now) rs) reg), db')"
proof (cases "hm_get (rg_by_code reg) code")
  case None
  with err show thesis by (simp add: join_def)
next
  case rid: (Some rid)
  show thesis
  proof (cases "hm_get (rg_by_id reg) rid")
    case None
    with rid err show thesis by (simp add: join_def)
  next
    case rs: (Some rs)
    show thesis
    proof (cases "rs_state rs = Ended \<or> has_live_record u rs
        \<or> live_count rs \<ge> unat (cfg_max_participants (rg_config reg))")
      case True
      then have "\<exists>e. join code u pk nm now reg db = (Inl e, reg, db)"
        by (auto simp: join_def rid rs)
      with err show thesis by blast
    next
      case False
      obtain r db' where add: "db_add_room_participant rid u pk nm False now CHAT db = (r, db')"
        by (cases "db_add_room_participant rid u pk nm False now CHAT db")
      show thesis
      proof (cases r)
        case (Inl e)
        with rid rs False add err show thesis by (simp add: join_def)
      next
        case (Inr x)
        with rid rs False add show thesis by (intro ok [of rid rs db']) (simp_all add: join_def Let_def)
      qed
    qed
  qed
qed

lemma joined_record_simps [simp]:
  "p_user_id (joined_record u pk nm now) = u"
  "p_status (joined_record u pk nm now) = Connected"
  "p_is_host (joined_record u pk nm now) = False"
  "p_cap_set (joined_record u pk nm now) = CHAT"
  by (simp_all add: joined_record_def)

lemma join_inv:
  assumes "registry_inv reg"
  shows "registry_inv (fst (snd (join code u pk nm now reg db)))"
proof (cases rule: join_cases [of code u pk nm now reg db])
  case err
  with assms show ?thesis by simp
next
  case (ok rid rs db')
  have "registry_inv (put_room rid (admit (joined_record u pk nm now) rs) reg)"
  proof (rule put_room_inv [OF assms ok(2)])
    show "room_inv (admit (joined_record u pk nm now) rs)"
      using registry_room [OF assms ok(2)] ok(4) by (intro admit_inv) simp_all
    show "live_count (admit (joined_record u pk nm now) rs) \<le> room_limit reg"
      using ok(4,5) live_count_admit [of "joined_record u pk nm now" rs] by (simp add: room_limit_def)
  qed simp_all
  then show ?thesis by (simp add: ok(7) publish_inv)
qed

section \<open>Properties\<close>

text \<open>
  C4: a join either fails and leaves the registry exactly as it was, or admits the user to
  the live room the code names: they held no live seat there and the room was below its maximum;
  they now hold one seat with CHAT only, are not the host, their playback counter starts over,
  their seat is stored, exactly one PARTICIPANT_JOINED naming them as originator is published
  to that room, and no other room changes.
\<close>

theorem join_spec:
  assumes "registry_inv reg" and "join code user pubkey name now_ms reg db = (res, reg', db')"
  shows "case res of
      Inl e \<Rightarrow> reg' = reg
    | Inr (payload, event) \<Rightarrow> \<exists>rid rs rs'.
        hm_get (rg_by_code reg) code = Some rid \<and> get_by_id rid reg = Some rs
        \<and> rs_state rs \<noteq> Ended \<and> \<not> has_live_record user rs
        \<and> live_count rs < unat (cfg_max_participants (rg_config reg))
        \<and> get_by_id rid reg' = Some rs' \<and> live_count rs' = Suc (live_count rs)
        \<and> filter (\<lambda>p. p_user_id p = user) (rs_participants rs') = [joined_record user pubkey name now_ms]
        \<and> hm_get (pb_last_acked_seq (rs_playback rs')) user = None
        \<and> map_option pr_cap_set (participant_lookup db' rid user) = Some CHAT
        \<and> channel rid reg' = map_option (\<lambda>sent. sent @
             [event_to_broadcast_item event rid (Some user)]) (channel rid reg)
        \<and> (\<forall>x. x \<noteq> rid \<longrightarrow> get_by_id x reg' = get_by_id x reg \<and> channel x reg' = channel x reg)"
proof (cases rule: join_cases [of code user pubkey name now_ms reg db])
  case err
  with assms(2) show ?thesis by auto
next
  case (ok rid rs db1)
  let ?rec = "joined_record user pubkey name now_ms"
  have "filter (\<lambda>p. p_user_id p = user) (rs_participants (admit ?rec rs)) = [?rec]"
    using admit_participants [of ?rec rs] ok(4) by (simp add: filter_empty_conv)
  moreover have "live_count (admit ?rec rs) = Suc (live_count rs)"
    using live_count_admit [of ?rec rs] ok(4) by simp
  moreover have "hm_get (pb_last_acked_seq (rs_playback (admit ?rec rs))) user = None"
    by (simp add: admit_def)
  moreover have "participant_lookup db1 rid user = Some \<lparr>pr_user_id = user, pr_pubkey = pubkey,
      pr_display_name = name, pr_is_host = False, pr_joined_ms = now_ms, pr_left_ms = None,
      pr_last_seen_ms = now_ms, pr_status = ''connected'', pr_cap_set = CHAT\<rparr>"
    by (rule seats.upsert_ok [OF ok(6)])
  ultimately show ?thesis
    using ok assms(2)
    by (auto simp: get_by_id_def channel_publish intro!: exI [of _ rid] exI [of _ rs])
qed

definition example_config :: registry_config where
  "example_config = \<lparr>cfg_max_participants = 8, cfg_host_disconnect_grace_ms = 30000,
     cfg_participant_stale_after_ms = 300000, cfg_participant_disconnect_after_ms = 15000\<rparr>"

definition example_registry :: "'m registry" where
  "example_registry = insert_room_state
     (room_state_new 1 (ascii ''ABCDEF'') [] 7 [] True 0 HOST 0) (registry_new example_config)"

definition example_db :: database where
  "example_db = \<lparr>db_rooms = [], db_participants = [], db_manifests = [], db_clock = 0, db_faults = []\<rparr>"

lemma example_registry_inv: "registry_inv example_registry"
  unfolding example_registry_def
proof (rule insert_room_state_inv [OF registry_inv_new])
qed (simp_all add: room_inv_new registry_new_def room_limit_def)

theorem join_spec_witness:
  "\<exists>rid rs'. get_by_id rid (fst (snd (join (ascii ''ABCDEF'') 9 [] [] 5
       (example_registry :: nat registry) example_db))) = Some rs' \<and> live_count rs' = 2"
proof -
  let ?j = "join (ascii ''ABCDEF'') 9 [] [] 5 (example_registry :: nat registry) example_db"
  obtain r where r: "fst ?j = Inr r"
    by (simp add: join_def example_registry_def insert_room_state_def registry_new_def
        has_live_record_def room_state_new_def live_count_def example_config_def
        db_add_room_participant_def attempt_def example_db_def Let_def)
  have one: "get_by_id x example_registry = Some rs \<Longrightarrow> live_count rs = 1" for x rs
    by (auto simp: get_by_id_def example_registry_def insert_room_state_def registry_new_def split: if_splits)
  obtain payload event where pe: "r = (payload, event)" by (cases r)
  have "?j = (fst ?j, fst (snd ?j), snd (snd ?j))" by simp
  from join_spec [OF example_registry_inv this] obtain rid rs rs' where
    "get_by_id rid (example_registry :: nat registry) = Some rs"
    "get_by_id rid (fst (snd ?j)) = Some rs'" "live_count rs' = Suc (live_count rs)"
    unfolding r pe by auto
  with one [of rid rs] show ?thesis by (intro exI [of _ rid] exI [of _ rs']) simp
qed



end
