(* ===== verification/Lifecycle.thy ===== *)
theory Lifecycle
  imports Registry
begin

text \<open>
  How participants leave, drop out, come back and time out: \<open>leave_room\<close>,
  \<open>on_connection_lost\<close>, \<open>rejoin\<close>, \<open>touch\<close>, the three ticks and \<open>rehydrate\<close> of
  \<open>rooms/registry.rs\<close>. \<open>leave_locked\<close> is what happens under the room's lock, \<open>leave_persist\<close>
  the store writes, whose errors the code only logs.
\<close>

section \<open>Leaving\<close>

definition update_user ::
    "uuid \<Rightarrow> (participant_record \<Rightarrow> participant_record) \<Rightarrow> room_state \<Rightarrow> room_state" where
  "update_user user f rs =
     rs\<lparr>rs_participants := update_first (\<lambda>p. p_user_id p = user) f (rs_participants rs)\<rparr>"

definition update_live_user ::
    "uuid \<Rightarrow> (participant_record \<Rightarrow> participant_record) \<Rightarrow> room_state \<Rightarrow> room_state" where
  "update_live_user user f rs =
     rs\<lparr>rs_participants := update_first (\<lambda>p. p_user_id p = user \<and> live p) f (rs_participants rs)\<rparr>"

record leave_outcome =
  lo_was_host :: bool
  lo_new_host_cap_set :: u32
  lo_demoted_cap_set :: u32

definition left_event :: "uuid \<Rightarrow> 'm room_event" where
  "left_event user = EvParticipantLeft \<lparr>pl_user_id = user, pl_reason = ''leave''\<rparr>"

definition leave_locked ::
    "registry_config \<Rightarrow> uuid \<Rightarrow> bool \<Rightarrow> millis \<Rightarrow> participant_record \<Rightarrow> room_state
       \<Rightarrow> 'm room_event list \<times> leave_outcome \<times> room_state" where
  "leave_locked config user intentional now_ms rec rs0 =
     (let set_seat = (\<lambda>st. update_live_user user (\<lambda>p. p\<lparr>p_last_seen_ms := now_ms, p_status := st\<rparr>) rs0);
          was_host = p_is_host rec;
          plain = \<lparr>lo_was_host = was_host, lo_new_host_cap_set = 0, lo_demoted_cap_set = 0\<rparr>
      in if was_host then
           (if \<not> rs_host_migration_enabled rs0 then
              ([EvRoomClosed (if intentional then ''host_left'' else ''host_disconnected_no_migration''),
                left_event user],
               plain, (set_seat Left)\<lparr>rs_state := Ended\<rparr>)
            else if intentional then
              (let rs1 = set_seat Left in
               case elect_new_host rs1 of
                 (Some new_host, rs2) \<Rightarrow>
                   ([EvHostMigrated \<lparr>hm_previous_host_user_id = user, hm_new_host_user_id = new_host,
                       hm_summary = Some (snapshot rs2)\<rparr>, left_event user],
                    plain\<lparr>lo_new_host_cap_set := (case host rs2 of None \<Rightarrow> 0 | Some h \<Rightarrow> p_cap_set h),
                          lo_demoted_cap_set := CHAT\<rparr>, rs2)
               | (None, rs2) \<Rightarrow>
                   ([EvRoomClosed ''host_left'', left_event user], plain, rs2\<lparr>rs_state := Ended\<rparr>))
            else
              (let deadline = i64_wrap (now_ms + cfg_host_disconnect_grace_ms config);
                   rs1 = (set_seat Reconnecting)\<lparr>rs_host_disconnect_deadline_ms := Some deadline\<rparr>;
                   (new_host, rs2) = (if cfg_host_disconnect_grace_ms config \<le> 0
                                      then elect_new_host rs1 else (None, rs1))
               in ([EvHostDisconnected \<lparr>hd_previous_host_user_id = user,
                      hd_reconnect_deadline_ms = deadline, hd_new_host_user_id = new_host\<rparr>],
                   plain, rs2)))
         else ([left_event user], plain, set_seat Left))"

definition leave_persist ::
    "uuid \<Rightarrow> uuid \<Rightarrow> bool \<Rightarrow> millis \<Rightarrow> participant_record \<Rightarrow> leave_outcome \<Rightarrow> room_state
       \<Rightarrow> database \<Rightarrow> database" where
  "leave_persist rid user intentional now_ms rec out rs db =
     (if lo_was_host out then
        (if rs_host_migration_enabled rs \<and> intentional then
           (if rs_state rs = Ended then snd (db_end_room rid now_ms db)
            else
              (let db1 = (case find p_is_host (rs_participants rs) of
                            None \<Rightarrow> db
                          | Some h \<Rightarrow> snd (db_add_room_participant rid (p_user_id h) (p_pubkey h)
                              (p_display_name h) True (p_joined_ms h) (lo_new_host_cap_set out) db));
                   db2 = snd (db_add_room_participant rid user (p_pubkey rec) (p_display_name rec)
                              False (p_joined_ms rec) (lo_demoted_cap_set out) db1)
               in snd (db_update_participant_status rid user ''left'' now_ms db2)))
         else if \<not> rs_host_migration_enabled rs then snd (db_end_room rid now_ms db)
         else snd (db_set_host_disconnect_deadline rid (rs_host_disconnect_deadline_ms rs) db))
      else snd (db_update_participant_status rid user ''left'' now_ms db))"

definition leave_target :: "uuid \<Rightarrow> uuid option \<Rightarrow> 'm registry \<Rightarrow> (uuid \<times> room_state) option" where
  "leave_target user wanted reg =
     find (\<lambda>(rid, rs). (case wanted of None \<Rightarrow> True | Some w \<Rightarrow> w = rid) \<and> has_live_record user rs)
       (rg_by_id reg)"

text \<open>Up to the point where the room's lock is dropped and the events are published.\<close>

definition leave_publish ::
    "uuid \<Rightarrow> uuid \<Rightarrow> bool \<Rightarrow> millis \<Rightarrow> participant_record \<Rightarrow> room_state \<Rightarrow> 'm registry \<Rightarrow> database
       \<Rightarrow> 'm room_event list \<times> room_state \<times> 'm registry \<times> database" where
  "leave_publish rid user intentional now_ms rec rs reg db =
     (let (events, out, rs') = leave_locked (rg_config reg) user intentional now_ms rec rs;
          db' = leave_persist rid user intentional now_ms rec out rs' db;
          items = map (\<lambda>e. (rid, event_to_broadcast_item e rid (Some user))) events
      in (events, rs', publish_all items (put_room rid rs' reg), db'))"

definition leave_room ::
    "uuid \<Rightarrow> uuid option \<Rightarrow> bool \<Rightarrow> millis \<Rightarrow> 'm registry \<Rightarrow> database
       \<Rightarrow> ('m room_event list \<times> room_summary option) result \<times> 'm registry \<times> database" where
  "leave_room user wanted intentional now_ms reg db =
     (case leave_target user wanted reg of
        None \<Rightarrow> (Inl NotJoined, reg, db)
      | Some (rid, rs) \<Rightarrow>
          if rs_state rs = Ended then (Inl NotJoined, reg, db)
          else (case live_record user rs of
            None \<Rightarrow> (Inl NotJoined, reg, db)
          | Some rec \<Rightarrow>
              (let (events, rs', reg', db') = leave_publish rid user intentional now_ms rec rs reg db
               in if rs_state rs' = Ended
                  then (Inr (events, None), remove_room rid reg', db')
                  else (Inr (events, Some (snapshot rs')), reg', db'))))"

definition leave ::
    "uuid \<Rightarrow> bool \<Rightarrow> millis \<Rightarrow> 'm registry \<Rightarrow> database
       \<Rightarrow> ('m room_event list \<times> room_summary option) result \<times> 'm registry \<times> database" where
  "leave user intentional now_ms reg db = leave_room user None intentional now_ms reg db"

section \<open>Lost and returning transports\<close>

definition hosts :: "uuid \<Rightarrow> room_state \<Rightarrow> bool" where
  "hosts user rs \<longleftrightarrow> (case host rs of None \<Rightarrow> False | Some h \<Rightarrow> p_user_id h = user)"

definition connection_lost_in_room ::
    "uuid \<Rightarrow> millis \<Rightarrow> uuid \<Rightarrow> 'm registry \<Rightarrow> database
       \<Rightarrow> 'm room_event list result \<times> 'm registry \<times> database" where
  "connection_lost_in_room user now_ms rid reg db =
     (case get_by_id rid reg of
        None \<Rightarrow> (Inr [], reg, db)
      | Some rs \<Rightarrow>
          if \<not> hosts user rs
          then (case db_update_participant_status rid user ''disconnected'' now_ms db of
                  (Inl e, db') \<Rightarrow> (Inl (Internal (''update_participant_status: '' @ e)), reg, db')
                | (Inr _, db') \<Rightarrow>
                    if rs_state rs = Ended then (Inr [], reg, db')
                    else (Inr [], put_room rid (update_user user
                            (\<lambda>p. p\<lparr>p_status := Disconnected, p_last_seen_ms := now_ms\<rparr>) rs) reg, db'))
          else (case leave_room user (Some rid) False now_ms reg db of
                  (Inl e, reg', db') \<Rightarrow> (Inl e, reg', db')
                | (Inr (events, _), reg', db') \<Rightarrow> (Inr events, reg', db')))"

text \<open>
  The loop of \<open>on_connection_lost\<close> and \<open>rejoin\<close> over the user's rooms: the events of the rooms
  that succeeded, and the first error.
\<close>

fun each_room ::
    "(uuid \<Rightarrow> 'm registry \<Rightarrow> database \<Rightarrow> 'm room_event list result \<times> 'm registry \<times> database)
       \<Rightarrow> uuid list \<Rightarrow> 'm registry \<Rightarrow> database
       \<Rightarrow> ('m room_event list \<times> room_error option) \<times> 'm registry \<times> database" where
  "each_room f [] reg db = (([], None), reg, db)"
| "each_room f (rid # rids) reg db =
     (let (r, reg1, db1) = f rid reg db;
          ((events, err), reg2, db2) = each_room f rids reg1 db1
      in case r of
           Inl e \<Rightarrow> ((events, Some e), reg2, db2)
         | Inr evs \<Rightarrow> ((evs @ events, err), reg2, db2))"

definition on_connection_lost ::
    "uuid \<Rightarrow> millis \<Rightarrow> 'm registry \<Rightarrow> database
       \<Rightarrow> 'm room_event list result \<times> 'm registry \<times> database" where
  "on_connection_lost user now_ms reg db =
     (let rooms = rooms_of_user user reg
      in if rooms = [] then (Inl NotJoined, reg, db)
         else let ((events, err), reg', db') =
                    each_room (connection_lost_in_room user now_ms) rooms reg db
              in case err of
                   Some e \<Rightarrow> if events = [] then (Inl e, reg', db') else (Inr events, reg', db')
                 | None \<Rightarrow> (Inr events, reg', db'))"

definition rejoin_in_room ::
    "uuid \<Rightarrow> bytes \<Rightarrow> millis \<Rightarrow> uuid \<Rightarrow> 'm registry \<Rightarrow> database
       \<Rightarrow> 'm room_event list result \<times> 'm registry \<times> database" where
  "rejoin_in_room user pubkey now_ms rid reg db =
     (let back = (\<lambda>p. p\<lparr>p_status := Connected, p_last_seen_ms := now_ms, p_pubkey := pubkey\<rparr>)
      in case get_by_id rid reg of
        None \<Rightarrow> (Inr [], reg, db)
      | Some rs \<Rightarrow>
          if hosts user rs \<and> host_disconnected rs
          then (case db_set_host_disconnect_deadline rid None db of
                  (Inl e, db1) \<Rightarrow> (Inl (Internal (''set_host_disconnect_deadline: '' @ e)), reg, db1)
                | (Inr _, db1) \<Rightarrow>
                    (let h = the (host rs)
                     in case db_add_room_participant rid user pubkey (p_display_name h) True
                               (p_joined_ms h) (p_cap_set h) db1 of
                          (Inl e, db2) \<Rightarrow> (Inl (Internal (''add_room_participant: '' @ e)), reg, db2)
                        | (Inr _, db2) \<Rightarrow>
                            (let rs' = host_mut back (rs\<lparr>rs_host_disconnect_deadline_ms := None\<rparr>);
                                 event = EvHostReconnected user;
                                 item = event_to_broadcast_item event rid (Some user)
                             in (Inr [event], publish rid item (put_room rid rs' reg), db2))))
          else (case db_update_participant_status rid user ''connected'' now_ms db of
                  (Inl e, db1) \<Rightarrow> (Inl (Internal (''update_participant_status: '' @ e)), reg, db1)
                | (Inr _, db1) \<Rightarrow> (Inr [], put_room rid (update_user user back rs) reg, db1)))"

definition rejoin ::
    "uuid \<Rightarrow> bytes \<Rightarrow> millis \<Rightarrow> 'm registry \<Rightarrow> database
       \<Rightarrow> 'm room_event list option result \<times> 'm registry \<times> database" where
  "rejoin user pubkey now_ms reg db =
     (let rooms = rooms_of_user user reg
      in if rooms = [] then (Inr None, reg, db)
         else let ((events, err), reg', db') =
                    each_room (rejoin_in_room user pubkey now_ms) rooms reg db
              in case err of
                   Some e \<Rightarrow> if events = [] then (Inl e, reg', db') else (Inr (Some events), reg', db')
                 | None \<Rightarrow> (Inr (Some events), reg', db'))"

definition touch :: "uuid \<Rightarrow> millis \<Rightarrow> 'm registry \<Rightarrow> 'm registry" where
  "touch user now_ms reg =
     (case find (\<lambda>(_, rs). list_ex (\<lambda>p. p_user_id p = user) (rs_participants rs)) (rg_by_id reg) of
        None \<Rightarrow> reg
      | Some (rid, rs) \<Rightarrow>
          put_room rid (update_user user
            (\<lambda>p. let p' = p\<lparr>p_last_seen_ms := now_ms\<rparr>
                 in if \<not> p_is_host p' \<and> p_status p' = Disconnected then p'\<lparr>p_status := Connected\<rparr>
                    else p') rs) reg)"

definition update_participant_cap_set ::
    "uuid \<Rightarrow> uuid \<Rightarrow> u32 \<Rightarrow> 'm registry \<Rightarrow> unit result \<times> 'm registry" where
  "update_participant_cap_set rid target caps reg =
     (case get_by_id rid reg of
        None \<Rightarrow> (Inl RoomNotFound, reg)
      | Some rs \<Rightarrow>
          if has_live_record target rs
          then (Inr (), put_room rid (update_live_user target (\<lambda>p. p\<lparr>p_cap_set := caps\<rparr>) rs) reg)
          else (Inl (Internal ''cap_set update: target not found''), reg))"

section \<open>Ticks\<close>

text \<open>The item \<open>tick_grace\<close> builds for the two events that the grace decision can return.\<close>

fun grace_item :: "uuid \<Rightarrow> 'm room_event \<Rightarrow> 'm broadcast_item option" where
  "grace_item rid (EvHostMigrated p) = Some
     \<lparr>bi_kind = MkHostMigrated, bi_payload = WHostMigrated p, bi_room_id = rid,
      bi_originator = None, bi_sender = None, bi_seq = 0\<rparr>"
| "grace_item rid (EvRoomClosed reason) = Some
     \<lparr>bi_kind = MkRoomClosed, bi_payload = WRoomClosed reason, bi_room_id = rid,
      bi_originator = None, bi_sender = None, bi_seq = 0\<rparr>"
| "grace_item rid _ = None"

fun is_room_closed :: "'m room_event \<Rightarrow> bool" where
  "is_room_closed (EvRoomClosed _) = True"
| "is_room_closed _ = False"

definition end_and_remove :: "millis \<Rightarrow> uuid \<Rightarrow> 'm registry \<times> database \<Rightarrow> 'm registry \<times> database" where
  "end_and_remove now_ms rid s = (remove_room rid (fst s), snd (db_end_room rid now_ms (snd s)))"

definition tick_grace ::
    "millis \<Rightarrow> 'm registry \<Rightarrow> database
       \<Rightarrow> (uuid \<times> 'm room_event) list \<times> 'm registry \<times> database" where
  "tick_grace now_ms reg db =
     (let visited = map (\<lambda>(rid, rs). (rid, process_room_grace rs now_ms)) (rg_by_id reg);
          reg1 = reg\<lparr>rg_by_id := map (\<lambda>(rid, _, rs). (rid, rs)) visited\<rparr>;
          fired = concat (map (\<lambda>(rid, ev, _).
                    case ev of None \<Rightarrow> []
                    | Some e \<Rightarrow> (case grace_item rid e of None \<Rightarrow> [] | Some item \<Rightarrow> [(rid, e, item)]))
                  visited);
          reg2 = publish_all (map (\<lambda>(rid, _, item). (rid, item)) fired) reg1;
          to_remove = map fst (filter (\<lambda>(_, e, _). is_room_closed e) fired)
      in (map (\<lambda>(rid, e, _). (rid, e)) fired,
          fold (end_and_remove now_ms) to_remove (reg2, db)))"

definition timeout_event :: "participant_record \<Rightarrow> 'm room_event" where
  "timeout_event p = EvParticipantLeft \<lparr>pl_user_id = p_user_id p, pl_reason = ''timeout''\<rparr>"

text \<open>
  The room-by-room part of the two sweeps: what happens to one room under its lock, and the
  events to publish once every room was visited.
\<close>

definition sweep ::
    "(room_state \<Rightarrow> participant_record list \<times> room_state) \<Rightarrow> 'm registry
       \<Rightarrow> (uuid \<times> 'm room_event) list \<times> 'm registry" where
  "sweep visit reg =
     (let visited = map (\<lambda>(rid, rs). (rid, visit rs)) (rg_by_id reg);
          reg1 = reg\<lparr>rg_by_id := map (\<lambda>(rid, _, rs). (rid, rs)) visited\<rparr>;
          events = concat (map (\<lambda>(rid, gone, _). map (\<lambda>p. (rid, timeout_event p)) gone) visited)
      in (events, publish_all (map (\<lambda>(rid, e). (rid, event_to_broadcast_item e rid None)) events) reg1))"

definition presence_expired :: "registry_config \<Rightarrow> millis \<Rightarrow> participant_record \<Rightarrow> bool" where
  "presence_expired config now_ms p \<longleftrightarrow> \<not> p_is_host p \<and> p_status p = Connected
     \<and> saturating_sub_i64 now_ms (p_last_seen_ms p) \<ge> cfg_participant_disconnect_after_ms config"

definition presence_room ::
    "registry_config \<Rightarrow> millis \<Rightarrow> room_state \<Rightarrow> participant_record list \<times> room_state" where
  "presence_room config now_ms rs =
     (if rs_state rs = Ended then ([], rs)
      else let expired = presence_expired config now_ms
           in (filter expired (rs_participants rs),
               rs\<lparr>rs_participants := map (\<lambda>p. if expired p then p\<lparr>p_status := Disconnected\<rparr> else p)
                    (rs_participants rs)\<rparr>))"

definition tick_presence_timeout ::
    "millis \<Rightarrow> 'm registry \<Rightarrow> (uuid \<times> 'm room_event) list \<times> 'm registry" where
  "tick_presence_timeout now_ms reg = sweep (presence_room (rg_config reg) now_ms) reg"

definition silent :: "registry_config \<Rightarrow> millis \<Rightarrow> participant_record \<Rightarrow> bool" where
  "silent config now_ms p \<longleftrightarrow>
     saturating_sub_i64 now_ms (p_last_seen_ms p) \<ge> cfg_participant_stale_after_ms config"

text \<open>The indices of the stale records are removed from the last one back.\<close>

definition stale_room ::
    "registry_config \<Rightarrow> millis \<Rightarrow> room_state \<Rightarrow> participant_record list \<times> room_state" where
  "stale_room config now_ms rs =
     (if rs_state rs = Ended \<or> rs_host_disconnect_deadline_ms rs \<noteq> None then ([], rs)
      else let kept = filter (\<lambda>p. p_is_host p \<or> p_status p \<noteq> Left \<or> \<not> silent config now_ms p)
                        (rs_participants rs);
               stale = (\<lambda>p. \<not> (p_is_host p \<or> p_status p = Left) \<and> silent config now_ms p)
           in (rev (filter stale kept), rs\<lparr>rs_participants := filter (\<lambda>p. \<not> stale p) kept\<rparr>))"

definition tick_stale_participants ::
    "millis \<Rightarrow> 'm registry \<Rightarrow> database
       \<Rightarrow> (uuid \<times> 'm room_event) list \<times> 'm registry \<times> database" where
  "tick_stale_participants now_ms reg db =
     (let (events, reg') = sweep (stale_room (rg_config reg) now_ms) reg;
          cutoff = saturating_sub_i64 now_ms (cfg_participant_stale_after_ms (rg_config reg));
          stale_rooms = sorted_list_of_set (set (map fst events));
          db' = fold (\<lambda>rid db. snd (db_purge_stale_participants rid cutoff db)) stale_rooms db
      in (events, reg', db'))"

section \<open>Rehydration\<close>

definition rebuilt_record :: "millis option \<Rightarrow> participant_row \<Rightarrow> participant_record" where
  "rebuilt_record deadline p =
     \<lparr>p_user_id = pr_user_id p, p_pubkey = pr_pubkey p, p_display_name = pr_display_name p,
      p_joined_ms = pr_joined_ms p,
      p_status = (if pr_is_host p then (if deadline \<noteq> None then Reconnecting else Connected)
                  else Disconnected),
      p_last_seen_ms = pr_joined_ms p, p_is_host = pr_is_host p, p_cap_set = pr_cap_set p\<rparr>"

definition rebuilt_participants :: "room_row \<Rightarrow> participant_row list \<Rightarrow> participant_record list" where
  "rebuilt_participants room rows =
     (let usable = filter (\<lambda>p. pr_status p \<noteq> ''left'' \<and> length (pr_pubkey p) = 32) rows;
          deadline = rr_host_disconnect_deadline_ms room;
          rebuilt = map (rebuilt_record deadline) usable
      in if list_ex pr_is_host usable then rebuilt
         else rebuilt @
           [\<lparr>p_user_id = rr_host_user_id room, p_pubkey = rr_host_pubkey room, p_display_name = [],
             p_joined_ms = rr_created_ms room,
             p_status = (if deadline \<noteq> None then Reconnecting else Connected),
             p_last_seen_ms = rr_created_ms room, p_is_host = True, p_cap_set = HOST\<rparr>])"

definition rehydrated_room :: "nat \<Rightarrow> room_row \<Rightarrow> participant_row list \<Rightarrow> room_state" where
  "rehydrated_room clock_ms room rows =
     \<lparr>rs_id = rr_id room, rs_code = rr_code room, rs_title = rr_title room,
      rs_host_user_id = rr_host_user_id room, rs_host_pubkey = rr_host_pubkey room,
      rs_host_migration_enabled = rr_host_migration_enabled room,
      rs_created_ms = rr_created_ms room, rs_state = Open,
      rs_host_disconnect_deadline_ms = rr_host_disconnect_deadline_ms room,
      rs_participants = rebuilt_participants room rows,
      rs_playback = playback_default, rs_drawing = stroke_bookkeeping_new clock_ms\<rparr>"

text \<open>A failing read of the manifest row is ignored; a row that does not parse is an error.\<close>

definition rehydrate ::
    "'m codec \<Rightarrow> nat \<Rightarrow> room_row \<Rightarrow> participant_row list \<Rightarrow> database option \<Rightarrow> 'm registry
       \<Rightarrow> unit result \<times> 'm registry \<times> database option" where
  "rehydrate cd clock_ms room rows db reg =
     (if rr_state room \<noteq> ''open'' then (Inr (), reg, db)
      else if length (rr_host_pubkey room) \<noteq> 32 then (Inl (Internal ''host_pubkey row''), reg, db)
      else let rid = rr_id room;
               reg1 = insert_room_state (rehydrated_room clock_ms room rows) reg
           in case db of
                None \<Rightarrow> (Inr (), reg1, None)
              | Some d \<Rightarrow>
                  (case db_get_latest_room_manifest rid d of
                     (Inr (Some row), d') \<Rightarrow>
                       (case cd_from_str cd (mr_manifest_json row) of
                          None \<Rightarrow> (Inl (Internal ''deserialize manifest''), reg1, Some d')
                        | Some m \<Rightarrow>
                            (Inr (), put_current_manifest rid
                               \<lparr>cman_version = mr_version row, cman_manifest = m,
                                cman_host_user_id = mr_host_user_id row,
                                cman_published_at_ms = mr_created_at row,
                                cman_manifest_hash = mr_manifest_hash row\<rparr> reg1, Some d'))
                   | (_, d') \<Rightarrow> (Inr (), reg1, Some d')))"

section \<open>Rooms stay well formed\<close>

lemma room_inv_intro:
  assumes "room_inv rs" and "rs_drawing rs' = rs_drawing rs" and "rs_playback rs' = rs_playback rs"
    and "rs_state rs' = rs_state rs \<or> rs_state rs' = Ended"
    and "distinct (map p_user_id (rs_participants rs'))"
    and "rs_state rs' \<noteq> Ended \<Longrightarrow> one_host (rs_participants rs')"
  shows "room_inv rs'"
  using assms by (auto simp: room_inv_def playback_inv_def)

text \<open>What a change to one room may not touch.\<close>

definition same_room :: "room_state \<Rightarrow> room_state \<Rightarrow> bool" where
  "same_room rs rs' \<longleftrightarrow> room_inv rs' \<and> rs_id rs' = rs_id rs \<and> rs_code rs' = rs_code rs
     \<and> live_count rs' \<le> live_count rs"

lemma same_roomI:
  assumes "room_inv rs'" "rs_id rs' = rs_id rs" "rs_code rs' = rs_code rs" "live_count rs' \<le> live_count rs"
  shows "same_room rs rs'"
  using assms by (simp add: same_room_def)

lemma same_room_refl: "room_inv rs \<Longrightarrow> same_room rs rs"
  by (simp add: same_room_def)

lemma put_same_room:
  assumes "registry_inv reg" and "hm_get (rg_by_id reg) rid = Some rs" and "same_room rs rs'"
  shows "registry_inv (put_room rid rs' reg)"
  using assms registry_room [OF assms(1,2)]
  by (intro put_room_inv [OF assms(1,2)]) (auto simp: same_room_def)

lemma update_first_inv:
  assumes "room_inv rs" and "\<And>p. p_user_id (f p) = p_user_id p" and "\<And>p. p_is_host (f p) = p_is_host p"
    and "\<And>p. p \<in> set (rs_participants rs) \<Longrightarrow> P p \<Longrightarrow> p_is_host p \<Longrightarrow> present p \<Longrightarrow> present (f p)"
  shows "room_inv (rs\<lparr>rs_participants := update_first P f (rs_participants rs)\<rparr>)"
proof (rule room_inv_intro [OF assms(1)])
  have "map p_user_id (update_first P f (rs_participants rs)) = map p_user_id (rs_participants rs)"
    by (rule map_user_update [OF assms(2)])
  then show "distinct (map p_user_id
      (rs_participants (rs\<lparr>rs_participants := update_first P f (rs_participants rs)\<rparr>)))"
    using assms(1) by (simp add: room_inv_def)
next
  assume "rs_state (rs\<lparr>rs_participants := update_first P f (rs_participants rs)\<rparr>) \<noteq> Ended"
  then have "one_host (rs_participants rs)" using assms(1) by (simp add: room_inv_def)
  from one_host_update [OF this, of P f] assms(3,4)
  show "one_host (rs_participants (rs\<lparr>rs_participants := update_first P f (rs_participants rs)\<rparr>))"
    by simp
qed simp_all

lemma update_first_same:
  assumes "room_inv rs" and "\<And>p. p_user_id (f p) = p_user_id p" and "\<And>p. p_is_host (f p) = p_is_host p"
    and "\<And>p. p \<in> set (rs_participants rs) \<Longrightarrow> P p \<Longrightarrow> p_is_host p \<Longrightarrow> present p \<Longrightarrow> present (f p)"
    and "\<And>p. P p \<Longrightarrow> live (f p) \<Longrightarrow> live p"
  shows "same_room rs (rs\<lparr>rs_participants := update_first P f (rs_participants rs)\<rparr>)"
  using update_first_inv [OF assms(1-4)] live_update_le [OF assms(5)]
  by (simp add: same_room_def live_count_def)

subsection \<open>Leaving\<close>

lemma update_live_user_simps [simp]:
  "rs_id (update_live_user u f rs) = rs_id rs"
  "rs_code (update_live_user u f rs) = rs_code rs"
  "rs_state (update_live_user u f rs) = rs_state rs"
  "rs_drawing (update_live_user u f rs) = rs_drawing rs"
  "rs_playback (update_live_user u f rs) = rs_playback rs"
  "rs_host_user_id (update_live_user u f rs) = rs_host_user_id rs"
  "rs_host_migration_enabled (update_live_user u f rs) = rs_host_migration_enabled rs"
  "rs_host_disconnect_deadline_ms (update_live_user u f rs) = rs_host_disconnect_deadline_ms rs"
  by (simp_all add: update_live_user_def)

text \<open>A participant takes another seat status as they go.\<close>

definition reseat :: "uuid \<Rightarrow> millis \<Rightarrow> participant_status \<Rightarrow> room_state \<Rightarrow> room_state" where
  "reseat user now_ms st rs =
     update_live_user user (\<lambda>p. p\<lparr>p_last_seen_ms := now_ms, p_status := st\<rparr>) rs"

lemma reseat_simps [simp]:
  "rs_id (reseat u t st rs) = rs_id rs"
  "rs_code (reseat u t st rs) = rs_code rs"
  "rs_state (reseat u t st rs) = rs_state rs"
  "rs_drawing (reseat u t st rs) = rs_drawing rs"
  "rs_playback (reseat u t st rs) = rs_playback rs"
  "rs_host_user_id (reseat u t st rs) = rs_host_user_id rs"
  "rs_host_migration_enabled (reseat u t st rs) = rs_host_migration_enabled rs"
  "rs_host_disconnect_deadline_ms (reseat u t st rs) = rs_host_disconnect_deadline_ms rs"
  "map p_user_id (rs_participants (reseat u t st rs)) = map p_user_id (rs_participants rs)"
  by (simp_all add: reseat_def) (simp add: update_live_user_def map_user_update)

lemma live_reseat: "live_count (reseat u t st rs) \<le> live_count rs"
  unfolding reseat_def update_live_user_def live_count_def
  by (simp, rule live_update_le) simp

lemma find_distinct_user:
  "distinct (map p_user_id ps) \<Longrightarrow> find (\<lambda>p. p_user_id p = u \<and> Q p) ps = Some p \<Longrightarrow>
     q \<in> set ps \<Longrightarrow> p_user_id q = u \<Longrightarrow> q = p"
  by (metis (mono_tags, lifting) distinct_user_eq find_SomeD)

lemma reseat_participants:
  assumes "distinct (map p_user_id (rs_participants rs))" and "live_record u rs = Some p"
  shows "rs_participants (reseat u t st rs) =
    map (\<lambda>q. if p_user_id q = u then q\<lparr>p_last_seen_ms := t, p_status := st\<rparr> else q) (rs_participants rs)"
proof -
  let ?f = "\<lambda>q. q\<lparr>p_last_seen_ms := t, p_status := st\<rparr>"
  have p: "p \<in> set (rs_participants rs)" "p_user_id p = u" "live p"
    using assms(2) by (auto simp: live_record_def dest: find_SomeD)
  have "update_first (\<lambda>q. p_user_id q = u \<and> live q) ?f qs = map (\<lambda>q. if p_user_id q = u then ?f q else q) qs"
    if "distinct (map p_user_id qs)" "\<forall>q \<in> set qs. p_user_id q = u \<longrightarrow> live q" for qs
    using that
  proof (induction qs)
    case (Cons q qs)
    show ?case
    proof (cases "p_user_id q = u")
      case True
      with Cons.prems(1) have "u \<notin> p_user_id ` set qs" by simp
      then have "\<forall>r \<in> set qs. p_user_id r \<noteq> u" by (metis image_eqI)
      then have "map (\<lambda>q. if p_user_id q = u then ?f q else q) qs = qs" by (simp add: map_idI)
      with True Cons.prems(2) show ?thesis by simp
    next
      case False
      with Cons show ?thesis by simp
    qed
  qed simp
  moreover have "\<forall>q \<in> set (rs_participants rs). p_user_id q = u \<longrightarrow> live q"
    using distinct_user_eq [OF assms(1) _ p(1)] p(2,3) by metis
  ultimately show ?thesis using assms(1) by (simp add: reseat_def update_live_user_def)
qed

lemma reseat_same:
  assumes "room_inv rs" and "p_is_host p \<longrightarrow> st = Reconnecting \<or> st = Connected"
    and "live_record u rs = Some p"
  shows "same_room rs (reseat u t st rs)"
  unfolding reseat_def update_live_user_def
proof (rule update_first_same [OF assms(1)])
  fix q assume q: "q \<in> set (rs_participants rs)" "p_user_id q = u \<and> live q" "p_is_host q"
  have "q = p"
    using find_distinct_user [OF _ assms(3) [unfolded live_record_def] q(1)] q(2) assms(1)
    by (simp add: room_inv_def)
  with assms(2) q(3) show "present (q\<lparr>p_last_seen_ms := t, p_status := st\<rparr>)" by auto
qed auto

text \<open>The host is never a candidate, so changing their seat changes no candidate.\<close>

lemma candidates_reseat:
  assumes "room_inv rs" and "live_record u rs = Some p" and "p_is_host p"
  shows "candidates (reseat u t st rs) = candidates rs"
proof -
  have d: "distinct (map p_user_id (rs_participants rs))" using assms(1) by (simp add: room_inv_def)
  have hosts: "\<forall>q \<in> set (rs_participants rs). p_user_id q = u \<longrightarrow> p_is_host q"
    using find_distinct_user [OF d assms(2) [unfolded live_record_def]] assms(3) by blast
  have "filter (\<lambda>p. \<not> p_is_host p \<and> present p)
      (map (\<lambda>q. if p_user_id q = u then q\<lparr>p_last_seen_ms := t, p_status := st\<rparr> else q) qs)
      = filter (\<lambda>p. \<not> p_is_host p \<and> present p) qs"
    if "\<forall>q \<in> set qs. p_user_id q = u \<longrightarrow> p_is_host q" for qs
    using that by (induction qs) auto
  with hosts show ?thesis by (simp add: candidates_def reseat_participants [OF d assms(2)])
qed

lemma leave_locked_cases:
  assumes inv: "room_inv rs" and p: "live_record u rs = Some p"
    and l: "leave_locked config u intentional now_ms p rs = (events :: 'm room_event list, out, rs')"
  obtains (guest) "\<not> p_is_host p" "events = [left_event u]" "\<not> lo_was_host out"
      "rs' = reseat u now_ms Left rs"
    | (closed) reason where "p_is_host p" "lo_was_host out"
      "\<not> rs_host_migration_enabled rs \<or> intentional \<and> candidates rs = []"
      "events = [EvRoomClosed reason, left_event u]"
      "rs' = (reseat u now_ms Left rs)\<lparr>rs_state := Ended\<rparr>"
    | (migrated) c where "p_is_host p" "lo_was_host out" "rs_host_migration_enabled rs" "intentional"
      "c \<in> set (candidates rs)" "\<forall>q \<in> set (candidates rs). seniority c \<le> seniority q"
      "rs' = (reseat u now_ms Left rs)\<lparr>rs_participants := map (promote (p_user_id c))
          (rs_participants (reseat u now_ms Left rs)), rs_host_user_id := p_user_id c\<rparr>"
      "events = [EvHostMigrated \<lparr>hm_previous_host_user_id = u, hm_new_host_user_id = p_user_id c,
          hm_summary = Some (snapshot rs')\<rparr>, left_event u]"
    | (grace) rs1 new_host where "p_is_host p" "lo_was_host out" "rs_host_migration_enabled rs"
      "\<not> intentional"
      "rs1 = (reseat u now_ms Reconnecting rs)\<lparr>rs_host_disconnect_deadline_ms :=
          Some (i64_wrap (now_ms + cfg_host_disconnect_grace_ms config))\<rparr>"
      "(new_host, rs') = (if cfg_host_disconnect_grace_ms config \<le> 0 then elect_new_host rs1
                          else (None, rs1))"
      "events = [EvHostDisconnected \<lparr>hd_previous_host_user_id = u,
          hd_reconnect_deadline_ms = i64_wrap (now_ms + cfg_host_disconnect_grace_ms config),
          hd_new_host_user_id = new_host\<rparr>]"
proof (cases "p_is_host p")
  case False
  with guest l show thesis by (auto simp: leave_locked_def reseat_def)
next
  case host: True
  show thesis
  proof (cases "rs_host_migration_enabled rs")
    case False
    with host l show thesis by (intro closed) (auto simp: leave_locked_def reseat_def)
  next
    case mig: True
    note cands = candidates_reseat [OF inv p host, of now_ms Left]
    show thesis
    proof (cases intentional)
      case True
      show thesis
      proof (cases rule: elect_new_host_cases [of "reseat u now_ms Left rs"])
        case none
        with host mig True cands l show thesis
          by (intro closed) (auto simp: leave_locked_def simp flip: reseat_def)
      next
        case (elected c)
        with host mig True cands l show thesis
          by (intro migrated [of c]) (auto simp: leave_locked_def simp flip: reseat_def)
      qed
    next
      case False
      let ?rs1 = "(reseat u now_ms Reconnecting rs)\<lparr>rs_host_disconnect_deadline_ms :=
          Some (i64_wrap (now_ms + cfg_host_disconnect_grace_ms config))\<rparr>"
      obtain nh rs2 where e: "(nh, rs2) = (if cfg_host_disconnect_grace_ms config \<le> 0
          then elect_new_host ?rs1 else (None, ?rs1))" by (metis surj_pair)
      from l host mig False e [symmetric]
      have "rs' = rs2" "lo_was_host out" "events = [EvHostDisconnected \<lparr>hd_previous_host_user_id = u,
          hd_reconnect_deadline_ms = i64_wrap (now_ms + cfg_host_disconnect_grace_ms config),
          hd_new_host_user_id = nh\<rparr>]"
        by (auto simp: leave_locked_def Let_def simp flip: reseat_def)
      with e show thesis by (intro grace [OF host _ mig False refl, of nh]) simp_all
    qed
  qed
qed

lemma live_count_promote [simp]:
  "live_count (rs\<lparr>rs_participants := map (promote u) ps, rs_host_user_id := h\<rparr>) = length (filter live ps)"
  unfolding live_count_def using live_promote [of u ps] by simp

lemma elect_same:
  assumes "room_inv rs" and "elect_new_host rs = (h, rs')"
  shows "same_room rs rs'"
proof (cases rule: elect_new_host_cases [of rs])
  case none
  with assms show ?thesis by (simp add: same_room_refl)
next
  case (elected c)
  then have c: "c \<in> set (rs_participants rs)" "present c" by (auto simp: candidates_def)
  have d: "distinct (map p_user_id (rs_participants rs))" using assms(1) by (simp add: room_inv_def)
  have rs': "rs' = rs\<lparr>rs_participants := map (promote (p_user_id c)) (rs_participants rs),
      rs_host_user_id := p_user_id c\<rparr>" using elected(3) assms(2) by simp
  show ?thesis
  proof (rule same_roomI)
    show "room_inv rs'"
      by (rule room_inv_intro [OF assms(1)])
        (use d one_host_elected [OF d c] in \<open>auto simp: rs' o_def\<close>)
    show "live_count rs' \<le> live_count rs" by (simp only: rs' live_count_promote) (simp add: live_count_def)
  qed (simp_all add: rs')
qed

lemma same_room_trans: "same_room rs1 rs2 \<Longrightarrow> same_room rs2 rs3 \<Longrightarrow> same_room rs1 rs3"
  by (simp add: same_room_def)

text \<open>A room whose state becomes \<open>Ended\<close>, or whose deadline or host id changes, needs no new check.\<close>

lemma ended_room_inv:
  assumes "room_inv rs" and "rs_drawing rs' = rs_drawing rs" and "rs_playback rs' = rs_playback rs"
    and "rs_state rs' = Ended" and "map p_user_id (rs_participants rs') = map p_user_id (rs_participants rs)"
  shows "room_inv rs'"
  using assms by (auto simp: room_inv_def playback_inv_def)

lemma deadline_room_inv [simp]:
  "room_inv (rs\<lparr>rs_host_disconnect_deadline_ms := d\<rparr>) = room_inv rs"
  "live_count (rs\<lparr>rs_host_disconnect_deadline_ms := d\<rparr>) = live_count rs"
  by (simp_all add: room_inv_def playback_inv_def live_count_def)

lemma leave_locked_same:
  assumes inv: "room_inv rs" and p: "live_record u rs = Some p"
    and l: "leave_locked config u intentional now_ms p rs = (events, out, rs')"
  shows "same_room rs rs'"
  using inv p l
proof (cases rule: leave_locked_cases)
  case guest
  then show ?thesis using reseat_same [OF inv _ p, of Left now_ms] by simp
next
  case (closed reason)
  then show ?thesis
    using live_reseat [of u now_ms Left rs] ended_room_inv [OF inv, of rs']
    by (simp add: same_room_def live_count_def)
next
  case (migrated c)
  let ?rs1 = "reseat u now_ms Left rs"
  have d: "distinct (map p_user_id (rs_participants ?rs1))" using inv by (simp add: room_inv_def)
  have "c \<in> set (candidates ?rs1)" using migrated(1,5) candidates_reseat [OF inv p] by simp
  then have c: "c \<in> set (rs_participants ?rs1)" "present c" by (auto simp: candidates_def)
  show ?thesis
  proof (rule same_roomI)
    show "room_inv rs'"
      by (rule room_inv_intro [OF inv])
        (use d one_host_elected [OF d c] migrated(7) inv in \<open>auto simp: o_def\<close>)
    show "live_count rs' \<le> live_count rs"
      using live_reseat [of u now_ms Left rs]
      by (simp only: migrated(7) live_count_promote) (simp add: live_count_def)
  qed (simp_all add: migrated(7))
next
  case (grace rs1 nh)
  have 1: "same_room rs rs1"
    using reseat_same [OF inv _ p, of Reconnecting now_ms] grace(1) by (simp add: grace(5) same_room_def)
  then have "room_inv rs1" by (simp add: same_room_def)
  from elect_same [OF this, of nh rs'] 1 grace(6) show ?thesis
    by (auto intro: same_room_trans split: if_splits)
qed

section \<open>The registry stays well formed\<close>

lemma leave_publish_inv:
  fixes reg :: "'m registry"
  assumes "registry_inv reg" and "hm_get (rg_by_id reg) rid = Some rs" and "live_record user rs = Some p"
    and "leave_publish rid user intentional now_ms p rs reg db = (events, rs', reg', db')"
  shows "registry_inv reg'"
proof -
  obtain evs out rs2 where l:
    "leave_locked (rg_config reg) user intentional now_ms p rs = (evs :: 'm room_event list, out, rs2)"
    by (metis prod_cases3)
  have "same_room rs rs2"
    using leave_locked_same [OF _ assms(3) l] registry_room [OF assms(1,2)] by simp
  then have "registry_inv (put_room rid rs2 reg)" by (rule put_same_room [OF assms(1,2)])
  then show ?thesis using assms(4) l by (auto simp: leave_publish_def Let_def publish_all_inv)
qed

lemma leave_target_SomeD:
  assumes "registry_inv reg" and "leave_target user wanted reg = Some (rid, rs)"
  shows "hm_get (rg_by_id reg) rid = Some rs \<and> has_live_record user rs
    \<and> (\<forall>w. wanted = Some w \<longrightarrow> w = rid)"
proof -
  from find_SomeD [OF assms(2) [unfolded leave_target_def]]
  have "(rid, rs) \<in> set (rg_by_id reg)" and
    *: "(case wanted of None \<Rightarrow> True | Some w \<Rightarrow> w = rid) \<and> has_live_record user rs" by auto
  then have "hm_get (rg_by_id reg) rid = Some rs"
    using assms(1) by (simp add: registry_inv_def hm_get_Some_iff)
  with * show ?thesis by (auto split: option.splits)
qed

lemma has_live_record_iff: "has_live_record u rs \<longleftrightarrow> live_record u rs \<noteq> None"
  by (simp add: has_live_record_def live_record_def find_None_iff_all list_ex_iff)

lemma leave_room_cases:
  assumes "registry_inv reg" and "leave_room user wanted intentional now_ms reg db = (res, reg', db')"
  obtains (refused) "res = Inl NotJoined" "reg' = reg" "db' = db"
    | (left) rid rs p events rs' reg1 where "hm_get (rg_by_id reg) rid = Some rs"
      "live_record user rs = Some p" "rs_state rs \<noteq> Ended" "\<forall>w. wanted = Some w \<longrightarrow> w = rid"
      "leave_publish rid user intentional now_ms p rs reg db = (events, rs', reg1, db')"
      "res = Inr (events, if rs_state rs' = Ended then None else Some (snapshot rs'))"
      "reg' = (if rs_state rs' = Ended then remove_room rid reg1 else reg1)"
proof (cases "leave_target user wanted reg")
  case None
  with assms(2) refused show thesis by (simp add: leave_room_def)
next
  case (Some e)
  obtain rid rs where e: "e = (rid, rs)" by (cases e)
  note t = leave_target_SomeD [OF assms(1) Some [unfolded e]]
  then obtain p where p: "live_record user rs = Some p" by (auto simp: has_live_record_iff)
  show thesis
  proof (cases "rs_state rs = Ended")
    case True
    with assms(2) Some e refused show thesis by (simp add: leave_room_def)
  next
    case False
    obtain events rs' reg1 db1 where l:
      "leave_publish rid user intentional now_ms p rs reg db = (events, rs', reg1, db1)"
      by (metis prod_cases4)
    have f: "leave_room user wanted intentional now_ms reg db = (if rs_state rs' = Ended
        then (Inr (events, None), remove_room rid reg1, db1)
        else (Inr (events, Some (snapshot rs')), reg1, db1))"
      using Some e False p l by (simp add: leave_room_def)
    show thesis
      by (rule left [of rid rs p events rs' reg1])
        (use t p False l f assms(2) in \<open>auto split: if_splits\<close>)
  qed
qed

lemma leave_room_inv:
  assumes "registry_inv reg"
  shows "registry_inv (fst (snd (leave_room user wanted intentional now_ms reg db)))"
proof -
  obtain res reg' db' where r: "leave_room user wanted intentional now_ms reg db = (res, reg', db')"
    by (metis prod_cases3)
  from assms r have "registry_inv reg'"
  proof (cases rule: leave_room_cases)
    case (left rid rs p events rs' reg1)
    from leave_publish_inv [OF assms left(1,2,5)] show ?thesis by (simp add: left(7) remove_room_inv)
  qed (simp add: assms)
  with r show ?thesis by simp
qed

lemma each_room_inv:
  assumes "\<And>rid rids reg db. Q (rid # rids) reg \<Longrightarrow> Q rids (fst (snd (f rid reg db)))"
    and "Q rids reg"
  shows "Q [] (fst (snd (each_room f rids reg db)))"
  using assms(2)
proof (induction rids arbitrary: reg db)
  case (Cons rid rids)
  obtain r reg1 db1 where f: "f rid reg db = (r, reg1, db1)" by (metis prod_cases3)
  have "Q rids reg1" using assms(1) [OF Cons.prems, of db] f by simp
  from Cons.IH [OF this, of db1] show ?case
    by (cases "each_room f rids reg1 db1") (auto simp: f split: sum.split)
qed simp

lemma live_update_member:
  assumes "distinct (map p_user_id ps)" and "\<exists>p \<in> set ps. p_user_id p = u \<and> live p"
  shows "length (filter live (update_first (\<lambda>p. p_user_id p = u) f ps)) \<le> length (filter live ps)"
proof -
  obtain p where p: "p \<in> set ps" "p_user_id p = u" "live p" using assms(2) by blast
  have "\<forall>q \<in> set ps. p_user_id q = u \<longrightarrow> live q"
    using distinct_user_eq [OF assms(1) _ p(1)] p(2,3) by metis
  then show ?thesis by (induction ps) auto
qed

lemma host_hosts: "hosts user rs \<longleftrightarrow> (\<exists>h. host rs = Some h \<and> p_user_id h = user)"
  by (auto simp: hosts_def split: option.split)

text \<open>While the room is live, a user who does not host it has no host record.\<close>

lemma not_hosting:
  assumes "room_inv rs" and "rs_state rs \<noteq> Ended" and "\<not> hosts u rs"
    and "p \<in> set (rs_participants rs)" and "p_user_id p = u"
  shows "\<not> p_is_host p"
proof
  assume h: "p_is_host p"
  from room_inv_host [OF assms(1,2)] obtain q where q: "host rs = Some q"
      "filter p_is_host (rs_participants rs) = [q]" by blast
  have "p \<in> set (filter p_is_host (rs_participants rs))" using assms(4) h by simp
  then have "p = q" by (simp add: q(2))
  with assms(3,5) q(1) show False by (simp add: host_hosts)
qed

lemma connection_lost_in_room_inv:
  assumes inv: "registry_inv reg"
    and member: "\<And>rs. hm_get (rg_by_id reg) rid = Some rs \<Longrightarrow> has_live_record user rs"
  shows "registry_inv (fst (snd (connection_lost_in_room user now_ms rid reg db)))"
proof (cases "hm_get (rg_by_id reg) rid")
  case None
  with inv show ?thesis by (simp add: connection_lost_in_room_def get_by_id_def)
next
  case (Some rs)
  have room: "room_inv rs" using registry_room [OF inv Some] by simp
  obtain p where p: "live_record user rs = Some p" using member [OF Some] by (auto simp: has_live_record_iff)
  let ?f = "\<lambda>p. p\<lparr>p_status := Disconnected, p_last_seen_ms := now_ms\<rparr>"
  have "registry_inv (put_room rid (update_user user ?f rs) reg)"
    if "\<not> hosts user rs" "rs_state rs \<noteq> Ended"
  proof (rule put_same_room [OF inv Some])
    show "same_room rs (update_user user ?f rs)"
    proof (rule same_roomI)
      show "room_inv (update_user user ?f rs)"
        unfolding update_user_def
        by (rule update_first_inv [OF room])
          (use not_hosting [OF room that(2,1)] in auto)
      have "live_count (update_user user ?f rs) \<le> live_count rs"
        using member [OF Some] room unfolding update_user_def live_count_def
        by (simp add: room_inv_def has_live_record_def list_ex_iff live_update_member)
      then show "live_count (update_user user ?f rs) \<le> live_count rs" .
    qed (simp_all add: update_user_def)
  qed
  then show ?thesis
    using inv leave_room_inv [OF inv, of user "Some rid" False now_ms db] Some
    by (auto simp: connection_lost_in_room_def get_by_id_def split: sum.split prod.split)
qed

text \<open>Both loops over a user's rooms change only the room at hand.\<close>

lemma leave_publish_other:
  fixes reg :: "'m registry"
  assumes "leave_publish rid user intentional now_ms p rs reg db = (events, rs', reg', db')"
  shows "rg_by_id reg' = rg_by_id (put_room rid rs' reg)" and "rg_config reg' = rg_config reg"
proof -
  obtain evs out rs2 where
    "leave_locked (rg_config reg) user intentional now_ms p rs = (evs :: 'm room_event list, out, rs2)"
    by (metis prod_cases3)
  with assms show "rg_by_id reg' = rg_by_id (put_room rid rs' reg)" "rg_config reg' = rg_config reg"
    by (auto simp: leave_publish_def Let_def)
qed

lemma leave_room_other:
  assumes "registry_inv reg" and "leave_room user (Some rid) intentional now_ms reg db = (res, reg', db')"
    and "x \<noteq> rid"
  shows "hm_get (rg_by_id reg') x = hm_get (rg_by_id reg) x"
  using assms(1,2)
proof (cases rule: leave_room_cases)
  case (left r rs p events rs' reg1)
  with assms(3) leave_publish_other [OF left(5)] show ?thesis by simp
qed simp

lemma connection_lost_other:
  assumes "registry_inv reg" and "x \<noteq> rid"
  shows "hm_get (rg_by_id (fst (snd (connection_lost_in_room user now_ms rid reg db)))) x
    = hm_get (rg_by_id reg) x"
  using leave_room_other [OF assms(1) _ assms(2)] assms(2)
  by (auto simp: connection_lost_in_room_def split: option.split sum.split prod.split)

lemma rejoin_in_room_other:
  "x \<noteq> rid \<Longrightarrow> hm_get (rg_by_id (fst (snd (rejoin_in_room user pk now_ms rid reg db)))) x
    = hm_get (rg_by_id reg) x"
  by (auto simp: rejoin_in_room_def Let_def split: option.split sum.split prod.split)

lemma rooms_of_user_member:
  assumes "registry_inv reg"
  shows "distinct (rooms_of_user user reg)"
    and "r \<in> set (rooms_of_user user reg) \<Longrightarrow> hm_get (rg_by_id reg) r = Some rs \<Longrightarrow> has_live_record user rs"
proof -
  have wf: "hm_wf (rg_by_id reg)" using assms by (simp add: registry_inv_def)
  then show "distinct (rooms_of_user user reg)"
    by (simp add: rooms_of_user_def hm_wf_def distinct_map_filter)
  assume "r \<in> set (rooms_of_user user reg)" and rs: "hm_get (rg_by_id reg) r = Some rs"
  then obtain rs2 where "(r, rs2) \<in> set (rg_by_id reg)" "has_live_record user rs2"
    by (auto simp: rooms_of_user_def)
  with wf rs show "has_live_record user rs" by (simp add: hm_get_Some_iff [OF wf, symmetric])
qed

definition member_of_all :: "uuid \<Rightarrow> uuid list \<Rightarrow> 'm registry \<Rightarrow> bool" where
  "member_of_all user rids reg \<longleftrightarrow> registry_inv reg \<and> distinct rids
     \<and> (\<forall>r \<in> set rids. \<forall>rs. hm_get (rg_by_id reg) r = Some rs \<longrightarrow> has_live_record user rs)"

lemma each_of_users_rooms_inv:
  fixes reg :: "'m registry"
  assumes "\<And>rid reg db. registry_inv reg \<Longrightarrow>
      (\<And>rs. hm_get (rg_by_id reg) rid = Some rs \<Longrightarrow> has_live_record user rs) \<Longrightarrow>
      registry_inv (fst (snd (f rid reg db)))"
    and "\<And>rid x reg db. registry_inv reg \<Longrightarrow> x \<noteq> rid \<Longrightarrow>
      hm_get (rg_by_id (fst (snd (f rid reg db)))) x = hm_get (rg_by_id reg) x"
    and "registry_inv reg"
  shows "registry_inv (fst (snd (each_room f (rooms_of_user user reg) reg db)))"
proof -
  have "member_of_all user [] (fst (snd (each_room f (rooms_of_user user reg) reg db)))"
  proof (rule each_room_inv)
    fix rid rids db and reg :: "'m registry"
    assume m: "member_of_all user (rid # rids) reg"
    then have "registry_inv (fst (snd (f rid reg db)))"
      by (intro assms(1)) (simp_all add: member_of_all_def)
    moreover have "r \<noteq> rid" if "r \<in> set rids" for r using m that by (auto simp: member_of_all_def)
    ultimately show "member_of_all user rids (fst (snd (f rid reg db)))"
      using m assms(2) [of reg] by (auto simp: member_of_all_def)
  next
    show "member_of_all user (rooms_of_user user reg) reg"
      using assms(3) rooms_of_user_member [OF assms(3)] by (auto simp: member_of_all_def)
  qed
  then show ?thesis by (simp add: member_of_all_def)
qed

lemma on_connection_lost_inv:
  assumes "registry_inv reg"
  shows "registry_inv (fst (snd (on_connection_lost user now_ms reg db)))"
proof -
  have "registry_inv (fst (snd (each_room (connection_lost_in_room user now_ms)
      (rooms_of_user user reg) reg db)))"
    by (rule each_of_users_rooms_inv [OF connection_lost_in_room_inv connection_lost_other assms])
  with assms show ?thesis
  by (auto simp: on_connection_lost_def Let_def split: prod.splits option.splits)
qed

lemma rejoin_in_room_inv:
  assumes inv: "registry_inv reg"
    and member: "\<And>rs. hm_get (rg_by_id reg) rid = Some rs \<Longrightarrow> has_live_record user rs"
  shows "registry_inv (fst (snd (rejoin_in_room user pk now_ms rid reg db)))"
proof (cases "hm_get (rg_by_id reg) rid")
  case None
  with inv show ?thesis by (simp add: rejoin_in_room_def get_by_id_def Let_def)
next
  case (Some rs)
  have room: "room_inv rs" using registry_room [OF inv Some] by simp
  let ?f = "\<lambda>p. p\<lparr>p_status := Connected, p_last_seen_ms := now_ms, p_pubkey := pk\<rparr>"
  have guest: "registry_inv (put_room rid (update_user user ?f rs) reg)"
  proof (rule put_same_room [OF inv Some], rule same_roomI)
    show "room_inv (update_user user ?f rs)"
      unfolding update_user_def by (rule update_first_inv [OF room]) auto
    show "live_count (update_user user ?f rs) \<le> live_count rs"
      using member [OF Some] room
      by (simp add: update_user_def live_count_def room_inv_def has_live_record_def list_ex_iff
          live_update_member)
  qed (simp_all add: update_user_def)
  have "registry_inv (put_room rid (host_mut ?f (rs\<lparr>rs_host_disconnect_deadline_ms := None\<rparr>)) reg)"
    if "hosts user rs"
  proof (rule put_same_room [OF inv Some], rule same_roomI)
    let ?rs0 = "rs\<lparr>rs_host_disconnect_deadline_ms := None\<rparr>"
    have "room_inv ?rs0" using room by simp
    then show "room_inv (host_mut ?f ?rs0)"
      unfolding host_mut_def by (rule update_first_inv) auto
    obtain q where q: "q \<in> set (rs_participants rs)" "p_user_id q = user" "live q"
      using member [OF Some] by (auto simp: has_live_record_def list_ex_iff)
    from that obtain p where p: "find p_is_host (rs_participants rs) = Some p" "p_user_id p = user"
      by (auto simp: host_hosts host_def)
    then have "p = q"
      using distinct_user_eq [of "rs_participants rs" p q] find_SomeD [OF p(1)] q room
      by (simp add: room_inv_def)
    from update_first_find [OF p(1), of ?f] obtain us vs where
      "rs_participants rs = us @ p # vs" "update_first p_is_host ?f (rs_participants rs) = us @ ?f p # vs"
      by blast
    with \<open>p = q\<close> q(3) show "live_count (host_mut ?f ?rs0) \<le> live_count rs"
      by (simp add: host_mut_def live_count_def)
  qed (simp_all add: host_mut_def)
  note reseated = this
  show ?thesis
    using inv guest reseated Some
    by (auto simp: rejoin_in_room_def get_by_id_def Let_def publish_inv split: sum.split prod.split)
qed

lemma rejoin_inv:
  assumes "registry_inv reg"
  shows "registry_inv (fst (snd (rejoin user pk now_ms reg db)))"
proof -
  have "registry_inv (fst (snd (each_room (rejoin_in_room user pk now_ms)
      (rooms_of_user user reg) reg db)))"
    by (rule each_of_users_rooms_inv [OF rejoin_in_room_inv rejoin_in_room_other assms])
  with assms show ?thesis
  by (auto simp: rejoin_def Let_def split: prod.splits option.splits)
qed

lemma touch_inv:
  assumes inv: "registry_inv reg"
  shows "registry_inv (touch user now_ms reg)"
proof (cases "find (\<lambda>(_, rs). list_ex (\<lambda>p. p_user_id p = user) (rs_participants rs)) (rg_by_id reg)")
  case None
  with inv show ?thesis by (simp add: touch_def)
next
  case (Some e)
  obtain rid rs where e: "e = (rid, rs)" by (cases e)
  from find_SomeD [OF Some] have rs: "hm_get (rg_by_id reg) rid = Some rs"
    using inv by (simp add: e registry_inv_def hm_get_Some_iff)
  have "same_room rs (update_user user (\<lambda>p. let p' = p\<lparr>p_last_seen_ms := now_ms\<rparr>
      in if \<not> p_is_host p' \<and> p_status p' = Disconnected then p'\<lparr>p_status := Connected\<rparr> else p') rs)"
    unfolding update_user_def
    by (rule update_first_same) (use registry_room [OF inv rs] in \<open>auto simp: Let_def\<close>)
  then show ?thesis using Some e by (simp add: touch_def put_same_room [OF inv rs])
qed

lemma cap_set_inv:
  assumes inv: "registry_inv reg"
  shows "registry_inv (snd (update_participant_cap_set rid target caps reg))"
proof (cases "hm_get (rg_by_id reg) rid")
  case None
  with inv show ?thesis by (simp add: update_participant_cap_set_def get_by_id_def)
next
  case (Some rs)
  have "same_room rs (update_live_user target (\<lambda>p. p\<lparr>p_cap_set := caps\<rparr>) rs)"
    unfolding update_live_user_def
    by (rule update_first_same) (use registry_room [OF inv Some] in auto)
  with inv Some put_same_room [OF inv Some] show ?thesis
    by (simp add: update_participant_cap_set_def get_by_id_def)
qed

subsection \<open>The ticks\<close>

lemma map_rooms_inv:
  assumes inv: "registry_inv reg"
    and f: "\<And>rid rs. hm_get (rg_by_id reg) rid = Some rs \<Longrightarrow> same_room rs (f rs)"
  shows "registry_inv (reg\<lparr>rg_by_id := hm_map_values f (rg_by_id reg)\<rparr>)"
  unfolding registry_inv_def
proof (intro conjI allI impI)
  fix rid rs
  assume "hm_get (rg_by_id (reg\<lparr>rg_by_id := hm_map_values f (rg_by_id reg)\<rparr>)) rid = Some rs"
  then obtain rs0 where rs0: "hm_get (rg_by_id reg) rid = Some rs0" "rs = f rs0" by auto
  note same = f [OF rs0(1), folded rs0(2), unfolded same_room_def]
  note room = registry_room [OF inv rs0(1)]
  note code = registry_code [OF inv rs0(1)]
  show "rs_id rs = rid" "room_inv rs" using same room by simp_all
  show "live_count rs \<le> room_limit (reg\<lparr>rg_by_id := hm_map_values f (rg_by_id reg)\<rparr>)"
    using same room by simp
  show "hm_get (rg_by_code (reg\<lparr>rg_by_id := hm_map_values f (rg_by_id reg)\<rparr>)) (rs_code rs) = Some rid"
    using same code by simp
next
  fix code rid
  assume "hm_get (rg_by_code (reg\<lparr>rg_by_id := hm_map_values f (rg_by_id reg)\<rparr>)) code = Some rid"
  then obtain rs0 where "hm_get (rg_by_id reg) rid = Some rs0" "rs_code rs0 = code"
    using registry_code_room [OF inv, of code rid] by auto
  with f show "\<exists>rs. hm_get (rg_by_id (reg\<lparr>rg_by_id := hm_map_values f (rg_by_id reg)\<rparr>)) rid = Some rs
      \<and> rs_code rs = code"
    by (auto simp: same_room_def)
qed (use inv in \<open>auto simp: registry_inv_def\<close>)

lemma visited_rooms:
  "map (\<lambda>(rid, _, rs). (rid, rs)) (map (\<lambda>(rid, rs). (rid, visit rs)) m) = hm_map_values (snd \<circ> visit) m"
  by (induction m) (auto simp: split_beta)

lemma sweep_rooms:
  "rg_by_id (snd (sweep visit reg)) = hm_map_values (snd \<circ> visit) (rg_by_id reg)"
  unfolding sweep_def Let_def snd_conv visited_rooms by simp

lemma sweep_inv:
  assumes "registry_inv reg"
    and "\<And>rid rs. hm_get (rg_by_id reg) rid = Some rs \<Longrightarrow> same_room rs (snd (visit rs))"
  shows "registry_inv (snd (sweep visit reg))"
  unfolding sweep_def Let_def snd_conv visited_rooms
  by (intro publish_all_inv map_rooms_inv) (simp_all add: assms)

lemma presence_same: "room_inv rs \<Longrightarrow> same_room rs (snd (presence_room config now_ms rs))"
proof -
  assume inv: "room_inv rs"
  let ?f = "\<lambda>p. if presence_expired config now_ms p then p\<lparr>p_status := Disconnected\<rparr> else p"
  have hosts: "filter p_is_host (map ?f ps) = filter p_is_host ps" for ps
    by (induction ps) (auto simp: presence_expired_def)
  have lives: "length (filter live (map ?f ps)) = length (filter live ps)" for ps
    by (induction ps) (auto simp: presence_expired_def)
  have users: "map p_user_id (map ?f ps) = map p_user_id ps" for ps
    by (induction ps) auto
  have "distinct (map p_user_id (map ?f (rs_participants rs)))"
    using inv by (simp only: users room_inv_def)
  moreover have "one_host (map ?f (rs_participants rs))" if "rs_state rs \<noteq> Ended"
  proof -
    have "one_host (rs_participants rs)" using inv that by (simp add: room_inv_def)
    then show ?thesis by (simp only: one_host_def hosts)
  qed
  ultimately have "room_inv (rs\<lparr>rs_participants := map ?f (rs_participants rs)\<rparr>)"
    by (intro room_inv_intro [OF inv]) simp_all
  moreover have "live_count (rs\<lparr>rs_participants := map ?f (rs_participants rs)\<rparr>) = live_count rs"
    using lives by (simp add: live_count_def)
  ultimately show ?thesis
    using inv by (simp add: presence_room_def Let_def same_room_def)
qed

lemma stale_same: "room_inv rs \<Longrightarrow> same_room rs (snd (stale_room config now_ms rs))"
proof -
  assume inv: "room_inv rs"
  define ps where "ps = rs_participants (snd (stale_room config now_ms rs))"
  obtain Q where Q: "ps = filter Q (rs_participants rs)" "\<And>p. p_is_host p \<Longrightarrow> Q p"
  proof (cases "rs_state rs = Ended \<or> rs_host_disconnect_deadline_ms rs \<noteq> None")
    case True
    with that [of "\<lambda>_. True"] show thesis by (simp add: ps_def stale_room_def)
  next
    case False
    show thesis
      by (rule that [of "\<lambda>p. (p_is_host p \<or> p_status p \<noteq> Left \<or> \<not> silent config now_ms p)
          \<and> \<not> (\<not> (p_is_host p \<or> p_status p = Left) \<and> silent config now_ms p)"])
        (use False in \<open>auto simp: ps_def stale_room_def Let_def intro!: filter_cong\<close>)
  qed
  have hosts: "filter p_is_host (filter Q qs) = filter p_is_host qs" for qs
    using Q(2) by (induction qs) auto
  have "live_count rs' \<le> live_count rs" if "rs_participants rs' = filter Q (rs_participants rs)" for rs'
  proof -
    have "length (filter live (filter Q qs)) \<le> length (filter live qs)" for qs by (induction qs) auto
    with that show ?thesis by (simp add: live_count_def)
  qed
  moreover have "room_inv rs'" if "rs_participants rs' = filter Q (rs_participants rs)"
    "rs_drawing rs' = rs_drawing rs" "rs_playback rs' = rs_playback rs" "rs_state rs' = rs_state rs" for rs'
    by (rule room_inv_intro [OF inv that(2,3)])
      (use inv that in \<open>simp_all add: hosts one_host_def room_inv_def distinct_map_filter del: filter_filter\<close>)
  ultimately show ?thesis
    using Q(1) inv by (intro same_roomI) (simp_all add: ps_def stale_room_def Let_def)
qed

lemma grace_same:
  "room_inv rs \<Longrightarrow> same_room rs (snd (process_room_grace rs now_ms))"
  by (auto simp: process_room_grace_def try_migrate_host_def Let_def same_room_def live_count_def
      intro: ended_room_inv split: option.split)

lemma end_and_remove_inv:
  "registry_inv (fst s) \<Longrightarrow> registry_inv (fst (fold (end_and_remove now_ms) rids s))"
  by (induction rids arbitrary: s) (auto simp: end_and_remove_def remove_room_inv)

lemma tick_grace_inv:
  assumes "registry_inv reg"
  shows "registry_inv (fst (snd (tick_grace now_ms reg db)))"
  unfolding tick_grace_def Let_def fst_conv snd_conv visited_rooms
  by (rule end_and_remove_inv, unfold fst_conv, rule publish_all_inv, rule map_rooms_inv [OF assms])
    (use registry_room [OF assms] grace_same in auto)

lemma tick_presence_inv:
  assumes "registry_inv reg"
  shows "registry_inv (snd (tick_presence_timeout now_ms reg))"
  unfolding tick_presence_timeout_def
  by (rule sweep_inv [OF assms]) (use registry_room [OF assms] presence_same in auto)

lemma tick_stale_inv:
  assumes "registry_inv reg"
  shows "registry_inv (fst (snd (tick_stale_participants now_ms reg db)))"
proof -
  have "registry_inv (snd (sweep (stale_room (rg_config reg) now_ms) reg))"
    by (rule sweep_inv [OF assms]) (use registry_room [OF assms] stale_same in auto)
  then show ?thesis by (simp add: tick_stale_participants_def Let_def split_beta)
qed

subsection \<open>Rehydration\<close>

text \<open>
  What the persisted rows must satisfy for a rebuilt room to be well formed: one row per user,
  at most one of them the host's, no row of the room's host id when none is; and no more seats
  than the maximum.
\<close>

definition rows_ok :: "nat \<Rightarrow> room_row \<Rightarrow> participant_row list \<Rightarrow> bool" where
  "rows_ok limit room rows \<longleftrightarrow>
     (let usable = filter (\<lambda>p. pr_status p \<noteq> ''left'' \<and> length (pr_pubkey p) = 32) rows
      in distinct (map pr_user_id rows) \<and> length (filter pr_is_host usable) \<le> 1
         \<and> (filter pr_is_host usable = [] \<longrightarrow> rr_host_user_id room \<notin> set (map pr_user_id usable))
         \<and> length (rebuilt_participants room rows) \<le> limit)"

lemma rebuilt_record_simps [simp]:
  "p_user_id (rebuilt_record d p) = pr_user_id p"
  "p_is_host (rebuilt_record d p) = pr_is_host p"
  "present (rebuilt_record d p) = pr_is_host p"
  "live (rebuilt_record d p)"
  by (auto simp: rebuilt_record_def)

lemma rebuilt_participants_ok:
  assumes "rows_ok limit room rows"
  shows "distinct (map p_user_id (rebuilt_participants room rows))
    \<and> one_host (rebuilt_participants room rows)"
proof -
  let ?us = "filter (\<lambda>p. pr_status p \<noteq> ''left'' \<and> length (pr_pubkey p) = 32) rows"
  let ?d = "rr_host_disconnect_deadline_ms room"
  have users: "distinct (map pr_user_id ?us)"
    using assms by (simp add: rows_ok_def Let_def distinct_map_filter)
  have hosts: "filter p_is_host (map (rebuilt_record ?d) us) = map (rebuilt_record ?d) (filter pr_is_host us)"
    for us by (induction us) auto
  show ?thesis
  proof (cases "filter pr_is_host ?us")
    case Nil
    then have none: "\<not> list_ex pr_is_host ?us" by (auto simp: filter_empty_conv list_ex_iff)
    moreover have "rr_host_user_id room \<notin> set (map pr_user_id ?us)"
      using assms Nil by (simp add: rows_ok_def Let_def)
    ultimately show ?thesis
      using users hosts [of ?us] Nil
      by (simp add: rebuilt_participants_def Let_def one_host_def o_def del: filter_filter)
  next
    case (Cons h hs)
    then have "h \<in> set (filter pr_is_host ?us)" by simp
    then have some: "list_ex pr_is_host ?us" and h: "pr_is_host h" by (auto simp: list_ex_iff)
    have "hs = []" using assms Cons by (simp add: rows_ok_def Let_def)
    with some Cons users hosts [of ?us] h show ?thesis
      by (simp add: rebuilt_participants_def Let_def one_host_def o_def del: filter_filter)
  qed
qed

lemma rehydrate_inv:
  assumes inv: "registry_inv reg" and rows: "rows_ok (room_limit reg) room rows"
    and new: "hm_get (rg_by_id reg) (rr_id room) = None" "hm_get (rg_by_code reg) (rr_code room) = None"
  shows "registry_inv (fst (snd (rehydrate cd clock_ms room rows db reg)))"
proof -
  let ?rs = "rehydrated_room clock_ms room rows"
  have "room_inv ?rs"
    using rebuilt_participants_ok [OF rows]
    by (simp add: room_inv_def rehydrated_room_def playback_inv_def playback_default_def strokes_inv_new)
  moreover have "live_count ?rs \<le> room_limit reg"
  proof -
    have "live_count ?rs \<le> length (rebuilt_participants room rows)"
      by (simp add: live_count_def rehydrated_room_def)
    with rows show ?thesis by (simp add: rows_ok_def Let_def)
  qed
  ultimately have reg1: "registry_inv (insert_room_state ?rs reg)"
    by (intro insert_room_state_inv [OF inv]) (simp_all add: new rehydrated_room_def)
  have "hm_get (rg_by_id (insert_room_state ?rs reg)) (rr_id room) \<noteq> None"
    by (simp add: insert_room_state_def rehydrated_room_def)
  from put_manifest_inv [OF reg1 this] reg1 inv show ?thesis
    by (auto simp: rehydrate_def Let_def split: option.split prod.split sum.split)
qed

section \<open>What leaving does\<close>

lemma live_record_None: "live_record u rs = None \<longleftrightarrow> (\<forall>q \<in> set (rs_participants rs). p_user_id q = u \<longrightarrow> p_status q = Left)"
  by (auto simp: live_record_def find_None_iff_all)

lemma reseat_left_gone:
  assumes "room_inv rs" and "live_record u rs = Some p"
  shows "live_record u (reseat u t Left rs) = None"
proof -
  have "distinct (map p_user_id (rs_participants rs))" using assms(1) by (simp add: room_inv_def)
  note seats = reseat_participants [OF this assms(2), of t Left]
  have "p_status q = Left" if q: "q \<in> set (rs_participants (reseat u t Left rs))" "p_user_id q = u" for q
  proof -
    from q(1) obtain r where "q = (if p_user_id r = u then r\<lparr>p_last_seen_ms := t, p_status := Left\<rparr> else r)"
      unfolding seats set_map by (rule imageE)
    with q(2) show ?thesis by (cases "p_user_id r = u") simp_all
  qed
  then show ?thesis by (simp add: live_record_None)
qed

lemma reseat_guest_host:
  assumes "room_inv rs" and "live_record u rs = Some p" and "\<not> p_is_host p"
  shows "host (reseat u t st rs) = host rs"
proof -
  have d: "distinct (map p_user_id (rs_participants rs))" using assms(1) by (simp add: room_inv_def)
  let ?f = "\<lambda>q. if p_user_id q = u then q\<lparr>p_last_seen_ms := t, p_status := st\<rparr> else q"
  have guest: "\<forall>q \<in> set (rs_participants rs). p_user_id q = u \<longrightarrow> \<not> p_is_host q"
    using find_distinct_user [OF d assms(2) [unfolded live_record_def]] assms(3) by blast
  have "find p_is_host (map ?f qs) = find p_is_host qs"
    if "\<forall>q \<in> set qs. p_user_id q = u \<longrightarrow> \<not> p_is_host q" for qs
    using that by (induction qs) auto
  with guest show ?thesis by (simp add: host_def reseat_participants [OF d assms(2)])
qed

lemma find_one_filter: "filter P xs = [x] \<Longrightarrow> find P xs = Some x"
  by (induction xs) (auto split: if_splits)

lemma reseat_host_host:
  assumes "room_inv rs" and "rs_state rs \<noteq> Ended" and "live_record u rs = Some p" and "p_is_host p"
  shows "host (reseat u t st rs) = Some (p\<lparr>p_last_seen_ms := t, p_status := st\<rparr>)"
proof -
  have d: "distinct (map p_user_id (rs_participants rs))" using assms(1) by (simp add: room_inv_def)
  have p: "p \<in> set (rs_participants rs)" "p_user_id p = u"
    using assms(3) by (auto simp: live_record_def dest: find_SomeD)
  let ?f = "\<lambda>q. if p_user_id q = u then q\<lparr>p_last_seen_ms := t, p_status := st\<rparr> else q"
  obtain h where h: "filter p_is_host (rs_participants rs) = [h]"
    using room_inv_host [OF assms(1,2)] by blast
  have "p \<in> set (filter p_is_host (rs_participants rs))" using p assms(4) by simp
  then have "h = p" by (simp add: h)
  have map_f: "filter p_is_host (map ?f qs) = map ?f (filter p_is_host qs)" for qs
    by (induction qs) auto
  from h \<open>h = p\<close> p have "filter p_is_host (rs_participants (reseat u t st rs))
      = [p\<lparr>p_last_seen_ms := t, p_status := st\<rparr>]"
    by (simp only: reseat_participants [OF d assms(3)] map_f) simp
  then show ?thesis by (simp add: host_def find_one_filter)
qed

lemma live_record_promote:
  "live_record u (rs\<lparr>rs_participants := map (promote c) (rs_participants rs), rs_host_user_id := x\<rparr>) = None
     \<longleftrightarrow> live_record u rs = None"
  by (auto simp: live_record_None)

text \<open>The host after an election is the promoted candidate.\<close>

lemma elected_host:
  assumes "room_inv rs" and "c \<in> set (rs_participants rs)" and "present c"
  shows "find p_is_host (map (promote (p_user_id c)) (rs_participants rs))
    = Some (c\<lparr>p_is_host := True, p_cap_set := HOST\<rparr>)"
proof -
  have d: "distinct (map p_user_id (rs_participants rs))" using assms(1) by (simp add: room_inv_def)
  from one_host_elected [OF d assms(2,3)]
  have "filter p_is_host (map (promote (p_user_id c)) (rs_participants rs)) = [promote (p_user_id c) c]"
    by blast
  moreover have "promote (p_user_id c) c = c\<lparr>p_is_host := True, p_cap_set := HOST\<rparr>"
    by (simp add: promote_def)
  ultimately show ?thesis by (simp only: find_one_filter)
qed

definition leave_closes :: "participant_record \<Rightarrow> bool \<Rightarrow> room_state \<Rightarrow> bool" where
  "leave_closes p intentional rs \<longleftrightarrow> p_is_host p
     \<and> (\<not> rs_host_migration_enabled rs \<or> intentional \<and> candidates rs = [])"

text \<open>The room a leave keeps open, by who left and why.\<close>

definition leave_result ::
    "registry_config \<Rightarrow> uuid \<Rightarrow> bool \<Rightarrow> millis \<Rightarrow> participant_record \<Rightarrow> room_state \<Rightarrow> room_state \<Rightarrow> bool" where
  "leave_result config user intentional now_ms p rs rs' \<longleftrightarrow> rs_state rs' = rs_state rs
     \<and> (\<not> p_is_host p \<longrightarrow> live_record user rs' = None \<and> host rs' = host rs)
     \<and> (p_is_host p \<and> intentional \<longrightarrow> live_record user rs' = None
          \<and> (\<exists>c \<in> set (candidates rs). (\<forall>q \<in> set (candidates rs). seniority c \<le> seniority q)
               \<and> host rs' = Some (c\<lparr>p_is_host := True, p_cap_set := HOST\<rparr>)))
     \<and> (p_is_host p \<and> \<not> intentional \<longrightarrow>
          rs_host_disconnect_deadline_ms rs' = Some (i64_wrap (now_ms + cfg_host_disconnect_grace_ms config))
          \<and> has_live_record user rs'
          \<and> (0 < cfg_host_disconnect_grace_ms config \<longrightarrow>
               host rs' = Some (p\<lparr>p_last_seen_ms := now_ms, p_status := Reconnecting\<rparr>)))"

lemma elect_has_live:
  "elect_new_host rs = (h, rs') \<Longrightarrow> has_live_record u rs' = has_live_record u rs
     \<and> rs_state rs' = rs_state rs
     \<and> rs_host_disconnect_deadline_ms rs' = rs_host_disconnect_deadline_ms rs"
proof (cases rule: elect_new_host_cases [of rs])
  case (elected c)
  assume "elect_new_host rs = (h, rs')"
  with elected have rs': "rs' = rs\<lparr>rs_participants := map (promote (p_user_id c)) (rs_participants rs),
      rs_host_user_id := p_user_id c\<rparr>" by simp
  show ?thesis
    by (simp only: rs' has_live_record_iff live_record_promote) simp
qed simp

lemma reseat_still_live:
  assumes "room_inv rs" and "live_record u rs = Some p" and "st \<noteq> Left"
  shows "has_live_record u (reseat u t st rs)"
proof -
  have d: "distinct (map p_user_id (rs_participants rs))" using assms(1) by (simp add: room_inv_def)
  have "p \<in> set (rs_participants rs)" "p_user_id p = u"
    using assms(2) by (auto simp: live_record_def dest: find_SomeD)
  then have "(\<lambda>q. if p_user_id q = u then q\<lparr>p_last_seen_ms := t, p_status := st\<rparr> else q) p
      \<in> set (rs_participants (reseat u t st rs))"
    unfolding reseat_participants [OF d assms(2)] set_map by (intro imageI)
  with \<open>p_user_id p = u\<close> show ?thesis
    unfolding has_live_record_def list_ex_iff
    by (intro bexI [of _ "p\<lparr>p_last_seen_ms := t, p_status := st\<rparr>"]) (simp_all add: assms(3))
qed

lemma leave_locked_result:
  assumes inv: "room_inv rs" and open_room: "rs_state rs \<noteq> Ended" and p: "live_record u rs = Some p"
    and l: "leave_locked config u intentional now_ms p rs = (events, out, rs')"
  shows "if leave_closes p intentional rs then rs_state rs' = Ended
    else leave_result config u intentional now_ms p rs rs'"
  using inv p l
proof (cases rule: leave_locked_cases)
  case guest
  then show ?thesis
    using reseat_left_gone [OF inv p] reseat_guest_host [OF inv p]
    by (simp add: leave_closes_def leave_result_def)
next
  case (closed reason)
  then show ?thesis by (simp add: leave_closes_def)
next
  case (migrated c)
  have d: "distinct (map p_user_id (rs_participants (reseat u now_ms Left rs)))"
    using inv by (simp add: room_inv_def)
  have "c \<in> set (candidates (reseat u now_ms Left rs))"
    using migrated(1,5) candidates_reseat [OF inv p] by simp
  then have c: "c \<in> set (rs_participants (reseat u now_ms Left rs))" "present c"
    by (auto simp: candidates_def)
  from one_host_elected [OF d c] have "host rs' = Some (promote (p_user_id c) c)"
    by (simp add: host_def migrated(7) find_one_filter)
  moreover have "promote (p_user_id c) c = c\<lparr>p_is_host := True, p_cap_set := HOST\<rparr>"
    by (simp add: promote_def)
  moreover have "live_record u rs' = None"
    using reseat_left_gone [OF inv p, of now_ms] by (simp only: migrated(7) live_record_promote)
  moreover have "candidates rs \<noteq> []" using migrated(5) by auto
  ultimately show ?thesis
    using migrated by (auto simp: leave_closes_def leave_result_def)
next
  case (grace rs1 nh)
  have live: "has_live_record u rs1"
    using reseat_still_live [OF inv p, of Reconnecting now_ms]
    by (simp add: grace(5) has_live_record_def)
  have h: "host rs1 = Some (p\<lparr>p_last_seen_ms := now_ms, p_status := Reconnecting\<rparr>)"
    using reseat_host_host [OF inv open_room p grace(1), of now_ms Reconnecting]
    by (simp add: grace(5) host_def)
  have "elect_new_host rs1 = (nh, rs') \<or> rs' = rs1 \<and> 0 < cfg_host_disconnect_grace_ms config"
    using grace(6) by (auto split: if_splits)
  moreover have "rs' = rs1" if "0 < cfg_host_disconnect_grace_ms config"
    using grace(6) that by simp
  ultimately show ?thesis
    using elect_has_live [of rs1 nh rs' u] live h grace
    by (auto simp: leave_closes_def leave_result_def)
qed

lemma leave_publish_locked:
  fixes reg :: "'m registry"
  assumes "leave_publish rid user intentional now_ms p rs reg db = (events, rs', reg', db')"
  shows "\<exists>out. leave_locked (rg_config reg) user intentional now_ms p rs = (events, out, rs')
    \<and> reg' = publish_all (map (\<lambda>e. (rid, event_to_broadcast_item e rid (Some user))) events)
               (put_room rid rs' reg)"
proof -
  obtain evs out rs2 where
    "leave_locked (rg_config reg) user intentional now_ms p rs = (evs :: 'm room_event list, out, rs2)"
    by (metis prod_cases3)
  with assms show ?thesis by (auto simp: leave_publish_def Let_def)
qed

lemma channel_publish_all:
  "channel rid (publish_all (map (Pair rid) items) reg) = map_option (\<lambda>sent. sent @ items) (channel rid reg)"
  unfolding publish_all_def
  by (induction items arbitrary: reg) (simp_all add: channel_publish option.map_comp o_def option.map_ident)

lemma remove_room_gone:
  assumes "hm_get (rg_by_id reg) rid = Some rs"
  shows "get_by_id rid (remove_room rid reg) = None"
    and "get_by_code (rs_code rs) (remove_room rid reg) = None"
    and "channel rid (remove_room rid reg) = None"
    and "current_manifest rid (remove_room rid reg) = None"
  using assms by (simp_all add: remove_room_def get_by_id_def get_by_code_def channel_def
      current_manifest_def Let_def)

section \<open>Properties\<close>

text \<open>
  C6: a leave is either refused and changes nothing, or concerns one live room in which the
  user holds a seat (the one they named, if any) and no other room. The room is closed, and
  forgotten with its code, channel and manifest, exactly when its host leaves and nobody can
  take over: migration is off, or the host leaves on purpose and there is no candidate.
  Otherwise it stays: a departing guest's seat is closed and the host is unchanged; a host who
  leaves on purpose is replaced by the most senior candidate; a host who lost the transport
  keeps the seat, with a deadline one grace period ahead. The events returned were published.
\<close>

theorem leave_room_spec:
  assumes inv: "registry_inv reg"
    and l: "leave_room user wanted intentional now_ms reg db = (res, reg', db')"
  shows "case res of
      Inl e \<Rightarrow> e = NotJoined \<and> reg' = reg \<and> db' = db
    | Inr (events, summary) \<Rightarrow> \<exists>rid rs p. get_by_id rid reg = Some rs \<and> rs_state rs \<noteq> Ended
        \<and> live_record user rs = Some p \<and> (\<forall>w. wanted = Some w \<longrightarrow> w = rid)
        \<and> (\<forall>x. x \<noteq> rid \<longrightarrow> get_by_id x reg' = get_by_id x reg)
        \<and> (if leave_closes p intentional rs
           then summary = None \<and> get_by_id rid reg' = None \<and> get_by_code (rs_code rs) reg' = None
             \<and> channel rid reg' = None \<and> current_manifest rid reg' = None
           else \<exists>rs'. get_by_id rid reg' = Some rs' \<and> summary = Some (snapshot rs')
             \<and> leave_result (rg_config reg) user intentional now_ms p rs rs'
             \<and> channel rid reg' = map_option (\<lambda>sent. sent @
                  map (\<lambda>e. event_to_broadcast_item e rid (Some user)) events) (channel rid reg))"
  using inv l
proof (cases rule: leave_room_cases)
  case refused
  then show ?thesis by simp
next
  case (left rid rs p events rs' reg1)
  from leave_publish_locked [OF left(5)] obtain out where
    locked: "leave_locked (rg_config reg) user intentional now_ms p rs = (events, out, rs')" and
    reg1: "reg1 = publish_all (map (\<lambda>e. (rid, event_to_broadcast_item e rid (Some user))) events)
      (put_room rid rs' reg)" by blast
  have room: "room_inv rs" "rs_code rs' = rs_code rs"
    using registry_room [OF inv left(1)] leave_locked_same [OF _ left(2) locked]
    by (simp_all add: same_room_def)
  note result = leave_locked_result [OF room(1) left(3,2) locked]
  have "map (\<lambda>e. (rid, event_to_broadcast_item e rid (Some user))) events
      = map (Pair rid) (map (\<lambda>e. event_to_broadcast_item e rid (Some user)) events)" by simp
  then have sent: "channel rid reg1 = map_option (\<lambda>sent. sent @
      map (\<lambda>e. event_to_broadcast_item e rid (Some user)) events) (channel rid reg)"
    unfolding reg1 by (simp only: channel_publish_all put_room_simps)
  have rooms: "hm_get (rg_by_id reg1) x = (if x = rid then Some rs' else hm_get (rg_by_id reg) x)" for x
    by (simp add: reg1)
  show ?thesis
  proof (cases "leave_closes p intentional rs")
    case True
    then have ended: "rs_state rs' = Ended" using result by simp
    have "hm_get (rg_by_id reg1) rid = Some rs'" by (simp add: rooms)
    from remove_room_gone [OF this] show ?thesis
      using left True ended room(2) rooms by (auto simp: get_by_id_def)
  next
    case False
    then have r: "leave_result (rg_config reg) user intentional now_ms p rs rs'" using result by simp
    then have "rs_state rs' \<noteq> Ended" using left(3) by (simp add: leave_result_def)
    then show ?thesis using left False r rooms sent by (auto simp: get_by_id_def)
  qed
qed

theorem leave_room_spec_witness:
  "\<exists>events. fst (leave_room 7 None True 5 (example_registry :: nat registry) example_db) = Inr (events, None)
     \<and> get_by_id 1 (fst (snd (leave_room 7 None True 5 (example_registry :: nat registry) example_db))) = None"
proof -
  let ?l = "leave_room 7 None True 5 (example_registry :: nat registry) example_db"
  obtain r where r: "fst ?l = Inr r"
    by (simp add: leave_room_def leave_target_def example_registry_def insert_room_state_def
        registry_new_def room_state_new_def has_live_record_def live_record_def leave_publish_def
        leave_locked_def elect_new_host_def candidates_def update_live_user_def)
  obtain events summary where es: "r = (events, summary)" by (cases r)
  have "?l = (fst ?l, fst (snd ?l), snd (snd ?l))" by simp
  from leave_room_spec [OF example_registry_inv this] obtain rid rs p where
    rs: "get_by_id rid (example_registry :: nat registry) = Some rs" "live_record 7 rs = Some p" and
    res: "leave_closes p True rs \<Longrightarrow> summary = None \<and> get_by_id rid (fst (snd ?l)) = None"
    unfolding r es by auto
  have rid: "rid = 1" "rs = room_state_new 1 (ascii ''ABCDEF'') [] 7 [] True 0 HOST 0"
    using rs(1) by (auto simp: get_by_id_def example_registry_def insert_room_state_def registry_new_def
        split: if_splits)
  have "leave_closes p True rs"
    using rs(2) by (auto simp: rid room_state_new_def live_record_def leave_closes_def candidates_def)
  with res r es rid show ?thesis by auto
qed


text \<open>The seat of a user splits the list of records.\<close>

lemma seat_split:
  assumes "distinct (map p_user_id (rs_participants rs))" and "live_record u rs = Some p"
  obtains us vs where "rs_participants rs = us @ p # vs" "p_user_id p = u" "live p"
    "\<forall>q \<in> set us \<union> set vs. p_user_id q \<noteq> u"
proof -
  from assms(2) have p: "p \<in> set (rs_participants rs)" "p_user_id p = u" "live p"
    by (auto simp: live_record_def dest: find_SomeD)
  from p(1) obtain us vs where ps: "rs_participants rs = us @ p # vs" by (metis split_list)
  have "p_user_id p \<notin> p_user_id ` (set us \<union> set vs)"
    using assms(1) by (auto simp: ps)
  then have "\<forall>q \<in> set us \<union> set vs. p_user_id q \<noteq> p_user_id p" by (metis image_eqI)
  with ps p that show thesis by simp
qed

lemma update_first_split:
  "\<forall>q \<in> set us. \<not> P q \<Longrightarrow> P p \<Longrightarrow> update_first P f (us @ p # vs) = us @ f p # vs"
  by (induction us) auto

lemma find_split: "\<forall>q \<in> set us. \<not> P q \<Longrightarrow> P p \<Longrightarrow> find P (us @ p # vs) = Some p"
  by (induction us) auto

lemma live_record_split:
  "rs_participants rs = us @ p # vs \<Longrightarrow> \<forall>q \<in> set us. p_user_id q \<noteq> u \<Longrightarrow> p_user_id p = u \<Longrightarrow> live p \<Longrightarrow>
     live_record u rs = Some p"
  unfolding live_record_def by (simp add: find_split)

lemma hosts_seat:
  assumes "room_inv rs" and "rs_state rs \<noteq> Ended" and "live_record u rs = Some p"
  shows "hosts u rs \<longleftrightarrow> p_is_host p" and "p_is_host p \<Longrightarrow> host rs = Some p"
proof -
  have p: "p \<in> set (rs_participants rs)" "p_user_id p = u"
    using assms(3) by (auto simp: live_record_def dest: find_SomeD)
  show h: "host rs = Some p" if "p_is_host p"
  proof -
    obtain h where h: "filter p_is_host (rs_participants rs) = [h]"
      using room_inv_host [OF assms(1,2)] by blast
    have "p \<in> set (filter p_is_host (rs_participants rs))" using p that by simp
    with h show ?thesis by (simp add: host_def find_one_filter)
  qed
  show "hosts u rs \<longleftrightarrow> p_is_host p"
  proof
    assume "hosts u rs"
    then obtain h where q: "host rs = Some h" "p_user_id h = u" by (auto simp: host_hosts)
    then have "h \<in> set (rs_participants rs)" "p_is_host h" by (auto simp: host_def dest: find_SomeD)
    with p q(2) assms(1) show "p_is_host p" by (auto simp: room_inv_def dest: distinct_user_eq)
  next
    assume "p_is_host p"
    with h p show "hosts u rs" by (simp add: host_hosts)
  qed
qed

text \<open>
  A user who comes back gets their own seat again, connected and seen now, whatever the
  room is doing, or, when the store fails, nothing changes in memory. If they host the room and
  it was in its grace period, the deadline is cleared, so that no later tick closes the room,
  they are still the host, and HOST_RECONNECTED is published. No other seat or room changes.
\<close>

theorem rejoin_in_room_spec:
  assumes inv: "registry_inv reg" and rs: "get_by_id rid reg = Some rs"
    and open_room: "rs_state rs \<noteq> Ended" and p: "live_record user rs = Some p"
    and r: "rejoin_in_room user pubkey now_ms rid reg db = (res, reg', db')"
  shows "case res of
      Inl e \<Rightarrow> reg' = reg
    | Inr events \<Rightarrow> \<exists>rs'. get_by_id rid reg' = Some rs'
        \<and> live_record user rs' = Some (p\<lparr>p_status := Connected, p_last_seen_ms := now_ms, p_pubkey := pubkey\<rparr>)
        \<and> filter (\<lambda>q. p_user_id q \<noteq> user) (rs_participants rs')
            = filter (\<lambda>q. p_user_id q \<noteq> user) (rs_participants rs)
        \<and> (\<forall>x. x \<noteq> rid \<longrightarrow> get_by_id x reg' = get_by_id x reg)
        \<and> (if p_is_host p \<and> host_disconnected rs
           then events = [EvHostReconnected user] \<and> (\<forall>t. fst (process_room_grace rs' t :: 'm room_event option \<times> room_state) = None)
             \<and> map_option p_user_id (host rs') = Some user
             \<and> channel rid reg' = map_option (\<lambda>sent. sent @
                 [event_to_broadcast_item (EvHostReconnected user) rid (Some user)]) (channel rid reg)
           else events = [] \<and> channel rid reg' = channel rid reg
             \<and> rs_host_disconnect_deadline_ms rs' = rs_host_disconnect_deadline_ms rs)"
proof -
  have room: "room_inv rs" using registry_room [OF inv] rs by (simp add: get_by_id_def)
  then have d: "distinct (map p_user_id (rs_participants rs))" by (simp add: room_inv_def)
  obtain us vs where ps: "rs_participants rs = us @ p # vs" "p_user_id p = user" "live p"
    and others: "\<forall>q \<in> set us \<union> set vs. p_user_id q \<noteq> user"
    by (rule seat_split [OF d p])
  let ?f = "\<lambda>p. p\<lparr>p_status := Connected, p_last_seen_ms := now_ms, p_pubkey := pubkey\<rparr>"
  note hosting = hosts_seat [OF room open_room p]
  have seat: "live_record user rs' = Some (?f p) \<and> filter (\<lambda>q. p_user_id q \<noteq> user) (rs_participants rs')
      = filter (\<lambda>q. p_user_id q \<noteq> user) (rs_participants rs)"
    if "rs_participants rs' = us @ ?f p # vs" for rs'
    using that others ps by (auto intro!: live_record_split simp: ps(1))
  have upd: "rs_participants (update_user user ?f rs) = us @ ?f p # vs"
    using others ps by (simp add: update_user_def update_first_split)
  have front: "\<forall>q \<in> set us. \<not> p_is_host q" if "p_is_host p"
  proof -
    obtain h where "filter p_is_host (rs_participants rs) = [h]"
      using room_inv_host [OF room open_room] by blast
    with that ps(1) show ?thesis by (auto simp: filter_empty_conv append_eq_Cons_conv)
  qed
  show ?thesis
  proof (cases "p_is_host p \<and> host_disconnected rs")
    case True
    let ?rs' = "host_mut ?f (rs\<lparr>rs_host_disconnect_deadline_ms := None\<rparr>)"
    have parts: "rs_participants ?rs' = us @ ?f p # vs"
      using front True by (simp add: host_mut_def ps(1) update_first_split)
    have "host ?rs' = Some (?f p)" using front True by (simp add: host_def parts find_split)
    then have hst: "map_option p_user_id (host ?rs') = Some user" by (simp add: ps(2))
    have grace: "\<forall>t. fst (process_room_grace ?rs' t :: 'm room_event option \<times> room_state) = None"
      by (simp add: process_room_grace_def host_mut_def)
    have "hosts user rs" using True hosting(1) by blast
    then show ?thesis
      using r rs True seat [OF parts] hst grace
      by (auto simp: rejoin_in_room_def Let_def get_by_id_def channel_publish split: sum.splits prod.splits)
  next
    case False
    then have "\<not> (hosts user rs \<and> host_disconnected rs)" using hosting by blast
    then show ?thesis
      using r rs False seat [OF upd]
      by (auto simp: rejoin_in_room_def Let_def get_by_id_def update_user_def split: sum.splits prod.splits)
  qed
qed

theorem rejoin_in_room_spec_witness:
  "\<exists>rs'. get_by_id 1 (fst (snd (rejoin_in_room 7 [] 9 1 (example_registry :: nat registry) example_db))) = Some rs'
     \<and> map_option p_last_seen_ms (live_record 7 rs') = Some 9"
proof -
  let ?room = "room_state_new 1 (ascii ''ABCDEF'') [] 7 [] True 0 HOST 0"
  let ?r = "rejoin_in_room 7 [] 9 1 (example_registry :: nat registry) example_db"
  have room: "get_by_id 1 (example_registry :: nat registry) = Some ?room"
    by (simp add: get_by_id_def example_registry_def insert_room_state_def)
  obtain p where p: "live_record 7 ?room = Some p" by (simp add: room_state_new_def live_record_def)
  obtain events where ok: "fst ?r = Inr events"
    unfolding rejoin_in_room_def room Let_def
    by (simp add: hosts_def host_def room_state_new_def host_disconnected_def
        db_update_participant_status_def attempt_def example_db_def)
  have "?r = (fst ?r, fst (snd ?r), snd (snd ?r))" by simp
  from rejoin_in_room_spec [OF example_registry_inv room _ p this] show ?thesis
    by (auto simp: ok room_state_new_def)
qed

lemma sweep_get:
  "get_by_id rid (snd (sweep visit reg)) = map_option (\<lambda>rs. snd (visit rs)) (get_by_id rid reg)"
  by (simp add: get_by_id_def sweep_rooms o_def)

lemma sweep_events:
  "(rid, e) \<in> set (fst (sweep visit reg)) \<longleftrightarrow>
     (\<exists>rs. (rid, rs) \<in> set (rg_by_id reg) \<and> (\<exists>p \<in> set (fst (visit rs)). e = timeout_event p))"
proof -
  have "(rid, e) \<in> set (concat (map (\<lambda>(rid, gone, _). map (\<lambda>p. (rid, timeout_event p)) gone)
      (map (\<lambda>(rid, rs). (rid, visit rs)) m)))
    \<longleftrightarrow> (\<exists>y \<in> set m. fst y = rid \<and> (\<exists>p \<in> set (fst (visit (snd y))). e = timeout_event p))" for m
    by (auto simp: split_beta)
  moreover have "(\<exists>y \<in> set m. fst y = rid \<and> Q (snd y)) \<longleftrightarrow> (\<exists>rs. (rid, rs) \<in> set m \<and> Q rs)"
    for Q and m :: "(uuid \<times> room_state) list" by force
  ultimately have "(rid, e) \<in> set (concat (map (\<lambda>(rid, gone, _). map (\<lambda>p. (rid, timeout_event p)) gone)
      (map (\<lambda>(rid, rs). (rid, visit rs)) m)))
    \<longleftrightarrow> (\<exists>rs. (rid, rs) \<in> set m \<and> (\<exists>p \<in> set (fst (visit rs)). e = timeout_event p))" for m
    by simp
  then show ?thesis unfolding sweep_def Let_def fst_conv .
qed

lemma presence_hosts:
  "filter p_is_host (rs_participants (snd (presence_room config t rs))) = filter p_is_host (rs_participants rs)"
proof -
  have "filter p_is_host (map (\<lambda>p. if presence_expired config t p then p\<lparr>p_status := Disconnected\<rparr> else p) ps)
      = filter p_is_host ps" for ps
    by (induction ps) (auto simp: presence_expired_def)
  then show ?thesis by (simp add: presence_room_def Let_def)
qed

lemma presence_none_left:
  "rs_state rs \<noteq> Ended \<Longrightarrow> p \<in> set (rs_participants (snd (presence_room config t rs))) \<Longrightarrow>
     \<not> presence_expired config t p"
  by (auto simp: presence_room_def Let_def presence_expired_def split: if_splits)

text \<open>
  Neither sweep ever touches a host. After the presence sweep no guest of a live room is
  connected and silent beyond the limit; after the stale sweep a live room outside a grace
  period holds no guest record, seat or memory of one, that is silent beyond the stale limit,
  and a room in a grace period is exactly as it was. Only guests of a room are announced to it.
\<close>

theorem sweeps_spare_hosts:
  assumes inv: "registry_inv reg" and rs: "get_by_id rid reg = Some rs"
  shows "\<exists>rs1 rs2. get_by_id rid (snd (tick_presence_timeout now_ms reg)) = Some rs1
    \<and> get_by_id rid (fst (snd (tick_stale_participants now_ms reg db))) = Some rs2
    \<and> filter p_is_host (rs_participants rs1) = filter p_is_host (rs_participants rs)
    \<and> filter p_is_host (rs_participants rs2) = filter p_is_host (rs_participants rs)
    \<and> (rs_state rs \<noteq> Ended \<longrightarrow>
         (\<forall>p \<in> set (rs_participants rs1). \<not> presence_expired (rg_config reg) now_ms p))
    \<and> (rs_state rs \<noteq> Ended \<and> rs_host_disconnect_deadline_ms rs = None \<longrightarrow>
         (\<forall>p \<in> set (rs_participants rs2). p_is_host p \<or> \<not> silent (rg_config reg) now_ms p))
    \<and> (rs_host_disconnect_deadline_ms rs \<noteq> None \<longrightarrow> rs2 = rs)
    \<and> (\<forall>e. (rid, e) \<in> set (fst (tick_presence_timeout now_ms reg)) \<union>
            set (fst (tick_stale_participants now_ms reg db)) \<longrightarrow>
         (\<exists>p \<in> set (rs_participants rs). \<not> p_is_host p \<and> live p \<and> e = timeout_event p))"
proof -
  let ?rs1 = "snd (presence_room (rg_config reg) now_ms rs)"
  let ?rs2 = "snd (stale_room (rg_config reg) now_ms rs)"
  have 1: "get_by_id rid (snd (tick_presence_timeout now_ms reg)) = Some ?rs1"
    by (simp add: tick_presence_timeout_def sweep_get rs)
  have 2: "get_by_id rid (fst (snd (tick_stale_participants now_ms reg db))) = Some ?rs2"
    by (simp add: tick_stale_participants_def Let_def split_beta sweep_get rs)
  have 3: "filter p_is_host (rs_participants ?rs2) = filter p_is_host (rs_participants rs)"
    by (auto simp: stale_room_def Let_def intro!: filter_cong)
  have 4: "\<forall>p \<in> set (rs_participants ?rs1). \<not> presence_expired (rg_config reg) now_ms p"
    if "rs_state rs \<noteq> Ended" using that presence_none_left by blast
  have 5: "\<forall>p \<in> set (rs_participants ?rs2). p_is_host p \<or> \<not> silent (rg_config reg) now_ms p"
    if "rs_state rs \<noteq> Ended" "rs_host_disconnect_deadline_ms rs = None"
    using that by (auto simp: stale_room_def Let_def)
  have 6: "?rs2 = rs" if "rs_host_disconnect_deadline_ms rs \<noteq> None"
    using that by (simp add: stale_room_def)
  have only: "rs' = rs" if "(rid, rs') \<in> set (rg_by_id reg)" for rs'
    using that rs inv by (simp add: get_by_id_def registry_inv_def flip: hm_get_Some_iff)
  have 7: "\<exists>p \<in> set (rs_participants rs). \<not> p_is_host p \<and> live p \<and> e = timeout_event p"
    if "(rid, e) \<in> set (fst (tick_presence_timeout now_ms reg)) \<union>
      set (fst (tick_stale_participants now_ms reg db))" for e
    using that only
    by (auto simp: tick_presence_timeout_def tick_stale_participants_def Let_def split_beta sweep_events
        presence_room_def stale_room_def presence_expired_def split: if_splits)
  show ?thesis
  proof (rule exI [of _ ?rs1], rule exI [of _ ?rs2], intro conjI impI allI)
    fix e assume "(rid, e) \<in> set (fst (tick_presence_timeout now_ms reg)) \<union>
      set (fst (tick_stale_participants now_ms reg db))"
    then show "\<exists>p \<in> set (rs_participants rs). \<not> p_is_host p \<and> live p \<and> e = timeout_event p" by (rule 7)
  qed (use 1 2 3 4 5 6 presence_hosts [of "rg_config reg" now_ms rs] in blast)+
qed

theorem sweeps_spare_hosts_witness:
  "\<exists>rs1. get_by_id 1 (snd (tick_presence_timeout 20000 (example_registry :: nat registry))) = Some rs1
     \<and> map p_user_id (filter p_is_host (rs_participants rs1)) = [7]"
proof -
  have rs: "get_by_id 1 (example_registry :: nat registry)
      = Some (room_state_new 1 (ascii ''ABCDEF'') [] 7 [] True 0 HOST 0)"
    by (simp add: get_by_id_def example_registry_def insert_room_state_def)
  from sweeps_spare_hosts [OF example_registry_inv rs, of 20000 example_db] show ?thesis
    by (auto simp: room_state_new_def)
qed

section \<open>The grace tick\<close>

definition grace_over :: "millis \<Rightarrow> room_state \<Rightarrow> bool" where
  "grace_over now_ms rs \<longleftrightarrow> (\<exists>d. rs_host_disconnect_deadline_ms rs = Some d \<and> d \<le> now_ms)"

lemma process_room_grace_over:
  "process_room_grace rs now_ms =
     (if grace_over now_ms rs then (Some (EvRoomClosed GRACE_REASON), rs\<lparr>rs_state := Ended\<rparr>) else (None, rs))"
  by (auto simp: process_room_grace_def try_migrate_host_def grace_over_def Let_def split: option.split)

lemma end_and_remove_get:
  "get_by_id x (fst (fold (end_and_remove now_ms) rids s)) = (if x \<in> set rids then None else get_by_id x (fst s))"
  by (induction rids arbitrary: s) (auto simp: end_and_remove_def get_by_id_def)

lemma tick_grace_fired:
  "tick_grace now_ms reg db =
     (let over = map fst (filter (\<lambda>(_, rs). grace_over now_ms rs) (rg_by_id reg));
          reg1 = reg\<lparr>rg_by_id := hm_map_values (\<lambda>rs. if grace_over now_ms rs then rs\<lparr>rs_state := Ended\<rparr> else rs)
                   (rg_by_id reg)\<rparr>;
          reg2 = publish_all (map (\<lambda>rid. (rid, the (grace_item rid (EvRoomClosed GRACE_REASON)))) over) reg1
      in (map (\<lambda>rid. (rid, EvRoomClosed GRACE_REASON)) over, fold (end_and_remove now_ms) over (reg2, db)))"
proof -
  let ?v = "map (\<lambda>(rid, rs). (rid, process_room_grace rs now_ms :: 'a room_event option \<times> room_state)) (rg_by_id reg)"
  let ?fired = "concat (map (\<lambda>(rid, ev, _). case ev of None \<Rightarrow> []
      | Some e \<Rightarrow> (case grace_item rid e of None \<Rightarrow> [] | Some item \<Rightarrow> [(rid, e, item)])) ?v)"
  have rooms: "map (\<lambda>(rid, _, rs). (rid, rs)) (map (\<lambda>(rid, rs). (rid, process_room_grace rs now_ms
        :: 'a room_event option \<times> room_state)) m)
      = hm_map_values (\<lambda>rs. if grace_over now_ms rs then rs\<lparr>rs_state := Ended\<rparr> else rs) m" for m
    by (induction m) (auto simp: process_room_grace_over)
  have fired: "concat (map (\<lambda>(rid, ev, _). case ev of None \<Rightarrow> []
      | Some e \<Rightarrow> (case grace_item rid e of None \<Rightarrow> [] | Some item \<Rightarrow> [(rid, e, item)]))
      (map (\<lambda>(rid, rs). (rid, process_room_grace rs now_ms :: 'a room_event option \<times> room_state)) m))
    = map (\<lambda>rid. (rid, EvRoomClosed GRACE_REASON, the (grace_item rid (EvRoomClosed GRACE_REASON))))
        (map fst (filter (\<lambda>(_, rs). grace_over now_ms rs) m))" for m
    by (induction m) (auto simp: process_room_grace_over)
  show ?thesis
    unfolding tick_grace_def Let_def rooms fired
    by (simp add: o_def filter_map)
qed

lemma tick_grace_get:
  "get_by_id rid (fst (snd (tick_grace now_ms reg db))) =
     (if \<exists>rs. (rid, rs) \<in> set (rg_by_id reg) \<and> grace_over now_ms rs then None
      else map_option (\<lambda>rs. if grace_over now_ms rs then rs\<lparr>rs_state := Ended\<rparr> else rs) (get_by_id rid reg))"
proof -
  have over: "rid \<in> set (map fst (filter (\<lambda>(_, rs). grace_over now_ms rs) (rg_by_id reg)))
      \<longleftrightarrow> (\<exists>rs. (rid, rs) \<in> set (rg_by_id reg) \<and> grace_over now_ms rs)" by force
  show ?thesis
    unfolding tick_grace_fired Let_def fst_conv snd_conv end_and_remove_get over
    by (auto simp: get_by_id_def)
qed

lemma tick_grace_room:
  assumes "registry_inv reg" and "get_by_id rid reg = Some rs"
  shows "get_by_id rid (fst (snd (tick_grace now_ms reg db))) = (if grace_over now_ms rs then None else Some rs)"
proof -
  have "(rid, rs') \<in> set (rg_by_id reg) \<longleftrightarrow> rs' = rs" for rs'
    using assms by (auto simp: get_by_id_def registry_inv_def simp flip: hm_get_Some_iff)
  with assms(2) show ?thesis by (simp add: tick_grace_get)
qed



section \<open>What goes wrong\<close>

text \<open>
  A host in the grace period who leaves on purpose (from a second connection) hands the
  room over, but the deadline set for their lost transport stays: the first tick after it closes
  the room although its new host is present.
\<close>

theorem leave_keeps_deadline:
  assumes inv: "registry_inv reg" and rs: "get_by_id rid reg = Some rs"
    and p: "live_record user rs = Some p" "p_is_host p" "rs_host_disconnect_deadline_ms rs = Some d"
    and l: "leave_room user (Some rid) True now_ms reg db = (Inr (events, Some summary), reg', db')"
    and t: "d \<le> later"
  shows "\<exists>rs' h. get_by_id rid reg' = Some rs' \<and> host rs' = Some h \<and> present h \<and> p_user_id h \<noteq> user
    \<and> get_by_id rid (fst (snd (tick_grace later reg' db'))) = None"
  using inv l
proof (cases rule: leave_room_cases)
  case refused
  then show ?thesis by simp
next
  case (left r rs0 p0 evs rs' reg1)
  then have same: "r = rid" "rs0 = rs" "p0 = p" using rs p(1) by (simp_all add: get_by_id_def)
  from left(6,7) have open_room: "rs_state rs' \<noteq> Ended" "reg' = reg1" by (auto split: if_splits)
  from leave_publish_locked [OF left(5)] obtain out where
    locked: "leave_locked (rg_config reg) user True now_ms p rs = (evs, out, rs')" and
    reg1: "rg_by_id reg1 = rg_by_id (put_room rid rs' reg)"
    unfolding same by auto
  have room: "room_inv rs" using registry_room [OF inv] rs by (simp add: get_by_id_def)
  have inv': "registry_inv reg'"
    using leave_publish_inv [OF inv left(1,2,5)] open_room(2) by simp
  have rs': "get_by_id rid reg' = Some rs'" by (simp add: get_by_id_def open_room(2) reg1)
  have room': "room_inv rs'" using registry_room [OF inv'] rs' by (simp add: get_by_id_def)
  obtain h where h: "host rs' = Some h" "present h" using room_inv_host [OF room' open_room(1)] by blast
  from room p(1) locked have "rs_host_disconnect_deadline_ms rs' = Some d \<and> live_record user rs' = None"
  proof (cases rule: leave_locked_cases)
    case (migrated c)
    then show ?thesis
      using reseat_left_gone [OF room p(1), of now_ms] p(3) by (simp only: live_record_promote) simp
  qed (use p open_room(1) in simp_all)
  then have d: "rs_host_disconnect_deadline_ms rs' = Some d" and gone: "live_record user rs' = None"
    by simp_all
  have "h \<in> set (rs_participants rs')" using h(1) by (auto simp: host_def dest: find_SomeD)
  with gone h(2) have "p_user_id h \<noteq> user" by (auto simp: live_record_None)
  moreover have "get_by_id rid (fst (snd (tick_grace later reg' db'))) = None"
    using tick_grace_room [OF inv' rs'] d t by (simp add: grace_over_def)
  ultimately show ?thesis using rs' h by blast
qed

definition guest_record :: "uuid \<Rightarrow> participant_record" where
  "guest_record user = joined_record user [] [] 0"

definition two_rooms :: "nat registry" where
  "two_rooms = (registry_new example_config)\<lparr>rg_by_id :=
     [(1, admit (guest_record 9) (room_state_new 1 (ascii ''ABCDEF'') [] 7 [] True 0 HOST 0)),
      (2, admit (guest_record 9) (room_state_new 2 (ascii ''GHJKMN'') [] 8 [] True 0 HOST 0))],
     rg_by_code := [(ascii ''ABCDEF'', 1), (ascii ''GHJKMN'', 2)], rg_room_tx := [(1, []), (2, [])]\<rparr>"

definition handover_registry :: "nat registry" where
  "handover_registry = put_room 1 ((admit (guest_record 9)
     (room_state_new 1 (ascii ''ABCDEF'') [] 7 [] True 0 HOST 0))
       \<lparr>rs_host_disconnect_deadline_ms := Some 50\<rparr>) example_registry"

lemma handover_registry_inv: "registry_inv handover_registry"
proof -
  let ?old = "room_state_new 1 (ascii ''ABCDEF'') [] 7 [] True 0 HOST 0"
  have old: "hm_get (rg_by_id (example_registry :: nat registry)) 1 = Some ?old"
    by (simp add: example_registry_def insert_room_state_def)
  have new: "\<not> has_live_record (p_user_id (guest_record 9)) ?old"
    by (simp add: guest_record_def has_live_record_def room_state_new_def)
  have "room_inv (admit (guest_record 9) ?old)"
    by (rule admit_inv [OF room_inv_new new]) (simp add: guest_record_def)
  moreover have "live_count (admit (guest_record 9) ?old) = 2"
    using live_count_admit [OF new] by (simp add: guest_record_def)
  ultimately show ?thesis
    unfolding handover_registry_def
    by (intro put_room_inv [OF example_registry_inv old])
      (simp_all add: room_limit_def example_registry_def insert_room_state_def registry_new_def example_config_def)
qed

theorem leave_keeps_deadline_witness:
  "get_by_id 1 (fst (snd (tick_grace 50 (fst (snd (leave_room 7 (Some 1) True 20 handover_registry example_db)))
     (snd (snd (leave_room 7 (Some 1) True 20 handover_registry example_db)))))) = None"
proof -
  let ?room = "(admit (guest_record 9) (room_state_new 1 (ascii ''ABCDEF'') [] 7 [] True 0 HOST 0))
       \<lparr>rs_host_disconnect_deadline_ms := Some 50\<rparr>"
  let ?l = "leave_room 7 (Some 1) True 20 handover_registry example_db"
  have room: "get_by_id 1 handover_registry = Some ?room"
    by (simp add: get_by_id_def handover_registry_def)
  obtain p where p: "live_record 7 ?room = Some p" "p_is_host p"
    by (simp add: room_state_new_def live_record_def admit_def guest_record_def joined_record_def)
  have rooms: "rg_by_id handover_registry = [(1, ?room)]"
    by (simp add: handover_registry_def put_room_def example_registry_def insert_room_state_def registry_new_def)
  obtain events summary where ok: "fst ?l = Inr (events, Some summary)"
    unfolding leave_room_def leave_target_def rooms
    by (simp add: room_state_new_def has_live_record_def live_record_def leave_publish_def admit_def
        guest_record_def joined_record_def leave_locked_def elect_new_host_def candidates_def
        update_live_user_def Let_def)
  have "?l = (Inr (events, Some summary), fst (snd ?l), snd (snd ?l))" using ok by (metis prod.collapse)
  from leave_keeps_deadline [OF handover_registry_inv room p(1,2) _ this, of 50 50] show ?thesis by auto
qed

text \<open>
  A heartbeat refreshes only the first room in which the user has a record. A user
  present in two rooms who keeps sending is timed out of the second one.
\<close>

theorem touch_misses_other_rooms:
  "(\<exists>rs. get_by_id 1 (snd (tick_presence_timeout 15000 (touch 9 14000 two_rooms))) = Some rs \<and> is_present 9 rs)
     \<and> (\<exists>rs. get_by_id 2 (snd (tick_presence_timeout 15000 (touch 9 14000 two_rooms))) = Some rs
          \<and> \<not> is_present 9 rs)
     \<and> (2, EvParticipantLeft \<lparr>pl_user_id = 9, pl_reason = ''timeout''\<rparr>)
         \<in> set (fst (tick_presence_timeout 15000 (touch 9 14000 two_rooms)))"
proof -
  have touched: "rg_by_id (touch 9 14000 two_rooms) =
     [(1, admit ((guest_record 9)\<lparr>p_last_seen_ms := 14000\<rparr>) (room_state_new 1 (ascii ''ABCDEF'') [] 7 [] True 0 HOST 0)),
      (2, admit (guest_record 9) (room_state_new 2 (ascii ''GHJKMN'') [] 8 [] True 0 HOST 0))]"
    and config: "rg_config (touch 9 14000 two_rooms) = example_config"
    by (simp_all add: touch_def two_rooms_def admit_def room_state_new_def guest_record_def joined_record_def
        put_room_def update_user_def registry_new_def Let_def)
  show ?thesis
    unfolding tick_presence_timeout_def sweep_get sweep_events config touched
    by (simp add: get_by_id_def touched presence_room_def presence_expired_def saturating_sub_i64_def
        i64_clamp_def i64_min_def i64_max_def admit_def room_state_new_def guest_record_def
        joined_record_def is_present_def timeout_event_def example_config_def Let_def)
qed

definition stored_seat :: "uuid \<Rightarrow> (uuid \<times> uuid) \<times> participant_row" where
  "stored_seat user = ((1, user), \<lparr>pr_user_id = user, pr_pubkey = [], pr_display_name = [],
     pr_is_host = False, pr_joined_ms = 0, pr_left_ms = None, pr_last_seen_ms = 0,
     pr_status = ''connected'', pr_cap_set = CHAT\<rparr>)"

definition three_seats :: "nat registry" where
  "three_seats = put_room 1 (admit (guest_record 8) (admit (guest_record 9)
     (room_state_new 1 (ascii ''ABCDEF'') [] 7 [] True 0 HOST 0))) example_registry"

text \<open>
  Heartbeats are kept in memory only, but the purge of one stale participant deletes every
  guest row whose stored last-seen is old: an active guest stays in the room and loses the row,
  so a restart forgets them.
\<close>

theorem purge_deletes_active_rows:
  "let reg = touch 9 400000 three_seats;
       db = example_db\<lparr>db_participants := [stored_seat 9, stored_seat 8]\<rparr>;
       (events, reg', db') = tick_stale_participants 400000 reg db
   in (\<exists>rs. get_by_id 1 reg' = Some rs \<and> is_present 9 rs) \<and> participant_lookup db 1 9 \<noteq> None
      \<and> participant_lookup db' 1 9 = None"
proof -
  let ?reg = "touch 9 400000 three_seats"
  have touched: "rg_by_id ?reg = [(1, admit (guest_record 8) (admit ((guest_record 9)\<lparr>p_last_seen_ms := 400000\<rparr>)
      (room_state_new 1 (ascii ''ABCDEF'') [] 7 [] True 0 HOST 0)))]"
    and config: "rg_config ?reg = example_config"
    by (simp_all add: touch_def three_seats_def example_registry_def insert_room_state_def admit_def
        room_state_new_def guest_record_def joined_record_def put_room_def update_user_def
        registry_new_def Let_def)
  have events: "fst ` set (fst (sweep (stale_room example_config 400000) ?reg)) = {1}"
    unfolding sweep_def touched
    by (simp add: Let_def stale_room_def silent_def saturating_sub_i64_def i64_clamp_def i64_min_def
        i64_max_def admit_def room_state_new_def guest_record_def joined_record_def example_config_def)
  show ?thesis
    by (simp add: Let_def tick_stale_participants_def split_beta config events)
      (simp add: get_by_id_def sweep_rooms touched stale_room_def silent_def saturating_sub_i64_def
        i64_clamp_def i64_min_def i64_max_def admit_def room_state_new_def guest_record_def
        joined_record_def example_config_def is_present_def participant_lookup_def stored_seat_def
        db_purge_stale_participants_def attempt_def example_db_def purge_matches_def)
qed

text \<open>The host that the room rows name.\<close>

definition stored_hosts :: "database \<Rightarrow> (uuid \<times> uuid) list" where
  "stored_hosts db = map (\<lambda>r. (rr_id r, rr_host_user_id r)) (db_rooms db)"

lemma stored_hosts_writes [simp]:
  "stored_hosts (snd (db_add_room_participant rid u pk nm h j c db)) = stored_hosts db"
  "stored_hosts (snd (db_update_participant_status rid u st t db)) = stored_hosts db"
  "stored_hosts (snd (db_end_room rid t db)) = stored_hosts db"
  "stored_hosts (snd (db_set_host_disconnect_deadline rid d db)) = stored_hosts db"
  by (auto simp: stored_hosts_def db_add_room_participant_def db_update_participant_status_def
      db_end_room_def db_set_host_disconnect_deadline_def db_update_participant_def attempt_def
      split: list.split option.split)

lemma leave_persist_hosts:
  "stored_hosts (leave_persist rid user intentional now_ms p out rs db) = stored_hosts db"
  by (simp add: leave_persist_def Let_def split: option.split)

text \<open>
  The room row keeps naming its first host: no leave, not even one that hands the room to
  a new host, writes the host id of the room row, from which a restart rebuilds the room.
\<close>

theorem migration_not_stored:
  assumes "registry_inv reg" and "leave_room user wanted intentional now_ms reg db = (res, reg', db')"
  shows "stored_hosts db' = stored_hosts db"
  using assms
proof (cases rule: leave_room_cases)
  case (left rid rs p events rs' reg1)
  obtain evs out rs2 where
    "leave_locked (rg_config reg) user intentional now_ms p rs = (evs :: 'a room_event list, out, rs2)"
    by (metis prod_cases3)
  with left(5) show ?thesis by (auto simp: leave_publish_def Let_def leave_persist_hosts)
qed simp

theorem migration_not_stored_witness:
  "stored_hosts (snd (snd (leave_room 7 (Some 1) True 20 handover_registry example_db))) = []"
proof -
  let ?l = "leave_room 7 (Some 1) True 20 handover_registry example_db"
  have "?l = (fst ?l, fst (snd ?l), snd (snd ?l))" by simp
  from migration_not_stored [OF handover_registry_inv this] show ?thesis
    by (simp add: stored_hosts_def example_db_def)
qed

text \<open>
  What a restart brings back. An open room row whose seats are consistent becomes an open
  room under its id and code, with an empty canvas and no playback; its guests, all marked
  disconnected, are the stored ones that had not left; its host is the seat flagged as the host,
  or one made up for the room's host id when none is. The host is marked connected unless a
  deadline was stored, although no transport survived: then no tick ever closes the room.
\<close>

theorem rehydrate_spec:
  assumes inv: "registry_inv reg" and rows: "rows_ok (room_limit reg) room rows"
    and new: "hm_get (rg_by_id reg) (rr_id room) = None" "hm_get (rg_by_code reg) (rr_code room) = None"
    and row: "rr_state room = ''open''" "length (rr_host_pubkey room) = 32"
    and r: "rehydrate cd clock_ms room rows db reg = (res, reg', db')"
  shows "registry_inv reg' \<and> get_by_code (rr_code room) reg' = Some (rr_id room)
    \<and> (\<exists>rs h. get_by_id (rr_id room) reg' = Some rs \<and> rs_state rs = Open
        \<and> visible (rs_drawing rs) = {} \<and> playback_snapshot_of rs = None
        \<and> map p_user_id (filter (\<lambda>q. \<not> p_is_host q) (rs_participants rs)) = map pr_user_id
            (filter (\<lambda>p. pr_status p \<noteq> ''left'' \<and> length (pr_pubkey p) = 32 \<and> \<not> pr_is_host p) rows)
        \<and> (\<forall>q \<in> set (rs_participants rs). \<not> p_is_host q \<longrightarrow> p_status q = Disconnected)
        \<and> host rs = Some h \<and> rs_host_user_id rs = rr_host_user_id room
        \<and> p_status h = (if rr_host_disconnect_deadline_ms room = None then Connected else Reconnecting)
        \<and> (rr_host_disconnect_deadline_ms room = None \<longrightarrow>
             (\<forall>t d. get_by_id (rr_id room) (fst (snd (tick_grace t reg' d))) = Some rs)))"
proof -
  let ?rs = "rehydrated_room clock_ms room rows"
  have inv': "registry_inv reg'"
    using rehydrate_inv [OF inv rows new, of cd clock_ms db] by (simp add: r)
  have reg': "get_by_id (rr_id room) reg' = Some ?rs \<and> get_by_code (rr_code room) reg' = Some (rr_id room)"
    using r row by (auto simp: rehydrate_def Let_def get_by_id_def get_by_code_def insert_room_state_def
        rehydrated_room_def split: option.splits prod.splits sum.splits)
  let ?us = "filter (\<lambda>p. pr_status p \<noteq> ''left'' \<and> length (pr_pubkey p) = 32) rows"
  have status: "\<forall>q \<in> set (rebuilt_participants room rows). p_status q = (if p_is_host q then
      if rr_host_disconnect_deadline_ms room = None then Connected else Reconnecting else Disconnected)"
    by (auto simp: rebuilt_participants_def rebuilt_record_def Let_def)
  have guests: "map p_user_id (filter (\<lambda>q. \<not> p_is_host q) (map (rebuilt_record d) us))
      = map pr_user_id (filter (\<lambda>p. \<not> pr_is_host p) us)" for d us
    by (induction us) auto
  have guest_ids: "map p_user_id (filter (\<lambda>q. \<not> p_is_host q) (rebuilt_participants room rows))
      = map pr_user_id (filter (\<lambda>p. \<not> pr_is_host p) ?us)"
    using guests by (simp add: rebuilt_participants_def Let_def del: filter_filter)
  have parts: "rs_participants ?rs = rebuilt_participants room rows" by (simp add: rehydrated_room_def)
  have "room_inv ?rs" using registry_room [OF inv', of "rr_id room" ?rs] reg' by (simp add: get_by_id_def)
  moreover have "rs_state ?rs \<noteq> Ended" by (simp add: rehydrated_room_def)
  ultimately obtain h where h: "host ?rs = Some h" "h \<in> set (rs_participants ?rs)" "p_is_host h"
    by (rule room_inv_host)
  have stays: "get_by_id (rr_id room) (fst (snd (tick_grace t reg' d))) = Some ?rs"
    if "rr_host_disconnect_deadline_ms room = None" for t d
    using tick_grace_room [OF inv'] reg' that by (simp add: grace_over_def rehydrated_room_def)
  have plain: "rs_state ?rs = Open" "visible (rs_drawing ?rs) = {}" "playback_snapshot_of ?rs = None"
    "rs_host_user_id ?rs = rr_host_user_id room"
    by (simp_all add: rehydrated_room_def playback_snapshot_of_def visible_def stroke_bookkeeping_new_def
        open_in_order_def)
  show ?thesis
    using inv' reg' plain status guest_ids h stays
    by (intro conjI exI [of _ ?rs] exI [of _ h]) (auto simp: parts conj_commute)
qed

theorem rehydrate_spec_witness:
  "\<exists>rs. get_by_id 4 (fst (snd (rehydrate example_codec 0
      \<lparr>rr_id = 4, rr_code = ascii ''GHJKMN'', rr_title = [], rr_host_user_id = 7,
       rr_host_pubkey = replicate 32 0, rr_host_migration_enabled = True, rr_state = ''open'',
       rr_host_disconnect_deadline_ms = None, rr_created_ms = 0, rr_ended_ms = None,
       rr_last_activity_ms = 0\<rparr> [] None (example_registry :: nat registry)))) = Some rs
     \<and> map_option p_status (host rs) = Some Connected"
proof -
  let ?room = "\<lparr>rr_id = 4, rr_code = ascii ''GHJKMN'', rr_title = [], rr_host_user_id = 7,
       rr_host_pubkey = replicate 32 0, rr_host_migration_enabled = True, rr_state = ''open'',
       rr_host_disconnect_deadline_ms = None, rr_created_ms = 0, rr_ended_ms = None,
       rr_last_activity_ms = 0\<rparr>"
  let ?r = "rehydrate example_codec 0 ?room [] None (example_registry :: nat registry)"
  have rows: "rows_ok (room_limit (example_registry :: nat registry)) ?room []"
    by (simp add: rows_ok_def rebuilt_participants_def room_limit_def Let_def)
  have new: "hm_get (rg_by_id (example_registry :: nat registry)) (rr_id ?room) = None"
    "hm_get (rg_by_code (example_registry :: nat registry)) (rr_code ?room) = None"
    by (simp_all add: example_registry_def insert_room_state_def registry_new_def ascii_def)
  have "?r = (fst ?r, fst (snd ?r), snd (snd ?r))" by simp
  from rehydrate_spec [OF example_registry_inv rows new _ _ this] show ?thesis by auto
qed

end
