(* ===== verification/Caps.thy ===== *)
theory Caps
  imports Lifecycle
begin

text \<open>
  The capability gate, \<open>rooms/caps.rs\<close>: which participant may do what in which room. The gate
  looks at the room the envelope names and at no other.
\<close>

datatype caps_error = NotMember | CapsNotHost

datatype scope = ScopePlayback | ScopeDrawing | ScopeChat | ScopeRoom | ScopeManifest | ScopeMedia

datatype action =
  IssuePlaybackCommand | DrawBegin | DrawPoint | DrawEnd | UndoOwnStroke | UndoAnyStroke | ClearAll
| PointLaser | SendChat | ManageRoom | Kick | PublishManifest | Invite | KeepTempFile | DeleteTempFile

fun action_bit :: "scope \<Rightarrow> action \<Rightarrow> u32" where
  "action_bit ScopePlayback IssuePlaybackCommand = PLAYBACK_CONTROL"
| "action_bit ScopeDrawing DrawBegin = DRAW"
| "action_bit ScopeDrawing DrawPoint = DRAW"
| "action_bit ScopeDrawing DrawEnd = DRAW"
| "action_bit ScopeDrawing UndoOwnStroke = UNDO_OWN"
| "action_bit ScopeDrawing UndoAnyStroke = UNDO_ANY"
| "action_bit ScopeDrawing ClearAll = CLEAR_ALL"
| "action_bit ScopeDrawing PointLaser = LASER"
| "action_bit ScopeChat SendChat = CHAT"
| "action_bit ScopeRoom ManageRoom = MANAGE_ROOM"
| "action_bit ScopeRoom Kick = KICK"
| "action_bit ScopeManifest PublishManifest = PUBLISH_MANIFEST"
| "action_bit ScopeManifest Invite = INVITE"
| "action_bit ScopeMedia KeepTempFile = MEDIA"
| "action_bit ScopeMedia DeleteTempFile = MEDIA"
| "action_bit _ _ = 0"

definition participant_can :: "participant_record \<Rightarrow> scope \<Rightarrow> action \<Rightarrow> bool" where
  "participant_can p scope action \<longleftrightarrow> p_is_host p \<or> p_cap_set p AND action_bit scope action \<noteq> 0"

definition can :: "'m registry \<Rightarrow> uuid \<Rightarrow> uuid \<Rightarrow> scope \<Rightarrow> action \<Rightarrow> bool" where
  "can reg user rid scope action \<longleftrightarrow>
     (case get_by_id rid reg of
        None \<Rightarrow> False
      | Some rs \<Rightarrow> (case live_record user rs of None \<Rightarrow> False | Some p \<Rightarrow> participant_can p scope action))"

datatype command =
  CmdRoomCreate | CmdRoomJoinRequest | CmdRoomLeave | CmdPresence | CmdPublishManifest
| CmdFetchManifest | CmdSignal | CmdPlaybackControl | CmdPositionReport | CmdDraw | CmdDrawUndo
| CmdDrawClear | CmdLaser | CmdPermissionSet | CmdChatMessage

fun to_scope_action :: "command \<Rightarrow> (scope \<times> action) option" where
  "to_scope_action CmdPlaybackControl = Some (ScopePlayback, IssuePlaybackCommand)"
| "to_scope_action CmdDraw = Some (ScopeDrawing, DrawBegin)"
| "to_scope_action CmdPublishManifest = Some (ScopeManifest, PublishManifest)"
| "to_scope_action CmdChatMessage = Some (ScopeChat, SendChat)"
| "to_scope_action CmdLaser = Some (ScopeDrawing, PointLaser)"
| "to_scope_action _ = None"

definition allow :: "bool \<Rightarrow> caps_error \<Rightarrow> caps_error + unit" where
  "allow b e = (if b then Inr () else Inl e)"

text \<open>The match on the command once the caller is known to be in the room.\<close>

fun member_may :: "'m registry \<Rightarrow> uuid \<Rightarrow> uuid \<Rightarrow> command \<Rightarrow> caps_error + unit" where
  "member_may reg user rid CmdPublishManifest = allow (is_room_host rid user reg) CapsNotHost"
| "member_may reg user rid CmdPermissionSet = allow (is_room_host rid user reg) CapsNotHost"
| "member_may reg user rid CmdDrawUndo =
     allow (can reg user rid ScopeDrawing UndoOwnStroke \<or> can reg user rid ScopeDrawing UndoAnyStroke)
       CapsNotHost"
| "member_may reg user rid CmdDrawClear = allow (can reg user rid ScopeDrawing ClearAll) CapsNotHost"
| "member_may reg user rid CmdFetchManifest = Inr ()"
| "member_may reg user rid CmdSignal = Inr ()"
| "member_may reg user rid CmdPositionReport = Inr ()"
| "member_may reg user rid CmdRoomCreate = Inr ()"
| "member_may reg user rid CmdRoomJoinRequest = Inr ()"
| "member_may reg user rid CmdRoomLeave = Inr ()"
| "member_may reg user rid CmdPresence = Inr ()"
| "member_may reg user rid cmd =
     (case to_scope_action cmd of
        Some (scope, action) \<Rightarrow> allow (can reg user rid scope action) CapsNotHost
      | None \<Rightarrow> Inl CapsNotHost)"

definition check_capability ::
    "'m registry \<Rightarrow> uuid \<Rightarrow> uuid option \<Rightarrow> command \<Rightarrow> caps_error + unit" where
  "check_capability reg user room cmd =
     (if cmd = CmdRoomCreate \<or> cmd = CmdRoomJoinRequest \<or> cmd = CmdRoomLeave then Inr ()
      else if cmd = CmdPresence then
        allow (case room of
                 Some rid \<Rightarrow> is_user_in_room user rid reg
               | None \<Rightarrow> has_live_participant_record user reg) NotMember
      else case room of
             None \<Rightarrow> Inl NotMember
           | Some rid \<Rightarrow> if \<not> is_user_in_room user rid reg then Inl NotMember
                         else member_may reg user rid cmd)"

section \<open>Facts\<close>

lemma allow_ok [simp]: "allow b e = Inr () \<longleftrightarrow> b"
  by (simp add: allow_def)

text \<open>In a well-formed room a user's present record is their live record.\<close>

lemma is_present_live:
  assumes "room_inv rs"
  shows "is_present u rs \<longleftrightarrow> (\<exists>p. live_record u rs = Some p \<and> present p)"
proof
  assume "is_present u rs"
  then obtain p where p: "p \<in> set (rs_participants rs)" "p_user_id p = u" "present p"
    by (auto simp: is_present_def list_ex_iff)
  then obtain q where q: "live_record u rs = Some q"
    by (cases "live_record u rs") (auto simp: live_record_None)
  have "p = q"
    using find_distinct_user [OF _ q [unfolded live_record_def] p(1,2)] assms by (simp add: room_inv_def)
  with p q show "\<exists>p. live_record u rs = Some p \<and> present p" by blast
next
  assume "\<exists>p. live_record u rs = Some p \<and> present p"
  then show "is_present u rs"
    by (auto simp: is_present_def list_ex_iff live_record_def dest!: find_SomeD)
qed

lemma live_recordD:
  "live_record u rs = Some p \<Longrightarrow> p \<in> set (rs_participants rs) \<and> p_user_id p = u \<and> live p"
  by (auto simp: live_record_def dest: find_SomeD)

lemma is_room_host_live:
  assumes "room_inv rs" and "get_by_id rid reg = Some rs" and "live_record u rs = Some p"
  shows "is_room_host rid u reg \<longleftrightarrow> p_is_host p"
proof -
  have "q = p" if "q \<in> set (rs_participants rs)" "p_user_id q = u" for q
    using find_distinct_user [OF _ assms(3) [unfolded live_record_def] that] assms(1)
    by (simp add: room_inv_def)
  with assms(2) live_recordD [OF assms(3)] show ?thesis
    by (auto simp: is_room_host_def list_ex_iff)
qed

section \<open>Properties\<close>

text \<open>
  What a command on a room needs of a guest: \<open>None\<close> for membership only, \<open>Some bits\<close> for at
  least one of the bits, \<open>Some 0\<close> when only the host may.
\<close>

fun guest_needs :: "command \<Rightarrow> u32 option" where
  "guest_needs CmdPublishManifest = Some 0"
| "guest_needs CmdPermissionSet = Some 0"
| "guest_needs CmdPlaybackControl = Some PLAYBACK_CONTROL"
| "guest_needs CmdDraw = Some DRAW"
| "guest_needs CmdChatMessage = Some CHAT"
| "guest_needs CmdLaser = Some LASER"
| "guest_needs CmdDrawUndo = Some (UNDO_OWN OR UNDO_ANY)"
| "guest_needs CmdDrawClear = Some CLEAR_ALL"
| "guest_needs _ = None"

lemma and_or_nonzero: "(c :: u32) AND (a OR b) \<noteq> 0 \<longleftrightarrow> c AND a \<noteq> 0 \<or> c AND b \<noteq> 0"
  by (simp add: bit.conj_disj_distrib or_eq_0_iff)

text \<open>
  C10: the gate lets a room command through exactly when the envelope names a room in which
  the caller is present and is the host, or holds in that room one of the bits the command
  needs; being host-only or needing nothing are the two extremes. Nothing the caller may do
  elsewhere counts.
\<close>

theorem gate_decides:
  assumes inv: "registry_inv reg"
    and cmd: "cmd \<notin> {CmdRoomCreate, CmdRoomJoinRequest, CmdRoomLeave, CmdPresence}"
  shows "check_capability reg user room cmd = Inr () \<longleftrightarrow>
    (\<exists>rid rs p. room = Some rid \<and> get_by_id rid reg = Some rs \<and> live_record user rs = Some p
       \<and> present p \<and> (p_is_host p \<or> (case guest_needs cmd of None \<Rightarrow> True | Some bits \<Rightarrow> p_cap_set p AND bits \<noteq> 0)))"
proof (cases "\<exists>rid rs p. room = Some rid \<and> get_by_id rid reg = Some rs \<and> live_record user rs = Some p \<and> present p")
  case True
  then obtain rid rs p where r: "room = Some rid" "get_by_id rid reg = Some rs"
      "live_record user rs = Some p" "present p" by blast
  have room_ok: "room_inv rs" using registry_room [OF inv] r(2) by (simp add: get_by_id_def)
  have member: "is_user_in_room user rid reg"
    using r is_present_live [OF room_ok] by (auto simp: is_user_in_room_def)
  have "member_may reg user rid cmd = Inr () \<longleftrightarrow>
      (p_is_host p \<or> (case guest_needs cmd of None \<Rightarrow> True | Some bits \<Rightarrow> p_cap_set p AND bits \<noteq> 0))"
    using cmd r is_room_host_live [OF room_ok r(2,3)]
    by (cases cmd) (auto simp: can_def participant_can_def and_or_nonzero)
  with cmd r member show ?thesis by (auto simp: check_capability_def)
next
  case False
  have "\<not> is_user_in_room user rid reg" if "room = Some rid" for rid
    using False that registry_room [OF inv] is_present_live
    by (auto simp: is_user_in_room_def get_by_id_def split: option.splits)
  with cmd have "check_capability reg user room cmd \<noteq> Inr ()"
    by (auto simp: check_capability_def split: option.splits)
  with False show ?thesis by blast
qed

theorem gate_decides_witness:
  "check_capability (example_registry :: nat registry) 9 (Some 1) CmdPlaybackControl \<noteq> Inr ()"
proof -
  have "get_by_id 1 (example_registry :: nat registry)
      = Some (room_state_new 1 (ascii ''ABCDEF'') [] 7 [] True 0 HOST 0)"
    by (simp add: get_by_id_def example_registry_def insert_room_state_def)
  moreover have "live_record 9 (room_state_new 1 (ascii ''ABCDEF'') [] 7 [] True 0 HOST 0) = None"
    by (simp add: live_record_def room_state_new_def)
  ultimately show ?thesis
    using gate_decides [OF example_registry_inv, of CmdPlaybackControl 9 "Some 1"] by auto
qed

text \<open>
  The decision for a named room depends on that room alone: two registries that agree on
  it decide alike, whatever else they hold.
\<close>

theorem gate_is_local:
  assumes "get_by_id rid reg = get_by_id rid reg2"
  shows "check_capability reg user (Some rid) cmd = check_capability reg2 user (Some rid) cmd"
  using assms
  by (cases cmd) (simp_all add: check_capability_def can_def is_user_in_room_def is_room_host_def)

theorem gate_is_local_witness:
  "check_capability (example_registry :: nat registry) 9 (Some 3) CmdDraw
     = check_capability (registry_new example_config :: nat registry) 9 (Some 3) CmdDraw"
  by (rule gate_is_local)
    (simp add: get_by_id_def example_registry_def insert_room_state_def registry_new_def)

end
