(* ===== verification/Inbound.thy ===== *)
theory Inbound
  imports Caps
begin

text \<open>
  What a handler is given and what it gives back: JSON payloads with the decoders that
  \<open>serde_json\<close> derives, the signature checks of the crypto crates, and the outcome of
  \<open>rooms/dispatch.rs\<close>. Everything that comes from a crate is a field of \<open>edge\<close>; the domain
  tags of \<open>shared/crypto\<close> are modelled. Replies leave out the fresh envelope id, and a
  ROOM_ERROR its message text, which only a person reads.
\<close>

section \<open>JSON\<close>

datatype json =
  JNull | JBool bool | JNumber rstring | JString rstring | JArray "json list"
| JObject "(rstring \<times> json) list"

fun strip_bearer :: "json \<Rightarrow> json" where
  "strip_bearer (JObject kvs) = JObject (filter (\<lambda>(k, _). k \<noteq> ascii ''bearer'') kvs)"
| "strip_bearer v = v"

section \<open>The edge\<close>

record 'm edge =
  ed_codec :: "'m codec"
  ed_room_create :: "json \<Rightarrow> room_create_payload option"
  ed_room_join :: "json \<Rightarrow> room_join_request_payload option"
  ed_playback :: "json \<Rightarrow> playback_command_payload option"
  ed_position :: "json \<Rightarrow> position_report_payload option"
  ed_stroke_begin :: "json \<Rightarrow> stroke_begin_payload option"
  ed_stroke_point :: "json \<Rightarrow> stroke_point_payload option"
  ed_stroke_end :: "json \<Rightarrow> stroke_end_payload option"
  ed_stroke_undo :: "json \<Rightarrow> stroke_undo_payload option"
  ed_laser_move :: "json \<Rightarrow> laser_move_payload option"
  ed_chat_fields :: "json \<Rightarrow> chat_payload option"
  ed_permission :: "json \<Rightarrow> permission_set_payload option"
  ed_manifest_publish :: "json \<Rightarrow> 'm option"
  ed_manifest_request :: "json \<Rightarrow> unit option"
  ed_msgpack_stroke :: "stroke_begin_payload \<Rightarrow> bytes option"
  ed_valid_key :: "bytes \<Rightarrow> bool"
  ed_verify :: "bytes \<Rightarrow> bytes \<Rightarrow> bytes \<Rightarrow> bool"
  ed_verify_manifest :: "'m \<Rightarrow> bool"
  ed_manifest_room_id :: "'m \<Rightarrow> rstring"
  ed_signer_key_base64 :: "'m \<Rightarrow> string option"
  ed_canonical_bytes :: "'m \<Rightarrow> bytes option"
  ed_blake3_hex :: "bytes \<Rightarrow> string"
  ed_uuid_string :: "uuid \<Rightarrow> rstring"

text \<open>The text bound of CHAT_MESSAGE is part of its \<open>Deserialize\<close>.\<close>

definition ed_chat :: "'m edge \<Rightarrow> json \<Rightarrow> chat_payload option" where
  "ed_chat ed v = Option.bind (ed_chat_fields ed v) decode_chat"

section \<open>Domain tags\<close>

definition str_bytes :: "string \<Rightarrow> bytes" where
  "str_bytes s = map of_char s"

definition TAG_PREFIX :: bytes where "TAG_PREFIX = str_bytes ''locast/v''"
definition TAG_LEN :: nat where "TAG_LEN = 16"

definition domain_tag :: "string \<Rightarrow> bytes" where
  "domain_tag message_type =
     (let type_bytes = str_bytes message_type;
          copied = take (TAG_LEN - length TAG_PREFIX) type_bytes
      in TAG_PREFIX @ copied @ replicate (TAG_LEN - length TAG_PREFIX - length copied) 0)"

definition signal_signed_bytes :: "bytes option \<Rightarrow> bytes option" where
  "signal_signed_bytes packed = map_option (\<lambda>msg. domain_tag ''SIGNAL'' @ msg) packed"

definition drawing_signed_bytes :: "'m edge \<Rightarrow> stroke_begin_payload \<Rightarrow> bytes option" where
  "drawing_signed_bytes ed payload =
     map_option (\<lambda>msg. domain_tag ''DRAW_START'' @ msg) (ed_msgpack_stroke ed payload)"

section \<open>Outcomes\<close>

record 'm reply =
  rp_type :: message_kind
  rp_room_id :: "uuid option"
  rp_sender :: "uuid option"
  rp_ts_ms :: millis
  rp_payload :: "'m wire_payload"

record 'm outcome =
  oc_to_caller :: "'m reply list"
  oc_events :: "'m room_event list"
  oc_close_caller :: bool

definition outcome_default :: "'m outcome" where
  "outcome_default = \<lparr>oc_to_caller = [], oc_events = [], oc_close_caller = False\<rparr>"

definition envelope_with_payload ::
    "message_kind \<Rightarrow> uuid option \<Rightarrow> 'm wire_payload \<Rightarrow> millis \<Rightarrow> 'm reply" where
  "envelope_with_payload kind room payload now_ms =
     \<lparr>rp_type = kind, rp_room_id = room, rp_sender = None, rp_ts_ms = now_ms, rp_payload = payload\<rparr>"

definition err_envelope :: "room_error_code \<Rightarrow> millis \<Rightarrow> 'm reply" where
  "err_envelope code now_ms = envelope_with_payload MkRoomError None
     (WRoomError \<lparr>rep_code = code, rep_expected_seq = None\<rparr>) now_ms"

text \<open>An outcome that only answers the caller with an error.\<close>

definition refuse :: "room_error_code \<Rightarrow> millis \<Rightarrow> 'm outcome" where
  "refuse code now_ms = outcome_default\<lparr>oc_to_caller := [err_envelope code now_ms]\<rparr>"

definition silent_outcome :: "'m outcome \<Rightarrow> bool" where
  "silent_outcome oc \<longleftrightarrow> oc_to_caller oc = [] \<and> oc_events oc = [] \<and> \<not> oc_close_caller oc"

lemma outcome_simps [simp]:
  "oc_to_caller outcome_default = []"
  "oc_events outcome_default = []"
  "oc_close_caller outcome_default = False"
  "oc_events (refuse c t) = []"
  "oc_close_caller (refuse c t) = False"
  "oc_to_caller (refuse c t) = [err_envelope c t]"
  by (simp_all add: outcome_default_def refuse_def)

lemma length_domain_tag: "length (domain_tag t) = 16"
  by (simp add: domain_tag_def TAG_PREFIX_def TAG_LEN_def str_bytes_def Let_def)

text \<open>
  A signature over a drawing cannot be replayed as a signature over a signal, or the
  other way round: whatever the payloads, the signed bytes differ in the domain tag.
\<close>

theorem signed_bytes_separate:
  assumes "drawing_signed_bytes ed stroke = Some b1" and "signal_signed_bytes packed = Some b2"
  shows "b1 \<noteq> b2"
proof
  assume eq: "b1 = b2"
  from assms obtain m1 m2 where
    "b1 = domain_tag ''DRAW_START'' @ m1" "b2 = domain_tag ''SIGNAL'' @ m2"
    by (auto simp: drawing_signed_bytes_def signal_signed_bytes_def)
  with eq have "domain_tag ''DRAW_START'' = domain_tag ''SIGNAL''"
    using length_domain_tag by (metis append_eq_append_conv)
  then show False
    by (simp add: domain_tag_def TAG_PREFIX_def TAG_LEN_def str_bytes_def Let_def)
qed

text \<open>A small instance of the edge, for concrete runs: every payload decodes to a fixed value.\<close>

definition example_stroke :: stroke_begin_payload where
  "example_stroke = \<lparr>sbp_stroke_id = 21, sbp_tool = Pen, sbp_color = [], sbp_width = 0x3F800000,
     sbp_x = 0, sbp_y = 0, sbp_pressure = 0, sbp_ts_ms = 0\<rparr>"

definition example_edge :: "nat edge" where
  "example_edge = \<lparr>ed_codec = example_codec,
     ed_room_create = (\<lambda>_. Some \<lparr>rcp_title = [], rcp_migration_enabled = True\<rparr>),
     ed_room_join = (\<lambda>_. Some \<lparr>rjr_code = ascii ''ABCDEF'', rjr_display_name = ascii ''Ann''\<rparr>),
     ed_playback = (\<lambda>_. Some \<lparr>pc_action = Play, pc_monotonic_seq = 1, pc_media_position_ms = 0,
       pc_client_ts_ms = 0\<rparr>),
     ed_position = (\<lambda>_. Some \<lparr>pos_user_id = 1, pos_media_position_ms = 0, pos_playing = True,
       pos_client_ts_ms = 0\<rparr>),
     ed_stroke_begin = (\<lambda>_. Some example_stroke),
     ed_stroke_point = (\<lambda>_. Some \<lparr>spp_stroke_id = 21, spp_x = 0, spp_y = 0, spp_pressure = 0, spp_ts_ms = 0\<rparr>),
     ed_stroke_end = (\<lambda>_. Some \<lparr>sep_stroke_id = 21, sep_ts_ms = 0\<rparr>),
     ed_stroke_undo = (\<lambda>_. Some \<lparr>sup_stroke_id = 21\<rparr>),
     ed_laser_move = (\<lambda>_. Some \<lparr>lm_x = 0, lm_y = 0\<rparr>),
     ed_chat_fields = (\<lambda>_. Some \<lparr>chat_sender_id = 1, chat_text = [], chat_reply_to = None, chat_sent_ms = 0\<rparr>),
     ed_permission = (\<lambda>_. Some \<lparr>perm_target_user_id = 9, perm_add_cap_set = DRAW, perm_remove_cap_set = 0\<rparr>),
     ed_manifest_publish = (\<lambda>_. Some 5), ed_manifest_request = (\<lambda>_. Some ()),
     ed_msgpack_stroke = (\<lambda>_. Some []), ed_valid_key = (\<lambda>_. True), ed_verify = (\<lambda>_ _ _. True),
     ed_verify_manifest = (\<lambda>_. True), ed_manifest_room_id = (\<lambda>_. []),
     ed_signer_key_base64 = (\<lambda>_. Some []), ed_canonical_bytes = (\<lambda>_. Some []),
     ed_blake3_hex = (\<lambda>_. replicate 64 CHR ''a''), ed_uuid_string = (\<lambda>_. [])\<rparr>"

text \<open>An inbound envelope of a kind in a room.\<close>

definition example_envelope :: "message_kind \<Rightarrow> uuid option \<Rightarrow> json envelope" where
  "example_envelope kind room = \<lparr>env_v = 1, env_type = kind, env_id = 0, env_room_id = room,
     env_sender = None, env_ts_ms = 0, env_seq = 0, env_payload = JObject []\<rparr>"

theorem signed_bytes_separate_witness:
  "domain_tag ''DRAW_START'' \<noteq> domain_tag ''SIGNAL''"
proof -
  have "drawing_signed_bytes example_edge example_stroke = Some (domain_tag ''DRAW_START'' @ [])"
    by (simp add: drawing_signed_bytes_def example_edge_def)
  moreover have "signal_signed_bytes (Some []) = Some (domain_tag ''SIGNAL'' @ [])"
    by (simp add: signal_signed_bytes_def)
  ultimately show ?thesis using signed_bytes_separate by (metis append_Nil2)
qed

end
