(* ===== verification/Playback.thy ===== *)
theory Playback
  imports Inbound
begin

text \<open>
  PLAYBACK_CMD, \<open>rooms/playback.rs\<close>: the single arbiter of play, pause and seek. A command is
  checked and applied under the room's lock, and published before the lock is dropped; the
  registry returned is the one after that.
\<close>

datatype playback_error =
  PbNoRoomId | PbNotJoined | PbRoomClosed | PbInvalidTransition nat | PbNotHost
| PbStaleCommand nat nat | PbDuplicateCommand nat nat | PbBadPayload string

fun playback_room_error :: "playback_error \<Rightarrow> room_error" where
  "playback_room_error PbNoRoomId = InvalidState"
| "playback_room_error PbNotJoined = NotJoined"
| "playback_room_error PbRoomClosed = RoomClosedErr"
| "playback_room_error (PbInvalidTransition _) = InvalidState"
| "playback_room_error PbNotHost = NotHost"
| "playback_room_error (PbStaleCommand got expected) = StaleCommand got expected"
| "playback_room_error (PbDuplicateCommand got prev) = DuplicateCommand got prev"
| "playback_room_error (PbBadPayload msg) = Internal msg"

fun transition_ok :: "room_lifecycle \<Rightarrow> playback_action \<Rightarrow> bool" where
  "transition_ok Open Play = True"
| "transition_ok Paused Play = True"
| "transition_ok Playing Play = True"
| "transition_ok Playing Pause = True"
| "transition_ok Paused Pause = True"
| "transition_ok Playing Seek = True"
| "transition_ok Paused Seek = True"
| "transition_ok _ _ = False"

fun next_lifecycle :: "playback_action \<Rightarrow> room_lifecycle \<Rightarrow> room_lifecycle" where
  "next_lifecycle Play _ = Playing"
| "next_lifecycle Pause _ = Paused"
| "next_lifecycle Seek s = s"

definition last_acked :: "uuid \<Rightarrow> room_state \<Rightarrow> nat" where
  "last_acked user rs =
     (case hm_get (pb_last_acked_seq (rs_playback rs)) user of None \<Rightarrow> 0 | Some s \<Rightarrow> s)"

text \<open>Step 6: the accepted command enters the room's bookkeeping.\<close>

definition apply_playback ::
    "playback_command_payload \<Rightarrow> uuid \<Rightarrow> millis \<Rightarrow> nat \<Rightarrow> room_state \<Rightarrow> room_state" where
  "apply_playback cmd user now_ms server_seq rs =
     rs\<lparr>rs_playback :=
          \<lparr>pb_server_seq = server_seq,
           pb_last_acked_seq = hm_insert user (pc_monotonic_seq cmd) (pb_last_acked_seq (rs_playback rs)),
           pb_last_position_ms = pc_media_position_ms cmd,
           pb_last_server_ts_ms = now_ms,
           pb_last_sender = Some user,
           pb_last_monotonic_seq = pc_monotonic_seq cmd\<rparr>,
        rs_state := next_lifecycle (pc_action cmd) (rs_state rs)\<rparr>"

definition accepted_event ::
    "playback_command_payload \<Rightarrow> uuid \<Rightarrow> millis \<Rightarrow> nat \<Rightarrow> playback_accepted_event" where
  "accepted_event cmd user now_ms server_seq =
     \<lparr>pa_sender_id = user, pa_action = pc_action cmd, pa_monotonic_seq = pc_monotonic_seq cmd,
      pa_media_position_ms = pc_media_position_ms cmd, pa_client_ts_ms = pc_client_ts_ms cmd,
      pa_server_seq = server_seq, pa_server_ts_ms = now_ms\<rparr>"

definition playback_locked ::
    "playback_command_payload \<Rightarrow> uuid \<Rightarrow> bytes \<Rightarrow> millis \<Rightarrow> room_state
       \<Rightarrow> playback_error + (playback_accepted_event \<times> room_state)" where
  "playback_locked cmd user pubkey now_ms rs =
     (if rs_state rs = Ended then Inl PbRoomClosed
      else case live_record user rs of
        None \<Rightarrow> Inl PbNotJoined
      | Some caller \<Rightarrow>
          if p_pubkey caller \<noteq> pubkey \<or> \<not> participant_can caller ScopePlayback IssuePlaybackCommand
          then Inl PbNotHost
          else let prev = last_acked user rs;
                   expected = saturating_add_u64 prev 1
               in if \<not> transition_ok (rs_state rs) (pc_action cmd) then Inl (PbInvalidTransition expected)
                  else if pc_monotonic_seq cmd < expected
                  then Inl (PbDuplicateCommand (pc_monotonic_seq cmd) prev)
                  else if pc_monotonic_seq cmd > expected
                  then Inl (PbStaleCommand (pc_monotonic_seq cmd) expected)
                  else (case checked_add_u64 (pb_server_seq (rs_playback rs)) 1 of
                          None \<Rightarrow> Inl (PbBadPayload ''server_seq overflow'')
                        | Some server_seq \<Rightarrow>
                            Inr (accepted_event cmd user now_ms server_seq,
                                 apply_playback cmd user now_ms server_seq rs)))"

definition handle_playback_cmd ::
    "'m edge \<Rightarrow> json envelope \<Rightarrow> millis \<Rightarrow> uuid \<Rightarrow> bytes \<Rightarrow> 'm registry
       \<Rightarrow> (playback_error + 'm room_event) \<times> 'm registry" where
  "handle_playback_cmd ed env now_ms user pubkey reg =
     (case env_room_id env of
        None \<Rightarrow> (Inl PbNoRoomId, reg)
      | Some rid \<Rightarrow>
     (case ed_playback ed (env_payload env) of
        None \<Rightarrow> (Inl (PbBadPayload ''payload''), reg)
      | Some cmd \<Rightarrow>
     (case get_by_id rid reg of
        None \<Rightarrow> (Inl PbNotJoined, reg)
      | Some rs \<Rightarrow>
          (case playback_locked cmd user pubkey now_ms rs of
             Inl e \<Rightarrow> (Inl e, reg)
           | Inr (accepted, rs') \<Rightarrow>
               (let event = EvPlaybackCommand accepted
                in (Inr event, publish_events (ed_codec ed) [event] rid (put_room rid rs' reg)))))))"

section \<open>Facts\<close>

definition playback_allowed :: "playback_command_payload \<Rightarrow> uuid \<Rightarrow> bytes \<Rightarrow> room_state \<Rightarrow> bool" where
  "playback_allowed cmd user pubkey rs \<longleftrightarrow> rs_state rs \<noteq> Ended
     \<and> (\<exists>p. live_record user rs = Some p \<and> p_pubkey p = pubkey
           \<and> (p_is_host p \<or> p_cap_set p AND PLAYBACK_CONTROL \<noteq> 0))
     \<and> (rs_state rs = Open \<longrightarrow> pc_action cmd = Play)
     \<and> pc_monotonic_seq cmd = saturating_add_u64 (last_acked user rs) 1
     \<and> pb_server_seq (rs_playback rs) < u64_max"

lemma transition_ok_iff: "s \<noteq> Ended \<Longrightarrow> transition_ok s a \<longleftrightarrow> (s = Open \<longrightarrow> a = Play)"
  by (cases s; cases a) simp_all

lemma playback_locked_iff:
  "playback_locked cmd user pubkey now_ms rs = Inr (ev, rs') \<longleftrightarrow>
     playback_allowed cmd user pubkey rs
     \<and> ev = accepted_event cmd user now_ms (Suc (pb_server_seq (rs_playback rs)))
     \<and> rs' = apply_playback cmd user now_ms (Suc (pb_server_seq (rs_playback rs))) rs"
  by (auto simp: playback_locked_def playback_allowed_def transition_ok_iff participant_can_def
      checked_add_u64_def Let_def split: option.splits if_splits)

lemma apply_playback_simps [simp]:
  "rs_id (apply_playback cmd u t n rs) = rs_id rs"
  "rs_code (apply_playback cmd u t n rs) = rs_code rs"
  "rs_participants (apply_playback cmd u t n rs) = rs_participants rs"
  "rs_drawing (apply_playback cmd u t n rs) = rs_drawing rs"
  "rs_host_disconnect_deadline_ms (apply_playback cmd u t n rs) = rs_host_disconnect_deadline_ms rs"
  "rs_state (apply_playback cmd u t n rs) = next_lifecycle (pc_action cmd) (rs_state rs)"
  "pb_server_seq (rs_playback (apply_playback cmd u t n rs)) = n"
  "hm_get (pb_last_acked_seq (rs_playback (apply_playback cmd u t n rs))) v =
     (if v = u then Some (pc_monotonic_seq cmd) else hm_get (pb_last_acked_seq (rs_playback rs)) v)"
  by (simp_all add: apply_playback_def)

lemma apply_playback_same:
  assumes "room_inv rs" and "playback_allowed cmd u pk rs"
  shows "same_room rs (apply_playback cmd u t n rs)"
proof -
  have "next_lifecycle (pc_action cmd) (rs_state rs) \<noteq> Ended"
    and "next_lifecycle (pc_action cmd) (rs_state rs) \<noteq> Open"
    using assms(2) by (cases "pc_action cmd"; cases "rs_state rs"; simp add: playback_allowed_def)+
  moreover have "rs_state rs \<noteq> Ended" using assms(2) by (simp add: playback_allowed_def)
  ultimately show ?thesis
    using assms(1) by (auto simp: same_room_def room_inv_def playback_inv_def live_count_def apply_playback_def)
qed

text \<open>What the handler does: one accepted command in one room, or nothing.\<close>

lemma handle_playback_cases:
  assumes "handle_playback_cmd ed env now_ms user pubkey reg = (res, reg')"
  obtains (refused) e where "res = Inl e" "reg' = reg"
    | (accepted) rid cmd rs where "env_room_id env = Some rid" "ed_playback ed (env_payload env) = Some cmd"
      "get_by_id rid reg = Some rs" "playback_allowed cmd user pubkey rs"
      "res = Inr (EvPlaybackCommand (accepted_event cmd user now_ms (Suc (pb_server_seq (rs_playback rs)))))"
      "reg' = publish rid ((event_to_broadcast_item (EvPlaybackCommand (accepted_event cmd user now_ms
          (Suc (pb_server_seq (rs_playback rs))))) rid (Some user)))
        (put_room rid (apply_playback cmd user now_ms (Suc (pb_server_seq (rs_playback rs))) rs) reg)"
proof (cases "\<exists>rid cmd rs ev rs'. env_room_id env = Some rid \<and> ed_playback ed (env_payload env) = Some cmd
    \<and> get_by_id rid reg = Some rs \<and> playback_locked cmd user pubkey now_ms rs = Inr (ev, rs')")
  case True
  then obtain rid cmd rs ev rs' where c: "env_room_id env = Some rid"
    "ed_playback ed (env_payload env) = Some cmd" "get_by_id rid reg = Some rs"
    "playback_locked cmd user pubkey now_ms rs = Inr (ev, rs')" by blast
  from c(4) have ok: "playback_allowed cmd user pubkey rs"
    and ev: "ev = accepted_event cmd user now_ms (Suc (pb_server_seq (rs_playback rs)))"
    and rs': "rs' = apply_playback cmd user now_ms (Suc (pb_server_seq (rs_playback rs))) rs"
    by (simp_all add: playback_locked_iff)
  show thesis
    by (rule accepted [OF c(1-3) ok])
      (use assms c in \<open>simp_all add: handle_playback_cmd_def publish_events_def publish_event_def
        ev rs' accepted_event_def event_to_broadcast_item_def Let_def\<close>)
next
  case False
  with assms refused show thesis
    by (auto simp: handle_playback_cmd_def split: option.splits sum.splits prod.splits)
qed

lemma handle_playback_inv:
  assumes "registry_inv reg"
  shows "registry_inv (snd (handle_playback_cmd ed env now_ms user pubkey reg))"
proof -
  obtain res reg' where h: "handle_playback_cmd ed env now_ms user pubkey reg = (res, reg')" by (metis surj_pair)
  then have "registry_inv reg'"
  proof (cases rule: handle_playback_cases)
    case (accepted rid cmd rs)
    then have rs: "hm_get (rg_by_id reg) rid = Some rs" by (simp add: get_by_id_def)
    have "same_room rs (apply_playback cmd user now_ms (Suc (pb_server_seq (rs_playback rs))) rs)"
      using registry_room [OF assms rs] accepted(4) by (intro apply_playback_same) simp_all
    from put_same_room [OF assms rs this] show ?thesis by (simp add: accepted(6) publish_inv)
  qed (use assms in simp)
  with h show ?thesis by simp
qed

section \<open>Runs of commands\<close>

text \<open>A room under a run of commands, by anyone: each is applied or refused.\<close>

definition play_step ::
    "room_state \<Rightarrow> playback_command_payload \<times> uuid \<times> bytes \<times> millis \<Rightarrow> room_state" where
  "play_step rs a =
     (let (cmd, user, pubkey, now_ms) = a
      in case playback_locked cmd user pubkey now_ms rs of Inl _ \<Rightarrow> rs | Inr (_, rs') \<Rightarrow> rs')"

lemma play_step_cases:
  obtains (refused) "play_step rs a = rs"
    | (applied) cmd user pubkey now_ms where "playback_allowed cmd user pubkey rs"
      "play_step rs a = apply_playback cmd user now_ms (Suc (pb_server_seq (rs_playback rs))) rs"
proof (cases a)
  case (fields cmd user pubkey now_ms)
  show thesis
  proof (cases "playback_locked cmd user pubkey now_ms rs")
    case (Inl e)
    with fields refused show thesis by (simp add: play_step_def)
  next
    case (Inr r)
    obtain ev rs' where "r = (ev, rs')" by (cases r)
    with Inr have ok: "playback_locked cmd user pubkey now_ms rs = Inr (ev, rs')" by simp
    then have "playback_allowed cmd user pubkey rs"
        "rs' = apply_playback cmd user now_ms (Suc (pb_server_seq (rs_playback rs))) rs"
      by (simp_all add: playback_locked_iff)
    with ok fields show thesis by (intro applied [of cmd user pubkey now_ms]) (simp_all add: play_step_def)
  qed
qed

lemma play_step_acked:
  assumes "last_acked u rs \<le> u64_max"
  shows "last_acked u rs \<le> last_acked u (play_step rs a) \<and> last_acked u (play_step rs a) \<le> u64_max"
proof (cases rule: play_step_cases [of rs a])
  case (applied cmd user pubkey now_ms)
  from applied(1) have "pc_monotonic_seq cmd = saturating_add_u64 (last_acked user rs) 1"
    by (simp add: playback_allowed_def)
  with assms show ?thesis
    by (cases "u = user") (simp_all add: applied(2) last_acked_def saturating_add_u64_def)
qed (use assms in simp)

interpretation acked: counting_machine play_step "\<lambda>rs. room_inv rs \<and> last_acked u rs \<le> u64_max" "last_acked u" for u
proof
  show "room_inv (play_step rs a) \<and> last_acked u (play_step rs a) \<le> u64_max"
    if "room_inv rs \<and> last_acked u rs \<le> u64_max" for rs a
    using apply_playback_same [of rs] that play_step_acked [of u rs a]
    by (cases rule: play_step_cases [of rs a]) (auto simp: same_room_def)
qed (simp add: play_step_acked)

section \<open>Properties\<close>

text \<open>
  C11: a playback command changes something only if its sender holds a live seat in the named
  live room with the session's key, is the host or holds PLAYBACK_CONTROL, the room has been
  started (or this is a PLAY), and its number is the next one of this sender. Then the room's
  server sequence and the sender's counter advance by exactly one and no other counter moves,
  the play state follows the action, a client that joins now is told this position, and exactly
  one PLAYBACK_CMD with the new server number is published, to that room only.
\<close>

theorem handle_playback_spec:
  assumes "handle_playback_cmd ed env now_ms user pubkey reg = (res, reg')"
  shows "case res of
      Inl e \<Rightarrow> reg' = reg
    | Inr event \<Rightarrow> \<exists>rid cmd rs rs'. env_room_id env = Some rid \<and> ed_playback ed (env_payload env) = Some cmd
        \<and> get_by_id rid reg = Some rs \<and> playback_allowed cmd user pubkey rs \<and> get_by_id rid reg' = Some rs'
        \<and> pb_server_seq (rs_playback rs') = Suc (pb_server_seq (rs_playback rs))
        \<and> last_acked user rs' = pc_monotonic_seq cmd
        \<and> (\<forall>v. v \<noteq> user \<longrightarrow> last_acked v rs' = last_acked v rs)
        \<and> rs_state rs' = next_lifecycle (pc_action cmd) (rs_state rs)
        \<and> map_option (\<lambda>s. (ps_paused s, ps_media_position_ms s, ps_server_seq s, ps_sender_id s))
            (playback_snapshot_of rs') = Some (rs_state rs' = Paused, pc_media_position_ms cmd,
              Suc (pb_server_seq (rs_playback rs)), user)
        \<and> rs_participants rs' = rs_participants rs \<and> rs_drawing rs' = rs_drawing rs
        \<and> channel rid reg' = map_option (\<lambda>sent. sent @ [event_to_broadcast_item event rid (Some user)])
            (channel rid reg)
        \<and> (\<forall>x. x \<noteq> rid \<longrightarrow> get_by_id x reg' = get_by_id x reg \<and> channel x reg' = channel x reg)"
  using assms
proof (cases rule: handle_playback_cases)
  case (refused e)
  then show ?thesis by simp
next
  case (accepted rid cmd rs)
  let ?rs' = "apply_playback cmd user now_ms (Suc (pb_server_seq (rs_playback rs))) rs"
  have "rs_state ?rs' \<in> {Playing, Paused}"
    using accepted(4) by (cases "pc_action cmd"; cases "rs_state rs"; simp add: playback_allowed_def)
  then have "map_option (\<lambda>s. (ps_paused s, ps_media_position_ms s, ps_server_seq s, ps_sender_id s))
      (playback_snapshot_of ?rs') = Some (rs_state ?rs' = Paused, pc_media_position_ms cmd,
        Suc (pb_server_seq (rs_playback rs)), user)"
    by (auto simp: playback_snapshot_of_def Let_def) (simp_all add: apply_playback_def)
  moreover have "get_by_id x reg' = (if x = rid then Some ?rs' else get_by_id x reg)" for x
    by (simp add: get_by_id_def accepted(6))
  moreover have "last_acked v ?rs' = (if v = user then pc_monotonic_seq cmd else last_acked v rs)" for v
    by (simp add: last_acked_def)
  ultimately show ?thesis
    using accepted(1-5)
    by (simp add: accepted(6) channel_publish)
qed

definition played_registry :: "nat registry" where
  "played_registry = snd (handle_playback_cmd example_edge (example_envelope MkPlaybackCmd (Some 1)) 0 7 []
     example_registry)"

theorem handle_playback_spec_witness:
  "map_option (\<lambda>rs. pb_server_seq (rs_playback rs)) (get_by_id 1 played_registry) = Some 1"
proof -
  let ?env = "example_envelope MkPlaybackCmd (Some 1)"
  let ?h = "handle_playback_cmd example_edge ?env 0 7 [] (example_registry :: nat registry)"
  let ?room = "room_state_new 1 (ascii ''ABCDEF'') [] 7 [] True 0 HOST 0"
  have room: "get_by_id 1 (example_registry :: nat registry) = Some ?room"
    by (simp add: get_by_id_def example_registry_def insert_room_state_def)
  obtain event where ok: "fst ?h = Inr event"
    by (simp add: handle_playback_cmd_def example_envelope_def example_edge_def room playback_locked_def
        room_state_new_def live_record_def participant_can_def last_acked_def playback_default_def
        saturating_add_u64_def checked_add_u64_def u64_max_def Let_def)
  have env: "env_room_id ?env = Some 1" by (simp add: example_envelope_def)
  have zero: "pb_server_seq (rs_playback ?room) = 0" by (simp add: room_state_new_def playback_default_def)
  have "?h = (Inr event, played_registry)" using ok by (metis played_registry_def prod.collapse)
  from handle_playback_spec [OF this] obtain rid rs rs' where rid: "env_room_id ?env = Some rid"
    and rs: "get_by_id rid (example_registry :: nat registry) = Some rs" "get_by_id rid played_registry = Some rs'"
    and seq: "pb_server_seq (rs_playback rs') = Suc (pb_server_seq (rs_playback rs))"
    by (simp only: sum.case) blast
  from rid env have "rid = 1" by simp
  with rs room seq zero show ?thesis by simp
qed

text \<open>
  An accepted command cannot be replayed: sent again by the same session, it is refused
  as a duplicate, whatever its action, and nothing changes.
\<close>

theorem playback_replay_refused:
  assumes inv: "registry_inv reg" and h: "handle_playback_cmd ed env now_ms user pubkey reg = (Inr event, reg')"
    and cmd: "ed_playback ed (env_payload env) = Some cmd" "pc_monotonic_seq cmd < u64_max"
  shows "handle_playback_cmd ed env later user pubkey reg'
    = (Inl (PbDuplicateCommand (pc_monotonic_seq cmd) (pc_monotonic_seq cmd)), reg')"
  using h
proof (cases rule: handle_playback_cases)
  case (accepted rid cmd2 rs)
  let ?rs' = "apply_playback cmd user now_ms (Suc (pb_server_seq (rs_playback rs))) rs"
  have cmd2: "cmd2 = cmd" using accepted(2) cmd by simp
  have rs': "get_by_id rid reg' = Some ?rs'" by (simp add: get_by_id_def accepted(6) cmd2)
  from accepted(4) obtain p where p: "live_record user rs = Some p" "p_pubkey p = pubkey"
    "participant_can p ScopePlayback IssuePlaybackCommand"
    by (auto simp: playback_allowed_def participant_can_def)
  have "live_record user ?rs' = Some p" using p(1) by (simp add: live_record_def)
  moreover have "rs_state ?rs' \<noteq> Ended \<and> transition_ok (rs_state ?rs') (pc_action cmd)"
    using accepted(4) by (cases "pc_action cmd"; cases "rs_state rs"; simp add: playback_allowed_def cmd2)
  moreover have "last_acked user ?rs' = pc_monotonic_seq cmd" by (simp add: last_acked_def)
  moreover have "pc_monotonic_seq cmd < saturating_add_u64 (pc_monotonic_seq cmd) 1"
    using cmd(2) by (simp add: saturating_add_u64_def)
  ultimately have "playback_locked cmd user pubkey later ?rs'
      = Inl (PbDuplicateCommand (pc_monotonic_seq cmd) (pc_monotonic_seq cmd))"
    using p(2,3) by (simp add: playback_locked_def Let_def)
  then show ?thesis using accepted(1,2) cmd2 rs' by (simp add: handle_playback_cmd_def)
qed simp

theorem playback_replay_refused_witness:
  "fst (handle_playback_cmd example_edge (example_envelope MkPlaybackCmd (Some 1)) 3 7 [] played_registry)
     = Inl (PbDuplicateCommand 1 1)"
proof -
  let ?env = "example_envelope MkPlaybackCmd (Some 1)"
  let ?h = "handle_playback_cmd example_edge ?env 0 7 [] (example_registry :: nat registry)"
  have room: "get_by_id 1 (example_registry :: nat registry)
      = Some (room_state_new 1 (ascii ''ABCDEF'') [] 7 [] True 0 HOST 0)"
    by (simp add: get_by_id_def example_registry_def insert_room_state_def)
  obtain event where ok: "fst ?h = Inr event"
    by (simp add: handle_playback_cmd_def example_envelope_def example_edge_def room playback_locked_def
        room_state_new_def live_record_def participant_can_def last_acked_def playback_default_def
        saturating_add_u64_def checked_add_u64_def u64_max_def Let_def)
  have h: "?h = (Inr event, played_registry)" using ok by (metis played_registry_def prod.collapse)
  have cmd: "ed_playback example_edge (env_payload ?env) = Some \<lparr>pc_action = Play, pc_monotonic_seq = 1,
      pc_media_position_ms = 0, pc_client_ts_ms = 0\<rparr>" by (simp add: example_edge_def)
  from playback_replay_refused [OF example_registry_inv h cmd] show ?thesis by (simp add: u64_max_def)
qed

text \<open>
  The number of an accepted command is spent for good: after any further commands, by
  anyone, none of this sender's commands with that or an earlier number is accepted, whatever it
  says.
\<close>

theorem playback_number_once:
  assumes inv: "room_inv rs" and ok: "playback_locked cmd user pubkey now_ms rs = Inr (event, rs')"
    and small: "pc_monotonic_seq cmd < u64_max" and again: "pc_monotonic_seq cmd2 \<le> pc_monotonic_seq cmd"
  shows "\<exists>e. playback_locked cmd2 user pubkey2 later (foldl play_step rs' ops) = Inl e"
proof -
  have rs': "rs' = apply_playback cmd user now_ms (Suc (pb_server_seq (rs_playback rs))) rs"
    and allowed: "playback_allowed cmd user pubkey rs"
    using ok by (simp_all add: playback_locked_iff)
  have "room_inv rs'" using apply_playback_same [OF inv allowed] by (simp add: rs' same_room_def)
  moreover have "last_acked user rs' = pc_monotonic_seq cmd" by (simp add: rs' last_acked_def)
  ultimately have "pc_monotonic_seq cmd \<le> last_acked user (foldl play_step rs' ops)"
    using acked.run_counter [of rs' user ops] small by simp
  then have "pc_monotonic_seq cmd2 \<noteq> saturating_add_u64 (last_acked user (foldl play_step rs' ops)) 1"
    using small again by (simp add: saturating_add_u64_def)
  then show ?thesis
    by (cases "playback_locked cmd2 user pubkey2 later (foldl play_step rs' ops)")
      (auto simp: playback_locked_iff playback_allowed_def)
qed

theorem playback_number_once_witness:
  "\<exists>e. playback_locked \<lparr>pc_action = Pause, pc_monotonic_seq = 1, pc_media_position_ms = 9, pc_client_ts_ms = 0\<rparr> 7 [] 80
     (apply_playback \<lparr>pc_action = Play, pc_monotonic_seq = 1, pc_media_position_ms = 0, pc_client_ts_ms = 0\<rparr> 7 0 1
        (room_state_new 1 (ascii ''ABCDEF'') [] 7 [] True 0 HOST 0)) = Inl e"
proof -
  let ?rs = "room_state_new 1 (ascii ''ABCDEF'') [] 7 [] True 0 HOST 0"
  let ?cmd = "\<lparr>pc_action = Play, pc_monotonic_seq = 1, pc_media_position_ms = 0, pc_client_ts_ms = 0\<rparr>"
  have "playback_locked ?cmd 7 [] 0 ?rs = Inr (accepted_event ?cmd 7 0 1, apply_playback ?cmd 7 0 1 ?rs)"
    by (simp add: playback_locked_def room_state_new_def live_record_def participant_can_def last_acked_def
        playback_default_def saturating_add_u64_def checked_add_u64_def u64_max_def Let_def)
  from playback_number_once [OF room_inv_new this, where ops = "[]"
      and ?cmd2.0 = "\<lparr>pc_action = Pause, pc_monotonic_seq = 1, pc_media_position_ms = 9, pc_client_ts_ms = 0\<rparr>"]
  show ?thesis by (simp add: u64_max_def)
qed

end
