(* ===== verification/Drawing.thy ===== *)
theory Drawing
  imports Playback Validation
begin

text \<open>
  DRAW_BEGIN, DRAW_POINT, DRAW_END, DRAW_UNDO and DRAW_CLEAR: the handlers of
  \<open>rooms/drawing.rs\<close> on the room's state, and their dispatch in \<open>rooms/dispatch.rs\<close>, which holds
  the room's lock, numbers the events with the room's drawing sequence and publishes them
  before the lock is dropped. The shared canvas, a map from stroke to owner, is the
  specification: what a client shows that applies the published events in order.
\<close>

section \<open>Handlers\<close>

datatype drawing_error = NotSigned | BadSignature | StrokeIdMismatch | UnknownStroke | OutOfRange

definition verify_stroke_begin_signature ::
    "'m edge \<Rightarrow> json envelope \<Rightarrow> stroke_begin_payload \<Rightarrow> uuid \<Rightarrow> bytes \<Rightarrow> drawing_error + unit" where
  "verify_stroke_begin_signature ed env payload expected_sender expected_pubkey =
     (case env_sender env of
        None \<Rightarrow> Inl NotSigned
      | Some sender \<Rightarrow>
          if snd_user_id sender \<noteq> expected_sender then Inl NotSigned
          else if snd_pubkey sender \<noteq> expected_pubkey then Inl NotSigned
          else if length (snd_sig sender) \<noteq> 64 then Inl BadSignature
          else if \<not> ed_valid_key ed expected_pubkey then Inl BadSignature
          else (case drawing_signed_bytes ed payload of
                  None \<Rightarrow> Inl BadSignature
                | Some msg \<Rightarrow>
                    if ed_verify ed expected_pubkey msg (snd_sig sender) then Inr () else Inl BadSignature))"

text \<open>
  \<open>err_outcome\<close> answers the caller with INVALID_STATE; its message is the text of the
  \<open>drawing_error\<close>, or of the JSON error (\<open>None\<close>).
\<close>

definition err_outcome :: "json envelope \<Rightarrow> drawing_error option \<Rightarrow> 'm outcome" where
  "err_outcome env reason =
     outcome_default\<lparr>oc_to_caller :=
       [\<lparr>rp_type = MkRoomError, rp_room_id = env_room_id env,
         rp_sender = map_option snd_user_id (env_sender env), rp_ts_ms = 0,
         rp_payload = WRoomError \<lparr>rep_code = CInvalidState, rep_expected_seq = None\<rparr>\<rparr>]\<rparr>"

definition outcome_events :: "'m room_event list \<Rightarrow> 'm outcome" where
  "outcome_events events = outcome_default\<lparr>oc_events := events\<rparr>"

definition named_room :: "json envelope \<Rightarrow> room_state \<Rightarrow> uuid" where
  "named_room env rs = (case env_room_id env of Some r \<Rightarrow> r | None \<Rightarrow> rs_id rs)"

definition f32_lt :: "f32 \<Rightarrow> f32 \<Rightarrow> bool" where
  "f32_lt a b \<longleftrightarrow> \<not> f32_is_nan a \<and> \<not> f32_is_nan b \<and> f32_key a < f32_key b"

definition handle_stroke_begin ::
    "'m edge \<Rightarrow> json envelope \<Rightarrow> uuid \<Rightarrow> bytes \<Rightarrow> millis \<Rightarrow> room_state \<Rightarrow> 'm outcome \<times> room_state" where
  "handle_stroke_begin ed env user pubkey now_ms rs =
     (case ed_stroke_begin ed (env_payload env) of
        None \<Rightarrow> (err_outcome env None, rs)
      | Some payload \<Rightarrow>
          if \<not> validate_unit_range (sbp_x payload) \<or> \<not> validate_unit_range (sbp_y payload)
             \<or> \<not> validate_unit_range (sbp_pressure payload)
             \<or> \<not> (f32_is_finite (sbp_width payload) \<and> f32_lt f32_zero (sbp_width payload))
          then (err_outcome env (Some OutOfRange), rs)
          else (case verify_stroke_begin_signature ed env payload user pubkey of
            Inl e \<Rightarrow> (err_outcome env (Some e), rs)
          | Inr _ \<Rightarrow>
              if hm_contains (sb_pending (rs_drawing rs)) (sbp_stroke_id payload)
                 \<or> owner_of (sbp_stroke_id payload) (rs_drawing rs) \<noteq> None
              then (err_outcome env (Some StrokeIdMismatch), rs)
              else let room_id = named_room env rs;
                       (finished, sb1) = finish_oldest_open_strokes user now_ms (rs_drawing rs);
                       events = map (\<lambda>(stroke_id, owner).
                         EvStrokeEnd room_id owner \<lparr>sep_stroke_id = stroke_id, sep_ts_ms = now_ms\<rparr>) finished;
                       sb2 = sb1\<lparr>sb_pending := hm_insert (sbp_stroke_id payload)
                         \<lparr>pst_sender_id = user, pst_sender_pubkey = pubkey, pst_started_ms = now_ms,
                          pst_cleared = False\<rparr> (sb_pending sb1)\<rparr>;
                       sb3 = record_begin user payload sb2
                   in (outcome_events (events @ [EvStrokeBegin room_id user payload]),
                       rs\<lparr>rs_drawing := sb3\<rparr>)))"

definition handle_stroke_point ::
    "'m edge \<Rightarrow> json envelope \<Rightarrow> uuid \<Rightarrow> room_state \<Rightarrow> 'm outcome \<times> room_state" where
  "handle_stroke_point ed env user rs =
     (case ed_stroke_point ed (env_payload env) of
        None \<Rightarrow> (err_outcome env None, rs)
      | Some payload \<Rightarrow>
          if \<not> validate_unit_range (spp_x payload) \<or> \<not> validate_unit_range (spp_y payload)
             \<or> \<not> validate_unit_range (spp_pressure payload)
          then (err_outcome env (Some OutOfRange), rs)
          else (case hm_get (sb_pending (rs_drawing rs)) (spp_stroke_id payload) of
            None \<Rightarrow> (err_outcome env (Some UnknownStroke), rs)
          | Some binding \<Rightarrow>
              if pst_sender_id binding \<noteq> user then (err_outcome env (Some StrokeIdMismatch), rs)
              else if pst_cleared binding then (outcome_default, rs)
              else (outcome_events [EvStrokePoint (named_room env rs) (pst_sender_id binding) payload],
                    rs\<lparr>rs_drawing := record_point payload (rs_drawing rs)\<rparr>)))"

definition handle_stroke_end ::
    "'m edge \<Rightarrow> json envelope \<Rightarrow> uuid \<Rightarrow> room_state \<Rightarrow> 'm outcome \<times> room_state" where
  "handle_stroke_end ed env user rs =
     (case ed_stroke_end ed (env_payload env) of
        None \<Rightarrow> (err_outcome env None, rs)
      | Some payload \<Rightarrow>
          (case hm_get (sb_pending (rs_drawing rs)) (sep_stroke_id payload) of
            None \<Rightarrow> (err_outcome env (Some UnknownStroke), rs)
          | Some binding \<Rightarrow>
              if pst_sender_id binding \<noteq> user then (err_outcome env (Some StrokeIdMismatch), rs)
              else let owner = pst_sender_id binding;
                       sb1 = (rs_drawing rs)\<lparr>sb_pending :=
                         hm_remove (sep_stroke_id payload) (sb_pending (rs_drawing rs))\<rparr>
                   in if pst_cleared binding
                      then (outcome_default, rs\<lparr>rs_drawing := forget_content (sep_stroke_id payload) sb1\<rparr>)
                      else let sb2 = snd (commit (sep_stroke_id payload) owner sb1);
                               sb3 = record_end (sep_stroke_id payload) (sep_ts_ms payload) sb2
                           in (outcome_events [EvStrokeEnd (named_room env rs) owner payload],
                               rs\<lparr>rs_drawing := sb3\<rparr>)))"

definition actor_can :: "room_state \<Rightarrow> uuid \<Rightarrow> action \<Rightarrow> bool" where
  "actor_can rs user action \<longleftrightarrow>
     (case live_record user rs of
        None \<Rightarrow> False
      | Some p \<Rightarrow> present p \<and> participant_can p ScopeDrawing action)"

definition handle_stroke_undo ::
    "'m edge \<Rightarrow> json envelope \<Rightarrow> uuid \<Rightarrow> room_state \<Rightarrow> 'm outcome \<times> room_state" where
  "handle_stroke_undo ed env user rs =
     (case ed_stroke_undo ed (env_payload env) of
        None \<Rightarrow> (err_outcome env None, rs)
      | Some payload \<Rightarrow>
          (case owner_of (sup_stroke_id payload) (rs_drawing rs) of
            None \<Rightarrow> (outcome_default, rs)
          | Some owner \<Rightarrow>
              (let allowed = (if owner = user
                              then actor_can rs user UndoOwnStroke \<or> actor_can rs user UndoAnyStroke
                              else actor_can rs user UndoAnyStroke)
               in if \<not> allowed then (outcome_default, rs)
                  else (outcome_events [EvStrokeUndo (rs_id rs) user payload],
                        rs\<lparr>rs_drawing := snd (remove_committed (sup_stroke_id payload) (rs_drawing rs))\<rparr>))))"

definition handle_stroke_clear :: "uuid \<Rightarrow> room_state \<Rightarrow> 'm outcome \<times> room_state" where
  "handle_stroke_clear user rs =
     (if \<not> actor_can rs user ClearAll then (outcome_default, rs)
      else (outcome_events [EvStrokeClear (rs_id rs) user],
            rs\<lparr>rs_drawing := snd (clear_all (rs_drawing rs))\<rparr>))"

section \<open>Dispatch\<close>

definition caller_may_draw :: "room_state \<Rightarrow> uuid \<Rightarrow> bool" where
  "caller_may_draw rs user \<longleftrightarrow>
     (case live_record user rs of
        None \<Rightarrow> False
      | Some p \<Rightarrow> present p \<and> participant_can p ScopeDrawing DrawBegin)"

fun publish_numbered ::
    "'m codec \<Rightarrow> uuid \<Rightarrow> 'm room_event list \<Rightarrow> room_state \<Rightarrow> 'm registry \<Rightarrow> room_state \<times> 'm registry" where
  "publish_numbered cd rid [] rs reg = (rs, reg)"
| "publish_numbered cd rid (event # events) rs reg =
     (let (seq, sb) = next_seq (rs_drawing rs)
      in publish_numbered cd rid events (rs\<lparr>rs_drawing := sb\<rparr>) (publish_event cd event rid seq reg))"

text \<open>The events are taken out of the outcome, so that they are not published a second time.\<close>

definition publish_drawing_events_locked ::
    "'m codec \<Rightarrow> uuid \<Rightarrow> 'm outcome \<times> room_state \<Rightarrow> 'm registry \<Rightarrow> 'm outcome \<times> 'm registry" where
  "publish_drawing_events_locked cd rid res reg =
     (let (out, rs) = res;
          (rs', reg') = publish_numbered cd rid (oc_events out) rs reg
      in (out\<lparr>oc_events := []\<rparr>, put_room rid rs' reg'))"

definition default_reject :: "millis \<Rightarrow> 'm outcome" where
  "default_reject clock_ms = refuse CInvalidState clock_ms"

definition capability_reject :: "millis \<Rightarrow> 'm outcome" where
  "capability_reject clock_ms = refuse CNotHost clock_ms"

text \<open>
  The five dispatch functions open alike: the named room, membership, the room's lock. \<open>f\<close> is
  the rest, on the locked room. \<open>clock_ms\<close> stamps a refusal only.
\<close>

definition in_drawing_room ::
    "'m edge \<Rightarrow> json envelope \<Rightarrow> uuid \<Rightarrow> millis \<Rightarrow> 'm registry
       \<Rightarrow> (uuid \<Rightarrow> room_state \<Rightarrow> 'm outcome \<times> 'm registry) \<Rightarrow> 'm outcome \<times> 'm registry" where
  "in_drawing_room ed env user clock_ms reg f =
     (case env_room_id env of
        None \<Rightarrow> (default_reject clock_ms, reg)
      | Some rid \<Rightarrow>
          if \<not> is_user_in_room user rid reg then (default_reject clock_ms, reg)
          else (case get_by_id rid reg of
                  None \<Rightarrow> (default_reject clock_ms, reg)
                | Some rs \<Rightarrow> f rid rs))"

definition handle_stroke_begin_dispatch ::
    "'m edge \<Rightarrow> json envelope \<Rightarrow> uuid \<Rightarrow> bytes \<Rightarrow> millis \<Rightarrow> millis \<Rightarrow> 'm registry \<Rightarrow> 'm outcome \<times> 'm registry" where
  "handle_stroke_begin_dispatch ed env user pubkey now_ms clock_ms reg =
     in_drawing_room ed env user clock_ms reg
       (\<lambda>rid rs. if \<not> caller_may_draw rs user then (capability_reject clock_ms, reg)
                 else publish_drawing_events_locked (ed_codec ed) rid
                        (handle_stroke_begin ed env user pubkey now_ms rs) reg)"

definition handle_stroke_point_dispatch ::
    "'m edge \<Rightarrow> json envelope \<Rightarrow> uuid \<Rightarrow> millis \<Rightarrow> 'm registry \<Rightarrow> 'm outcome \<times> 'm registry" where
  "handle_stroke_point_dispatch ed env user clock_ms reg =
     in_drawing_room ed env user clock_ms reg
       (\<lambda>rid rs. publish_drawing_events_locked (ed_codec ed) rid (handle_stroke_point ed env user rs) reg)"

definition handle_stroke_end_dispatch ::
    "'m edge \<Rightarrow> json envelope \<Rightarrow> uuid \<Rightarrow> millis \<Rightarrow> 'm registry \<Rightarrow> 'm outcome \<times> 'm registry" where
  "handle_stroke_end_dispatch ed env user clock_ms reg =
     in_drawing_room ed env user clock_ms reg
       (\<lambda>rid rs. publish_drawing_events_locked (ed_codec ed) rid (handle_stroke_end ed env user rs) reg)"

definition handle_stroke_undo_dispatch ::
    "'m edge \<Rightarrow> json envelope \<Rightarrow> uuid \<Rightarrow> millis \<Rightarrow> 'm registry \<Rightarrow> 'm outcome \<times> 'm registry" where
  "handle_stroke_undo_dispatch ed env user clock_ms reg =
     in_drawing_room ed env user clock_ms reg
       (\<lambda>rid rs. publish_drawing_events_locked (ed_codec ed) rid (handle_stroke_undo ed env user rs) reg)"

definition handle_stroke_clear_dispatch ::
    "'m edge \<Rightarrow> json envelope \<Rightarrow> uuid \<Rightarrow> millis \<Rightarrow> 'm registry \<Rightarrow> 'm outcome \<times> 'm registry" where
  "handle_stroke_clear_dispatch ed env user clock_ms reg =
     in_drawing_room ed env user clock_ms reg
       (\<lambda>rid rs. publish_drawing_events_locked (ed_codec ed) rid (handle_stroke_clear user rs) reg)"

text \<open>The drawing arms of the dispatcher's routing.\<close>

definition dispatch_drawing ::
    "'m edge \<Rightarrow> json envelope \<Rightarrow> uuid \<Rightarrow> bytes \<Rightarrow> millis \<Rightarrow> millis \<Rightarrow> 'm registry \<Rightarrow> 'm outcome \<times> 'm registry" where
  "dispatch_drawing ed env user pubkey now_ms clock_ms reg =
     (case env_type env of
        MkStrokeBegin \<Rightarrow> handle_stroke_begin_dispatch ed env user pubkey now_ms clock_ms reg
      | MkStrokePoint \<Rightarrow> handle_stroke_point_dispatch ed env user clock_ms reg
      | MkStrokeEnd \<Rightarrow> handle_stroke_end_dispatch ed env user clock_ms reg
      | MkStrokeUndo \<Rightarrow> handle_stroke_undo_dispatch ed env user clock_ms reg
      | MkStrokeClear \<Rightarrow> handle_stroke_clear_dispatch ed env user clock_ms reg
      | _ \<Rightarrow> (outcome_default, reg))"

section \<open>The canvas\<close>

text \<open>
  The specification: which strokes are on the canvas and who owns each. \<open>show_event\<close> is what
  a client does with one published event.
\<close>

type_synonym canvas = "uuid \<rightharpoonup> uuid"

definition canvas :: "stroke_bookkeeping \<Rightarrow> canvas" where
  "canvas sb sid =
     (case hm_get (sb_committed sb) sid of
        Some owner \<Rightarrow> Some owner
      | None \<Rightarrow>
          (case hm_get (sb_pending sb) sid of
             None \<Rightarrow> None
           | Some p \<Rightarrow> if pst_cleared p then None else Some (pst_sender_id p)))"

fun show_event :: "'m room_event \<Rightarrow> canvas \<Rightarrow> canvas" where
  "show_event (EvStrokeBegin _ user p) c = c(sbp_stroke_id p \<mapsto> user)"
| "show_event (EvStrokeUndo _ _ p) c = c(sup_stroke_id p := None)"
| "show_event (EvStrokeClear _ _) c = Map.empty"
| "show_event _ c = c"

text \<open>
  A client stays with the room: it shows at least what the room holds, and exactly that unless
  the room is at its cap of remembered strokes, where the oldest are forgotten unannounced.
\<close>

definition held :: "stroke_bookkeeping \<Rightarrow> nat" where
  "held sb = length (sb_committed_order sb) + length (sb_pending sb)"

definition canvas_follows :: "stroke_bookkeeping \<Rightarrow> 'm room_event list \<Rightarrow> stroke_bookkeeping \<Rightarrow> bool" where
  "canvas_follows sb events sb' \<longleftrightarrow> canvas sb' \<subseteq>\<^sub>m fold show_event events (canvas sb)
     \<and> (held sb \<le> MAX_COMMITTED_STROKES \<longrightarrow> canvas sb' = fold show_event events (canvas sb))"

lemma canvas_cong:
  "sb_committed sb' = sb_committed sb \<Longrightarrow> sb_pending sb' = sb_pending sb \<Longrightarrow> canvas sb' = canvas sb"
  by (auto simp: canvas_def fun_eq_iff split: option.split)

lemma canvas_follows_refl [simp]: "canvas_follows sb [] sb"
  by (simp add: canvas_follows_def)

lemma canvas_same [simp]:
  "canvas (forget_content sid sb) = canvas sb"
  "canvas (record_end sid ts sb) = canvas sb"
  "canvas (record_begin u p sb) = canvas sb"
  "canvas (sb\<lparr>sb_seq := n\<rparr>) = canvas sb"
  by (rule canvas_cong; simp)+

lemma canvas_record_point: "strokes_inv sb \<Longrightarrow> canvas (record_point p sb) = canvas sb"
  using record_point_simps [of sb p] by (intro canvas_cong) simp_all

lemma finish_stroke_canvas:
  assumes inv: "strokes_inv sb" and p: "hm_get (sb_pending sb) sid = Some p"
  shows "canvas_follows sb [] (snd (finish_stroke ts sid p sb))
    \<and> held (snd (finish_stroke ts sid p sb)) \<le> held sb"
proof -
  let ?sb = "sb\<lparr>sb_pending := hm_remove sid (sb_pending sb)\<rparr>"
  have tables: "tables_ok sb" using inv by (simp add: strokes_inv_def)
  note parts = close_pending_parts [OF inv p, of "{}"]
  have gone: "Suc (length (hm_remove sid (sb_pending sb))) \<le> length (sb_pending sb)"
    using length_remove_less [OF hm_get_SomeD [OF p]] by simp
  show ?thesis
  proof (cases "pst_cleared p")
    case True
    have "canvas ?sb = canvas sb" using p parts True by (auto simp: canvas_def fun_eq_iff split: option.splits)
    with True gone show ?thesis by (simp add: finish_stroke_def Let_def canvas_follows_def held_def)
  next
    case False
    from parts have t: "tables_ok ?sb" and new: "hm_get (sb_committed ?sb) sid = None" by simp_all
    from t new show ?thesis
    proof (cases rule: commit_cases [of ?sb sid "pst_sender_id p"])
      case below
      have "canvas (snd (commit sid (pst_sender_id p) ?sb)) = canvas sb"
        using p False new by (auto simp: below(2) canvas_def fun_eq_iff split: option.splits)
      with False gone show ?thesis
        by (simp add: finish_stroke_def Let_def canvas_follows_def held_def below(2))
    next
      case (full old order)
      have "old \<in> fst ` set (sb_committed sb)" using tables full(1) by (auto simp: tables_ok_def)
      then have old: "hm_get (sb_pending sb) old = None"
        using tables by (auto simp: tables_ok_def map_of_eq_None_iff)
      have "canvas (snd (commit sid (pst_sender_id p) ?sb)) = (canvas sb)(old := None)"
        using p False old new by (auto simp: full(3) canvas_def fun_eq_iff split: option.splits)
      moreover have "sb_pending sb \<noteq> []" using p by auto
      then have "MAX_COMMITTED_STROKES < held sb" using full(2) by (simp add: held_def)
      ultimately show ?thesis
        using False gone full(1) by (simp add: finish_stroke_def Let_def canvas_follows_def held_def full(3)
            map_le_def)
    qed
  qed
qed

lemma canvas_follows_trans:
  assumes "canvas_follows sb [] sb1" and "held sb1 \<le> held sb" and "canvas_follows sb1 [] sb2"
  shows "canvas_follows sb [] sb2"
  using assms map_le_trans [of "canvas sb2" "canvas sb1" "canvas sb"] by (auto simp: canvas_follows_def)

lemma finish_oldest_canvas:
  assumes "strokes_inv sb"
  shows "canvas_follows sb [] (snd (finish_oldest_open_strokes user now sb))
    \<and> held (snd (finish_oldest_open_strokes user now sb)) \<le> held sb"
  using assms
proof (induction user now sb rule: finish_oldest_open_strokes.induct)
  case (1 user now sb)
  show ?case
  proof (cases "open_by user sb < MAX_OPEN_STROKES_PER_USER \<and> length (sb_pending sb) < MAX_OPEN_STROKES_PER_ROOM")
    case True
    then show ?thesis
      by (simp add: finish_oldest_open_strokes.simps [of user now sb] canvas_follows_def)
  next
    case False
    then obtain sid p where oldest: "oldest_open user sb = Some (sid, p)" using oldest_open_exists by fastforce
    note get = oldest_open_get [OF "1.prems" oldest]
    obtain d sb1 where step: "finish_stroke now sid p sb = (d, sb1)" by (cases "finish_stroke now sid p sb")
    have "strokes_inv sb1" using finish_stroke_inv [OF "1.prems" get, of now] step by simp
    from "1.IH" [OF False oldest refl step [symmetric] refl this]
      finish_stroke_canvas [OF "1.prems" get, of now] step
    have "canvas_follows sb [] (snd (finish_oldest_open_strokes user now sb1))"
      and "held (snd (finish_oldest_open_strokes user now sb1)) \<le> held sb"
      by (auto intro: canvas_follows_trans)
    with False oldest step show ?thesis
      by (simp add: finish_oldest_open_strokes.simps [of user now sb] case_prod_beta)
  qed
qed


section \<open>What the handlers do to a room\<close>

fun drawing_event :: "uuid \<Rightarrow> 'm room_event \<Rightarrow> bool" where
  "drawing_event rid (EvStrokeBegin r _ _) = (r = rid)"
| "drawing_event rid (EvStrokePoint r _ _) = (r = rid)"
| "drawing_event rid (EvStrokeEnd r _ _) = (r = rid)"
| "drawing_event rid (EvStrokeUndo r _ _) = (r = rid)"
| "drawing_event rid (EvStrokeClear r _) = (r = rid)"
| "drawing_event _ _ = False"

text \<open>The result of a handler: the drawing state changes, and the events tell a client how.\<close>

definition redrawn :: "uuid \<Rightarrow> room_state \<Rightarrow> 'm outcome \<times> room_state \<Rightarrow> bool" where
  "redrawn rid rs res \<longleftrightarrow> snd res = rs\<lparr>rs_drawing := rs_drawing (snd res)\<rparr>
     \<and> strokes_inv (rs_drawing (snd res)) \<and> sb_seq (rs_drawing (snd res)) = sb_seq (rs_drawing rs)
     \<and> canvas_follows (rs_drawing rs) (oc_events (fst res)) (rs_drawing (snd res))
     \<and> list_all (drawing_event rid) (oc_events (fst res))"

lemma err_outcome_simps [simp]:
  "oc_events (err_outcome env r) = []"
  "oc_close_caller (err_outcome env r) = False"
  "oc_to_caller (err_outcome env r) \<noteq> []"
  "oc_events (outcome_events es) = es"
  "oc_to_caller (outcome_events es) = []"
  by (simp_all add: err_outcome_def outcome_events_def outcome_default_def)

lemma redrawn_none: "room_inv rs \<Longrightarrow> oc_events out = [] \<Longrightarrow> redrawn rid rs (out, rs)"
  by (simp add: redrawn_def room_inv_def)

lemma named_room_some [simp]: "env_room_id env = Some rid \<Longrightarrow> named_room env rs = rid"
  by (simp add: named_room_def)

lemma show_ends [simp]: "fold show_event (map (\<lambda>(sid, u). EvStrokeEnd r u (f sid)) xs) c = c"
  by (induction xs) auto

text \<open>An accepted BEGIN, and all that was checked for it.\<close>

definition begin_allowed ::
    "'m edge \<Rightarrow> json envelope \<Rightarrow> stroke_begin_payload \<Rightarrow> uuid \<Rightarrow> bytes \<Rightarrow> room_state \<Rightarrow> bool" where
  "begin_allowed ed env payload user pubkey rs \<longleftrightarrow>
     ed_stroke_begin ed (env_payload env) = Some payload
     \<and> validate_unit_range (sbp_x payload) \<and> validate_unit_range (sbp_y payload)
     \<and> validate_unit_range (sbp_pressure payload)
     \<and> f32_is_finite (sbp_width payload) \<and> f32_lt f32_zero (sbp_width payload)
     \<and> verify_stroke_begin_signature ed env payload user pubkey = Inr ()
     \<and> hm_get (sb_pending (rs_drawing rs)) (sbp_stroke_id payload) = None
     \<and> hm_get (sb_committed (rs_drawing rs)) (sbp_stroke_id payload) = None"

definition opened :: "uuid \<Rightarrow> bytes \<Rightarrow> millis \<Rightarrow> pending_stroke" where
  "opened user pubkey now_ms = \<lparr>pst_sender_id = user, pst_sender_pubkey = pubkey,
     pst_started_ms = now_ms, pst_cleared = False\<rparr>"

lemma handle_begin_cases:
  obtains (refused) out where "handle_stroke_begin ed env user pubkey now rs = (out, rs)" "oc_events out = []"
      "oc_to_caller out \<noteq> []"
    | (accepted) payload finished sb1 where "begin_allowed ed env payload user pubkey rs"
      "finish_oldest_open_strokes user now (rs_drawing rs) = (finished, sb1)"
      "handle_stroke_begin ed env user pubkey now rs =
        (outcome_events (map (\<lambda>(sid, owner). EvStrokeEnd (named_room env rs) owner
             \<lparr>sep_stroke_id = sid, sep_ts_ms = now\<rparr>) finished @ [EvStrokeBegin (named_room env rs) user payload]),
         rs\<lparr>rs_drawing := record_begin user payload (sb1\<lparr>sb_pending :=
           hm_insert (sbp_stroke_id payload) (opened user pubkey now) (sb_pending sb1)\<rparr>)\<rparr>)"
proof (cases "\<exists>payload. begin_allowed ed env payload user pubkey rs")
  case True
  then obtain payload where ok: "begin_allowed ed env payload user pubkey rs" by blast
  obtain finished sb1 where f: "finish_oldest_open_strokes user now (rs_drawing rs) = (finished, sb1)"
    by (cases "finish_oldest_open_strokes user now (rs_drawing rs)")
  show thesis
    by (rule accepted [OF ok f])
      (use ok f in \<open>simp add: handle_stroke_begin_def begin_allowed_def hm_contains_def owner_of_def opened_def Let_def\<close>)
next
  case False
  then have "handle_stroke_begin ed env user pubkey now rs = (err_outcome env None, rs)
      \<or> (\<exists>e. handle_stroke_begin ed env user pubkey now rs = (err_outcome env (Some e), rs))"
    by (cases "ed_stroke_begin ed (env_payload env)")
      (auto simp: handle_stroke_begin_def begin_allowed_def hm_contains_def owner_of_def split: sum.split)
  with refused show thesis by (metis err_outcome_simps(1,3))
qed

lemma begin_canvas:
  assumes inv: "strokes_inv (rs_drawing rs)" and ok: "begin_allowed (ed :: 'm edge) env payload user pubkey rs"
    and f: "finish_oldest_open_strokes user now (rs_drawing rs) = (finished, sb1)"
  defines "sb2 \<equiv> record_begin user payload (sb1\<lparr>sb_pending :=
           hm_insert (sbp_stroke_id payload) (opened user pubkey now) (sb_pending sb1)\<rparr>)"
  shows "strokes_inv sb2 \<and> sb_seq sb2 = sb_seq (rs_drawing rs)
    \<and> canvas sb2 = (canvas sb1)(sbp_stroke_id payload \<mapsto> user)
    \<and> canvas_follows (rs_drawing rs) ([] :: 'm room_event list) sb1 \<and> canvas (rs_drawing rs) (sbp_stroke_id payload) = None"
proof -
  note spec = finish_oldest_spec [OF inv f]
  have free: "hm_get (sb_pending (rs_drawing rs)) (sbp_stroke_id payload) = None"
      "hm_get (sb_committed (rs_drawing rs)) (sbp_stroke_id payload) = None"
    using ok by (simp_all add: begin_allowed_def)
  from spec have keep: "\<And>x p. hm_get (sb_pending sb1) x = Some p \<Longrightarrow> hm_get (sb_pending (rs_drawing rs)) x = Some p"
    by blast
  from spec have com: "\<forall>x. hm_get (sb_pending (rs_drawing rs)) x = None \<longrightarrow>
      hm_get (sb_committed sb1) x = hm_get (sb_committed (rs_drawing rs)) x \<or> hm_get (sb_committed sb1) x = None"
    by (elim conjE)
  have free1: "hm_get (sb_pending sb1) (sbp_stroke_id payload) = None"
  proof (rule ccontr)
    assume "hm_get (sb_pending sb1) (sbp_stroke_id payload) \<noteq> None"
    then obtain q where "hm_get (sb_pending sb1) (sbp_stroke_id payload) = Some q" by blast
    from keep [OF this] free(1) show False by simp
  qed
  have free2: "hm_get (sb_committed sb1) (sbp_stroke_id payload) = None"
    using com [rule_format, OF free(1)] free(2) by auto
  have "strokes_inv sb2"
    unfolding sb2_def using begin_stroke_inv [of sb1 "opened user pubkey now" payload] spec free1 free2
    by (simp add: opened_def)
  moreover have "canvas sb2 = (canvas sb1)(sbp_stroke_id payload \<mapsto> user)"
    using free1 free2 by (auto simp: sb2_def canvas_def opened_def fun_eq_iff split: option.splits)
  moreover have "canvas_follows (rs_drawing rs) ([] :: 'm room_event list)
      (snd (finish_oldest_open_strokes user now (rs_drawing rs)))"
    by (rule conjunct1 [OF finish_oldest_canvas [OF inv]])
  then have "canvas_follows (rs_drawing rs) ([] :: 'm room_event list) sb1" by (simp add: f)
  ultimately show ?thesis using spec free by (simp add: sb2_def canvas_def)
qed

lemma begin_redrawn:
  assumes "room_inv rs" and "env_room_id env = Some rid"
  shows "redrawn rid rs (handle_stroke_begin ed env user pubkey now rs)"
proof (cases rule: handle_begin_cases [of ed env user pubkey now rs])
  case (refused out)
  with assms show ?thesis by (simp add: redrawn_none)
next
  case (accepted payload finished sb1)
  have inv: "strokes_inv (rs_drawing rs)" using assms(1) by (simp add: room_inv_def)
  note c = begin_canvas [OF inv accepted(1,2)]
  have "list_all (drawing_event rid) (map (\<lambda>(sid, owner). EvStrokeEnd rid owner
      \<lparr>sep_stroke_id = sid, sep_ts_ms = now\<rparr>) finished :: 'a room_event list)"
    by (induction finished) auto
  with c show ?thesis
    unfolding accepted(3)
    by (auto simp: redrawn_def assms(2) canvas_follows_def intro: map_le_upd)
qed

lemma point_redrawn:
  assumes "room_inv rs" and "env_room_id env = Some rid"
  shows "redrawn rid rs (handle_stroke_point ed env user rs)"
proof -
  have inv: "strokes_inv (rs_drawing rs)" using assms(1) by (simp add: room_inv_def)
  show ?thesis
    using assms record_point_inv [OF inv] canvas_record_point [OF inv] record_point_simps [OF inv]
    by (auto simp: handle_stroke_point_def redrawn_none split: option.split)
      (simp add: redrawn_def canvas_follows_def)
qed

lemma end_as_finish:
  assumes "hm_get (sb_pending (rs_drawing rs)) (sep_stroke_id payload) = Some p"
    and "ed_stroke_end ed (env_payload env) = Some payload" and "pst_sender_id p = user"
  shows "handle_stroke_end ed env user rs =
    (if pst_cleared p then outcome_default else outcome_events [EvStrokeEnd (named_room env rs) user payload],
     rs\<lparr>rs_drawing := snd (finish_stroke (sep_ts_ms payload) (sep_stroke_id payload) p (rs_drawing rs))\<rparr>)"
  using assms by (simp add: handle_stroke_end_def finish_stroke_def Let_def)

lemma handle_end_cases:
  obtains (ignored) out where "handle_stroke_end ed env user rs = (out, rs)" "oc_events out = []"
    | (ended) payload p where "ed_stroke_end ed (env_payload env) = Some payload"
      "hm_get (sb_pending (rs_drawing rs)) (sep_stroke_id payload) = Some p" "pst_sender_id p = user"
      "handle_stroke_end ed env user rs =
        (if pst_cleared p then outcome_default else outcome_events [EvStrokeEnd (named_room env rs) user payload],
         rs\<lparr>rs_drawing := snd (finish_stroke (sep_ts_ms payload) (sep_stroke_id payload) p (rs_drawing rs))\<rparr>)"
proof (cases "\<exists>payload p. ed_stroke_end ed (env_payload env) = Some payload \<and> pst_sender_id p = user
    \<and> hm_get (sb_pending (rs_drawing rs)) (sep_stroke_id payload) = Some p")
  case True
  then obtain payload p where e: "ed_stroke_end ed (env_payload env) = Some payload" "pst_sender_id p = user"
    "hm_get (sb_pending (rs_drawing rs)) (sep_stroke_id payload) = Some p" by blast
  show thesis by (rule ended [OF e(1,3,2) end_as_finish [OF e(3,1,2)]])
next
  case False
  then have "handle_stroke_end ed env user rs = (err_outcome env None, rs)
      \<or> (\<exists>e. handle_stroke_end ed env user rs = (err_outcome env (Some e), rs))"
    by (auto simp: handle_stroke_end_def split: option.split)
  with ignored show thesis by (metis err_outcome_simps(1))
qed

lemma handle_undo_cases:
  obtains (ignored) out where "handle_stroke_undo ed env user rs = (out, rs)" "oc_events out = []"
    | (undone) payload owner where "ed_stroke_undo ed (env_payload env) = Some payload"
      "owner_of (sup_stroke_id payload) (rs_drawing rs) = Some owner"
      "actor_can rs user UndoAnyStroke \<or> owner = user \<and> actor_can rs user UndoOwnStroke"
      "handle_stroke_undo ed env user rs = (outcome_events [EvStrokeUndo (rs_id rs) user payload],
         rs\<lparr>rs_drawing := snd (remove_committed (sup_stroke_id payload) (rs_drawing rs))\<rparr>)"
proof (cases "\<exists>payload owner. ed_stroke_undo ed (env_payload env) = Some payload
    \<and> owner_of (sup_stroke_id payload) (rs_drawing rs) = Some owner
    \<and> (actor_can rs user UndoAnyStroke \<or> owner = user \<and> actor_can rs user UndoOwnStroke)")
  case True
  then obtain payload owner where u: "ed_stroke_undo ed (env_payload env) = Some payload"
      "owner_of (sup_stroke_id payload) (rs_drawing rs) = Some owner"
      "actor_can rs user UndoAnyStroke \<or> owner = user \<and> actor_can rs user UndoOwnStroke" by blast
  from undone [OF u] u show thesis by (auto simp: handle_stroke_undo_def)
next
  case False
  then have "handle_stroke_undo ed env user rs = (err_outcome env None, rs)
      \<or> handle_stroke_undo ed env user rs = (outcome_default, rs)"
    by (auto simp: handle_stroke_undo_def Let_def split: option.split)
  with ignored show thesis by auto
qed

lemma end_redrawn:
  assumes "room_inv rs" and "env_room_id env = Some rid"
  shows "redrawn rid rs (handle_stroke_end ed env user rs)"
proof (cases rule: handle_end_cases [of ed env user rs])
  case (ignored out)
  with assms(1) show ?thesis by (simp add: redrawn_none)
next
  case (ended payload p)
  have inv: "strokes_inv (rs_drawing rs)" using assms(1) by (simp add: room_inv_def)
  show ?thesis
    unfolding ended(4)
    using finish_stroke_inv [OF inv ended(2)] finish_stroke_canvas [OF inv ended(2)]
    by (auto simp: redrawn_def assms(2) canvas_follows_def)
qed

lemma undo_canvas:
  assumes inv: "strokes_inv sb" and owner: "owner_of sid sb = Some u"
  shows "canvas (snd (remove_committed sid sb)) = (canvas sb)(sid := None) \<and> canvas sb sid = Some u"
proof -
  have "hm_get (sb_pending sb) sid = None"
    using inv hm_key_get [OF owner [unfolded owner_of_def]]
    by (auto simp: strokes_inv_def tables_ok_def map_of_eq_None_iff)
  with owner show ?thesis by (auto simp: canvas_def owner_of_def fun_eq_iff split: option.split)
qed

lemma undo_redrawn:
  assumes "room_inv rs" and "rs_id rs = rid"
  shows "redrawn rid rs (handle_stroke_undo ed env user rs)"
proof (cases rule: handle_undo_cases [of ed env user rs])
  case (ignored out)
  with assms(1) show ?thesis by (simp add: redrawn_none)
next
  case (undone payload owner)
  have inv: "strokes_inv (rs_drawing rs)" using assms(1) by (simp add: room_inv_def)
  show ?thesis
    unfolding undone(4)
    using remove_committed_inv [OF inv] undo_canvas [OF inv undone(2)] assms(2)
    by (simp add: redrawn_def canvas_follows_def)
qed

lemma clear_canvas [simp]: "canvas (snd (clear_all sb)) = Map.empty"
  by (auto simp: canvas_def fun_eq_iff split: option.split)

lemma clear_redrawn:
  assumes "room_inv rs" and "rs_id rs = rid"
  shows "redrawn rid rs (handle_stroke_clear user rs)"
  using assms clear_all_inv [of "rs_drawing rs"]
  by (auto simp: handle_stroke_clear_def redrawn_none redrawn_def canvas_follows_def room_inv_def)


section \<open>What is published\<close>

text \<open>The numbered items of a list of events, and the sequence after \<open>n\<close> of them.\<close>

fun numbered :: "uuid \<Rightarrow> nat \<Rightarrow> 'm room_event list \<Rightarrow> 'm broadcast_item list" where
  "numbered rid seq [] = []"
| "numbered rid seq (e # es) =
     (event_to_broadcast_item e rid (event_originator e))\<lparr>bi_seq := wrapping_add_u64 seq 1\<rparr>
       # numbered rid (wrapping_add_u64 seq 1) es"

definition seq_after :: "nat \<Rightarrow> nat \<Rightarrow> nat" where
  "seq_after seq n = ((\<lambda>s. wrapping_add_u64 s 1) ^^ n) seq"

lemma seq_after_Suc: "seq_after seq (Suc n) = seq_after (wrapping_add_u64 seq 1) n"
  by (simp add: seq_after_def funpow_Suc_right del: funpow.simps)

lemma seq_after_0 [simp]: "seq_after seq 0 = seq"
  by (simp add: seq_after_def)

definition publish_list :: "uuid \<Rightarrow> 'm broadcast_item list \<Rightarrow> 'm registry \<Rightarrow> 'm registry" where
  "publish_list rid items reg = fold (publish rid) items reg"

lemma publish_list_simps [simp]:
  "rg_by_id (publish_list rid items reg) = rg_by_id reg"
  "rg_by_code (publish_list rid items reg) = rg_by_code reg"
  "rg_manifest_cache (publish_list rid items reg) = rg_manifest_cache reg"
  "rg_config (publish_list rid items reg) = rg_config reg"
  "get_by_id x (publish_list rid items reg) = get_by_id x reg"
  unfolding publish_list_def get_by_id_def by (induction items arbitrary: reg) auto

lemma publish_list_inv: "registry_inv reg \<Longrightarrow> registry_inv (publish_list rid items reg)"
  unfolding publish_list_def by (induction items arbitrary: reg) (auto intro: publish_inv)

lemma channel_publish_list:
  "channel x (publish_list rid items reg) =
     (if x = rid then map_option (\<lambda>sent. sent @ items) (channel rid reg) else channel x reg)"
  unfolding publish_list_def
  by (induction items arbitrary: reg) (auto simp: channel_publish option.map_comp o_def option.map_ident)

lemma publish_drawing_event:
  "drawing_event rid e \<Longrightarrow> publish_event cd e rid seq reg =
     publish rid ((event_to_broadcast_item e rid (event_originator e))\<lparr>bi_seq := seq\<rparr>) reg"
  by (cases e) (simp_all add: publish_event_def Let_def)

lemma publish_numbered_eq:
  assumes "list_all (drawing_event rid) events"
  shows "publish_numbered cd rid events rs reg =
    (rs\<lparr>rs_drawing := (rs_drawing rs)\<lparr>sb_seq := seq_after (sb_seq (rs_drawing rs)) (length events)\<rparr>\<rparr>,
     publish_list rid (numbered rid (sb_seq (rs_drawing rs)) events) reg)"
  using assms
  by (induction events arbitrary: rs reg)
    (simp_all add: publish_list_def publish_drawing_event next_seq_def Let_def seq_after_Suc)

text \<open>The locked part of a dispatch, once the handler is known to have redrawn the room.\<close>

definition redraw_room :: "uuid \<Rightarrow> 'm outcome \<times> room_state \<Rightarrow> 'm registry \<Rightarrow> 'm registry" where
  "redraw_room rid res reg =
     put_room rid ((snd res)\<lparr>rs_drawing := (rs_drawing (snd res))\<lparr>sb_seq :=
         seq_after (sb_seq (rs_drawing (snd res))) (length (oc_events (fst res)))\<rparr>\<rparr>)
       (publish_list rid (numbered rid (sb_seq (rs_drawing (snd res))) (oc_events (fst res))) reg)"

lemma publish_locked_eq:
  "redrawn rid rs res \<Longrightarrow> publish_drawing_events_locked cd rid res reg =
     ((fst res)\<lparr>oc_events := []\<rparr>, redraw_room rid res reg)"
  by (simp add: publish_drawing_events_locked_def redraw_room_def redrawn_def publish_numbered_eq
      case_prod_beta Let_def)

lemma hm_insert_same: "hm_get m k = Some v \<Longrightarrow> hm_insert k v m = m"
  by (induction m) (auto split: if_splits)

lemma put_room_same: "get_by_id rid reg = Some rs \<Longrightarrow> put_room rid rs reg = reg"
  by (simp add: put_room_def get_by_id_def hm_insert_same)

lemma redraw_room_silent:
  "get_by_id rid reg = Some rs \<Longrightarrow> oc_events out = [] \<Longrightarrow> redraw_room rid (out, rs) reg = reg"
  by (simp add: redraw_room_def publish_list_def put_room_same)

lemma redraw_room_simps [simp]:
  "get_by_id x (redraw_room rid res reg) =
     (if x = rid then Some ((snd res)\<lparr>rs_drawing := (rs_drawing (snd res))\<lparr>sb_seq :=
         seq_after (sb_seq (rs_drawing (snd res))) (length (oc_events (fst res)))\<rparr>\<rparr>)
      else get_by_id x reg)"
  "channel x (redraw_room rid res reg) =
     (if x = rid then map_option (\<lambda>sent. sent @ numbered rid (sb_seq (rs_drawing (snd res))) (oc_events (fst res)))
        (channel rid reg) else channel x reg)"
  by (simp_all add: redraw_room_def get_by_id_def channel_publish_list)

text \<open>A dispatch refuses, or it redraws the named room for a member of it.\<close>

lemma in_drawing_room_cases:
  assumes "registry_inv reg"
  obtains (refused) out where "in_drawing_room ed env user clk reg f = (out, reg)" "oc_events out = []"
      "oc_to_caller out \<noteq> []"
    | (room) rid rs where "env_room_id env = Some rid" "get_by_id rid reg = Some rs" "is_present user rs"
      "room_inv rs" "rs_id rs = rid" "in_drawing_room ed env user clk reg f = f rid rs"
proof (cases "\<exists>rid rs. env_room_id env = Some rid \<and> get_by_id rid reg = Some rs \<and> is_present user rs")
  case True
  then obtain rid rs where r: "env_room_id env = Some rid" "get_by_id rid reg = Some rs" "is_present user rs"
    by blast
  with room registry_room [OF assms, of rid rs] show thesis
    by (simp add: in_drawing_room_def is_user_in_room_def get_by_id_def)
next
  case False
  then have "in_drawing_room ed env user clk reg f = (default_reject clk, reg)"
    by (auto simp: in_drawing_room_def is_user_in_room_def split: option.splits)
  from refused [OF this] show thesis by (simp add: default_reject_def)
qed


text \<open>Which handler a dispatch ran on the room.\<close>

definition handled_by ::
    "'m edge \<Rightarrow> json envelope \<Rightarrow> uuid \<Rightarrow> bytes \<Rightarrow> millis \<Rightarrow> room_state \<Rightarrow> 'm outcome \<times> room_state \<Rightarrow> bool" where
  "handled_by ed env user pubkey now rs res \<longleftrightarrow>
     (env_type env = MkStrokeBegin \<and> caller_may_draw rs user \<and> res = handle_stroke_begin ed env user pubkey now rs)
     \<or> (env_type env = MkStrokePoint \<and> res = handle_stroke_point ed env user rs)
     \<or> (env_type env = MkStrokeEnd \<and> res = handle_stroke_end ed env user rs)
     \<or> (env_type env = MkStrokeUndo \<and> res = handle_stroke_undo ed env user rs)
     \<or> (env_type env = MkStrokeClear \<and> res = handle_stroke_clear user rs)"

lemma handled_redrawn:
  assumes "handled_by ed env user pubkey now rs res" and "room_inv rs" "rs_id rs = rid" "env_room_id env = Some rid"
  shows "redrawn rid rs res"
  using assms
  by (auto simp: handled_by_def intro: begin_redrawn point_redrawn end_redrawn undo_redrawn clear_redrawn)

lemma dispatch_drawing_cases:
  assumes inv: "registry_inv reg"
  obtains (refused) out where "dispatch_drawing ed env user pubkey now clk reg = (out, reg)" "oc_events out = []"
    | (drawn) rid rs res where "env_room_id env = Some rid" "get_by_id rid reg = Some rs" "is_present user rs"
      "room_inv rs" "handled_by ed env user pubkey now rs res" "redrawn rid rs res"
      "dispatch_drawing ed env user pubkey now clk reg = ((fst res)\<lparr>oc_events := []\<rparr>, redraw_room rid res reg)"
proof -
  note result = that
  have run: thesis
    if eq: "dispatch_drawing ed env user pubkey now clk reg = in_drawing_room ed env user clk reg f"
      and f: "\<And>rid rs. (\<exists>out. f rid rs = (out, reg) \<and> oc_events out = [])
        \<or> (\<exists>res. handled_by ed env user pubkey now rs res
             \<and> f rid rs = publish_drawing_events_locked (ed_codec ed) rid res reg)" for f
    using inv
  proof (cases rule: in_drawing_room_cases [where reg = reg and ed = ed and env = env and user = user and clk = clk and f = f])
    case (refused out)
    with result(1) eq show thesis by simp
  next
    case (room rid rs)
    from f [of rid rs] show thesis
    proof (elim disjE exE conjE)
      fix out assume "f rid rs = (out, reg)" "oc_events out = []"
      with room eq result(1) show thesis by simp
    next
      fix res assume h: "handled_by ed env user pubkey now rs res"
        and p: "f rid rs = publish_drawing_events_locked (ed_codec ed) rid res reg"
      have r: "redrawn rid rs res" by (rule handled_redrawn [OF h room(4,5,1)])
      show thesis
        by (rule result(2) [OF room(1-4) h r]) (simp add: eq room(6) p publish_locked_eq [OF r])
    qed
  qed
  show thesis
  proof (cases "env_type env \<in> {MkStrokeBegin, MkStrokePoint, MkStrokeEnd, MkStrokeUndo, MkStrokeClear}")
    case True
    then consider "env_type env = MkStrokeBegin" | "env_type env = MkStrokePoint" | "env_type env = MkStrokeEnd"
      | "env_type env = MkStrokeUndo" | "env_type env = MkStrokeClear" by blast
    then show thesis
    proof cases
      case 1
      then show thesis
        by (intro run) (auto simp: dispatch_drawing_def handle_stroke_begin_dispatch_def handled_by_def
            capability_reject_def fun_eq_iff)
    qed (intro run; auto simp: dispatch_drawing_def handled_by_def handle_stroke_point_dispatch_def
        handle_stroke_end_dispatch_def handle_stroke_undo_dispatch_def handle_stroke_clear_dispatch_def)+
  next
    case False
    then have "dispatch_drawing ed env user pubkey now clk reg = (outcome_default, reg)"
      by (cases "env_type env") (simp_all add: dispatch_drawing_def)
    with result(1) show thesis by simp
  qed
qed

lemma redraw_room_inv:
  assumes inv: "registry_inv reg" and rs: "get_by_id rid reg = Some rs" and r: "redrawn rid rs res"
  shows "registry_inv (redraw_room rid res reg)"
proof -
  have room: "hm_get (rg_by_id reg) rid = Some rs" using rs by (simp add: get_by_id_def)
  obtain sb where sb: "snd res = rs\<lparr>rs_drawing := sb\<rparr>" "strokes_inv sb"
    using r by (auto simp: redrawn_def)
  have "strokes_inv (sb\<lparr>sb_seq := n\<rparr>)" for n
    using sb(2) by (simp add: strokes_inv_def strokes_parts open_by_def)
  then have "same_room rs (rs\<lparr>rs_drawing := sb\<lparr>sb_seq := n\<rparr>\<rparr>)" for n
    using registry_room [OF inv room] by (simp add: same_room_def room_inv_def playback_inv_def live_count_def)
  from put_same_room [OF publish_list_inv [OF inv] _ this] room show ?thesis
    by (simp add: redraw_room_def sb(1))
qed

lemma dispatch_drawing_inv:
  assumes "registry_inv reg"
  shows "registry_inv (snd (dispatch_drawing ed env user pubkey now clk reg))"
  using assms
proof (cases rule: dispatch_drawing_cases [of reg ed env user pubkey now clk])
  case (drawn rid rs res)
  then show ?thesis using redraw_room_inv [OF assms drawn(2,6)] by simp
qed (use assms in simp)


text \<open>A host's first stroke in the example room.\<close>

definition example_room_state :: room_state where
  "example_room_state = room_state_new 1 (ascii ''ABCDEF'') [] 7 [] True 0 HOST 0"

lemma example_registry_room: "get_by_id 1 (example_registry :: 'm registry) = Some example_room_state"
  by (simp add: get_by_id_def example_registry_def insert_room_state_def example_room_state_def)

definition begin_envelope :: "json envelope" where
  "begin_envelope = (example_envelope MkStrokeBegin (Some 1))\<lparr>env_sender :=
     Some \<lparr>snd_user_id = 7, snd_pubkey = [], snd_sig = replicate 64 0\<rparr>\<rparr>"

definition drawn_registry :: "nat registry" where
  "drawn_registry = snd (dispatch_drawing example_edge begin_envelope 7 [] 0 0 example_registry)"

lemma example_member:
  "is_present 7 example_room_state" "caller_may_draw example_room_state 7"
  "actor_can example_room_state 7 ClearAll"
  by (simp_all add: example_room_state_def room_state_new_def is_present_def caller_may_draw_def
      actor_can_def live_record_def participant_can_def)

lemma example_begin_allowed: "begin_allowed example_edge begin_envelope example_stroke 7 [] example_room_state"
  by (simp add: begin_allowed_def begin_envelope_def example_envelope_def example_edge_def example_stroke_def
      verify_stroke_begin_signature_def drawing_signed_bytes_def example_room_state_def room_state_new_def
      stroke_bookkeeping_new_def validate_unit_range_def f32_is_finite_def f32_exponent_def f32_magnitude_def
      f32_le_def f32_lt_def f32_is_nan_def f32_key_def f32_negative_def f32_zero_def f32_one_def)

lemma drawn_registry_room:
  "\<exists>rs. get_by_id 1 drawn_registry = Some rs \<and> canvas (rs_drawing rs) = [21 \<mapsto> 7]"
proof -
  let ?h = "handle_stroke_begin example_edge begin_envelope 7 [] 0 example_room_state"
  have finish: "finish_oldest_open_strokes 7 0 (rs_drawing example_room_state) = ([], rs_drawing example_room_state)"
    by (simp add: finish_oldest_open_strokes.simps open_by_def example_room_state_def room_state_new_def
        stroke_bookkeeping_new_def MAX_OPEN_STROKES_PER_USER_def MAX_OPEN_STROKES_PER_ROOM_def)
  have room: "env_room_id begin_envelope = Some 1" by (simp add: begin_envelope_def example_envelope_def)
  have "canvas (rs_drawing (snd ?h)) = [21 \<mapsto> 7]"
    using example_begin_allowed finish
    by (simp add: handle_stroke_begin_def begin_allowed_def hm_contains_def owner_of_def example_stroke_def)
      (auto simp: canvas_def example_room_state_def room_state_new_def stroke_bookkeeping_new_def fun_eq_iff
        split: option.split)
  moreover have "env_type begin_envelope = MkStrokeBegin" by (simp add: begin_envelope_def example_envelope_def)
  moreover have "redrawn 1 example_room_state ?h"
    by (rule begin_redrawn) (simp_all add: room example_room_state_def room_inv_new)
  ultimately show ?thesis
    using room example_member
    by (simp add: example_registry_room drawn_registry_def dispatch_drawing_def handle_stroke_begin_dispatch_def in_drawing_room_def
        is_user_in_room_def publish_locked_eq)
qed

section \<open>Properties\<close>



text \<open>
  C12: who may change the canvas. If a drawing message changes what is shown for a stroke, its
  sender is present in the room, and it is a new stroke, opened as the sender's own under a
  verified signature while the sender may draw; or it disappeared because the sender undid it,
  with UNDO_ANY or as the owner with UNDO_OWN, or cleared the canvas with CLEAR_ALL; or the room
  was at its cap and forgot it when a stroke ended. No stroke ever changes owner.
\<close>

theorem canvas_authority:
  assumes inv: "registry_inv reg" and d: "dispatch_drawing ed env user pubkey now clk reg = (out, reg')"
    and rs: "get_by_id rid reg = Some rs" "get_by_id rid reg' = Some rs'"
    and diff: "canvas (rs_drawing rs') sid \<noteq> canvas (rs_drawing rs) sid"
  shows "env_room_id env = Some rid \<and> is_present user rs
    \<and> ((canvas (rs_drawing rs) sid = None \<and> canvas (rs_drawing rs') sid = Some user
          \<and> env_type env = MkStrokeBegin \<and> caller_may_draw rs user
          \<and> (\<exists>payload. ed_stroke_begin ed (env_payload env) = Some payload \<and> sbp_stroke_id payload = sid
               \<and> verify_stroke_begin_signature ed env payload user pubkey = Inr ()))
       \<or> (canvas (rs_drawing rs') sid = None
          \<and> (env_type env = MkStrokeUndo \<and> (actor_can rs user UndoAnyStroke
                 \<or> canvas (rs_drawing rs) sid = Some user \<and> actor_can rs user UndoOwnStroke)
             \<or> env_type env = MkStrokeClear \<and> actor_can rs user ClearAll
             \<or> env_type env \<in> {MkStrokeBegin, MkStrokeEnd} \<and> 5000 < held (rs_drawing rs))))"
  using inv
proof (cases rule: dispatch_drawing_cases [of reg ed env user pubkey now clk])
  case (refused out2)
  then show ?thesis using d rs diff by simp
next
  case (drawn r rs0 res)
  have reg': "reg' = redraw_room r res reg" using drawn(7) d by simp
  have r: "r = rid" using rs diff by (auto simp: reg' split: if_splits)
  have rs0: "rs0 = rs" using drawn(2) rs(1) r by simp
  have new: "canvas (rs_drawing rs') = canvas (rs_drawing (snd res))"
    using rs(2) by (auto simp: reg' r)
  have inv_sb: "strokes_inv (rs_drawing rs)" using drawn(4) rs0 by (simp add: room_inv_def)
  have lost: "canvas sb2 sid = None \<and> 5000 < held (rs_drawing rs)"
    if "canvas_follows (rs_drawing rs) ([] :: 'a room_event list) sb2" "canvas sb2 sid \<noteq> canvas (rs_drawing rs) sid" for sb2
    using that by (auto simp: canvas_follows_def map_le_def MAX_COMMITTED_STROKES_def dom_def not_le)
  from drawn(5) have "handled_by ed env user pubkey now rs res" by (simp add: rs0)
  then consider (Begin) "env_type env = MkStrokeBegin" "caller_may_draw rs user" "res = handle_stroke_begin ed env user pubkey now rs"
    | (Point) "res = handle_stroke_point ed env user rs"
    | (End) "env_type env = MkStrokeEnd" "res = handle_stroke_end ed env user rs"
    | (Undo) "env_type env = MkStrokeUndo" "res = handle_stroke_undo ed env user rs"
    | (Clear) "env_type env = MkStrokeClear" "res = handle_stroke_clear user rs"
    by (auto simp: handled_by_def)
  then show ?thesis
  proof cases
    case Begin
    then show ?thesis
    proof (cases rule: handle_begin_cases [of ed env user pubkey now rs])
      case (refused out3)
      then show ?thesis using Begin(3) new diff by simp
    next
      case (accepted payload finished sb1)
      note c = begin_canvas [OF inv_sb accepted(1,2)]
      have "canvas (rs_drawing rs') = (canvas sb1)(sbp_stroke_id payload \<mapsto> user)"
        using c by (simp add: new Begin(3) accepted(3))
      with c lost [of sb1] diff accepted(1) Begin(1,2) drawn(1,3) show ?thesis
        by (cases "sid = sbp_stroke_id payload") (simp_all add: r rs0 begin_allowed_def)
    qed
  next
    case Point
    then show ?thesis
      using new diff canvas_record_point [OF inv_sb]
      by (auto simp: handle_stroke_point_def split: option.splits if_splits)
  next
    case End
    show ?thesis
    proof (cases rule: handle_end_cases [of ed env user rs])
      case (ignored out3)
      then show ?thesis using new diff End(2) by simp
    next
      case (ended payload p)
      let ?sb2 = "snd (finish_stroke (sep_ts_ms payload) (sep_stroke_id payload) p (rs_drawing rs))"
      have eq: "canvas (rs_drawing rs') = canvas ?sb2" by (simp add: new End(2) ended(4))
      have "canvas_follows (rs_drawing rs) ([] :: 'a room_event list) ?sb2"
        by (rule conjunct1 [OF finish_stroke_canvas [OF inv_sb ended(2)]])
      from lost [OF this] diff eq have "canvas (rs_drawing rs') sid = None \<and> 5000 < held (rs_drawing rs)"
        by simp
      with End(1) drawn(1,3) r rs0 show ?thesis by simp
    qed
  next
    case Undo
    show ?thesis
    proof (cases rule: handle_undo_cases [of ed env user rs])
      case (ignored out3)
      then show ?thesis using new diff Undo(2) by simp
    next
      case (undone payload owner)
      note c = undo_canvas [OF inv_sb undone(2)]
      have eq: "canvas (rs_drawing rs') = (canvas (rs_drawing rs))(sup_stroke_id payload := None)"
        using c by (simp add: new Undo(2) undone(4))
      with diff have "sid = sup_stroke_id payload" by (auto split: if_splits)
      with c eq undone(3) Undo(1) drawn(1,3) r rs0 show ?thesis by auto
    qed
  next
    case Clear
    then show ?thesis
      using new diff drawn(1,3) r rs0
      by (auto simp: handle_stroke_clear_def split: if_splits)
  qed
qed


theorem canvas_authority_witness:
  "is_present 7 example_room_state \<and> caller_may_draw example_room_state 7"
proof -
  obtain rs where rs: "get_by_id 1 drawn_registry = Some rs" "canvas (rs_drawing rs) = [21 \<mapsto> 7]"
    using drawn_registry_room by blast
  have run: "dispatch_drawing example_edge begin_envelope 7 [] 0 0 example_registry
      = (fst (dispatch_drawing example_edge begin_envelope 7 [] 0 0 example_registry), drawn_registry)"
    by (simp add: drawn_registry_def)
  have "canvas (rs_drawing rs) 21 \<noteq> canvas (rs_drawing example_room_state) 21"
    by (simp add: rs(2)) (simp add: canvas_def example_room_state_def room_state_new_def stroke_bookkeeping_new_def)
  from canvas_authority [OF example_registry_inv run example_registry_room rs(1) this] rs(2)
  show ?thesis by auto
qed

text \<open>
  Points and ends belong to the stroke's drawer. A DRAW_POINT or DRAW_END for another
  user's open stroke, or for one that is not open, changes nothing at all and is answered with
  an error.
\<close>

theorem foreign_stroke_untouched:
  assumes inv: "registry_inv reg" and room: "env_room_id env = Some rid" "get_by_id rid reg = Some rs"
    and kind: "env_type env = MkStrokePoint \<and> ed_stroke_point ed (env_payload env) = Some point \<and> spp_stroke_id point = sid
      \<or> env_type env = MkStrokeEnd \<and> ed_stroke_end ed (env_payload env) = Some final \<and> sep_stroke_id final = sid"
    and foreign: "\<And>p. hm_get (sb_pending (rs_drawing rs)) sid = Some p \<Longrightarrow> pst_sender_id p \<noteq> user"
  shows "\<exists>out. dispatch_drawing ed env user pubkey now clk reg = (out, reg) \<and> oc_to_caller out \<noteq> [] \<and> oc_events out = []"
proof (cases "is_user_in_room user rid reg")
  case True
  have silent: "publish_drawing_events_locked cd rid (out, rs) reg = (out, reg)" if "oc_events out = []" for cd out
    using that room(2) by (simp add: publish_drawing_events_locked_def put_room_same)
  from kind show ?thesis
  proof (elim disjE conjE)
    assume "env_type env = MkStrokePoint" "ed_stroke_point ed (env_payload env) = Some point" "spp_stroke_id point = sid"
    with True room foreign show ?thesis
      by (auto simp: dispatch_drawing_def handle_stroke_point_dispatch_def in_drawing_room_def
          handle_stroke_point_def silent split: option.split)
  next
    assume "env_type env = MkStrokeEnd" "ed_stroke_end ed (env_payload env) = Some final" "sep_stroke_id final = sid"
    with True room foreign show ?thesis
      by (auto simp: dispatch_drawing_def handle_stroke_end_dispatch_def in_drawing_room_def
          handle_stroke_end_def silent split: option.split)
  qed
next
  case False
  with kind room show ?thesis
    by (auto simp: dispatch_drawing_def handle_stroke_point_dispatch_def handle_stroke_end_dispatch_def
        in_drawing_room_def default_reject_def)
qed

theorem foreign_stroke_untouched_witness:
  "snd (dispatch_drawing example_edge (example_envelope MkStrokePoint (Some 1)) 7 [] 0 0
     (example_registry :: nat registry)) = example_registry"
proof -
  let ?env = "example_envelope MkStrokePoint (Some 1)"
  have env: "env_room_id ?env = Some 1" "env_type ?env = MkStrokePoint" by (simp_all add: example_envelope_def)
  obtain point where point: "ed_stroke_point example_edge (env_payload ?env) = Some point"
    by (simp add: example_edge_def)
  have kind: "env_type ?env = MkStrokePoint \<and> ed_stroke_point example_edge (env_payload ?env) = Some point
      \<and> spp_stroke_id point = spp_stroke_id point
      \<or> env_type ?env = MkStrokeEnd \<and> ed_stroke_end example_edge (env_payload ?env) = Some \<lparr>sep_stroke_id = 0, sep_ts_ms = 0\<rparr>
        \<and> sep_stroke_id \<lparr>sep_stroke_id = 0, sep_ts_ms = 0\<rparr> = spp_stroke_id point"
    using env point by simp
  have "hm_get (sb_pending (rs_drawing example_room_state)) (spp_stroke_id point) = None"
    by (simp add: example_room_state_def room_state_new_def stroke_bookkeeping_new_def)
  then have "\<And>p. hm_get (sb_pending (rs_drawing example_room_state)) (spp_stroke_id point) = Some p
      \<Longrightarrow> pst_sender_id p \<noteq> 7" by simp
  from foreign_stroke_untouched [OF example_registry_inv env(1) example_registry_room kind this, where pubkey = "[]" and now = 0 and clk = 0]
  show ?thesis by auto
qed

text \<open>Points and ends that arrive late, handled one after the other; what they publish is collected.\<close>

definition late_step ::
    "'m edge \<Rightarrow> 'm room_event list \<times> room_state \<Rightarrow> json envelope \<times> uuid \<Rightarrow> 'm room_event list \<times> room_state" where
  "late_step ed st msg =
     (let (out, rs') = (if env_type (fst msg) = MkStrokePoint
                        then handle_stroke_point ed (fst msg) (snd msg) (snd st)
                        else handle_stroke_end ed (fst msg) (snd msg) (snd st))
      in (fst st @ oc_events out, rs'))"

definition nothing_open :: "'m room_event list \<times> room_state \<Rightarrow> bool" where
  "nothing_open st \<longleftrightarrow> fst st = [] \<and> sb_committed (rs_drawing (snd st)) = []
     \<and> (\<forall>x p. hm_get (sb_pending (rs_drawing (snd st))) x = Some p \<longrightarrow> pst_cleared p)"

lemma nothing_open_canvas: "nothing_open st \<Longrightarrow> canvas (rs_drawing (snd st)) = Map.empty"
  by (auto simp: nothing_open_def canvas_def fun_eq_iff split: option.split)

lemma late_step_point:
  assumes "nothing_open (events, rs)" and "handle_stroke_point ed env user rs = (out, rs')"
  shows "nothing_open (events @ oc_events out, rs')"
  using assms by (auto simp: nothing_open_def handle_stroke_point_def split: option.splits if_splits)

lemma late_step_end:
  assumes "nothing_open (events, rs)" and "handle_stroke_end ed env user rs = (out, rs')"
  shows "nothing_open (events @ oc_events out, rs')"
proof (cases rule: handle_end_cases [of ed env user rs])
  case (ignored out2)
  with assms show ?thesis by simp
next
  case (ended payload p)
  have "pst_cleared p" using assms(1) ended(2) by (simp add: nothing_open_def)
  with assms ended(4) show ?thesis by (auto simp: nothing_open_def finish_stroke_def Let_def split: if_splits)
qed

lemma late_steps: "nothing_open st \<Longrightarrow> nothing_open (foldl (late_step ed) st msgs)"
proof (induction msgs arbitrary: st)
  case (Cons msg msgs)
  have "nothing_open (late_step ed st msg)"
    using Cons.prems late_step_point [of "fst st" "snd st" ed "fst msg" "snd msg"]
      late_step_end [of "fst st" "snd st" ed "fst msg" "snd msg"]
    by (simp add: late_step_def Let_def case_prod_beta)
  then show ?case by (simp add: Cons.IH)
qed simp

text \<open>
  A clear is final. After an accepted DRAW_CLEAR nothing is shown, and whatever points and
  ends arrive for the strokes that were open, from anyone and in any order, publish nothing
  and bring none of them back.
\<close>

theorem clear_is_final:
  assumes "actor_can rs user ClearAll" and "handle_stroke_clear user rs = (out, rs')"
  shows "canvas (rs_drawing rs') = Map.empty
    \<and> (\<forall>msgs. fst (foldl (late_step ed) ([], rs') msgs) = []
         \<and> canvas (rs_drawing (snd (foldl (late_step ed) ([], rs') msgs))) = Map.empty)"
proof -
  have rs': "rs' = rs\<lparr>rs_drawing := snd (clear_all (rs_drawing rs))\<rparr>"
    using assms by (simp add: handle_stroke_clear_def)
  have start: "nothing_open ([], rs')" by (auto simp: nothing_open_def rs')
  then have "nothing_open (foldl (late_step ed) ([], rs') msgs)" for msgs by (rule late_steps)
  with nothing_open_canvas start show ?thesis by (fastforce simp: nothing_open_def)
qed


theorem clear_is_final_witness:
  "canvas (rs_drawing (snd (handle_stroke_clear 7 example_room_state))) = Map.empty"
  using clear_is_final [OF example_member(3) prod.collapse [symmetric]] by blast

end
