(* ===== verification/Relay.thy ===== *)
theory Relay
  imports Drawing
begin

text \<open>
  The remaining per-room handlers: PERMISSION_SET (\<open>rooms/permissions.rs\<close>), CHAT_MESSAGE
  (\<open>rooms/chat.rs\<close>), LASER_MOVE and LASER_OFF (\<open>rooms/laser.rs\<close>) and POSITION_REPORT
  (\<open>rooms/presence.rs\<close>). Only the first changes a room; the others turn a message into an event
  under the sender's authenticated name.
\<close>

section \<open>Permissions\<close>

definition u32_MAX :: u32 where "u32_MAX = 0xFFFFFFFF"

text \<open>A removal of every bit means that the added bits replace the set.\<close>

definition new_cap_set :: "permission_set_payload \<Rightarrow> u32 \<Rightarrow> u32" where
  "new_cap_set payload cap_set =
     (if perm_remove_cap_set payload = u32_MAX then perm_add_cap_set payload
      else (cap_set AND NOT (perm_remove_cap_set payload)) OR perm_add_cap_set payload)"

definition is_present_host :: "uuid \<Rightarrow> room_state \<Rightarrow> bool" where
  "is_present_host user rs \<longleftrightarrow>
     list_ex (\<lambda>p. p_user_id p = user \<and> p_is_host p \<and> present p) (rs_participants rs)"

definition handle_permission_set_payload ::
    "'m codec \<Rightarrow> uuid \<Rightarrow> permission_set_payload \<Rightarrow> uuid \<Rightarrow> 'm registry \<Rightarrow> database
       \<Rightarrow> 'm room_event list result \<times> 'm registry \<times> database" where
  "handle_permission_set_payload cd rid payload caller reg db =
     (let target_id = perm_target_user_id payload
      in if target_id = caller then (Inl (Internal ''PERMISSION_SET: cannot modify own capabilities''), reg, db)
         else (case get_by_id rid reg of
           None \<Rightarrow> (Inl RoomNotFound, reg, db)
         | Some rs \<Rightarrow>
             if \<not> is_present_host caller rs then (Inl NotHost, reg, db)
             else (case live_record target_id rs of
               None \<Rightarrow> (Inl (Internal ''PERMISSION_SET: target is not a room participant''), reg, db)
             | Some target \<Rightarrow>
                 (let caps = new_cap_set payload (p_cap_set target)
                  in case db_update_participant_cap_set rid target_id caps db of
                       (Inl e, db') \<Rightarrow> (Inl (Internal e), reg, db')
                     | (Inr _, db') \<Rightarrow>
                         (let events = [EvCapabilityUpdated target_id caps];
                              rs' = update_live_user target_id (\<lambda>p. p\<lparr>p_cap_set := caps\<rparr>) rs
                          in (Inr events, publish_events cd events rid (put_room rid rs' reg), db'))))))"

definition handle_permission_set ::
    "'m edge \<Rightarrow> json envelope \<Rightarrow> uuid \<Rightarrow> 'm registry \<Rightarrow> database
       \<Rightarrow> 'm room_event list result \<times> 'm registry \<times> database" where
  "handle_permission_set ed env caller reg db =
     (case env_room_id env of
        None \<Rightarrow> (Inl (Internal ''PERMISSION_SET missing room_id''), reg, db)
      | Some rid \<Rightarrow>
     (case ed_permission ed (env_payload env) of
        None \<Rightarrow> (Inl (Internal ''permission_set payload''), reg, db)
      | Some payload \<Rightarrow> handle_permission_set_payload (ed_codec ed) rid payload caller reg db))"

section \<open>Chat, laser and position\<close>

definition MAX_TEXT_LEN :: nat where "MAX_TEXT_LEN = 2048"

definition handle_chat_message_payload ::
    "uuid \<Rightarrow> chat_payload \<Rightarrow> uuid \<Rightarrow> millis \<Rightarrow> 'm registry \<Rightarrow> 'm room_event list result" where
  "handle_chat_message_payload rid payload user now_ms reg =
     (if utf8_len (chat_text payload) > MAX_TEXT_LEN
      then Inl (Internal ''chat message text exceeds the byte limit'')
      else if \<not> can reg user rid ScopeChat SendChat then Inl (Internal ''chat: not authorized to send'')
      else (case get_by_id rid reg of
        None \<Rightarrow> Inl RoomNotFound
      | Some rs \<Rightarrow>
          if \<not> has_live_record user rs then Inl NotJoined
          else if (case chat_reply_to payload of
                     None \<Rightarrow> False
                   | Some reply_to \<Rightarrow> \<not> list_ex (\<lambda>p. p_user_id p = reply_to) (rs_participants rs))
          then Inl (Internal ''chat: reply_to references unknown participant'')
          else Inr [EvChatMessage \<lparr>cm_room_id = rid, cm_sender_id = user, cm_text = chat_text payload,
                      cm_reply_to = chat_reply_to payload, cm_sent_ms = now_ms\<rparr>]))"

definition handle_chat_message ::
    "'m edge \<Rightarrow> json envelope \<Rightarrow> uuid \<Rightarrow> millis \<Rightarrow> 'm registry \<Rightarrow> 'm room_event list result" where
  "handle_chat_message ed env user now_ms reg =
     (case env_room_id env of
        None \<Rightarrow> Inl (Internal ''CHAT_MESSAGE missing room_id'')
      | Some rid \<Rightarrow>
     (case ed_chat ed (env_payload env) of
        None \<Rightarrow> Inl (Internal ''chat payload'')
      | Some payload \<Rightarrow> handle_chat_message_payload rid payload user now_ms reg))"

definition laser_event :: "'m edge \<Rightarrow> json envelope \<Rightarrow> uuid \<Rightarrow> 'm room_event option" where
  "laser_event ed env user =
     (case env_room_id env of
        None \<Rightarrow> None
      | Some rid \<Rightarrow>
     (case env_type env of
        MkLaserMove \<Rightarrow>
          (case ed_laser_move ed (env_payload env) of
             None \<Rightarrow> None
           | Some payload \<Rightarrow>
               if \<not> validate_unit_range (lm_x payload) \<or> \<not> validate_unit_range (lm_y payload) then None
               else Some (EvLaserMove rid user payload))
      | MkLaserOff \<Rightarrow> Some (EvLaserOff rid user)
      | _ \<Rightarrow> None))"

datatype presence_error = PrNotJoined | PrBadPayload

fun presence_room_error :: "presence_error \<Rightarrow> room_error" where
  "presence_room_error PrNotJoined = NotJoined"
| "presence_room_error PrBadPayload = InvalidState"

definition handle_position_report ::
    "'m edge \<Rightarrow> json envelope \<Rightarrow> 'm registry \<Rightarrow> uuid \<Rightarrow> presence_error + 'm room_event" where
  "handle_position_report ed env reg user =
     (case ed_position ed (env_payload env) of
        None \<Rightarrow> Inl PrBadPayload
      | Some payload \<Rightarrow>
     (case env_room_id env of
        None \<Rightarrow> Inl PrBadPayload
      | Some rid \<Rightarrow>
          if \<not> is_user_in_room user rid reg then Inl PrNotJoined
          else Inr (EvPositionReport rid user
                 \<lparr>pos_user_id = user, pos_media_position_ms = pos_media_position_ms payload,
                  pos_playing = pos_playing payload, pos_client_ts_ms = pos_client_ts_ms payload\<rparr>)))"

section \<open>Facts\<close>

lemma is_present_host_iff:
  assumes "room_inv rs" and "live_record user rs = Some p"
  shows "is_present_host user rs \<longleftrightarrow> p_is_host p \<and> present p"
proof -
  have "q = p" if "q \<in> set (rs_participants rs)" "p_user_id q = user" for q
    using find_distinct_user [OF _ assms(2) [unfolded live_record_def] that] assms(1)
    by (simp add: room_inv_def)
  with live_recordD [OF assms(2)] show ?thesis by (auto simp: is_present_host_def list_ex_iff)
qed

text \<open>The handler applies one change in one room, or only reports an error.\<close>

lemma permission_cases:
  assumes "handle_permission_set ed env caller reg db = (res, reg', db')"
  obtains (refused) e where "res = Inl e" "reg' = reg"
    | (applied) rid payload rs target where "env_room_id env = Some rid"
      "ed_permission ed (env_payload env) = Some payload" "perm_target_user_id payload \<noteq> caller"
      "get_by_id rid reg = Some rs" "is_present_host caller rs"
      "live_record (perm_target_user_id payload) rs = Some target"
      "db_update_participant_cap_set rid (perm_target_user_id payload)
         (new_cap_set payload (p_cap_set target)) db = (Inr (), db')"
      "res = Inr [EvCapabilityUpdated (perm_target_user_id payload) (new_cap_set payload (p_cap_set target))]"
      "reg' = publish rid (event_to_broadcast_item
          (EvCapabilityUpdated (perm_target_user_id payload) (new_cap_set payload (p_cap_set target))) rid None)
        (put_room rid (update_live_user (perm_target_user_id payload)
          (\<lambda>p. p\<lparr>p_cap_set := new_cap_set payload (p_cap_set target)\<rparr>) rs) reg)"
proof (cases "\<exists>rid payload rs target db2. env_room_id env = Some rid
    \<and> ed_permission ed (env_payload env) = Some payload \<and> perm_target_user_id payload \<noteq> caller
    \<and> get_by_id rid reg = Some rs \<and> is_present_host caller rs
    \<and> live_record (perm_target_user_id payload) rs = Some target
    \<and> db_update_participant_cap_set rid (perm_target_user_id payload)
         (new_cap_set payload (p_cap_set target)) db = (Inr (), db2)")
  case True
  then obtain rid payload rs target db2 where a: "env_room_id env = Some rid"
    "ed_permission ed (env_payload env) = Some payload" "perm_target_user_id payload \<noteq> caller"
    "get_by_id rid reg = Some rs" "is_present_host caller rs"
    "live_record (perm_target_user_id payload) rs = Some target"
    "db_update_participant_cap_set rid (perm_target_user_id payload)
         (new_cap_set payload (p_cap_set target)) db = (Inr (), db2)" by blast
  have db2: "db2 = db'"
    using assms a by (simp add: handle_permission_set_def handle_permission_set_payload_def Let_def)
  show thesis
    by (rule applied [OF a(1-6) a(7) [unfolded db2]])
      (use assms a in \<open>simp_all add: handle_permission_set_def handle_permission_set_payload_def Let_def
        publish_events_def publish_event_plain event_to_broadcast_item_def\<close>)
next
  case False
  with assms refused show thesis
    by (auto simp: handle_permission_set_def handle_permission_set_payload_def Let_def
        split: option.splits sum.splits prod.splits if_splits)
qed

lemma permission_inv:
  assumes inv: "registry_inv reg"
  shows "registry_inv (fst (snd (handle_permission_set ed env caller reg db)))"
proof -
  obtain res reg' db' where h: "handle_permission_set ed env caller reg db = (res, reg', db')"
    by (metis prod_cases3)
  then have "registry_inv reg'"
  proof (cases rule: permission_cases)
    case (applied rid payload rs target)
    then have rs: "hm_get (rg_by_id reg) rid = Some rs" by (simp add: get_by_id_def)
    have "same_room rs (update_live_user (perm_target_user_id payload)
        (\<lambda>p. p\<lparr>p_cap_set := new_cap_set payload (p_cap_set target)\<rparr>) rs)"
      unfolding update_live_user_def using registry_room [OF inv rs]
      by (intro update_first_same) simp_all
    from put_same_room [OF inv rs this] show ?thesis by (simp add: applied(9) publish_inv)
  qed (use inv in simp)
  with h show ?thesis by simp
qed


lemma live_record_update:
  assumes "\<And>p. p_user_id (f p) = p_user_id p" and "\<And>p. live (f p) = live p"
  shows "live_record u (update_live_user t f rs)
    = (if u = t then map_option f (live_record t rs) else live_record u rs)"
proof -
  have "find (\<lambda>p. p_user_id p = u \<and> live p) (update_first (\<lambda>p. p_user_id p = t \<and> live p) f ps)
      = (if u = t then map_option f (find (\<lambda>p. p_user_id p = t \<and> live p) ps)
         else find (\<lambda>p. p_user_id p = u \<and> live p) ps)" for ps
    by (induction ps) (auto simp: assms)
  then show ?thesis by (simp add: live_record_def update_live_user_def)
qed

lemma update_live_user_fields [simp]:
  "rs_playback (update_live_user u f rs) = rs_playback rs"
  "rs_drawing (update_live_user u f rs) = rs_drawing rs"
  by (simp_all add: update_live_user_def)

section \<open>Properties\<close>

text \<open>
  An accepted PERMISSION_SET comes from the present host of the named room and targets
  another live participant of it. The target's new capabilities are the old ones without the
  removed bits and with the added ones (or exactly the added ones, when all are removed); room,
  database and the one CAPABILITY_UPDATE agree on them, nobody else's change, no other room is
  touched. A refusal leaves the registry as it was.
\<close>

theorem permission_set_spec:
  assumes "handle_permission_set ed env caller reg db = (res, reg', db')"
  shows "case res of
      Inl e \<Rightarrow> reg' = reg
    | Inr events \<Rightarrow> \<exists>rid payload rs rs' target. env_room_id env = Some rid
        \<and> ed_permission ed (env_payload env) = Some payload \<and> perm_target_user_id payload \<noteq> caller
        \<and> get_by_id rid reg = Some rs \<and> get_by_id rid reg' = Some rs' \<and> is_present_host caller rs
        \<and> live_record (perm_target_user_id payload) rs = Some target
        \<and> (let caps = (if perm_remove_cap_set payload = 0xFFFFFFFF then perm_add_cap_set payload
                       else (p_cap_set target AND NOT (perm_remove_cap_set payload)) OR perm_add_cap_set payload)
           in live_record (perm_target_user_id payload) rs' = Some (target\<lparr>p_cap_set := caps\<rparr>)
            \<and> map_option pr_cap_set (participant_lookup db' rid (perm_target_user_id payload))
                = map_option (\<lambda>_. caps) (participant_lookup db rid (perm_target_user_id payload))
            \<and> events = [EvCapabilityUpdated (perm_target_user_id payload) caps]
            \<and> channel rid reg' = map_option (\<lambda>sent. sent @ [event_to_broadcast_item
                 (EvCapabilityUpdated (perm_target_user_id payload) caps) rid None]) (channel rid reg))
        \<and> (\<forall>u. u \<noteq> perm_target_user_id payload \<longrightarrow> live_record u rs' = live_record u rs
             \<and> participant_lookup db' rid u = participant_lookup db rid u)
        \<and> rs_playback rs' = rs_playback rs \<and> rs_drawing rs' = rs_drawing rs
        \<and> (\<forall>x. x \<noteq> rid \<longrightarrow> get_by_id x reg' = get_by_id x reg \<and> channel x reg' = channel x reg)"
  using assms
proof (cases rule: permission_cases)
  case (refused e)
  then show ?thesis by simp
next
  case (applied rid payload rs target)
  let ?t = "perm_target_user_id payload" and ?caps = "new_cap_set payload (p_cap_set target)"
  let ?rs' = "update_live_user ?t (\<lambda>p. p\<lparr>p_cap_set := ?caps\<rparr>) rs"
  have caps: "?caps = (if perm_remove_cap_set payload = 0xFFFFFFFF then perm_add_cap_set payload
      else (p_cap_set target AND NOT (perm_remove_cap_set payload)) OR perm_add_cap_set payload)"
    by (simp add: new_cap_set_def u32_MAX_def)
  have seat: "live_record u ?rs' = (if u = ?t then Some (target\<lparr>p_cap_set := ?caps\<rparr>) else live_record u rs)" for u
    by (subst live_record_update) (simp_all add: applied(6))
  have row: "participant_lookup db' rid ?t = map_option (\<lambda>r. r\<lparr>pr_cap_set := ?caps\<rparr>) (participant_lookup db rid ?t)"
    by (rule seats.caps_ok [OF applied(7)])
  have rows: "participant_lookup db' rid u = participant_lookup db rid u" if "u \<noteq> ?t" for u
    using seats.caps_other [of rid u rid ?t ?caps db] that applied(7) by simp
  have room: "get_by_id x reg' = (if x = rid then Some ?rs' else get_by_id x reg)" for x
    by (simp add: applied(9) get_by_id_def)
  have chan: "channel x reg' = (if x = rid then map_option (\<lambda>sent. sent @ [event_to_broadcast_item
      (EvCapabilityUpdated ?t ?caps) rid None]) (channel rid reg) else channel x reg)" for x
    by (simp add: applied(9) channel_publish)
  show ?thesis
    unfolding applied(8) sum.case Let_def
    by (rule exI [of _ rid], rule exI [of _ payload], rule exI [of _ rs], rule exI [of _ ?rs'],
        rule exI [of _ target])
      (simp add: applied(1-6) room chan seat row rows caps [symmetric] option.map_comp o_def)
qed

theorem permission_set_spec_witness:
  "\<exists>e. fst (handle_permission_set example_edge (example_envelope MkPermissionSet (Some 1)) 7
     (example_registry :: nat registry) \<lparr>db_rooms = [], db_participants = [], db_manifests = [], db_clock = 0,
       db_faults = []\<rparr>) = Inl e"
proof -
  let ?db = "\<lparr>db_rooms = [], db_participants = [], db_manifests = [], db_clock = 0, db_faults = []\<rparr>"
  let ?h = "handle_permission_set example_edge (example_envelope MkPermissionSet (Some 1)) 7
     (example_registry :: nat registry) ?db"
  have "live_record 9 example_room_state = None"
    by (simp add: live_record_def example_room_state_def room_state_new_def)
  moreover have "?h = (fst ?h, fst (snd ?h), snd (snd ?h))" by simp
  note permission_set_spec [OF this]
  ultimately show ?thesis
    by (cases "fst ?h")
      (auto simp: example_registry_room example_edge_def example_envelope_def)
qed

text \<open>
  Whoever a relayed message claims to be from, it is published under the authenticated
  sender's id and in the room it names. A chat text is at most 2048 bytes, stamped with the
  server's clock, from a participant of that room who may chat and answering one of its
  participants; a position report carries the sender's own id; laser coordinates lie in the
  unit range.
\<close>

theorem relayed_identity:
  assumes "(handle_chat_message ed env user now_ms reg = Inr events \<and> event \<in> set events)
    \<or> laser_event ed env user = Some event \<or> handle_position_report ed env reg user = Inr event"
  shows "\<exists>rid. env_room_id env = Some rid \<and> event_room fallback event = rid \<and> event_originator event = Some user
    \<and> (case event of
         EvChatMessage m \<Rightarrow> cm_sender_id m = user \<and> utf8_len (cm_text m) \<le> 2048 \<and> cm_sent_ms m = now_ms
           \<and> can reg user rid ScopeChat SendChat
           \<and> (\<exists>rs. get_by_id rid reg = Some rs \<and> has_live_record user rs
               \<and> (\<forall>r. cm_reply_to m = Some r \<longrightarrow> r \<in> p_user_id ` set (rs_participants rs)))
       | EvPositionReport _ _ p \<Rightarrow> pos_user_id p = user \<and> is_user_in_room user rid reg
       | EvLaserMove _ _ p \<Rightarrow> validate_unit_range (lm_x p) \<and> validate_unit_range (lm_y p)
       | EvLaserOff _ _ \<Rightarrow> env_type env = MkLaserOff
       | _ \<Rightarrow> False)"
  using assms
proof (elim disjE conjE)
  assume chat: "handle_chat_message ed env user now_ms reg = Inr events" "event \<in> set events"
  then obtain rid payload where "env_room_id env = Some rid"
    "handle_chat_message_payload rid payload user now_ms reg = Inr events"
    by (auto simp: handle_chat_message_def split: option.splits)
  with chat(2) show ?thesis
    by (auto simp: handle_chat_message_payload_def MAX_TEXT_LEN_def list_ex_iff
        split: if_splits option.splits)
next
  assume "laser_event ed env user = Some event"
  then show ?thesis
    by (auto simp: laser_event_def split: option.splits message_kind.splits if_splits)
next
  assume "handle_position_report ed env reg user = Inr event"
  then show ?thesis by (auto simp: handle_position_report_def split: option.splits if_splits)
qed

theorem relayed_identity_witness:
  "event_originator (EvLaserOff 1 7 :: nat room_event) = Some 7"
proof -
  have laser: "laser_event example_edge (example_envelope MkLaserOff (Some 1)) 7 = Some (EvLaserOff 1 7)"
    by (simp add: laser_event_def example_envelope_def)
  show ?thesis
    using relayed_identity [OF disjI2 [OF disjI1 [OF laser]]] by blast
qed

end
