(* ===== verification/Assembly.thy ===== *)
theory Assembly
  imports ManifestParts "HOL-Library.Multiset"
begin

text \<open>
  Reassembly of MANIFEST_PART pieces, \<open>PartAssembler\<close> and \<open>ByteBudget\<close> of
  \<open>shared/protocol/src/manifest_parts.rs\<close>. The budget is shared by all connections, so it is
  passed beside the assembler; an entry's reservation is its declared length, given back when
  the entry is dropped. An \<open>Instant\<close> is a natural number of milliseconds.
\<close>

section \<open>State\<close>

record byte_budget =
  bb_used :: nat
  bb_cap :: nat

record entry =
  en_room_id :: uuid
  en_assembly_id :: uuid
  en_kind :: manifest_part_kind
  en_total :: nat
  en_total_bytes :: nat
  en_digest :: string
  en_version :: int
  en_published_at_ms :: millis
  en_ends :: "nat list"
  en_buf :: bytes
  en_last_activity :: nat

record part_assembler =
  asm_max_concurrent :: nat
  asm_ttl :: nat
  asm_entries :: "entry list"

record 'm assembled_manifest =
  am_room_id :: uuid
  am_kind :: manifest_part_kind
  am_version :: int
  am_published_at_ms :: millis
  am_manifest :: 'm

definition assembler_new :: "nat \<Rightarrow> nat \<Rightarrow> part_assembler" where
  "assembler_new max_concurrent ttl =
     \<lparr>asm_max_concurrent = max max_concurrent 1, asm_ttl = ttl, asm_entries = []\<rparr>"

text \<open>An attempt to reserve bytes, and the \<open>Drop\<close> of a reservation.\<close>

definition reserve :: "nat \<Rightarrow> byte_budget \<Rightarrow> part_error + byte_budget" where
  "reserve bytes bb =
     (if bb_used bb + bytes \<le> bb_cap bb then Inr (bb\<lparr>bb_used := bb_used bb + bytes\<rparr>) else Inl BudgetExhausted)"

definition release :: "entry list \<Rightarrow> byte_budget \<Rightarrow> byte_budget" where
  "release dropped bb = bb\<lparr>bb_used := bb_used bb - sum_list (map en_total_bytes dropped)\<rparr>"

text \<open>\<open>entries.retain(P)\<close>, with the reservations of what goes.\<close>

definition retain :: "(entry \<Rightarrow> bool) \<Rightarrow> byte_budget \<times> entry list \<Rightarrow> byte_budget \<times> entry list" where
  "retain P st = (release (filter (\<lambda>e. \<not> P e) (snd st)) (fst st), filter P (snd st))"

text \<open>\<open>Vec::swap_remove\<close>: the last element takes the place of the removed one.\<close>

definition swap_remove :: "nat \<Rightarrow> byte_budget \<times> entry list \<Rightarrow> byte_budget \<times> entry list" where
  "swap_remove i st =
     (release [snd st ! i] (fst st),
      if Suc i = length (snd st) then butlast (snd st) else (butlast (snd st))[i := List.last (snd st)])"

section \<open>Operations\<close>

text \<open>\<open>from_base64\<close> of \<open>shared/crypto\<close> refuses the empty string before it decodes.\<close>

definition from_base64 :: "'m codec \<Rightarrow> string \<Rightarrow> bytes option" where
  "from_base64 cd s = (if s = [] then None else cd_from_base64 cd s)"

definition clear :: "byte_budget \<Rightarrow> part_assembler \<Rightarrow> byte_budget \<times> part_assembler" where
  "clear bb a = (release (asm_entries a) bb, a\<lparr>asm_entries := []\<rparr>)"

definition expire :: "nat \<Rightarrow> nat \<Rightarrow> byte_budget \<times> entry list \<Rightarrow> byte_budget \<times> entry list" where
  "expire ttl now st = retain (\<lambda>e. now - en_last_activity e < ttl) st"

definition hex_digit :: "char \<Rightarrow> bool" where
  "hex_digit c \<longleftrightarrow> c \<in> set ''0123456789abcdef''"

definition validate_header :: "manifest_part_payload \<Rightarrow> part_error + unit" where
  "validate_header part =
     (if mp_total part = 0 \<or> mp_total part > MAX_PARTS then Inl BadHeader
      else if mp_index part \<ge> mp_total part then Inl BadHeader
      else if mp_total_bytes part = 0 \<or> mp_total_bytes part > MAX_ASSEMBLED_BYTES
      then Inl (TooLarge (mp_total_bytes part) MAX_ASSEMBLED_BYTES)
      else if mp_total_bytes part > mp_total part * MAX_PART_BYTES \<or> mp_total part > mp_total_bytes part
      then Inl BadHeader
      else if length (mp_digest part) \<noteq> 64 \<or> \<not> list_all hex_digit (mp_digest part) then Inl BadHeader
      else if mp_kind part = PartPublish \<and> (mp_version part \<noteq> 0 \<or> mp_published_at_ms part \<noteq> 0)
      then Inl BadHeader
      else Inr ())"

definition drop_assembly ::
    "uuid \<Rightarrow> uuid \<Rightarrow> byte_budget \<times> entry list \<Rightarrow> byte_budget \<times> entry list" where
  "drop_assembly rid aid st = retain (\<lambda>e. \<not> (en_room_id e = rid \<and> en_assembly_id e = aid)) st"

text \<open>The index of the entry idle for longest, the first of them if several are.\<close>

definition oldest_entry :: "entry list \<Rightarrow> nat" where
  "oldest_entry es =
     (case min_by_key (\<lambda>(_, e). en_last_activity e) (List.enumerate 0 es) of
        None \<Rightarrow> 0 | Some (i, _) \<Rightarrow> i)"

text \<open>
  The \<open>while\<close> loop of \<open>begin\<close>. The limit is at least one, so the list is not empty when it runs.
\<close>

function make_slot :: "nat \<Rightarrow> byte_budget \<times> entry list \<Rightarrow> byte_budget \<times> entry list" where
  "make_slot limit st =
     (if limit \<le> length (snd st) \<and> snd st \<noteq> []
      then make_slot limit (swap_remove (oldest_entry (snd st)) st) else st)"
  by pat_completeness auto
termination
  by (relation "measure (\<lambda>(_, st). length (snd st))") (auto simp: swap_remove_def)

declare make_slot.simps [simp del]

definition begin_assembly ::
    "nat \<Rightarrow> uuid \<Rightarrow> manifest_part_payload \<Rightarrow> nat \<Rightarrow> byte_budget \<times> entry list
       \<Rightarrow> (part_error + nat) \<times> byte_budget \<times> entry list" where
  "begin_assembly limit rid part now st =
     (let st1 = retain (\<lambda>e. \<not> (en_room_id e = rid \<and> en_kind e = mp_kind part)) st;
          st2 = make_slot limit st1
      in case reserve (mp_total_bytes part) (fst st2) of
           Inl e \<Rightarrow> (Inl e, st2)
         | Inr bb \<Rightarrow>
             (let es = snd st2 @
                [\<lparr>en_room_id = rid, en_assembly_id = mp_assembly_id part, en_kind = mp_kind part,
                  en_total = mp_total part, en_total_bytes = mp_total_bytes part,
                  en_digest = mp_digest part, en_version = mp_version part,
                  en_published_at_ms = mp_published_at_ms part, en_ends = [], en_buf = [],
                  en_last_activity = now\<rparr>]
              in (Inr (length es - 1), bb, es)))"

definition same_header :: "entry \<Rightarrow> manifest_part_payload \<Rightarrow> bool" where
  "same_header e part \<longleftrightarrow> en_kind e = mp_kind part \<and> en_total e = mp_total part
     \<and> en_total_bytes e = mp_total_bytes part \<and> en_digest e = mp_digest part
     \<and> en_version e = mp_version part \<and> en_published_at_ms e = mp_published_at_ms part"

text \<open>\<open>take\<close>: the result, and the entry as the piece leaves it.\<close>

definition take_piece ::
    "'m codec \<Rightarrow> manifest_part_payload \<Rightarrow> bytes \<Rightarrow> nat \<Rightarrow> entry
       \<Rightarrow> (part_error + 'm assembled_manifest option) \<times> entry" where
  "take_piece cd part piece now e =
     (if \<not> same_header e part then (Inl BadHeader, e)
      else let next_index = length (en_ends e)
      in if mp_index part < next_index
         then let start = (if mp_index part = 0 then 0 else en_ends e ! (mp_index part - 1));
                  stop = en_ends e ! mp_index part
              in if drop start (take stop (en_buf e)) = piece then (Inr None, e)
                 else (Inl (Conflict (mp_index part)), e)
         else if mp_index part \<noteq> next_index then (Inl (OutOfOrder next_index (mp_index part)), e)
         else if length (en_buf e) + length piece > en_total_bytes e then (Inl LengthMismatch, e)
         else let buf = en_buf e @ piece;
                  e' = e\<lparr>en_buf := buf, en_ends := en_ends e @ [length buf], en_last_activity := now\<rparr>
              in if mp_index part + 1 < en_total e then (Inr None, e')
                 else if length buf \<noteq> en_total_bytes e then (Inl LengthMismatch, e')
                 else if cd_sha256_hex cd buf \<noteq> en_digest e then (Inl DigestMismatch, e')
                 else (case cd_from_slice cd buf of
                         None \<Rightarrow> (Inl BadManifest, e')
                       | Some m \<Rightarrow> (Inr (Some \<lparr>am_room_id = en_room_id e, am_kind = en_kind e,
                            am_version = en_version e, am_published_at_ms = en_published_at_ms e,
                            am_manifest = m\<rparr>), e')))"

text \<open>\<open>iter().position(P)\<close>.\<close>

fun position :: "('a \<Rightarrow> bool) \<Rightarrow> 'a list \<Rightarrow> nat option" where
  "position P [] = None"
| "position P (x # xs) = (if P x then Some 0 else map_option Suc (position P xs))"

text \<open>The part of \<open>push\<close> once the entry is known: a finished or refused assembly is dropped.\<close>

definition push_at ::
    "'m codec \<Rightarrow> manifest_part_payload \<Rightarrow> bytes \<Rightarrow> nat \<Rightarrow> nat \<Rightarrow> byte_budget \<times> entry list
       \<Rightarrow> (part_error + 'm assembled_manifest option) \<times> byte_budget \<times> entry list" where
  "push_at cd part piece now pos st =
     (let (result, e') = take_piece cd part piece now (snd st ! pos);
          st' = (fst st, (snd st)[pos := e'])
      in case result of
           Inr None \<Rightarrow> (Inr None, st')
         | Inr (Some done) \<Rightarrow> (Inr (Some done), swap_remove pos st')
         | Inl e \<Rightarrow> (Inl e, swap_remove pos st'))"

definition push_entries ::
    "'m codec \<Rightarrow> nat \<Rightarrow> nat \<Rightarrow> uuid \<Rightarrow> manifest_part_payload \<Rightarrow> nat \<Rightarrow> byte_budget \<times> entry list
       \<Rightarrow> (part_error + 'm assembled_manifest option) \<times> byte_budget \<times> entry list" where
  "push_entries cd limit ttl rid part now st0 =
     (let st = expire ttl now st0;
          bad = (Inl (BadPiece (mp_index part)), drop_assembly rid (mp_assembly_id part) st)
      in case validate_header part of
           Inl e \<Rightarrow> (Inl e, st)
         | Inr _ \<Rightarrow>
             if length (mp_data part) > div_ceil MAX_PART_BYTES 3 * 4 then bad
             else (case from_base64 cd (mp_data part) of
               None \<Rightarrow> bad
             | Some piece \<Rightarrow>
                 if length piece > MAX_PART_BYTES then bad
                 else (case position (\<lambda>e. en_room_id e = rid \<and> en_assembly_id e = mp_assembly_id part) (snd st) of
                   Some pos \<Rightarrow> push_at cd part piece now pos st
                 | None \<Rightarrow>
                     if mp_index part \<noteq> 0 then (Inl (OutOfOrder 0 (mp_index part)), st)
                     else (case begin_assembly limit rid part now st of
                             (Inl e, st') \<Rightarrow> (Inl e, st')
                           | (Inr pos, st') \<Rightarrow> push_at cd part piece now pos st'))))"

definition push ::
    "'m codec \<Rightarrow> uuid \<Rightarrow> manifest_part_payload \<Rightarrow> nat \<Rightarrow> byte_budget \<Rightarrow> part_assembler
       \<Rightarrow> (part_error + 'm assembled_manifest option) \<times> byte_budget \<times> part_assembler" where
  "push cd rid part now bb a =
     (let (result, bb', es) = push_entries cd (asm_max_concurrent a) (asm_ttl a) rid part now (bb, asm_entries a)
      in (result, bb', a\<lparr>asm_entries := es\<rparr>))"


section \<open>The invariant\<close>

text \<open>
  The bytes charged to the budget are those of the other connections and the declared lengths
  in flight here, within the cap; an entry's buffer stays within its declared length, and its
  piece ends lie in the buffer.
\<close>

definition entry_ok :: "entry \<Rightarrow> bool" where
  "entry_ok e \<longleftrightarrow> en_total_bytes e \<le> MAX_ASSEMBLED_BYTES \<and> length (en_buf e) \<le> en_total_bytes e
     \<and> length (en_ends e) < en_total e \<and> en_total e \<le> MAX_PARTS
     \<and> (\<forall>x \<in> set (en_ends e). x \<le> length (en_buf e))"

definition entries_inv :: "nat \<Rightarrow> nat \<Rightarrow> byte_budget \<times> entry list \<Rightarrow> bool" where
  "entries_inv others limit st \<longleftrightarrow>
     bb_used (fst st) = others + sum_list (map en_total_bytes (snd st)) \<and> bb_used (fst st) \<le> bb_cap (fst st)
     \<and> length (snd st) \<le> limit \<and> (\<forall>e \<in> set (snd st). entry_ok e)"

lemma release_simps [simp]:
  "bb_used (release es bb) = bb_used bb - sum_list (map en_total_bytes es)"
  "bb_cap (release es bb) = bb_cap bb"
  by (simp_all add: release_def)

lemma sum_filter_split:
  "sum_list (map f (filter P xs)) + sum_list (map f (filter (\<lambda>x. \<not> P x) xs)) = (sum_list (map f xs) :: nat)"
  by (induction xs) auto

lemma retain_inv: "entries_inv others limit st \<Longrightarrow> entries_inv others limit (retain P st)"
  using sum_filter_split [of en_total_bytes P "snd st"]
  by (auto simp: entries_inv_def retain_def intro: order_trans [OF length_filter_le])

text \<open>The list after \<open>swap_remove\<close> is the list without the element, in some order.\<close>

lemma swap_remove_mset:
  assumes "i < length es"
  shows "mset (snd (swap_remove i (bb, es))) = mset es - {#es ! i#}"
proof -
  obtain ys y where es: "es = ys @ [y]" using assms by (cases es rule: rev_cases) auto
  show ?thesis
  proof (cases "i = length ys")
    case True
    then show ?thesis by (simp add: swap_remove_def es)
  next
    case False
    then have i: "i < length ys" using assms es by simp
    then show ?thesis by (simp add: swap_remove_def es nth_append mset_update)
  qed
qed

lemma swap_remove_inv:
  assumes inv: "entries_inv others limit (bb, es)" and i: "i < length es"
  shows "entries_inv others (limit - 1) (swap_remove i (bb, es))"
proof -
  let ?es = "snd (swap_remove i (bb, es))"
  have ms: "mset ?es = mset es - {#es ! i#}" by (rule swap_remove_mset [OF i])
  have mem: "es ! i \<in># mset es" using i by simp
  then have full: "mset es = add_mset (es ! i) (mset ?es)" using ms by simp
  have len: "length es = Suc (length ?es)" using arg_cong [OF full, of size] by simp
  have "sum_mset (image_mset en_total_bytes (mset es)) = en_total_bytes (es ! i)
      + sum_mset (image_mset en_total_bytes (mset ?es))"
    using full by simp
  then have sum: "sum_list (map en_total_bytes es) = en_total_bytes (es ! i) + sum_list (map en_total_bytes ?es)"
    by (simp flip: mset_map sum_mset_sum_list)
  have sub: "set ?es \<subseteq> set es" using arg_cong [OF full, of set_mset] by auto
  have bb: "fst (swap_remove i (bb, es)) = release [es ! i] bb" by (simp add: swap_remove_def)
  show ?thesis using inv sum len sub unfolding entries_inv_def bb by auto
qed

lemma oldest_entry_less: "es \<noteq> [] \<Longrightarrow> oldest_entry es < length es"
proof -
  assume "es \<noteq> []"
  then obtain m where m: "min_by_key (\<lambda>(_, e). en_last_activity e) (List.enumerate 0 es) = Some m"
    by (metis length_0_conv length_enumerate min_by_key_None not_None_eq)
  from min_by_key_SomeD [OF this] have "m \<in> set (List.enumerate 0 es)" by simp
  moreover obtain i e where ie: "m = (i, e)" by (cases m)
  ultimately have "i < length es" by (simp add: in_set_enumerate_eq)
  moreover have "oldest_entry es = i" unfolding oldest_entry_def m ie by simp
  ultimately show ?thesis by simp
qed

lemma make_slot_inv:
  assumes "entries_inv others limit st" and "0 < limit"
  shows "entries_inv others (limit - 1) (make_slot limit st)"
  using assms
proof (induction limit st rule: make_slot.induct)
  case (1 limit st)
  show ?case
  proof (cases "limit \<le> length (snd st) \<and> snd st \<noteq> []")
    case True
    have "entries_inv others (limit - 1) (swap_remove (oldest_entry (snd st)) st)"
      using swap_remove_inv [of others limit "fst st" "snd st" "oldest_entry (snd st)"]
        "1.prems"(1) True oldest_entry_less by simp
    then have "entries_inv others limit (swap_remove (oldest_entry (snd st)) st)"
      by (auto simp: entries_inv_def)
    from "1.IH" [OF True this "1.prems"(2)] True show ?thesis by (subst make_slot.simps) simp
  next
    case False
    with "1.prems" show ?thesis by (subst make_slot.simps) (auto simp: entries_inv_def)
  qed
qed

lemma begin_assembly_inv:
  assumes inv: "entries_inv others limit st" and "0 < limit" and h: "validate_header part = Inr ()"
    and b: "begin_assembly limit rid part now st = (res, st')"
  shows "entries_inv others limit st' \<and> (\<forall>pos. res = Inr pos \<longrightarrow> pos < length (snd st'))"
proof -
  let ?st2 = "make_slot limit (retain (\<lambda>e. \<not> (en_room_id e = rid \<and> en_kind e = mp_kind part)) st)"
  have inv2: "entries_inv others (limit - 1) ?st2"
    by (intro make_slot_inv retain_inv inv assms(2))
  show ?thesis
  proof (cases "reserve (mp_total_bytes part) (fst ?st2)")
    case (Inl e)
    with b inv2 show ?thesis by (auto simp: begin_assembly_def Let_def entries_inv_def)
  next
    case (Inr bb)
    then have bb: "bb = (fst ?st2)\<lparr>bb_used := bb_used (fst ?st2) + mp_total_bytes part\<rparr>"
      "bb_used (fst ?st2) + mp_total_bytes part \<le> bb_cap (fst ?st2)"
      by (auto simp: reserve_def split: if_splits)
    have "mp_total part \<noteq> 0" "mp_total_bytes part \<le> MAX_ASSEMBLED_BYTES" "mp_total part \<le> MAX_PARTS"
      using h by (auto simp: validate_header_def split: if_splits)
    with b Inr inv2 bb assms(2) show ?thesis
      by (auto simp: begin_assembly_def Let_def entries_inv_def entry_ok_def)
  qed
qed

lemma take_piece_entry:
  assumes "entry_ok e" and "take_piece cd part piece now e = (res, e')"
  shows "en_total_bytes e' = en_total_bytes e \<and> (res = Inr None \<longrightarrow> entry_ok e')"
  using assms
  by (auto simp: take_piece_def Let_def entry_ok_def split: if_splits option.splits)
    (metis trans_le_add1)

lemma push_at_inv:
  assumes inv: "entries_inv others limit st" and pos: "pos < length (snd st)"
    and p: "push_at cd part piece now pos st = (res, st')"
  shows "entries_inv others limit st'"
proof -
  obtain bb es where st: "st = (bb, es)" by (cases st)
  obtain result e' where t: "take_piece cd part piece now (es ! pos) = (result, e')"
    by (cases "take_piece cd part piece now (es ! pos)")
  have ok: "entry_ok (es ! pos)" using inv pos st by (simp add: entries_inv_def)
  note e' = take_piece_entry [OF ok t]
  have sums: "map en_total_bytes (es[pos := e']) = map en_total_bytes es"
    using e' pos st by (simp add: map_update list_update_same_conv)
  show ?thesis
  proof (cases "result = Inr None")
    case True
    with p t st have st': "st' = (bb, es[pos := e'])" by (simp add: push_at_def)
    have "entry_ok x" if "x \<in> set (es[pos := e'])" for x
    proof -
      from that have "x = e' \<or> x \<in> set es" using set_update_subset_insert [of es pos e'] by auto
      with True e' inv st show ?thesis by (auto simp: entries_inv_def)
    qed
    with inv sums show ?thesis unfolding st' st entries_inv_def by simp
  next
    case False
    have "es \<noteq> []" using pos st by auto
    then have "swap_remove pos (bb, es[pos := e']) = (release [e'] bb, snd (swap_remove pos (bb, es)))"
      using pos st by (auto simp: swap_remove_def butlast_list_update last_list_update)
    also have "release [e'] bb = release [es ! pos] bb" using e' by (simp add: release_def)
    finally have eq: "swap_remove pos (bb, es[pos := e']) = swap_remove pos (bb, es)"
      by (simp add: swap_remove_def)
    have "st' = swap_remove pos (bb, es[pos := e'])"
      using p t st False by (auto simp: push_at_def Let_def split: sum.splits option.splits)
    with eq swap_remove_inv [of others limit bb es pos] inv pos st show ?thesis
      by (auto simp: entries_inv_def)
  qed
qed

lemma position_less: "position P xs = Some i \<Longrightarrow> i < length xs \<and> P (xs ! i)"
  by (induction xs arbitrary: i) (auto split: if_splits)

lemma push_entries_inv:
  assumes inv: "entries_inv others limit st0" and limit: "0 < limit"
  shows "entries_inv others limit (snd (push_entries cd limit ttl rid part now st0))"
proof -
  let ?st = "expire ttl now st0"
  have st: "entries_inv others limit ?st" unfolding expire_def by (rule retain_inv [OF inv])
  then have bad: "entries_inv others limit (drop_assembly rid (mp_assembly_id part) ?st)"
    unfolding drop_assembly_def by (rule retain_inv)
  have at: "entries_inv others limit (snd (push_at cd part piece now pos st1))"
    if "entries_inv others limit st1" "pos < length (snd st1)" for piece pos st1
    using push_at_inv [OF that prod.collapse [symmetric]] .
  have fresh: "entries_inv others limit (snd (case begin_assembly limit rid part now ?st of
      (Inl e, st') \<Rightarrow> (Inl e, st') | (Inr pos, st') \<Rightarrow> push_at cd part piece now pos st'))"
    if "validate_header part = Inr ()" for piece
  proof -
    obtain res st' where b: "begin_assembly limit rid part now ?st = (res, st')"
      by (cases "begin_assembly limit rid part now ?st")
    from begin_assembly_inv [OF st limit that b] at [of st'] show ?thesis
      by (cases res) (simp_all add: b)
  qed
  have known: "entries_inv others limit (snd (push_at cd part piece now pos ?st))"
    if "position (\<lambda>e. en_room_id e = rid \<and> en_assembly_id e = mp_assembly_id part) (snd ?st) = Some pos" for piece pos
    using at [OF st] position_less [OF that] by simp
  show ?thesis
    using st bad known fresh by (auto simp: push_entries_def Let_def split: sum.split option.split)
qed


section \<open>Feeding the pieces of a split manifest\<close>

text \<open>What the assembler relies on in the crates: base64 and its length, the shape of a SHA-256.\<close>

definition base64_ok :: "'m codec \<Rightarrow> bool" where
  "base64_ok cd \<longleftrightarrow> (\<forall>p. p \<noteq> [] \<longrightarrow> length p \<le> MAX_PART_BYTES \<longrightarrow>
     from_base64 cd (cd_to_base64 cd p) = Some p \<and> length (cd_to_base64 cd p) \<le> div_ceil MAX_PART_BYTES 3 * 4)"

definition sha256_hex_ok :: "'m codec \<Rightarrow> bool" where
  "sha256_hex_ok cd \<longleftrightarrow> (\<forall>bs. length (cd_sha256_hex cd bs) = 64 \<and> list_all hex_digit (cd_sha256_hex cd bs))"

text \<open>Pieces pushed one after the other at given times: the results and the state.\<close>

fun push_list ::
    "'m codec \<Rightarrow> nat \<Rightarrow> nat \<Rightarrow> uuid \<Rightarrow> (manifest_part_payload \<times> nat) list \<Rightarrow> byte_budget \<times> entry list
       \<Rightarrow> (part_error + 'm assembled_manifest option) list \<times> byte_budget \<times> entry list" where
  "push_list cd limit ttl rid [] st = ([], st)"
| "push_list cd limit ttl rid ((part, now) # rest) st =
     (let (result, st1) = push_entries cd limit ttl rid part now st;
          (results, st2) = push_list cd limit ttl rid rest st1
      in (result # results, st2))"

text \<open>Piece \<open>k\<close> of the split of \<open>bs\<close>, and the entry that has taken the first \<open>k\<close> pieces.\<close>

definition nth_part ::
    "'m codec \<Rightarrow> bytes \<Rightarrow> manifest_part_kind \<Rightarrow> int \<Rightarrow> millis \<Rightarrow> uuid \<Rightarrow> nat \<Rightarrow> nat \<Rightarrow> manifest_part_payload" where
  "nth_part cd bs kind version at aid psize k =
     \<lparr>mp_assembly_id = aid, mp_kind = kind, mp_index = k, mp_total = div_ceil (length bs) psize,
      mp_total_bytes = length bs, mp_digest = cd_sha256_hex cd bs, mp_version = version,
      mp_published_at_ms = at, mp_data = cd_to_base64 cd (chunks psize bs ! k)\<rparr>"

definition entry_after ::
    "'m codec \<Rightarrow> uuid \<Rightarrow> bytes \<Rightarrow> manifest_part_kind \<Rightarrow> int \<Rightarrow> millis \<Rightarrow> uuid \<Rightarrow> nat \<Rightarrow> nat \<Rightarrow> nat \<Rightarrow> entry" where
  "entry_after cd rid bs kind version at aid psize k now =
     \<lparr>en_room_id = rid, en_assembly_id = aid, en_kind = kind, en_total = div_ceil (length bs) psize,
      en_total_bytes = length bs, en_digest = cd_sha256_hex cd bs, en_version = version,
      en_published_at_ms = at, en_ends = map (\<lambda>j. length (concat (take (Suc j) (chunks psize bs)))) [0..<k],
      en_buf = concat (take k (chunks psize bs)), en_last_activity = now\<rparr>"

lemma split_parts:
  assumes "split_manifest_bytes cd bs kind version at aid psize = Inr parts"
  shows "parts = map (nth_part cd bs kind version at aid psize) [0..<length (chunks psize bs)]
    \<and> bs \<noteq> [] \<and> 0 < psize \<and> psize \<le> MAX_PART_BYTES \<and> length bs \<le> MAX_ASSEMBLED_BYTES
    \<and> length (chunks psize bs) = div_ceil (length bs) psize \<and> div_ceil (length bs) psize \<le> MAX_PARTS"
  using assms length_chunks [of psize bs]
  by (auto simp: split_manifest_bytes_def nth_part_def Let_def nth_enumerate_eq
      intro!: nth_equalityI split: if_splits)

lemma length_concat_bounds:
  assumes "\<forall>c \<in> set cs. c \<noteq> [] \<and> length c \<le> n"
  shows "length cs \<le> length (concat cs) \<and> length (concat cs) \<le> length cs * n"
  using assms
proof (induction cs)
  case (Cons c cs)
  then have "1 \<le> length c" "length c \<le> n" by (simp_all add: Suc_le_eq)
  with Cons show ?case by (auto intro: add_mono [of 1, simplified])
qed simp

lemma nth_part_header:
  assumes "sha256_hex_ok cd" and "split_manifest_bytes cd bs kind version at aid psize = Inr parts"
    and "kind = PartPublish \<longrightarrow> version = 0 \<and> at = 0" and "k < length (chunks psize bs)"
  shows "validate_header (nth_part cd bs kind version at aid psize k) = Inr ()"
proof -
  note s = split_parts [OF assms(2)]
  have "\<forall>c \<in> set (chunks psize bs). c \<noteq> [] \<and> length c \<le> psize" using chunks_sizes by blast
  from length_concat_bounds [OF this] have "div_ceil (length bs) psize \<le> length bs"
      "length bs \<le> div_ceil (length bs) psize * psize"
    using s concat_chunks [of psize bs] by simp_all
  moreover from this have "length bs \<le> div_ceil (length bs) psize * MAX_PART_BYTES"
    using s by (meson mult_le_mono2 order_trans)
  ultimately show ?thesis
    using assms s by (auto simp: validate_header_def nth_part_def sha256_hex_ok_def)
qed

lemma nth_part_data:
  assumes "base64_ok cd" and "split_manifest_bytes cd bs kind version at aid psize = Inr parts"
    and "k < length (chunks psize bs)"
  shows "from_base64 cd (mp_data (nth_part cd bs kind version at aid psize k)) = Some (chunks psize bs ! k)
    \<and> length (mp_data (nth_part cd bs kind version at aid psize k)) \<le> div_ceil MAX_PART_BYTES 3 * 4
    \<and> length (chunks psize bs ! k) \<le> MAX_PART_BYTES"
proof -
  have "chunks psize bs ! k \<noteq> []" "length (chunks psize bs ! k) \<le> psize"
    using chunks_sizes nth_mem [OF assms(3)] by blast+
  moreover have "psize \<le> MAX_PART_BYTES" using split_parts [OF assms(2)] by simp
  ultimately show ?thesis using assms(1) by (simp add: base64_ok_def nth_part_def)
qed

text \<open>The next piece extends the entry, and the last one yields the manifest.\<close>

lemma take_next_piece:
  assumes split: "split_manifest_bytes cd bs kind version at aid psize = Inr parts"
    and k: "k < length (chunks psize bs)" and m: "cd_from_slice cd bs = Some m"
  shows "take_piece cd (nth_part cd bs kind version at aid psize k) (chunks psize bs ! k) now
      (entry_after cd rid bs kind version at aid psize k before)
    = (if Suc k < length (chunks psize bs) then Inr None
       else Inr (Some \<lparr>am_room_id = rid, am_kind = kind, am_version = version,
                       am_published_at_ms = at, am_manifest = m\<rparr>),
       entry_after cd rid bs kind version at aid psize (Suc k) now)"
proof -
  let ?cs = "chunks psize bs"
  note s = split_parts [OF split]
  have whole: "concat ?cs = bs" using s concat_chunks by simp
  have next_buf: "concat (take k ?cs) @ ?cs ! k = concat (take (Suc k) ?cs)"
    using k by (simp add: take_Suc_conv_app_nth)
  have "length (concat (take (Suc k) ?cs)) \<le> length (concat ?cs)"
    by (metis append_take_drop_id concat_append le_add1 length_append)
  then have fits: "length (concat (take k ?cs)) + length (?cs ! k) \<le> length bs"
    using next_buf whole by (metis length_append)
  have last: "concat (take (Suc k) ?cs) = bs" if "\<not> Suc k < length ?cs"
    using that k whole by simp
  show ?thesis
    using fits last m s
    by (auto simp: take_piece_def same_header_def nth_part_def entry_after_def next_buf Let_def
        simp flip: length_append)
qed


text \<open>Times at which consecutive pieces arrive before the assembly expires.\<close>

fun steady :: "nat \<Rightarrow> nat \<Rightarrow> nat list \<Rightarrow> bool" where
  "steady ttl before [] = True"
| "steady ttl before (now # clocks) = (now - before < ttl \<and> steady ttl now clocks)"

lemma push_at_single:
  assumes "take_piece cd part piece now e = (result, e')"
  shows "push_at cd part piece now 0 (bb, [e]) =
    (case result of Inr None \<Rightarrow> (Inr None, bb, [e']) | _ \<Rightarrow> (result, release [e'] bb, []))"
  using assms by (auto simp: push_at_def swap_remove_def split: sum.split option.split)

lemma push_parts:
  assumes split: "split_manifest_bytes cd bs kind version at aid psize = Inr parts"
    and ok: "base64_ok cd" "sha256_hex_ok cd" "kind = PartPublish \<longrightarrow> version = 0 \<and> at = 0"
    and m: "cd_from_slice cd bs = Some m"
    and clocks: "length clocks = length (chunks psize bs) - k" "k < length (chunks psize bs)" "steady ttl before clocks"
    and start: "0 < k \<and> st = (bb, [entry_after cd rid bs kind version at aid psize k before])
      \<or> k = 0 \<and> 0 < limit \<and> st = (bb\<lparr>bb_used := bb_used bb - length bs\<rparr>, []) \<and> length bs \<le> bb_used bb
        \<and> bb_used bb \<le> bb_cap bb"
  shows "push_list cd limit ttl rid
      (zip (map (nth_part cd bs kind version at aid psize) [k..<length (chunks psize bs)]) clocks) st
    = (replicate (length (chunks psize bs) - Suc k) (Inr None)
         @ [Inr (Some \<lparr>am_room_id = rid, am_kind = kind, am_version = version, am_published_at_ms = at, am_manifest = m\<rparr>)],
       bb\<lparr>bb_used := bb_used bb - length bs\<rparr>, [])"
  using clocks start
proof (induction clocks arbitrary: k before st)
  case Nil
  then show ?case by simp
next
  case (Cons now clocks)
  let ?n = "length (chunks psize bs)" and ?part = "nth_part cd bs kind version at aid psize k"
  let ?e = "\<lambda>k now. entry_after cd rid bs kind version at aid psize k now"
  let ?done = "\<lparr>am_room_id = rid, am_kind = kind, am_version = version, am_published_at_ms = at, am_manifest = m\<rparr>"
  note k = Cons.prems(2)
  note take = push_at_single [OF take_next_piece [OF split k m, where rid = rid and now = now]]
  have bytes: "en_total_bytes (?e j t) = length bs" for j t by (simp add: entry_after_def)
  have rel: "release [?e j t] bb = bb\<lparr>bb_used := bb_used bb - length bs\<rparr>" for j t
    by (simp add: release_def bytes)
  have head: "push_entries cd limit ttl rid ?part now st
      = (if Suc k < ?n then (Inr None, bb, [?e (Suc k) now]) else (Inr (Some ?done), bb\<lparr>bb_used := bb_used bb - length bs\<rparr>, []))"
    using Cons.prems(4)
  proof (elim disjE conjE)
    assume "0 < k" and st: "st = (bb, [?e k before])"
    have "now - en_last_activity (?e k before) < ttl" using Cons.prems(3) by (simp add: entry_after_def)
    then have "expire ttl now st = st" by (simp add: st expire_def retain_def release_def)
    moreover have "position (\<lambda>e. en_room_id e = rid \<and> en_assembly_id e = mp_assembly_id ?part) (snd st) = Some 0"
      by (simp add: st entry_after_def nth_part_def)
    ultimately show ?thesis
      using nth_part_header [OF ok(2) split ok(3) k] nth_part_data [OF ok(1) split k] take [of bb before]
      by (simp add: push_entries_def st rel)
  next
    assume k0: "k = 0" and limit: "0 < limit" and st: "st = (bb\<lparr>bb_used := bb_used bb - length bs\<rparr>, [])"
      and room: "length bs \<le> bb_used bb" "bb_used bb \<le> bb_cap bb"
    have "expire ttl now st = st" by (simp add: st expire_def retain_def release_def)
    moreover have "begin_assembly limit rid ?part now st = (Inr 0, bb, [?e 0 now])"
      using limit room k0
      by (simp add: begin_assembly_def st retain_def release_def make_slot.simps reserve_def nth_part_def
          entry_after_def Let_def)
    ultimately show ?thesis
      using nth_part_header [OF ok(2) split ok(3) k] nth_part_data [OF ok(1) split k] take [of bb now] k0
      by (simp add: push_entries_def st rel nth_part_def)
  qed
  show ?case
  proof (cases "Suc k < ?n")
    case True
    have "push_list cd limit ttl rid (zip (map (nth_part cd bs kind version at aid psize) [Suc k..<?n]) clocks)
        (bb, [?e (Suc k) now])
      = (replicate (?n - Suc (Suc k)) (Inr None) @ [Inr (Some ?done)], bb\<lparr>bb_used := bb_used bb - length bs\<rparr>, [])"
      using Cons.prems True by (intro Cons.IH) auto
    moreover have "?n - Suc k = Suc (?n - Suc (Suc k))" using True by simp
    ultimately show ?thesis using True head by (simp add: upt_rec [of k])
  next
    case False
    with k have n: "?n = Suc k" by simp
    with Cons.prems(1) have "clocks = []" by simp
    with n have "?n = Suc k" "clocks = []" by simp_all
    then show ?thesis using head by simp
  qed
qed

section \<open>All connections on one budget\<close>

text \<open>
  The server's assemblers, one per connection, and what happens to them: a piece arrives on a
  connection, its assemblies are dropped (a denied publish, or the connection ends) or expire.
\<close>

datatype transport_op =
  PieceArrives nat uuid manifest_part_payload nat
| DropAll nat
| ExpireOn nat nat

definition transport_step ::
    "'m codec \<Rightarrow> byte_budget \<times> part_assembler list \<Rightarrow> transport_op \<Rightarrow> byte_budget \<times> part_assembler list" where
  "transport_step cd st a =
     (case a of
        PieceArrives i rid part now \<Rightarrow>
          if i < length (snd st)
          then (let (_, bb, asm) = push cd rid part now (fst st) (snd st ! i) in (bb, (snd st)[i := asm])) else st
      | DropAll i \<Rightarrow>
          if i < length (snd st) then (let (bb, asm) = clear (fst st) (snd st ! i) in (bb, (snd st)[i := asm])) else st
      | ExpireOn i now \<Rightarrow>
          if i < length (snd st)
          then (let (bb, es) = expire (asm_ttl (snd st ! i)) now (fst st, asm_entries (snd st ! i))
                in (bb, (snd st)[i := (snd st ! i)\<lparr>asm_entries := es\<rparr>])) else st)"

definition charged :: "part_assembler \<Rightarrow> nat" where
  "charged a = sum_list (map en_total_bytes (asm_entries a))"

definition transport_inv :: "byte_budget \<times> part_assembler list \<Rightarrow> bool" where
  "transport_inv st \<longleftrightarrow>
     bb_used (fst st) = sum_list (map charged (snd st)) \<and> bb_used (fst st) \<le> bb_cap (fst st)
     \<and> (\<forall>a \<in> set (snd st). 0 < asm_max_concurrent a \<and> length (asm_entries a) \<le> asm_max_concurrent a
          \<and> (\<forall>e \<in> set (asm_entries a). entry_ok e))"

lemma sum_list_update_nat:
  "i < length xs \<Longrightarrow> sum_list (map f (xs[i := y])) + f (xs ! i) = sum_list (map f xs) + (f y :: nat)"
  by (induction xs arbitrary: i) (auto split: nat.split)

text \<open>One connection's step, seen from the whole: the others' reservations are its \<open>others\<close>.\<close>

lemma transport_focus:
  assumes inv: "transport_inv (bb, asms)" and i: "i < length asms"
  shows "\<exists>others. entries_inv others (asm_max_concurrent (asms ! i)) (bb, asm_entries (asms ! i))
    \<and> 0 < asm_max_concurrent (asms ! i)
    \<and> (\<forall>bb' es. entries_inv others (asm_max_concurrent (asms ! i)) (bb', es)
           \<longrightarrow> transport_inv (bb', asms[i := (asms ! i)\<lparr>asm_entries := es\<rparr>]))"
proof (intro exI conjI allI impI)
  let ?a = "asms ! i" and ?others = "sum_list (map charged asms) - charged (asms ! i)"
  have le: "charged ?a \<le> sum_list (map charged asms)" using i by (intro member_le_sum_list) auto
  show "entries_inv ?others (asm_max_concurrent ?a) (bb, asm_entries ?a)"
    using inv i le by (auto simp: transport_inv_def entries_inv_def charged_def [of "asms ! i"])
  show "0 < asm_max_concurrent ?a" using inv i by (auto simp: transport_inv_def)
  fix bb' es
  assume that: "entries_inv ?others (asm_max_concurrent ?a) (bb', es)"
  have "charged (?a\<lparr>asm_entries := es\<rparr>) = sum_list (map en_total_bytes es)" by (simp add: charged_def)
  then show "transport_inv (bb', asms[i := ?a\<lparr>asm_entries := es\<rparr>])"
    using that inv i le sum_list_update_nat [OF i, of charged "?a\<lparr>asm_entries := es\<rparr>"]
    by (auto simp: transport_inv_def entries_inv_def dest!: subsetD [OF set_update_subset_insert])
qed

lemma clear_inv: "entries_inv others limit (bb, es) \<Longrightarrow> entries_inv others limit (release es bb, [])"
  by (auto simp: entries_inv_def)

interpretation transport: invariant_machine "transport_step cd" transport_inv for cd
proof
  fix st :: "byte_budget \<times> part_assembler list" and a
  assume inv: "transport_inv st"
  obtain bb asms where st: "st = (bb, asms)" by (cases st)
  note focus = transport_focus [OF inv [unfolded st]]
  show "transport_inv (transport_step cd st a)"
  proof (cases a)
    case (PieceArrives i rid part now)
    show ?thesis
    proof (cases "i < length asms")
      case True
      obtain others where o: "entries_inv others (asm_max_concurrent (asms ! i)) (bb, asm_entries (asms ! i))"
          "0 < asm_max_concurrent (asms ! i)"
        and up: "\<forall>bb' es. entries_inv others (asm_max_concurrent (asms ! i)) (bb', es)
           \<longrightarrow> transport_inv (bb', asms[i := (asms ! i)\<lparr>asm_entries := es\<rparr>])" using focus [OF True] by blast
      obtain res bb' es where p: "push_entries cd (asm_max_concurrent (asms ! i)) (asm_ttl (asms ! i)) rid part now
          (bb, asm_entries (asms ! i)) = (res, bb', es)" by (metis prod_cases3)
      have "entries_inv others (asm_max_concurrent (asms ! i)) (bb', es)"
        using push_entries_inv [OF o, of cd "asm_ttl (asms ! i)" rid part now] by (simp add: p)
      then show ?thesis using True up by (simp add: transport_step_def PieceArrives st push_def p)
    qed (use inv in \<open>simp add: transport_step_def PieceArrives st\<close>)
  next
    case (DropAll i)
    show ?thesis
    proof (cases "i < length asms")
      case True
      obtain others where o: "entries_inv others (asm_max_concurrent (asms ! i)) (bb, asm_entries (asms ! i))"
          "0 < asm_max_concurrent (asms ! i)"
        and up: "\<forall>bb' es. entries_inv others (asm_max_concurrent (asms ! i)) (bb', es)
           \<longrightarrow> transport_inv (bb', asms[i := (asms ! i)\<lparr>asm_entries := es\<rparr>])" using focus [OF True] by blast
      from up [rule_format, OF clear_inv [OF o(1)]] True show ?thesis by (simp add: transport_step_def DropAll st clear_def)
    qed (use inv in \<open>simp add: transport_step_def DropAll st\<close>)
  next
    case (ExpireOn i now)
    show ?thesis
    proof (cases "i < length asms")
      case True
      obtain others where o: "entries_inv others (asm_max_concurrent (asms ! i)) (bb, asm_entries (asms ! i))"
          "0 < asm_max_concurrent (asms ! i)"
        and up: "\<forall>bb' es. entries_inv others (asm_max_concurrent (asms ! i)) (bb', es)
           \<longrightarrow> transport_inv (bb', asms[i := (asms ! i)\<lparr>asm_entries := es\<rparr>])" using focus [OF True] by blast
      have "entries_inv others (asm_max_concurrent (asms ! i)) (expire (asm_ttl (asms ! i)) now (bb, asm_entries (asms ! i)))"
        unfolding expire_def by (rule retain_inv [OF o(1)])
      then show ?thesis using True up
        by (cases "expire (asm_ttl (asms ! i)) now (bb, asm_entries (asms ! i))") (simp add: transport_step_def ExpireOn st)
    qed (use inv in \<open>simp add: transport_step_def ExpireOn st\<close>)
  qed
qed

section \<open>Properties\<close>

text \<open>
  C16: splitting a manifest and pushing its pieces in order, each before the assembly expires,
  into an idle assembler with enough budget gives nothing until the last piece and then exactly
  the manifest whose bytes were split, with the header it was split under; the budget is given
  back in full.
\<close>

theorem split_then_push:
  assumes "split_manifest_bytes cd bs kind version at aid psize = Inr parts"
    and "base64_ok cd" and "sha256_hex_ok cd" and "kind = PartPublish \<longrightarrow> version = 0 \<and> at = 0"
    and "cd_from_slice cd bs = Some m" and "0 < limit" and "bb_used bb + length bs \<le> bb_cap bb"
    and "length clocks = length parts" and "steady ttl (hd clocks) clocks"
  shows "push_list cd limit ttl rid (zip parts clocks) (bb, [])
    = (replicate (length parts - 1) (Inr None)
         @ [Inr (Some \<lparr>am_room_id = rid, am_kind = kind, am_version = version, am_published_at_ms = at, am_manifest = m\<rparr>)],
       bb, [])"
proof -
  note s = split_parts [OF assms(1)]
  have "0 < div_ceil (length bs) psize" using s div_ceil_step [of psize "length bs"] by simp
  then have n: "0 < length (chunks psize bs)" "length parts = length (chunks psize bs)" using s by simp_all
  show ?thesis
    using push_parts [OF assms(1-5), of clocks 0 ttl "hd clocks" "(bb, [])" "bb\<lparr>bb_used := bb_used bb + length bs\<rparr>" rid limit]
      assms(6-9) n s by simp
qed

lemma byte_less: "unat (b :: u8) < 256"
  using unsigned_less [of b] by simp

text \<open>Three bytes in two pieces, three milliseconds apart.\<close>

theorem split_then_push_witness:
  "push_list example_codec 2 10 7
      (zip [nth_part example_codec [1, 2, 3] PartResponse 4 5 6 2 0, nth_part example_codec [1, 2, 3] PartResponse 4 5 6 2 1]
        [20, 23]) (\<lparr>bb_used = 90, bb_cap = 100\<rparr>, [])
    = ([Inr None, Inr (Some \<lparr>am_room_id = 7, am_kind = PartResponse, am_version = 4, am_published_at_ms = 5,
         am_manifest = 3\<rparr>)], \<lparr>bb_used = 90, bb_cap = 100\<rparr>, [])"
proof -
  have chunks: "chunks 2 [1, 2, 3 :: u8] = [[1, 2], [3]]" by (simp add: chunks.simps)
  have split: "split_manifest_bytes example_codec [1, 2, 3] PartResponse 4 5 6 2
      = Inr [nth_part example_codec [1, 2, 3] PartResponse 4 5 6 2 0, nth_part example_codec [1, 2, 3] PartResponse 4 5 6 2 1]"
    by (simp add: split_manifest_bytes_def chunks nth_part_def MAX_PART_BYTES_def MAX_ASSEMBLED_BYTES_def
        MAX_PARTS_def div_ceil_def)
  have id: "map ((of_nat \<circ> of_char) \<circ> (char_of \<circ> unat)) p = p" for p :: bytes
    by (intro map_idI) (simp add: byte_less)
  have base64: "base64_ok example_codec"
    using id by (auto simp: base64_ok_def example_codec_def from_base64_def div_ceil_def MAX_PART_BYTES_def)
  have sha: "sha256_hex_ok example_codec"
    by (simp add: sha256_hex_ok_def example_codec_def hex_digit_def list_all_iff)
  have slice: "cd_from_slice example_codec [1, 2, 3] = Some 3" by (simp add: example_codec_def)
  from split_then_push [OF split base64 sha _ slice, of 2 "\<lparr>bb_used = 90, bb_cap = 100\<rparr>" "[20, 23]" 10 7]
  show ?thesis by simp
qed

text \<open>
  C17: whatever pieces arrive on whatever connections, in whatever order and at whatever times,
  the bytes charged to the shared budget are exactly the declared sizes of the assemblies in
  flight and never exceed its cap; each connection has at most its limit of assemblies, and each
  buffer stays within the size it declared and was charged for.
\<close>

theorem transport_bounded:
  "transport_inv (foldl (transport_step cd) (\<lparr>bb_used = 0, bb_cap = cap\<rparr>, replicate n (assembler_new limit ttl)) ops)"
  by (rule transport.run_inv) (simp add: transport_inv_def assembler_new_def charged_def sum_list_replicate less_max_iff_disj)

end
