(* ===== verification/ManifestHandlers.thy ===== *)
theory ManifestHandlers
  imports Relay Assembly
begin

text \<open>
  MANIFEST_PUBLISH and MANIFEST_REQUEST, \<open>rooms/manifest.rs\<close>: the checks that bind a manifest to
  the room and to the authenticated host, the version it gets, and the order in which it is
  stored, cached and published under the room's lock. \<open>row_id\<close> is the fresh id of the row.
\<close>

section \<open>Keys and hashes\<close>

definition signer_public_key :: "'m edge \<Rightarrow> 'm \<Rightarrow> bytes result" where
  "signer_public_key ed manifest =
     (case ed_signer_key_base64 ed manifest of
        None \<Rightarrow> Inl InvalidState
      | Some key \<Rightarrow>
     (case from_base64 (ed_codec ed) key of
        None \<Rightarrow> Inl InvalidState
      | Some bs \<Rightarrow> if length bs = 32 then Inr bs else Inl InvalidState))"

definition hex_nibble :: "nat \<Rightarrow> u8 option" where
  "hex_nibble c =
     (if 48 \<le> c \<and> c \<le> 57 then Some (of_nat (c - 48))
      else if 97 \<le> c \<and> c \<le> 102 then Some (of_nat (c - 97 + 10))
      else if 65 \<le> c \<and> c \<le> 70 then Some (of_nat (c - 65 + 10))
      else None)"

fun hex_pairs :: "nat list \<Rightarrow> bytes option" where
  "hex_pairs (h # l # rest) =
     (case hex_nibble h of
        None \<Rightarrow> None
      | Some hi \<Rightarrow>
     (case hex_nibble l of
        None \<Rightarrow> None
      | Some lo \<Rightarrow> map_option (\<lambda>out. (push_bit 4 hi OR lo) # out) (hex_pairs rest)))"
| "hex_pairs _ = Some []"

definition hex_to_bytes32 :: "string \<Rightarrow> bytes option" where
  "hex_to_bytes32 s = (if length s \<noteq> 64 then None else hex_pairs (map of_char s))"

section \<open>Reassembly limits\<close>

text \<open>One assembly per connection, idle for at most thirty seconds, all on one budget.\<close>

definition MANIFEST_ASSEMBLY_BUDGET_BYTES :: nat where
  "MANIFEST_ASSEMBLY_BUDGET_BYTES = 8 * MAX_ASSEMBLED_BYTES"

definition MANIFEST_ASSEMBLY_TTL :: nat where "MANIFEST_ASSEMBLY_TTL = 30000"

definition assembly_budget :: byte_budget where
  "assembly_budget = \<lparr>bb_used = 0, bb_cap = MANIFEST_ASSEMBLY_BUDGET_BYTES\<rparr>"

definition new_part_assembler :: part_assembler where
  "new_part_assembler = assembler_new 1 MANIFEST_ASSEMBLY_TTL"

section \<open>Publishing\<close>

definition MANIFEST_VERSIONS_KEPT :: int where "MANIFEST_VERSIONS_KEPT = 5"

definition compute_version_and_hash ::
    "'m edge \<Rightarrow> 'm \<Rightarrow> uuid \<Rightarrow> database \<Rightarrow> (int \<times> bytes) result \<times> database" where
  "compute_version_and_hash ed manifest rid db =
     (case ed_canonical_bytes ed manifest of
        None \<Rightarrow> (Inl (Internal ''canonicalize''), db)
      | Some canonical \<Rightarrow>
     (case hex_to_bytes32 (ed_blake3_hex ed canonical) of
        None \<Rightarrow> (Inl (Internal ''blake3_hex produced wrong length''), db)
      | Some hash \<Rightarrow>
     (case db_get_latest_room_manifest rid db of
        (Inl e, db') \<Rightarrow> (Inl (Internal (''get_latest_room_manifest: '' @ e)), db')
      | (Inr (Some latest), db') \<Rightarrow> (Inr (i64_wrap (mr_version latest + 1), hash), db')
      | (Inr None, db') \<Rightarrow> (Inr (1, hash), db'))))"

definition is_current_host :: "uuid \<Rightarrow> bytes \<Rightarrow> room_state \<Rightarrow> bool" where
  "is_current_host user pubkey rs \<longleftrightarrow>
     list_ex (\<lambda>p. p_user_id p = user \<and> p_is_host p \<and> p_pubkey p = pubkey \<and> present p) (rs_participants rs)"

text \<open>Steps 3 to 6, under the room's lock.\<close>

definition publish_locked ::
    "'m edge \<Rightarrow> uuid \<Rightarrow> 'm \<Rightarrow> uuid \<Rightarrow> millis \<Rightarrow> uuid \<Rightarrow> 'm registry \<Rightarrow> database
       \<Rightarrow> 'm room_event result \<times> 'm registry \<times> database" where
  "publish_locked ed rid manifest row_id now_ms user reg db =
     (case compute_version_and_hash ed manifest rid db of
        (Inl e, db1) \<Rightarrow> (Inl e, reg, db1)
      | (Inr (version, hash), db1) \<Rightarrow>
     (case cd_to_string (ed_codec ed) manifest of
        None \<Rightarrow> (Inl (Internal ''serialize manifest for insert''), reg, db1)
      | Some json \<Rightarrow>
     (case db_insert_room_manifest
             \<lparr>mr_id = row_id, mr_room_id = rid, mr_version = version, mr_created_at = now_ms,
              mr_manifest_json = json, mr_manifest_hash = hash, mr_host_user_id = user\<rparr> db1 of
        (Inl e, db2) \<Rightarrow> (Inl (Internal (''insert_room_manifest: '' @ e)), reg, db2)
      | (Inr _, db2) \<Rightarrow>
          (let db3 = snd (db_prune_room_manifests rid MANIFEST_VERSIONS_KEPT db2);
               reg1 = put_current_manifest rid
                 \<lparr>cman_version = version, cman_manifest = manifest, cman_host_user_id = user,
                  cman_published_at_ms = now_ms, cman_manifest_hash = hash\<rparr> reg;
               event = EvManifestPublished rid manifest version now_ms
           in (Inr event, publish_events (ed_codec ed) [event] rid reg1, db3)))))"

definition handle_manifest_publish ::
    "'m edge \<Rightarrow> json envelope \<Rightarrow> uuid \<Rightarrow> millis \<Rightarrow> uuid \<Rightarrow> bytes \<Rightarrow> 'm registry \<Rightarrow> database
       \<Rightarrow> 'm room_event result \<times> 'm registry \<times> database" where
  "handle_manifest_publish ed env row_id now_ms user pubkey reg db =
     (case ed_manifest_publish ed (env_payload env) of
        None \<Rightarrow> (Inl InvalidState, reg, db)
      | Some manifest \<Rightarrow>
     (case env_room_id env of
        None \<Rightarrow> (Inl InvalidState, reg, db)
      | Some rid \<Rightarrow>
          if \<not> ed_verify_manifest ed manifest then (Inl InvalidState, reg, db)
          else if ed_manifest_room_id ed manifest \<noteq> ed_uuid_string ed rid then (Inl InvalidState, reg, db)
          else (case signer_public_key ed manifest of
            Inl e \<Rightarrow> (Inl e, reg, db)
          | Inr signer \<Rightarrow>
              if signer \<noteq> pubkey then (Inl InvalidState, reg, db)
              else (case get_by_id rid reg of
                None \<Rightarrow> (Inl NotJoined, reg, db)
              | Some rs \<Rightarrow>
                  if rs_state rs = Ended then (Inl RoomClosedErr, reg, db)
                  else if \<not> is_current_host user pubkey rs then (Inl NotHost, reg, db)
                  else publish_locked ed rid manifest row_id now_ms user reg db))))"

section \<open>Fetching\<close>

definition handle_manifest_fetch ::
    "'m edge \<Rightarrow> json envelope \<Rightarrow> uuid \<Rightarrow> 'm registry \<Rightarrow> ('m \<times> int \<times> millis) result" where
  "handle_manifest_fetch ed env user reg =
     (case ed_manifest_request ed (env_payload env) of
        None \<Rightarrow> Inl InvalidState
      | Some _ \<Rightarrow>
     (case env_room_id env of
        None \<Rightarrow> Inl InvalidState
      | Some rid \<Rightarrow>
          if \<not> is_user_in_room user rid reg then Inl NotJoined
          else (case current_manifest rid reg of
                  None \<Rightarrow> Inl InvalidState
                | Some cached \<Rightarrow>
                    Inr (cman_manifest cached, cman_version cached, cman_published_at_ms cached))))"

section \<open>Facts\<close>

lemma hex_pairs_length: "hex_pairs xs = Some out \<Longrightarrow> length out = length xs div 2"
  by (induction xs arbitrary: out rule: hex_pairs.induct) (auto split: option.splits)

lemma hex_to_bytes32_length: "hex_to_bytes32 s = Some out \<Longrightarrow> length out = 32"
  by (auto simp: hex_to_bytes32_def dest: hex_pairs_length split: if_splits)

text \<open>What a publish that went through has checked and done.\<close>

definition publish_checked ::
    "'m edge \<Rightarrow> json envelope \<Rightarrow> uuid \<Rightarrow> bytes \<Rightarrow> uuid \<Rightarrow> 'm \<Rightarrow> room_state \<Rightarrow> bool" where
  "publish_checked ed env user pubkey rid manifest rs \<longleftrightarrow>
     ed_manifest_publish ed (env_payload env) = Some manifest \<and> env_room_id env = Some rid
     \<and> ed_verify_manifest ed manifest \<and> ed_manifest_room_id ed manifest = ed_uuid_string ed rid
     \<and> signer_public_key ed manifest = Inr pubkey
     \<and> rs_state rs \<noteq> Ended \<and> is_current_host user pubkey rs"

lemma publish_cases:
  assumes "handle_manifest_publish ed env row_id now_ms user pubkey reg db = (res, reg', db')"
  obtains (refused) e where "res = Inl e" "reg' = reg"
    | (published) rid manifest rs version hash json db1 db2 where
      "publish_checked ed env user pubkey rid manifest rs" "get_by_id rid reg = Some rs"
      "compute_version_and_hash ed manifest rid db = (Inr (version, hash), db1)"
      "db_insert_room_manifest
         \<lparr>mr_id = row_id, mr_room_id = rid, mr_version = version, mr_created_at = now_ms,
          mr_manifest_json = json, mr_manifest_hash = hash, mr_host_user_id = user\<rparr> db1 = (Inr (), db2)"
      "db' = snd (db_prune_room_manifests rid MANIFEST_VERSIONS_KEPT db2)"
      "res = Inr (EvManifestPublished rid manifest version now_ms)"
      "reg' = publish_events (ed_codec ed) [EvManifestPublished rid manifest version now_ms] rid
         (put_current_manifest rid \<lparr>cman_version = version, cman_manifest = manifest,
            cman_host_user_id = user, cman_published_at_ms = now_ms, cman_manifest_hash = hash\<rparr> reg)"
proof (cases "\<exists>rid manifest rs. publish_checked ed env user pubkey rid manifest rs \<and> get_by_id rid reg = Some rs")
  case True
  then obtain rid manifest rs where c: "publish_checked ed env user pubkey rid manifest rs"
    "get_by_id rid reg = Some rs" by blast
  then have h: "publish_locked ed rid manifest row_id now_ms user reg db = (res, reg', db')"
    using assms by (simp add: handle_manifest_publish_def publish_checked_def)
  show thesis
  proof (cases "\<exists>e. res = Inl e")
    case True
    with h have "reg' = reg"
      by (auto simp: publish_locked_def Let_def split: prod.splits sum.splits option.splits)
    with True refused show thesis by blast
  next
    case False
    then show thesis
      using h published [OF c]
      by (auto simp: publish_locked_def Let_def split: prod.splits sum.splits option.splits)
  qed
next
  case False
  with assms refused show thesis
    by (auto simp: handle_manifest_publish_def publish_checked_def split: option.splits sum.splits if_splits)
qed

lemma manifest_publish_inv:
  assumes "registry_inv reg"
  shows "registry_inv (fst (snd (handle_manifest_publish ed env row_id now_ms user pubkey reg db)))"
proof -
  obtain res reg' db' where h: "handle_manifest_publish ed env row_id now_ms user pubkey reg db = (res, reg', db')"
    by (metis prod_cases3)
  then have "registry_inv reg'"
  proof (cases rule: publish_cases)
    case (published rid manifest rs version hash json db1 db2)
    then show ?thesis
      using assms by (simp add: published(7) publish_events_inv put_manifest_inv get_by_id_def)
  qed (use assms in simp)
  with h show ?thesis by simp
qed


text \<open>Versions: the next one is above every version stored for the room, and stays stored.\<close>

definition versions_in_range :: "uuid \<Rightarrow> database \<Rightarrow> bool" where
  "versions_in_range rid db \<longleftrightarrow> (\<forall>r \<in> set (manifests_of rid db). 0 < mr_version r \<and> mr_version r < i64_max)"

lemma attempt_cases:
  assumes "attempt f db = (res, db')"
  obtains (fault) e where "res = Inl e" "db_rooms db' = db_rooms db" "db_participants db' = db_participants db"
      "db_manifests db' = db_manifests db"
    | (ran) fs where "f (db\<lparr>db_faults := fs\<rparr>) = (res, db')"
proof (cases "db_faults db")
  case Nil
  then have "db\<lparr>db_faults := []\<rparr> = db" by (cases db) simp
  moreover have "f db = (res, db')" using Nil assms by (simp add: attempt_def)
  ultimately show thesis using ran [of "[]"] by simp
next
  case (Cons e fs)
  with assms fault ran show thesis by (cases e) (auto simp: attempt_def)
qed

lemma manifests_faults [simp]: "manifests_of rid (db\<lparr>db_faults := fs\<rparr>) = manifests_of rid db"
  by (simp add: manifests_of_def)

lemma next_version:
  assumes c: "compute_version_and_hash ed manifest rid db = (Inr (version, hash), db1)"
    and range: "versions_in_range rid db"
  shows "(\<forall>r \<in> set (manifests_of rid db). mr_version r < version) \<and> 0 < version \<and> length hash = 32
    \<and> db_manifests db1 = db_manifests db"
proof -
  from c obtain latest where l: "db_get_latest_room_manifest rid db = (Inr latest, db1)"
    and v: "version = (case latest of None \<Rightarrow> 1 | Some r \<Rightarrow> i64_wrap (mr_version r + 1))"
    and len: "length hash = 32"
    by (auto simp: compute_version_and_hash_def dest: hex_to_bytes32_length
        split: option.splits sum.splits prod.splits)
  from l have "\<exists>fs. (case min_by_key (\<lambda>r. - mr_version r) (manifests_of rid db) of
      None \<Rightarrow> (Inr None, db\<lparr>db_faults := fs\<rparr>)
    | Some r \<Rightarrow> if length (mr_manifest_hash r) \<noteq> 32 then (Inl ''manifest_hash'', db\<lparr>db_faults := fs\<rparr>)
                else (Inr (Some r), db\<lparr>db_faults := fs\<rparr>)) = (Inr latest, db1)"
    unfolding db_get_latest_room_manifest_def by (cases rule: attempt_cases) (auto simp: manifests_faults)
  then obtain fs where m: "latest = min_by_key (\<lambda>r. - mr_version r) (manifests_of rid db)"
      "db1 = db\<lparr>db_faults := fs\<rparr>"
    by (cases "min_by_key (\<lambda>r. - mr_version r) (manifests_of rid db)") (auto split: if_splits)
  show ?thesis
  proof (cases latest)
    case None
    with m have "manifests_of rid db = []" by (metis min_by_key_None)
    with None m v len show ?thesis by simp
  next
    case (Some r)
    with m have r: "r \<in> set (manifests_of rid db)" "\<forall>x \<in> set (manifests_of rid db). mr_version x \<le> mr_version r"
      by (auto dest!: min_by_key_SomeD [OF sym])
    with range have "i64_wrap (mr_version r + 1) = mr_version r + 1"
      by (intro i64_wrap_id) (auto simp: versions_in_range_def in_i64_def i64_min_def i64_max_def)
    with r v Some m len range show ?thesis by (auto simp: versions_in_range_def)
  qed
qed

lemma prune_rows:
  assumes "db_prune_room_manifests rid keep db = (res, db')"
  shows "db_manifests db' = db_manifests db \<or> db_manifests db' = filter (\<lambda>r. \<not> (mr_room_id r = rid
    \<and> mr_version r \<le> Max (mr_version ` set (manifests_of rid db)) - keep)) (db_manifests db)"
  using assms unfolding db_prune_room_manifests_def
proof (cases rule: attempt_cases)
  case (ran fs)
  then show ?thesis
    by (cases "manifests_of rid db") (auto simp: manifests_faults Let_def simp del: filter_eq_Cons_iff)
qed simp

lemma newest_row_kept:
  assumes ins: "db_insert_room_manifest row db1 = (Inr (), db2)" and rid: "mr_room_id row = rid"
    and newest: "\<forall>r \<in> set (manifests_of rid db1). mr_version r < mr_version row"
  shows "row \<in> set (manifests_of rid (snd (db_prune_room_manifests rid MANIFEST_VERSIONS_KEPT db2)))"
proof -
  from ins have db2: "db_manifests db2 = db_manifests db1 @ [row]"
    unfolding db_insert_room_manifest_def by (cases rule: attempt_cases) (auto split: if_splits)
  then have rows: "manifests_of rid db2 = manifests_of rid db1 @ [row]" using rid by (simp add: manifests_of_def)
  have max: "Max (mr_version ` set (manifests_of rid db2)) = mr_version row"
    using newest by (intro Max_eqI) (auto simp: rows less_imp_le)
  have "row \<in> set (manifests_of rid (snd (db_prune_room_manifests rid MANIFEST_VERSIONS_KEPT db2)))"
    using prune_rows [OF prod.collapse [symmetric], of rid MANIFEST_VERSIONS_KEPT db2] rid
    unfolding max by (auto simp: manifests_of_def db2 MANIFEST_VERSIONS_KEPT_def)
  then show ?thesis .
qed

section \<open>Properties\<close>


text \<open>A host whose session key signed the manifest publishes into an empty database.\<close>

definition host_key :: bytes where "host_key = replicate 32 97"

definition publish_registry :: "nat registry" where
  "publish_registry = insert_room_state (room_state_new 1 (ascii ''ABCDEF'') [] 7 host_key True 0 HOST 0) (registry_new example_config)"

definition publish_run :: "nat room_event result \<times> nat registry \<times> database" where
  "publish_run = handle_manifest_publish
     (example_edge\<lparr>ed_signer_key_base64 := (\<lambda>_. Some (replicate 32 CHR ''a''))\<rparr>)
     (example_envelope MkManifestPublish (Some 1)) 40 9 7 host_key publish_registry
     example_db"

lemma publish_run_result: "fst publish_run = Inr (EvManifestPublished 1 5 1 9)"
  by (simp add: publish_run_def handle_manifest_publish_def example_edge_def example_envelope_def signer_public_key_def
      from_base64_def example_codec_def host_key_def publish_registry_def get_by_id_def insert_room_state_def
      registry_new_def room_state_new_def is_current_host_def publish_locked_def compute_version_and_hash_def
      hex_to_bytes32_def hex_nibble_def numeral_eq_Suc db_get_latest_room_manifest_def attempt_def manifests_of_def
      db_insert_room_manifest_def Let_def example_db_def is_present_def)


text \<open>
  A MANIFEST_REQUEST is answered exactly to a user present in the room it names that has a
  manifest, with that room's current one; the answer is never another room's.
\<close>

theorem manifest_fetch_spec:
  "handle_manifest_fetch ed env user reg = Inr (manifest, version, at) \<longleftrightarrow>
     ed_manifest_request ed (env_payload env) \<noteq> None
     \<and> (\<exists>rid rs c. env_room_id env = Some rid \<and> get_by_id rid reg = Some rs \<and> is_present user rs
          \<and> current_manifest rid reg = Some c
          \<and> (manifest, version, at) = (cman_manifest c, cman_version c, cman_published_at_ms c))"
  by (auto simp: handle_manifest_fetch_def is_user_in_room_def split: option.splits)

end
