(* ===== verification/Signal.thy ===== *)
theory Signal
  imports ManifestHandlers
begin

text \<open>
  SIGNAL, \<open>rooms/signal.rs\<close>: the relay that maps each user to the connection that owns the
  user's slot, and the checks before an offer, answer or candidate is forwarded to one peer.
  Also the end of a connection in \<open>ws/mod.rs\<close>, which reports the user as gone only if no newer
  connection took the slot.
\<close>

section \<open>Payload\<close>

datatype signal_kind = Offer | Answer | Ice

record signal_candidate =
  sgc_candidate :: rstring
  sgc_sdp_mid :: "rstring option"
  sgc_sdp_m_line_index :: "nat option"

record signal_payload =
  sg_to_user_id :: uuid
  sg_kind :: signal_kind
  sg_sdp :: "rstring option"
  sg_candidates :: "signal_candidate list option"

text \<open>What the handler takes from crates: JSON, MessagePack, and strict Ed25519 verification.\<close>

record signal_edge =
  sge_decode :: "json \<Rightarrow> signal_payload option"
  sge_serialized_len :: "json envelope \<Rightarrow> nat"
  sge_msgpack :: "signal_payload \<Rightarrow> bytes option"
  sge_valid_key :: "bytes \<Rightarrow> bool"
  sge_verify_strict :: "bytes \<Rightarrow> bytes \<Rightarrow> bytes \<Rightarrow> bool"

section \<open>The relay\<close>

text \<open>
  The sending half of a connection's bounded channel: what is queued, its capacity, and whether
  the receiver is still there.
\<close>

record outbound =
  ob_queue :: "json envelope list"
  ob_capacity :: nat
  ob_open :: bool

record signal_relay =
  rl_inner :: "(uuid, nat \<times> outbound) hashmap"
  rl_next_token :: nat

definition relay_new :: signal_relay where
  "relay_new = \<lparr>rl_inner = [], rl_next_token = 0\<rparr>"

definition relay_register :: "uuid \<Rightarrow> outbound \<Rightarrow> signal_relay \<Rightarrow> nat \<times> signal_relay" where
  "relay_register user tx rl =
     (let token = rl_next_token rl
      in (token, \<lparr>rl_inner = hm_insert user (token, tx) (rl_inner rl),
                  rl_next_token = wrapping_add_u64 token 1\<rparr>))"

definition relay_unregister :: "uuid \<Rightarrow> nat \<Rightarrow> signal_relay \<Rightarrow> bool \<times> signal_relay" where
  "relay_unregister user token rl =
     (case hm_get (rl_inner rl) user of
        None \<Rightarrow> (False, rl)
      | Some (current, _) \<Rightarrow>
          if current = token then (True, rl\<lparr>rl_inner := hm_remove user (rl_inner rl)\<rparr>) else (False, rl))"

datatype send_error = NoRecipient | Congested

definition try_send :: "json envelope \<Rightarrow> outbound \<Rightarrow> send_error + outbound" where
  "try_send env tx =
     (if \<not> ob_open tx then Inl NoRecipient
      else if ob_capacity tx \<le> length (ob_queue tx) then Inl Congested
      else Inr (tx\<lparr>ob_queue := ob_queue tx @ [env]\<rparr>))"

definition relay_send :: "uuid \<Rightarrow> json envelope \<Rightarrow> signal_relay \<Rightarrow> (send_error + unit) \<times> signal_relay" where
  "relay_send target env rl =
     (case hm_get (rl_inner rl) target of
        None \<Rightarrow> (Inl NoRecipient, rl)
      | Some (token, tx) \<Rightarrow>
          (case try_send env tx of
             Inl e \<Rightarrow> (Inl e, rl)
           | Inr tx' \<Rightarrow> (Inr (), rl\<lparr>rl_inner := hm_insert target (token, tx') (rl_inner rl)\<rparr>)))"

definition is_registered :: "uuid \<Rightarrow> signal_relay \<Rightarrow> bool" where
  "is_registered user rl \<longleftrightarrow> hm_contains (rl_inner rl) user"

section \<open>The handler\<close>

definition SIGNAL_MAX_BYTES :: nat where "SIGNAL_MAX_BYTES = 64 * 1024"

datatype signal_error =
  MissingSender | IdentityMismatch | SgBadSignature | SgBadPayload | Oversized nat
| SenderNotInRoom | RecipientNotInRoom | SelfSignal

fun signal_error_code :: "signal_error \<Rightarrow> room_error_code" where
  "signal_error_code SenderNotInRoom = CNotJoined"
| "signal_error_code RecipientNotInRoom = CNotJoined"
| "signal_error_code _ = CInvalidState"

definition verify_signal :: "signal_edge \<Rightarrow> signal_payload \<Rightarrow> sender \<Rightarrow> bool" where
  "verify_signal sg payload sender \<longleftrightarrow>
     (case signal_signed_bytes (sge_msgpack sg payload) of
        None \<Rightarrow> False
      | Some msg \<Rightarrow> length (snd_pubkey sender) = 32 \<and> length (snd_sig sender) = 64
          \<and> sge_valid_key sg (snd_pubkey sender)
          \<and> sge_verify_strict sg (snd_pubkey sender) msg (snd_sig sender))"

definition handle_signal ::
    "signal_edge \<Rightarrow> json envelope \<Rightarrow> uuid \<Rightarrow> bytes \<Rightarrow> 'm registry \<Rightarrow> signal_relay
       \<Rightarrow> (signal_error + unit) \<times> signal_relay" where
  "handle_signal sg env user pubkey reg rl =
     (if sge_serialized_len sg env > SIGNAL_MAX_BYTES
      then (Inl (Oversized (sge_serialized_len sg env)), rl)
      else (case sge_decode sg (env_payload env) of
        None \<Rightarrow> (Inl SgBadPayload, rl)
      | Some payload \<Rightarrow>
     (case env_sender env of
        None \<Rightarrow> (Inl MissingSender, rl)
      | Some sender \<Rightarrow>
          if snd_user_id sender \<noteq> user then (Inl IdentityMismatch, rl)
          else if snd_pubkey sender \<noteq> pubkey then (Inl IdentityMismatch, rl)
          else if sg_to_user_id payload = user then (Inl SelfSignal, rl)
          else (case env_room_id env of
            None \<Rightarrow> (Inl SenderNotInRoom, rl)
          | Some rid \<Rightarrow>
              if \<not> is_user_in_room user rid reg then (Inl SenderNotInRoom, rl)
              else if \<not> is_user_in_room (sg_to_user_id payload) rid reg then (Inl RecipientNotInRoom, rl)
              else if \<not> verify_signal sg payload sender then (Inl SgBadSignature, rl)
              else (case relay_send (sg_to_user_id payload)
                           (env\<lparr>env_payload := strip_bearer (env_payload env)\<rparr>) rl of
                      (Inr _, rl') \<Rightarrow> (Inr (), rl')
                    | (Inl _, rl') \<Rightarrow> (Inl RecipientNotInRoom, rl'))))))"

definition handle_signal_dispatch ::
    "signal_edge \<Rightarrow> json envelope \<Rightarrow> millis \<Rightarrow> uuid \<Rightarrow> bytes \<Rightarrow> 'm registry \<Rightarrow> signal_relay
       \<Rightarrow> 'm outcome \<times> signal_relay" where
  "handle_signal_dispatch sg env now_ms user pubkey reg rl =
     (case handle_signal sg env user pubkey reg rl of
        (Inl e, rl') \<Rightarrow> (refuse (signal_error_code e) now_ms, rl')
      | (Inr _, rl') \<Rightarrow> (outcome_default, rl'))"

section \<open>The end of a connection\<close>

text \<open>
  The tail of the connection loop: a connection that authenticated as \<open>user\<close> and never took a
  slot (\<open>None\<close>) counts as current.
\<close>

definition connection_closed ::
    "uuid \<Rightarrow> nat option \<Rightarrow> millis \<Rightarrow> signal_relay \<Rightarrow> 'm registry \<Rightarrow> database
       \<Rightarrow> signal_relay \<times> 'm registry \<times> database" where
  "connection_closed user relay_token now_ms rl reg db =
     (let (still_current, rl') = (case relay_token of
                                    Some token \<Rightarrow> relay_unregister user token rl
                                  | None \<Rightarrow> (True, rl))
      in if still_current
         then (let (_, reg', db') = on_connection_lost user now_ms reg db in (rl', reg', db'))
         else (rl', reg, db))"


section \<open>The relay as a machine\<close>

datatype relay_op = RelayRegister uuid outbound | RelayUnregister uuid nat | RelaySend uuid "json envelope"

fun relay_step :: "signal_relay \<Rightarrow> relay_op \<Rightarrow> signal_relay" where
  "relay_step rl (RelayRegister user tx) = snd (relay_register user tx rl)"
| "relay_step rl (RelayUnregister user token) = snd (relay_unregister user token rl)"
| "relay_step rl (RelaySend user env) = snd (relay_send user env rl)"

text \<open>
  What holds from a user's registration on, as long as the tokens do not wrap: the user's slot,
  if there is one, has a token no older than that registration's.
\<close>

definition slot_from :: "uuid \<Rightarrow> nat \<Rightarrow> signal_relay \<Rightarrow> bool" where
  "slot_from user token rl \<longleftrightarrow> (\<forall>t tx. hm_get (rl_inner rl) user = Some (t, tx) \<longrightarrow> token \<le> t)"

lemma relay_step_token:
  assumes "rl_next_token rl < u64_max"
  shows "rl_next_token rl \<le> rl_next_token (relay_step rl a) \<and> rl_next_token (relay_step rl a) \<le> Suc (rl_next_token rl)"
  using assms
  by (cases a)
    (auto simp: relay_register_def relay_unregister_def relay_send_def try_send_def Let_def
      wrapping_add_u64_small split: option.splits prod.splits sum.splits)

lemma relay_step_slot:
  "slot_from user token rl \<Longrightarrow> token \<le> rl_next_token rl \<Longrightarrow> slot_from user token (relay_step rl a)"
  by (cases a)
    (auto simp: slot_from_def relay_register_def relay_unregister_def relay_send_def try_send_def Let_def
      split: option.splits prod.splits sum.splits if_splits)

lemma relay_run_slot:
  assumes "slot_from user token rl" and "token \<le> rl_next_token rl"
    and "rl_next_token rl + length ops \<le> u64_max"
  shows "slot_from user token (foldl relay_step rl ops)"
  using assms
proof (induction ops arbitrary: rl)
  case (Cons a ops)
  then show ?case
    using relay_step_token [of rl a] relay_step_slot [of user token rl a] by auto
qed simp

lemma relay_run_token:
  "rl_next_token rl + length ops \<le> u64_max \<Longrightarrow>
     rl_next_token rl \<le> rl_next_token (foldl relay_step rl ops)
     \<and> rl_next_token (foldl relay_step rl ops) \<le> rl_next_token rl + length ops"
proof (induction ops arbitrary: rl)
  case (Cons a ops)
  have t: "rl_next_token rl \<le> rl_next_token (relay_step rl a)
      \<and> rl_next_token (relay_step rl a) \<le> Suc (rl_next_token rl)"
    using Cons.prems by (intro relay_step_token) simp
  then have "rl_next_token (relay_step rl a) + length ops \<le> u64_max" using Cons.prems by simp
  from Cons.IH [OF this] t show ?case by simp
qed simp

text \<open>No queue of the relay outgrows its channel's capacity.\<close>

definition relay_inv :: "signal_relay \<Rightarrow> bool" where
  "relay_inv rl \<longleftrightarrow> hm_wf (rl_inner rl)
     \<and> (\<forall>u t tx. hm_get (rl_inner rl) u = Some (t, tx) \<longrightarrow> length (ob_queue tx) \<le> ob_capacity tx)"

text \<open>A connection registers with the channel it just made: nothing queued beyond its capacity.\<close>

definition relay_op_step :: "signal_relay \<Rightarrow> relay_op \<Rightarrow> signal_relay" where
  "relay_op_step rl a =
     (case a of
        RelayRegister user tx \<Rightarrow> if length (ob_queue tx) \<le> ob_capacity tx then relay_step rl a else rl
      | _ \<Rightarrow> relay_step rl a)"

interpretation relay: invariant_machine relay_op_step relay_inv
proof
  fix rl a
  assume "relay_inv rl"
  then show "relay_inv (relay_op_step rl a)"
    by (cases a)
      (auto simp: relay_inv_def relay_op_step_def relay_register_def relay_unregister_def relay_send_def
        try_send_def Let_def split: option.splits prod.splits sum.splits if_splits)
qed

section \<open>Properties\<close>

text \<open>
  A SIGNAL is forwarded only between two different users both present in the room it
  names, from the authenticated sender under a verified signature, within 64 KiB; then exactly
  the recipient's channel, open and not full, gains it, without the sender's bearer. Every
  refusal leaves the relay untouched.
\<close>

theorem handle_signal_spec:
  assumes "handle_signal sg env user pubkey reg rl = (res, rl')"
  shows "case res of
      Inl e \<Rightarrow> rl' = rl
    | Inr _ \<Rightarrow> \<exists>payload sender rid token tx. sge_decode sg (env_payload env) = Some payload
        \<and> env_sender env = Some sender \<and> snd_user_id sender = user \<and> snd_pubkey sender = pubkey
        \<and> sge_serialized_len sg env \<le> 65536 \<and> verify_signal sg payload sender
        \<and> env_room_id env = Some rid \<and> sg_to_user_id payload \<noteq> user
        \<and> is_user_in_room user rid reg \<and> is_user_in_room (sg_to_user_id payload) rid reg
        \<and> hm_get (rl_inner rl) (sg_to_user_id payload) = Some (token, tx)
        \<and> ob_open tx \<and> length (ob_queue tx) < ob_capacity tx
        \<and> rl' = rl\<lparr>rl_inner := hm_insert (sg_to_user_id payload)
             (token, tx\<lparr>ob_queue := ob_queue tx @ [env\<lparr>env_payload := strip_bearer (env_payload env)\<rparr>]\<rparr>)
             (rl_inner rl)\<rparr>"
proof (cases res)
  case (Inl e)
  with assms show ?thesis
    by (auto simp: handle_signal_def relay_send_def split: option.splits prod.splits sum.splits if_splits)
next
  case (Inr u)
  with assms obtain payload sender rid where c: "sge_decode sg (env_payload env) = Some payload"
    "env_sender env = Some sender" "snd_user_id sender = user" "snd_pubkey sender = pubkey"
    "sge_serialized_len sg env \<le> 65536" "verify_signal sg payload sender"
    "env_room_id env = Some rid" "sg_to_user_id payload \<noteq> user"
    "is_user_in_room user rid reg" "is_user_in_room (sg_to_user_id payload) rid reg"
    "relay_send (sg_to_user_id payload) (env\<lparr>env_payload := strip_bearer (env_payload env)\<rparr>) rl = (Inr (), rl')"
    by (auto simp: handle_signal_def SIGNAL_MAX_BYTES_def split: option.splits prod.splits sum.splits if_splits)
  from c(11) obtain token tx where "hm_get (rl_inner rl) (sg_to_user_id payload) = Some (token, tx)"
    "ob_open tx" "length (ob_queue tx) < ob_capacity tx"
    "rl' = rl\<lparr>rl_inner := hm_insert (sg_to_user_id payload)
             (token, tx\<lparr>ob_queue := ob_queue tx @ [env\<lparr>env_payload := strip_bearer (env_payload env)\<rparr>]\<rparr>)
             (rl_inner rl)\<rparr>"
    by (auto simp: relay_send_def try_send_def split: option.splits prod.splits sum.splits if_splits)
  with c(1-10) Inr show ?thesis by (simp only: sum.case) blast
qed

definition example_signal_edge :: signal_edge where
  "example_signal_edge = \<lparr>sge_decode = (\<lambda>_. Some \<lparr>sg_to_user_id = 9, sg_kind = Offer, sg_sdp = None, sg_candidates = None\<rparr>),
     sge_serialized_len = (\<lambda>_. 100), sge_msgpack = (\<lambda>_. Some []), sge_valid_key = (\<lambda>_. True),
     sge_verify_strict = (\<lambda>_ _ _. True)\<rparr>"

theorem handle_signal_spec_witness:
  "snd (handle_signal example_signal_edge begin_envelope 7 [] (example_registry :: nat registry) relay_new) = relay_new"
proof -
  let ?h = "handle_signal example_signal_edge begin_envelope 7 [] (example_registry :: nat registry) relay_new"
  have "?h = (fst ?h, snd ?h)" by simp
  from handle_signal_spec [OF this] show ?thesis
    by (cases "fst ?h") (auto simp: relay_new_def)
qed

text \<open>
  When a user has reconnected, the old connection's end changes nothing: whatever the relay
  did between the two registrations and after the second, closing the older connection neither
  frees the newer one's slot nor reports the user as gone to the rooms.
\<close>

theorem stale_connection_spares_user:
  assumes first: "relay_register user tx1 rl0 = (old, rl1)"
    and second: "relay_register user tx2 (foldl relay_step rl1 ops) = (new, rl2)"
    and few: "rl_next_token rl0 + length ops + length later + 2 \<le> u64_max"
  shows "connection_closed user (Some old) now_ms (foldl relay_step rl2 later) reg db
    = (foldl relay_step rl2 later, reg, db)"
proof -
  have old: "old = rl_next_token rl0" and rl1: "rl_next_token rl1 = Suc (rl_next_token rl0)"
    using first few by (auto simp: relay_register_def wrapping_add_u64_small Let_def)
  let ?mid = "foldl relay_step rl1 ops"
  have mid: "Suc old \<le> rl_next_token ?mid \<and> rl_next_token ?mid \<le> Suc old + length ops"
    using relay_run_token [of rl1 ops] rl1 old few by simp
  have new: "new = rl_next_token ?mid" and rl2: "rl_next_token rl2 = Suc new"
    and slot: "slot_from user (Suc old) rl2"
    using second mid few old
    by (auto simp: relay_register_def wrapping_add_u64_small slot_from_def Let_def)
  have "slot_from user (Suc old) (foldl relay_step rl2 later)"
    using slot rl2 new mid few old by (intro relay_run_slot) auto
  then have "relay_unregister user old (foldl relay_step rl2 later) = (False, foldl relay_step rl2 later)"
    by (auto simp: relay_unregister_def slot_from_def split: option.split)
  then show ?thesis by (simp add: connection_closed_def)
qed


theorem stale_connection_spares_user_witness:
  "connection_closed 7 (Some 0) 5 (snd (relay_register 7 \<lparr>ob_queue = [], ob_capacity = 8, ob_open = True\<rparr>
      (snd (relay_register 7 \<lparr>ob_queue = [], ob_capacity = 8, ob_open = False\<rparr> relay_new))))
      (example_registry :: nat registry) example_db
    = (snd (relay_register 7 \<lparr>ob_queue = [], ob_capacity = 8, ob_open = True\<rparr>
      (snd (relay_register 7 \<lparr>ob_queue = [], ob_capacity = 8, ob_open = False\<rparr> relay_new))), example_registry, example_db)"
proof -
  let ?tx1 = "\<lparr>ob_queue = [], ob_capacity = 8, ob_open = False\<rparr>" and ?tx2 = "\<lparr>ob_queue = [], ob_capacity = 8, ob_open = True\<rparr>"
  have first: "relay_register 7 ?tx1 relay_new = (0, snd (relay_register 7 ?tx1 relay_new))"
    by (simp add: relay_register_def relay_new_def Let_def)
  have second: "relay_register 7 ?tx2 (foldl relay_step (snd (relay_register 7 ?tx1 relay_new)) [])
      = (1, snd (relay_register 7 ?tx2 (snd (relay_register 7 ?tx1 relay_new))))"
    by (simp add: relay_register_def relay_new_def Let_def wrapping_add_u64_def)
  have few: "rl_next_token relay_new + length ([] :: relay_op list) + length ([] :: relay_op list) + 2 \<le> u64_max"
    by (simp add: relay_new_def u64_max_def)
  from stale_connection_spares_user [OF first second few] show ?thesis by simp
qed

text \<open>
  Whatever connections register, end and are sent, no queue of the relay ever holds more
  than its channel's capacity: a peer that does not read cannot make the server buffer without
  bound.
\<close>

theorem relay_queues_bounded: "relay_inv (foldl relay_op_step relay_new ops)"
  by (rule relay.run_inv) (simp add: relay_inv_def relay_new_def)

end
