(* ===== verification/Dispatch.thy ===== *)
theory Dispatch
  imports ManifestHandlers Signal
begin

text \<open>
  The dispatcher, \<open>rooms/dispatch.rs\<close>: the capability gate and the routing of every room message
  to its handler, the replies to the caller and the events left for the connection layer to
  publish; and the connection layer's part after the bearer check (\<open>dispatch_authed\<close> of
  \<open>ws/mod.rs\<close>): reassembly of manifest pieces, routing, publication on the named room's channel.
\<close>

section \<open>What a dispatch reads and changes\<close>

text \<open>
  The state behind the dispatch context, and what one dispatch reads from outside: the injected
  clock when it starts (\<open>in_now_ms\<close>) and when a handler reads it again, the system clock, the
  monotonic clock, the room codes drawn, and the fresh ids of a room, of a manifest row and of
  an envelope.
\<close>

record 'm server =
  sv_registry :: "'m registry"
  sv_db :: database
  sv_relay :: signal_relay

record inputs =
  in_now_ms :: millis
  in_handler_ms :: millis
  in_system_ms :: millis
  in_stroke_clock :: nat
  in_instant :: nat
  in_draws :: "rstring list"
  in_room_id :: uuid
  in_row_id :: uuid
  in_envelope_id :: uuid

text \<open>\<open>serde_json\<close> for manifest pieces: decoding a piece, and encoding MANIFEST_PUBLISH.\<close>

record 'm part_edge =
  pe_decode_part :: "json \<Rightarrow> manifest_part_payload option"
  pe_encode_publish :: "'m \<Rightarrow> json"

section \<open>The gate\<close>

fun command_of :: "message_kind \<Rightarrow> command option" where
  "command_of MkRoomCreate = Some CmdRoomCreate"
| "command_of MkRoomJoinRequest = Some CmdRoomJoinRequest"
| "command_of MkRoomLeave = Some CmdRoomLeave"
| "command_of MkPresence = Some CmdPresence"
| "command_of MkManifestPublish = Some CmdPublishManifest"
| "command_of MkManifestRequest = Some CmdFetchManifest"
| "command_of MkSignal = Some CmdSignal"
| "command_of MkPlaybackCmd = Some CmdPlaybackControl"
| "command_of MkPositionReport = Some CmdPositionReport"
| "command_of MkStrokeBegin = Some CmdDraw"
| "command_of MkStrokePoint = Some CmdDraw"
| "command_of MkStrokeEnd = Some CmdDraw"
| "command_of MkStrokeUndo = Some CmdDrawUndo"
| "command_of MkStrokeClear = Some CmdDrawClear"
| "command_of MkPermissionSet = Some CmdPermissionSet"
| "command_of MkChatMessage = Some CmdChatMessage"
| "command_of MkLaserMove = Some CmdLaser"
| "command_of MkLaserOff = Some CmdLaser"
| "command_of _ = None"

text \<open>The denials that are answered; the others are only logged.\<close>

definition denial_answered :: "command \<Rightarrow> bool" where
  "denial_answered cmd \<longleftrightarrow> cmd \<in> {CmdPublishManifest, CmdFetchManifest, CmdSignal, CmdPlaybackControl,
     CmdPositionReport, CmdDraw, CmdPermissionSet, CmdChatMessage}"

fun caps_error_code :: "caps_error \<Rightarrow> room_error_code" where
  "caps_error_code CapsNotHost = CNotHost"
| "caps_error_code NotMember = CNotJoined"

definition denied :: "command \<Rightarrow> caps_error \<Rightarrow> millis \<Rightarrow> 'm outcome" where
  "denied cmd e now_ms = (if denial_answered cmd then refuse (caps_error_code e) now_ms else outcome_default)"

section \<open>Handlers\<close>

definition from_room_error :: "room_error \<Rightarrow> millis \<Rightarrow> 'm outcome" where
  "from_room_error e system_ms = refuse (to_error_code e) system_ms"

definition reply_with :: "'m reply \<Rightarrow> 'm outcome" where
  "reply_with r = outcome_default\<lparr>oc_to_caller := [r]\<rparr>"

definition handle_room_create ::
    "'m edge \<Rightarrow> inputs \<Rightarrow> json envelope \<Rightarrow> uuid \<Rightarrow> bytes \<Rightarrow> 'm registry \<Rightarrow> database
       \<Rightarrow> 'm outcome \<times> 'm registry \<times> database" where
  "handle_room_create ed inp env user pubkey reg db =
     (case ed_room_create ed (strip_bearer (env_payload env)) of
        None \<Rightarrow> (from_room_error InvalidState (in_system_ms inp), reg, db)
      | Some payload \<Rightarrow>
     (case validate_room_title (rcp_title payload) of
        Inl _ \<Rightarrow> (refuse CInvalidState (in_now_ms inp), reg, db)
      | Inr _ \<Rightarrow>
     (case create (in_draws inp) (in_room_id inp) (in_stroke_clock inp) (rcp_title payload) user pubkey
             (rcp_migration_enabled payload) (in_now_ms inp) reg db of
        (Inr (summary, you), reg', db') \<Rightarrow>
          (reply_with (envelope_with_payload MkRoomCreated (Some (rsum_id summary))
             (WRoomCreated \<lparr>rcd_room = summary, rcd_you = you\<rparr>) (in_now_ms inp)), reg', db')
      | (Inl e, reg', db') \<Rightarrow> (refuse (to_error_code e) (in_now_ms inp), reg', db'))))"

definition handle_room_join_request ::
    "'m edge \<Rightarrow> inputs \<Rightarrow> json envelope \<Rightarrow> uuid \<Rightarrow> bytes \<Rightarrow> 'm registry \<Rightarrow> database
       \<Rightarrow> 'm outcome \<times> 'm registry \<times> database" where
  "handle_room_join_request ed inp env user pubkey reg db =
     (case ed_room_join ed (strip_bearer (env_payload env)) of
        None \<Rightarrow> (from_room_error InvalidState (in_system_ms inp), reg, db)
      | Some payload \<Rightarrow>
     (case normalize (rjr_code payload) of
        None \<Rightarrow> (refuse CInvalidCode (in_now_ms inp), reg, db)
      | Some code \<Rightarrow>
     (case validate_display_name (rjr_display_name payload) of
        Inl _ \<Rightarrow> (refuse CInvalidState (in_now_ms inp), reg, db)
      | Inr _ \<Rightarrow>
     (case join code user pubkey (rjr_display_name payload) (in_now_ms inp) reg db of
        (Inr (joined, _), reg', db') \<Rightarrow>
          (reply_with (envelope_with_payload MkRoomJoined (Some (rsum_id (rjd_room joined)))
             (WRoomJoined joined) (in_now_ms inp)), reg', db')
      | (Inl e, reg', db') \<Rightarrow> (refuse (to_error_code e) (in_now_ms inp), reg', db')))))"

definition handle_room_leave ::
    "inputs \<Rightarrow> uuid \<Rightarrow> uuid option \<Rightarrow> 'm registry \<Rightarrow> database \<Rightarrow> 'm outcome \<times> 'm registry \<times> database" where
  "handle_room_leave inp user room reg db =
     (case leave_room user room True (in_now_ms inp) reg db of
        (Inr _, reg', db') \<Rightarrow> (outcome_default, reg', db')
      | (Inl e, reg', db') \<Rightarrow> (refuse (to_error_code e) (in_now_ms inp), reg', db'))"

definition handle_presence :: "inputs \<Rightarrow> uuid \<Rightarrow> 'm registry \<Rightarrow> 'm outcome \<times> 'm registry" where
  "handle_presence inp user reg = (outcome_default, touch user (in_now_ms inp) reg)"

fun manifest_publish_code :: "room_error \<Rightarrow> room_error_code" where
  "manifest_publish_code NotHost = CNotHost"
| "manifest_publish_code NotJoined = CNotJoined"
| "manifest_publish_code InvalidState = CInvalidState"
| "manifest_publish_code RoomClosedErr = CRoomClosed"
| "manifest_publish_code _ = CInternal"

definition handle_manifest_publish_dispatch ::
    "'m edge \<Rightarrow> inputs \<Rightarrow> json envelope \<Rightarrow> uuid \<Rightarrow> bytes \<Rightarrow> 'm registry \<Rightarrow> database
       \<Rightarrow> 'm outcome \<times> 'm registry \<times> database" where
  "handle_manifest_publish_dispatch ed inp env user pubkey reg db =
     (case handle_manifest_publish ed env (in_row_id inp) (in_handler_ms inp) user pubkey reg db of
        (Inr _, reg', db') \<Rightarrow> (outcome_default, reg', db')
      | (Inl e, reg', db') \<Rightarrow> (refuse (manifest_publish_code e) (in_handler_ms inp), reg', db'))"

definition expected_seq :: "playback_error \<Rightarrow> nat option" where
  "expected_seq e =
     (case e of
        PbStaleCommand _ expected \<Rightarrow> Some expected
      | PbInvalidTransition expected \<Rightarrow> Some expected
      | PbDuplicateCommand _ prev \<Rightarrow> Some (saturating_add_u64 prev 1)
      | _ \<Rightarrow> None)"

definition handle_playback_cmd_dispatch ::
    "'m edge \<Rightarrow> inputs \<Rightarrow> json envelope \<Rightarrow> uuid \<Rightarrow> bytes \<Rightarrow> 'm registry \<Rightarrow> 'm outcome \<times> 'm registry" where
  "handle_playback_cmd_dispatch ed inp env user pubkey reg =
     (case handle_playback_cmd ed env (in_handler_ms inp) user pubkey reg of
        (Inr _, reg') \<Rightarrow> (outcome_default, reg')
      | (Inl e, reg') \<Rightarrow>
          (reply_with (envelope_with_payload MkRoomError None
             (WRoomError \<lparr>rep_code = to_error_code (playback_room_error e), rep_expected_seq = expected_seq e\<rparr>)
             (in_handler_ms inp)), reg'))"

definition handle_position_report_dispatch ::
    "'m edge \<Rightarrow> inputs \<Rightarrow> json envelope \<Rightarrow> uuid \<Rightarrow> 'm registry \<Rightarrow> 'm outcome" where
  "handle_position_report_dispatch ed inp env user reg =
     (case handle_position_report ed env reg user of
        Inr event \<Rightarrow> outcome_default\<lparr>oc_events := [event]\<rparr>
      | Inl e \<Rightarrow> refuse (to_error_code (presence_room_error e)) (in_system_ms inp))"

fun permission_code :: "room_error \<Rightarrow> room_error_code" where
  "permission_code NotHost = CNotHost"
| "permission_code _ = CInternal"

definition permission_set_arm ::
    "'m edge \<Rightarrow> inputs \<Rightarrow> json envelope \<Rightarrow> uuid \<Rightarrow> 'm registry \<Rightarrow> database
       \<Rightarrow> 'm outcome \<times> 'm registry \<times> database" where
  "permission_set_arm ed inp env user reg db =
     (case handle_permission_set ed env user reg db of
        (Inr _, reg', db') \<Rightarrow> (outcome_default, reg', db')
      | (Inl e, reg', db') \<Rightarrow> (refuse (permission_code e) (in_now_ms inp), reg', db'))"

fun chat_code :: "room_error \<Rightarrow> room_error_code" where
  "chat_code NotHost = CNotHost"
| "chat_code NotJoined = CNotJoined"
| "chat_code _ = CInternal"

definition chat_message_arm :: "'m edge \<Rightarrow> inputs \<Rightarrow> json envelope \<Rightarrow> uuid \<Rightarrow> 'm registry \<Rightarrow> 'm outcome" where
  "chat_message_arm ed inp env user reg =
     (case handle_chat_message ed env user (in_now_ms inp) reg of
        Inr events \<Rightarrow> \<lparr>oc_to_caller = [], oc_events = events, oc_close_caller = False\<rparr>
      | Inl e \<Rightarrow> refuse (chat_code e) (in_now_ms inp))"

fun manifest_fetch_code :: "room_error \<Rightarrow> room_error_code" where
  "manifest_fetch_code NotHost = CNotHost"
| "manifest_fetch_code NotJoined = CNotJoined"
| "manifest_fetch_code InvalidState = CInvalidState"
| "manifest_fetch_code _ = CInternal"

definition handle_manifest_fetch_dispatch ::
    "'m edge \<Rightarrow> inputs \<Rightarrow> json envelope \<Rightarrow> uuid \<Rightarrow> 'm registry \<Rightarrow> 'm outcome" where
  "handle_manifest_fetch_dispatch ed inp env user reg =
     (case handle_manifest_fetch ed env user reg of
        Inl e \<Rightarrow> refuse (manifest_fetch_code e) (in_now_ms inp)
      | Inr (manifest, version, published_at) \<Rightarrow>
          outcome_default\<lparr>oc_to_caller :=
            (case split_for_wire (ed_codec ed) PartResponse manifest version published_at of
               Some parts \<Rightarrow> map (\<lambda>part. envelope_with_payload MkManifestPart (env_room_id env)
                                    (WManifestPart part) (in_now_ms inp)) parts
             | None \<Rightarrow> [envelope_with_payload MkManifestResponse (env_room_id env)
                          (WManifestResponse manifest version published_at) (in_now_ms inp)])\<rparr>)"

section \<open>Routing\<close>

definition on_registry :: "'m server \<Rightarrow> 'm outcome \<times> 'm registry \<Rightarrow> 'm outcome \<times> 'm server" where
  "on_registry sv res = (fst res, sv\<lparr>sv_registry := snd res\<rparr>)"

definition on_rooms :: "'m server \<Rightarrow> 'm outcome \<times> 'm registry \<times> database \<Rightarrow> 'm outcome \<times> 'm server" where
  "on_rooms sv res = (fst res, sv\<lparr>sv_registry := fst (snd res), sv_db := snd (snd res)\<rparr>)"

definition route ::
    "'m edge \<Rightarrow> signal_edge \<Rightarrow> inputs \<Rightarrow> json envelope \<Rightarrow> uuid \<Rightarrow> bytes \<Rightarrow> 'm server \<Rightarrow> 'm outcome \<times> 'm server" where
  "route ed sg inp env user pubkey sv =
     (let reg = sv_registry sv; db = sv_db sv in
      case env_type env of
        MkRoomCreate \<Rightarrow> on_rooms sv (handle_room_create ed inp env user pubkey reg db)
      | MkRoomJoinRequest \<Rightarrow> on_rooms sv (handle_room_join_request ed inp env user pubkey reg db)
      | MkRoomLeave \<Rightarrow> on_rooms sv (handle_room_leave inp user (env_room_id env) reg db)
      | MkPresence \<Rightarrow> on_registry sv (handle_presence inp user reg)
      | MkManifestPublish \<Rightarrow> on_rooms sv (handle_manifest_publish_dispatch ed inp env user pubkey reg db)
      | MkManifestRequest \<Rightarrow> (handle_manifest_fetch_dispatch ed inp env user reg, sv)
      | MkSignal \<Rightarrow>
          (let (out, rl) = handle_signal_dispatch sg env (in_handler_ms inp) user pubkey reg (sv_relay sv)
           in (out, sv\<lparr>sv_relay := rl\<rparr>))
      | MkPlaybackCmd \<Rightarrow> on_registry sv (handle_playback_cmd_dispatch ed inp env user pubkey reg)
      | MkPositionReport \<Rightarrow> (handle_position_report_dispatch ed inp env user reg, sv)
      | MkLaserMove \<Rightarrow> (outcome_default\<lparr>oc_events := (case laser_event ed env user of None \<Rightarrow> [] | Some e \<Rightarrow> [e])\<rparr>, sv)
      | MkLaserOff \<Rightarrow> (outcome_default\<lparr>oc_events := (case laser_event ed env user of None \<Rightarrow> [] | Some e \<Rightarrow> [e])\<rparr>, sv)
      | MkPermissionSet \<Rightarrow> on_rooms sv (permission_set_arm ed inp env user reg db)
      | MkChatMessage \<Rightarrow> (chat_message_arm ed inp env user reg, sv)
      | _ \<Rightarrow> on_registry sv (dispatch_drawing ed env user pubkey (in_handler_ms inp) (in_system_ms inp) reg))"

definition dispatch_room_message ::
    "'m edge \<Rightarrow> signal_edge \<Rightarrow> inputs \<Rightarrow> json envelope \<Rightarrow> uuid \<Rightarrow> bytes \<Rightarrow> 'm server \<Rightarrow> 'm outcome \<times> 'm server" where
  "dispatch_room_message ed sg inp env user pubkey sv =
     (case command_of (env_type env) of
        None \<Rightarrow> route ed sg inp env user pubkey sv
      | Some cmd \<Rightarrow>
          (case check_capability (sv_registry sv) user (env_room_id env) cmd of
             Inl e \<Rightarrow> (denied cmd e (in_now_ms inp), sv)
           | Inr _ \<Rightarrow> route ed sg inp env user pubkey sv))"

section \<open>Manifest pieces\<close>

datatype 'm part_step = Pending | Reply "'m reply" | Publish "json envelope"

definition handle_manifest_part ::
    "'m part_edge \<Rightarrow> 'm codec \<Rightarrow> inputs \<Rightarrow> json envelope \<Rightarrow> uuid \<Rightarrow> 'm registry \<Rightarrow> byte_budget \<Rightarrow> part_assembler
       \<Rightarrow> 'm part_step \<times> byte_budget \<times> part_assembler" where
  "handle_manifest_part pe cd inp env user reg bb parts =
     (let refused = (\<lambda>code. Reply (err_envelope code (in_now_ms inp))) in
      case env_room_id env of
        None \<Rightarrow> (refused CInvalidState, bb, parts)
      | Some rid \<Rightarrow>
     (case check_capability reg user (Some rid) CmdPublishManifest of
        Inl e \<Rightarrow> (let (bb', parts') = clear bb parts in (refused (caps_error_code e), bb', parts'))
      | Inr _ \<Rightarrow>
     (case pe_decode_part pe (env_payload env) of
        None \<Rightarrow> (refused CInvalidState, bb, parts)
      | Some part \<Rightarrow>
          if mp_kind part \<noteq> PartPublish then (refused CInvalidState, bb, parts)
          else (case push cd rid part (in_instant inp) bb parts of
                  (Inr None, bb', parts') \<Rightarrow> (Pending, bb', parts')
                | (Inr (Some done), bb', parts') \<Rightarrow>
                    (Publish \<lparr>env_v = 1, env_type = MkManifestPublish, env_id = in_envelope_id inp,
                       env_room_id = Some rid, env_sender = None, env_ts_ms = in_now_ms inp, env_seq = 0,
                       env_payload = pe_encode_publish pe (am_manifest done)\<rparr>, bb', parts')
                | (Inl _, bb', parts') \<Rightarrow> (refused CInvalidState, bb', parts')))))"

section \<open>The connection layer\<close>

definition routes_to_room_dispatch :: "message_kind \<Rightarrow> bool" where
  "routes_to_room_dispatch k \<longleftrightarrow> is_room_lifecycle k \<or> is_manifest_lifecycle k \<or> is_signal_lifecycle k
     \<or> is_playback_lifecycle k \<or> is_position_report k \<or> is_laser k
     \<or> k \<in> {MkChatMessage, MkStrokeBegin, MkStrokePoint, MkStrokeEnd, MkStrokeUndo, MkStrokeClear, MkPermissionSet}"

text \<open>
  \<open>dispatch_authed\<close> from the routing on: the replies, whether the connection is closed, and the
  server after the outcome's events are published.
\<close>

definition room_message ::
    "'m edge \<Rightarrow> signal_edge \<Rightarrow> inputs \<Rightarrow> json envelope \<Rightarrow> uuid \<Rightarrow> bytes \<Rightarrow> 'm server
       \<Rightarrow> 'm reply list \<times> bool \<times> 'm server" where
  "room_message ed sg inp env user pubkey sv =
     (if \<not> routes_to_room_dispatch (env_type env) then ([], False, sv)
      else let (out, sv') = dispatch_room_message ed sg inp env user pubkey sv
      in case env_room_id env of
           None \<Rightarrow> (oc_to_caller out, oc_close_caller out, sv')
         | Some rid \<Rightarrow> (oc_to_caller out, oc_close_caller out,
             sv'\<lparr>sv_registry := publish_events (ed_codec ed) (oc_events out) rid (sv_registry sv')\<rparr>))"

definition authed_room_message ::
    "'m part_edge \<Rightarrow> 'm edge \<Rightarrow> signal_edge \<Rightarrow> inputs \<Rightarrow> json envelope \<Rightarrow> uuid \<Rightarrow> bytes
       \<Rightarrow> byte_budget \<times> part_assembler \<Rightarrow> 'm server
       \<Rightarrow> ('m reply list \<times> bool \<times> 'm server) \<times> byte_budget \<times> part_assembler" where
  "authed_room_message pe ed sg inp env user pubkey parts sv =
     (if env_type env = MkManifestPart
      then (case handle_manifest_part pe (ed_codec ed) inp env user (sv_registry sv) (fst parts) (snd parts) of
              (Pending, parts') \<Rightarrow> (([], False, sv), parts')
            | (Reply r, parts') \<Rightarrow> (([r], False, sv), parts')
            | (Publish env', parts') \<Rightarrow> (room_message ed sg inp env' user pubkey sv, parts'))
      else (room_message ed sg inp env user pubkey sv, parts))"

section \<open>Facts\<close>

lemma on_simps [simp]:
  "fst (on_registry sv res) = fst res" "sv_registry (snd (on_registry sv res)) = snd res"
  "fst (on_rooms sv r) = fst r" "sv_registry (snd (on_rooms sv r)) = fst (snd r)"
  by (simp_all add: on_registry_def on_rooms_def)

text \<open>Each handler keeps the registry's invariant.\<close>

lemma handle_room_create_inv:
  assumes "registry_inv reg" and "get_by_id (in_room_id inp) reg = None"
  shows "registry_inv (fst (snd (handle_room_create ed inp env user pubkey reg db)))"
  using create_inv [OF assms [unfolded get_by_id_def], of "in_draws inp" "in_stroke_clock inp" _ user pubkey _ "in_now_ms inp" db]
    assms(1)
  by (auto simp: handle_room_create_def split: option.split sum.split prod.split) (metis fst_conv snd_conv)+

lemma handle_room_join_inv:
  assumes "registry_inv reg"
  shows "registry_inv (fst (snd (handle_room_join_request ed inp env user pubkey reg db)))"
  using join_inv [OF assms, of _ user pubkey _ "in_now_ms inp" db] assms
  by (auto simp: handle_room_join_request_def split: option.split sum.split prod.split) (metis fst_conv snd_conv)+

lemma handle_room_leave_inv:
  assumes "registry_inv reg"
  shows "registry_inv (fst (snd (handle_room_leave inp user room reg db)))"
  using leave_room_inv [OF assms, of user room True "in_now_ms inp" db]
  by (auto simp: handle_room_leave_def split: sum.split prod.split)

lemma handle_manifest_publish_dispatch_inv:
  assumes "registry_inv reg"
  shows "registry_inv (fst (snd (handle_manifest_publish_dispatch ed inp env user pubkey reg db)))"
  using manifest_publish_inv [OF assms, of ed env "in_row_id inp" "in_handler_ms inp" user pubkey db]
  by (auto simp: handle_manifest_publish_dispatch_def split: sum.split prod.split)

lemma handle_playback_cmd_dispatch_inv:
  assumes "registry_inv reg"
  shows "registry_inv (snd (handle_playback_cmd_dispatch ed inp env user pubkey reg))"
  using handle_playback_inv [OF assms, of ed env "in_handler_ms inp" user pubkey]
  by (auto simp: handle_playback_cmd_dispatch_def split: sum.split prod.split)

lemma permission_set_arm_inv:
  assumes "registry_inv reg"
  shows "registry_inv (fst (snd (permission_set_arm ed inp env user reg db)))"
  using permission_inv [OF assms, of ed env user db]
  by (auto simp: permission_set_arm_def split: sum.split prod.split)

lemma route_inv:
  assumes inv: "registry_inv (sv_registry sv)" and fresh: "get_by_id (in_room_id inp) (sv_registry sv) = None"
  shows "registry_inv (sv_registry (snd (route ed sg inp env user pubkey sv)))"
  using handle_room_create_inv [OF inv fresh] handle_room_join_inv [OF inv] handle_room_leave_inv [OF inv]
    handle_manifest_publish_dispatch_inv [OF inv] handle_playback_cmd_dispatch_inv [OF inv]
    permission_set_arm_inv [OF inv] dispatch_drawing_inv [OF inv] touch_inv [OF inv] inv
  by (cases "env_type env") (simp_all add: route_def Let_def handle_presence_def split: prod.split)

lemma dispatch_inv:
  assumes "registry_inv (sv_registry sv)" and "get_by_id (in_room_id inp) (sv_registry sv) = None"
  shows "registry_inv (sv_registry (snd (dispatch_room_message ed sg inp env user pubkey sv)))"
  using route_inv [OF assms] assms(1)
  by (simp add: dispatch_room_message_def split: option.split sum.split)

lemma room_message_inv:
  assumes "registry_inv (sv_registry sv)" and "get_by_id (in_room_id inp) (sv_registry sv) = None"
  shows "registry_inv (sv_registry (snd (snd (room_message ed sg inp env user pubkey sv))))"
  using dispatch_inv [OF assms, of ed sg env user pubkey] assms(1)
  by (auto simp: room_message_def publish_events_inv split: prod.split option.split)

text \<open>A room command passes the gate only for a member of the room it names.\<close>

definition needs_no_room :: "message_kind \<Rightarrow> bool" where
  "needs_no_room k \<longleftrightarrow> k \<in> {MkRoomCreate, MkRoomJoinRequest, MkRoomLeave, MkPresence}"

lemma command_of_special:
  assumes "\<not> needs_no_room k" and "command_of k = Some cmd"
  shows "cmd \<notin> {CmdRoomCreate, CmdRoomJoinRequest, CmdRoomLeave, CmdPresence}"
  using assms by (cases k) (auto simp: needs_no_room_def)

lemma gate_member:
  assumes "\<not> needs_no_room k" and "command_of k = Some cmd" and "check_capability reg user room cmd = Inr u"
  obtains rid where "room = Some rid" and "is_user_in_room user rid reg"
  using command_of_special [OF assms(1,2)] assms(3)
  by (auto simp: check_capability_def split: option.splits if_splits)

text \<open>A kind without a command has no arm: the dispatch does nothing.\<close>

lemma route_no_command:
  assumes "command_of (env_type env) = None"
  shows "route ed sg inp env user pubkey sv = (outcome_default, sv)"
  using assms by (cases "env_type env") (simp_all add: route_def dispatch_drawing_def on_registry_def)

section \<open>Events left for the connection layer\<close>

text \<open>An event that speaks for \<open>user\<close> in room \<open>rid\<close> and changes nothing there.\<close>

fun speaks_for :: "uuid \<Rightarrow> uuid \<Rightarrow> 'm room_event \<Rightarrow> bool" where
  "speaks_for user rid (EvChatMessage m) = (cm_sender_id m = user \<and> cm_room_id m = rid)"
| "speaks_for user rid (EvPositionReport r u p) = (r = rid \<and> u = user \<and> pos_user_id p = user)"
| "speaks_for user rid (EvLaserMove r u _) = (r = rid \<and> u = user)"
| "speaks_for user rid (EvLaserOff r u) = (r = rid \<and> u = user)"
| "speaks_for user rid _ = False"

lemma speaks_for_room: "speaks_for user rid e \<Longrightarrow> event_room x e = rid"
  by (cases e) auto

lemma silent_arms [simp]:
  "oc_events (fst (handle_room_create ed inp env user pubkey reg db)) = []"
  "oc_events (fst (handle_room_join_request ed inp env user pubkey reg db)) = []"
  "oc_events (fst (handle_room_leave inp user room reg db)) = []"
  "oc_events (fst (handle_presence inp user reg)) = []"
  "oc_events (fst (handle_manifest_publish_dispatch ed inp env user pubkey reg db)) = []"
  "oc_events (fst (handle_playback_cmd_dispatch ed inp env user pubkey reg)) = []"
  "oc_events (fst (permission_set_arm ed inp env user reg db)) = []"
  "oc_events (handle_manifest_fetch_dispatch ed inp env user reg) = []"
  "oc_events (fst (handle_signal_dispatch sg env now_ms user pubkey reg rl)) = []"
  "oc_events (denied cmd e now_ms) = []"
  by (auto simp: handle_room_create_def handle_room_join_request_def handle_room_leave_def handle_presence_def
      handle_manifest_publish_dispatch_def handle_playback_cmd_dispatch_def permission_set_arm_def
      handle_manifest_fetch_dispatch_def handle_signal_dispatch_def from_room_error_def reply_with_def denied_def
      split: option.split sum.split prod.split)

lemma dispatch_drawing_silent [simp]:
  "oc_events (fst (dispatch_drawing ed env user pubkey now clk reg)) = []"
  by (auto simp: dispatch_drawing_def handle_stroke_begin_dispatch_def handle_stroke_point_dispatch_def
      handle_stroke_end_dispatch_def handle_stroke_undo_dispatch_def handle_stroke_clear_dispatch_def
      in_drawing_room_def default_reject_def capability_reject_def publish_drawing_events_locked_def Let_def
      split: message_kind.split option.split prod.split)

lemma handlers_speak_for:
  "handle_chat_message ed env user now_ms reg = Inr events \<Longrightarrow> e \<in> set events \<Longrightarrow> env_room_id env = Some rid
     \<Longrightarrow> speaks_for user rid e"
  "laser_event ed env user = Some e \<Longrightarrow> env_room_id env = Some rid \<Longrightarrow> speaks_for user rid e"
  "handle_position_report ed env reg user = Inr e \<Longrightarrow> env_room_id env = Some rid \<Longrightarrow> speaks_for user rid e"
  by (auto simp: handle_chat_message_def handle_chat_message_payload_def laser_event_def handle_position_report_def
      split: option.splits if_splits message_kind.splits)

lemma signal_dispatch_silent:
  "handle_signal_dispatch sg env now_ms user pubkey reg rl = (out, rl') \<Longrightarrow> oc_events out = []"
  by (metis silent_arms(9) fst_conv)

lemma route_events:
  assumes "e \<in> set (oc_events (fst (route ed sg inp env user pubkey sv)))" and "env_room_id env = Some rid"
  shows "speaks_for user rid e \<and> snd (route ed sg inp env user pubkey sv) = sv \<and> command_of (env_type env) \<noteq> None
    \<and> \<not> needs_no_room (env_type env)"
  using assms handlers_speak_for [where ed = ed and env = env and user = user]
  by (cases "env_type env")
    (auto simp: route_def Let_def chat_message_arm_def handle_position_report_dispatch_def needs_no_room_def
      dest: signal_dispatch_silent split: prod.splits sum.splits option.splits)

lemma dispatch_events:
  assumes e: "e \<in> set (oc_events (fst (dispatch_room_message ed sg inp env user pubkey sv)))"
    and rid: "env_room_id env = Some rid"
  shows "speaks_for user rid e \<and> is_user_in_room user rid (sv_registry sv)
    \<and> snd (dispatch_room_message ed sg inp env user pubkey sv) = sv"
proof (cases "command_of (env_type env)")
  case None
  with e show ?thesis by (simp add: dispatch_room_message_def route_no_command)
next
  case (Some cmd)
  show ?thesis
  proof (cases "check_capability (sv_registry sv) user (env_room_id env) cmd")
    case (Inl err)
    with Some e show ?thesis by (simp add: dispatch_room_message_def)
  next
    case (Inr u)
    have run: "dispatch_room_message ed sg inp env user pubkey sv = route ed sg inp env user pubkey sv"
      using Some Inr by (simp add: dispatch_room_message_def)
    note r = route_events [OF e [unfolded run] rid]
    from gate_member [OF _ Some Inr] r rid have "is_user_in_room user rid (sv_registry sv)" by fastforce
    with r show ?thesis by (simp add: run)
  qed
qed

section \<open>Other rooms\<close>

definition same_elsewhere :: "uuid \<Rightarrow> 'm registry \<Rightarrow> 'm registry \<Rightarrow> bool" where
  "same_elsewhere rid reg reg' \<longleftrightarrow> (\<forall>x. x \<noteq> rid \<longrightarrow> get_by_id x reg' = get_by_id x reg
     \<and> channel x reg' = channel x reg \<and> current_manifest x reg' = current_manifest x reg)"

lemma same_elsewhere_refl [simp]: "same_elsewhere rid reg reg"
  by (simp add: same_elsewhere_def)

lemma same_elsewhere_trans:
  "same_elsewhere rid a b \<Longrightarrow> same_elsewhere rid b c \<Longrightarrow> same_elsewhere rid a c"
  by (simp add: same_elsewhere_def)

lemma same_elsewhere_publish [simp]: "same_elsewhere rid reg (publish rid item reg)"
  by (simp add: same_elsewhere_def get_by_id_def current_manifest_def channel_publish)

lemma same_elsewhere_fold_publish: "same_elsewhere rid reg (fold (\<lambda>x. publish rid (g x)) xs reg)"
  by (induction xs arbitrary: reg) (auto intro: same_elsewhere_trans [OF same_elsewhere_publish])

lemma same_elsewhere_publish_event:
  "event_room fallback e = rid \<Longrightarrow> same_elsewhere rid reg (publish_event cd e fallback seq reg)"
  by (auto simp: publish_event_def Let_def same_elsewhere_fold_publish split: room_event.split option.split)

lemma same_elsewhere_publish_events:
  "(\<And>e. e \<in> set es \<Longrightarrow> event_room fallback e = rid) \<Longrightarrow> same_elsewhere rid reg (publish_events cd es fallback reg)"
  unfolding publish_events_def
  by (induction es arbitrary: reg) (auto intro: same_elsewhere_trans [OF same_elsewhere_publish_event])

lemma same_elsewhere_put_room: "same_elsewhere rid reg (put_room rid rs reg)"
  by (simp add: same_elsewhere_def get_by_id_def current_manifest_def)

lemma same_elsewhere_put_manifest: "same_elsewhere rid reg (put_current_manifest rid v reg)"
  by (simp add: same_elsewhere_def get_by_id_def current_manifest_def put_current_manifest_def channel_def)

lemma playback_elsewhere:
  assumes "env_room_id env = Some rid"
  shows "same_elsewhere rid reg (snd (handle_playback_cmd_dispatch ed inp env user pubkey reg))"
proof -
  obtain res reg' where h: "handle_playback_cmd ed env (in_handler_ms inp) user pubkey reg = (res, reg')"
    by (cases "handle_playback_cmd ed env (in_handler_ms inp) user pubkey reg")
  then have "same_elsewhere rid reg reg'"
    by (cases rule: handle_playback_cases)
      (use assms in \<open>auto intro: same_elsewhere_trans [OF same_elsewhere_put_room same_elsewhere_publish]\<close>)
  with h show ?thesis by (auto simp: handle_playback_cmd_dispatch_def split: sum.split)
qed

lemma permission_elsewhere:
  assumes "env_room_id env = Some rid"
  shows "same_elsewhere rid reg (fst (snd (permission_set_arm ed inp env user reg db)))"
proof -
  obtain res reg' db' where h: "handle_permission_set ed env user reg db = (res, reg', db')"
    by (metis prod_cases3)
  then have "same_elsewhere rid reg reg'"
    by (cases rule: permission_cases)
      (use assms in \<open>auto intro: same_elsewhere_trans [OF same_elsewhere_put_room same_elsewhere_publish]\<close>)
  with h show ?thesis by (auto simp: permission_set_arm_def split: sum.split)
qed

lemma manifest_publish_elsewhere:
  assumes "env_room_id env = Some rid"
  shows "same_elsewhere rid reg (fst (snd (handle_manifest_publish_dispatch ed inp env user pubkey reg db)))"
proof -
  obtain res reg' db' where
    h: "handle_manifest_publish ed env (in_row_id inp) (in_handler_ms inp) user pubkey reg db = (res, reg', db')"
    by (metis prod_cases3)
  then have "same_elsewhere rid reg reg'"
    by (cases rule: publish_cases)
      (use assms in \<open>auto simp: publish_checked_def
        intro!: same_elsewhere_trans [OF same_elsewhere_put_manifest same_elsewhere_publish_events]\<close>)
  with h show ?thesis by (auto simp: handle_manifest_publish_dispatch_def split: sum.split)
qed

lemma drawing_elsewhere:
  assumes "registry_inv reg" and "env_room_id env = Some rid"
  shows "same_elsewhere rid reg (snd (dispatch_drawing ed env user pubkey now clk reg))"
  using assms(1)
proof (cases rule: dispatch_drawing_cases [where ed = ed and env = env and user = user and pubkey = pubkey and now = now and clk = clk])
  case (drawn rid' rs res)
  with assms(2) show ?thesis
    by (simp add: same_elsewhere_def) (simp add: current_manifest_def redraw_room_def)
qed simp

lemma special_kinds: "needs_no_room k \<Longrightarrow> command_of k \<noteq> None"
  by (auto simp: needs_no_room_def)

lemma route_elsewhere:
  assumes "registry_inv (sv_registry sv)" and "\<not> needs_no_room (env_type env)" and "env_room_id env = Some rid"
  shows "same_elsewhere rid (sv_registry sv) (sv_registry (snd (route ed sg inp env user pubkey sv)))"
  using assms playback_elsewhere permission_elsewhere manifest_publish_elsewhere drawing_elsewhere
  by (cases "env_type env") (simp_all add: route_def Let_def needs_no_room_def split: prod.split)

lemma dispatch_elsewhere:
  assumes "registry_inv (sv_registry sv)" and "\<not> needs_no_room (env_type env)" and "env_room_id env = Some rid"
  shows "same_elsewhere rid (sv_registry sv) (sv_registry (snd (dispatch_room_message ed sg inp env user pubkey sv)))"
  using route_elsewhere [OF assms] by (simp add: dispatch_room_message_def split: option.split sum.split)

section \<open>Properties\<close>



text \<open>
  What the dispatcher leaves for the connection layer to publish is nothing whenever it
  changed the server (those events were published under the room's lock), and otherwise only
  chat, position and laser events in the sender's own name, in a room the sender is present in.
\<close>

theorem published_once_in_own_name:
  assumes "dispatch_room_message ed sg inp env user pubkey sv = (out, sv')" and "env_room_id env = Some rid"
  shows "(oc_events out \<noteq> [] \<longrightarrow> sv' = sv \<and> is_user_in_room user rid (sv_registry sv))
    \<and> (\<forall>e \<in> set (oc_events out). speaks_for user rid e)"
  using dispatch_events [of _ ed sg inp env user pubkey sv rid] assms
  by (cases "oc_events out") fastforce+

text \<open>
  Only the present host of the named room can make the server hold pieces of a manifest:
  anyone else's piece drops every assembly of that connection and gives its bytes back, and a
  finished manifest becomes a MANIFEST_PUBLISH for the very room it was sent to.
\<close>

theorem only_host_assembles:
  assumes "handle_manifest_part pe cd inp env user reg bb parts = (step, bb', parts')"
  shows "(case step of
       Publish env' \<Rightarrow> env_type env' = MkManifestPublish \<and> env_room_id env' = env_room_id env \<and> env_room_id env \<noteq> None
     | _ \<Rightarrow> True)
   \<and> (\<forall>rid. env_room_id env = Some rid \<longrightarrow> \<not> (is_user_in_room user rid reg \<and> is_room_host rid user reg) \<longrightarrow>
        asm_entries parts' = [] \<and> bb_used bb' = bb_used bb - charged parts \<and> (\<forall>env'. step \<noteq> Publish env'))"
proof (cases "env_room_id env")
  case None
  with assms show ?thesis by (auto simp: handle_manifest_part_def)
next
  case (Some rid)
  show ?thesis
  proof (cases "is_user_in_room user rid reg \<and> is_room_host rid user reg")
    case True
    with assms Some show ?thesis
      by (auto simp: handle_manifest_part_def check_capability_def Let_def
          split: option.splits sum.splits prod.splits if_splits)
  next
    case False
    then have "check_capability reg user (Some rid) CmdPublishManifest \<noteq> Inr ()"
      by (simp add: check_capability_def)
    then obtain e where "check_capability reg user (Some rid) CmdPublishManifest = Inl e"
      by (cases "check_capability reg user (Some rid) CmdPublishManifest") auto
    with assms Some show ?thesis by (auto simp: handle_manifest_part_def clear_def charged_def Let_def)
  qed
qed

text \<open>Concrete inputs: room 1 of user 7, and user 9 who is in no room.\<close>

definition example_inputs :: inputs where
  "example_inputs = \<lparr>in_now_ms = 50, in_handler_ms = 50, in_system_ms = 50, in_stroke_clock = 0, in_instant = 0,
     in_draws = [], in_room_id = 3, in_row_id = 40, in_envelope_id = 41\<rparr>"

definition example_server :: "nat server" where
  "example_server = \<lparr>sv_registry = example_registry, sv_db = example_db, sv_relay = relay_new\<rparr>"

definition example_part_edge :: "nat part_edge" where
  "example_part_edge = \<lparr>pe_decode_part = (\<lambda>_. None), pe_encode_publish = (\<lambda>_. JNull)\<rparr>"

lemma stranger: "\<not> is_user_in_room 9 1 (sv_registry example_server)"
  by (simp add: is_user_in_room_def example_server_def example_registry_room example_room_state_def
      room_state_new_def is_present_def)



theorem published_once_in_own_name_witness:
  "list_all (speaks_for 7 1) (oc_events (fst (dispatch_room_message example_edge example_signal_edge example_inputs
     (example_envelope MkLaserOff (Some 1)) 7 [] example_server)))"
proof -
  have "env_room_id (example_envelope MkLaserOff (Some 1)) = Some 1" by (simp add: example_envelope_def)
  from published_once_in_own_name [OF prod.collapse [symmetric] this] show ?thesis unfolding list_all_iff by blast
qed

theorem only_host_assembles_witness:
  "asm_entries (snd (snd (handle_manifest_part example_part_edge example_codec example_inputs
     (example_envelope MkManifestPart (Some 1)) 9 (sv_registry example_server)
     assembly_budget new_part_assembler))) = []"
proof -
  let ?r = "handle_manifest_part example_part_edge example_codec example_inputs
     (example_envelope MkManifestPart (Some 1)) 9 (sv_registry example_server)
     assembly_budget new_part_assembler"
  have "?r = (fst ?r, fst (snd ?r), snd (snd ?r))" by simp
  from only_host_assembles [OF this] stranger show ?thesis
    by (simp add: example_envelope_def)
qed

end
