(* ===== verification/Ordering.thy ===== *)
theory Ordering
  imports Dispatch
begin

text \<open>
  What a room's channel says about the room. Everything a room ever published is on its channel,
  in order; the playback commands on it are numbered 1, 2, 3, ... up to the room's server
  sequence, the drawing events carry consecutive sequence numbers up to the room's, and a client
  that applies them from the start shows every stroke the room holds. This theory proves that
  each operation keeps it so.
\<close>

section \<open>The log\<close>

definition played :: "'m broadcast_item list \<Rightarrow> nat list" where
  "played items = List.map_filter
     (\<lambda>i. case bi_payload i of WPlaybackAccepted e \<Rightarrow> Some (pa_server_seq e) | _ \<Rightarrow> None) items"

definition drawn_seqs :: "'m broadcast_item list \<Rightarrow> nat list" where
  "drawn_seqs items = map bi_seq (filter (\<lambda>i. is_drawing (bi_kind i)) items)"

text \<open>What a client does to its canvas on receipt of an item.\<close>

definition show_item :: "'m broadcast_item \<Rightarrow> canvas \<Rightarrow> canvas" where
  "show_item i c =
     (case bi_payload i of
        WStrokeBegin p \<Rightarrow> (case bi_sender i of Some user \<Rightarrow> c(sbp_stroke_id p \<mapsto> user) | None \<Rightarrow> c)
      | WStrokeUndo p \<Rightarrow> c(sup_stroke_id p := None)
      | _ \<Rightarrow> if bi_kind i = MkStrokeClear then Map.empty else c)"

definition replay :: "'m broadcast_item list \<Rightarrow> canvas" where
  "replay items = fold show_item items Map.empty"

definition log_ok :: "room_state \<Rightarrow> 'm broadcast_item list \<Rightarrow> bool" where
  "log_ok rs items \<longleftrightarrow>
     played items = [1..<Suc (pb_server_seq (rs_playback rs))]
     \<and> (\<exists>base. drawn_seqs items = map (\<lambda>k. seq_after base (Suc k)) [0..<length (drawn_seqs items)]
          \<and> sb_seq (rs_drawing rs) = seq_after base (length (drawn_seqs items)))
     \<and> canvas (rs_drawing rs) \<subseteq>\<^sub>m replay items"

definition ordered :: "'m registry \<Rightarrow> bool" where
  "ordered reg \<longleftrightarrow>
     (\<forall>x rs. get_by_id x reg = Some rs \<longrightarrow> (\<exists>items. channel x reg = Some items \<and> log_ok rs items))"

lemma orderedD:
  assumes "ordered reg" and "get_by_id x reg = Some rs"
  obtains items where "channel x reg = Some items" and "log_ok rs items"
  using assms unfolding ordered_def by blast

section \<open>Items that do not count\<close>

definition quiet_item :: "'m broadcast_item \<Rightarrow> bool" where
  "quiet_item i \<longleftrightarrow> (\<forall>e. bi_payload i \<noteq> WPlaybackAccepted e) \<and> \<not> is_drawing (bi_kind i) \<and> show_item i = id"

fun quiet_event :: "'m room_event \<Rightarrow> bool" where
  "quiet_event (EvPlaybackCommand _) = False"
| "quiet_event (EvStrokeBegin _ _ _) = False"
| "quiet_event (EvStrokePoint _ _ _) = False"
| "quiet_event (EvStrokeEnd _ _ _) = False"
| "quiet_event (EvStrokeUndo _ _ _) = False"
| "quiet_event (EvStrokeClear _ _) = False"
| "quiet_event _ = True"

lemma quiet_event_item [simp]: "quiet_event e \<Longrightarrow> quiet_item (event_to_broadcast_item e rid o')"
  by (cases e) (auto simp: quiet_item_def event_to_broadcast_item_def is_drawing_def show_item_def fun_eq_iff)

lemma quiet_item_seq [simp]: "quiet_item (i\<lparr>bi_seq := s\<rparr>) = quiet_item i"
proof -
  have "show_item (i\<lparr>bi_seq := s\<rparr>) = show_item i"
    by (auto simp: show_item_def fun_eq_iff split: wire_payload.split option.split)
  then show ?thesis by (simp add: quiet_item_def)
qed

lemma quiet_part_item [simp]: "quiet_item (part_item rid o' part)"
  by (simp add: quiet_item_def part_item_def is_drawing_def show_item_def fun_eq_iff)

lemma speaks_for_quiet: "speaks_for user rid e \<Longrightarrow> quiet_event e"
  by (cases e) auto

lemma log_simps [simp]:
  "played [] = []" "drawn_seqs [] = []" "replay [] = Map.empty"
  "played (xs @ ys) = played xs @ played ys" "drawn_seqs (xs @ ys) = drawn_seqs xs @ drawn_seqs ys"
  by (simp_all add: played_def drawn_seqs_def replay_def map_filter_def)

lemma log_ok_quiet: "log_ok rs items \<Longrightarrow> quiet_item i \<Longrightarrow> log_ok rs (items @ [i])"
  by (auto simp: log_ok_def quiet_item_def played_def drawn_seqs_def replay_def map_filter_def split: wire_payload.splits)

text \<open>The log looks at the play counter and at the drawing state only.\<close>

definition same_core :: "room_state \<Rightarrow> room_state \<Rightarrow> bool" where
  "same_core rs rs' \<longleftrightarrow> rs_drawing rs' = rs_drawing rs
     \<and> pb_server_seq (rs_playback rs') = pb_server_seq (rs_playback rs)"

lemma log_ok_core: "same_core rs rs' \<Longrightarrow> log_ok rs items \<Longrightarrow> log_ok rs' items"
  by (simp add: log_ok_def same_core_def)

section \<open>Primitive steps\<close>

named_theorems ordered_intros \<open>steps that keep the log in order\<close>

lemma ordered_publish [ordered_intros]: "ordered reg \<Longrightarrow> quiet_item i \<Longrightarrow> ordered (publish rid i reg)"
  unfolding ordered_def by (auto simp: get_by_id_def channel_publish) (metis log_ok_quiet)+

lemma ordered_publish_all [ordered_intros]:
  "ordered reg \<Longrightarrow> list_all (\<lambda>(_, i). quiet_item i) items \<Longrightarrow> ordered (publish_all items reg)"
  unfolding publish_all_def by (induction items arbitrary: reg) (auto intro: ordered_publish)

lemma ordered_fold_publish:
  "ordered reg \<Longrightarrow> (\<And>x. quiet_item (g x)) \<Longrightarrow> ordered (fold (\<lambda>x. publish rid (g x)) xs reg)"
  by (induction xs arbitrary: reg) (auto intro: ordered_publish)

lemma ordered_publish_event: "ordered reg \<Longrightarrow> quiet_event e \<Longrightarrow> ordered (publish_event cd e rid seq reg)"
  by (auto simp: publish_event_def Let_def intro: ordered_publish ordered_fold_publish
      split: room_event.split option.split)

lemma ordered_publish_events [ordered_intros]:
  "ordered reg \<Longrightarrow> list_all quiet_event es \<Longrightarrow> ordered (publish_events cd es rid reg)"
  unfolding publish_events_def by (induction es arbitrary: reg) (auto intro: ordered_publish_event)

lemma ordered_put_room [ordered_intros]:
  assumes "ordered reg" and "get_by_id rid reg = Some rs" and "same_core rs rs'"
  shows "ordered (put_room rid rs' reg)"
  unfolding ordered_def
proof (intro allI impI)
  fix x rs1
  assume x: "get_by_id x (put_room rid rs' reg) = Some rs1"
  show "\<exists>items. channel x (put_room rid rs' reg) = Some items \<and> log_ok rs1 items"
  proof (cases "x = rid")
    case True
    obtain items where "channel rid reg = Some items" "log_ok rs items" by (rule orderedD [OF assms(1,2)])
    with True x assms(3) show ?thesis by (auto simp: get_by_id_def intro: log_ok_core)
  next
    case False
    with x assms(1) show ?thesis by (auto simp: ordered_def get_by_id_def)
  qed
qed

lemma ordered_put_manifest [ordered_intros]: "ordered reg \<Longrightarrow> ordered (put_current_manifest rid v reg)"
  by (simp add: ordered_def put_current_manifest_def get_by_id_def channel_def)

lemma ordered_remove_room [ordered_intros]: "ordered reg \<Longrightarrow> ordered (remove_room rid reg)"
  by (auto simp: ordered_def remove_room_def get_by_id_def channel_def Let_def split: option.splits)

lemma ordered_insert:
  assumes "ordered reg" and "pb_server_seq (rs_playback rs) = 0" and "canvas (rs_drawing rs) = Map.empty"
  shows "ordered (insert_room_state rs reg)"
  using assms by (auto simp: ordered_def insert_room_state_def get_by_id_def channel_def log_ok_def
      intro: exI [of _ "sb_seq (rs_drawing rs)"])

lemma ordered_map_rooms:
  assumes "ordered reg" and "\<And>rid rs. get_by_id rid reg = Some rs \<Longrightarrow> same_core rs (f rs)"
  shows "ordered (reg\<lparr>rg_by_id := hm_map_values f (rg_by_id reg)\<rparr>)"
  using assms unfolding ordered_def by (auto simp: get_by_id_def channel_def) (metis log_ok_core)

lemma canvas_new [simp]: "canvas (stroke_bookkeeping_new clk) = Map.empty"
  by (simp add: canvas_def stroke_bookkeeping_new_def fun_eq_iff)

lemma ordered_new: "ordered (registry_new config)"
  by (simp add: ordered_def registry_new_def get_by_id_def)

section \<open>Rooms come and go\<close>

lemma core_fields [simp]:
  "same_core rs (rs\<lparr>rs_participants := ps\<rparr>)"
  "same_core rs (rs'\<lparr>rs_participants := ps\<rparr>) = same_core rs rs'"
  "same_core rs (rs'\<lparr>rs_state := st\<rparr>) = same_core rs rs'"
  "same_core rs (rs'\<lparr>rs_host_disconnect_deadline_ms := d\<rparr>) = same_core rs rs'"
  "same_core rs rs"
  "same_core rs (update_user u f rs') = same_core rs rs'"
  "same_core rs (update_live_user u f rs') = same_core rs rs'"
  "same_core rs (host_mut f rs') = same_core rs rs'"
  "same_core rs (admit p rs') = same_core rs rs'"
  by (simp_all add: same_core_def update_user_def update_live_user_def host_mut_def admit_def)

lemma elect_core: "same_core rs rs' \<Longrightarrow> same_core rs (snd (elect_new_host rs'))"
  by (simp add: elect_new_host_def Let_def same_core_def)

lemma create_ordered:
  assumes "ordered reg"
  shows "ordered (fst (snd (create draws new_id clock_ms title h pk mig now reg db)))"
proof (cases rule: create_cases [of draws new_id clock_ms title h pk mig now reg db])
  case (ok code db')
  have "ordered (insert_room_state (room_state_new new_id code title h pk mig now HOST clock_ms) reg)"
    by (rule ordered_insert [OF assms]) (simp_all add: room_state_new_def playback_default_def)
  with ok(3) show ?thesis by simp
qed (use assms in simp)

lemma join_ordered:
  assumes "ordered reg"
  shows "ordered (fst (snd (join code u pk nm now reg db)))"
proof (cases rule: join_cases [of code u pk nm now reg db])
  case (ok rid rs db')
  from ok(2) show ?thesis
    unfolding ok(7) by (auto simp: get_by_id_def intro!: ordered_intros assms)
qed (use assms in simp)

lemma leave_locked_quiet:
  assumes "leave_locked config user intentional now_ms p rs = (events, out, rs')"
  shows "list_all quiet_event events \<and> same_core rs rs'"
  using assms elect_core [of rs]
  by (auto simp: leave_locked_def Let_def left_event_def split: if_splits option.splits prod.splits)
    (metis core_fields(4,5,7) snd_conv)+

lemma leave_publish_ordered:
  fixes reg :: "'m registry"
  assumes "ordered reg" and "hm_get (rg_by_id reg) rid = Some rs"
    and "leave_publish rid user intentional now_ms p rs reg db = (events, rs', reg', db')"
  shows "ordered reg'"
proof -
  obtain evs out rs2 where l: "leave_locked (rg_config reg) user intentional now_ms p rs = (evs :: 'm room_event list, out, rs2)"
    by (metis prod_cases3)
  note q = leave_locked_quiet [OF l]
  have "list_all (\<lambda>(_, i). quiet_item i) (map (\<lambda>e. (rid, event_to_broadcast_item e rid (Some user))) evs)"
    using q by (auto simp: list_all_iff)
  then have "ordered (publish_all (map (\<lambda>e. (rid, event_to_broadcast_item e rid (Some user))) evs) (put_room rid rs2 reg))"
    using assms(1,2) q by (intro ordered_intros) (auto simp: get_by_id_def)
  with assms(3) l show ?thesis by (auto simp: leave_publish_def Let_def)
qed

lemma leave_room_ordered:
  assumes "registry_inv reg" and "ordered reg"
  shows "ordered (fst (snd (leave_room user wanted intentional now_ms reg db)))"
proof -
  obtain res reg' db' where r: "leave_room user wanted intentional now_ms reg db = (res, reg', db')"
    by (metis prod_cases3)
  from assms(1) r have "ordered reg'"
  proof (cases rule: leave_room_cases)
    case (left rid rs p events rs' reg1)
    from leave_publish_ordered [OF assms(2) left(1,5)] show ?thesis by (simp add: left(7) ordered_remove_room)
  qed (simp add: assms)
  with r show ?thesis by simp
qed

lemma connection_lost_in_room_ordered:
  assumes "registry_inv reg" and "ordered reg"
  shows "ordered (fst (snd (connection_lost_in_room user now_ms rid reg db)))"
  using assms leave_room_ordered [OF assms, of user "Some rid" False now_ms db]
  by (auto simp: connection_lost_in_room_def intro!: ordered_put_room split: option.split sum.split prod.split)

lemma rejoin_in_room_ordered:
  assumes "ordered reg"
  shows "ordered (fst (snd (rejoin_in_room user pk now_ms rid reg db)))"
  using assms
  by (auto simp: rejoin_in_room_def Let_def intro!: ordered_put_room ordered_publish split: option.split sum.split prod.split)

lemma each_of_users_rooms_ordered:
  fixes reg :: "'m registry"
  assumes "\<And>rid reg db. registry_inv reg \<Longrightarrow>
      (\<And>rs. hm_get (rg_by_id reg) rid = Some rs \<Longrightarrow> has_live_record user rs) \<Longrightarrow>
      registry_inv (fst (snd (f rid reg db)))"
    and "\<And>rid x reg db. registry_inv reg \<Longrightarrow> x \<noteq> rid \<Longrightarrow>
      hm_get (rg_by_id (fst (snd (f rid reg db)))) x = hm_get (rg_by_id reg) x"
    and keep: "\<And>rid reg db. registry_inv reg \<Longrightarrow> ordered reg \<Longrightarrow> ordered (fst (snd (f rid reg db)))"
    and reg: "registry_inv reg" "ordered reg"
  shows "ordered (fst (snd (each_room f (rooms_of_user user reg) reg db)))"
proof -
  let ?Q = "\<lambda>rids reg. member_of_all user rids reg \<and> ordered reg"
  have "?Q [] (fst (snd (each_room f (rooms_of_user user reg) reg db)))"
  proof (rule each_room_inv [where Q = ?Q])
    fix rid rids db and reg :: "'m registry"
    assume m: "member_of_all user (rid # rids) reg \<and> ordered reg"
    then have "registry_inv (fst (snd (f rid reg db)))"
      by (intro assms(1)) (simp_all add: member_of_all_def)
    moreover have "r \<noteq> rid" if "r \<in> set rids" for r using m that by (auto simp: member_of_all_def)
    ultimately show "?Q rids (fst (snd (f rid reg db)))"
      using m assms(2) [of reg] keep [of reg rid db] by (auto simp: member_of_all_def)
  next
    show "?Q (rooms_of_user user reg) reg"
      using reg rooms_of_user_member [OF reg(1)] by (auto simp: member_of_all_def)
  qed
  then show ?thesis by simp
qed

lemma on_connection_lost_ordered:
  assumes "registry_inv reg" and "ordered reg"
  shows "ordered (fst (snd (on_connection_lost user now_ms reg db)))"
proof -
  have "ordered (fst (snd (each_room (connection_lost_in_room user now_ms) (rooms_of_user user reg) reg db)))"
    by (rule each_of_users_rooms_ordered [OF connection_lost_in_room_inv connection_lost_other
          connection_lost_in_room_ordered assms])
  with assms show ?thesis by (auto simp: on_connection_lost_def Let_def split: prod.splits option.splits)
qed

lemma rejoin_ordered:
  assumes "registry_inv reg" and "ordered reg"
  shows "ordered (fst (snd (rejoin user pk now_ms reg db)))"
proof -
  have "ordered (fst (snd (each_room (rejoin_in_room user pk now_ms) (rooms_of_user user reg) reg db)))"
    by (rule each_of_users_rooms_ordered [OF rejoin_in_room_inv rejoin_in_room_other _ assms])
      (auto intro: rejoin_in_room_ordered)
  with assms show ?thesis by (auto simp: rejoin_def Let_def split: prod.splits option.splits)
qed

lemma touch_ordered:
  assumes "registry_inv reg" and "ordered reg"
  shows "ordered (touch user now_ms reg)"
proof (cases "find (\<lambda>(_, rs). list_ex (\<lambda>p. p_user_id p = user) (rs_participants rs)) (rg_by_id reg)")
  case None
  with assms show ?thesis by (simp add: touch_def)
next
  case (Some e)
  obtain rid rs where e: "e = (rid, rs)" by (cases e)
  from find_SomeD [OF Some] e have "get_by_id rid reg = Some rs"
    using assms(1) by (simp add: registry_inv_def hm_get_Some_iff get_by_id_def)
  with assms(2) Some e show ?thesis by (auto simp: touch_def intro: ordered_put_room)
qed

section \<open>Ticks and restart\<close>

lemma grace_core: "same_core rs (snd (process_room_grace rs now_ms))"
  by (auto simp: process_room_grace_def try_migrate_host_def Let_def split: option.split)

lemma grace_item_quiet: "grace_item rid e = Some i \<Longrightarrow> quiet_item i"
  by (cases e) (auto simp: quiet_item_def is_drawing_def show_item_def fun_eq_iff)

lemma end_and_remove_ordered: "ordered (fst s) \<Longrightarrow> ordered (fst (fold (end_and_remove now_ms) rids s))"
  by (induction rids arbitrary: s) (auto simp: end_and_remove_def ordered_remove_room)

lemma tick_grace_ordered:
  fixes reg :: "'m registry"
  assumes "ordered reg"
  shows "ordered (fst (snd (tick_grace now_ms reg db)))"
  unfolding tick_grace_def Let_def fst_conv snd_conv visited_rooms
proof (rule end_and_remove_ordered, unfold fst_conv, rule ordered_publish_all)
  show "ordered (reg\<lparr>rg_by_id := hm_map_values (snd \<circ> (\<lambda>rs. process_room_grace rs now_ms :: 'm room_event option \<times> room_state)) (rg_by_id reg)\<rparr>)"
    by (rule ordered_map_rooms [OF assms]) (simp add: grace_core)
qed (auto simp: list_all_iff intro: grace_item_quiet split: option.splits)

lemma sweep_ordered:
  assumes "ordered reg" and "\<And>rs. same_core rs (snd (visit rs))"
  shows "ordered (snd (sweep visit reg))"
  unfolding sweep_def Let_def snd_conv visited_rooms
  by (intro ordered_publish_all ordered_map_rooms)
    (auto simp: list_all_iff assms timeout_event_def)

lemma tick_presence_ordered: "ordered reg \<Longrightarrow> ordered (snd (tick_presence_timeout now_ms reg))"
  unfolding tick_presence_timeout_def by (rule sweep_ordered) (simp_all add: presence_room_def Let_def)

lemma tick_stale_ordered: "ordered reg \<Longrightarrow> ordered (fst (snd (tick_stale_participants now_ms reg db)))"
proof -
  assume "ordered reg"
  then have "ordered (snd (sweep (stale_room (rg_config reg) now_ms) reg))"
    by (rule sweep_ordered) (simp add: stale_room_def Let_def)
  then show ?thesis by (simp add: tick_stale_participants_def Let_def split_beta)
qed

lemma rehydrate_ordered:
  assumes "ordered reg"
  shows "ordered (fst (snd (rehydrate cd clock_ms room rows db reg)))"
proof -
  have "ordered (insert_room_state (rehydrated_room clock_ms room rows) reg)"
    by (rule ordered_insert [OF assms]) (simp_all add: rehydrated_room_def playback_default_def)
  with assms show ?thesis
    by (auto simp: rehydrate_def Let_def intro: ordered_put_manifest split: option.split sum.split prod.split)
qed

section \<open>Messages\<close>

lemma manifest_publish_ordered:
  assumes "ordered reg"
  shows "ordered (fst (snd (handle_manifest_publish ed env row_id now_ms user pubkey reg db)))"
proof -
  obtain res reg' db' where h: "handle_manifest_publish ed env row_id now_ms user pubkey reg db = (res, reg', db')"
    by (metis prod_cases3)
  then have "ordered reg'"
    by (cases rule: publish_cases) (use assms in \<open>auto intro!: ordered_intros\<close>)
  with h show ?thesis by simp
qed

lemma permission_ordered:
  assumes "ordered reg"
  shows "ordered (fst (snd (handle_permission_set ed env caller reg db)))"
proof -
  obtain res reg' db' where h: "handle_permission_set ed env caller reg db = (res, reg', db')"
    by (metis prod_cases3)
  then have "ordered reg'"
    by (cases rule: permission_cases) (use assms in \<open>auto intro!: ordered_intros\<close>)
  with h show ?thesis by simp
qed

text \<open>An accepted command is the next number on the log.\<close>

lemma playback_ordered:
  assumes "ordered reg"
  shows "ordered (snd (handle_playback_cmd ed env now_ms user pubkey reg))"
proof -
  obtain res reg' where h: "handle_playback_cmd ed env now_ms user pubkey reg = (res, reg')"
    by (cases "handle_playback_cmd ed env now_ms user pubkey reg")
  then have "ordered reg'"
  proof (cases rule: handle_playback_cases)
    case (accepted rid cmd rs)
    obtain items where items: "channel rid reg = Some items" "log_ok rs items"
      by (rule orderedD [OF assms accepted(3)])
    let ?n = "Suc (pb_server_seq (rs_playback rs))"
    let ?rs' = "apply_playback cmd user now_ms ?n rs"
    let ?i = "event_to_broadcast_item (EvPlaybackCommand (accepted_event cmd user now_ms ?n)) rid (Some user)"
    have "log_ok ?rs' (items @ [?i])"
      using items(2) by (auto simp: log_ok_def played_def drawn_seqs_def replay_def map_filter_def
          event_to_broadcast_item_def accepted_event_def is_drawing_def show_item_def)
    with items(1) assms show ?thesis
      by (auto simp: accepted(6) ordered_def get_by_id_def channel_publish)
  qed (use assms in simp)
  with h show ?thesis by simp
qed

text \<open>The numbered items of a drawing dispatch continue the log.\<close>

lemma drawing_item:
  assumes "drawing_event rid e"
  shows "is_drawing (bi_kind (event_to_broadcast_item e rid o'))"
    and "show_item ((event_to_broadcast_item e rid o')\<lparr>bi_seq := s\<rparr>) = show_event e"
    and "bi_payload (event_to_broadcast_item e rid o') \<noteq> WPlaybackAccepted p"
  using assms by (cases e; simp add: event_to_broadcast_item_def is_drawing_def show_item_def fun_eq_iff)+

lemma seq_after_add: "seq_after (seq_after base n) k = seq_after base (n + k)"
  by (simp add: seq_after_def funpow_add add.commute [of n k])

lemma played_skip: "(\<And>p. bi_payload i \<noteq> WPlaybackAccepted p) \<Longrightarrow> played (i # items) = played items"
  by (cases "bi_payload i") (auto simp: played_def map_filter_def)

lemma numbered_log:
  assumes "list_all (drawing_event rid) es"
  shows "played (numbered rid s es) = []"
    and "drawn_seqs (numbered rid s es) = map (\<lambda>k. seq_after s (Suc k)) [0..<length es]"
    and "fold show_item (numbered rid s es) c = fold show_event es c"
proof -
  show "played (numbered rid s es) = []"
    using assms by (induction es arbitrary: s) (auto simp: played_skip drawing_item(3))
  show "fold show_item (numbered rid s es) c = fold show_event es c"
    using assms by (induction es arbitrary: s c) (simp_all add: drawing_item(2))
  show "drawn_seqs (numbered rid s es) = map (\<lambda>k. seq_after s (Suc k)) [0..<length es]"
    using assms
  proof (induction es arbitrary: s)
    case (Cons e es)
    have "[0..<length (e # es)] = 0 # map Suc [0..<length es]" by (simp only: length_Cons upt_conv_Cons [OF zero_less_Suc] map_Suc_upt)
    with Cons show ?case by (simp add: drawn_seqs_def seq_after_Suc drawing_item(1))
  qed simp
qed

lemma show_event_mono: "c \<subseteq>\<^sub>m d \<Longrightarrow> show_event e c \<subseteq>\<^sub>m show_event e d"
  by (cases e) (auto simp: map_le_def)

lemma show_events_mono: "c \<subseteq>\<^sub>m d \<Longrightarrow> fold show_event es c \<subseteq>\<^sub>m fold show_event es d"
  by (induction es arbitrary: c d) (auto intro: show_event_mono)

lemma upt_shift: "map f [n..<n + m] = map (\<lambda>k. f (n + k)) [0..<m]"
  by (rule nth_equalityI) auto

lemma log_ok_redrawn:
  assumes ok: "log_ok rs items" and r: "redrawn rid rs res"
  shows "log_ok ((snd res)\<lparr>rs_drawing := (rs_drawing (snd res))\<lparr>sb_seq :=
         seq_after (sb_seq (rs_drawing (snd res))) (length (oc_events (fst res)))\<rparr>\<rparr>)
      (items @ numbered rid (sb_seq (rs_drawing (snd res))) (oc_events (fst res)))"
proof -
  let ?es = "oc_events (fst res)" and ?s = "sb_seq (rs_drawing rs)"
  have draw: "list_all (drawing_event rid) ?es" and seq: "sb_seq (rs_drawing (snd res)) = ?s"
    and follows: "canvas (rs_drawing (snd res)) \<subseteq>\<^sub>m fold show_event ?es (canvas (rs_drawing rs))"
    and same: "snd res = rs\<lparr>rs_drawing := rs_drawing (snd res)\<rparr>"
    using r unfolding redrawn_def canvas_follows_def by simp_all
  have play: "rs_playback (snd res) = rs_playback rs" by (subst same) simp
  from ok obtain base where b: "drawn_seqs items = map (\<lambda>k. seq_after base (Suc k)) [0..<length (drawn_seqs items)]"
    "?s = seq_after base (length (drawn_seqs items))" by (auto simp: log_ok_def)
  have "canvas (rs_drawing (snd res)) \<subseteq>\<^sub>m fold show_event ?es (replay items)"
    using follows ok by (auto simp: log_ok_def intro: map_le_trans show_events_mono)
  then have canvas: "canvas (rs_drawing (snd res)) \<subseteq>\<^sub>m replay (items @ numbered rid ?s ?es)"
    using numbered_log(3) [OF draw] by (simp add: replay_def)
  have "drawn_seqs (items @ numbered rid ?s ?es)
      = map (\<lambda>k. seq_after base (Suc k)) [0..<length (drawn_seqs items) + length ?es]"
    unfolding log_simps numbered_log(2) [OF draw] upt_add_eq_append [OF zero_le] map_append add_0 upt_shift
    using b by (simp add: seq_after_add)
  with canvas ok play b(2) show ?thesis
    unfolding seq by (auto simp: log_ok_def numbered_log [OF draw] seq_after_add intro!: exI [of _ base])
qed

lemma dispatch_drawing_ordered:
  assumes inv: "registry_inv reg" and ord: "ordered reg"
  shows "ordered (snd (dispatch_drawing ed env user pubkey now clk reg))"
  using inv
proof (cases rule: dispatch_drawing_cases [where ed = ed and env = env and user = user and pubkey = pubkey and now = now and clk = clk])
  case (drawn rid rs res)
  obtain items where items: "channel rid reg = Some items" "log_ok rs items" by (rule orderedD [OF ord drawn(2)])
  from log_ok_redrawn [OF items(2) drawn(6)] items(1) ord show ?thesis
    by (auto simp: drawn(7) ordered_def)
qed (simp add: ord)

lemma route_ordered:
  assumes inv: "registry_inv (sv_registry sv)" and ord: "ordered (sv_registry sv)"
  shows "ordered (sv_registry (snd (route ed sg inp env user pubkey sv)))"
proof -
  let ?reg = "sv_registry sv" and ?db = "sv_db sv"
  have "ordered (fst (snd (handle_room_create ed inp env user pubkey ?reg ?db)))"
    using create_ordered [OF ord, of "in_draws inp" "in_room_id inp" "in_stroke_clock inp" _ user pubkey _ "in_now_ms inp" ?db] ord
    by (auto simp: handle_room_create_def split: option.split sum.split prod.split) (metis fst_conv snd_conv)+
  moreover have "ordered (fst (snd (handle_room_join_request ed inp env user pubkey ?reg ?db)))"
    using join_ordered [OF ord, of _ user pubkey _ "in_now_ms inp" ?db] ord
    by (auto simp: handle_room_join_request_def split: option.split sum.split prod.split) (metis fst_conv snd_conv)+
  moreover have "ordered (fst (snd (handle_room_leave inp user room ?reg ?db)))" for room
    using leave_room_ordered [OF inv ord, of user room True "in_now_ms inp" ?db]
    by (auto simp: handle_room_leave_def split: sum.split prod.split)
  moreover have "ordered (fst (snd (handle_manifest_publish_dispatch ed inp env user pubkey ?reg ?db)))"
    using manifest_publish_ordered [OF ord, of ed env "in_row_id inp" "in_handler_ms inp" user pubkey ?db]
    by (auto simp: handle_manifest_publish_dispatch_def split: sum.split prod.split)
  moreover have "ordered (snd (handle_playback_cmd_dispatch ed inp env user pubkey ?reg))"
    using playback_ordered [OF ord, of ed env "in_handler_ms inp" user pubkey]
    by (auto simp: handle_playback_cmd_dispatch_def split: sum.split prod.split)
  moreover have "ordered (fst (snd (permission_set_arm ed inp env user ?reg ?db)))"
    using permission_ordered [OF ord, of ed env user ?db]
    by (auto simp: permission_set_arm_def split: sum.split prod.split)
  ultimately show ?thesis
    using dispatch_drawing_ordered [OF inv ord] touch_ordered [OF inv ord] ord
    by (cases "env_type env") (simp_all add: route_def Let_def handle_presence_def split: prod.split)
qed

lemma dispatch_ordered:
  assumes "registry_inv (sv_registry sv)" and "ordered (sv_registry sv)"
  shows "ordered (sv_registry (snd (dispatch_room_message ed sg inp env user pubkey sv)))"
  using route_ordered [OF assms] assms(2)
  by (simp add: dispatch_room_message_def split: option.split sum.split)

lemma room_message_ordered:
  assumes "registry_inv (sv_registry sv)" and "ordered (sv_registry sv)"
  shows "ordered (sv_registry (snd (snd (room_message ed sg inp env user pubkey sv))))"
proof (cases "env_room_id env")
  case None
  with dispatch_ordered [OF assms, of ed sg inp env user pubkey] assms(2) show ?thesis
    by (auto simp: room_message_def split: prod.split)
next
  case (Some rid)
  obtain out sv1 where d: "dispatch_room_message ed sg inp env user pubkey sv = (out, sv1)"
    by (cases "dispatch_room_message ed sg inp env user pubkey sv")
  have "list_all quiet_event (oc_events out)"
    using dispatch_events [OF _ Some, of _ ed sg inp user pubkey sv] d speaks_for_quiet
    by (fastforce simp: list_all_iff)
  then have "ordered (publish_events (ed_codec ed) (oc_events out) rid (sv_registry sv1))"
    using dispatch_ordered [OF assms, of ed sg inp env user pubkey] d by (intro ordered_publish_events) simp_all
  with assms(2) d Some show ?thesis by (auto simp: room_message_def)
qed

end
