(* ===== verification/Server.thy ===== *)
theory Server
  imports Ordering
begin

text \<open>
  The room service as a whole: one step is a routed message, a connection that registers, resumes
  or ends, a tick of the room ticker (\<open>run_tick\<close> of \<open>rooms/mod.rs\<close>), a room restored at start-up,
  or time passing for the database. Steps of different connections interleave in any order; each
  runs under the room's lock, so a step is atomic for the room it changes.
\<close>

section \<open>The ticker\<close>

definition run_tick :: "millis \<Rightarrow> 'm registry \<Rightarrow> database \<Rightarrow> 'm registry \<times> database" where
  "run_tick now_ms reg db =
     (let (_, reg1, db1) = tick_grace now_ms reg db;
          (_, reg2) = tick_presence_timeout now_ms reg1;
          (_, reg3, db3) = tick_stale_participants now_ms reg2 db1
      in (reg3, db3))"

lemma run_tick_keeps:
  assumes "registry_inv reg" and "ordered reg"
  shows "registry_inv (fst (run_tick now_ms reg db)) \<and> ordered (fst (run_tick now_ms reg db))"
proof -
  obtain e1 reg1 db1 where 1: "tick_grace now_ms reg db = (e1, reg1, db1)" by (metis prod_cases3)
  obtain e2 reg2 where 2: "tick_presence_timeout now_ms reg1 = (e2, reg2)" by (metis surj_pair)
  obtain e3 reg3 db3 where 3: "tick_stale_participants now_ms reg2 db1 = (e3, reg3, db3)" by (metis prod_cases3)
  have "registry_inv reg1 \<and> ordered reg1"
    using tick_grace_inv [OF assms(1), of now_ms db] tick_grace_ordered [OF assms(2), of now_ms db] 1 by simp
  then have "registry_inv reg2 \<and> ordered reg2"
    using tick_presence_inv [of reg1 now_ms] tick_presence_ordered [of reg1 now_ms] 2 by simp
  then have "registry_inv reg3 \<and> ordered reg3"
    using tick_stale_inv [of reg2 now_ms db1] tick_stale_ordered [of reg2 now_ms db1] 3 by simp
  with 1 2 3 show ?thesis by (simp add: run_tick_def)
qed

section \<open>Steps\<close>

text \<open>
  A fresh room id is one no room has, which is what \<open>Uuid::now_v7\<close> gives; a restored room has
  rows as the server wrote them, and an id and a code no room has.
\<close>

inductive server_step :: "'m edge \<Rightarrow> signal_edge \<Rightarrow> 'm server \<Rightarrow> 'm server \<Rightarrow> bool"
  for ed :: "'m edge" and sg :: signal_edge where
  message: "get_by_id (in_room_id inp) (sv_registry sv) = None \<Longrightarrow>
    server_step ed sg sv (snd (snd (room_message ed sg inp env user pubkey sv)))"
| connected: "server_step ed sg sv (sv\<lparr>sv_relay := snd (relay_register user tx (sv_relay sv))\<rparr>)"
| resumed: "rejoin user pubkey now_ms (sv_registry sv) (sv_db sv) = (res, reg', db') \<Longrightarrow>
    server_step ed sg sv (sv\<lparr>sv_registry := reg', sv_db := db'\<rparr>)"
| closed: "connection_closed user token now_ms (sv_relay sv) (sv_registry sv) (sv_db sv) = (rl', reg', db') \<Longrightarrow>
    server_step ed sg sv (sv\<lparr>sv_relay := rl', sv_registry := reg', sv_db := db'\<rparr>)"
| ticked: "run_tick now_ms (sv_registry sv) (sv_db sv) = (reg', db') \<Longrightarrow>
    server_step ed sg sv (sv\<lparr>sv_registry := reg', sv_db := db'\<rparr>)"
| restored: "rows_ok (room_limit (sv_registry sv)) room rows \<Longrightarrow>
    get_by_id (rr_id room) (sv_registry sv) = None \<Longrightarrow> get_by_code (rr_code room) (sv_registry sv) = None \<Longrightarrow>
    rehydrate (ed_codec ed) clock_ms room rows (Some (sv_db sv)) (sv_registry sv) = (res, reg', Some db') \<Longrightarrow>
    server_step ed sg sv (sv\<lparr>sv_registry := reg', sv_db := db'\<rparr>)"
| elapsed: "server_step ed sg sv (sv\<lparr>sv_db := (sv_db sv)\<lparr>db_clock := t, db_faults := faults\<rparr>\<rparr>)"

definition start :: "registry_config \<Rightarrow> database \<Rightarrow> 'm server" where
  "start config db = \<lparr>sv_registry = registry_new config, sv_db = db, sv_relay = relay_new\<rparr>"

inductive reachable :: "'m edge \<Rightarrow> signal_edge \<Rightarrow> registry_config \<Rightarrow> 'm server \<Rightarrow> bool"
  for ed :: "'m edge" and sg :: signal_edge and config :: registry_config where
  init: "reachable ed sg config (start config db)"
| step: "reachable ed sg config sv \<Longrightarrow> server_step ed sg sv sv' \<Longrightarrow> reachable ed sg config sv'"

inductive_cases server_stepE: "server_step ed sg sv sv'"

lemma connection_closed_keeps:
  assumes "registry_inv reg" and "ordered reg"
    and "connection_closed user token now_ms rl reg db = (rl', reg', db')"
  shows "registry_inv reg' \<and> ordered reg'"
proof -
  have "reg' = reg \<or> reg' = fst (snd (on_connection_lost user now_ms reg db))"
    using assms(3) by (auto simp: connection_closed_def Let_def split: prod.splits if_splits)
  with on_connection_lost_inv [OF assms(1)] on_connection_lost_ordered [OF assms(1,2)] assms(1,2)
  show ?thesis by auto
qed

lemma server_step_keeps:
  assumes "server_step ed sg sv sv'" and "registry_inv (sv_registry sv) \<and> ordered (sv_registry sv)"
  shows "registry_inv (sv_registry sv') \<and> ordered (sv_registry sv')"
  using assms
proof (cases rule: server_step.cases)
  case (message inp env user pubkey)
  with assms(2) show ?thesis by (auto intro: room_message_inv room_message_ordered)
next
  case (resumed user pubkey now_ms res reg' db')
  with rejoin_inv [of "sv_registry sv" user pubkey now_ms "sv_db sv"]
    rejoin_ordered [of "sv_registry sv" user pubkey now_ms "sv_db sv"] assms(2)
  show ?thesis by simp
next
  case (closed user token now_ms rl' reg' db')
  from connection_closed_keeps [OF _ _ closed(2)] assms(2) closed(1) show ?thesis by simp
next
  case (ticked now_ms reg' db')
  with run_tick_keeps [of "sv_registry sv" now_ms "sv_db sv"] assms(2) show ?thesis by simp
next
  case (restored room rows clock_ms res reg' db')
  with rehydrate_inv [of "sv_registry sv" room rows "ed_codec ed" clock_ms "Some (sv_db sv)"]
    rehydrate_ordered [of "sv_registry sv" "ed_codec ed" clock_ms room rows "Some (sv_db sv)"] assms(2)
  show ?thesis by (simp add: get_by_id_def get_by_code_def)
qed simp_all

text \<open>The step relation is a machine that keeps the invariant, whatever step it takes.\<close>

lemma reachable_keeps:
  "reachable ed sg config sv \<Longrightarrow> registry_inv (sv_registry sv) \<and> ordered (sv_registry sv)"
proof (induction rule: reachable.induct)
  case (init db)
  then show ?case by (simp add: start_def registry_inv_new ordered_new)
qed (rule server_step_keeps)

section \<open>Properties\<close>


text \<open>
  C2: in every reachable state, the channel of each room tells its story completely and in
  order: the accepted playback commands carry the server numbers 1, 2, 3, ... up to the room's
  counter, without gap or repetition; the drawing events carry consecutive sequence numbers up
  to the room's; and a client that applies the drawing events from the start shows every stroke
  the room holds, with its owner.
\<close>

theorem reachable_channels_in_order:
  assumes "reachable ed sg config sv" and "get_by_id rid (sv_registry sv) = Some rs"
    and "channel rid (sv_registry sv) = Some items"
  shows "played items = [1..<Suc (pb_server_seq (rs_playback rs))]
    \<and> (\<exists>base. drawn_seqs items = map (\<lambda>k. seq_after base (Suc k)) [0..<length (drawn_seqs items)]
         \<and> sb_seq (rs_drawing rs) = seq_after base (length (drawn_seqs items)))
    \<and> canvas (rs_drawing rs) \<subseteq>\<^sub>m replay items"
proof -
  have "ordered (sv_registry sv)" using reachable_keeps [OF assms(1)] by simp
  then obtain items' where "channel rid (sv_registry sv) = Some items'" "log_ok rs items'"
    by (rule orderedD [OF _ assms(2)])
  with assms(3) have "log_ok rs items" by simp
  then show ?thesis by (simp add: log_ok_def)
qed

text \<open>A run of two steps: user 7 creates room 3, and the ticker ticks.\<close>

definition example_run :: "nat server" where
  "example_run = snd (snd (room_message example_edge example_signal_edge
     (example_inputs\<lparr>in_draws := [ascii ''ABCDEF'']\<rparr>) (example_envelope MkRoomCreate None) 7 []
     (start example_config example_db)))"

lemma example_run_reachable: "reachable example_edge example_signal_edge example_config example_run"
  unfolding example_run_def
  by (intro reachable.step [OF reachable.init server_step.message])
    (simp add: start_def get_by_id_def registry_new_def)

lemma example_run_room:
  "get_by_id 3 (sv_registry example_run) = Some (room_state_new 3 (ascii ''ABCDEF'') [] 7 [] True 50 HOST 0)
   \<and> channel 3 (sv_registry example_run) = Some []"
  by (simp add: example_run_def room_message_def routes_to_room_dispatch_def kind_predicates example_envelope_def
      dispatch_room_message_def check_capability_def route_def handle_room_create_def example_edge_def
      validate_room_title_def example_inputs_def start_def create_def MAX_COLLISIONS_def db_room_code_taken_def
      db_insert_room_def db_add_room_participant_def attempt_def example_db_def registry_new_def
      insert_room_state_def get_by_id_def channel_def on_rooms_def reply_with_def Let_def hm_contains_def)


theorem reachable_channels_in_order_witness:
  "canvas (rs_drawing (room_state_new 3 (ascii ''ABCDEF'') [] 7 [] True 50 HOST 0)) \<subseteq>\<^sub>m Map.empty"
  using reachable_channels_in_order [OF example_run_reachable conjunct1 [OF example_run_room]
      conjunct2 [OF example_run_room]]
  by simp

end
