(* ===== verification/Feed.thy ===== *)
theory Feed
  imports Ordering
begin

text \<open>
  One connection's subscription to a room, \<open>rooms/feed.rs\<close>, and the forwarder of \<open>ws/mod.rs\<close> that
  sends what the feed yields. tokio's broadcast receiver can drop items (it reports how many), and
  the feed turns a loss of drawing events into a DRAW_SYNC snapshot. The specification: once the
  subscriber has caught up, its canvas is the room's.
\<close>

section \<open>The feed\<close>

datatype 'm feed_item = FeedEvent "'m broadcast_item" | DrawSync stroke_sync_payload | FeedClosed

datatype 'm recv_result = Received "'m broadcast_item" | Lagged nat | RecvClosed

definition MIN_SYNC_INTERVAL :: nat where "MIN_SYNC_INTERVAL = 1000"

record 'm room_feed =
  fd_room_id :: uuid
  fd_min_sync_interval :: nat
  fd_last_sync :: "nat option"
  fd_draw_floor :: nat
  fd_last_seen :: nat
  fd_lagged :: bool
  fd_sync_pending :: bool
  fd_held :: "'m broadcast_item option"

definition with_min_sync_interval :: "uuid \<Rightarrow> nat \<Rightarrow> 'm room_feed" where
  "with_min_sync_interval rid interval =
     \<lparr>fd_room_id = rid, fd_min_sync_interval = interval, fd_last_sync = None, fd_draw_floor = 0,
      fd_last_seen = 0, fd_lagged = False, fd_sync_pending = False, fd_held = None\<rparr>"

definition feed_new :: "uuid \<Rightarrow> 'm room_feed" where
  "feed_new rid = with_min_sync_interval rid MIN_SYNC_INTERVAL"

text \<open>
  What one turn of the loop of \<open>next\<close> reads: the registry's snapshot, the monotonic clock after
  it, what the receiver returns, and the room's drawing sequence.
\<close>

record 'm feed_in =
  fi_snapshot :: "stroke_sync_payload option"
  fi_instant :: nat
  fi_recv :: "'m recv_result"
  fi_seq :: "nat option"

text \<open>The instant until which a pending DRAW_SYNC waits.\<close>

definition sync_due :: "'m room_feed \<Rightarrow> nat" where
  "sync_due f = (case fd_last_sync f of None \<Rightarrow> 0 | Some t \<Rightarrow> t + fd_min_sync_interval f)"

definition make_sync :: "'m feed_in \<Rightarrow> 'm room_feed \<Rightarrow> 'm feed_item option \<times> 'm room_feed" where
  "make_sync inp f =
     (let f1 = f\<lparr>fd_sync_pending := False, fd_last_sync := Some (fi_instant inp)\<rparr>
      in case fi_snapshot inp of
           None \<Rightarrow> (None, f1)
         | Some s \<Rightarrow> (Some (DrawSync s), f1\<lparr>fd_draw_floor := max (fd_draw_floor f1) (ssync_seq s),
                                          fd_last_seen := max (fd_last_seen f1) (ssync_seq s)\<rparr>))"

definition deliver :: "'m broadcast_item \<Rightarrow> 'm room_feed \<Rightarrow> 'm feed_item option \<times> 'm room_feed" where
  "deliver item f =
     (if bi_seq item = 0 then (Some (FeedEvent item), f)
      else if bi_seq item \<le> fd_draw_floor f then (None, f)
      else (Some (FeedEvent item), f\<lparr>fd_last_seen := max (fd_last_seen f) (bi_seq item)\<rparr>))"

definition examine ::
    "nat option \<Rightarrow> 'm broadcast_item \<Rightarrow> 'm room_feed \<Rightarrow> 'm feed_item option \<times> 'm room_feed" where
  "examine current item f =
     (if fd_lagged f
      then let have_seq = max (fd_draw_floor f) (fd_last_seen f);
               lost_drawing = (if bi_seq item = 0
                               then (case current of None \<Rightarrow> False | Some seq \<Rightarrow> have_seq < seq)
                               else bi_seq item > have_seq + 1);
               f1 = f\<lparr>fd_lagged := False\<rparr>
           in if lost_drawing then (None, f1\<lparr>fd_sync_pending := True, fd_held := Some item\<rparr>)
              else deliver item f1
      else deliver item f)"

definition take_item :: "'m feed_in \<Rightarrow> 'm room_feed \<Rightarrow> 'm feed_item option \<times> 'm room_feed" where
  "take_item inp f =
     (case fd_held f of
        Some item \<Rightarrow> examine (fi_seq inp) item (f\<lparr>fd_held := None\<rparr>)
      | None \<Rightarrow>
          (case fi_recv inp of
             Received item \<Rightarrow> examine (fi_seq inp) item f
           | Lagged _ \<Rightarrow> (None, f\<lparr>fd_lagged := True\<rparr>)
           | RecvClosed \<Rightarrow> (Some FeedClosed, f)))"

text \<open>One turn of the loop; \<open>None\<close> is \<open>continue\<close>.\<close>

definition feed_turn :: "'m feed_in \<Rightarrow> 'm room_feed \<Rightarrow> 'm feed_item option \<times> 'm room_feed" where
  "feed_turn inp f =
     (if fd_sync_pending f
      then (case make_sync inp f of
              (Some out, f') \<Rightarrow> (Some out, f')
            | (None, f') \<Rightarrow> take_item inp f')
      else take_item inp f)"

text \<open>\<open>next\<close>: turns until one yields; it consumes the readings it used. \<open>None\<close> while it waits.\<close>

fun next_item :: "'m feed_in list \<Rightarrow> 'm room_feed \<Rightarrow> 'm feed_item option \<times> 'm feed_in list \<times> 'm room_feed" where
  "next_item [] f = (None, [], f)"
| "next_item (inp # inps) f =
     (case feed_turn inp f of
        (Some out, f') \<Rightarrow> (Some out, inps, f')
      | (None, f') \<Rightarrow> next_item inps f')"

section \<open>The forwarder\<close>

text \<open>
  What \<open>room_bcast_forwarder\<close> sends for a yielded item: nothing for the originator's own event,
  or when the user is not in the room now, a ROOM_CLOSED excepted. \<open>self_user\<close> is \<open>None\<close> before
  the connection is authenticated.
\<close>

record 'm forwarded =
  fw_type :: message_kind
  fw_room_id :: uuid
  fw_sender :: "uuid option"
  fw_seq :: nat
  fw_payload :: "'m wire_payload"

definition forward :: "uuid option \<Rightarrow> uuid \<Rightarrow> 'm registry \<Rightarrow> 'm feed_item \<Rightarrow> 'm forwarded option" where
  "forward self_user rid reg out =
     (case out of
        FeedClosed \<Rightarrow> None
      | DrawSync snap \<Rightarrow>
          if (case self_user of None \<Rightarrow> False | Some uid \<Rightarrow> is_user_in_room uid rid reg)
          then Some \<lparr>fw_type = MkStrokeSync, fw_room_id = rid, fw_sender = None, fw_seq = ssync_seq snap,
                     fw_payload = WStrokeSync snap\<rparr>
          else None
      | FeedEvent item \<Rightarrow>
          if (case self_user of
                None \<Rightarrow> False
              | Some uid \<Rightarrow> bi_originator item = Some uid
                  \<or> bi_kind item \<noteq> MkRoomClosed \<and> \<not> is_user_in_room uid rid reg)
          then None
          else Some \<lparr>fw_type = bi_kind item, fw_room_id = rid, fw_sender = bi_sender item, fw_seq = bi_seq item,
                     fw_payload = bi_payload item\<rparr>)"

section \<open>Subscribers and the log\<close>

text \<open>
  The log \<open>L\<close> of everything the room publishes, its drawing items numbered from \<open>base\<close> on, the
  canvas \<open>c0\<close> before it; \<open>drawn_upto L k\<close> counts the drawing items among the first \<open>k\<close>.
\<close>

definition draws :: "'m broadcast_item list \<Rightarrow> 'm broadcast_item list" where
  "draws L = filter (\<lambda>i. is_drawing (bi_kind i)) L"

definition drawn_upto :: "'m broadcast_item list \<Rightarrow> nat \<Rightarrow> nat" where
  "drawn_upto L k = length (draws (take k L))"

definition numbered_log :: "nat \<Rightarrow> 'm broadcast_item list \<Rightarrow> bool" where
  "numbered_log base L \<longleftrightarrow>
     (\<forall>j < length (draws L). bi_seq (draws L ! j) = base + Suc j)
     \<and> (\<forall>i \<in> set L. \<not> is_drawing (bi_kind i) \<longrightarrow> bi_seq i = 0 \<and> show_item i = id)"

text \<open>The canvas after the drawing items numbered up to \<open>s\<close>, and the one a snapshot shows.\<close>

definition canvas_at :: "canvas \<Rightarrow> nat \<Rightarrow> 'm broadcast_item list \<Rightarrow> nat \<Rightarrow> canvas" where
  "canvas_at c0 base L s = fold show_item (take (s - base) (draws L)) c0"

definition sync_canvas :: "stroke_sync_payload \<Rightarrow> canvas" where
  "sync_canvas s = map_of (map (\<lambda>e. (sss_stroke_id e, sss_owner_id e)) (ssync_strokes s))"

definition show_out :: "'m feed_item option \<Rightarrow> canvas \<Rightarrow> canvas" where
  "show_out out c =
     (case out of Some (FeedEvent i) \<Rightarrow> show_item i c | Some (DrawSync s) \<Rightarrow> sync_canvas s | _ \<Rightarrow> c)"

text \<open>
  The subscriber: the feed, how many items its receiver has passed, how many are published, and
  its canvas. The registry answers for what is published; the receiver returns the next item or
  reports that it dropped some.
\<close>

type_synonym 'm subscriber = "'m room_feed \<times> nat \<times> nat \<times> canvas"

definition registry_answers ::
    "canvas \<Rightarrow> nat \<Rightarrow> 'm broadcast_item list \<Rightarrow> nat \<Rightarrow> 'm feed_in \<Rightarrow> bool" where
  "registry_answers c0 base L n inp \<longleftrightarrow> fi_seq inp = Some (base + drawn_upto L n)
     \<and> (\<exists>s. fi_snapshot inp = Some s \<and> ssync_seq s = base + drawn_upto L n
          \<and> sync_canvas s = canvas_at c0 base L (base + drawn_upto L n))"

inductive subscriber_step ::
    "canvas \<Rightarrow> nat \<Rightarrow> 'm broadcast_item list \<Rightarrow> 'm subscriber \<Rightarrow> 'm subscriber \<Rightarrow> bool"
  for c0 :: canvas and base :: nat and L :: "'m broadcast_item list" where
  published: "n < length L \<Longrightarrow> subscriber_step c0 base L (f, pos, n, c) (f, pos, Suc n, c)"
| synced: "fd_sync_pending f \<or> fd_held f \<noteq> None \<Longrightarrow> registry_answers c0 base L n inp \<Longrightarrow>
    (fd_sync_pending f \<longrightarrow> sync_due f \<le> fi_instant inp) \<Longrightarrow> feed_turn inp f = (out, f') \<Longrightarrow>
    subscriber_step c0 base L (f, pos, n, c) (f', pos, n, show_out out c)"
| received: "\<not> fd_sync_pending f \<Longrightarrow> fd_held f = None \<Longrightarrow> registry_answers c0 base L n inp \<Longrightarrow>
    pos < n \<Longrightarrow> fi_recv inp = Received (L ! pos) \<Longrightarrow> feed_turn inp f = (out, f') \<Longrightarrow>
    subscriber_step c0 base L (f, pos, n, c) (f', Suc pos, n, show_out out c)"
| dropped: "\<not> fd_sync_pending f \<Longrightarrow> fd_held f = None \<Longrightarrow> pos + missed \<le> n \<Longrightarrow>
    fi_recv inp = Lagged missed \<Longrightarrow> feed_turn inp f = (out, f') \<Longrightarrow>
    subscriber_step c0 base L (f, pos, n, c) (f', pos + missed, n, show_out out c)"

inductive subscribed ::
    "canvas \<Rightarrow> nat \<Rightarrow> 'm broadcast_item list \<Rightarrow> 'm subscriber \<Rightarrow> bool"
  for c0 :: canvas and base :: nat and L :: "'m broadcast_item list" where
  subscribe: "pos \<le> length L \<Longrightarrow>
    subscribed c0 base L (with_min_sync_interval rid interval, pos, pos, canvas_at c0 base L (base + drawn_upto L pos))"
| run: "subscribed c0 base L s \<Longrightarrow> subscriber_step c0 base L s s' \<Longrightarrow> subscribed c0 base L s'"

section \<open>Positions and numbers\<close>

lemma drawn_upto_le: "i \<le> j \<Longrightarrow> drawn_upto L i \<le> drawn_upto L j"
proof -
  assume "i \<le> j"
  then have "take j L = take i L @ take (j - i) (drop i L)"
    by (metis le_add_diff_inverse take_add)
  then show ?thesis by (simp add: drawn_upto_def draws_def)
qed

lemma drawn_upto_Suc:
  "k < length L \<Longrightarrow> drawn_upto L (Suc k) = drawn_upto L k + (if is_drawing (bi_kind (L ! k)) then 1 else 0)"
  by (simp add: drawn_upto_def draws_def take_Suc_conv_app_nth)

lemma draws_nth:
  assumes "k < length L" and "is_drawing (bi_kind (L ! k))"
  shows "drawn_upto L k < length (draws L) \<and> draws L ! drawn_upto L k = L ! k"
proof -
  have "L = take k L @ L ! k # drop (Suc k) L" using assms(1) by (rule id_take_nth_drop)
  then have "draws L = draws (take k L) @ L ! k # draws (drop (Suc k) L)"
    unfolding draws_def using assms(2) by (metis (no_types, lifting) filter.simps(2) filter_append)
  then show ?thesis by (simp add: drawn_upto_def nth_append)
qed

lemma drawing_seq_at:
  assumes "numbered_log base L" and "k < length L" and "is_drawing (bi_kind (L ! k))"
  shows "bi_seq (L ! k) = base + drawn_upto L (Suc k)"
  using draws_nth [OF assms(2,3)] assms by (auto simp: numbered_log_def drawn_upto_Suc)

lemma other_at:
  assumes "numbered_log base L" and "k < length L" and "\<not> is_drawing (bi_kind (L ! k))"
  shows "bi_seq (L ! k) = 0" and "show_item (L ! k) = id" and "drawn_upto L (Suc k) = drawn_upto L k"
  using assms by (auto simp: numbered_log_def drawn_upto_Suc)

lemma canvas_at_next:
  assumes "k < length L" and "is_drawing (bi_kind (L ! k))"
  shows "canvas_at c0 base L (base + drawn_upto L (Suc k)) = show_item (L ! k) (canvas_at c0 base L (base + drawn_upto L k))"
  using draws_nth [OF assms] assms by (simp add: canvas_at_def drawn_upto_Suc take_Suc_conv_app_nth)

section \<open>The subscriber's invariant\<close>

fun feed_ok :: "canvas \<Rightarrow> nat \<Rightarrow> 'm broadcast_item list \<Rightarrow> 'm subscriber \<Rightarrow> bool" where
  "feed_ok c0 base L (f, pos, n, c) \<longleftrightarrow>
     pos \<le> n \<and> n \<le> length L \<and> fd_draw_floor f \<le> base + drawn_upto L n
     \<and> fd_last_seen f \<le> max (fd_draw_floor f) (base + drawn_upto L pos)
     \<and> (fd_sync_pending f \<longrightarrow> fd_held f \<noteq> None)
     \<and> (\<forall>item. fd_held f = Some item \<longrightarrow> \<not> fd_lagged f \<and> 0 < pos \<and> item = L ! (pos - 1))
     \<and> (fd_held f \<noteq> None \<and> \<not> fd_sync_pending f \<longrightarrow>
          base + drawn_upto L pos \<le> fd_draw_floor f \<and> c = canvas_at c0 base L (fd_draw_floor f))
     \<and> (fd_held f = None \<and> \<not> fd_lagged f \<longrightarrow> c = canvas_at c0 base L (max (fd_draw_floor f) (base + drawn_upto L pos)))
     \<and> (fd_lagged f \<longrightarrow> (\<exists>g. c = canvas_at c0 base L (max (fd_draw_floor f) g) \<and> g \<le> base + drawn_upto L pos
          \<and> fd_last_seen f \<le> max (fd_draw_floor f) g))"

text \<open>Delivering the next item keeps a subscriber that has everything so far up to date.\<close>

lemma deliver_next:
  assumes log: "numbered_log base L" and k: "k < length L"
    and seen: "fd_last_seen f \<le> max (fd_draw_floor f) (base + drawn_upto L k)"
    and d: "deliver (L ! k) f = (out, f')"
  shows "\<exists>m. f' = f\<lparr>fd_last_seen := m\<rparr> \<and> m \<le> max (fd_draw_floor f) (base + drawn_upto L (Suc k))
    \<and> show_out out (canvas_at c0 base L (max (fd_draw_floor f) (base + drawn_upto L k)))
        = canvas_at c0 base L (max (fd_draw_floor f) (base + drawn_upto L (Suc k)))"
proof (cases "is_drawing (bi_kind (L ! k))")
  case False
  note other = other_at [OF log k False]
  with d have "out = Some (FeedEvent (L ! k))" "f' = f\<lparr>fd_last_seen := fd_last_seen f\<rparr>"
    by (simp_all add: deliver_def)
  with other seen show ?thesis by (intro exI [of _ "fd_last_seen f"]) (simp add: show_out_def)
next
  case True
  have seq: "bi_seq (L ! k) = base + drawn_upto L (Suc k)" by (rule drawing_seq_at [OF log k True])
  have up: "drawn_upto L (Suc k) = Suc (drawn_upto L k)" using k True by (simp add: drawn_upto_Suc)
  show ?thesis
  proof (cases "bi_seq (L ! k) \<le> fd_draw_floor f")
    case True
    with d seq up have "out = None" "f' = f\<lparr>fd_last_seen := fd_last_seen f\<rparr>" by (simp_all add: deliver_def)
    with True seq up seen show ?thesis
      by (intro exI [of _ "fd_last_seen f"]) (simp add: show_out_def max_def)
  next
    case False
    with d seq up have "out = Some (FeedEvent (L ! k))"
        "f' = f\<lparr>fd_last_seen := max (fd_last_seen f) (bi_seq (L ! k))\<rparr>" by (simp_all add: deliver_def)
    with False seq up seen canvas_at_next [OF k True, of c0 base] show ?thesis
      by (intro exI [of _ "max (fd_last_seen f) (bi_seq (L ! k))"]) (simp add: show_out_def max_def)
  qed
qed

text \<open>After a snapshot that reaches past the held item, the item is skipped or changes nothing.\<close>

lemma deliver_covered:
  assumes log: "numbered_log base L" and k: "k < length L" and floor: "base + drawn_upto L (Suc k) \<le> fd_draw_floor f"
  shows "\<exists>out. deliver (L ! k) f = (out, f) \<and> show_out out c = c"
proof (cases "is_drawing (bi_kind (L ! k))")
  case False
  with other_at [OF log k False] show ?thesis by (simp add: deliver_def show_out_def)
next
  case True
  then have "bi_seq (L ! k) = base + drawn_upto L (Suc k)" "0 < drawn_upto L (Suc k)"
    using drawing_seq_at [OF log k] k by (simp_all add: drawn_upto_Suc)
  with floor show ?thesis by (simp add: deliver_def show_out_def)
qed

lemma received_keeps:
  assumes log: "numbered_log base L" and ok: "feed_ok c0 base L (f, pos, n, c)"
    and idle: "\<not> fd_sync_pending f" "fd_held f = None" and ans: "registry_answers c0 base L n inp"
    and r: "pos < n" "fi_recv inp = Received (L ! pos)" "feed_turn inp f = (out, f')"
  shows "feed_ok c0 base L (f', Suc pos, n, show_out out c)"
proof -
  have k: "pos < length L" using ok r(1) by simp
  have mono: "drawn_upto L pos \<le> drawn_upto L (Suc pos)" "drawn_upto L (Suc pos) \<le> drawn_upto L n"
    using r(1) by (simp_all add: drawn_upto_le)
  have turn: "examine (fi_seq inp) (L ! pos) f = (out, f')"
    using r(2,3) idle by (simp add: feed_turn_def take_item_def)
  show ?thesis
  proof (cases "fd_lagged f")
    case False
    have c: "c = canvas_at c0 base L (max (fd_draw_floor f) (base + drawn_upto L pos))" using ok idle False by simp
    have "deliver (L ! pos) f = (out, f')" using turn False by (simp add: examine_def)
    from deliver_next [OF log k _ this, of c0] ok obtain m where
      "f' = f\<lparr>fd_last_seen := m\<rparr>" "m \<le> max (fd_draw_floor f) (base + drawn_upto L (Suc pos))"
      "show_out out (canvas_at c0 base L (max (fd_draw_floor f) (base + drawn_upto L pos)))
        = canvas_at c0 base L (max (fd_draw_floor f) (base + drawn_upto L (Suc pos)))" by auto
    with ok False idle r(1) c show ?thesis by simp
  next
    case lagged: True
    obtain g where g: "c = canvas_at c0 base L (max (fd_draw_floor f) g)" "g \<le> base + drawn_upto L pos"
      "fd_last_seen f \<le> max (fd_draw_floor f) g" using ok lagged by auto
    define lost where "lost = (if bi_seq (L ! pos) = 0 then max (fd_draw_floor f) (fd_last_seen f) < base + drawn_upto L n
      else bi_seq (L ! pos) > max (fd_draw_floor f) (fd_last_seen f) + 1)"
    have ex: "examine (fi_seq inp) (L ! pos) f =
      (if lost then (None, f\<lparr>fd_lagged := False, fd_sync_pending := True, fd_held := Some (L ! pos)\<rparr>)
       else deliver (L ! pos) (f\<lparr>fd_lagged := False\<rparr>))"
      using lagged ans by (simp add: examine_def lost_def registry_answers_def Let_def)
    show ?thesis
    proof (cases lost)
      case True
      with ex turn have "out = None"
        "f' = f\<lparr>fd_lagged := False, fd_sync_pending := True, fd_held := Some (L ! pos)\<rparr>" by simp_all
      with ok g mono r(1) show ?thesis by (auto simp: show_out_def max_def split: if_splits)
    next
      case False
      have "base + drawn_upto L pos \<le> max (fd_draw_floor f) g"
      proof (cases "is_drawing (bi_kind (L ! pos))")
        case True
        with drawing_seq_at [OF log k True] k have "bi_seq (L ! pos) = base + Suc (drawn_upto L pos)" by (simp add: drawn_upto_Suc)
        with False g(3) show ?thesis by (auto simp: lost_def max_def split: if_splits)
      next
        case other: False
        with other_at [OF log k other] False g(3) mono show ?thesis by (auto simp: lost_def max_def split: if_splits)
      qed
      with g(2) have "max (fd_draw_floor f) g = max (fd_draw_floor f) (base + drawn_upto L pos)" by simp
      with g have c: "c = canvas_at c0 base L (max (fd_draw_floor f) (base + drawn_upto L pos))"
        and seen: "fd_last_seen (f\<lparr>fd_lagged := False\<rparr>) \<le> max (fd_draw_floor (f\<lparr>fd_lagged := False\<rparr>)) (base + drawn_upto L pos)"
        by simp_all
      have d: "deliver (L ! pos) (f\<lparr>fd_lagged := False\<rparr>) = (out, f')" using ex turn False by simp
      from deliver_next [OF log k seen d, of c0] obtain m where
        "f' = f\<lparr>fd_lagged := False, fd_last_seen := m\<rparr>" "m \<le> max (fd_draw_floor f) (base + drawn_upto L (Suc pos))"
        "show_out out (canvas_at c0 base L (max (fd_draw_floor f) (base + drawn_upto L pos)))
          = canvas_at c0 base L (max (fd_draw_floor f) (base + drawn_upto L (Suc pos)))" by auto
      with ok idle r(1) c show ?thesis by simp
    qed
  qed
qed

lemma synced_keeps:
  assumes log: "numbered_log base L" and ok: "feed_ok c0 base L (f, pos, n, c)"
    and due: "fd_sync_pending f \<or> fd_held f \<noteq> None" and ans: "registry_answers c0 base L n inp"
    and turn: "feed_turn inp f = (out, f')"
  shows "feed_ok c0 base L (f', pos, n, show_out out c)"
proof -
  from ok due obtain item where held: "fd_held f = Some item" by auto
  with ok have item: "item = L ! (pos - 1)" "0 < pos" "\<not> fd_lagged f" by simp_all
  show ?thesis
  proof (cases "fd_sync_pending f")
    case True
    from ans obtain s where s: "fi_snapshot inp = Some s" "ssync_seq s = base + drawn_upto L n"
      "sync_canvas s = canvas_at c0 base L (base + drawn_upto L n)" by (auto simp: registry_answers_def)
    have floor: "max (fd_draw_floor f) (base + drawn_upto L n) = base + drawn_upto L n" using ok by simp
    have "out = Some (DrawSync s)"
      "f' = f\<lparr>fd_sync_pending := False, fd_last_sync := Some (fi_instant inp), fd_draw_floor := base + drawn_upto L n,
         fd_last_seen := max (fd_last_seen f) (base + drawn_upto L n)\<rparr>"
      using turn True s floor by (simp_all add: feed_turn_def make_sync_def Let_def)
    moreover have "drawn_upto L pos \<le> drawn_upto L n" using ok by (simp add: drawn_upto_le)
    ultimately show ?thesis using ok held item s(3) by (auto simp: show_out_def max_def split: if_splits)
  next
    case False
    with ok held have floor: "base + drawn_upto L pos \<le> fd_draw_floor f" and c: "c = canvas_at c0 base L (fd_draw_floor f)"
      by simp_all
    have "pos \<le> length L" using ok by auto
    with item(2) have "Suc (pos - 1) = pos" "pos - 1 < length L" by simp_all
    with deliver_covered [OF log, of "pos - 1" "f\<lparr>fd_held := None\<rparr>" c] floor item(1)
    obtain o1 where d: "deliver item (f\<lparr>fd_held := None\<rparr>) = (o1, f\<lparr>fd_held := None\<rparr>)" "show_out o1 c = c" by auto
    with turn False held item(3) have "out = o1" "f' = f\<lparr>fd_held := None\<rparr>"
      by (simp_all add: feed_turn_def take_item_def examine_def)
    with ok floor c d(2) item(3) False show ?thesis by (simp add: max_absorb1)
  qed
qed

lemma subscriber_step_keeps:
  assumes log: "numbered_log base L" and step: "subscriber_step c0 base L s s'" and ok: "feed_ok c0 base L s"
  shows "feed_ok c0 base L s'"
  using step ok
proof (cases rule: subscriber_step.cases)
  case (published n f pos c)
  then have "drawn_upto L n \<le> drawn_upto L (Suc n)" by (simp add: drawn_upto_le)
  with published ok show ?thesis by auto
next
  case (synced f n inp out f' pos c)
  with ok synced_keeps [OF log] show ?thesis by blast
next
  case (received f n inp pos out f' c)
  with ok received_keeps [OF log] show ?thesis by blast
next
  case (dropped f pos missed n inp out f' c)
  have "out = None" "f' = f\<lparr>fd_lagged := True\<rparr>" using dropped by (simp_all add: feed_turn_def take_item_def)
  moreover have mono: "drawn_upto L pos \<le> drawn_upto L (pos + missed)" "drawn_upto L pos \<le> drawn_upto L n" using dropped by (simp_all add: drawn_upto_le)
  moreover have "\<exists>g. c = canvas_at c0 base L (max (fd_draw_floor f) g) \<and> g \<le> base + drawn_upto L pos
      \<and> fd_last_seen f \<le> max (fd_draw_floor f) g"
    using ok dropped by (cases "fd_lagged f") auto
  ultimately show ?thesis using ok dropped by (auto simp: show_out_def)
qed

lemma subscribed_ok:
  assumes "subscribed c0 base L s" and "numbered_log base L"
  shows "feed_ok c0 base L s"
  using assms(1)
proof (induction rule: subscribed.induct)
  case (subscribe pos rid interval)
  then show ?case by (simp add: with_min_sync_interval_def)
qed (use subscriber_step_keeps [OF assms(2)] in blast)

section \<open>Properties\<close>


text \<open>
  Two DRAW_CLEARs are published; the receiver drops the first. The second reveals the loss, the
  snapshot is sent in its place, and the canvas ends empty as the room's.
\<close>

definition example_clear :: "nat \<Rightarrow> nat broadcast_item" where
  "example_clear k = \<lparr>bi_kind = MkStrokeClear, bi_payload = WEmptyObject, bi_room_id = 3, bi_originator = None,
     bi_sender = Some 7, bi_seq = k\<rparr>"

definition example_log :: "nat broadcast_item list" where
  "example_log = [example_clear 1, example_clear 2]"

definition example_reading :: "nat recv_result \<Rightarrow> nat feed_in" where
  "example_reading r = \<lparr>fi_snapshot = Some \<lparr>ssync_seq = 2, ssync_strokes = []\<rparr>, fi_instant = 5, fi_recv = r, fi_seq = Some 2\<rparr>"

definition example_canvas :: canvas where "example_canvas = [1 \<mapsto> 7]"

lemmas example_feed_defs =
  example_clear_def example_log_def example_reading_def numbered_log_def draws_def drawn_upto_def canvas_at_def
  sync_canvas_def show_item_def is_drawing_def registry_answers_def feed_turn_def take_item_def examine_def
  deliver_def make_sync_def sync_due_def with_min_sync_interval_def show_out_def

definition example_feed :: "bool \<Rightarrow> bool \<Rightarrow> nat \<Rightarrow> nat room_feed" where
  "example_feed lagged pending floor = (with_min_sync_interval 3 1000)
     \<lparr>fd_lagged := lagged, fd_sync_pending := pending, fd_held := if pending then Some (example_clear 2) else None,
      fd_last_sync := if floor = 0 then None else Some 5, fd_draw_floor := floor, fd_last_seen := floor\<rparr>"

lemma subscribed_run_to:
  "subscribed c0 base L s \<Longrightarrow> subscriber_step c0 base L s s' \<Longrightarrow> s' = t \<Longrightarrow> subscribed c0 base L t"
  by (auto intro: subscribed.run)

lemma example_dropped: "subscribed example_canvas 0 example_log (example_feed True False 0, 1, 2, example_canvas)"
proof -
  have "subscribed example_canvas 0 example_log (example_feed False False 0, 0, 0, example_canvas)"
    using subscribed.subscribe [of 0 example_log example_canvas 0 3 1000]
    by (simp add: example_feed_def example_feed_defs)
  then have "subscribed example_canvas 0 example_log (example_feed False False 0, 0, 1, example_canvas)"
    by (rule subscribed_run_to) (rule subscriber_step.published, simp_all add: example_log_def)
  then have "subscribed example_canvas 0 example_log (example_feed False False 0, 0, 2, example_canvas)"
    by (rule subscribed_run_to) (rule subscriber_step.published, simp_all add: example_log_def)
  then show ?thesis
    by (rule subscribed_run_to)
      (rule subscriber_step.dropped [where inp = "example_reading (Lagged 1)" and missed = 1],
        auto simp: example_feed_def example_feed_defs)
qed

lemma example_repaired: "subscribed example_canvas 0 example_log (example_feed False False 2, 2, 2, Map.empty)"
proof -
  have "subscribed example_canvas 0 example_log (example_feed False True 0, 2, 2, example_canvas)"
    using example_dropped
    by (rule subscribed_run_to)
      (rule subscriber_step.received [where inp = "example_reading (Received (example_clear 2))"],
        auto simp: example_feed_def example_feed_defs)
  then have "subscribed example_canvas 0 example_log
      ((example_feed False False 2)\<lparr>fd_held := Some (example_clear 2)\<rparr>, 2, 2, Map.empty)"
    by (rule subscribed_run_to)
      (rule subscriber_step.synced [where inp = "example_reading RecvClosed"],
        auto simp: example_feed_def example_feed_defs)
  then show ?thesis
    by (rule subscribed_run_to)
      (rule subscriber_step.synced [where inp = "example_reading RecvClosed"],
        auto simp: example_feed_def example_feed_defs)
qed


end
