(* ===== verification/Chunking.thy ===== *)
theory Chunking
  imports ManifestParts
begin

text \<open>
  Files as chunks, in the desktop client: the host's planner that streams a file
  (\<open>room/chunk_plan.rs\<close>), the media entry of a manifest (\<open>shared/manifest/src/model.rs\<close>), the
  viewer's planner (\<open>transfer/plan.rs\<close>) and the verifiers (\<open>transfer/verify.rs\<close>). SHA-256 and
  BLAKE3 are parameters. The host's streaming planner is equivalent to slicing the file; the
  viewer's plan covers the file exactly when its number of chunks fits in 32 bits.
\<close>

section \<open>Digests and identifiers\<close>

text \<open>
  The digests of the crypto crates as lowercase hex. A streaming hasher is the bytes it has
  absorbed: \<open>update\<close> appends, \<open>finalize_hex\<close> is the digest of all of them.
\<close>

record digests =
  dg_sha256_hex :: "bytes \<Rightarrow> rstring"
  dg_blake3_hex :: "bytes \<Rightarrow> rstring"

definition CHUNK_SIZE :: nat where "CHUNK_SIZE = 262144"

definition chunked_sha256_hex :: "digests \<Rightarrow> bytes \<Rightarrow> rstring list" where
  "chunked_sha256_hex dg bs = map (dg_sha256_hex dg) (chunks CHUNK_SIZE bs)"

definition hex_char :: "nat \<Rightarrow> bool" where
  "hex_char c \<longleftrightarrow> 48 \<le> c \<and> c \<le> 57 \<or> 97 \<le> c \<and> c \<le> 102"

definition is_64_lowercase_hex :: "rstring \<Rightarrow> bool" where
  "is_64_lowercase_hex s \<longleftrightarrow> utf8_len s = 64 \<and> list_all hex_char s"

definition bounded_is_64_lowercase_hex :: "rstring \<Rightarrow> bool" where
  "bounded_is_64_lowercase_hex s \<longleftrightarrow> (if utf8_len s > 64 then False else is_64_lowercase_hex s)"

definition is_canonical_peer_id :: "rstring \<Rightarrow> bool" where
  "is_canonical_peer_id s \<longleftrightarrow> utf8_len s = 64 \<and> list_all hex_char s"

definition derive_peer_id :: "digests \<Rightarrow> bytes \<Rightarrow> rstring" where
  "derive_peer_id dg pubkey = dg_sha256_hex dg pubkey"

section \<open>The host's planner\<close>

record chunk_plan =
  cp_full_sha256 :: rstring
  cp_full_blake3 :: rstring
  cp_per_chunk_sha256 :: "rstring list"
  cp_bytes_read :: nat

datatype chunk_plan_error = EmptyPath | EmptyFile | PlanIo string

definition total_chunks :: "chunk_plan \<Rightarrow> nat" where
  "total_chunks cp = length (cp_per_chunk_sha256 cp) mod 2 ^ 32"

text \<open>The hasher of the chunk at hand, how much it has absorbed, and the digests so far.\<close>

record plan_state =
  ps_current :: bytes
  ps_into :: nat
  ps_per_chunk :: "rstring list"

text \<open>The inner \<open>while offset < n\<close>, on the rest of one read. \<open>None\<close> stands for not returning.\<close>

partial_function (option) feed_read :: "digests \<Rightarrow> bytes \<Rightarrow> plan_state \<Rightarrow> plan_state option" where
  "feed_read dg rest st =
     (if rest = [] then Some st
      else let n = min (CHUNK_SIZE - ps_into st) (length rest);
               st1 = st\<lparr>ps_current := ps_current st @ take n rest, ps_into := ps_into st + n\<rparr>;
               st2 = (if ps_into st1 = CHUNK_SIZE
                      then \<lparr>ps_current = [], ps_into = 0,
                            ps_per_chunk = ps_per_chunk st1 @ [dg_sha256_hex dg (ps_current st1)]\<rparr>
                      else st1)
           in feed_read dg (drop n rest) st2)"

text \<open>
  The outer loop over what \<open>file.read\<close> returns: an error, or the bytes read, none at the end of
  the file. The full-file hashers have absorbed \<open>all\<close>.
\<close>

fun plan_reads ::
    "digests \<Rightarrow> (string + bytes) list \<Rightarrow> bytes \<Rightarrow> plan_state
       \<Rightarrow> (chunk_plan_error + bytes \<times> plan_state) option" where
  "plan_reads dg [] all st = None"
| "plan_reads dg (Inl e # reads) all st = Some (Inl (PlanIo e))"
| "plan_reads dg (Inr buf # reads) all st =
     (if buf = [] then Some (Inr (all, st))
      else (case feed_read dg buf st of
              None \<Rightarrow> None
            | Some st' \<Rightarrow> plan_reads dg reads (all @ buf) st'))"

definition plan_file ::
    "digests \<Rightarrow> rstring \<Rightarrow> string + nat \<Rightarrow> string + unit \<Rightarrow> (string + bytes) list
       \<Rightarrow> (chunk_plan_error + chunk_plan) option" where
  "plan_file dg path metadata opened reads =
     (if path = [] then Some (Inl EmptyPath)
      else case metadata of
        Inl e \<Rightarrow> Some (Inl (PlanIo e))
      | Inr file_size \<Rightarrow>
          if file_size = 0 then Some (Inl EmptyFile)
          else (case opened of
            Inl e \<Rightarrow> Some (Inl (PlanIo e))
          | Inr _ \<Rightarrow>
              (case plan_reads dg reads [] \<lparr>ps_current = [], ps_into = 0, ps_per_chunk = []\<rparr> of
                 None \<Rightarrow> None
               | Some (Inl e) \<Rightarrow> Some (Inl e)
               | Some (Inr (all, st)) \<Rightarrow>
                   Some (Inr \<lparr>cp_full_sha256 = dg_sha256_hex dg all, cp_full_blake3 = dg_blake3_hex dg all,
                     cp_per_chunk_sha256 = (if ps_into st > 0
                       then ps_per_chunk st @ [dg_sha256_hex dg (ps_current st)] else ps_per_chunk st),
                     cp_bytes_read = length all\<rparr>))))"

section \<open>Media entries\<close>

record source =
  src_peer_id :: rstring
  src_url_hint :: "rstring option"
  src_priority :: int
  src_chunk_size :: nat
  src_total_chunks :: nat
  src_chunk_hashes :: "rstring list"

record dimensions =
  dim_width :: nat
  dim_height :: nat

record codecs =
  cod_video :: "rstring option"
  cod_audio :: "rstring option"
  cod_container :: "rstring option"

record media_entry =
  me_id :: rstring
  me_filename :: rstring
  me_sha256 :: rstring
  me_blake3 :: rstring
  me_size_bytes :: nat
  me_mime :: rstring
  me_duration_ms :: nat
  me_dimensions :: "dimensions option"
  me_codecs :: "codecs option"
  me_sources :: "source list"

section \<open>The host's manifest\<close>

text \<open>
  A row of \<open>media_items\<close>, and what the host reads: the answers of the database and, per library
  path, those of the file system.
\<close>

record media_item =
  mi_id :: rstring
  mi_filename :: rstring
  mi_relative_path :: rstring
  mi_size_bytes :: int
  mi_mime :: rstring
  mi_duration_ms :: "int option"
  mi_width :: "int option"
  mi_height :: "int option"
  mi_video_codec :: "rstring option"
  mi_audio_codec :: "rstring option"
  mi_container :: "rstring option"

record library =
  lib_permanent :: "string + media_item list"
  lib_item :: "rstring \<Rightarrow> string + media_item option"
  lib_metadata :: "rstring \<Rightarrow> string + nat"
  lib_open :: "rstring \<Rightarrow> string + unit"
  lib_reads :: "rstring \<Rightarrow> (string + bytes) list"

datatype host_error =
  NoMedia
| UnknownMedia rstring
| HostStorage string
| FileChanged rstring int nat
| ChunkPlanFailed rstring chunk_plan_error

fun selected_rows :: "library \<Rightarrow> rstring list \<Rightarrow> host_error + media_item list" where
  "selected_rows lib [] = Inr []"
| "selected_rows lib (i # ids) =
     (case lib_item lib i of
        Inl e \<Rightarrow> Inl (HostStorage e)
      | Inr None \<Rightarrow> Inl (UnknownMedia i)
      | Inr (Some row) \<Rightarrow>
          (case selected_rows lib ids of Inl e \<Rightarrow> Inl e | Inr rows \<Rightarrow> Inr (row # rows)))"

definition entry_dimensions :: "media_item \<Rightarrow> dimensions option" where
  "entry_dimensions row =
     (case (mi_width row, mi_height row) of
        (Some w, Some h) \<Rightarrow>
          if w > 0 \<and> h > 0 then Some \<lparr>dim_width = nat (w mod 2 ^ 32), dim_height = nat (h mod 2 ^ 32)\<rparr> else None
      | _ \<Rightarrow> None)"

definition entry_codecs :: "media_item \<Rightarrow> codecs option" where
  "entry_codecs row =
     (if mi_video_codec row \<noteq> None \<or> mi_audio_codec row \<noteq> None \<or> mi_container row \<noteq> None
      then Some \<lparr>cod_video = mi_video_codec row, cod_audio = mi_audio_codec row, cod_container = mi_container row\<rparr>
      else None)"

definition build_entry :: "rstring \<Rightarrow> media_item \<Rightarrow> chunk_plan \<Rightarrow> host_error + media_entry" where
  "build_entry peer_id row cp =
     (if mi_size_bytes row < 0 \<or> int (cp_bytes_read cp) \<noteq> mi_size_bytes row
      then Inl (FileChanged (mi_filename row) (mi_size_bytes row) (cp_bytes_read cp))
      else Inr \<lparr>me_id = mi_id row, me_filename = mi_filename row, me_sha256 = cp_full_sha256 cp,
        me_blake3 = cp_full_blake3 cp, me_size_bytes = nat (mi_size_bytes row), me_mime = mi_mime row,
        me_duration_ms = nat (case mi_duration_ms row of None \<Rightarrow> 0 | Some d \<Rightarrow> max d 0),
        me_dimensions = entry_dimensions row, me_codecs = entry_codecs row,
        me_sources = [\<lparr>src_peer_id = peer_id, src_url_hint = None, src_priority = 0,
          src_chunk_size = CHUNK_SIZE, src_total_chunks = total_chunks cp,
          src_chunk_hashes = cp_per_chunk_sha256 cp\<rparr>]\<rparr>)"

fun build_entries ::
    "digests \<Rightarrow> library \<Rightarrow> rstring \<Rightarrow> media_item list \<Rightarrow> (host_error + media_entry list) option" where
  "build_entries dg lib peer_id [] = Some (Inr [])"
| "build_entries dg lib peer_id (row # rows) =
     (let path = mi_relative_path row
      in case plan_file dg path (lib_metadata lib path) (lib_open lib path) (lib_reads lib path) of
           None \<Rightarrow> None
         | Some (Inl e) \<Rightarrow> Some (Inl (ChunkPlanFailed (mi_filename row) e))
         | Some (Inr cp) \<Rightarrow>
             (case build_entry peer_id row cp of
                Inl e \<Rightarrow> Some (Inl e)
              | Inr entry \<Rightarrow>
                  (case build_entries dg lib peer_id rows of
                     None \<Rightarrow> None
                   | Some (Inl e) \<Rightarrow> Some (Inl e)
                   | Some (Inr entries) \<Rightarrow> Some (Inr (entry # entries)))))"

definition build_manifest_for ::
    "digests \<Rightarrow> library \<Rightarrow> bytes \<Rightarrow> rstring list option \<Rightarrow> (host_error + media_entry list) option" where
  "build_manifest_for dg lib host_pubkey selection =
     (case (case selection of
              None \<Rightarrow> (case lib_permanent lib of Inl e \<Rightarrow> Inl (HostStorage e) | Inr rows \<Rightarrow> Inr rows)
            | Some ids \<Rightarrow> selected_rows lib ids) of
        Inl e \<Rightarrow> Some (Inl e)
      | Inr rows \<Rightarrow> if rows = [] then Some (Inl NoMedia)
                   else build_entries dg lib (derive_peer_id dg host_pubkey) rows)"

section \<open>The viewer's planner\<close>

record planned_chunk =
  pch_index :: nat
  pch_offset :: nat
  pch_length :: nat
  pch_sha256 :: rstring

record selected_source =
  sel_peer_id :: rstring
  sel_source :: source

record planned_source =
  pls_chunk_size :: nat
  pls_total_chunks :: nat

record download_plan =
  dp_download_id :: rstring
  dp_media_id :: rstring
  dp_sha256 :: rstring
  dp_blake3 :: rstring
  dp_size_bytes :: nat
  dp_source :: selected_source
  dp_source_meta :: planned_source
  dp_chunks :: "planned_chunk list"
  dp_manifest_version :: int

datatype plan_error =
  MissingField string
| SourceNotFound
| InvalidPeerId
| InvalidSize nat
| InvalidChunkSize nat nat
| ChunkHashCountMismatch nat nat
| TotalChunksMismatch nat nat
| InvalidChunkHash nat

definition select_source :: "media_entry \<Rightarrow> rstring \<Rightarrow> plan_error + selected_source" where
  "select_source entry peer_id =
     (if \<not> is_canonical_peer_id peer_id then Inl InvalidPeerId
      else case find (\<lambda>s. src_peer_id s = peer_id) (me_sources entry) of
             None \<Rightarrow> Inl SourceNotFound
           | Some s \<Rightarrow> Inr \<lparr>sel_peer_id = peer_id, sel_source = s\<rparr>)"

text \<open>The cast \<open>as u32\<close> keeps the low 32 bits.\<close>

definition total_chunks_for :: "nat \<Rightarrow> nat \<Rightarrow> nat" where
  "total_chunks_for sz chunk_size = (if sz = 0 then 0 else div_ceil sz chunk_size mod 2 ^ 32)"

definition validate_source_shape :: "source \<Rightarrow> plan_error + planned_source" where
  "validate_source_shape s =
     (if src_chunk_size s \<noteq> CHUNK_SIZE then Inl (InvalidChunkSize (src_chunk_size s) CHUNK_SIZE)
      else if length (src_chunk_hashes s) \<noteq> src_total_chunks s
      then Inl (ChunkHashCountMismatch (length (src_chunk_hashes s)) (src_total_chunks s))
      else Inr \<lparr>pls_chunk_size = src_chunk_size s, pls_total_chunks = src_total_chunks s\<rparr>)"

fun first_bad_hash :: "nat \<Rightarrow> rstring list \<Rightarrow> nat option" where
  "first_bad_hash i [] = None"
| "first_bad_hash i (h # hs) = (if is_64_lowercase_hex h then first_bad_hash (Suc i) hs else Some i)"

definition planned :: "nat \<Rightarrow> nat \<Rightarrow> nat \<Rightarrow> rstring list \<Rightarrow> nat \<Rightarrow> planned_chunk" where
  "planned sz chunk_size count hashes i =
     (let offset = min (i * chunk_size) (2 ^ 64 - 1)
      in \<lparr>pch_index = i, pch_offset = offset,
          pch_length = (if i + 1 = count then (sz - offset) mod 2 ^ 32 else chunk_size),
          pch_sha256 = hashes ! i\<rparr>)"

definition plan_download ::
    "rstring \<Rightarrow> rstring \<Rightarrow> int \<Rightarrow> media_entry \<Rightarrow> rstring \<Rightarrow> plan_error + download_plan" where
  "plan_download download_id media_id manifest_version entry peer_id =
     (if me_filename entry = [] then Inl (MissingField ''filename'')
      else if \<not> bounded_is_64_lowercase_hex (me_sha256 entry) then Inl (MissingField ''sha256'')
      else if \<not> bounded_is_64_lowercase_hex (me_blake3 entry) then Inl (MissingField ''blake3'')
      else if me_size_bytes entry = 0 then Inl (InvalidSize (me_size_bytes entry))
      else case select_source entry peer_id of
        Inl e \<Rightarrow> Inl e
      | Inr selected \<Rightarrow>
     (case validate_source_shape (sel_source selected) of
        Inl e \<Rightarrow> Inl e
      | Inr meta \<Rightarrow>
          (let expected_total = total_chunks_for (me_size_bytes entry) (pls_chunk_size meta)
           in if pls_total_chunks meta \<noteq> expected_total
              then Inl (TotalChunksMismatch (pls_total_chunks meta) expected_total)
              else case first_bad_hash 0 (src_chunk_hashes (sel_source selected)) of
                Some i \<Rightarrow> Inl (InvalidChunkHash i)
              | None \<Rightarrow>
                  Inr \<lparr>dp_download_id = download_id, dp_media_id = media_id,
                    dp_sha256 = me_sha256 entry, dp_blake3 = me_blake3 entry,
                    dp_size_bytes = me_size_bytes entry, dp_source = selected, dp_source_meta = meta,
                    dp_chunks = map (planned (me_size_bytes entry) (pls_chunk_size meta) (pls_total_chunks meta)
                                      (src_chunk_hashes (sel_source selected))) [0..<pls_total_chunks meta],
                    dp_manifest_version = manifest_version\<rparr>)))"

section \<open>Verification\<close>

datatype chunk_verify_error =
  Sha256Mismatch rstring rstring
| Blake3Mismatch rstring rstring
| VerifyLengthMismatch nat nat

definition verify_chunk_sha256 :: "digests \<Rightarrow> bytes \<Rightarrow> rstring \<Rightarrow> chunk_verify_error + rstring" where
  "verify_chunk_sha256 dg bs expected =
     (let got = dg_sha256_hex dg bs
      in if got = expected then Inr got else Inl (Sha256Mismatch got expected))"

definition verify_full_blake3 :: "digests \<Rightarrow> bytes \<Rightarrow> nat \<Rightarrow> rstring \<Rightarrow> chunk_verify_error + rstring" where
  "verify_full_blake3 dg bs expected_size expected =
     (if length bs \<noteq> expected_size then Inl (VerifyLengthMismatch (length bs) expected_size)
      else let got = dg_blake3_hex dg bs
           in if got = expected then Inr got else Inl (Blake3Mismatch got expected))"

section \<open>Slicing\<close>

text \<open>What a chunk of a plan is of a file.\<close>

definition slice :: "bytes \<Rightarrow> planned_chunk \<Rightarrow> bytes" where
  "slice bs c = take (pch_length c) (drop (pch_offset c) bs)"

lemma CHUNK_SIZE_pos [simp]: "0 < CHUNK_SIZE"
  by (simp add: CHUNK_SIZE_def)

lemma chunks_full:
  assumes "0 < n" and "length cur < n" and "\<forall>c \<in> set cs. length c = n"
  shows "chunks n (concat cs @ cur) = cs @ (if cur = [] then [] else [cur])"
  using assms(3)
proof (induction cs)
  case Nil
  with assms(1,2) show ?case by (subst chunks.simps) (auto simp: chunks.simps)
next
  case (Cons c cs)
  with assms(1) show ?case by (subst chunks.simps) auto
qed

lemma chunks_nth:
  assumes "0 < n"
  shows "chunks n bs = map (\<lambda>i. take n (drop (i * n) bs)) [0..<div_ceil (length bs) n]"
  using assms
proof (induction n bs rule: chunks.induct)
  case (1 n bs)
  show ?case
  proof (cases "bs = []")
    case True
    then show ?thesis by (simp add: chunks.simps)
  next
    case False
    with 1(2) have step: "div_ceil (length bs) n = Suc (div_ceil (length (drop n bs)) n)"
      by (simp add: div_ceil_step)
    have "chunks n bs = take n bs # chunks n (drop n bs)" using False 1(2) by (subst chunks.simps) simp
    also have "\<dots> = take n bs # map (\<lambda>i. take n (drop (i * n) (drop n bs))) [0..<div_ceil (length (drop n bs)) n]"
      using 1 False by simp
    also have "\<dots> = map (\<lambda>i. take n (drop (i * n) bs)) [0..<div_ceil (length bs) n]"
      unfolding step upt_conv_Cons [OF zero_less_Suc] by (simp add: map_Suc_upt [symmetric] add.commute del: upt_Suc)
    finally show ?thesis .
  qed
qed

lemma div_ceil_bounds:
  assumes "0 < b" and "0 < a"
  shows "0 < div_ceil a b" and "(div_ceil a b - 1) * b < a" and "a \<le> div_ceil a b * b"
proof -
  define q r where "q = a div b" and "r = a mod b"
  have a: "a = q * b + r" and r: "r < b" using assms(1) by (simp_all add: q_def r_def)
  have n: "div_ceil a b = (if r = 0 then q else Suc q)" by (simp add: div_ceil_def q_def r_def)
  have q: "r = 0 \<Longrightarrow> 0 < q" using a assms(2) by (cases q) simp_all
  then show "0 < div_ceil a b" using n by auto
  have "r = 0 \<Longrightarrow> (q - 1) * b < a" using a assms(1) q by (cases q) simp_all
  then show "(div_ceil a b - 1) * b < a" using n a by (cases "r = 0") simp_all
  show "a \<le> div_ceil a b * b" using n a r by (cases "r = 0") simp_all
qed

section \<open>The host's planner reads the file in slices\<close>

fun reads_to_end :: "(string + bytes) list \<Rightarrow> bool" where
  "reads_to_end [] = False"
| "reads_to_end (Inl e # reads) = False"
| "reads_to_end (Inr buf # reads) = (buf = [] \<or> reads_to_end reads)"

fun file_bytes :: "(string + bytes) list \<Rightarrow> bytes" where
  "file_bytes (Inr buf # reads) = (if buf = [] then [] else buf @ file_bytes reads)"
| "file_bytes _ = []"

definition represents :: "digests \<Rightarrow> plan_state \<Rightarrow> bytes \<Rightarrow> bool" where
  "represents dg st bs \<longleftrightarrow>
     (\<exists>cs. bs = concat cs @ ps_current st \<and> (\<forall>c \<in> set cs. length c = CHUNK_SIZE)
        \<and> ps_per_chunk st = map (dg_sha256_hex dg) cs)
     \<and> ps_into st = length (ps_current st) \<and> ps_into st < CHUNK_SIZE"

lemma feed_read_represents:
  assumes "represents dg st bs"
  shows "\<exists>st'. feed_read dg rest st = Some st' \<and> represents dg st' (bs @ rest)"
  using assms
proof (induction "length rest" arbitrary: rest st bs rule: less_induct)
  case less
  show ?case
  proof (cases "rest = []")
    case True
    with less(2) show ?thesis by (simp add: feed_read.simps)
  next
    case False
    obtain cs where cs: "bs = concat cs @ ps_current st" "\<forall>c \<in> set cs. length c = CHUNK_SIZE"
      "ps_per_chunk st = map (dg_sha256_hex dg) cs" and into: "ps_into st = length (ps_current st)" "ps_into st < CHUNK_SIZE"
      using less(2) by (auto simp: represents_def)
    define n where "n = min (CHUNK_SIZE - ps_into st) (length rest)"
    have n: "0 < n" "n \<le> length rest" "ps_into st + n \<le> CHUNK_SIZE" using into False by (auto simp: n_def)
    define st2 where "st2 = (if ps_into st + n = CHUNK_SIZE
      then \<lparr>ps_current = [], ps_into = 0, ps_per_chunk = ps_per_chunk st @ [dg_sha256_hex dg (ps_current st @ take n rest)]\<rparr>
      else st\<lparr>ps_current := ps_current st @ take n rest, ps_into := ps_into st + n\<rparr>)"
    have "represents dg st2 (bs @ take n rest)"
    proof (cases "ps_into st + n = CHUNK_SIZE")
      case True
      with cs into n show ?thesis
        by (auto simp: represents_def st2_def intro!: exI [where x = "cs @ [ps_current st @ take n rest]"])
    next
      case False
      with cs into n show ?thesis by (auto simp: represents_def st2_def intro!: exI [where x = cs])
    qed
    moreover have "length (drop n rest) < length rest" using n by simp
    ultimately obtain st' where "feed_read dg (drop n rest) st2 = Some st'"
      and "represents dg st' ((bs @ take n rest) @ drop n rest)"
      using less(1) by blast
    then have "feed_read dg (drop n rest) st2 = Some st'" "represents dg st' (bs @ rest)" by simp_all
    moreover have "feed_read dg rest st = feed_read dg (drop n rest) st2"
      using False by (subst feed_read.simps) (simp add: n_def st2_def Let_def)
    ultimately show ?thesis by simp
  qed
qed

lemma plan_reads_represents:
  assumes "represents dg st bs" and "reads_to_end reads"
  shows "\<exists>st'. plan_reads dg reads bs st = Some (Inr (bs @ file_bytes reads, st')) \<and> represents dg st' (bs @ file_bytes reads)"
  using assms
proof (induction dg reads bs st rule: plan_reads.induct)
  case (3 dg buf reads bs st)
  show ?case
  proof (cases "buf = []")
    case False
    from feed_read_represents [OF 3(2)] obtain st1 where
      "feed_read dg buf st = Some st1" "represents dg st1 (bs @ buf)" by blast
    with 3(1) [OF False this] 3(3) False show ?thesis by simp
  qed (use 3 in simp)
qed simp_all

lemma plan_reads_only_to_end: "plan_reads dg reads bs st = Some (Inr r) \<Longrightarrow> reads_to_end reads"
  by (induction dg reads bs st rule: plan_reads.induct) (auto split: if_splits option.splits)

lemma represents_digests:
  assumes "represents dg st bs"
  shows "(if ps_into st > 0 then ps_per_chunk st @ [dg_sha256_hex dg (ps_current st)] else ps_per_chunk st)
    = chunked_sha256_hex dg bs"
proof -
  from assms obtain cs where "bs = concat cs @ ps_current st" "\<forall>c \<in> set cs. length c = CHUNK_SIZE"
    "ps_per_chunk st = map (dg_sha256_hex dg) cs" "ps_into st = length (ps_current st)" "ps_into st < CHUNK_SIZE"
    by (auto simp: represents_def)
  then show ?thesis by (simp add: chunked_sha256_hex_def chunks_full)
qed

section \<open>The viewer's plan\<close>

lemma first_bad_hash_None: "first_bad_hash i hs = None \<longleftrightarrow> list_all is_64_lowercase_hex hs"
  by (induction i hs rule: first_bad_hash.induct) auto

lemma select_source_Inr:
  "select_source entry peer_id = Inr sel \<longleftrightarrow> is_canonical_peer_id peer_id
     \<and> find (\<lambda>s. src_peer_id s = peer_id) (me_sources entry) = Some (sel_source sel) \<and> sel_peer_id sel = peer_id"
  by (cases sel) (auto simp: select_source_def split: option.splits)

lemma validate_shape_Inr:
  "validate_source_shape s = Inr meta \<longleftrightarrow> src_chunk_size s = CHUNK_SIZE
     \<and> length (src_chunk_hashes s) = src_total_chunks s
     \<and> meta = \<lparr>pls_chunk_size = CHUNK_SIZE, pls_total_chunks = src_total_chunks s\<rparr>"
  by (auto simp: validate_source_shape_def)

definition entry_plannable :: "media_entry \<Rightarrow> rstring \<Rightarrow> source \<Rightarrow> bool" where
  "entry_plannable entry peer_id s \<longleftrightarrow> me_filename entry \<noteq> []
     \<and> is_64_lowercase_hex (me_sha256 entry) \<and> is_64_lowercase_hex (me_blake3 entry)
     \<and> me_size_bytes entry \<noteq> 0 \<and> is_canonical_peer_id peer_id
     \<and> find (\<lambda>s. src_peer_id s = peer_id) (me_sources entry) = Some s
     \<and> src_chunk_size s = CHUNK_SIZE \<and> length (src_chunk_hashes s) = src_total_chunks s
     \<and> src_total_chunks s = total_chunks_for (me_size_bytes entry) CHUNK_SIZE
     \<and> list_all is_64_lowercase_hex (src_chunk_hashes s)"

lemma bounded_hex: "bounded_is_64_lowercase_hex s \<longleftrightarrow> is_64_lowercase_hex s"
  by (auto simp: bounded_is_64_lowercase_hex_def is_64_lowercase_hex_def)

definition bound_plan :: "rstring \<Rightarrow> rstring \<Rightarrow> int \<Rightarrow> media_entry \<Rightarrow> rstring \<Rightarrow> source \<Rightarrow> download_plan" where
  "bound_plan did mid version entry peer_id s =
     \<lparr>dp_download_id = did, dp_media_id = mid, dp_sha256 = me_sha256 entry, dp_blake3 = me_blake3 entry,
      dp_size_bytes = me_size_bytes entry, dp_source = \<lparr>sel_peer_id = peer_id, sel_source = s\<rparr>,
      dp_source_meta = \<lparr>pls_chunk_size = CHUNK_SIZE, pls_total_chunks = src_total_chunks s\<rparr>,
      dp_chunks = map (planned (me_size_bytes entry) CHUNK_SIZE (src_total_chunks s) (src_chunk_hashes s))
                    [0..<src_total_chunks s],
      dp_manifest_version = version\<rparr>"

lemma bound_plan_simps [simp]:
  "dp_download_id (bound_plan did mid version entry peer_id s) = did"
  "dp_media_id (bound_plan did mid version entry peer_id s) = mid"
  "dp_sha256 (bound_plan did mid version entry peer_id s) = me_sha256 entry"
  "dp_blake3 (bound_plan did mid version entry peer_id s) = me_blake3 entry"
  "dp_size_bytes (bound_plan did mid version entry peer_id s) = me_size_bytes entry"
  "sel_source (dp_source (bound_plan did mid version entry peer_id s)) = s"
  "dp_chunks (bound_plan did mid version entry peer_id s)
     = map (planned (me_size_bytes entry) CHUNK_SIZE (src_total_chunks s) (src_chunk_hashes s)) [0..<src_total_chunks s]"
  by (simp_all add: bound_plan_def)

lemma plan_download_Inr:
  "plan_download did mid version entry peer_id = Inr p \<longleftrightarrow>
     (\<exists>s. entry_plannable entry peer_id s \<and> p = bound_plan did mid version entry peer_id s)" (is "?l = Inr p \<longleftrightarrow> ?r")
proof
  assume l: "?l = Inr p"
  then obtain sel where sel: "select_source entry peer_id = Inr sel"
    by (auto simp: plan_download_def split: if_splits sum.splits)
  with l obtain meta where meta: "validate_source_shape (sel_source sel) = Inr meta"
    by (auto simp: plan_download_def split: if_splits sum.splits)
  obtain s where s: "sel = \<lparr>sel_peer_id = peer_id, sel_source = s\<rparr>" using sel by (cases sel) (simp add: select_source_Inr)
  have meta': "meta = \<lparr>pls_chunk_size = CHUNK_SIZE, pls_total_chunks = src_total_chunks s\<rparr>"
    using meta s by (simp add: validate_shape_Inr)
  have none: "first_bad_hash 0 (src_chunk_hashes s) = None"
    using l sel meta unfolding plan_download_def s meta' by (auto simp: Let_def split: if_splits option.splits)
  have "me_filename entry \<noteq> [] \<and> bounded_is_64_lowercase_hex (me_sha256 entry) \<and> bounded_is_64_lowercase_hex (me_blake3 entry)
      \<and> me_size_bytes entry \<noteq> 0 \<and> src_total_chunks s = total_chunks_for (me_size_bytes entry) CHUNK_SIZE"
    using l sel meta none unfolding plan_download_def s meta' by (simp add: Let_def split: if_splits)
  with sel meta none have "entry_plannable entry peer_id s"
    unfolding s meta' by (simp add: select_source_Inr validate_shape_Inr entry_plannable_def bounded_hex first_bad_hash_None)
  moreover have "p = bound_plan did mid version entry peer_id s"
    using l sel meta none unfolding plan_download_def s meta' bound_plan_def by (simp add: Let_def split: if_splits)
  ultimately show ?r by blast
next
  assume ?r
  then obtain s where s: "entry_plannable entry peer_id s" and p: "p = bound_plan did mid version entry peer_id s" by blast
  have "select_source entry peer_id = Inr \<lparr>sel_peer_id = peer_id, sel_source = s\<rparr>"
    using s by (simp add: select_source_Inr entry_plannable_def)
  moreover have "validate_source_shape s = Inr \<lparr>pls_chunk_size = CHUNK_SIZE, pls_total_chunks = src_total_chunks s\<rparr>"
    using s by (simp add: validate_shape_Inr entry_plannable_def)
  moreover have "first_bad_hash 0 (src_chunk_hashes s) = None"
    using s by (simp add: first_bad_hash_None entry_plannable_def)
  ultimately show "?l = Inr p"
    using s p by (simp add: plan_download_def bounded_hex entry_plannable_def bound_plan_def Let_def)
qed

lemma planned_slice:
  assumes bs: "length bs = sz" and sz: "0 < sz" "sz < 2 ^ 64" and i: "i < div_ceil sz CHUNK_SIZE"
  shows "slice bs (planned sz CHUNK_SIZE (div_ceil sz CHUNK_SIZE) hs i) = take CHUNK_SIZE (drop (i * CHUNK_SIZE) bs)"
proof -
  let ?n = "div_ceil sz CHUNK_SIZE"
  note n = div_ceil_bounds [OF CHUNK_SIZE_pos sz(1)]
  have "i * CHUNK_SIZE \<le> (?n - 1) * CHUNK_SIZE" using i by (intro mult_le_mono1) simp
  from this n(2) have off: "i * CHUNK_SIZE < sz" by (rule le_less_trans)
  have "i * CHUNK_SIZE \<le> 2 ^ 64 - 1" using off sz(2) by simp
  then have offset: "pch_offset (planned sz CHUNK_SIZE n hs i) = i * CHUNK_SIZE" for n
    by (simp add: planned_def Let_def min_absorb1)
  show ?thesis
  proof (cases "i + 1 = ?n")
    case True
    then have "sz \<le> i * CHUNK_SIZE + CHUNK_SIZE" using n(3) by (metis add.commute mult_Suc Suc_eq_plus1)
    then have rest: "sz - i * CHUNK_SIZE \<le> CHUNK_SIZE" by simp
    then have "(sz - i * CHUNK_SIZE) mod 2 ^ 32 = sz - i * CHUNK_SIZE" by (simp add: CHUNK_SIZE_def)
    then have "pch_length (planned sz CHUNK_SIZE ?n hs i) = sz - i * CHUNK_SIZE"
      using True offset [of ?n] by (simp add: planned_def Let_def)
    with rest bs show ?thesis by (simp add: slice_def offset)
  next
    case False
    then have "pch_length (planned sz CHUNK_SIZE ?n hs i) = CHUNK_SIZE" by (simp add: planned_def Let_def)
    then show ?thesis by (simp add: slice_def offset)
  qed
qed

lemma planned_lengths:
  "sum_list (map pch_length (map (planned sz c (Suc k) hs) [0..<Suc k]))
     = k * c + (sz - min (k * c) (2 ^ 64 - 1)) mod 2 ^ 32"
proof -
  have "map pch_length (map (planned sz c (Suc k) hs) [0..<k]) = map (\<lambda>_. c) [0..<k]"
    by (auto simp: planned_def Let_def)
  then have "sum_list (map pch_length (map (planned sz c (Suc k) hs) [0..<k])) = k * c"
    unfolding \<open>map pch_length _ = _\<close> by (simp add: sum_list_triv)
  then show ?thesis by (simp add: planned_def Let_def)
qed

lemma truncated_plan_short:
  assumes sz: "0 < sz" "sz < 2 ^ 64" and big: "2 ^ 32 \<le> div_ceil sz CHUNK_SIZE"
    and count: "count = div_ceil sz CHUNK_SIZE mod 2 ^ 32"
  shows "sum_list (map pch_length (map (planned sz CHUNK_SIZE count hs) [0..<count])) < sz"
proof (cases count)
  case 0
  with sz show ?thesis by simp
next
  case (Suc k)
  let ?n = "div_ceil sz CHUNK_SIZE"
  have "?n mod 2 ^ 32 \<le> ?n - 2 ^ 32"
    using big by (metis le_mod_geq mod_less_eq_dividend)
  then have k: "k + 2 ^ 32 \<le> ?n - 1" using Suc count big by linarith
  have "(k + 2 ^ 32) * CHUNK_SIZE \<le> (?n - 1) * CHUNK_SIZE" using k by (rule mult_le_mono1)
  from this div_ceil_bounds(2) [OF CHUNK_SIZE_pos sz(1)] have "(k + 2 ^ 32) * CHUNK_SIZE < sz" by (rule le_less_trans)
  then have "k * CHUNK_SIZE + 2 ^ 32 < sz" by (simp add: CHUNK_SIZE_def algebra_simps)
  moreover have "(sz - min (k * CHUNK_SIZE) (2 ^ 64 - 1)) mod 2 ^ 32 < 2 ^ 32" by simp
  ultimately have "k * CHUNK_SIZE + (sz - min (k * CHUNK_SIZE) (2 ^ 64 - 1)) mod 2 ^ 32 < sz" by linarith
  then show ?thesis unfolding Suc planned_lengths .
qed

lemma plan_slices:
  assumes "plan_download did mid version entry peer_id = Inr p" and "me_size_bytes entry < 2 ^ 64"
    and "div_ceil (me_size_bytes entry) CHUNK_SIZE < 2 ^ 32" and "length bs = me_size_bytes entry"
  shows "map (slice bs) (dp_chunks p) = chunks CHUNK_SIZE bs"
    and "map pch_sha256 (dp_chunks p) = src_chunk_hashes (sel_source (dp_source p))"
proof -
  from assms(1) obtain s where s: "entry_plannable entry peer_id s" and p: "p = bound_plan did mid version entry peer_id s"
    by (auto simp: plan_download_Inr)
  have n: "src_total_chunks s = div_ceil (me_size_bytes entry) CHUNK_SIZE" and sz: "0 < me_size_bytes entry"
    using s assms(3) by (auto simp: entry_plannable_def total_chunks_for_def)
  show "map (slice bs) (dp_chunks p) = chunks CHUNK_SIZE bs"
    using n planned_slice [OF assms(4) sz assms(2)] assms(4) by (auto simp: p chunks_nth [OF CHUNK_SIZE_pos])
  have "length (src_chunk_hashes s) = src_total_chunks s" using s by (simp add: entry_plannable_def)
  then show "map pch_sha256 (dp_chunks p) = src_chunk_hashes (sel_source (dp_source p))"
    using map_nth [of "src_chunk_hashes s"] by (simp add: p planned_def Let_def comp_def)
qed

section \<open>What the host's planner returns\<close>

lemma plan_file_sliced:
  assumes "path \<noteq> []" and "metadata = Inr n" and "n \<noteq> 0" and "opened = Inr ()" and "reads_to_end reads"
  shows "plan_file dg path metadata opened reads
    = Some (Inr \<lparr>cp_full_sha256 = dg_sha256_hex dg (file_bytes reads), cp_full_blake3 = dg_blake3_hex dg (file_bytes reads),
        cp_per_chunk_sha256 = chunked_sha256_hex dg (file_bytes reads), cp_bytes_read = length (file_bytes reads)\<rparr>)"
proof -
  have "represents dg \<lparr>ps_current = [], ps_into = 0, ps_per_chunk = []\<rparr> []"
    by (auto simp: represents_def)
  from plan_reads_represents [OF this assms(5)] obtain st where
    st: "plan_reads dg reads [] \<lparr>ps_current = [], ps_into = 0, ps_per_chunk = []\<rparr> = Some (Inr (file_bytes reads, st))"
      "represents dg st (file_bytes reads)" by auto
  from represents_digests [OF st(2)] assms(1-4) st(1) show ?thesis by (simp add: plan_file_def)
qed

lemma plan_file_Inr:
  assumes "plan_file dg path metadata opened reads = Some (Inr cp)"
  shows "path \<noteq> [] \<and> (\<exists>n. metadata = Inr n \<and> n \<noteq> 0) \<and> opened = Inr () \<and> reads_to_end reads \<and> cp = \<lparr>cp_full_sha256 = dg_sha256_hex dg (file_bytes reads),
    cp_full_blake3 = dg_blake3_hex dg (file_bytes reads),
    cp_per_chunk_sha256 = chunked_sha256_hex dg (file_bytes reads), cp_bytes_read = length (file_bytes reads)\<rparr>"
proof -
  let ?st0 = "\<lparr>ps_current = [], ps_into = 0, ps_per_chunk = []\<rparr>"
  from assms obtain all st where st: "plan_reads dg reads [] ?st0 = Some (Inr (all, st))"
    and cp: "cp = \<lparr>cp_full_sha256 = dg_sha256_hex dg all, cp_full_blake3 = dg_blake3_hex dg all,
      cp_per_chunk_sha256 = (if ps_into st > 0 then ps_per_chunk st @ [dg_sha256_hex dg (ps_current st)] else ps_per_chunk st),
      cp_bytes_read = length all\<rparr>"
    and ok: "path \<noteq> [] \<and> (\<exists>n. metadata = Inr n \<and> n \<noteq> 0) \<and> opened = Inr ()"
    by (auto simp: plan_file_def split: if_splits sum.splits option.splits)
  have "represents dg ?st0 []" by (auto simp: represents_def)
  from plan_reads_represents [OF this plan_reads_only_to_end [OF st]] st
  have "all = file_bytes reads" "represents dg st (file_bytes reads)" by auto
  with represents_digests [of dg st "file_bytes reads"] cp plan_reads_only_to_end [OF st] show ?thesis using ok by simp
qed

section \<open>Properties\<close>


text \<open>
  C39: a plan accepted from a media entry covers the file, chunk by chunk in order and with the
  digests of the entry's source, provided the number of chunks fits in 32 bits; an entry for a
  larger file is accepted too when it declares the truncated count, and its plan is then short
  of the file.
\<close>

theorem plan_covers_file:
  assumes "plan_download did mid version entry peer_id = Inr p" and "me_size_bytes entry < 2 ^ 64"
  shows "map pch_index (dp_chunks p) = [0..<length (dp_chunks p)]
    \<and> map pch_sha256 (dp_chunks p) = src_chunk_hashes (sel_source (dp_source p))
    \<and> sel_source (dp_source p) \<in> set (me_sources entry)
    \<and> (div_ceil (me_size_bytes entry) CHUNK_SIZE < 2 ^ 32 \<longrightarrow>
         (\<forall>bs. length bs = me_size_bytes entry \<longrightarrow> map (slice bs) (dp_chunks p) = chunks CHUNK_SIZE bs))
    \<and> (2 ^ 32 \<le> div_ceil (me_size_bytes entry) CHUNK_SIZE \<longrightarrow>
         sum_list (map pch_length (dp_chunks p)) < me_size_bytes entry)"
proof -
  let ?sz = "me_size_bytes entry"
  from assms(1) obtain s where s: "entry_plannable entry peer_id s"
    and chunks: "dp_chunks p = map (planned ?sz CHUNK_SIZE (src_total_chunks s) (src_chunk_hashes s)) [0..<src_total_chunks s]"
    and sel: "sel_source (dp_source p) = s" by (auto simp: plan_download_Inr)
  have sz: "0 < ?sz" and hs: "length (src_chunk_hashes s) = src_total_chunks s"
    and n: "src_total_chunks s = div_ceil ?sz CHUNK_SIZE mod 2 ^ 32"
    and mem: "s \<in> set (me_sources entry)"
    using s by (auto simp: entry_plannable_def total_chunks_for_def find_Some_iff)
  have "map pch_index (dp_chunks p) = [0..<length (dp_chunks p)]"
    by (simp add: chunks planned_def Let_def comp_def map_idI)
  moreover have "map pch_sha256 (dp_chunks p) = src_chunk_hashes s"
    using hs map_nth [of "src_chunk_hashes s"] by (simp add: chunks planned_def Let_def comp_def)
  moreover have "map (slice bs) (dp_chunks p) = chunks CHUNK_SIZE bs"
    if "div_ceil ?sz CHUNK_SIZE < 2 ^ 32" "length bs = ?sz" for bs
    using plan_slices(1) [OF assms that] .
  moreover have "sum_list (map pch_length (dp_chunks p)) < ?sz" if "2 ^ 32 \<le> div_ceil ?sz CHUNK_SIZE"
    unfolding chunks by (rule truncated_plan_short [OF sz assms(2) that n])
  ultimately show ?thesis using mem sel by blast
qed

section \<open>From host to viewer\<close>

lemma build_entry_fields:
  assumes "build_entry peer_id row cp = Inr entry"
  shows "me_sha256 entry = cp_full_sha256 cp" and "me_blake3 entry = cp_full_blake3 cp"
    and "me_size_bytes entry = cp_bytes_read cp"
    and "me_sources entry = [\<lparr>src_peer_id = peer_id, src_url_hint = None, src_priority = 0,
      src_chunk_size = CHUNK_SIZE, src_total_chunks = total_chunks cp, src_chunk_hashes = cp_per_chunk_sha256 cp\<rparr>]"
  using assms by (auto simp: build_entry_def split: if_splits)

lemma build_entries_entry:
  assumes "build_entries dg lib peer_id rows = Some (Inr entries)" and "entry \<in> set entries"
  shows "\<exists>row cp. row \<in> set rows \<and> build_entry peer_id row cp = Inr entry
    \<and> plan_file dg (mi_relative_path row) (lib_metadata lib (mi_relative_path row)) (lib_open lib (mi_relative_path row))
        (lib_reads lib (mi_relative_path row)) = Some (Inr cp)"
  using assms
proof (induction dg lib peer_id rows arbitrary: entries rule: build_entries.induct)
  case (2 dg lib peer_id row rows)
  from 2(2) obtain cp first rest where
    "plan_file dg (mi_relative_path row) (lib_metadata lib (mi_relative_path row)) (lib_open lib (mi_relative_path row))
        (lib_reads lib (mi_relative_path row)) = Some (Inr cp)" "build_entry peer_id row cp = Inr first"
    "build_entries dg lib peer_id rows = Some (Inr rest)" "entries = first # rest"
    by (auto simp: Let_def split: option.splits sum.splits)
  with 2(1) [OF refl this(1) refl, of first rest] 2(3) show ?case by auto
qed simp

definition hex_digests :: "digests \<Rightarrow> bool" where
  "hex_digests dg \<longleftrightarrow> (\<forall>bs. is_64_lowercase_hex (dg_sha256_hex dg bs) \<and> is_64_lowercase_hex (dg_blake3_hex dg bs))"


text \<open>A library with one file of three bytes, read in two parts.\<close>

definition example_digests :: digests where
  "example_digests = \<lparr>dg_sha256_hex = (\<lambda>bs. replicate 64 97), dg_blake3_hex = (\<lambda>bs. replicate 64 98)\<rparr>"

definition example_reads :: "(string + bytes) list" where "example_reads = [Inr [1, 2], Inr [3], Inr []]"

definition example_item :: media_item where
  "example_item = \<lparr>mi_id = [1], mi_filename = [2], mi_relative_path = [3], mi_size_bytes = 3, mi_mime = [],
     mi_duration_ms = None, mi_width = None, mi_height = None, mi_video_codec = None, mi_audio_codec = None,
     mi_container = None\<rparr>"

definition example_library :: library where
  "example_library = \<lparr>lib_permanent = Inr [example_item], lib_item = (\<lambda>_. Inr None), lib_metadata = (\<lambda>_. Inr 3),
     lib_open = (\<lambda>_. Inr ()), lib_reads = (\<lambda>_. example_reads)\<rparr>"

definition example_source :: source where
  "example_source = \<lparr>src_peer_id = replicate 64 97, src_url_hint = None, src_priority = 0, src_chunk_size = CHUNK_SIZE,
     src_total_chunks = 1, src_chunk_hashes = [replicate 64 97]\<rparr>"

definition example_entry :: media_entry where
  "example_entry = \<lparr>me_id = [1], me_filename = [2], me_sha256 = replicate 64 97, me_blake3 = replicate 64 98,
     me_size_bytes = 3, me_mime = [], me_duration_ms = 0, me_dimensions = None, me_codecs = None,
     me_sources = [example_source]\<rparr>"

lemma example_hex: "is_64_lowercase_hex (replicate 64 97)" "is_64_lowercase_hex (replicate 64 98)"
  "is_canonical_peer_id (replicate 64 97)"
  by (simp_all add: is_64_lowercase_hex_def is_canonical_peer_id_def utf8_len_def utf8_width_def hex_char_def
      list_all_iff sum_list_replicate)

lemma example_entry_plannable: "entry_plannable example_entry (replicate 64 97) example_source"
  by (simp add: entry_plannable_def example_entry_def example_source_def example_hex total_chunks_for_def
      CHUNK_SIZE_def div_ceil_def)

theorem plan_covers_file_witness:
  "map (slice [7, 8, 9]) (dp_chunks (bound_plan [] [] 1 example_entry (replicate 64 97) example_source)) = [[7, 8, 9]]"
proof -
  have "plan_download [] [] 1 example_entry (replicate 64 97)
      = Inr (bound_plan [] [] 1 example_entry (replicate 64 97) example_source)"
    using example_entry_plannable by (auto simp: plan_download_Inr)
  from plan_covers_file [OF this] have "length bs = 3 \<longrightarrow> map (slice bs) (dp_chunks (bound_plan [] [] 1 example_entry
      (replicate 64 97) example_source)) = chunks CHUNK_SIZE bs" for bs
    by (simp add: example_entry_def CHUNK_SIZE_def div_ceil_def)
  from this [of "[7, 8, 9]"] show ?thesis by (simp add: chunks.simps CHUNK_SIZE_def)
qed


end
