(* ===== verification/Names.thy ===== *)
theory Names
  imports Chunking Validation
begin

text \<open>
  File names and library paths of the desktop client: the sanitizer of file names
  (\<open>core/library/sanitize.rs\<close>), the path builders and the validator of library paths
  (\<open>core/paths.rs\<close>). Unicode normalisation is a parameter. What comes out of the sanitizer is one
  plain segment that Windows and POSIX both keep as it is, and every path built for a download
  stays below the library root.
\<close>

section \<open>Sanitizing a file name\<close>

datatype invalid_filename = InvalidFilename

definition MAX_BYTES :: nat where "MAX_BYTES = 255"

text \<open>The characters \<open>< > : " | ? *\<close>.\<close>

definition FORBIDDEN_CHARS :: rstring where "FORBIDDEN_CHARS = [60, 62, 58, 34, 124, 63, 42]"

definition RESERVED_NAMES :: "rstring list" where
  "RESERVED_NAMES = map ascii [''CON'', ''PRN'', ''AUX'', ''NUL'', ''COM1'', ''COM2'', ''COM3'', ''COM4'', ''COM5'',
     ''COM6'', ''COM7'', ''COM8'', ''COM9'', ''LPT1'', ''LPT2'', ''LPT3'', ''LPT4'', ''LPT5'', ''LPT6'', ''LPT7'',
     ''LPT8'', ''LPT9'']"

definition is_control :: "nat \<Rightarrow> bool" where
  "is_control c \<longleftrightarrow> c < 32 \<or> 127 \<le> c \<and> c \<le> 159"

definition ascii_upper :: "nat \<Rightarrow> nat" where
  "ascii_upper c = (if 97 \<le> c \<and> c \<le> 122 then c - 32 else c)"

definition is_reserved_name :: "rstring \<Rightarrow> bool" where
  "is_reserved_name s \<longleftrightarrow> map ascii_upper (takeWhile (\<lambda>c. c \<noteq> 46) s) \<in> set RESERVED_NAMES"

definition is_separator :: "nat \<Rightarrow> bool" where "is_separator c \<longleftrightarrow> c = 92 \<or> c = 47"

definition dot_or_space :: "nat \<Rightarrow> bool" where "dot_or_space c \<longleftrightarrow> c = 46 \<or> c = 32"

definition strip_end :: "(nat \<Rightarrow> bool) \<Rightarrow> rstring \<Rightarrow> rstring" where
  "strip_end f s = rev (dropWhile f (rev s))"

fun truncate_bytes :: "nat \<Rightarrow> rstring \<Rightarrow> rstring" where
  "truncate_bytes used [] = []"
| "truncate_bytes used (c # s) =
     (if used + utf8_width c > MAX_BYTES then [] else c # truncate_bytes (used + utf8_width c) s)"

definition sanitize :: "(rstring \<Rightarrow> rstring) \<Rightarrow> rstring \<Rightarrow> invalid_filename + rstring" where
  "sanitize nfc name =
     (let segment = rev (takeWhile (\<lambda>c. \<not> is_separator c) (rev name))
      in if segment = [] \<or> segment = [46] \<or> segment = [46, 46] then Inl InvalidFilename
      else let buf1 = map (\<lambda>c. if is_control c then 95 else c) segment;
               buf2 = map (\<lambda>c. if c \<in> set FORBIDDEN_CHARS then 95 else c) buf1;
               stripped = strip_end dot_or_space buf2
           in if stripped = [] then Inl InvalidFilename
      else let normal = nfc stripped
           in if is_reserved_name normal then Inl InvalidFilename
      else let out = strip_end dot_or_space (truncate_bytes 0 normal)
           in if out = [] \<or> is_reserved_name out then Inl InvalidFilename else Inr out)"

section \<open>Path builders\<close>

text \<open>A path is the list of its segments; \<open>push\<close> of a relative segment appends it.\<close>

type_synonym path = "rstring list"

datatype path_error = InvalidSha rstring | InvalidDownloadId rstring | InvalidSanitizedFilename rstring

definition is_hexdigit :: "nat \<Rightarrow> bool" where
  "is_hexdigit c \<longleftrightarrow> 48 \<le> c \<and> c \<le> 57 \<or> 65 \<le> c \<and> c \<le> 70 \<or> 97 \<le> c \<and> c \<le> 102"

definition validate_sha :: "rstring \<Rightarrow> path_error + unit" where
  "validate_sha sha =
     (if utf8_len sha \<noteq> 64 then Inl (InvalidSha sha)
      else if \<not> list_all is_hexdigit sha then Inl (InvalidSha sha)
      else if list_ex (\<lambda>c. 65 \<le> c \<and> c \<le> 90) sha then Inl (InvalidSha sha)
      else Inr ())"

definition check_download_id :: "rstring \<Rightarrow> path_error + unit" where
  "check_download_id did =
     (if did = [] then Inl (InvalidDownloadId did)
      else if did = [46] \<or> did = [46, 46] then Inl (InvalidDownloadId did)
      else if \<not> list_all (\<lambda>c. hex_char c \<or> c = 45) did then Inl (InvalidDownloadId did)
      else Inr ())"

definition check_sanitized :: "rstring \<Rightarrow> path_error + unit" where
  "check_sanitized name =
     (if name = [] then Inl (InvalidSanitizedFilename name)
      else if list_ex (\<lambda>c. is_separator c \<or> c = 0) name then Inl (InvalidSanitizedFilename name)
      else Inr ())"

definition content_addressed_path :: "path \<Rightarrow> rstring \<Rightarrow> rstring \<Rightarrow> path_error + path" where
  "content_addressed_path root sha name =
     (case validate_sha sha of
        Inl e \<Rightarrow> Inl e
      | Inr _ \<Rightarrow>
          (case check_sanitized name of
             Inl e \<Rightarrow> Inl e
           | Inr _ \<Rightarrow> Inr (root @ [ascii ''library'', take 2 sha, take 2 (drop 2 sha), sha, name])))"

definition staging_partial_path :: "path \<Rightarrow> rstring \<Rightarrow> rstring \<Rightarrow> path_error + path" where
  "staging_partial_path root did sha =
     (case validate_sha sha of
        Inl e \<Rightarrow> Inl e
      | Inr _ \<Rightarrow>
          (case check_download_id did of
             Inl e \<Rightarrow> Inl e
           | Inr _ \<Rightarrow> Inr (root @ [ascii ''tmp'', ascii ''staging'', did, sha @ ascii ''.partial''])))"

text \<open>The decimal digits of a number, as \<open>format!\<close> prints it.\<close>

fun decimal :: "nat \<Rightarrow> rstring" where
  "decimal n = (if n < 10 then [48 + n] else decimal (n div 10) @ [48 + n mod 10])"

declare decimal.simps [simp del]

definition incomplete_chunk_path :: "path \<Rightarrow> rstring \<Rightarrow> nat \<Rightarrow> path_error + path" where
  "incomplete_chunk_path root did i =
     (case check_download_id did of
        Inl e \<Rightarrow> Inl e
      | Inr _ \<Rightarrow> Inr (root @ [ascii ''tmp'', ascii ''incomplete'', did, did @ ascii ''.part.'' @ decimal i]))"

section \<open>The validator of library paths\<close>

datatype library_path_error =
  LpEmpty
| AbsolutePath
| ParentTraversal
| BackslashSeparator
| ReservedName rstring
| NulByte
| SegmentTooLong rstring
| PathTooLong
| ControlCharacter rstring
| NotNfc rstring
| EscapesLibraryRoot
| NotAFile
| LpIoError string
| LpNotFound

text \<open>The file system: resolving a path, where \<open>None\<close> is NotFound, and whether it is a regular file.\<close>

record file_view =
  fv_canonicalize :: "path \<Rightarrow> string option + path"
  fv_is_file :: "path \<Rightarrow> string + bool"

text \<open>\<open>split('/')\<close>: the segments between separators, empty ones included.\<close>

fun split_slash :: "rstring \<Rightarrow> rstring list" where
  "split_slash [] = [[]]"
| "split_slash (c # s) =
     (if c = 47 then [] # split_slash s
      else case split_slash s of [] \<Rightarrow> [[c]] | seg # segs \<Rightarrow> (c # seg) # segs)"

definition check_segment :: "rstring \<Rightarrow> library_path_error + unit" where
  "check_segment seg =
     (if seg = [] then Inl AbsolutePath
      else if utf8_len seg > 255 then Inl (SegmentTooLong seg)
      else if seg = [46] \<or> seg = [46, 46] then Inl ParentTraversal
      else let base = strip_end is_white_space (takeWhile (\<lambda>c. c \<noteq> 46) (map ascii_upper seg))
           in if base \<in> set RESERVED_NAMES \<or> base = ascii ''CONIN$'' \<or> base = ascii ''CONOUT$''
              then Inl (ReservedName seg)
              else if 58 \<in> set seg \<or> last seg = 46 \<or> last seg = 32 then Inl (ReservedName seg)
              else if list_ex is_control seg then Inl (ControlCharacter seg)
              else Inr ())"

fun check_segments :: "rstring list \<Rightarrow> library_path_error + unit" where
  "check_segments [] = Inr ()"
| "check_segments (seg # segs) =
     (case check_segment seg of Inl e \<Rightarrow> Inl e | Inr _ \<Rightarrow> check_segments segs)"

definition starts_with :: "path \<Rightarrow> path \<Rightarrow> bool" where
  "starts_with root p \<longleftrightarrow> take (length root) p = root"

definition validate_library_path ::
    "(rstring \<Rightarrow> rstring) \<Rightarrow> file_view \<Rightarrow> path \<Rightarrow> rstring \<Rightarrow> library_path_error + path" where
  "validate_library_path nfc fv root rel =
     (if rel = [] then Inl LpEmpty
      else if utf8_len rel > 4096 then Inl PathTooLong
      else if is_separator (hd rel) \<or> utf8_len rel \<ge> 2 \<and> utf8_width (hd rel) = 1 \<and> rel ! 1 = 58
      then Inl AbsolutePath
      else if 92 \<in> set rel then Inl BackslashSeparator
      else if 0 \<in> set rel then Inl NulByte
      else if list_ex is_control rel then Inl (ControlCharacter rel)
      else if rel \<noteq> nfc rel then Inl (NotNfc rel)
      else let segs = split_slash rel
           in case check_segments segs of
                Inl e \<Rightarrow> Inl e
              | Inr _ \<Rightarrow>
                  if sum_list (map utf8_len segs) + (length segs - 1) > 4096 then Inl PathTooLong
                  else (case fv_canonicalize fv root of
                    Inl e \<Rightarrow> Inl (LpIoError (case e of None \<Rightarrow> ''not found'' | Some m \<Rightarrow> m))
                  | Inr croot \<Rightarrow>
                      (case fv_canonicalize fv (root @ segs) of
                         Inl None \<Rightarrow> Inl LpNotFound
                       | Inl (Some m) \<Rightarrow> Inl (LpIoError m)
                       | Inr canonical \<Rightarrow>
                           if \<not> starts_with croot canonical then Inl EscapesLibraryRoot
                           else (case fv_is_file fv (root @ segs) of
                                   Inl m \<Rightarrow> Inl (LpIoError m)
                                 | Inr False \<Rightarrow> Inl NotAFile
                                 | Inr True \<Rightarrow> Inr canonical))))"

section \<open>What the sanitizer returns\<close>

definition name_ok :: "rstring \<Rightarrow> bool" where
  "name_ok s \<longleftrightarrow> s \<noteq> [] \<and> utf8_len s \<le> MAX_BYTES \<and> \<not> dot_or_space (last s) \<and> \<not> is_reserved_name s
     \<and> (\<forall>c \<in> set s. \<not> is_control c \<and> c \<notin> set FORBIDDEN_CHARS \<and> \<not> is_separator c)"

text \<open>Normalisation composes letters; it never introduces a separator, a control or a forbidden character.\<close>

definition nfc_adds_letters :: "(rstring \<Rightarrow> rstring) \<Rightarrow> bool" where
  "nfc_adds_letters nfc \<longleftrightarrow>
     (\<forall>s. \<forall>c \<in> set (nfc s). c \<in> set s \<or> \<not> is_control c \<and> c \<notin> set FORBIDDEN_CHARS \<and> \<not> is_separator c)"

lemma strip_end_set: "set (strip_end f s) \<subseteq> set s"
  by (auto simp: strip_end_def dest: set_dropWhileD)

lemma strip_end_last: "strip_end f s \<noteq> [] \<Longrightarrow> \<not> f (last (strip_end f s))"
  by (simp add: strip_end_def last_rev hd_dropWhile)

lemma strip_end_id: "s \<noteq> [] \<Longrightarrow> \<not> f (last s) \<Longrightarrow> strip_end f s = s"
  by (cases s rule: rev_cases) (auto simp: strip_end_def)

lemma utf8_len_append [simp]: "utf8_len (s @ t) = utf8_len s + utf8_len t"
  by (simp add: utf8_len_def)

lemma strip_end_prefix: "\<exists>t. s = strip_end f s @ t"
proof -
  have "rev s = takeWhile f (rev s) @ dropWhile f (rev s)" by simp
  then have "s = rev (dropWhile f (rev s)) @ rev (takeWhile f (rev s))" by (metis rev_append rev_rev_ident)
  then show ?thesis unfolding strip_end_def by blast
qed

lemma truncate_bytes_len: "used \<le> MAX_BYTES \<Longrightarrow> used + utf8_len (truncate_bytes used s) \<le> MAX_BYTES"
  by (induction used s rule: truncate_bytes.induct) (auto simp: utf8_len_def)

lemma truncate_bytes_set: "set (truncate_bytes used s) \<subseteq> set s"
  by (induction used s rule: truncate_bytes.induct) auto

lemma truncate_bytes_id: "used + utf8_len s \<le> MAX_BYTES \<Longrightarrow> truncate_bytes used s = s"
  by (induction used s rule: truncate_bytes.induct) (auto simp: utf8_len_def)

lemma sanitize_name_ok:
  assumes "sanitize nfc name = Inr out" and "nfc_adds_letters nfc"
  shows "name_ok out"
proof -
  define segment where "segment = rev (takeWhile (\<lambda>c. \<not> is_separator c) (rev name))"
  define buf where "buf = map (\<lambda>c. if c \<in> set FORBIDDEN_CHARS then 95 else c) (map (\<lambda>c. if is_control c then 95 else c) segment)"
  define stripped where "stripped = strip_end dot_or_space buf"
  have out: "out = strip_end dot_or_space (truncate_bytes 0 (nfc stripped))" "out \<noteq> []" "\<not> is_reserved_name out"
    using assms(1) unfolding sanitize_def stripped_def buf_def segment_def by (auto simp: Let_def split: if_splits)
  have "\<not> is_separator c" if "c \<in> set segment" for c
    using that by (auto simp: segment_def dest: set_takeWhileD)
  then have "\<not> is_control c \<and> c \<notin> set FORBIDDEN_CHARS \<and> \<not> is_separator c" if "c \<in> set buf" for c
    using that by (auto simp: buf_def is_control_def is_separator_def FORBIDDEN_CHARS_def)
  with strip_end_set [of dot_or_space buf] have
    "\<not> is_control c \<and> c \<notin> set FORBIDDEN_CHARS \<and> \<not> is_separator c" if "c \<in> set (nfc stripped)" for c
    using that assms(2) unfolding nfc_adds_letters_def stripped_def by blast
  moreover have "set out \<subseteq> set (nfc stripped)"
    using strip_end_set truncate_bytes_set unfolding out(1) by (metis subset_trans)
  moreover have "utf8_len out \<le> MAX_BYTES"
  proof -
    obtain t where "truncate_bytes 0 (nfc stripped) = out @ t" using strip_end_prefix out(1) by metis
    with truncate_bytes_len [of 0 "nfc stripped"] show ?thesis by simp
  qed
  moreover have "\<not> dot_or_space (last out)" using strip_end_last out(1,2) by metis
  ultimately show ?thesis using out(2,3) by (auto simp: name_ok_def)
qed

lemma sanitize_keeps:
  assumes "name_ok name" and "nfc name = name"
  shows "sanitize nfc name = Inr name"
proof -
  have segment: "rev (takeWhile (\<lambda>c. \<not> is_separator c) (rev name)) = name"
    using assms(1) by (subst takeWhile_eq_all_conv [THEN iffD2]) (auto simp: name_ok_def)
  have dots: "name \<noteq> [46]" "name \<noteq> [46, 46]" using assms(1) by (auto simp: name_ok_def dot_or_space_def)
  have maps: "map (\<lambda>c. if is_control c then 95 else c) name = name" "map (\<lambda>c. if c \<in> set FORBIDDEN_CHARS then 95 else c) name = name"
    using assms(1) by (auto simp: name_ok_def intro: map_idI)
  have strip: "strip_end dot_or_space name = name" and cut: "truncate_bytes 0 name = name"
    using assms(1) by (auto simp: name_ok_def intro: strip_end_id truncate_bytes_id)
  show ?thesis
    using assms by (simp add: sanitize_def Let_def segment dots maps strip cut name_ok_def)
qed

section \<open>Paths\<close>

definition plain_segment :: "rstring \<Rightarrow> bool" where
  "plain_segment seg \<longleftrightarrow> seg \<noteq> [] \<and> seg \<noteq> [46] \<and> seg \<noteq> [46, 46] \<and> (\<forall>c \<in> set seg. \<not> is_separator c \<and> c \<noteq> 0)"

lemma name_ok_plain: "name_ok s \<Longrightarrow> plain_segment s"
  by (auto simp: name_ok_def plain_segment_def dot_or_space_def is_control_def)

lemma plain_ascii: "s \<noteq> [] \<Longrightarrow> \<forall>c \<in> set s. c \<noteq> 46 \<and> \<not> is_separator c \<and> c \<noteq> 0 \<Longrightarrow> plain_segment s"
  by (cases s) (auto simp: plain_segment_def)

lemma plain_prefixed: "s \<noteq> [] \<Longrightarrow> \<forall>c \<in> set s. c \<noteq> 46 \<and> \<not> is_separator c \<and> c \<noteq> 0 \<Longrightarrow>
    \<forall>c \<in> set t. \<not> is_separator c \<and> c \<noteq> 0 \<Longrightarrow> plain_segment (s @ t)"
  by (cases s) (auto simp: plain_segment_def)

lemma validate_sha_plain:
  assumes "validate_sha sha = Inr u"
  shows "sha \<noteq> [] \<and> 64 = length sha \<and> (\<forall>c \<in> set sha. c \<noteq> 46 \<and> \<not> is_separator c \<and> c \<noteq> 0)"
proof -
  have hex: "\<forall>c \<in> set sha. is_hexdigit c" and len: "utf8_len sha = 64"
    using assms by (auto simp: validate_sha_def list_all_iff split: if_splits)
  have "map utf8_width sha = map (\<lambda>_. 1) sha" using hex by (auto simp: utf8_width_def is_hexdigit_def)
  with len have "length sha = 64" unfolding utf8_len_def by (simp only: sum_list_triv) simp
  with hex show ?thesis by (auto simp: is_hexdigit_def is_separator_def)
qed

lemma download_id_plain:
  "check_download_id did = Inr u \<Longrightarrow> did \<noteq> [] \<and> (\<forall>c \<in> set did. c \<noteq> 46 \<and> \<not> is_separator c \<and> c \<noteq> 0)"
  by (auto simp: check_download_id_def list_all_iff hex_char_def is_separator_def split: if_splits)

lemma decimal_digits: "\<forall>c \<in> set (decimal n). 48 \<le> c \<and> c \<le> 57"
  by (induction n rule: decimal.induct) (subst decimal.simps, auto)

lemma decimal_value: "foldl (\<lambda>a d. a * 10 + (d - 48)) 0 (decimal n) = n"
proof (induction n rule: decimal.induct)
  case (1 n)
  then show ?case by (subst decimal.simps) (simp add: div_mult_mod_eq)
qed

lemma decimal_inject: "decimal m = decimal n \<Longrightarrow> m = n"
  by (metis decimal_value)

lemma incomplete_path_inject:
  assumes "incomplete_chunk_path root did i = Inr p" and "incomplete_chunk_path root did' j = Inr p"
  shows "did = did' \<and> i = j"
  using assms by (auto simp: incomplete_chunk_path_def split: sum.splits dest: decimal_inject)

lemma plain_literals: "plain_segment (ascii ''library'')" "plain_segment (ascii ''tmp'')"
  "plain_segment (ascii ''staging'')" "plain_segment (ascii ''incomplete'')"
  by (simp_all add: plain_segment_def ascii_def is_separator_def)

lemma content_path_plain:
  assumes "content_addressed_path root sha name = Inr p" and "plain_segment name"
  shows "\<exists>segs. p = root @ segs \<and> list_all plain_segment segs"
proof -
  from assms(1) have sha: "validate_sha sha = Inr ()"
    and p: "p = root @ [ascii ''library'', take 2 sha, take 2 (drop 2 sha), sha, name]"
    by (auto simp: content_addressed_path_def split: sum.splits)
  note chars = validate_sha_plain [OF sha]
  have part: "plain_segment t" if "t \<noteq> []" "set t \<subseteq> set sha" for t
    using that chars by (intro plain_ascii) auto
  have "take 2 sha \<noteq> []" "take 2 (drop 2 sha) \<noteq> []" using chars by auto
  moreover have "set (take 2 sha) \<subseteq> set sha" by (rule set_take_subset)
  moreover have "set (take 2 (drop 2 sha)) \<subseteq> set sha"
    using set_take_subset [of 2 "drop 2 sha"] set_drop_subset [of 2 sha] by (rule subset_trans)
  ultimately have "plain_segment (take 2 sha)" "plain_segment (take 2 (drop 2 sha))" "plain_segment sha"
    using chars by (simp_all add: part)
  with p assms(2) plain_literals show ?thesis by simp
qed

lemma staging_path_plain:
  assumes "staging_partial_path root did sha = Inr p"
  shows "\<exists>segs. p = root @ segs \<and> list_all plain_segment segs"
proof -
  from assms have sha: "validate_sha sha = Inr ()" and did: "check_download_id did = Inr ()"
    and p: "p = root @ [ascii ''tmp'', ascii ''staging'', did, sha @ ascii ''.partial'']"
    by (auto simp: staging_partial_path_def split: sum.splits)
  have "\<forall>c \<in> set (ascii ''.partial''). \<not> is_separator c \<and> c \<noteq> 0" by (simp add: ascii_def is_separator_def)
  with validate_sha_plain [OF sha] have "plain_segment (sha @ ascii ''.partial'')" by (blast intro: plain_prefixed)
  moreover have "plain_segment did" using download_id_plain [OF did] by (blast intro: plain_ascii)
  ultimately show ?thesis using p plain_literals by simp
qed

lemma incomplete_path_plain:
  assumes "incomplete_chunk_path root did i = Inr p"
  shows "\<exists>segs. p = root @ segs \<and> list_all plain_segment segs"
proof -
  from assms have did: "check_download_id did = Inr ()"
    and p: "p = root @ [ascii ''tmp'', ascii ''incomplete'', did, did @ ascii ''.part.'' @ decimal i]"
    by (auto simp: incomplete_chunk_path_def split: sum.splits)
  have "\<forall>c \<in> set (ascii ''.part.'' @ decimal i). \<not> is_separator c \<and> c \<noteq> 0"
    using decimal_digits [of i] by (auto simp: ascii_def is_separator_def)
  with download_id_plain [OF did] have "plain_segment (did @ ascii ''.part.'' @ decimal i)" by (blast intro: plain_prefixed)
  moreover have "plain_segment did" using download_id_plain [OF did] by (blast intro: plain_ascii)
  ultimately show ?thesis using p plain_literals by simp
qed

section \<open>Properties\<close>

text \<open>
  Whatever name it is given, the sanitizer returns a plain name of at most 255 bytes with no
  separator, control or forbidden character, that is no reserved device name and does not end
  in a dot or a space; and it leaves such a name as it is, so sanitizing again changes nothing.
\<close>

theorem sanitized_names_plain:
  assumes "nfc_adds_letters nfc"
  shows "(sanitize nfc name = Inr out \<longrightarrow> name_ok out)
    \<and> (name_ok name \<and> nfc name = name \<longrightarrow> sanitize nfc name = Inr name)"
  using sanitize_name_ok [OF _ assms] sanitize_keeps by blast

text \<open>
  C21: the paths built for a download, from a digest, a download id and a sanitized name, lie
  below the library root through plain segments only, and two chunks never share a file.
\<close>

theorem download_paths_contained:
  assumes "nfc_adds_letters nfc" and "sanitize nfc name = Inr out"
  shows "(content_addressed_path root sha out = Inr p \<longrightarrow> (\<exists>segs. p = root @ segs \<and> list_all plain_segment segs))
    \<and> (staging_partial_path root did sha = Inr p \<longrightarrow> (\<exists>segs. p = root @ segs \<and> list_all plain_segment segs))
    \<and> (incomplete_chunk_path root did i = Inr p \<longrightarrow> (\<exists>segs. p = root @ segs \<and> list_all plain_segment segs))
    \<and> (incomplete_chunk_path root did i = Inr p \<and> incomplete_chunk_path root did' j = Inr p \<longrightarrow> did = did' \<and> i = j)"
proof -
  have out: "plain_segment out" using sanitize_name_ok [OF assms(2,1)] by (rule name_ok_plain)
  show ?thesis
    using content_path_plain [OF _ out] staging_path_plain incomplete_path_plain incomplete_path_inject by blast
qed

theorem sanitized_names_plain_witness: "name_ok (ascii ''film.mkv'')"
proof -
  have "nfc_adds_letters id" by (simp add: nfc_adds_letters_def)
  from sanitized_names_plain [OF this, of "ascii ''../film.mkv. ''" "ascii ''film.mkv''"]
  show ?thesis
    by (simp add: sanitize_def ascii_def is_separator_def is_control_def FORBIDDEN_CHARS_def strip_end_def
        dot_or_space_def is_reserved_name_def RESERVED_NAMES_def ascii_upper_def utf8_width_def MAX_BYTES_def Let_def)
qed

theorem download_paths_contained_witness:
  "\<exists>segs. the (case incomplete_chunk_path [[104]] (ascii ''0a-1'') 12 of Inr p \<Rightarrow> Some p | Inl _ \<Rightarrow> None) = [[104]] @ segs
     \<and> list_all plain_segment segs"
proof -
  have "nfc_adds_letters id" by (simp add: nfc_adds_letters_def)
  moreover have "sanitize id (ascii ''film.mkv'') = Inr (ascii ''film.mkv'')"
    by (simp add: sanitize_def ascii_def is_separator_def is_control_def FORBIDDEN_CHARS_def strip_end_def
        dot_or_space_def is_reserved_name_def RESERVED_NAMES_def ascii_upper_def utf8_width_def MAX_BYTES_def Let_def)
  moreover have "incomplete_chunk_path [[104]] (ascii ''0a-1'') 12 = Inr ([[104]] @ [ascii ''tmp'', ascii ''incomplete'',
      ascii ''0a-1'', ascii ''0a-1'' @ ascii ''.part.'' @ decimal 12])" (is "_ = Inr ?p")
    by (simp add: incomplete_chunk_path_def check_download_id_def ascii_def hex_char_def)
  ultimately show ?thesis
    using download_paths_contained [of id "ascii ''film.mkv''" "ascii ''film.mkv''" "[[104]]" "[]" ?p "ascii ''0a-1''" 12] by simp
qed

end
