(* ===== verification/TransferWire.thy ===== *)
theory TransferWire
  imports Names
begin

text \<open>
  The framing between a source and a viewer, \<open>transfer/wire.rs\<close>: the closed set of frames, their
  validation, and the length-prefixed codec. JSON is a parameter.
\<close>

section \<open>Frames\<close>

definition MAX_FRAME_BYTES :: nat where "MAX_FRAME_BYTES = 1024 * 1024"
definition MAX_ERROR_LEN :: nat where "MAX_ERROR_LEN = 512"

datatype frame_kind = FkHello | FkOffer | FkRequest | FkChunk | FkAck | FkNak | FkCancel | FkError

record hello_frame =
  hf_peer_id :: rstring
  hf_download_id :: rstring
  hf_media_id :: rstring
  hf_manifest_version :: int
  hf_have_chunks :: "nat list"

record offer_frame =
  of_peer_id :: rstring
  of_download_id :: rstring
  of_media_id :: rstring
  of_manifest_version :: int
  of_total_bytes :: nat
  of_chunk_size_bytes :: nat
  of_total_chunks :: nat
  of_sha256 :: rstring
  of_blake3 :: rstring
  of_filename :: rstring

record request_frame =
  rf_download_id :: rstring
  rf_chunk_index :: nat

record chunk_frame =
  cf_download_id :: rstring
  cf_chunk_index :: nat
  cf_bytes_b64 :: rstring
  cf_sha256 :: rstring

record ack_frame =
  af_download_id :: rstring
  af_chunk_index :: nat

record nak_frame =
  nf_download_id :: rstring
  nf_chunk_index :: nat
  nf_expected_sha256 :: rstring

record cancel_frame =
  xf_download_id :: rstring
  xf_reason :: rstring

record error_frame =
  ef_download_id :: rstring
  ef_reason :: rstring

datatype frame =
  Hello hello_frame
| Offer offer_frame
| Request request_frame
| ChunkFrame chunk_frame
| Ack ack_frame
| Nak nak_frame
| CancelFrame cancel_frame
| ErrorFrame error_frame

fun frame_kind_of :: "frame \<Rightarrow> frame_kind" where
  "frame_kind_of (Hello _) = FkHello"
| "frame_kind_of (Offer _) = FkOffer"
| "frame_kind_of (Request _) = FkRequest"
| "frame_kind_of (ChunkFrame _) = FkChunk"
| "frame_kind_of (Ack _) = FkAck"
| "frame_kind_of (Nak _) = FkNak"
| "frame_kind_of (CancelFrame _) = FkCancel"
| "frame_kind_of (ErrorFrame _) = FkError"

text \<open>The error values; the texts inside \<open>Malformed\<close> and \<open>Io\<close> are reduced to a label.\<close>

datatype wire_error =
  UnknownKind
| InvalidLength nat
| Malformed string
| WInvalidDownloadId rstring
| WInvalidMediaId rstring
| WInvalidPeerId rstring
| InvalidHash rstring
| WInvalidFilename
| WChunkIndexOutOfRange nat nat
| WInvalidManifestVersion int
| ErrorReasonTooLong nat nat
| ErrorReasonEmpty
| WireIo string

section \<open>Validation\<close>

definition wire_check_download_id :: "rstring \<Rightarrow> wire_error + unit" where
  "wire_check_download_id s =
     (if s = [] \<or> utf8_len s > 64 then Inl (WInvalidDownloadId s)
      else if \<not> list_all (\<lambda>c. hex_char c \<or> c = 45) s then Inl (WInvalidDownloadId s)
      else Inr ())"

definition check_64_lowercase_hex :: "rstring \<Rightarrow> wire_error + unit" where
  "check_64_lowercase_hex s =
     (if utf8_len s \<noteq> 64 then Inl (InvalidHash s)
      else if \<not> list_all hex_char s then Inl (InvalidHash s)
      else Inr ())"

definition check_binding :: "rstring \<Rightarrow> rstring \<Rightarrow> rstring \<Rightarrow> int \<Rightarrow> wire_error + unit" where
  "check_binding did peer_id media_id version =
     (case wire_check_download_id did of
        Inl e \<Rightarrow> Inl e
      | Inr _ \<Rightarrow>
          if \<not> is_canonical_peer_id peer_id then Inl (WInvalidPeerId peer_id)
          else if media_id = [] \<or> utf8_len media_id > 64 then Inl (WInvalidMediaId media_id)
          else if version < 1 then Inl (WInvalidManifestVersion version)
          else Inr ())"

definition check_reason :: "rstring \<Rightarrow> wire_error + unit" where
  "check_reason reason =
     (if reason = [] then Inl ErrorReasonEmpty
      else if utf8_len reason > MAX_ERROR_LEN then Inl (ErrorReasonTooLong (utf8_len reason) MAX_ERROR_LEN)
      else Inr ())"

fun validate_frame :: "(rstring \<Rightarrow> rstring) \<Rightarrow> frame \<Rightarrow> wire_error + unit" where
  "validate_frame nfc (Hello x) =
     (case check_binding (hf_download_id x) (hf_peer_id x) (hf_media_id x) (hf_manifest_version x) of
        Inl e \<Rightarrow> Inl e
      | Inr _ \<Rightarrow> if 2 ^ 32 - 1 \<in> set (hf_have_chunks x) then Inl (WChunkIndexOutOfRange (2 ^ 32 - 1) (2 ^ 32 - 1)) else Inr ())"
| "validate_frame nfc (Offer x) =
     (case check_binding (of_download_id x) (of_peer_id x) (of_media_id x) (of_manifest_version x) of
        Inl e \<Rightarrow> Inl e
      | Inr _ \<Rightarrow>
     (case check_64_lowercase_hex (of_sha256 x) of
        Inl e \<Rightarrow> Inl e
      | Inr _ \<Rightarrow>
     (case check_64_lowercase_hex (of_blake3 x) of
        Inl e \<Rightarrow> Inl e
      | Inr _ \<Rightarrow> (case sanitize nfc (of_filename x) of Inl _ \<Rightarrow> Inl WInvalidFilename | Inr _ \<Rightarrow> Inr ()))))"
| "validate_frame nfc (Request x) = wire_check_download_id (rf_download_id x)"
| "validate_frame nfc (ChunkFrame x) =
     (case wire_check_download_id (cf_download_id x) of Inl e \<Rightarrow> Inl e | Inr _ \<Rightarrow> check_64_lowercase_hex (cf_sha256 x))"
| "validate_frame nfc (Ack x) = wire_check_download_id (af_download_id x)"
| "validate_frame nfc (Nak x) =
     (case wire_check_download_id (nf_download_id x) of
        Inl e \<Rightarrow> Inl e | Inr _ \<Rightarrow> check_64_lowercase_hex (nf_expected_sha256 x))"
| "validate_frame nfc (CancelFrame x) =
     (case wire_check_download_id (xf_download_id x) of Inl e \<Rightarrow> Inl e | Inr _ \<Rightarrow> check_reason (xf_reason x))"
| "validate_frame nfc (ErrorFrame x) =
     (case wire_check_download_id (ef_download_id x) of Inl e \<Rightarrow> Inl e | Inr _ \<Rightarrow> check_reason (ef_reason x))"

section \<open>The codec\<close>

text \<open>\<open>serde_json\<close> for frames, and Unicode normalisation.\<close>

record wire_json =
  wj_to_vec :: "frame \<Rightarrow> bytes option"
  wj_from_slice :: "bytes \<Rightarrow> frame option"
  wj_nfc :: "rstring \<Rightarrow> rstring"

definition to_be_bytes :: "nat \<Rightarrow> bytes" where
  "to_be_bytes n = [of_nat (n div 2 ^ 24), of_nat (n div 2 ^ 16), of_nat (n div 2 ^ 8), of_nat n]"

definition from_be_bytes :: "bytes \<Rightarrow> nat" where
  "from_be_bytes bs = unat (bs ! 0) * 2 ^ 24 + unat (bs ! 1) * 2 ^ 16 + unat (bs ! 2) * 2 ^ 8 + unat (bs ! 3)"

definition encode_frame :: "wire_json \<Rightarrow> frame \<Rightarrow> bytes \<Rightarrow> wire_error + bytes" where
  "encode_frame wj f out =
     (case wj_to_vec wj f of
        None \<Rightarrow> Inl (Malformed ''encode'')
      | Some payload \<Rightarrow>
          if length payload > MAX_FRAME_BYTES then Inl (InvalidLength (length payload mod 2 ^ 32))
          else Inr (out @ to_be_bytes (length payload) @ payload))"

definition decode_frame :: "wire_json \<Rightarrow> bytes \<Rightarrow> wire_error + frame \<times> nat" where
  "decode_frame wj bs =
     (if length bs < 4 then Inl (WireIo ''short read'')
      else let len = from_be_bytes (take 4 bs)
           in if len = 0 then Inl (InvalidLength 0)
              else if len > MAX_FRAME_BYTES then Inl (InvalidLength len)
              else if length bs < 4 + len then Inl (WireIo ''short read'')
              else (case wj_from_slice wj (take len (drop 4 bs)) of
                      None \<Rightarrow> Inl (Malformed ''decode'')
                    | Some f \<Rightarrow>
                        (case validate_frame (wj_nfc wj) f of Inl e \<Rightarrow> Inl e | Inr _ \<Rightarrow> Inr (f, 4 + len))))"

function decode_from :: "wire_json \<Rightarrow> bytes \<Rightarrow> nat \<Rightarrow> frame list \<Rightarrow> wire_error + frame list \<times> nat" where
  "decode_from wj bs cursor out =
     (if cursor < length bs
      then (if length bs - cursor < 4 then Inl (WireIo ''trailing'')
            else let len = from_be_bytes (take 4 (drop cursor bs))
                 in if len = 0 \<or> len > MAX_FRAME_BYTES then Inl (InvalidLength len)
                    else if length bs - cursor < 4 + len then Inl (WireIo ''short read'')
                    else (case wj_from_slice wj (take len (drop (cursor + 4) bs)) of
                            None \<Rightarrow> Inl (Malformed ''decode'')
                          | Some f \<Rightarrow>
                              (case validate_frame (wj_nfc wj) f of
                                 Inl e \<Rightarrow> Inl e
                               | Inr _ \<Rightarrow> decode_from wj bs (cursor + (4 + len)) (out @ [f]))))
      else Inr (out, cursor))"
  by pat_completeness auto
termination by (relation "measure (\<lambda>(wj, bs, cursor, out). length bs - cursor)") auto

declare decode_from.simps [simp del]

definition decode_stream :: "wire_json \<Rightarrow> bytes \<Rightarrow> wire_error + frame list \<times> nat" where
  "decode_stream wj bs = decode_from wj bs 0 []"

section \<open>Lengths\<close>

lemma length_to_be_bytes [simp]: "length (to_be_bytes n) = 4"
  by (simp add: to_be_bytes_def)

lemma from_to_be_bytes:
  assumes "n < 2 ^ 32"
  shows "from_be_bytes (to_be_bytes n) = n"
proof -
  define q1 q2 q3 where "q1 = n div 256" and "q2 = q1 div 256" and "q3 = q2 div 256"
  have divs: "n div 2 ^ 8 = q1" "n div 2 ^ 16 = q2" "n div 2 ^ 24 = q3"
    by (simp_all add: q1_def q2_def q3_def div_mult2_eq [symmetric])
  have "q3 < 256" using assms by (simp add: q1_def q2_def q3_def div_mult2_eq [symmetric] less_mult_imp_div_less)
  then have "from_be_bytes (to_be_bytes n) = q3 * 2 ^ 24 + q2 mod 256 * 2 ^ 16 + q1 mod 256 * 2 ^ 8 + n mod 256"
    unfolding from_be_bytes_def to_be_bytes_def divs by (simp add: unat_of_nat)
  moreover have "n = 256 * q1 + n mod 256" "q1 = 256 * q2 + q1 mod 256" "q2 = 256 * q3 + q2 mod 256"
    by (simp_all add: q1_def q2_def q3_def)
  ultimately show ?thesis by simp
qed

section \<open>Streams of frames\<close>

fun encode_frames :: "wire_json \<Rightarrow> frame list \<Rightarrow> bytes \<Rightarrow> wire_error + bytes" where
  "encode_frames wj [] out = Inr out"
| "encode_frames wj (f # fs) out =
     (case encode_frame wj f out of Inl e \<Rightarrow> Inl e | Inr out' \<Rightarrow> encode_frames wj fs out')"

text \<open>What JSON promises: reading back what was written, which is never empty.\<close>

definition json_reads_back :: "wire_json \<Rightarrow> bool" where
  "json_reads_back wj \<longleftrightarrow>
     (\<forall>f payload. wj_to_vec wj f = Some payload \<longrightarrow> payload \<noteq> [] \<and> wj_from_slice wj payload = Some f)"

lemma decode_frame_cases:
  "decode_frame wj bs = Inr (f, n) \<longleftrightarrow>
     (let len = from_be_bytes (take 4 bs)
      in 4 \<le> length bs \<and> 0 < len \<and> len \<le> MAX_FRAME_BYTES \<and> 4 + len \<le> length bs \<and> n = 4 + len
         \<and> wj_from_slice wj (take len (drop 4 bs)) = Some f \<and> validate_frame (wj_nfc wj) f = Inr ())"
  by (auto simp: decode_frame_def Let_def split: option.splits sum.splits)

lemma decode_from_encoded:
  assumes "json_reads_back wj" and "list_all (\<lambda>f. validate_frame (wj_nfc wj) f = Inr ()) fs"
    and "encode_frames wj fs pre = Inr bs"
  shows "decode_from wj bs (length pre) out = Inr (out @ fs, length bs) \<and> (\<exists>rest. bs = pre @ rest)"
  using assms(2,3)
proof (induction fs arbitrary: pre out)
  case Nil
  then show ?case by (simp add: decode_from.simps)
next
  case (Cons f fs)
  from Cons(3) obtain payload where payload: "wj_to_vec wj f = Some payload" "length payload \<le> MAX_FRAME_BYTES"
    and next_pre: "encode_frames wj fs (pre @ to_be_bytes (length payload) @ payload) = Inr bs"
    by (auto simp: encode_frame_def split: option.splits if_splits)
  have json: "payload \<noteq> []" "wj_from_slice wj payload = Some f" using assms(1) payload(1) by (auto simp: json_reads_back_def)
  from Cons(1) [OF _ next_pre, of "out @ [f]"] Cons(2) obtain rest where
    tail: "decode_from wj bs (length pre + (4 + length payload)) (out @ [f]) = Inr (out @ f # fs, length bs)"
    and bs: "bs = pre @ to_be_bytes (length payload) @ payload @ rest" by auto
  have "length payload < 2 ^ 32" using payload(2) by (simp add: MAX_FRAME_BYTES_def)
  then have header: "from_be_bytes (take 4 (drop (length pre) bs)) = length payload" by (simp add: bs from_to_be_bytes)
  have body: "take (length payload) (drop (length pre + 4) bs) = payload" by (simp add: bs)
  have "decode_from wj bs (length pre) out = decode_from wj bs (length pre + (4 + length payload)) (out @ [f])"
    using json payload(2) header body Cons(2)
    by (subst decode_from.simps) (simp add: Let_def bs del: decode_from.simps)
  with tail bs show ?case by simp
qed

section \<open>Properties\<close>

text \<open>
  C36: the decoder accepts exactly a four-byte big-endian length between one and the cap, that many
  bytes of JSON for a frame that passes validation, and anything after; it consumes those bytes
  and nothing else.
\<close>

theorem decode_frame_spec:
  "decode_frame wj bs = Inr (f, n) \<longleftrightarrow>
     (\<exists>header payload rest. bs = header @ payload @ rest \<and> length header = 4 \<and> from_be_bytes header = length payload
        \<and> 0 < length payload \<and> length payload \<le> MAX_FRAME_BYTES \<and> n = 4 + length payload
        \<and> wj_from_slice wj payload = Some f \<and> validate_frame (wj_nfc wj) f = Inr ())" (is "?l = ?r")
proof
  assume ?l
  let ?len = "from_be_bytes (take 4 bs)"
  have "bs = take 4 bs @ take ?len (drop 4 bs) @ drop ?len (drop 4 bs)" by (simp only: append_take_drop_id)
  moreover have "length (take 4 bs) = 4 \<and> ?len = length (take ?len (drop 4 bs)) \<and> 0 < length (take ?len (drop 4 bs))
      \<and> length (take ?len (drop 4 bs)) \<le> MAX_FRAME_BYTES \<and> n = 4 + length (take ?len (drop 4 bs))
      \<and> wj_from_slice wj (take ?len (drop 4 bs)) = Some f \<and> validate_frame (wj_nfc wj) f = Inr ()"
    using \<open>?l\<close> by (auto simp: decode_frame_cases Let_def min_def)
  ultimately show ?r by blast
next
  assume ?r
  then show ?l by (auto simp: decode_frame_cases Let_def)
qed

text \<open>
  C37: whatever frames a peer writes one after another, the reader gets back those frames, all of
  them, in order, and is left with no bytes over.
\<close>

theorem frames_roundtrip:
  assumes "json_reads_back wj" and "list_all (\<lambda>f. validate_frame (wj_nfc wj) f = Inr ()) fs"
    and "encode_frames wj fs [] = Inr bs"
  shows "decode_stream wj bs = Inr (fs, length bs)"
  using decode_from_encoded [OF assms, of "[]"] by (simp add: decode_stream_def)

definition example_wire :: wire_json where
  "example_wire =
     \<lparr>wj_to_vec = (\<lambda>f. if f = Request \<lparr>rf_download_id = [97], rf_chunk_index = 3\<rparr> then Some [7, 8] else None),
      wj_from_slice = (\<lambda>bs. Some (Request \<lparr>rf_download_id = [97], rf_chunk_index = 3\<rparr>)), wj_nfc = id\<rparr>"

theorem frames_roundtrip_witness:
  "decode_stream example_wire [0, 0, 0, 2, 7, 8, 0, 0, 0, 2, 7, 8]
     = Inr ([Request \<lparr>rf_download_id = [97], rf_chunk_index = 3\<rparr>, Request \<lparr>rf_download_id = [97], rf_chunk_index = 3\<rparr>], 12)"
proof -
  let ?f = "Request \<lparr>rf_download_id = [97], rf_chunk_index = 3\<rparr>"
  have "json_reads_back example_wire" by (simp add: json_reads_back_def example_wire_def split: if_splits)
  moreover have "list_all (\<lambda>f. validate_frame (wj_nfc example_wire) f = Inr ()) [?f, ?f]"
    by (simp add: wire_check_download_id_def hex_char_def utf8_len_def utf8_width_def)
  moreover have "encode_frames example_wire [?f, ?f] [] = Inr [0, 0, 0, 2, 7, 8, 0, 0, 0, 2, 7, 8]"
    by (simp add: encode_frame_def example_wire_def to_be_bytes_def MAX_FRAME_BYTES_def)
  ultimately show ?thesis using frames_roundtrip [of example_wire "[?f, ?f]"] by simp
qed

end
