(* ===== verification/Downloads.thy ===== *)
theory Downloads
  imports Names "HOL-Library.List_Lexorder" "HOL-Library.Sublist"
begin

text \<open>
  The client's persistent download state, \<open>transfer/state.rs\<close>: the tables \<open>downloads\<close> and
  \<open>download_chunks\<close>, every operation of \<open>DownloadStore\<close>, and the state machine of a download. Every
  statement can fail; a transaction takes effect as a whole or not at all. A download that has
  ended stays ended, and a verified chunk stays verified until a new manifest names another
  digest for it.
\<close>

section \<open>Tables\<close>

datatype chunk_state = CsPending | CsInFlight | CsReceived | CsVerified | CsFailed

datatype download_state =
  DsPending | DsConnecting | DsTransferring | DsVerifying | DsComplete | DsFailed | DsPaused | DsCancelled

record chunk_row =
  ck_offset :: int
  ck_length :: int
  ck_sha256 :: rstring
  ck_state :: chunk_state

record download_row =
  dl_media_id :: rstring
  dl_room_id :: "rstring option"
  dl_user_id :: rstring
  dl_state :: download_state
  dl_total_bytes :: int
  dl_transferred_bytes :: int
  dl_started_at :: int
  dl_completed_at :: "int option"
  dl_last_error :: "rstring option"
  dl_source_peer_id :: "rstring option"
  dl_chunk_size_bytes :: int
  dl_manifest_version :: int

text \<open>
  The rows by their keys: the id of a download, and the pair of download id and index that is
  unique in \<open>download_chunks\<close>. \<open>dd_clock\<close> is the wall clock; \<open>dd_faults\<close> says of the next
  statements which fail.
\<close>

record download_db =
  dd_downloads :: "(rstring, download_row) hashmap"
  dd_chunks :: "(rstring \<times> nat, chunk_row) hashmap"
  dd_clock :: int
  dd_faults :: "string option list"

datatype chunk_state_error =
  ChunkIndexOutOfBounds nat nat
| DownloadNotFound rstring
| ChunkHashMismatch nat rstring rstring
| ManifestVersionMismatch int int
| InvalidTransition download_state download_state
| SInvalidChunkSize nat
| SInvalidManifestVersion int
| InvalidSourcePeerId rstring
| InvalidMediaId rstring
| InvalidUserId rstring
| ActiveDownloadExists rstring
| Sqlx string

type_synonym 'a dresult = "(chunk_state_error + 'a) \<times> download_db"

text \<open>One statement, or one transaction: an error inside leaves the tables as they were.\<close>

definition sql :: "(download_db \<Rightarrow> 'a dresult) \<Rightarrow> download_db \<Rightarrow> 'a dresult" where
  "sql f db =
     (let run = (\<lambda>db. case f db of (Inl e, _) \<Rightarrow> (Inl e, db) | (Inr a, db') \<Rightarrow> (Inr a, db'))
      in case dd_faults db of
           [] \<Rightarrow> run db
         | Some e # faults \<Rightarrow> (Inl (Sqlx e), db\<lparr>dd_faults := faults\<rparr>)
         | None # faults \<Rightarrow> run (db\<lparr>dd_faults := faults\<rparr>))"

definition and_then :: "'a dresult \<Rightarrow> ('a \<Rightarrow> download_db \<Rightarrow> 'b dresult) \<Rightarrow> 'b dresult" where
  "and_then r k = (case r of (Inl e, db) \<Rightarrow> (Inl e, db) | (Inr a, db) \<Rightarrow> k a db)"

definition update_where :: "('k \<Rightarrow> 'v \<Rightarrow> bool) \<Rightarrow> ('v \<Rightarrow> 'v) \<Rightarrow> ('k, 'v) hashmap \<Rightarrow> ('k, 'v) hashmap" where
  "update_where c f t = map (\<lambda>(k, v). (k, if c k v then f v else v)) t"

definition on_download :: "rstring \<Rightarrow> (download_row \<Rightarrow> download_row) \<Rightarrow> download_db \<Rightarrow> download_db" where
  "on_download did f db = db\<lparr>dd_downloads := update_where (\<lambda>k _. k = did) f (dd_downloads db)\<rparr>"

definition select :: "(download_db \<Rightarrow> 'a) \<Rightarrow> download_db \<Rightarrow> 'a dresult" where
  "select f = sql (\<lambda>db. (Inr (f db), db))"

definition execute :: "(download_db \<Rightarrow> download_db) \<Rightarrow> download_db \<Rightarrow> unit dresult" where
  "execute f = sql (\<lambda>db. (Inr (), f db))"

section \<open>Creating a download\<close>

record new_download =
  nd_download_id :: rstring
  nd_media_id :: rstring
  nd_room_id :: "rstring option"
  nd_user_id :: rstring
  nd_total_bytes :: nat
  nd_source_peer_id :: rstring
  nd_chunk_size_bytes :: nat
  nd_manifest_version :: int

record chunk_spec =
  cs_index :: nat
  cs_offset :: nat
  cs_length :: nat
  cs_hash :: rstring

text \<open>The states of the partial unique index \<open>ux_downloads_active\<close>, and its key.\<close>

definition is_active :: "download_state \<Rightarrow> bool" where
  "is_active st \<longleftrightarrow> st \<in> {DsPending, DsConnecting, DsTransferring, DsVerifying, DsPaused}"

definition active_key :: "download_row \<Rightarrow> rstring \<times> rstring \<times> rstring" where
  "active_key d = (dl_media_id d, case dl_room_id d of None \<Rightarrow> [] | Some r \<Rightarrow> r, dl_user_id d)"

definition pending_row :: "new_download \<Rightarrow> int \<Rightarrow> download_row" where
  "pending_row new now_ms =
     \<lparr>dl_media_id = nd_media_id new, dl_room_id = nd_room_id new, dl_user_id = nd_user_id new, dl_state = DsPending,
      dl_total_bytes = i64_wrap (int (nd_total_bytes new)), dl_transferred_bytes = 0, dl_started_at = now_ms,
      dl_completed_at = None, dl_last_error = None, dl_source_peer_id = Some (nd_source_peer_id new),
      dl_chunk_size_bytes = int (nd_chunk_size_bytes new), dl_manifest_version = nd_manifest_version new\<rparr>"

definition active_conflict :: "download_row \<Rightarrow> download_db \<Rightarrow> bool" where
  "active_conflict d db \<longleftrightarrow> list_ex (\<lambda>(_, d'). is_active (dl_state d') \<and> active_key d' = active_key d) (dd_downloads db)"

text \<open>\<open>INSERT OR IGNORE\<close> of one chunk: an existing key or a failed CHECK leaves the table as it is.\<close>

definition insert_chunk :: "rstring \<Rightarrow> nat \<Rightarrow> chunk_row \<Rightarrow> download_db \<Rightarrow> download_db" where
  "insert_chunk did i row db =
     (if hm_contains (dd_chunks db) (did, i) \<or> ck_offset row < 0 \<or> ck_length row \<le> 0 then db
      else db\<lparr>dd_chunks := hm_insert (did, i) row (dd_chunks db)\<rparr>)"

definition pending_chunk :: "chunk_spec \<Rightarrow> chunk_row" where
  "pending_chunk c = \<lparr>ck_offset = i64_wrap (int (cs_offset c)), ck_length = int (cs_length c), ck_sha256 = cs_hash c,
     ck_state = CsPending\<rparr>"

definition insert_download :: "new_download \<Rightarrow> chunk_spec list \<Rightarrow> download_db \<Rightarrow> unit dresult" where
  "insert_download new specs db =
     (let did = nd_download_id new; row = pending_row new (dd_clock db);
          ignored = hm_contains (dd_downloads db) did \<or> active_conflict row db \<or> dl_total_bytes row < 0;
          db1 = (if ignored then db else db\<lparr>dd_downloads := hm_insert did row (dd_downloads db)\<rparr>)
      in if ignored \<and> \<not> hm_contains (dd_downloads db) did then (Inl (ActiveDownloadExists (nd_media_id new)), db)
         else (Inr (), fold (\<lambda>c. insert_chunk did (cs_index c) (pending_chunk c)) specs db1))"

definition create_checks :: "new_download \<Rightarrow> chunk_spec list \<Rightarrow> chunk_state_error + unit" where
  "create_checks new specs =
     (if nd_chunk_size_bytes new \<noteq> CHUNK_SIZE then Inl (SInvalidChunkSize (nd_chunk_size_bytes new))
      else if nd_manifest_version new < 1 then Inl (SInvalidManifestVersion (nd_manifest_version new))
      else if \<not> is_canonical_peer_id (nd_source_peer_id new) then Inl (InvalidSourcePeerId (nd_source_peer_id new))
      else if nd_media_id new = [] then Inl (InvalidMediaId (nd_media_id new))
      else if nd_user_id new = [] then Inl (InvalidUserId (nd_user_id new))
      else let count = length specs mod 2 ^ 32;
               expected = (if nd_total_bytes new = 0 then 0
                           else div_ceil (nd_total_bytes new) (nd_chunk_size_bytes new) mod 2 ^ 32)
           in if count = 0 then Inl (ChunkIndexOutOfBounds 0 0)
              else if count \<noteq> expected then Inl (ChunkIndexOutOfBounds count expected)
              else case find (\<lambda>(i, c). cs_index c \<noteq> i mod 2 ^ 32) (List.enumerate 0 specs) of
                     Some (_, c) \<Rightarrow> Inl (ChunkIndexOutOfBounds (cs_index c) count)
                   | None \<Rightarrow> Inr ())"

definition create_download :: "new_download \<Rightarrow> chunk_spec list \<Rightarrow> download_db \<Rightarrow> unit dresult" where
  "create_download new specs db =
     (case create_checks new specs of
        Inl e \<Rightarrow> (Inl e, db)
      | Inr _ \<Rightarrow> sql (insert_download new specs) db)"

definition insert_download_idempotent :: "new_download \<Rightarrow> chunk_spec list \<Rightarrow> download_db \<Rightarrow> bool dresult" where
  "insert_download_idempotent new specs db =
     (case create_download new specs db of
        (Inr _, db') \<Rightarrow> (Inr True, db')
      | (Inl (Sqlx msg), db') \<Rightarrow>
          if sublist ''UNIQUE constraint failed'' msg then (Inr False, db') else (Inl (Sqlx msg), db')
      | (Inl e, db') \<Rightarrow> (Inl e, db'))"

section \<open>Chunks\<close>

definition chunks_of :: "rstring \<Rightarrow> download_db \<Rightarrow> (nat \<times> chunk_row) list" where
  "chunks_of did db = map (\<lambda>((_, i), row). (i, row)) (filter (\<lambda>((d, _), _). d = did) (dd_chunks db))"

definition count_chunks :: "rstring \<Rightarrow> download_db \<Rightarrow> nat" where
  "count_chunks did db = length (chunks_of did db) mod 2 ^ 32"

definition fetch_total_chunks :: "rstring \<Rightarrow> download_db \<Rightarrow> nat dresult" where
  "fetch_total_chunks did = select (count_chunks did)"

definition indices_where :: "(chunk_state \<Rightarrow> bool) \<Rightarrow> rstring \<Rightarrow> download_db \<Rightarrow> nat list" where
  "indices_where c did db = sort (map fst (filter (\<lambda>(_, row). c (ck_state row)) (chunks_of did db)))"

definition is_complete_chunk :: "chunk_state \<Rightarrow> bool" where
  "is_complete_chunk st \<longleftrightarrow> st = CsVerified \<or> st = CsReceived"

definition completed_chunk_indices :: "rstring \<Rightarrow> download_db \<Rightarrow> nat list dresult" where
  "completed_chunk_indices did = select (indices_where is_complete_chunk did)"

definition verified_chunk_indices :: "rstring \<Rightarrow> download_db \<Rightarrow> nat list dresult" where
  "verified_chunk_indices did = select (indices_where (\<lambda>st. st = CsVerified) did)"

definition set_bit_at :: "nat \<Rightarrow> bytes \<Rightarrow> bytes" where
  "set_bit_at i out = (let slot = i div 8
     in if slot < length out then out[slot := (out ! slot) OR push_bit (i mod 8) 1] else out)"

definition chunk_bitmap :: "nat list \<Rightarrow> nat \<Rightarrow> bytes" where
  "chunk_bitmap indices count = fold set_bit_at indices (replicate (max (div_ceil count 8) 1) 0)"

definition completed_chunk_bitmap :: "rstring \<Rightarrow> download_db \<Rightarrow> bytes dresult" where
  "completed_chunk_bitmap did db =
     and_then (completed_chunk_indices did db) (\<lambda>indices db1.
     and_then (fetch_total_chunks did db1) (\<lambda>count db2. (Inr (chunk_bitmap indices count), db2)))"

definition transferred :: "rstring \<Rightarrow> download_db \<Rightarrow> int" where
  "transferred did db = sum_list (map (ck_length \<circ> snd) (filter (\<lambda>(_, row). is_complete_chunk (ck_state row)) (chunks_of did db)))"

definition refresh_transferred_bytes :: "rstring \<Rightarrow> download_db \<Rightarrow> unit dresult" where
  "refresh_transferred_bytes did =
     execute (\<lambda>db. on_download did (\<lambda>d. d\<lparr>dl_transferred_bytes := transferred did db\<rparr>) db)"

definition set_chunk_state :: "rstring \<Rightarrow> (nat \<Rightarrow> chunk_row \<Rightarrow> bool) \<Rightarrow> chunk_state \<Rightarrow> download_db \<Rightarrow> download_db" where
  "set_chunk_state did c st db =
     db\<lparr>dd_chunks := update_where (\<lambda>(d, i) row. d = did \<and> c i row) (\<lambda>row. row\<lparr>ck_state := st\<rparr>) (dd_chunks db)\<rparr>"

definition mark_chunk_verified :: "rstring \<Rightarrow> nat \<Rightarrow> rstring \<Rightarrow> download_db \<Rightarrow> unit dresult" where
  "mark_chunk_verified did i sha db =
     and_then (fetch_total_chunks did db) (\<lambda>count db1.
       if i \<ge> count then (Inl (ChunkIndexOutOfBounds i count), db1)
       else and_then (select (\<lambda>db. hm_get (dd_chunks db) (did, i)) db1) (\<lambda>existing db2.
         let write = and_then (execute (set_chunk_state did (\<lambda>j _. j = i) CsVerified) db2)
                       (\<lambda>_ db3. refresh_transferred_bytes did db3)
         in case existing of
              None \<Rightarrow> write
            | Some row \<Rightarrow>
                if ck_state row = CsVerified \<and> ck_sha256 row = sha then (Inr (), db2)
                else if ck_sha256 row \<noteq> sha then (Inl (ChunkHashMismatch i (ck_sha256 row) sha), db2)
                else write))"

definition mark_chunk_received :: "rstring \<Rightarrow> nat \<Rightarrow> download_db \<Rightarrow> unit dresult" where
  "mark_chunk_received did i db =
     and_then (fetch_total_chunks did db) (\<lambda>count db1.
       if i \<ge> count then (Inl (ChunkIndexOutOfBounds i count), db1)
       else execute (set_chunk_state did (\<lambda>j row. j = i \<and> ck_state row \<noteq> CsVerified) CsReceived) db1)"

definition reset_in_flight_to_pending :: "rstring \<Rightarrow> download_db \<Rightarrow> nat dresult" where
  "reset_in_flight_to_pending did =
     sql (\<lambda>db. (Inr (length (filter (\<lambda>(_, row). ck_state row = CsInFlight) (chunks_of did db))),
                set_chunk_state did (\<lambda>_ row. ck_state row = CsInFlight) CsPending db))"

definition fetch_chunk_hashes :: "rstring \<Rightarrow> download_db \<Rightarrow> (nat \<times> rstring) list dresult" where
  "fetch_chunk_hashes did =
     select (\<lambda>db. map (\<lambda>(i, row). (i, ck_sha256 row)) (sort_key fst (chunks_of did db)))"

section \<open>The state of a download\<close>

fun is_valid_transition :: "download_state \<Rightarrow> download_state \<Rightarrow> bool" where
  "is_valid_transition a b =
     (a = b
      \<or> (a, b) \<in> {(DsPending, DsConnecting), (DsPending, DsTransferring), (DsPending, DsVerifying),
                  (DsConnecting, DsTransferring), (DsTransferring, DsVerifying), (DsVerifying, DsComplete)}
      \<or> a \<in> {DsPending, DsConnecting, DsTransferring, DsVerifying} \<and> b \<in> {DsFailed, DsPaused, DsCancelled}
      \<or> (a, b) = (DsPaused, DsTransferring))"

definition fetch_row :: "(download_row \<Rightarrow> 'a) \<Rightarrow> rstring \<Rightarrow> download_db \<Rightarrow> 'a dresult" where
  "fetch_row f did =
     sql (\<lambda>db. case hm_get (dd_downloads db) did of
                 None \<Rightarrow> (Inl (DownloadNotFound did), db)
               | Some d \<Rightarrow> (Inr (f d), db))"

definition fetch_state :: "rstring \<Rightarrow> download_db \<Rightarrow> download_state dresult" where
  "fetch_state = fetch_row dl_state"

definition fetch_download :: "rstring \<Rightarrow> download_db \<Rightarrow> download_row dresult" where
  "fetch_download = fetch_row id"

definition fetch_manifest_version :: "rstring \<Rightarrow> download_db \<Rightarrow> int dresult" where
  "fetch_manifest_version = fetch_row dl_manifest_version"

definition transition :: "rstring \<Rightarrow> download_state \<Rightarrow> download_db \<Rightarrow> unit dresult" where
  "transition did st db =
     and_then (fetch_state did db) (\<lambda>current db1.
       if \<not> is_valid_transition current st then (Inl (InvalidTransition current st), db1)
       else execute (on_download did (\<lambda>d. d\<lparr>dl_state := st\<rparr>)) db1)"

definition mark_failed :: "rstring \<Rightarrow> rstring \<Rightarrow> download_db \<Rightarrow> unit dresult" where
  "mark_failed did msg db =
     and_then (fetch_state did db) (\<lambda>current db1.
       if \<not> is_valid_transition current DsFailed then (Inl (InvalidTransition current DsFailed), db1)
       else execute (on_download did (\<lambda>d. d\<lparr>dl_last_error := Some msg, dl_state := DsFailed\<rparr>)) db1)"

definition set_last_error :: "rstring \<Rightarrow> rstring \<Rightarrow> download_db \<Rightarrow> unit dresult" where
  "set_last_error did msg = execute (on_download did (\<lambda>d. d\<lparr>dl_last_error := Some msg\<rparr>))"

definition set_source_peer_id :: "rstring \<Rightarrow> rstring \<Rightarrow> download_db \<Rightarrow> unit dresult" where
  "set_source_peer_id did peer = execute (on_download did (\<lambda>d. d\<lparr>dl_source_peer_id := Some peer\<rparr>))"

definition list_downloads :: "int \<Rightarrow> download_db \<Rightarrow> (rstring \<times> download_row) list dresult" where
  "list_downloads limit =
     select (\<lambda>db. take (nat (max 1 (min 1000 limit))) (rev (sort_key fst (dd_downloads db))))"

section \<open>Manifest versions\<close>

definition check_newer :: "rstring \<Rightarrow> int \<Rightarrow> download_db \<Rightarrow> unit dresult" where
  "check_newer did version db =
     (if version < 1 then (Inl (SInvalidManifestVersion version), db)
      else and_then (fetch_manifest_version did db) (\<lambda>current db1.
        if version \<le> current then (Inl (ManifestVersionMismatch current version), db1) else (Inr (), db1)))"

definition bind_manifest_version :: "rstring \<Rightarrow> int \<Rightarrow> download_db \<Rightarrow> unit dresult" where
  "bind_manifest_version did version db =
     and_then (check_newer did version db) (\<lambda>_ db1.
       execute (on_download did (\<lambda>d. d\<lparr>dl_manifest_version := version\<rparr>)) db1)"

definition reconcile_chunk :: "rstring \<Rightarrow> nat \<times> rstring \<Rightarrow> nat \<times> download_db \<Rightarrow> nat \<times> download_db" where
  "reconcile_chunk did = (\<lambda>(i, sha) (changed, db).
     case hm_get (dd_chunks db) (did, i) of
       Some row \<Rightarrow>
         if ck_sha256 row \<noteq> sha
         then (Suc changed, db\<lparr>dd_chunks := update_where (\<lambda>k _. k = (did, i))
                               (\<lambda>row. row\<lparr>ck_sha256 := sha, ck_state := CsPending\<rparr>) (dd_chunks db)\<rparr>)
         else (changed, db)
     | None \<Rightarrow>
         (Suc changed, insert_chunk did i \<lparr>ck_offset = int (i * CHUNK_SIZE), ck_length = int CHUNK_SIZE,
                                           ck_sha256 = sha, ck_state = CsPending\<rparr> db))"

definition reconcile_manifest_version :: "rstring \<Rightarrow> int \<Rightarrow> (nat \<times> rstring) list \<Rightarrow> download_db \<Rightarrow> nat dresult" where
  "reconcile_manifest_version did version hashes db =
     and_then (check_newer did version db) (\<lambda>_ db1.
       sql (\<lambda>db. let (changed, db') = fold (reconcile_chunk did) hashes
                                        (0, on_download did (\<lambda>d. d\<lparr>dl_manifest_version := version\<rparr>) db)
                 in (Inr changed, set_chunk_state did (\<lambda>i _. i \<ge> length hashes) CsFailed db')) db1)"

section \<open>Completion by deduplication\<close>

definition advance :: "download_state \<Rightarrow> download_state \<Rightarrow> download_row \<Rightarrow> download_row" where
  "advance a b d = (if dl_state d = a then d\<lparr>dl_state := b\<rparr> else d)"

definition complete_row :: "nat \<Rightarrow> rstring option \<Rightarrow> int \<Rightarrow> download_row \<Rightarrow> download_row" where
  "complete_row sz peer now_ms d =
     (let d1 = advance DsTransferring DsVerifying (advance DsConnecting DsTransferring (advance DsPending DsConnecting d))
      in if dl_state d1 = DsVerifying
         then d1\<lparr>dl_state := DsComplete, dl_transferred_bytes := i64_wrap (int sz), dl_completed_at := Some now_ms,
                 dl_total_bytes := i64_wrap (int sz),
                 dl_source_peer_id := (case dl_source_peer_id d1 of None \<Rightarrow> peer | Some p \<Rightarrow> Some p)\<rparr>
         else d1)"

definition verify_chunk_row :: "rstring \<Rightarrow> nat \<Rightarrow> nat \<times> rstring \<Rightarrow> download_db \<Rightarrow> download_db" where
  "verify_chunk_row did sz = (\<lambda>(i, sha) db.
     if hm_contains (dd_chunks db) (did, i) then set_chunk_state did (\<lambda>j _. j = i) CsVerified db
     else let offset = int i * int CHUNK_SIZE
          in db\<lparr>dd_chunks := hm_insert (did, i) \<lparr>ck_offset = offset,
                ck_length = max 1 (min (int CHUNK_SIZE) (i64_wrap (int sz) - offset)), ck_sha256 = sha,
                ck_state = CsVerified\<rparr> (dd_chunks db)\<rparr>)"

definition mark_complete ::
    "rstring \<Rightarrow> nat \<Rightarrow> rstring option \<Rightarrow> (nat \<times> rstring) list \<Rightarrow> download_db \<Rightarrow> unit dresult" where
  "mark_complete did sz peer hashes =
     sql (\<lambda>db. if hashes \<noteq> [] \<and> \<not> hm_contains (dd_downloads db) did
               then (Inl (Sqlx ''FOREIGN KEY constraint failed''), db)
               else if i64_wrap (int sz) < 0 \<and> (case hm_get (dd_downloads db) did of
                         None \<Rightarrow> False | Some d \<Rightarrow> is_active (dl_state d) \<and> dl_state d \<noteq> DsPaused)
               then (Inl (Sqlx ''CHECK constraint failed''), db)
               else (Inr (), fold (verify_chunk_row did sz) hashes (on_download did (complete_row sz peer (dd_clock db)) db)))"

section \<open>Reasoning about statements\<close>

lemma sql_keeps:
  assumes "P db" and "\<And>db fs. P db \<Longrightarrow> P (db\<lparr>dd_faults := fs\<rparr>)"
    and "\<And>db1 a db2. P db1 \<Longrightarrow> f db1 = (Inr a, db2) \<Longrightarrow> P db2"
  shows "P (snd (sql f db))"
proof -
  have run: "P (snd (case f d of (Inl e, _) \<Rightarrow> (Inl e, d) | (Inr a, d') \<Rightarrow> (Inr a, d')))" if "P d" for d
    using that assms(3) [OF that] by (auto split: prod.splits sum.splits)
  show ?thesis
  proof (cases "dd_faults db")
    case Nil
    with run [OF assms(1)] show ?thesis by (simp add: sql_def)
  next
    case (Cons fault faults)
    with run [OF assms(2) [OF assms(1)], of faults] assms(1,2) show ?thesis by (cases fault) (simp_all add: sql_def)
  qed
qed

lemma select_keeps: "P db \<Longrightarrow> (\<And>db fs. P db \<Longrightarrow> P (db\<lparr>dd_faults := fs\<rparr>)) \<Longrightarrow> P (snd (select f db))"
  unfolding select_def by (rule sql_keeps) auto

lemma execute_keeps:
  "P db \<Longrightarrow> (\<And>db fs. P db \<Longrightarrow> P (db\<lparr>dd_faults := fs\<rparr>)) \<Longrightarrow> (\<And>db. P db \<Longrightarrow> P (f db)) \<Longrightarrow> P (snd (execute f db))"
  unfolding execute_def by (rule sql_keeps) auto

lemma fetch_row_keeps: "P db \<Longrightarrow> (\<And>db fs. P db \<Longrightarrow> P (db\<lparr>dd_faults := fs\<rparr>)) \<Longrightarrow> P (snd (fetch_row f did db))"
  unfolding fetch_row_def by (rule sql_keeps) (auto split: option.splits)

lemma and_then_keeps:
  "P (snd r) \<Longrightarrow> (\<And>a db. r = (Inr a, db) \<Longrightarrow> P db \<Longrightarrow> P (snd (k a db))) \<Longrightarrow> P (snd (and_then r k))"
  by (cases r) (auto simp: and_then_def split: sum.splits)

lemma fetch_row_result:
  "fetch_row f did db = (Inr a, db1) \<Longrightarrow>
     dd_downloads db1 = dd_downloads db \<and> (\<exists>d. hm_get (dd_downloads db) did = Some d \<and> a = f d)"
  by (auto simp: fetch_row_def sql_def Let_def split: list.splits option.splits)

lemma update_where_get [simp]:
  "hm_get (update_where c f t) k = map_option (\<lambda>v. if c k v then f v else v) (hm_get t k)"
  by (induction t) (auto simp: update_where_def)

lemma update_where_keys [simp]: "map fst (update_where c f t) = map fst t"
  by (induction t) (auto simp: update_where_def)

lemma update_where_wf [simp]: "hm_wf (update_where c f t) = hm_wf t"
  by (simp add: hm_wf_def)

lemma on_download_simps [simp]:
  "dd_chunks (on_download did f db) = dd_chunks db" "dd_faults (on_download did f db) = dd_faults db"
  "dd_clock (on_download did f db) = dd_clock db"
  "hm_get (dd_downloads (on_download did f db)) k
     = (if k = did then map_option f (hm_get (dd_downloads db) k) else hm_get (dd_downloads db) k)"
  "hm_wf (dd_downloads (on_download did f db)) = hm_wf (dd_downloads db)"
  by (auto simp: on_download_def option.map_id0 map_option.identity)

lemma set_chunk_state_simps [simp]:
  "dd_downloads (set_chunk_state did c st db) = dd_downloads db"
  "hm_get (dd_chunks (set_chunk_state did c st db)) (d, i)
     = map_option (\<lambda>row. if d = did \<and> c i row then row\<lparr>ck_state := st\<rparr> else row) (hm_get (dd_chunks db) (d, i))"
  "hm_wf (dd_chunks (set_chunk_state did c st db)) = hm_wf (dd_chunks db)"
  by (simp_all add: set_chunk_state_def)

section \<open>The store's invariant\<close>

definition store_inv :: "download_db \<Rightarrow> bool" where
  "store_inv db \<longleftrightarrow> hm_wf (dd_downloads db) \<and> hm_wf (dd_chunks db)
     \<and> (\<forall>did i row. hm_get (dd_chunks db) (did, i) = Some row \<longrightarrow>
          hm_contains (dd_downloads db) did \<and> 0 \<le> ck_offset row \<and> 0 < ck_length row)
     \<and> (\<forall>a b d e. hm_get (dd_downloads db) a = Some d \<and> hm_get (dd_downloads db) b = Some e
          \<and> is_active (dl_state d) \<and> is_active (dl_state e) \<and> active_key d = active_key e \<longrightarrow> a = b)"

lemma store_inv_faults: "store_inv db \<Longrightarrow> store_inv (db\<lparr>dd_faults := fs\<rparr>)"
  by (simp add: store_inv_def)

lemma store_inv_on_download:
  assumes "store_inv db" and "\<And>d. hm_get (dd_downloads db) did = Some d \<Longrightarrow> active_key (f d) = active_key d
      \<and> (is_active (dl_state (f d)) \<longrightarrow> is_active (dl_state d))"
  shows "store_inv (on_download did f db)"
proof -
  have same: "hm_contains (dd_downloads (on_download did f db)) k = hm_contains (dd_downloads db) k" for k
    by (simp add: hm_contains_def)
  have prior: "\<exists>d0. hm_get (dd_downloads db) k = Some d0 \<and> active_key d = active_key d0 \<and> (is_active (dl_state d) \<longrightarrow> is_active (dl_state d0))"
    if "hm_get (dd_downloads (on_download did f db)) k = Some d" for k d
    using that assms(2) by (cases "k = did") auto
  have "a = b" if "hm_get (dd_downloads (on_download did f db)) a = Some d"
      "hm_get (dd_downloads (on_download did f db)) b = Some e"
      "is_active (dl_state d)" "is_active (dl_state e)" "active_key d = active_key e" for a b d e
    using prior [OF that(1)] prior [OF that(2)] that(3-5) assms(1) unfolding store_inv_def by metis
  with assms(1) show ?thesis unfolding store_inv_def same by (auto simp del: on_download_simps(4))
qed

lemma store_inv_set_chunk_state: "store_inv db \<Longrightarrow> store_inv (set_chunk_state did c st db)"
  by (fastforce simp: store_inv_def)

lemma store_inv_insert_chunk:
  assumes "store_inv db" and "hm_contains (dd_downloads db) did"
  shows "store_inv (insert_chunk did i row db)" and "dd_downloads (insert_chunk did i row db) = dd_downloads db"
  using assms by (auto simp: insert_chunk_def store_inv_def)

section \<open>Writes\<close>

text \<open>
  Everything an operation does to the tables, one row at a time. A row that has ended keeps its
  state; a verified chunk keeps its state and digest, unless its download is in \<open>R\<close>, the
  downloads being reconciled with a new manifest.
\<close>

inductive store_write :: "rstring set \<Rightarrow> download_db \<Rightarrow> download_db \<Rightarrow> bool" for R :: "rstring set" where
  faults: "store_write R db (db\<lparr>dd_faults := fs\<rparr>)"
| clock: "store_write R db (db\<lparr>dd_clock := t\<rparr>)"
| opened: "hm_get (dd_downloads db) did = None \<Longrightarrow> \<not> active_conflict row db \<Longrightarrow>
    store_write R db (db\<lparr>dd_downloads := hm_insert did row (dd_downloads db)\<rparr>)"
| added: "hm_contains (dd_downloads db) did \<Longrightarrow> store_write R db (insert_chunk did i row db)"
| moved: "(\<And>d. hm_get (dd_downloads db) did = Some d \<Longrightarrow>
      active_key (f d) = active_key d \<and> (dl_state (f d) = dl_state d \<or> is_active (dl_state d))) \<Longrightarrow>
    store_write R db (on_download did f db)"
| marked: "(\<And>i row. hm_get (dd_chunks db) (did, i) = Some row \<Longrightarrow> c i row \<Longrightarrow>
      ck_state row = CsVerified \<Longrightarrow> st = CsVerified \<or> did \<in> R) \<Longrightarrow>
    store_write R db (set_chunk_state did c st db)"
| rehashed: "did \<in> R \<Longrightarrow> store_write R db (db\<lparr>dd_chunks := update_where (\<lambda>k _. k = (did, i))
      (\<lambda>row. row\<lparr>ck_sha256 := sha, ck_state := CsPending\<rparr>) (dd_chunks db)\<rparr>)"

abbreviation writes :: "rstring set \<Rightarrow> download_db \<Rightarrow> download_db \<Rightarrow> bool" where
  "writes R \<equiv> (store_write R)\<^sup>*\<^sup>*"

lemma sql_writes:
  assumes "\<And>fs a db2. f (db\<lparr>dd_faults := fs\<rparr>) = (Inr a, db2) \<Longrightarrow> writes R (db\<lparr>dd_faults := fs\<rparr>) db2"
  shows "writes R db (snd (sql f db))"
proof -
  have run: "writes R db (snd (case f (db\<lparr>dd_faults := fs\<rparr>) of (Inl e, _) \<Rightarrow> (Inl e, db\<lparr>dd_faults := fs\<rparr>)
      | (Inr a, d') \<Rightarrow> (Inr a, d')))" for fs
  proof -
    have start: "writes R db (db\<lparr>dd_faults := fs\<rparr>)" by (intro r_into_rtranclp store_write.faults)
    show ?thesis
    proof (cases "f (db\<lparr>dd_faults := fs\<rparr>)")
      case (Pair r db2)
      with start assms [of fs] show ?thesis by (cases r) (auto intro: rtranclp_trans)
    qed
  qed
  have id: "db\<lparr>dd_faults := dd_faults db\<rparr> = db" by simp
  have same: "writes R db (snd (case f db of (Inl e, _) \<Rightarrow> (Inl e, db) | (Inr a, d') \<Rightarrow> (Inr a, d')))"
    using run [of "dd_faults db"] unfolding id .
  show ?thesis
  proof (cases "dd_faults db")
    case Nil
    with same show ?thesis by (simp add: sql_def)
  next
    case (Cons fault rest)
    have "writes R db (db\<lparr>dd_faults := rest\<rparr>)" by (intro r_into_rtranclp store_write.faults)
    with run [of rest] Cons show ?thesis by (cases fault) (simp_all add: sql_def)
  qed
qed

lemma select_writes: "writes R db (snd (select f db))"
  unfolding select_def by (rule sql_writes) auto

lemma fetch_row_writes: "writes R db (snd (fetch_row f did db))"
  unfolding fetch_row_def by (rule sql_writes) (auto split: option.splits)

lemma execute_writes:
  assumes "\<And>fs. store_write R (db\<lparr>dd_faults := fs\<rparr>) (f (db\<lparr>dd_faults := fs\<rparr>))"
  shows "writes R db (snd (execute f db))"
  unfolding execute_def by (rule sql_writes) (auto intro: assms)

lemma and_then_writes:
  "writes R db (snd r) \<Longrightarrow> (\<And>a db1. r = (Inr a, db1) \<Longrightarrow> writes R db1 (snd (k a db1))) \<Longrightarrow> writes R db (snd (and_then r k))"
  by (cases r) (auto simp: and_then_def split: sum.splits intro: rtranclp_trans)

lemma moved_field:
  assumes "\<And>d. active_key (f d) = active_key d" and "\<And>d. dl_state (f d) = dl_state d"
  shows "store_write R db (on_download did f db)"
  using assms by (intro store_write.moved) auto

lemma transition_writes: "writes R db (snd (transition did st db))"
  unfolding transition_def fetch_state_def
proof (rule and_then_writes [OF fetch_row_writes])
  fix current db1
  assume r: "fetch_row dl_state did db = (Inr current, db1)"
  from fetch_row_result [OF r] obtain d where d: "hm_get (dd_downloads db1) did = Some d" "current = dl_state d" by auto
  have "is_valid_transition current st \<Longrightarrow> st = current \<or> is_active current" by (cases current) (auto simp: is_active_def)
  with d show "writes R db1 (snd (if \<not> is_valid_transition current st then (Inl (InvalidTransition current st), db1)
      else execute (on_download did (dl_state_update (\<lambda>_. st))) db1))"
    by (auto intro!: execute_writes store_write.moved simp: active_key_def simp del: is_valid_transition.simps)
qed

lemma mark_failed_writes: "writes R db (snd (mark_failed did msg db))"
  unfolding mark_failed_def fetch_state_def
proof (rule and_then_writes [OF fetch_row_writes])
  fix current db1
  assume r: "fetch_row dl_state did db = (Inr current, db1)"
  from fetch_row_result [OF r] obtain d where d: "hm_get (dd_downloads db1) did = Some d" "current = dl_state d" by auto
  have "is_valid_transition current DsFailed \<Longrightarrow> DsFailed = current \<or> is_active current" by (cases current) (auto simp: is_active_def)
  with d show "writes R db1 (snd (if \<not> is_valid_transition current DsFailed then (Inl (InvalidTransition current DsFailed), db1)
      else execute (on_download did (\<lambda>d. d\<lparr>dl_last_error := Some msg, dl_state := DsFailed\<rparr>)) db1))"
    by (auto intro!: execute_writes store_write.moved simp: active_key_def simp del: is_valid_transition.simps)
qed

lemma field_writes:
  "writes R db (snd (set_last_error did msg db))" "writes R db (snd (set_source_peer_id did peer db))"
  "writes R db (snd (refresh_transferred_bytes did db))"
  unfolding set_last_error_def set_source_peer_id_def refresh_transferred_bytes_def
  by (auto intro!: execute_writes moved_field simp: active_key_def)

lemma check_newer_writes: "writes R db (snd (check_newer did version db))"
  unfolding check_newer_def fetch_manifest_version_def
  by (auto intro!: and_then_writes fetch_row_writes)

lemma bind_writes: "writes R db (snd (bind_manifest_version did version db))"
  unfolding bind_manifest_version_def
  by (rule and_then_writes [OF check_newer_writes]) (auto intro!: execute_writes moved_field simp: active_key_def)

lemma mark_chunk_verified_writes: "writes R db (snd (mark_chunk_verified did i sha db))"
  unfolding mark_chunk_verified_def fetch_total_chunks_def
  by (auto intro!: and_then_writes select_writes execute_writes field_writes store_write.marked simp: Let_def split: option.splits)

lemma mark_chunk_received_writes: "writes R db (snd (mark_chunk_received did i db))"
  unfolding mark_chunk_received_def fetch_total_chunks_def
  by (auto intro!: and_then_writes select_writes execute_writes store_write.marked)

lemma reset_writes: "writes R db (snd (reset_in_flight_to_pending did db))"
  unfolding reset_in_flight_to_pending_def by (rule sql_writes) (auto intro!: r_into_rtranclp store_write.marked)

lemma insert_chunk_downloads [simp]: "dd_downloads (insert_chunk did i row db) = dd_downloads db"
  by (simp add: insert_chunk_def)

lemma insert_chunks_writes:
  "hm_contains (dd_downloads db) did \<Longrightarrow> writes R db (fold (\<lambda>c. insert_chunk did (idx c) (row c)) cs db)"
proof (induction cs arbitrary: db)
  case (Cons c cs)
  have "store_write R db (insert_chunk did (idx c) (row c) db)" using Cons(2) by (rule store_write.added)
  with Cons show ?case by (auto intro: converse_rtranclp_into_rtranclp)
qed simp

lemma create_writes: "writes R db (snd (create_download new specs db))"
proof (cases "create_checks new specs")
  case (Inr u)
  have "writes R (db\<lparr>dd_faults := fs\<rparr>) db2" if ins: "insert_download new specs (db\<lparr>dd_faults := fs\<rparr>) = (Inr a, db2)" for fs a db2
  proof -
    let ?db = "db\<lparr>dd_faults := fs\<rparr>" and ?did = "nd_download_id new" and ?row = "pending_row new (dd_clock db)"
    let ?open = "\<not> (hm_contains (dd_downloads ?db) ?did \<or> active_conflict ?row ?db \<or> dl_total_bytes ?row < 0)"
    let ?db1 = "if ?open then ?db\<lparr>dd_downloads := hm_insert ?did ?row (dd_downloads ?db)\<rparr> else ?db"
    have db2: "db2 = fold (\<lambda>c. insert_chunk ?did (cs_index c) (pending_chunk c)) specs ?db1"
      and known: "?open \<or> hm_contains (dd_downloads ?db) ?did"
      using ins by (auto simp: insert_download_def Let_def split: if_splits)
    have "writes R ?db ?db1"
    proof (cases ?open)
      case True
      then have "store_write R ?db (?db\<lparr>dd_downloads := hm_insert ?did ?row (dd_downloads ?db)\<rparr>)"
        by (intro store_write.opened) (simp_all add: hm_contains_def)
      with True show ?thesis by auto
    qed auto
    moreover have "hm_contains (dd_downloads ?db1) ?did" using known by (auto simp: hm_contains_def)
    ultimately show ?thesis unfolding db2 by (intro rtranclp_trans [OF _ insert_chunks_writes])
  qed
  with Inr show ?thesis by (auto simp: create_download_def intro!: sql_writes)
qed (simp add: create_download_def)

lemma reconcile_chunk_writes:
  assumes "did \<in> R" and "hm_contains (dd_downloads db) did"
  shows "writes R db (snd (reconcile_chunk did h (n, db)))" and "dd_downloads (snd (reconcile_chunk did h (n, db))) = dd_downloads db"
  using assms
  by (auto simp: reconcile_chunk_def split: prod.splits option.splits intro!: r_into_rtranclp store_write.rehashed store_write.added)

lemma reconcile_chunks_writes:
  assumes "did \<in> R" and "hm_contains (dd_downloads db) did"
  shows "writes R db (snd (fold (reconcile_chunk did) hs (n, db)))"
  using assms(2)
proof (induction hs arbitrary: n db)
  case (Cons h hs)
  obtain m db1 where step: "reconcile_chunk did h (n, db) = (m, db1)" by (metis surj_pair)
  have "writes R db db1" "dd_downloads db1 = dd_downloads db"
    using reconcile_chunk_writes [OF assms(1) Cons(2), of h n] step by simp_all
  with Cons step show ?case by (auto intro: rtranclp_trans)
qed simp

lemma check_newer_Inr: "check_newer did version db = (Inr u, db1) \<Longrightarrow> hm_contains (dd_downloads db1) did"
  by (auto simp: check_newer_def and_then_def fetch_manifest_version_def hm_contains_def
      split: if_splits prod.splits sum.splits dest!: fetch_row_result)

lemma reconcile_writes:
  assumes "did \<in> R"
  shows "writes R db (snd (reconcile_manifest_version did version hashes db))"
  unfolding reconcile_manifest_version_def
proof (rule and_then_writes [OF check_newer_writes])
  fix u db1
  assume "check_newer did version db = (Inr u, db1)"
  then have known: "hm_contains (dd_downloads db1) did" by (rule check_newer_Inr)
  show "writes R db1 (snd (sql (\<lambda>db. let (changed, db') = fold (reconcile_chunk did) hashes
        (0, on_download did (dl_manifest_version_update (\<lambda>_. version)) db)
      in (Inr changed, set_chunk_state did (\<lambda>i _. i \<ge> length hashes) CsFailed db')) db1))"
  proof (rule sql_writes)
    fix fs a db2
    let ?db = "db1\<lparr>dd_faults := fs\<rparr>"
    let ?db1 = "on_download did (dl_manifest_version_update (\<lambda>_. version)) ?db"
    assume "(let (changed, db') = fold (reconcile_chunk did) hashes (0, ?db1)
      in (Inr changed, set_chunk_state did (\<lambda>i _. i \<ge> length hashes) CsFailed db')) = (Inr a, db2)"
    then have db2: "db2 = set_chunk_state did (\<lambda>i _. i \<ge> length hashes) CsFailed (snd (fold (reconcile_chunk did) hashes (0, ?db1)))"
      by (auto split: prod.splits)
    have "writes R ?db ?db1" by (auto intro!: r_into_rtranclp moved_field simp: active_key_def)
    moreover have "writes R ?db1 (snd (fold (reconcile_chunk did) hashes (0, ?db1)))"
      using known by (intro reconcile_chunks_writes [OF assms]) (simp add: hm_contains_def)
    moreover have "store_write R (snd (fold (reconcile_chunk did) hashes (0, ?db1))) db2"
      unfolding db2 using assms by (intro store_write.marked) simp
    ultimately show "writes R ?db db2" by (auto intro: rtranclp_trans rtranclp.rtrancl_into_rtrancl)
  qed
qed

lemma complete_row_moves:
  "active_key (complete_row sz peer t d) = active_key d"
  "dl_state (complete_row sz peer t d) = dl_state d \<or> is_active (dl_state d)"
  by (auto simp: complete_row_def advance_def active_key_def is_active_def Let_def)

lemma verify_chunk_writes:
  assumes "hm_contains (dd_downloads db) did"
  shows "writes R db (verify_chunk_row did sz h db)" and "dd_downloads (verify_chunk_row did sz h db) = dd_downloads db"
proof -
  obtain i sha where h: "h = (i, sha)" by (cases h)
  let ?row = "\<lparr>ck_offset = int i * int CHUNK_SIZE,
    ck_length = max 1 (min (int CHUNK_SIZE) (i64_wrap (int sz) - int i * int CHUNK_SIZE)), ck_sha256 = sha, ck_state = CsVerified\<rparr>"
  have positive: "\<not> int i * int CHUNK_SIZE < 0" by (metis of_nat_mult of_nat_less_0_iff)
  have new: "verify_chunk_row did sz h db = insert_chunk did i ?row db" if "\<not> hm_contains (dd_chunks db) (did, i)"
    using that positive by (simp add: verify_chunk_row_def insert_chunk_def h Let_def)
  have old: "verify_chunk_row did sz h db = set_chunk_state did (\<lambda>j _. j = i) CsVerified db" if "hm_contains (dd_chunks db) (did, i)"
    using that by (simp add: verify_chunk_row_def h)
  show "writes R db (verify_chunk_row did sz h db)" "dd_downloads (verify_chunk_row did sz h db) = dd_downloads db"
    using assms new old by (cases "hm_contains (dd_chunks db) (did, i)"; auto intro!: r_into_rtranclp store_write.marked store_write.added)+
qed

lemma verify_chunks_writes:
  "hm_contains (dd_downloads db) did \<Longrightarrow> writes R db (fold (verify_chunk_row did sz) hs db)"
proof (induction hs arbitrary: db)
  case (Cons h hs)
  from verify_chunk_writes(1) [OF Cons(2), of R sz h] verify_chunk_writes(2) [OF Cons(2), of sz h] Cons show ?case by (auto intro: rtranclp_trans)
qed simp

lemma mark_complete_writes: "writes R db (snd (mark_complete did sz peer hashes db))"
  unfolding mark_complete_def
proof (rule sql_writes)
  fix fs a db2
  let ?db = "db\<lparr>dd_faults := fs\<rparr>"
  let ?db1 = "on_download did (complete_row sz peer (dd_clock ?db)) ?db"
  assume "(if hashes \<noteq> [] \<and> \<not> hm_contains (dd_downloads ?db) did then (Inl (Sqlx ''FOREIGN KEY constraint failed''), ?db)
    else if i64_wrap (int sz) < 0 \<and> (case hm_get (dd_downloads ?db) did of None \<Rightarrow> False
        | Some d \<Rightarrow> is_active (dl_state d) \<and> dl_state d \<noteq> DsPaused) then (Inl (Sqlx ''CHECK constraint failed''), ?db)
    else (Inr (), fold (verify_chunk_row did sz) hashes ?db1)) = (Inr a, db2)"
  then have db2: "db2 = fold (verify_chunk_row did sz) hashes ?db1" and known: "hashes = [] \<or> hm_contains (dd_downloads ?db) did"
    by (auto split: if_splits)
  have first: "writes R ?db ?db1" using complete_row_moves by (intro r_into_rtranclp store_write.moved) blast
  show "writes R ?db db2"
  proof (cases "hashes = []")
    case True
    with first db2 show ?thesis by simp
  next
    case False
    with known have "hm_contains (dd_downloads ?db1) did" by (simp add: hm_contains_def)
    from rtranclp_trans [OF first verify_chunks_writes [OF this]] db2 show ?thesis by simp
  qed
qed

section \<open>What writes keep\<close>

lemma store_inv_opened:
  assumes inv: "store_inv db" and new: "hm_get (dd_downloads db) did = None" and free: "\<not> active_conflict row db"
  shows "store_inv (db\<lparr>dd_downloads := hm_insert did row (dd_downloads db)\<rparr>)"
proof -
  have other: "\<not> (is_active (dl_state e) \<and> active_key e = active_key row)" if "hm_get (dd_downloads db) k = Some e" for k e
    using free hm_get_SomeD [OF that] by (auto simp: active_conflict_def list_ex_iff)
  have "a = b" if "hm_get (hm_insert did row (dd_downloads db)) a = Some d" "hm_get (hm_insert did row (dd_downloads db)) b = Some e"
      "is_active (dl_state d)" "is_active (dl_state e)" "active_key d = active_key e" for a b d e
  proof (cases "a = did \<or> b = did")
    case True
    with that other [of a d] other [of b e] show ?thesis by (auto split: if_splits)
  next
    case False
    with that have "hm_get (dd_downloads db) a = Some d" "hm_get (dd_downloads db) b = Some e" by auto
    with that(3-5) inv show ?thesis unfolding store_inv_def by blast
  qed
  then have unique: "\<forall>a b d e. hm_get (hm_insert did row (dd_downloads db)) a = Some d
      \<and> hm_get (hm_insert did row (dd_downloads db)) b = Some e \<and> is_active (dl_state d) \<and> is_active (dl_state e)
      \<and> active_key d = active_key e \<longrightarrow> a = b" by blast
  have rows: "\<forall>k i r. hm_get (dd_chunks db) (k, i) = Some r \<longrightarrow>
      hm_contains (hm_insert did row (dd_downloads db)) k \<and> 0 \<le> ck_offset r \<and> 0 < ck_length r"
    using inv unfolding store_inv_def hm_contains_def hm_get_insert by (metis option.distinct(1))
  have "hm_wf (hm_insert did row (dd_downloads db))" "hm_wf (dd_chunks db)" using inv by (simp_all add: store_inv_def)
  with unique rows show ?thesis by (cases db) (simp only: store_inv_def download_db.simps simp_thms)
qed

lemma write_keeps_inv:
  assumes "store_write R db db'" and "store_inv db"
  shows "store_inv db'"
  using assms
proof (cases rule: store_write.cases)
  case (opened did row)
  with assms(2) show ?thesis by (simp add: store_inv_opened)
next
  case (added did i row)
  with assms(2) show ?thesis by (simp add: store_inv_insert_chunk)
next
  case (moved did f)
  have "store_inv (on_download did f db)"
    by (rule store_inv_on_download [OF assms(2)]) (metis moved(2))
  with moved(1) show ?thesis by simp
next
  case (rehashed did i sha)
  with assms(2) show ?thesis by (fastforce simp: store_inv_def split: if_splits)
qed (auto simp: store_inv_faults store_inv_set_chunk_state store_inv_def)

definition ended :: "rstring \<Rightarrow> download_state \<Rightarrow> download_db \<Rightarrow> bool" where
  "ended did st db \<longleftrightarrow> \<not> is_active st \<and> map_option dl_state (hm_get (dd_downloads db) did) = Some st"

lemma write_keeps_ended:
  assumes "store_write R db db'" and "ended did st db"
  shows "ended did st db'"
  using assms
proof (cases rule: store_write.cases)
  case (opened k row)
  with assms(2) show ?thesis by (auto simp: ended_def)
next
  case (moved k f)
  show ?thesis
  proof (cases "k = did")
    case True
    with moved assms(2) show ?thesis by (auto simp: ended_def)
  qed (use moved assms(2) in \<open>auto simp: ended_def\<close>)
qed (auto simp: ended_def)

definition verified_chunk :: "rstring \<Rightarrow> nat \<Rightarrow> rstring \<Rightarrow> download_db \<Rightarrow> bool" where
  "verified_chunk did i sha db \<longleftrightarrow>
     (\<exists>row. hm_get (dd_chunks db) (did, i) = Some row \<and> ck_state row = CsVerified \<and> ck_sha256 row = sha)"

lemma write_keeps_verified:
  assumes "store_write R db db'" and "verified_chunk did i sha db" and "did \<notin> R"
  shows "verified_chunk did i sha db'"
  using assms
proof (cases rule: store_write.cases)
  case (added k j row)
  with assms(2) show ?thesis by (auto simp: verified_chunk_def insert_chunk_def hm_contains_def)
next
  case (marked k c st)
  from assms(2) obtain row where row: "hm_get (dd_chunks db) (did, i) = Some row" "ck_state row = CsVerified" "ck_sha256 row = sha"
    by (auto simp: verified_chunk_def)
  then have "did = k \<and> c i row \<Longrightarrow> st = CsVerified" using marked(2) [of i row] assms(3) by auto
  with row marked(1) show ?thesis by (auto simp: verified_chunk_def)
next
  case (rehashed k j h)
  with assms(2,3) show ?thesis by (auto simp: verified_chunk_def)
qed (auto simp: verified_chunk_def)

section \<open>The store as a machine\<close>

datatype store_op =
  OpCreate new_download "chunk_spec list"
| OpVerified rstring nat rstring
| OpReceived rstring nat
| OpReset rstring
| OpTransition rstring download_state
| OpFail rstring rstring
| OpError rstring rstring
| OpPeer rstring rstring
| OpBind rstring int
| OpReconcile rstring int "(nat \<times> rstring) list"
| OpComplete rstring nat "rstring option" "(nat \<times> rstring) list"
| OpElapse int "string option list"

fun store_step :: "download_db \<Rightarrow> store_op \<Rightarrow> download_db" where
  "store_step db (OpCreate new specs) = snd (create_download new specs db)"
| "store_step db (OpVerified did i sha) = snd (mark_chunk_verified did i sha db)"
| "store_step db (OpReceived did i) = snd (mark_chunk_received did i db)"
| "store_step db (OpReset did) = snd (reset_in_flight_to_pending did db)"
| "store_step db (OpTransition did st) = snd (transition did st db)"
| "store_step db (OpFail did msg) = snd (mark_failed did msg db)"
| "store_step db (OpError did msg) = snd (set_last_error did msg db)"
| "store_step db (OpPeer did peer) = snd (set_source_peer_id did peer db)"
| "store_step db (OpBind did version) = snd (bind_manifest_version did version db)"
| "store_step db (OpReconcile did version hashes) = snd (reconcile_manifest_version did version hashes db)"
| "store_step db (OpComplete did sz peer hashes) = snd (mark_complete did sz peer hashes db)"
| "store_step db (OpElapse t fs) = db\<lparr>dd_clock := t, dd_faults := fs\<rparr>"

fun reconciled :: "store_op \<Rightarrow> rstring set" where
  "reconciled (OpReconcile did version hashes) = {did}"
| "reconciled _ = {}"

lemma store_step_writes: "reconciled op \<subseteq> R \<Longrightarrow> writes R db (store_step db op)"
proof (cases op)
  case (OpElapse t fs)
  have "store_write R db (db\<lparr>dd_clock := t\<rparr>)" "store_write R (db\<lparr>dd_clock := t\<rparr>) (db\<lparr>dd_clock := t, dd_faults := fs\<rparr>)"
    by (rule store_write.clock, rule store_write.faults)
  with OpElapse show ?thesis by simp
qed (auto intro: create_writes mark_chunk_verified_writes mark_chunk_received_writes reset_writes transition_writes
    mark_failed_writes field_writes bind_writes reconcile_writes mark_complete_writes)

lemma writes_keep:
  assumes "writes R db db'" and "P db" and "\<And>db db'. store_write R db db' \<Longrightarrow> P db \<Longrightarrow> P db'"
  shows "P db'"
  using assms(1,2) by (induction rule: rtranclp_induct) (auto intro: assms(3))

interpretation store: invariant_machine store_step store_inv
  by unfold_locales (rule writes_keep [where P = store_inv, OF store_step_writes [of _ UNIV]], auto intro: write_keeps_inv)

interpretation finished: invariant_machine store_step "ended did st" for did st
  by unfold_locales (rule writes_keep [where P = "ended did st", OF store_step_writes [of _ UNIV]], auto intro: write_keeps_ended)

lemma verified_run:
  assumes "verified_chunk did i sha db" and "did \<notin> \<Union> (reconciled ` set ops)"
  shows "verified_chunk did i sha (foldl store_step db ops)"
  using assms
proof (induction ops arbitrary: db)
  case (Cons op ops)
  have "verified_chunk did i sha (store_step db op)"
    by (rule writes_keep [where P = "verified_chunk did i sha", OF store_step_writes [of op "- {did}"] Cons(2)])
      (use Cons(3) in \<open>auto intro: write_keeps_verified\<close>)
  with Cons show ?case by simp
qed simp

section \<open>Properties\<close>

text \<open>
  C19: whatever operations run and whichever of their statements fail, the tables stay
  consistent: keys are unique, every chunk belongs to a download and is a non-empty range of it,
  and no user has two active downloads of one medium in one room.
\<close>

theorem download_store_consistent:
  "store_inv (foldl store_step \<lparr>dd_downloads = [], dd_chunks = [], dd_clock = 0, dd_faults = []\<rparr> ops)"
  by (rule store.run_inv) (simp add: store_inv_def)

text \<open>
  C20: a download that is complete, failed or cancelled keeps that state through every later
  operation, deduplication and reconciliation included.
\<close>

theorem ended_download_stays:
  assumes "hm_get (dd_downloads db) did = Some d" and "dl_state d \<in> {DsComplete, DsFailed, DsCancelled}"
  shows "\<exists>d'. hm_get (dd_downloads (foldl store_step db ops)) did = Some d' \<and> dl_state d' = dl_state d"
proof -
  have "ended did (dl_state d) db" using assms by (auto simp: ended_def is_active_def)
  from finished.run_inv [OF this, of ops] show ?thesis by (auto simp: ended_def)
qed

text \<open>
  A verified chunk stays verified, with its digest, through every sequence of operations that
  does not reconcile its download with a new manifest: late arrivals, resets after a reconnect
  and repeated verification do not undo it, so resumed work is never lost.
\<close>

theorem verified_chunk_stays:
  assumes "hm_get (dd_chunks db) (did, i) = Some row" and "ck_state row = CsVerified"
    and "did \<notin> \<Union> (reconciled ` set ops)"
  shows "\<exists>row'. hm_get (dd_chunks (foldl store_step db ops)) (did, i) = Some row'
    \<and> ck_state row' = CsVerified \<and> ck_sha256 row' = ck_sha256 row"
  using verified_run [of did i "ck_sha256 row" db ops] assms by (auto simp: verified_chunk_def)

section \<open>Witnesses\<close>

definition sample_db :: "download_state \<Rightarrow> chunk_state \<Rightarrow> download_db" where
  "sample_db st c =
     \<lparr>dd_downloads = [([1], \<lparr>dl_media_id = [2], dl_room_id = None, dl_user_id = [3], dl_state = st, dl_total_bytes = 10,
        dl_transferred_bytes = 0, dl_started_at = 0, dl_completed_at = None, dl_last_error = None,
        dl_source_peer_id = None, dl_chunk_size_bytes = int CHUNK_SIZE, dl_manifest_version = 1\<rparr>)],
      dd_chunks = [(([1], 0), \<lparr>ck_offset = 0, ck_length = 10, ck_sha256 = [7], ck_state = c\<rparr>)],
      dd_clock = 0, dd_faults = []\<rparr>"

theorem ended_download_stays_witness:
  "\<exists>d'. hm_get (dd_downloads (foldl store_step (sample_db DsComplete CsVerified)
     [OpTransition [1] DsTransferring, OpFail [1] [], OpComplete [1] 3 None [(0, [8])]])) [1] = Some d' \<and> dl_state d' = DsComplete"
proof -
  obtain d where d: "hm_get (dd_downloads (sample_db DsComplete CsVerified)) [1] = Some d" "dl_state d = DsComplete"
    by (simp add: sample_db_def)
  then have "dl_state d \<in> {DsComplete, DsFailed, DsCancelled}" by simp
  from ended_download_stays [OF d(1) this] show ?thesis unfolding d(2) .
qed

theorem verified_chunk_stays_witness:
  "\<exists>row'. hm_get (dd_chunks (foldl store_step (sample_db DsTransferring CsVerified)
     [OpReceived [1] 0, OpReset [1], OpReconcile [9] 2 [(0, [8])]])) ([1], 0) = Some row'
     \<and> ck_state row' = CsVerified \<and> ck_sha256 row' = [7]"
proof -
  obtain row where row: "hm_get (dd_chunks (sample_db DsTransferring CsVerified)) ([1], 0) = Some row"
      "ck_state row = CsVerified" "ck_sha256 row = [7]"
    by (simp add: sample_db_def)
  have "[1] \<notin> \<Union> (reconciled ` set [OpReceived [1] 0, OpReset [1], OpReconcile [9] 2 [(0, [8])]])" by simp
  from verified_chunk_stays [OF row(1,2) this] show ?thesis unfolding row(3) .
qed

end
