(* ===== verification/FileStore.thy ===== *)
theory FileStore
  imports Names
begin

text \<open>
  The client's files: chunk files and the staging file below \<open>tmp/\<close>, the content-addressed library,
  and the two routines that move bytes into it, \<open>assemble_and_finalize\<close> of \<open>transfer/assemble.rs\<close>
  and \<open>complete_download\<close> of \<open>library/fs.rs\<close>. Every call to the file system may fail, and a failing
  write may have written part of its bytes.
\<close>

section \<open>The file system\<close>

text \<open>
  The regular files by path; \<open>dk_faults\<close> says of the next calls which fail, with how many bytes a
  failing write still wrote. Directories appear only in the answers of \<open>os_view\<close>.
\<close>

datatype io_error = IoNotFound | IoFault string

record disk =
  dk_files :: "(path, bytes) hashmap"
  dk_faults :: "(string \<times> nat) option list"

record os_view =
  ov_is_dir :: "path \<Rightarrow> io_error + bool"
  ov_canonicalize :: "path \<Rightarrow> io_error + path"
  ov_nfc :: "rstring \<Rightarrow> rstring"

definition on_ok :: "('e + 'a) \<times> 's \<Rightarrow> ('a \<Rightarrow> 's \<Rightarrow> ('e + 'b) \<times> 's) \<Rightarrow> ('e + 'b) \<times> 's" where
  "on_ok r k = (case r of (Inl e, s) \<Rightarrow> (Inl e, s) | (Inr a, s) \<Rightarrow> k a s)"

definition map_err :: "('e \<Rightarrow> 'f) \<Rightarrow> ('e + 'a) \<times> 's \<Rightarrow> ('f + 'a) \<times> 's" where
  "map_err g r = (case r of (Inl e, s) \<Rightarrow> (Inl (g e), s) | (Inr a, s) \<Rightarrow> (Inr a, s))"

definition io :: "(disk \<Rightarrow> (io_error + 'a) \<times> disk) \<Rightarrow> disk \<Rightarrow> (io_error + 'a) \<times> disk" where
  "io f dk =
     (case dk_faults dk of
        [] \<Rightarrow> f dk
      | None # fs \<Rightarrow> f (dk\<lparr>dk_faults := fs\<rparr>)
      | Some (m, _) # fs \<Rightarrow> (Inl (IoFault m), dk\<lparr>dk_faults := fs\<rparr>))"

definition content :: "path \<Rightarrow> disk \<Rightarrow> bytes" where
  "content p dk = (case hm_get (dk_files dk) p of None \<Rightarrow> [] | Some bs \<Rightarrow> bs)"

definition io_call :: "disk \<Rightarrow> (io_error + unit) \<times> disk" where
  "io_call = io (\<lambda>dk. (Inr (), dk))"

definition open_file :: "path \<Rightarrow> disk \<Rightarrow> (io_error + bytes) \<times> disk" where
  "open_file p = io (\<lambda>dk. case hm_get (dk_files dk) p of None \<Rightarrow> (Inl IoNotFound, dk) | Some bs \<Rightarrow> (Inr bs, dk))"

definition file_len :: "path \<Rightarrow> disk \<Rightarrow> (io_error + nat) \<times> disk" where
  "file_len p dk = on_ok (open_file p dk) (\<lambda>bs dk. (Inr (length bs), dk))"

definition file_exists :: "path \<Rightarrow> disk \<Rightarrow> (io_error + bool) \<times> disk" where
  "file_exists p = io (\<lambda>dk. (Inr (hm_contains (dk_files dk) p), dk))"

definition create_file :: "path \<Rightarrow> disk \<Rightarrow> (io_error + unit) \<times> disk" where
  "create_file p = io (\<lambda>dk. (Inr (), dk\<lparr>dk_files := hm_insert p [] (dk_files dk)\<rparr>))"

definition append_file :: "path \<Rightarrow> bytes \<Rightarrow> disk \<Rightarrow> (io_error + unit) \<times> disk" where
  "append_file p bs dk =
     (let put = (\<lambda>n fs. dk\<lparr>dk_files := hm_insert p (content p dk @ take n bs) (dk_files dk), dk_faults := fs\<rparr>)
      in case dk_faults dk of
           [] \<Rightarrow> (Inr (), put (length bs) [])
         | None # fs \<Rightarrow> (Inr (), put (length bs) fs)
         | Some (m, n) # fs \<Rightarrow> (Inl (IoFault m), put n fs))"

definition remove_file :: "path \<Rightarrow> disk \<Rightarrow> (io_error + unit) \<times> disk" where
  "remove_file p = io (\<lambda>dk. if hm_contains (dk_files dk) p
     then (Inr (), dk\<lparr>dk_files := hm_remove p (dk_files dk)\<rparr>) else (Inl IoNotFound, dk))"

definition rename_file :: "path \<Rightarrow> path \<Rightarrow> disk \<Rightarrow> (io_error + unit) \<times> disk" where
  "rename_file p q = io (\<lambda>dk. case hm_get (dk_files dk) p of
       None \<Rightarrow> (Inl IoNotFound, dk)
     | Some bs \<Rightarrow> (Inr (), dk\<lparr>dk_files := hm_insert q bs (hm_remove p (dk_files dk))\<rparr>))"

text \<open>A directory exists when it holds a file.\<close>

definition remove_dir_if_exists :: "path \<Rightarrow> disk \<Rightarrow> (io_error + unit) \<times> disk" where
  "remove_dir_if_exists p dk =
     (if list_ex (\<lambda>(q, _). starts_with p q) (dk_files dk)
      then io (\<lambda>dk. (Inr (), dk\<lparr>dk_files := filter (\<lambda>(q, _). \<not> starts_with p q) (dk_files dk)\<rparr>)) dk
      else (Inr (), dk))"

section \<open>Completing a download\<close>

datatype fs_error =
  LibraryRootInvalid
| FsInvalidSha path_error
| FsInvalidFilename
| StagingSourceMissing
| PathEscapesLibrary
| DestinationAlreadyExists
| CreateDir
| RenameFailed
| FsPanic

definition assert_within :: "path \<Rightarrow> path \<Rightarrow> bool" where
  "assert_within canonical_root p \<longleftrightarrow> starts_with canonical_root p"

text \<open>From the destination on: its directory, the check that it is free, the rename.\<close>

definition move_into_library :: "os_view \<Rightarrow> path \<Rightarrow> path \<Rightarrow> path \<Rightarrow> disk \<Rightarrow> (fs_error + path) \<times> disk" where
  "move_into_library ov croot src dst dk =
     on_ok (map_err (\<lambda>_. CreateDir) (io_call dk)) (\<lambda>_ dk.
       case ov_canonicalize ov (butlast dst) of
         Inl _ \<Rightarrow> (Inl CreateDir, dk)
       | Inr cparent \<Rightarrow>
           if \<not> assert_within croot cparent then (Inl PathEscapesLibrary, dk)
           else case file_exists dst dk of
                  (Inr True, dk) \<Rightarrow> (Inl DestinationAlreadyExists, dk)
                | (_, dk) \<Rightarrow> on_ok (map_err (\<lambda>_. RenameFailed) (rename_file src dst dk)) (\<lambda>_ dk. (Inr dst, dk)))"

definition complete_download ::
    "os_view \<Rightarrow> path \<Rightarrow> rstring \<Rightarrow> path \<Rightarrow> rstring \<Rightarrow> disk \<Rightarrow> (fs_error + path) \<times> disk" where
  "complete_download ov root sha src name dk =
     (case ov_is_dir ov root of
        Inl _ \<Rightarrow> (Inl LibraryRootInvalid, dk)
      | Inr False \<Rightarrow> (Inl LibraryRootInvalid, dk)
      | Inr True \<Rightarrow>
     (case ov_canonicalize ov root of
        Inl _ \<Rightarrow> (Inl LibraryRootInvalid, dk)
      | Inr croot \<Rightarrow>
     (case validate_sha sha of
        Inl e \<Rightarrow> (Inl (FsInvalidSha e), dk)
      | Inr _ \<Rightarrow>
          on_ok (map_err (\<lambda>_. StagingSourceMissing) (file_len src dk)) (\<lambda>_ dk.
            case ov_canonicalize ov src of
              Inl _ \<Rightarrow> (Inl StagingSourceMissing, dk)
            | Inr csrc \<Rightarrow>
                if \<not> assert_within croot csrc then (Inl PathEscapesLibrary, dk)
                else (case sanitize (ov_nfc ov) name of
                        Inl _ \<Rightarrow> (Inl FsInvalidFilename, dk)
                      | Inr out \<Rightarrow>
                          (case content_addressed_path root sha out of
                             Inl _ \<Rightarrow> (Inl FsPanic, dk)
                           | Inr dst \<Rightarrow> move_into_library ov croot src dst dk))))))"

section \<open>Assembly\<close>

datatype assemble_error =
  ChunkMissing path
| ChunkFileLength path nat nat
| AIo string
| APath path_error
| APathEscapesLibrary
| ABlake3Mismatch
| ASha256Mismatch
| ACompletion fs_error

definition IO_SCRATCH :: nat where "IO_SCRATCH = CHUNK_SIZE"

definition io_text :: "io_error \<Rightarrow> string" where
  "io_text e = (case e of IoNotFound \<Rightarrow> ''not found'' | IoFault m \<Rightarrow> m)"

text \<open>
  One chunk file, already open, copied in pieces of the scratch buffer; the last read returns
  nothing. \<open>h\<close> is what the two streaming hashers have absorbed.
\<close>

fun copy_pieces :: "path \<Rightarrow> bytes list \<Rightarrow> bytes \<Rightarrow> disk \<Rightarrow> (io_error + bytes) \<times> disk" where
  "copy_pieces out [] h dk = on_ok (io_call dk) (\<lambda>_ dk. (Inr h, dk))"
| "copy_pieces out (piece # pieces) h dk =
     on_ok (io_call dk) (\<lambda>_ dk. on_ok (append_file out piece dk) (\<lambda>_ dk. copy_pieces out pieces (h @ piece) dk))"

fun copy_chunks ::
    "path \<Rightarrow> rstring \<Rightarrow> path \<Rightarrow> (nat \<times> nat) list \<Rightarrow> bytes \<Rightarrow> disk \<Rightarrow> (assemble_error + bytes) \<times> disk" where
  "copy_chunks root did out [] h dk = (Inr h, dk)"
| "copy_chunks root did out ((i, expected_len) # rest) h dk =
     (case incomplete_chunk_path root did i of
        Inl e \<Rightarrow> (Inl (APath e), dk)
      | Inr p \<Rightarrow>
          on_ok (map_err (\<lambda>e. case e of IoNotFound \<Rightarrow> ChunkMissing p | IoFault m \<Rightarrow> AIo m) (file_len p dk)) (\<lambda>len dk.
            if len \<noteq> expected_len then (Inl (ChunkFileLength p len expected_len), dk)
            else on_ok (map_err (AIo \<circ> io_text) (open_file p dk)) (\<lambda>bs dk.
                 on_ok (map_err (AIo \<circ> io_text) (copy_pieces out (chunks IO_SCRATCH bs) h dk)) (\<lambda>h dk.
                 copy_chunks root did out rest h dk))))"

fun read_pieces :: "bytes list \<Rightarrow> bytes \<Rightarrow> disk \<Rightarrow> (io_error + bytes) \<times> disk" where
  "read_pieces [] h dk = on_ok (io_call dk) (\<lambda>_ dk. (Inr h, dk))"
| "read_pieces (piece # pieces) h dk = on_ok (io_call dk) (\<lambda>_ dk. read_pieces pieces (h @ piece) dk)"

definition verify_full_blake3_via_file ::
    "digests \<Rightarrow> path \<Rightarrow> nat \<Rightarrow> rstring \<Rightarrow> disk \<Rightarrow> (chunk_verify_error + rstring) \<times> disk" where
  "verify_full_blake3_via_file dg p expected_size expected dk =
     (let failed = (\<lambda>_. VerifyLengthMismatch 0 expected_size)
      in on_ok (map_err failed (file_len p dk)) (\<lambda>len dk.
           if len \<noteq> expected_size then (Inl (VerifyLengthMismatch len expected_size), dk)
           else on_ok (map_err failed (open_file p dk)) (\<lambda>bs dk.
                on_ok (map_err failed (read_pieces (chunks IO_SCRATCH bs) [] dk)) (\<lambda>h dk.
                  let got = dg_blake3_hex dg h
                  in if got \<noteq> expected then (Inl (Blake3Mismatch got expected), dk) else (Inr got, dk)))))"

definition assemble_verify_error :: "chunk_verify_error \<Rightarrow> assemble_error" where
  "assemble_verify_error e =
     (case e of
        Blake3Mismatch _ _ \<Rightarrow> ABlake3Mismatch
      | VerifyLengthMismatch _ _ \<Rightarrow> AIo ''size changed between passes''
      | Sha256Mismatch _ _ \<Rightarrow> AIo ''impossible'')"

definition assemble_fs_error :: "fs_error \<Rightarrow> assemble_error" where
  "assemble_fs_error e = (case e of PathEscapesLibrary \<Rightarrow> APathEscapesLibrary | _ \<Rightarrow> ACompletion e)"

text \<open>After the copy: the size, the SHA-256, the BLAKE3 of the file as it is on disk, the move.\<close>

definition finalize_staging ::
    "os_view \<Rightarrow> digests \<Rightarrow> path \<Rightarrow> rstring \<Rightarrow> rstring \<Rightarrow> rstring \<Rightarrow> nat \<Rightarrow> path \<Rightarrow> bytes \<Rightarrow> disk
       \<Rightarrow> (assemble_error + path \<times> rstring) \<times> disk" where
  "finalize_staging ov dg root sha name expected_blake3 total_bytes staging h dk =
     (if length h \<noteq> total_bytes then (Inl (AIo ''size''), dk)
      else if dg_sha256_hex dg h \<noteq> sha then (Inl ASha256Mismatch, snd (remove_file staging dk))
      else on_ok (map_err assemble_verify_error
                   (verify_full_blake3_via_file dg staging total_bytes expected_blake3 dk)) (\<lambda>final_blake3 dk.
           on_ok (map_err assemble_fs_error (complete_download ov root sha staging name dk)) (\<lambda>final_path dk.
             (Inr (final_path, final_blake3), dk))))"

definition assemble_and_finalize ::
    "os_view \<Rightarrow> digests \<Rightarrow> path \<Rightarrow> rstring \<Rightarrow> rstring \<Rightarrow> rstring \<Rightarrow> rstring \<Rightarrow> (nat \<times> nat) list \<Rightarrow> nat \<Rightarrow> disk
       \<Rightarrow> (assemble_error + path \<times> rstring) \<times> disk" where
  "assemble_and_finalize ov dg root did sha name expected_blake3 chunk_lengths total_bytes dk =
     (case validate_sha sha of
        Inl e \<Rightarrow> (Inl (APath e), dk)
      | Inr _ \<Rightarrow>
     (case staging_partial_path root did sha of
        Inl e \<Rightarrow> (Inl (APath e), dk)
      | Inr staging \<Rightarrow>
          on_ok (map_err (AIo \<circ> io_text) (io_call dk)) (\<lambda>_ dk.
          on_ok (map_err (AIo \<circ> io_text) (create_file staging dk)) (\<lambda>_ dk.
          on_ok (copy_chunks root did staging chunk_lengths [] dk) (\<lambda>h dk.
          on_ok (map_err (AIo \<circ> io_text) (io_call dk)) (\<lambda>_ dk.
          on_ok (map_err (AIo \<circ> io_text) (io_call dk)) (\<lambda>_ dk.
            finalize_staging ov dg root sha name expected_blake3 total_bytes staging h dk)))))))"

definition cleanup_incomplete :: "path \<Rightarrow> rstring \<Rightarrow> disk \<Rightarrow> (io_error + unit) \<times> disk" where
  "cleanup_incomplete root did dk =
     on_ok (remove_dir_if_exists (root @ [ascii ''tmp'', ascii ''incomplete'', did]) dk) (\<lambda>_ dk.
       remove_dir_if_exists (root @ [ascii ''tmp'', ascii ''staging'', did]) dk)"

text \<open>A verified chunk written to its file, \<open>write_chunk_to_incomplete\<close> of \<open>transfer/session.rs\<close>.\<close>

definition write_chunk_to_incomplete ::
    "path \<Rightarrow> rstring \<Rightarrow> nat \<Rightarrow> bytes \<Rightarrow> disk \<Rightarrow> (io_error + path) \<times> disk" where
  "write_chunk_to_incomplete root did i bs dk =
     (case incomplete_chunk_path root did i of
        Inl _ \<Rightarrow> (Inl (IoFault ''path''), dk)
      | Inr p \<Rightarrow>
          on_ok (io_call dk) (\<lambda>_ dk.
          on_ok (create_file p dk) (\<lambda>_ dk.
          on_ok (append_file p bs dk) (\<lambda>_ dk.
          on_ok (io_call dk) (\<lambda>_ dk. (Inr p, dk))))))"

section \<open>What the operations write\<close>

definition same_except :: "(path \<Rightarrow> bool) \<Rightarrow> disk \<Rightarrow> disk \<Rightarrow> bool" where
  "same_except W dk dk' \<longleftrightarrow> (\<forall>q. \<not> W q \<longrightarrow> hm_get (dk_files dk') q = hm_get (dk_files dk) q)"

named_theorems writes_only

lemma same_except_refl [simp]: "same_except W dk dk"
  by (simp add: same_except_def)

lemma same_except_faults [simp]: "same_except W (dk\<lparr>dk_faults := fs\<rparr>) dk' = same_except W dk dk'"
  "same_except W dk (dk'\<lparr>dk_faults := fs\<rparr>) = same_except W dk dk'"
  by (simp_all add: same_except_def)

lemma same_except_trans: "same_except W a b \<Longrightarrow> same_except W b c \<Longrightarrow> same_except W a c"
  by (simp add: same_except_def)

lemma same_except_mono: "same_except W a b \<Longrightarrow> (\<And>q. W q \<Longrightarrow> V q) \<Longrightarrow> same_except V a b"
  by (auto simp: same_except_def)

lemma on_ok_writes:
  assumes "same_except W dk (snd r)" and "\<And>a dk'. r = (Inr a, dk') \<Longrightarrow> same_except W dk' (snd (k a dk'))"
  shows "same_except W dk (snd (on_ok r k))"
  using assms by (cases r) (auto simp: on_ok_def split: sum.splits intro: same_except_trans)

lemma map_err_snd [simp]: "snd (map_err g r) = snd r"
  by (auto simp: map_err_def split: prod.splits sum.splits)

lemma io_writes: "(\<And>d. same_except W d (snd (f d))) \<Longrightarrow> same_except W dk (snd (io f dk))"
  by (auto simp: io_def split: list.splits option.splits) (metis same_except_faults(1))

lemma io_call_writes [writes_only]: "same_except W dk (snd (io_call dk))"
  unfolding io_call_def by (rule io_writes) simp

lemma open_file_writes [writes_only]: "same_except W dk (snd (open_file p dk))"
  unfolding open_file_def by (rule io_writes) (simp split: option.splits)

lemma file_len_writes [writes_only]: "same_except W dk (snd (file_len p dk))"
  unfolding file_len_def by (intro on_ok_writes open_file_writes) simp

lemma file_exists_writes [writes_only]: "same_except W dk (snd (file_exists p dk))"
  unfolding file_exists_def by (rule io_writes) simp

lemma create_file_writes [writes_only]: "W p \<Longrightarrow> same_except W dk (snd (create_file p dk))"
  unfolding create_file_def by (rule io_writes) (auto simp: same_except_def)

lemma remove_file_writes [writes_only]: "W p \<Longrightarrow> same_except W dk (snd (remove_file p dk))"
  unfolding remove_file_def by (rule io_writes) (auto simp: same_except_def)

lemma rename_file_writes [writes_only]: "W p \<Longrightarrow> W q \<Longrightarrow> same_except W dk (snd (rename_file p q dk))"
  unfolding rename_file_def by (rule io_writes) (auto simp: same_except_def split: option.splits)

lemma append_file_writes [writes_only]: "W p \<Longrightarrow> same_except W dk (snd (append_file p bs dk))"
  by (auto simp: append_file_def same_except_def Let_def split: list.splits option.splits)

lemma copy_pieces_writes [writes_only]: "W out \<Longrightarrow> same_except W dk (snd (copy_pieces out pieces h dk))"
  by (induction pieces arbitrary: h dk) (auto intro!: on_ok_writes writes_only)

lemma read_pieces_writes [writes_only]: "same_except W dk (snd (read_pieces pieces h dk))"
  by (induction pieces arbitrary: h dk) (auto intro!: on_ok_writes writes_only)

lemma copy_chunks_writes [writes_only]: "W out \<Longrightarrow> same_except W dk (snd (copy_chunks root did out lens h dk))"
proof (induction lens arbitrary: h dk)
  case (Cons l lens)
  obtain i n where l: "l = (i, n)" by (cases l)
  from Cons show ?case unfolding l
    by (auto split: sum.splits intro!: on_ok_writes writes_only)
qed simp

lemma verify_file_writes [writes_only]: "same_except W dk (snd (verify_full_blake3_via_file dg p n x dk))"
  unfolding verify_full_blake3_via_file_def Let_def by (auto intro!: on_ok_writes writes_only)

section \<open>What a successful operation did\<close>

named_theorems io_results

lemma on_ok_Inr: "on_ok r k = (Inr b, s) \<longleftrightarrow> (\<exists>a s'. r = (Inr a, s') \<and> k a s' = (Inr b, s))"
  by (cases r) (auto simp: on_ok_def split: sum.splits)

lemma map_err_Inr: "map_err g r = (Inr a, s) \<longleftrightarrow> r = (Inr a, s)"
  by (cases r) (auto simp: map_err_def split: sum.splits)

text \<open>Which of a routine's tests a success has passed: every early return is \<open>Inl\<close>.\<close>

lemma case_sum_Inr:
  "(case x of Inl e \<Rightarrow> (Inl (g e), s) | Inr a \<Rightarrow> k a) = (Inr b, s') \<longleftrightarrow> (\<exists>a. x = Inr a \<and> k a = (Inr b, s'))"
  by (cases x) auto

lemma if_Inl_Inr: "(if c then (Inl e, s) else r) = (Inr b, s') \<longleftrightarrow> \<not> c \<and> r = (Inr b, s')"
  by simp

lemma case_bool_Inr: "(case c of True \<Rightarrow> r | False \<Rightarrow> (Inl e, s)) = (Inr b, s') \<longleftrightarrow> c \<and> r = (Inr b, s')"
  by (cases c) auto

lemmas ok_iff = on_ok_Inr map_err_Inr case_sum_Inr if_Inl_Inr case_bool_Inr

lemma content_faults [simp]: "content p (dk\<lparr>dk_faults := fs\<rparr>) = content p dk"
  by (simp add: content_def)

lemma io_call_Inr [io_results]: "io_call dk = (Inr u, dk') \<Longrightarrow> dk_files dk' = dk_files dk"
  by (auto simp: io_call_def io_def split: list.splits option.splits)

lemma open_file_Inr [io_results]:
  "open_file p dk = (Inr bs, dk') \<Longrightarrow> dk_files dk' = dk_files dk \<and> hm_get (dk_files dk) p = Some bs \<and> bs = content p dk"
  by (auto simp: open_file_def io_def content_def split: list.splits option.splits)

lemma file_len_Inr [io_results]:
  "file_len p dk = (Inr n, dk') \<Longrightarrow> dk_files dk' = dk_files dk \<and> n = length (content p dk)"
  by (auto simp: file_len_def on_ok_Inr dest: open_file_Inr)

lemma create_file_Inr [io_results]: "create_file p dk = (Inr u, dk') \<Longrightarrow> dk_files dk' = hm_insert p [] (dk_files dk)"
  by (auto simp: create_file_def io_def split: list.splits option.splits)

lemma append_file_Inr [io_results]:
  "append_file p bs dk = (Inr u, dk') \<Longrightarrow> dk_files dk' = hm_insert p (content p dk @ bs) (dk_files dk)"
  by (auto simp: append_file_def Let_def split: list.splits option.splits)

lemma rename_file_Inr [io_results]:
  "rename_file p q dk = (Inr u, dk') \<Longrightarrow> dk_files dk' = hm_insert q (content p dk) (hm_remove p (dk_files dk))"
  by (auto simp: rename_file_def io_def content_def split: list.splits option.splits)

lemma copy_pieces_Inr:
  "copy_pieces out pieces h dk = (Inr h', dk') \<Longrightarrow>
     h' = h @ concat pieces \<and> content out dk' = content out dk @ concat pieces"
proof (induction pieces arbitrary: h dk)
  case Nil
  then show ?case by (auto simp: on_ok_Inr content_def dest: io_call_Inr)
next
  case (Cons piece pieces)
  then obtain dk1 dk2 where "io_call dk = (Inr (), dk1)" "append_file out piece dk1 = (Inr (), dk2)"
      "copy_pieces out pieces (h @ piece) dk2 = (Inr h', dk')" by (auto simp: on_ok_Inr)
  with Cons.IH [OF this(3)] show ?case by (auto simp: content_def dest!: io_call_Inr append_file_Inr)
qed

lemma read_pieces_Inr:
  "read_pieces pieces h dk = (Inr h', dk') \<Longrightarrow> h' = h @ concat pieces \<and> dk_files dk' = dk_files dk"
  by (induction pieces arbitrary: h dk) (fastforce simp: on_ok_Inr dest: io_call_Inr)+

lemma IO_SCRATCH_pos [simp]: "0 < IO_SCRATCH"
  by (simp add: IO_SCRATCH_def)

section \<open>Assembling a file\<close>

definition chunk_file :: "path \<Rightarrow> rstring \<Rightarrow> nat \<Rightarrow> path" where
  "chunk_file root did i = root @ [ascii ''tmp'', ascii ''incomplete'', did, did @ ascii ''.part.'' @ decimal i]"

definition staging_file :: "path \<Rightarrow> rstring \<Rightarrow> rstring \<Rightarrow> path" where
  "staging_file root did sha = root @ [ascii ''tmp'', ascii ''staging'', did, sha @ ascii ''.partial'']"

definition in_library :: "path \<Rightarrow> path \<Rightarrow> bool" where
  "in_library root q \<longleftrightarrow> starts_with (root @ [ascii ''library'']) q"

definition in_tmp :: "path \<Rightarrow> path \<Rightarrow> bool" where
  "in_tmp root q \<longleftrightarrow> starts_with (root @ [ascii ''tmp'']) q"

lemma incomplete_chunk_path_Inr: "incomplete_chunk_path root did i = Inr p \<Longrightarrow> p = chunk_file root did i"
  by (simp add: incomplete_chunk_path_def chunk_file_def split: sum.splits)

lemma staging_partial_path_Inr: "staging_partial_path root did sha = Inr p \<Longrightarrow> p = staging_file root did sha"
  by (simp add: staging_partial_path_def staging_file_def split: sum.splits)

lemma paths_apart [simp]:
  "chunk_file root did i \<noteq> staging_file root did' sha" "staging_file root did' sha \<noteq> chunk_file root did i"
  "in_tmp root (chunk_file root did i)" "in_tmp root (staging_file root did sha)"
  by (simp_all add: chunk_file_def staging_file_def in_tmp_def starts_with_def ascii_def)

lemma tmp_not_library: "in_tmp root q \<Longrightarrow> \<not> in_library root q"
proof
  assume "in_tmp root q" "in_library root q"
  then have "root @ [ascii ''tmp''] = root @ [ascii ''library'']"
    unfolding in_tmp_def in_library_def starts_with_def by simp
  then show False by (simp add: ascii_def)
qed

lemma content_path_library: "content_addressed_path root sha name = Inr p \<Longrightarrow> in_library root p"
  by (auto simp: content_addressed_path_def in_library_def starts_with_def split: sum.splits)

text \<open>The bytes the chunk files of a download make up.\<close>

definition chunk_bytes :: "path \<Rightarrow> rstring \<Rightarrow> disk \<Rightarrow> nat list \<Rightarrow> bytes" where
  "chunk_bytes root did dk idxs = concat (map (\<lambda>i. content (chunk_file root did i) dk) idxs)"

lemma content_cong: "hm_get (dk_files dk) p = hm_get (dk_files dk') p \<Longrightarrow> content p dk = content p dk'"
  by (simp add: content_def)

lemma same_except_content: "same_except W dk dk' \<Longrightarrow> \<not> W p \<Longrightarrow> content p dk' = content p dk"
  by (auto simp: same_except_def intro: content_cong)

lemma chunk_bytes_same:
  "same_except (\<lambda>q. q = staging_file root did' sha) dk dk' \<Longrightarrow> chunk_bytes root did dk' idxs = chunk_bytes root did dk idxs"
  unfolding chunk_bytes_def by (simp add: same_except_content cong: map_cong)

lemma files_chunk_bytes: "dk_files dk' = dk_files dk \<Longrightarrow> chunk_bytes root did dk' idxs = chunk_bytes root did dk idxs"
  by (simp add: chunk_bytes_def content_def)

lemma chunk_bytes_simps [simp]:
  "chunk_bytes root did dk [] = []"
  "chunk_bytes root did dk (i # idxs) = content (chunk_file root did i) dk @ chunk_bytes root did dk idxs"
  by (simp_all add: chunk_bytes_def)

lemma copy_chunks_Inr:
  assumes "copy_chunks root did (staging_file root did' sha) lens h dk = (Inr h', dk')"
  shows "h' = h @ chunk_bytes root did dk (map fst lens)
    \<and> content (staging_file root did' sha) dk' = content (staging_file root did' sha) dk @ chunk_bytes root did dk (map fst lens)"
  using assms
proof (induction lens arbitrary: h dk)
  case (Cons l lens)
  let ?out = "staging_file root did' sha"
  obtain i n where l: "l = (i, n)" by (cases l)
  let ?p = "chunk_file root did i"
  from Cons.prems obtain dk1 dk2 dk3 h2 where
    "file_len ?p dk = (Inr n, dk1)" "open_file ?p dk1 = (Inr (content ?p dk1), dk2)"
    and cp: "copy_pieces ?out (chunks IO_SCRATCH (content ?p dk1)) h dk2 = (Inr h2, dk3)"
    and rest: "copy_chunks root did ?out lens h2 dk3 = (Inr h', dk')"
    by (fastforce simp: l on_ok_Inr map_err_Inr split: sum.splits if_splits
          dest: incomplete_chunk_path_Inr open_file_Inr)
  then have files: "dk_files dk2 = dk_files dk" "content ?p dk1 = content ?p dk"
    by (auto dest!: file_len_Inr open_file_Inr simp: content_def)
  have keep: "chunk_bytes root did dk3 idxs = chunk_bytes root did dk idxs" for idxs
    using copy_pieces_writes [of "\<lambda>q. q = ?out" ?out dk2] cp chunk_bytes_same files_chunk_bytes [OF files(1)]
    by (metis snd_conv)
  have "h2 = h @ content ?p dk" "content ?out dk3 = content ?out dk @ content ?p dk"
    using copy_pieces_Inr [OF cp] files by (simp_all add: concat_chunks content_def)
  with Cons.IH [OF rest] keep show ?case by (simp add: l)
qed simp

lemma verify_file_Inr:
  assumes "verify_full_blake3_via_file dg p n expected dk = (Inr x, dk')"
  shows "dk_files dk' = dk_files dk \<and> length (content p dk) = n \<and> dg_blake3_hex dg (content p dk) = expected"
proof -
  from assms obtain dk1 dk2 bs h where r: "file_len p dk = (Inr n, dk1)" "open_file p dk1 = (Inr bs, dk2)"
      "read_pieces (chunks IO_SCRATCH bs) [] dk2 = (Inr h, dk')" "dg_blake3_hex dg h = expected"
    unfolding verify_full_blake3_via_file_def Let_def
    by (simp only: ok_iff not_not prod.inject sum.inject, elim exE conjE) (rule that, (assumption | simp only:)+)
  note len = file_len_Inr [OF r(1)] and opened = open_file_Inr [OF r(2)]
  have "h = bs" using read_pieces_Inr [OF r(3)] concat_chunks [OF IO_SCRATCH_pos, of bs] by (metis append_Nil)
  moreover have "dk_files dk' = dk_files dk2" using read_pieces_Inr [OF r(3)] by (rule conjunct2)
  moreover have "bs = content p dk" using len opened content_cong [of s1 p dk for s1] by metis
  ultimately show ?thesis using len opened r(4) by metis
qed

lemma file_exists_files: "file_exists q dk = (r, dk') \<Longrightarrow> dk_files dk' = dk_files dk"
  by (auto simp: file_exists_def io_def split: list.splits option.splits)

lemma move_into_library_Inr:
  assumes "move_into_library ov croot src dst dk = (Inr p, dk')"
  shows "p = dst \<and> dk_files dk' = hm_insert dst (content src dk) (hm_remove src (dk_files dk))"
proof -
  from assms obtain d1 where d1: "io_call dk = (Inr (), d1)"
    and rest: "(case ov_canonicalize ov (butlast dst) of
         Inl _ \<Rightarrow> (Inl CreateDir, d1)
       | Inr cparent \<Rightarrow>
           if \<not> assert_within croot cparent then (Inl PathEscapesLibrary, d1)
           else case file_exists dst d1 of
                  (Inr True, dk) \<Rightarrow> (Inl DestinationAlreadyExists, dk)
                | (_, dk) \<Rightarrow> on_ok (map_err (\<lambda>_. RenameFailed) (rename_file src dst dk)) (\<lambda>_ dk. (Inr dst, dk)))
      = (Inr p, dk')"
    by (auto simp: move_into_library_def on_ok_Inr map_err_Inr)
  obtain r d2 where probe: "file_exists dst d1 = (r, d2)" by fastforce
  with rest have "on_ok (map_err (\<lambda>_. RenameFailed) (rename_file src dst d2)) (\<lambda>_ dk. (Inr dst, dk)) = (Inr p, dk')"
    by (auto split: sum.splits if_splits bool.splits)
  then have "p = dst" "rename_file src dst d2 = (Inr (), dk')" by (auto simp: on_ok_Inr map_err_Inr)
  with rename_file_Inr [OF this(2)] file_exists_files [OF probe] io_call_Inr [OF d1] show ?thesis
    by (simp add: content_def)
qed

lemma complete_download_Inr:
  assumes "complete_download ov root sha src name dk = (Inr p, dk')"
  shows "\<exists>out. sanitize (ov_nfc ov) name = Inr out \<and> content_addressed_path root sha out = Inr p
    \<and> dk_files dk' = hm_insert p (content src dk) (hm_remove src (dk_files dk))"
proof -
  from assms obtain croot out dst n d1 where len: "file_len src dk = (Inr n, d1)"
    and out: "sanitize (ov_nfc ov) name = Inr out" and dst: "content_addressed_path root sha out = Inr dst"
    and moved: "move_into_library ov croot src dst d1 = (Inr p, dk')"
    unfolding complete_download_def by (simp only: ok_iff) blast
  from move_into_library_Inr [OF moved] file_len_Inr [OF len] out dst show ?thesis by (simp add: content_def)
qed

section \<open>A failed completion changes nothing\<close>

definition clean_failure :: "(path, bytes) hashmap \<Rightarrow> ('e + 'a) \<times> disk \<Rightarrow> bool" where
  "clean_failure fs r \<longleftrightarrow> (case r of (Inl _, dk) \<Rightarrow> dk_files dk = fs | (Inr _, _) \<Rightarrow> True)"

lemma clean_failure_simps [simp]:
  "clean_failure fs (Inl e, dk) \<longleftrightarrow> dk_files dk = fs" "clean_failure fs (Inr a, dk)"
  "clean_failure fs (map_err g r) = clean_failure fs r"
  by (auto simp: clean_failure_def map_err_def split: prod.splits sum.splits)

lemma on_ok_clean:
  "clean_failure fs r \<Longrightarrow> (\<And>a dk. r = (Inr a, dk) \<Longrightarrow> clean_failure fs (k a dk)) \<Longrightarrow> clean_failure fs (on_ok r k)"
  by (cases r) (auto simp: on_ok_def split: sum.splits)

lemma io_clean: "(\<And>d. clean_failure (dk_files d) (f d)) \<Longrightarrow> clean_failure (dk_files dk) (io f dk)"
  by (auto simp: io_def split: list.splits option.splits) (metis disk.select_convs(1) disk.surjective disk.update_convs(2))

lemma io_call_files: "io_call dk = (r, dk') \<Longrightarrow> dk_files dk' = dk_files dk"
  by (auto simp: io_call_def io_def split: list.splits option.splits)

lemma rename_file_clean: "rename_file p q dk = (Inl e, dk') \<Longrightarrow> dk_files dk' = dk_files dk"
  by (auto simp: rename_file_def io_def split: list.splits option.splits)

lemma move_clean: "clean_failure (dk_files dk) (move_into_library ov croot src dst dk)"
proof -
  obtain r0 d0 where call: "io_call dk = (r0, d0)" by fastforce
  obtain r1 d1 where probe: "file_exists dst d0 = (r1, d1)" by fastforce
  obtain r2 d2 where moved: "rename_file src dst d1 = (r2, d2)" by fastforce
  have "dk_files d0 = dk_files dk" "dk_files d1 = dk_files dk" using io_call_files [OF call] file_exists_files [OF probe] by simp_all
  moreover have "dk_files d2 = dk_files d1" if "r2 = Inl e" for e using rename_file_clean moved that by simp
  ultimately show ?thesis
    by (cases r0; cases r2; cases "ov_canonicalize ov (butlast dst)"; cases r1)
      (simp_all add: move_into_library_def on_ok_def map_err_def call probe moved split: bool.split)
qed

lemma complete_download_clean: "clean_failure (dk_files dk) (complete_download ov root sha src name dk)"
proof -
  obtain r0 d0 where len: "file_len src dk = (r0, d0)" by fastforce
  then have files: "dk_files d0 = dk_files dk"
    by (auto simp: file_len_def open_file_def on_ok_def io_def split: list.splits option.splits sum.splits prod.splits)
  then have "clean_failure (dk_files dk) (move_into_library ov croot src dst d0)" for croot dst
    using move_clean [of d0] by simp
  with files show ?thesis
    by (cases r0; cases "ov_canonicalize ov src"; cases "sanitize (ov_nfc ov) name")
      (simp_all add: complete_download_def on_ok_def map_err_def len split: sum.split bool.split)
qed

lemma finalize_staging_library:
  assumes "staging = staging_file root did sha" and "content staging dk = h"
  shows "case finalize_staging ov dg root sha name expected sz staging h dk of
       (Inl _, dk') \<Rightarrow> same_except (\<lambda>q. \<not> in_library root q) dk dk'
     | (Inr (p, _), dk') \<Rightarrow> same_except (\<lambda>q. \<not> in_library root q \<or> q = p) dk dk'
         \<and> (\<exists>out. sanitize (ov_nfc ov) name = Inr out \<and> content_addressed_path root sha out = Inr p)
         \<and> hm_get (dk_files dk') p = Some h \<and> length h = sz \<and> dg_sha256_hex dg h = sha \<and> dg_blake3_hex dg h = expected"
    (is "?P (finalize_staging ov dg root sha name expected sz staging h dk)")
proof -
  have tmp: "\<not> in_library root staging" using assms(1) by (simp add: tmp_not_library)
  consider "length h \<noteq> sz" | "length h = sz" "dg_sha256_hex dg h \<noteq> sha" | "length h = sz" "dg_sha256_hex dg h = sha" by blast
  then show ?thesis
  proof cases
    case 1
    then show ?thesis by (simp add: finalize_staging_def)
  next
    case 2
    with remove_file_writes [of "\<lambda>q. \<not> in_library root q" staging dk] tmp show ?thesis by (simp add: finalize_staging_def)
  next
    case 3
    obtain r1 d1 where v: "verify_full_blake3_via_file dg staging sz expected dk = (r1, d1)" by fastforce
    obtain r2 d2 where c: "complete_download ov root sha staging name d1 = (r2, d2)" by fastforce
    have w: "same_except (\<lambda>q. \<not> in_library root q) dk d1"
      using verify_file_writes [of _ dk dg staging sz expected] v by simp
    show ?thesis
    proof (cases r1)
      case (Inl e)
      with 3 v w show ?thesis by (simp add: finalize_staging_def on_ok_def map_err_def)
    next
      case (Inr x)
      note vr = verify_file_Inr [OF v [unfolded Inr]]
      show ?thesis
      proof (cases r2)
        case (Inl e)
        with complete_download_clean [of d1 ov root sha staging name] c have "dk_files d2 = dk_files d1" by simp
        with w have "same_except (\<lambda>q. \<not> in_library root q) dk d2" by (simp add: same_except_def)
        with 3 v c Inl \<open>r1 = Inr x\<close> show ?thesis by (simp add: finalize_staging_def on_ok_def map_err_def)
      next
        case (Inr p)
        from complete_download_Inr [OF c [unfolded Inr]] obtain out where
          out: "sanitize (ov_nfc ov) name = Inr out" "content_addressed_path root sha out = Inr p"
          and files: "dk_files d2 = hm_insert p (content staging d1) (hm_remove staging (dk_files d1))" by blast
        have "content staging d1 = h" using vr assms(2) content_cong [of d1 staging dk] by simp
        with files have "hm_get (dk_files d2) p = Some h" by simp
        moreover have "same_except (\<lambda>q. \<not> in_library root q \<or> q = p) dk d2"
          using files vr tmp by (auto simp: same_except_def)
        ultimately show ?thesis using 3 v c Inr \<open>r1 = Inr x\<close> out vr assms(2)
          by (simp add: finalize_staging_def on_ok_def map_err_def)
      qed
    qed
  qed
qed

lemma create_file_content: "create_file p dk = (Inr u, dk') \<Longrightarrow> content p dk' = []"
  by (simp add: content_def create_file_Inr)

text \<open>Everything up to the checks: the staging file holds the chunk files, in order.\<close>

lemma assembled_or_clean:
  assumes "assemble_and_finalize ov dg root did sha name expected lens sz dk = r"
  shows "(\<exists>e dk'. r = (Inl e, dk') \<and> same_except (\<lambda>q. q = staging_file root did sha) dk dk')
    \<or> (\<exists>d h. r = finalize_staging ov dg root sha name expected sz (staging_file root did sha) h d
        \<and> same_except (\<lambda>q. q = staging_file root did sha) dk d
        \<and> content (staging_file root did sha) d = h \<and> h = chunk_bytes root did dk (map fst lens))"
proof (cases "validate_sha sha" "staging_partial_path root did sha" rule: sum.exhaust [case_product sum.exhaust])
  case (Inr_Inr u p)
  let ?st = "staging_file root did sha" and ?W = "\<lambda>q. q = staging_file root did sha"
  have p: "p = ?st" using staging_partial_path_Inr Inr_Inr by blast
  obtain r0 d0 where s0: "io_call dk = (r0, d0)" by fastforce
  obtain r1 d1 where s1: "create_file ?st d0 = (r1, d1)" by fastforce
  obtain r2 d2 where s2: "copy_chunks root did ?st lens [] d1 = (r2, d2)" by fastforce
  obtain r3 d3 where s3: "io_call d2 = (r3, d3)" by fastforce
  obtain r4 d4 where s4: "io_call d3 = (r4, d4)" by fastforce
  have w: "same_except ?W dk d0" "same_except ?W d0 d1" "same_except ?W d1 d2" "same_except ?W d2 d3" "same_except ?W d3 d4"
    using io_call_writes [of ?W dk] create_file_writes [of ?W ?st d0] copy_chunks_writes [of ?W ?st d1]
      io_call_writes [of ?W d2] io_call_writes [of ?W d3] s0 s1 s2 s3 s4 by (metis snd_conv)+
  note t = w(1) same_except_trans [OF w(1,2)]
  note t2 = same_except_trans [OF t(2) w(3)] same_except_trans [OF same_except_trans [OF t(2) w(3)] w(4)]
  note t4 = same_except_trans [OF t2(2) w(5)]
  have body: "content ?st d4 = h \<and> h = chunk_bytes root did dk (map fst lens)" if "r1 = Inr v" "r2 = Inr h" for v h
  proof -
    have "content ?st d1 = []" using create_file_content s1 that(1) by simp
    moreover have "chunk_bytes root did d1 (map fst lens) = chunk_bytes root did dk (map fst lens)"
      by (rule chunk_bytes_same [OF t(2)])
    moreover have "content ?st d4 = content ?st d2"
      using io_call_files [OF s3] io_call_files [OF s4] by (simp add: content_def)
    ultimately show ?thesis using copy_chunks_Inr s2 that(2) by fastforce
  qed
  have good: ?thesis if "r0 = Inr u0" "r1 = Inr u1" "r2 = Inr h" "r3 = Inr u3" "r4 = Inr u4" for u0 u1 h u3 u4
  proof (intro disjI2 exI conjI)
    show "r = finalize_staging ov dg root sha name expected sz ?st h d4"
      using assms Inr_Inr p s0 s1 s2 s3 s4 that by (simp add: assemble_and_finalize_def on_ok_def map_err_def)
  qed (use t4 body [OF that(2,3)] in simp_all)
  show ?thesis
    using assms Inr_Inr p t t2 t4 good s0 s1 s2 s3 s4
    by (cases r0; cases r1; cases r2; cases r3; cases r4)
      (auto simp: assemble_and_finalize_def on_ok_def map_err_def)
qed (use assms in \<open>auto simp: assemble_and_finalize_def\<close>)

lemma assembled_file_verified_lemma:
  "case assemble_and_finalize ov dg root did sha name blake3 lens sz dk of
     (Inl _, dk') \<Rightarrow> same_except (\<lambda>q. \<not> in_library root q) dk dk'
   | (Inr (p, _), dk') \<Rightarrow> same_except (\<lambda>q. \<not> in_library root q \<or> q = p) dk dk'
       \<and> (\<exists>out. sanitize (ov_nfc ov) name = Inr out \<and> content_addressed_path root sha out = Inr p)
       \<and> (\<exists>bs. hm_get (dk_files dk') p = Some bs \<and> bs = chunk_bytes root did dk (map fst lens)
            \<and> length bs = sz \<and> dg_sha256_hex dg bs = sha \<and> dg_blake3_hex dg bs = blake3)"
proof -
  let ?st = "staging_file root did sha"
  let ?r = "assemble_and_finalize ov dg root did sha name blake3 lens sz dk"
  have lib: "same_except (\<lambda>q. \<not> in_library root q) dk d" if "same_except (\<lambda>q. q = ?st) dk d" for d
    using that by (rule same_except_mono) (simp add: tmp_not_library)
  consider (failed) e dk' where "?r = (Inl e, dk')" "same_except (\<lambda>q. q = ?st) dk dk'"
    | (staged) d h where "?r = finalize_staging ov dg root sha name blake3 sz ?st h d"
        "same_except (\<lambda>q. q = ?st) dk d" "content ?st d = h" "h = chunk_bytes root did dk (map fst lens)"
    using assembled_or_clean [OF refl] by blast
  then show ?thesis
  proof cases
    case failed
    then show ?thesis by (simp add: lib)
  next
    case staged
    have lift: "same_except (\<lambda>q. \<not> in_library root q \<or> P q) dk d'" if "same_except (\<lambda>q. \<not> in_library root q \<or> P q) d d'" for P d'
      by (rule same_except_trans [OF same_except_mono [OF lib [OF staged(2)]] that]) simp
    from finalize_staging_library [OF refl staged(3), where ov = ov and dg = dg and name = name and expected = blake3 and sz = sz] lift [of "\<lambda>_. False"] lift
    show ?thesis unfolding staged(1) using staged(4) by (auto split: prod.splits sum.splits)
  qed
qed

section \<open>Property\<close>

text \<open>
  C27: nothing enters the library but verified files. However the file system fails, assembling a
  download either fails and leaves every library file as it was, or puts one file at the path
  its digest and sanitized name give: the concatenation of the chunk files, of the declared
  length, with both declared digests, all other library files untouched.
\<close>

theorem assembled_file_verified:
  "case assemble_and_finalize ov dg root did sha name blake3 lens sz dk of
     (Inl _, dk') \<Rightarrow> same_except (\<lambda>q. \<not> in_library root q) dk dk'
   | (Inr (p, _), dk') \<Rightarrow> same_except (\<lambda>q. \<not> (in_library root q \<and> q \<noteq> p)) dk dk'
       \<and> (\<exists>out. sanitize (ov_nfc ov) name = Inr out \<and> content_addressed_path root sha out = Inr p)
       \<and> (\<exists>bs. hm_get (dk_files dk') p = Some bs \<and> bs = chunk_bytes root did dk (map fst lens)
            \<and> length bs = sz \<and> dg_sha256_hex dg bs = sha \<and> dg_blake3_hex dg bs = blake3)"
  unfolding de_Morgan_conj not_not by (rule assembled_file_verified_lemma)

end
