(* ===== verification/Progress.thy ===== *)
theory Progress
  imports Downloads
begin

text \<open>
  What a download reports to the user interface, \<open>transfer/events.rs\<close>: the sanitizer of error
  messages and the emitter that coalesces progress events.
\<close>

section \<open>Error messages\<close>

definition PROGRESS_INTERVAL_MS :: nat where "PROGRESS_INTERVAL_MS = 200"
definition SANITIZE_MAX_BYTES :: nat where "SANITIZE_MAX_BYTES = 256"
definition SANITIZE_LONG_TOKEN_MIN :: nat where "SANITIZE_LONG_TOKEN_MIN = 40"

definition ascii_alphabetic :: "nat \<Rightarrow> bool" where
  "ascii_alphabetic c \<longleftrightarrow> 65 \<le> c \<and> c \<le> 90 \<or> 97 \<le> c \<and> c \<le> 122"

definition ends_path :: "nat \<Rightarrow> bool" where
  "ends_path c \<longleftrightarrow> c \<in> {9, 10, 12, 13, 32} \<or> c = 34 \<or> c = 58"

text \<open>
  Drive-letter, POSIX and UNC paths are dropped up to white space, a quote or a colon. The code
  works on bytes; every byte it looks for is ASCII, so it never splits a character.
\<close>

function strip_paths :: "rstring \<Rightarrow> rstring" where
  "strip_paths [] = []"
| "strip_paths (c # s) =
     (if ascii_alphabetic c \<and> 2 \<le> length s \<and> s ! 0 = 58 \<and> (s ! 1 = 92 \<or> s ! 1 = 47)
      then strip_paths (dropWhile (\<lambda>c. \<not> ends_path c) (drop 2 s))
      else if c = 47 then strip_paths (dropWhile (\<lambda>c. \<not> ends_path c) s)
      else if c = 92 \<and> s \<noteq> [] \<and> hd s = 92 then strip_paths (dropWhile (\<lambda>c. \<not> ends_path c) (tl s))
      else c # strip_paths s)"
  by pat_completeness auto
termination
  by (relation "measure length") (auto simp: length_dropWhile_le less_Suc_eq_le intro: le_trans [OF length_dropWhile_le])

definition token_char :: "nat \<Rightarrow> bool" where
  "token_char c \<longleftrightarrow> ascii_alphabetic c \<or> 48 \<le> c \<and> c \<le> 57 \<or> c \<in> {95, 45, 43, 47, 61, 46}"

definition end_run :: "rstring \<Rightarrow> rstring" where
  "end_run run = (if length run \<ge> SANITIZE_LONG_TOKEN_MIN then [] else run)"

text \<open>\<open>run\<close> is the run of token characters that ends here.\<close>

fun strip_tokens :: "rstring \<Rightarrow> rstring \<Rightarrow> rstring" where
  "strip_tokens run [] = end_run run"
| "strip_tokens run (c # s) =
     (if token_char c then strip_tokens (run @ [c]) s else end_run run @ c # strip_tokens [] s)"

text \<open>\<open>&s[..n]\<close>: the first \<open>n\<close> bytes; \<open>None\<close> when that is not at a character boundary.\<close>

fun prefix_bytes :: "nat \<Rightarrow> rstring \<Rightarrow> rstring option" where
  "prefix_bytes n [] = (if n = 0 then Some [] else None)"
| "prefix_bytes n (c # s) =
     (if n = 0 then Some []
      else if n < utf8_width c then None
      else map_option ((#) c) (prefix_bytes (n - utf8_width c) s))"

fun floor_boundary :: "nat \<Rightarrow> rstring \<Rightarrow> nat" where
  "floor_boundary 0 s = 0"
| "floor_boundary (Suc n) s = (if prefix_bytes (Suc n) s \<noteq> None then Suc n else floor_boundary n s)"

text \<open>The walk back to white space slices at every byte on its way; \<open>None\<close> is the panic.\<close>

fun walk_back :: "nat \<Rightarrow> nat \<Rightarrow> rstring \<Rightarrow> nat option" where
  "walk_back 0 min_boundary s = Some 0"
| "walk_back (Suc b) min_boundary s =
     (if Suc b > min_boundary
      then (case prefix_bytes (Suc b) s of
              None \<Rightarrow> None
            | Some p \<Rightarrow> if p \<noteq> [] \<and> is_white_space (last p) then Some (Suc b) else walk_back b min_boundary s)
      else Some (Suc b))"

definition truncate_message :: "rstring \<Rightarrow> rstring option" where
  "truncate_message s =
     (if utf8_len s > SANITIZE_MAX_BYTES
      then (let cut = floor_boundary SANITIZE_MAX_BYTES s
            in case walk_back cut (cut - 32) s of
                 None \<Rightarrow> None
               | Some b \<Rightarrow> (case prefix_bytes b s of None \<Rightarrow> None | Some p \<Rightarrow> Some (p @ ascii ''...'')))
      else Some s)"

definition sanitize_error_message :: "rstring \<Rightarrow> rstring option" where
  "sanitize_error_message s = truncate_message (filter (\<lambda>c. \<not> is_control c) (strip_tokens [] (strip_paths s)))"

section \<open>The emitter\<close>

text \<open>What reached the sink. A progress payload is opaque to the emitter.\<close>

datatype 'p emitted = EmState download_state "rstring option" | EmProgress 'p

record 'p emitter =
  em_now :: nat
  em_out :: "'p emitted list"
  em_last_progress_at :: nat
  em_last_progress :: "'p option"
  em_session_terminal :: bool

definition emitter_new :: "nat \<Rightarrow> 'p emitter" where
  "emitter_new t = \<lparr>em_now = t, em_out = [], em_last_progress_at = t, em_last_progress = None, em_session_terminal = False\<rparr>"

definition is_terminal_state :: "download_state \<Rightarrow> bool" where
  "is_terminal_state st \<longleftrightarrow> st \<in> {DsComplete, DsFailed, DsCancelled}"

definition flush_pending_progress :: "'p emitter \<Rightarrow> 'p emitter" where
  "flush_pending_progress em =
     (case em_last_progress em of
        None \<Rightarrow> em
      | Some p \<Rightarrow> em\<lparr>em_out := em_out em @ [EmProgress p], em_last_progress := None\<rparr>)"

definition record_state :: "download_state \<Rightarrow> rstring option \<Rightarrow> 'p emitter \<Rightarrow> 'p emitter" where
  "record_state st msg em =
     (let em1 = (if is_terminal_state st then (flush_pending_progress em)\<lparr>em_session_terminal := True\<rparr> else em)
      in em1\<lparr>em_out := em_out em1 @ [EmState st msg]\<rparr>)"

definition record_progress :: "'p \<Rightarrow> 'p emitter \<Rightarrow> 'p emitter" where
  "record_progress p em =
     (if em_session_terminal em then em
      else if em_now em - em_last_progress_at em < PROGRESS_INTERVAL_MS then em\<lparr>em_last_progress := Some p\<rparr>
      else let em1 = flush_pending_progress em
           in em1\<lparr>em_out := em_out em1 @ [EmProgress p], em_last_progress_at := em_now em1, em_last_progress := None\<rparr>)"

definition shutdown :: "'p emitter \<Rightarrow> 'p emitter" where
  "shutdown em = (flush_pending_progress em)\<lparr>em_session_terminal := True\<rparr>"

datatype 'p emit_op = EoState download_state "rstring option" | EoProgress 'p | EoShutdown | EoElapse nat

fun emit_step :: "'p emitter \<Rightarrow> 'p emit_op \<Rightarrow> 'p emitter" where
  "emit_step em (EoState st msg) = record_state st msg em"
| "emit_step em (EoProgress p) = record_progress p em"
| "emit_step em EoShutdown = shutdown em"
| "emit_step em (EoElapse dt) = em\<lparr>em_now := em_now em + dt\<rparr>"

section \<open>The sanitizer\<close>

lemma dropWhile_subset: "set xs \<subseteq> A \<Longrightarrow> set (dropWhile P xs) \<subseteq> A"
  using set_dropWhileD [of _ P xs] by blast

lemma strip_paths_set: "set (strip_paths s) \<subseteq> set s - {47}"
proof (induction s rule: strip_paths.induct)
  case (2 c s)
  have "set (drop 2 s) \<subseteq> set s" "set (tl s) \<subseteq> set s" by (rule set_drop_subset) (cases s, auto)
  note d = dropWhile_subset [OF this(1)] dropWhile_subset [OF this(2)] dropWhile_subset [OF subset_refl [of "set s"]]
  consider (drive) "ascii_alphabetic c \<and> 2 \<le> length s \<and> s ! 0 = 58 \<and> (s ! 1 = 92 \<or> s ! 1 = 47)"
    | (posix) "\<not> (ascii_alphabetic c \<and> 2 \<le> length s \<and> s ! 0 = 58 \<and> (s ! 1 = 92 \<or> s ! 1 = 47))" "c = 47"
    | (unc) "\<not> (ascii_alphabetic c \<and> 2 \<le> length s \<and> s ! 0 = 58 \<and> (s ! 1 = 92 \<or> s ! 1 = 47))" "c \<noteq> 47" "c = 92 \<and> s \<noteq> [] \<and> hd s = 92"
    | (other) "\<not> (ascii_alphabetic c \<and> 2 \<le> length s \<and> s ! 0 = 58 \<and> (s ! 1 = 92 \<or> s ! 1 = 47))" "c \<noteq> 47" "\<not> (c = 92 \<and> s \<noteq> [] \<and> hd s = 92)"
    by blast
  then show ?case
  proof cases
    case drive
    with 2(1) d(1) [of "\<lambda>c. \<not> ends_path c"] show ?thesis by (simp only: strip_paths.simps if_True) auto
  next
    case posix
    from 2(2) [OF posix] d(3) [of "\<lambda>c. \<not> ends_path c"] show ?thesis by (simp only: strip_paths.simps posix(1) if_False) (simp add: posix(2), blast)
  next
    case unc
    from 2(3) [OF unc] d(2) [of "\<lambda>c. \<not> ends_path c"] show ?thesis
      by (simp only: strip_paths.simps unc(1) if_False) (simp add: unc(2,3), blast)
  next
    case other
    from 2(4) [OF other] show ?thesis by (simp only: strip_paths.simps other if_False) (use other(2) in auto)
  qed
qed simp

lemma strip_tokens_set: "set (strip_tokens run s) \<subseteq> set run \<union> set s"
  by (induction run s rule: strip_tokens.induct) (auto simp: end_run_def split: if_splits)

lemma prefix_bytes_Some: "prefix_bytes n s = Some p \<Longrightarrow> utf8_len p = n \<and> set p \<subseteq> set s"
  by (induction n s arbitrary: p rule: prefix_bytes.induct) (auto simp: utf8_len_def split: if_splits)

lemma floor_boundary_le: "floor_boundary n s \<le> n"
  by (induction n) auto

lemma walk_back_le: "walk_back b m s = Some b' \<Longrightarrow> b' \<le> b"
  by (induction b) (auto split: if_splits option.splits)

lemma utf8_len_dots: "utf8_len (ascii ''...'') = 3"
  by (simp add: ascii_def utf8_len_def utf8_width_def)

lemma truncate_message_Some:
  assumes "truncate_message s = Some out"
  shows "utf8_len out \<le> SANITIZE_MAX_BYTES + 3 \<and> set out \<subseteq> set s \<union> {46}"
proof (cases "utf8_len s > SANITIZE_MAX_BYTES")
  case True
  with assms obtain b p where "walk_back (floor_boundary SANITIZE_MAX_BYTES s) (floor_boundary SANITIZE_MAX_BYTES s - 32) s = Some b"
      "prefix_bytes b s = Some p" "out = p @ ascii ''...''"
    by (auto simp: truncate_message_def Let_def split: option.splits)
  note r = this
  have "b \<le> SANITIZE_MAX_BYTES" using walk_back_le [OF r(1)] floor_boundary_le [of SANITIZE_MAX_BYTES s] by simp
  moreover have "set (ascii ''...'') = {46}" by (simp add: ascii_def)
  ultimately show ?thesis using prefix_bytes_Some [OF r(2)] r(3) by (auto simp: utf8_len_dots)
qed (use assms in \<open>auto simp: truncate_message_def\<close>)

text \<open>In ASCII every byte is a boundary.\<close>

lemma prefix_bytes_ascii: "\<forall>c \<in> set s. c < 128 \<Longrightarrow> n \<le> length s \<Longrightarrow> prefix_bytes n s = Some (take n s)"
  by (induction n s rule: prefix_bytes.induct) (auto simp: utf8_width_def take_Cons')

lemma walk_back_ascii: "\<forall>c \<in> set s. c < 128 \<Longrightarrow> b \<le> length s \<Longrightarrow> walk_back b m s \<noteq> None"
  by (induction b) (auto simp: prefix_bytes_ascii)

lemma message_len_ascii: "\<forall>c \<in> set s. c < 128 \<Longrightarrow> utf8_len s = length s"
  by (induction s) (auto simp: utf8_len_def utf8_width_def)

lemma truncate_message_ascii:
  assumes "\<forall>c \<in> set s. c < 128"
  shows "truncate_message s \<noteq> None"
proof (cases "utf8_len s > SANITIZE_MAX_BYTES")
  case True
  let ?cut = "floor_boundary SANITIZE_MAX_BYTES s"
  have "?cut \<le> length s" using floor_boundary_le [of SANITIZE_MAX_BYTES s] True message_len_ascii [OF assms] by simp
  then obtain b where b: "walk_back ?cut (?cut - 32) s = Some b" "b \<le> length s"
    using walk_back_ascii [OF assms] walk_back_le by (metis le_trans not_None_eq)
  then show ?thesis by (simp add: truncate_message_def Let_def prefix_bytes_ascii [OF assms])
qed (simp add: truncate_message_def)

section \<open>A message that panics\<close>

lemma prefix_bytes_two: "k \<le> n \<Longrightarrow> prefix_bytes (2 * k) (replicate n 233) = Some (replicate k 233)"
proof (induction n arbitrary: k)
  case (Suc n)
  show ?case
  proof (cases k)
    case (Suc j)
    with Suc.IH [of j] Suc.prems show ?thesis by (simp add: utf8_width_def)
  qed simp
qed simp

lemma prefix_bytes_odd: "prefix_bytes (Suc (2 * k)) (replicate n 233) = None"
proof (induction n arbitrary: k)
  case (Suc n)
  show ?case
  proof (cases k)
    case (Suc j)
    with Suc.IH [of j] show ?thesis by (simp add: utf8_width_def)
  qed (simp add: utf8_width_def)
qed simp

lemma accents_kept: "strip_paths (replicate n 233) = replicate n 233" "strip_tokens [] (replicate n 233) = replicate n 233"
  by (induction n) (auto simp: ascii_alphabetic_def token_char_def end_run_def SANITIZE_LONG_TOKEN_MIN_def)

lemma accents_panic: "sanitize_error_message (replicate 129 233) = None"
proof -
  let ?s = "replicate 129 (233::nat)"
  have sanitized: "sanitize_error_message ?s = truncate_message ?s"
    unfolding sanitize_error_message_def accents_kept by (simp add: is_control_def)
  have 1: "prefix_bytes 256 ?s = Some (replicate 128 233)" using prefix_bytes_two [of 128 129] by simp
  have 2: "prefix_bytes 255 ?s = None" using prefix_bytes_odd [of 127 129] by simp
  have len: "utf8_len ?s > SANITIZE_MAX_BYTES" by (simp add: utf8_len_def utf8_width_def SANITIZE_MAX_BYTES_def sum_list_replicate)
  have cut: "floor_boundary (Suc 255) ?s = 256" using 1 by (subst floor_boundary.simps) simp
  have last: "last (replicate 128 (233::nat)) = 233" by (rule last_replicate) simp
  have "walk_back (Suc 255) 224 ?s = walk_back 255 224 ?s"
    using 1 last by (subst walk_back.simps) (simp add: is_white_space_def)
  also have "walk_back 255 224 ?s = walk_back (Suc 254) 224 ?s" by simp
  also have "\<dots> = None" using 2 by (subst walk_back.simps) simp
  finally show ?thesis using len cut by (simp add: sanitized truncate_message_def SANITIZE_MAX_BYTES_def Let_def)
qed

section \<open>How often it reports\<close>

definition progress_count :: "'p emitter \<Rightarrow> nat" where
  "progress_count em = length (filter (\<lambda>e. case e of EmProgress _ \<Rightarrow> True | EmState _ _ \<Rightarrow> False) (em_out em))"

definition buffered :: "'p emitter \<Rightarrow> nat" where
  "buffered em = (case em_last_progress em of None \<Rightarrow> 0 | Some _ \<Rightarrow> 1)"

definition emitter_inv :: "nat \<Rightarrow> 'p emitter \<Rightarrow> bool" where
  "emitter_inv t em \<longleftrightarrow> t \<le> em_last_progress_at em \<and> em_last_progress_at em \<le> em_now em
     \<and> progress_count em + buffered em \<le> 2 * ((em_last_progress_at em - t) div PROGRESS_INTERVAL_MS) + 1
     \<and> (if em_session_terminal em then em_last_progress em = None
        else progress_count em \<le> 2 * ((em_last_progress_at em - t) div PROGRESS_INTERVAL_MS))"

lemma progress_count_flush: "progress_count (flush_pending_progress em) = progress_count em + buffered em"
  by (simp add: flush_pending_progress_def progress_count_def buffered_def split: option.splits)

lemma flush_simps [simp]: "em_last_progress (flush_pending_progress em) = None"
  "em_now (flush_pending_progress em) = em_now em" "em_last_progress_at (flush_pending_progress em) = em_last_progress_at em"
  "em_session_terminal (flush_pending_progress em) = em_session_terminal em"
  by (simp_all add: flush_pending_progress_def split: option.splits)

lemma progress_count_append: "progress_count (em\<lparr>em_out := em_out em' @ [e]\<rparr>) =
    progress_count em' + (case e of EmProgress _ \<Rightarrow> 1 | EmState _ _ \<Rightarrow> 0)"
  by (simp add: progress_count_def split: emitted.split)

lemma progress_count_simps [simp]:
  "progress_count (em\<lparr>em_session_terminal := b\<rparr>) = progress_count em" "progress_count (em\<lparr>em_now := n\<rparr>) = progress_count em"
  "progress_count (em\<lparr>em_last_progress := p\<rparr>) = progress_count em" "progress_count (em\<lparr>em_last_progress_at := a\<rparr>) = progress_count em"
  by (simp_all add: progress_count_def)

lemma elapsed_interval:
  assumes "t \<le> a" "a \<le> n" "\<not> n - a < PROGRESS_INTERVAL_MS"
  shows "(a - t) div PROGRESS_INTERVAL_MS + 1 \<le> (n - t) div PROGRESS_INTERVAL_MS"
proof -
  have "a - t + PROGRESS_INTERVAL_MS \<le> n - t" using assms by simp
  from div_le_mono [OF this, of PROGRESS_INTERVAL_MS] show ?thesis by (simp add: PROGRESS_INTERVAL_MS_def)
qed

lemma record_progress_inv: "emitter_inv t em \<Longrightarrow> emitter_inv t (record_progress p em)"
proof -
  assume inv: "emitter_inv t em"
  consider "em_session_terminal em" | "\<not> em_session_terminal em" "em_now em - em_last_progress_at em < PROGRESS_INTERVAL_MS"
    | "\<not> em_session_terminal em" "\<not> em_now em - em_last_progress_at em < PROGRESS_INTERVAL_MS" by blast
  then show ?thesis
  proof cases
    case 3
    have "progress_count (record_progress p em) = progress_count em + buffered em + 1"
      using 3 by (simp add: record_progress_def Let_def progress_count_append [where em = "em'\<lparr>em_last_progress_at := a, em_last_progress := l\<rparr>" for em' a l, simplified] progress_count_flush)
        (simp add: progress_count_def flush_pending_progress_def buffered_def split: option.splits)
    with inv 3 elapsed_interval [of t "em_last_progress_at em" "em_now em"] show ?thesis
      by (auto simp: emitter_inv_def record_progress_def Let_def buffered_def [of "record_progress p em"] buffered_def)
  qed (use inv in \<open>auto simp: record_progress_def emitter_inv_def buffered_def progress_count_def\<close>)
qed

lemma emit_step_inv: "emitter_inv t em \<Longrightarrow> emitter_inv t (emit_step em op)"
proof (cases op)
  case (EoState st msg)
  assume "emitter_inv t em"
  then show ?thesis
    by (auto simp: EoState record_state_def Let_def emitter_inv_def progress_count_append progress_count_flush buffered_def)
next
  case EoShutdown
  assume "emitter_inv t em"
  then show ?thesis by (auto simp: EoShutdown shutdown_def emitter_inv_def progress_count_flush buffered_def)
next
  case (EoElapse dt)
  assume "emitter_inv t em"
  then show ?thesis by (simp add: EoElapse emitter_inv_def buffered_def)
qed (simp add: record_progress_inv)

interpretation emitting: invariant_machine emit_step "emitter_inv t" for t
  by unfold_locales (rule emit_step_inv)

section \<open>Properties\<close>


text \<open>
  Whatever a session reports and whenever, the number of progress events that reach the user
  interface is at most two per interval of 200 ms since the emitter was made, and one; and none is
  kept back once a terminal state has been reported.
\<close>

theorem progress_rate_bounded:
  "let em = foldl emit_step (emitter_new t) ops
   in progress_count em \<le> 2 * ((em_now em - t) div PROGRESS_INTERVAL_MS) + 1
      \<and> \<not> (em_session_terminal em \<and> em_last_progress em \<noteq> None)"
proof -
  let ?em = "foldl emit_step (emitter_new t) ops"
  have "emitter_inv t (emitter_new t :: 'a emitter)" by (simp add: emitter_inv_def emitter_new_def progress_count_def buffered_def)
  from emitting.run_inv [OF this, of ops] have inv: "emitter_inv t ?em" .
  then have "(em_last_progress_at ?em - t) div PROGRESS_INTERVAL_MS \<le> (em_now ?em - t) div PROGRESS_INTERVAL_MS"
    by (intro div_le_mono) (auto simp: emitter_inv_def)
  with inv show ?thesis by (auto simp: Let_def emitter_inv_def split: if_splits)
qed

end
