(* ===== verification/Session.thy ===== *)
theory Session
  imports FileStore TransferWire Progress
begin

text \<open>
  The transfer session, \<open>transfer/session.rs\<close>: a sender that serves the chunks of a file and a
  receiver that requests them in a sliding window, verifies and stores each, and completes the
  download. Both are machines over what arrives: one step handles one frame (or one failure of the
  transport) up to the next point where the code waits for a frame.
\<close>

section \<open>Errors and the transport\<close>

datatype transport_error =
  TpClosed
| TpCancelled
| TpFrameTooLarge nat nat
| TpIo string
| TpChannelClosed
| TpBackpressurePaused

text \<open>Texts inside \<open>Storage\<close>, \<open>Assemble\<close> and \<open>Io\<close> are reduced to a label. \<open>SePanic\<close> is a panic.\<close>

datatype session_error =
  SeWire wire_error
| SeTransport transport_error
| SeStorage string
| SeChunkHashMismatch nat rstring rstring
| SeChunkLengthMismatch nat nat nat
| SePeerMismatch rstring rstring
| SeManifestVersionMismatch int int
| SeTotalBytesMismatch nat nat
| SeChunkSizeMismatch nat nat
| SeTotalChunksMismatch nat nat
| SeChunkOutOfRange nat nat
| SeAssemble assemble_error
| SeCancelled
| SeMaxRetriesExceeded nat nat
| SeIo string
| SePanic

text \<open>
  One end of a transport. What the next sends return is an input; after the list they succeed.
  \<open>SendCancelled\<close> is the session's cancellation token, which wins over the send.
\<close>

datatype send_outcome = SendOk | SendCancelled | SendError transport_error

record link =
  lk_sends :: "send_outcome list"
  lk_sent :: "frame list"
  lk_closed :: bool

definition send_frame :: "wire_json \<Rightarrow> frame \<Rightarrow> link \<Rightarrow> (session_error + unit) \<times> link" where
  "send_frame wj f lk =
     (case encode_frame wj f [] of
        Inl e \<Rightarrow> (Inl (SeWire e), lk)
      | Inr _ \<Rightarrow>
          (let delivered = (\<lambda>outs. (Inr (), lk\<lparr>lk_sends := outs, lk_sent := lk_sent lk @ [f]\<rparr>))
           in case lk_sends lk of
                [] \<Rightarrow> delivered []
              | SendOk # outs \<Rightarrow> delivered outs
              | SendCancelled # outs \<Rightarrow> (Inl SeCancelled, lk\<lparr>lk_sends := outs\<rparr>)
              | SendError e # outs \<Rightarrow>
                  (Inl (if e = TpClosed \<or> e = TpChannelClosed then SeCancelled else SeTransport e),
                   lk\<lparr>lk_sends := outs\<rparr>)))"

text \<open>What waiting for a frame ends with.\<close>

datatype received = Received bytes | RecvEnded | RecvError transport_error | RecvTimeout | TokenCancelled

definition await_frame :: "wire_json \<Rightarrow> received \<Rightarrow> session_error + frame" where
  "await_frame wj ev =
     (case ev of
        TokenCancelled \<Rightarrow> Inl SeCancelled
      | RecvTimeout \<Rightarrow> Inl (SeIo ''recv timed out'')
      | RecvError e \<Rightarrow> Inl (SeTransport e)
      | RecvEnded \<Rightarrow> Inl (SeTransport TpChannelClosed)
      | Received bs \<Rightarrow> (case decode_frame wj bs of Inl e \<Rightarrow> Inl (SeWire e) | Inr (f, _) \<Rightarrow> Inr f))"

section \<open>The environment of a session\<close>

definition WINDOW_SIZE :: nat where "WINDOW_SIZE = 16"
definition MAX_CHUNK_RETRIES :: nat where "MAX_CHUNK_RETRIES = 5"

text \<open>
  The plan, the library, the crates: digests, JSON, base64. \<open>se_display\<close> is the \<open>Display\<close> of errors,
  which \<open>thiserror\<close> generates.
\<close>

record session_env =
  se_plan :: download_plan
  se_root :: path
  se_filename :: rstring
  se_os :: os_view
  se_digests :: digests
  se_wire :: wire_json
  se_b64_encode :: "bytes \<Rightarrow> rstring"
  se_b64_decode :: "rstring \<Rightarrow> bytes option"
  se_pubkey :: bytes
  se_display :: "session_error \<Rightarrow> rstring"

abbreviation plan_id :: "session_env \<Rightarrow> rstring" where
  "plan_id env \<equiv> dp_download_id (se_plan env)"

abbreviation plan_total :: "session_env \<Rightarrow> nat" where
  "plan_total env \<equiv> pls_total_chunks (dp_source_meta (se_plan env))"

definition find_chunk :: "session_env \<Rightarrow> nat \<Rightarrow> session_error + planned_chunk" where
  "find_chunk env i =
     (case find (\<lambda>c. pch_index c = i) (dp_chunks (se_plan env)) of
        None \<Rightarrow> Inl (SeChunkOutOfRange i (length (dp_chunks (se_plan env)) mod 2 ^ 32))
      | Some c \<Rightarrow> Inr c)"

section \<open>The sender\<close>

datatype sender_phase = AwaitHello | Serving | SenderDone "session_error + unit"

record sender =
  sn_link :: link
  sn_disk :: disk
  sn_have :: "nat list"
  sn_phase :: sender_phase

text \<open>Reading until the buffer is full: each read returns what is left of the file, at most the rest.\<close>

function read_rest :: "bytes \<Rightarrow> nat \<Rightarrow> nat \<Rightarrow> bytes \<Rightarrow> disk \<Rightarrow> (session_error + bytes) \<times> disk" where
  "read_rest file offset len buf dk =
     (if length buf < len
      then (case io_call dk of
              (Inl _, dk) \<Rightarrow> (Inl (SeIo ''read''), dk)
            | (Inr _, dk) \<Rightarrow>
                (let piece = take (len - length buf) (drop (offset + length buf) file)
                 in if piece = [] then (Inl (SeIo ''short read''), dk)
                    else read_rest file offset len (buf @ piece) dk))
      else (Inr buf, dk))"
  by pat_completeness auto
termination
  by (relation "measure (\<lambda>(file, offset, len, buf, dk). len - length buf)") auto

declare read_rest.simps [simp del]

definition read_chunk_at ::
    "session_env \<Rightarrow> path \<Rightarrow> planned_chunk \<Rightarrow> disk \<Rightarrow> (session_error + bytes \<times> rstring) \<times> disk" where
  "read_chunk_at env src c dk =
     on_ok (map_err (\<lambda>_. SeIo ''open'') (open_file src dk)) (\<lambda>file dk.
     on_ok (map_err (\<lambda>_. SeIo ''seek'') (io_call dk)) (\<lambda>_ dk.
     on_ok (read_rest file (pch_offset c) (pch_length c) [] dk) (\<lambda>buf dk.
       case verify_chunk_sha256 (se_digests env) buf (pch_sha256 c) of
         Inl _ \<Rightarrow> (Inl (SeIo ''host self-verify''), dk)
       | Inr sha \<Rightarrow> (Inr (buf, sha), dk))))"

definition sender_send :: "session_env \<Rightarrow> frame \<Rightarrow> sender \<Rightarrow> (session_error + unit) \<times> sender" where
  "sender_send env f s = (case send_frame (se_wire env) f (sn_link s) of (r, lk) \<Rightarrow> (r, s\<lparr>sn_link := lk\<rparr>))"

definition send_chunk :: "session_env \<Rightarrow> path \<Rightarrow> nat \<Rightarrow> sender \<Rightarrow> (session_error + unit) \<times> sender" where
  "send_chunk env src i s =
     (case find_chunk env i of
        Inl e \<Rightarrow> (Inl e, s)
      | Inr c \<Rightarrow>
          (case read_chunk_at env src c (sn_disk s) of
             (Inl e, dk) \<Rightarrow> (Inl e, s\<lparr>sn_disk := dk\<rparr>)
           | (Inr (bs, sha), dk) \<Rightarrow>
               sender_send env (ChunkFrame \<lparr>cf_download_id = plan_id env, cf_chunk_index = pch_index c,
                 cf_bytes_b64 = se_b64_encode env bs, cf_sha256 = sha\<rparr>) (s\<lparr>sn_disk := dk\<rparr>)))"

definition make_offer :: "session_env \<Rightarrow> offer_frame" where
  "make_offer env =
     (let plan = se_plan env
      in \<lparr>of_peer_id = sel_peer_id (dp_source plan), of_download_id = dp_download_id plan,
          of_media_id = dp_media_id plan, of_manifest_version = dp_manifest_version plan,
          of_total_bytes = dp_size_bytes plan, of_chunk_size_bytes = CHUNK_SIZE,
          of_total_chunks = plan_total env, of_sha256 = dp_sha256 plan, of_blake3 = dp_blake3 plan,
          of_filename = se_filename env\<rparr>)"

definition run_after_hello :: "session_env \<Rightarrow> hello_frame \<Rightarrow> sender \<Rightarrow> (session_error + unit option) \<times> sender" where
  "run_after_hello env hello s =
     on_ok (sender_send env (Offer (make_offer env)) s) (\<lambda>_ s.
       (Inr None, s\<lparr>sn_have := remdups (filter (\<lambda>i. i < plan_total env) (hf_have_chunks hello))\<rparr>))"

definition receive_hello :: "session_env \<Rightarrow> received \<Rightarrow> sender \<Rightarrow> (session_error + unit option) \<times> sender" where
  "receive_hello env ev s =
     (let plan = se_plan env
      in case await_frame (se_wire env) ev of
           Inl e \<Rightarrow> (Inl e, s)
         | Inr (Hello hello) \<Rightarrow>
             if hf_peer_id hello \<noteq> sel_peer_id (dp_source plan)
             then (Inl (SePeerMismatch (sel_peer_id (dp_source plan)) (hf_peer_id hello)), s)
             else if hf_download_id hello \<noteq> dp_download_id plan \<or> hf_media_id hello \<noteq> dp_media_id plan
                     \<or> hf_manifest_version hello \<noteq> dp_manifest_version plan
             then (Inl (SeWire (Malformed ''hello mismatch'')), s)
             else run_after_hello env hello s
         | Inr _ \<Rightarrow> (Inl (SeWire (Malformed ''expected hello'')), s))"

text \<open>One turn of the sender's loop; \<open>Some ()\<close> is its \<open>return Ok(())\<close>.\<close>

definition serve :: "session_env \<Rightarrow> path \<Rightarrow> received \<Rightarrow> sender \<Rightarrow> (session_error + unit option) \<times> sender" where
  "serve env src ev s =
     (case await_frame (se_wire env) ev of
        Inl e \<Rightarrow> (if e \<in> {SeTransport TpClosed, SeTransport TpChannelClosed, SeCancelled} then (Inr (Some ()), s) else (Inl e, s))
      | Inr (Request req) \<Rightarrow>
          if rf_chunk_index req \<in> set (sn_have s)
          then on_ok (sender_send env (Ack \<lparr>af_download_id = plan_id env, af_chunk_index = rf_chunk_index req\<rparr>) s)
                 (\<lambda>_ s. (Inr None, s))
          else on_ok (send_chunk env src (rf_chunk_index req) s) (\<lambda>_ s. (Inr None, s))
      | Inr (Ack ack) \<Rightarrow>
          if af_chunk_index ack \<ge> plan_total env
          then (Inl (SeChunkOutOfRange (af_chunk_index ack) (plan_total env)), s)
          else let s = s\<lparr>sn_have := List.insert (af_chunk_index ack) (sn_have s)\<rparr>
               in (Inr (if length (sn_have s) mod 2 ^ 32 \<ge> plan_total env then Some () else None), s)
      | Inr (Nak nak) \<Rightarrow> on_ok (send_chunk env src (nf_chunk_index nak) s) (\<lambda>_ s. (Inr None, s))
      | Inr (CancelFrame _) \<Rightarrow> (Inr (Some ()), s)
      | Inr (ErrorFrame _) \<Rightarrow> (Inl (SeIo ''peer error''), s)
      | Inr _ \<Rightarrow> (Inl (SeWire (Malformed ''unexpected frame'')), s))"

text \<open>An error of the loop that says the session was cancelled counts as success.\<close>

definition sender_settle :: "(session_error + unit option) \<times> sender \<Rightarrow> sender" where
  "sender_settle = (\<lambda>(r, s). case r of
       Inr None \<Rightarrow> s\<lparr>sn_phase := Serving\<rparr>
     | Inr (Some _) \<Rightarrow> s\<lparr>sn_phase := SenderDone (Inr ())\<rparr>
     | Inl e \<Rightarrow> s\<lparr>sn_phase := SenderDone (if e = SeCancelled \<and> sn_phase s = Serving then Inr () else Inl e)\<rparr>)"

definition sender_step :: "session_env \<Rightarrow> path \<Rightarrow> sender \<Rightarrow> received \<Rightarrow> sender" where
  "sender_step env src s ev =
     (case sn_phase s of
        AwaitHello \<Rightarrow> sender_settle (receive_hello env ev s)
      | Serving \<Rightarrow> sender_settle (serve env src ev s)
      | SenderDone _ \<Rightarrow> s)"

section \<open>The receiver's state\<close>

datatype receiver_phase = AwaitOffer | AwaitChunk | Finished "session_error + download_state"

text \<open>
  \<open>rv_in_flight\<close> maps the chunks asked for to their retry counts, \<open>rv_have\<close> is what the store held at
  the start. The payload of a progress event is the number of bytes; its floating-point rate is
  left out.
\<close>

record receiver =
  rv_db :: download_db
  rv_disk :: disk
  rv_link :: link
  rv_emitter :: "nat emitter"
  rv_have :: "nat list"
  rv_to_request :: "nat list"
  rv_in_flight :: "(nat, nat) hashmap"
  rv_verified :: "nat list"
  rv_transferred :: nat
  rv_phase :: receiver_phase

type_synonym 'a session = "(session_error + 'a) \<times> receiver"

definition stored :: "(download_db \<Rightarrow> 'a dresult) \<Rightarrow> receiver \<Rightarrow> 'a session" where
  "stored f s = (case f (rv_db s) of (r, db) \<Rightarrow> map_err (\<lambda>_. SeStorage ''store'') (r, s\<lparr>rv_db := db\<rparr>))"

definition on_disk :: "(disk \<Rightarrow> ('e + 'a) \<times> disk) \<Rightarrow> receiver \<Rightarrow> ('e + 'a) \<times> receiver" where
  "on_disk f s = (case f (rv_disk s) of (r, dk) \<Rightarrow> (r, s\<lparr>rv_disk := dk\<rparr>))"

definition send :: "session_env \<Rightarrow> frame \<Rightarrow> receiver \<Rightarrow> unit session" where
  "send env f s = (case send_frame (se_wire env) f (rv_link s) of (r, lk) \<Rightarrow> (r, s\<lparr>rv_link := lk\<rparr>))"

definition close :: "receiver \<Rightarrow> receiver" where
  "close s = s\<lparr>rv_link := (rv_link s)\<lparr>lk_closed := True\<rparr>\<rparr>"

definition report :: "download_state \<Rightarrow> rstring option \<Rightarrow> receiver \<Rightarrow> receiver" where
  "report st msg s = s\<lparr>rv_emitter := record_state st msg (rv_emitter s)\<rparr>"

definition report_end :: "download_state \<Rightarrow> rstring option \<Rightarrow> receiver \<Rightarrow> receiver" where
  "report_end st msg s = s\<lparr>rv_emitter := shutdown (record_state st msg (rv_emitter s))\<rparr>"

text \<open>A sanitized message, on which the sanitizer may panic.\<close>

definition with_message :: "rstring \<Rightarrow> (rstring \<Rightarrow> receiver \<Rightarrow> 'a session) \<Rightarrow> receiver \<Rightarrow> 'a session" where
  "with_message msg k s = (case sanitize_error_message msg of None \<Rightarrow> (Inl SePanic, s) | Some text \<Rightarrow> k text s)"

section \<open>The receiver\<close>

definition make_hello :: "session_env \<Rightarrow> nat list \<Rightarrow> hello_frame" where
  "make_hello env have_chunks =
     (let plan = se_plan env
      in \<lparr>hf_peer_id = derive_peer_id (se_digests env) (se_pubkey env), hf_download_id = dp_download_id plan,
          hf_media_id = dp_media_id plan, hf_manifest_version = dp_manifest_version plan,
          hf_have_chunks = have_chunks\<rparr>)"

definition receiver_start :: "session_env \<Rightarrow> receiver \<Rightarrow> download_state option session" where
  "receiver_start env s0 =
     (let did = plan_id env;
          (current, s) = stored (fetch_download did) (report DsPending None s0);
          resumed = (case current of Inr d \<Rightarrow> dl_state d = DsTransferring \<or> dl_state d = DsVerifying | Inl _ \<Rightarrow> False)
      in on_ok (if resumed then (Inr (), s)
                else on_ok (stored (transition did DsConnecting) s) (\<lambda>_ s.
                     on_ok (stored (transition did DsTransferring) (report DsConnecting None s)) (\<lambda>_ s.
                       (Inr (), report DsTransferring None s)))) (\<lambda>_ s.
         on_ok (stored (completed_chunk_indices did) s) (\<lambda>indices s.
         on_ok (send env (Hello (make_hello env indices)) s) (\<lambda>_ s.
           (Inr None, s\<lparr>rv_have := indices\<rparr>)))))"

definition verify_offer_against_plan :: "session_env \<Rightarrow> offer_frame \<Rightarrow> session_error + unit" where
  "verify_offer_against_plan env offer =
     (let plan = se_plan env
      in if of_peer_id offer \<noteq> sel_peer_id (dp_source plan)
         then Inl (SePeerMismatch (sel_peer_id (dp_source plan)) (of_peer_id offer))
         else if of_download_id offer \<noteq> dp_download_id plan then Inl (SeStorage ''offer download_id'')
         else if of_media_id offer \<noteq> dp_media_id plan then Inl (SeStorage ''offer media_id'')
         else if of_manifest_version offer \<noteq> dp_manifest_version plan
         then Inl (SeManifestVersionMismatch (dp_manifest_version plan) (of_manifest_version offer))
         else if of_total_bytes offer \<noteq> dp_size_bytes plan
         then Inl (SeTotalBytesMismatch (dp_size_bytes plan) (of_total_bytes offer))
         else if of_chunk_size_bytes offer \<noteq> CHUNK_SIZE
         then Inl (SeChunkSizeMismatch CHUNK_SIZE (of_chunk_size_bytes offer))
         else if of_total_chunks offer \<noteq> pls_total_chunks (dp_source_meta plan)
         then Inl (SeTotalChunksMismatch (pls_total_chunks (dp_source_meta plan)) (of_total_chunks offer))
         else if of_sha256 offer \<noteq> dp_sha256 plan then Inl (SeStorage ''offer sha256'')
         else if of_blake3 offer \<noteq> dp_blake3 plan then Inl (SeStorage ''offer blake3'')
         else Inr ())"

text \<open>Fresh chunks, while the window has room.\<close>

fun fill_window :: "session_env \<Rightarrow> nat list \<Rightarrow> receiver \<Rightarrow> unit session" where
  "fill_window env [] s = (Inr (), s\<lparr>rv_to_request := []\<rparr>)"
| "fill_window env (i # rest) s =
     (if length (rv_in_flight s) < WINDOW_SIZE
      then on_ok (send env (Request \<lparr>rf_download_id = plan_id env, rf_chunk_index = i\<rparr>) (s\<lparr>rv_to_request := rest\<rparr>)) (\<lambda>_ s.
           fill_window env rest (s\<lparr>rv_in_flight := hm_insert i 1 (rv_in_flight s)\<rparr>))
      else (Inr (), s\<lparr>rv_to_request := i # rest\<rparr>))"

text \<open>\<open>max_by_key\<close> returns the last of the greatest.\<close>

fun max_by_retries :: "(nat, nat) hashmap \<Rightarrow> (nat \<times> nat) option" where
  "max_by_retries [] = None"
| "max_by_retries ((i, r) # m) =
     (case max_by_retries m of
        None \<Rightarrow> Some (i, r)
      | Some (j, q) \<Rightarrow> if r > q then Some (i, r) else Some (j, q))"

definition rerequest :: "session_env \<Rightarrow> receiver \<Rightarrow> receiver" where
  "rerequest env s =
     (case max_by_retries (rv_in_flight s) of
        None \<Rightarrow> s
      | Some (i, r) \<Rightarrow>
          (let s1 = snd (send env (Request \<lparr>rf_download_id = plan_id env, rf_chunk_index = i\<rparr>) s)
           in s1\<lparr>rv_in_flight := hm_insert i (min (r + 1) u32_max) (rv_in_flight s1)\<rparr>))"

definition fail_download :: "session_env \<Rightarrow> rstring \<Rightarrow> receiver \<Rightarrow> receiver" where
  "fail_download env text s = close (report_end DsFailed (Some text) s)"

text \<open>What follows the assembly, on each of its results.\<close>

definition after_assembly :: "session_env \<Rightarrow> assemble_error + path \<times> rstring \<Rightarrow> receiver \<Rightarrow> download_state option session" where
  "after_assembly env res s =
     (let did = plan_id env
      in case res of
           Inr _ \<Rightarrow>
             on_ok (stored (transition did DsComplete) (snd (on_disk (cleanup_incomplete (se_root env) did) s))) (\<lambda>_ s.
               (Inr (Some DsComplete), close (report_end DsComplete None s)))
         | Inl e \<Rightarrow>
             if e = ABlake3Mismatch
             then with_message (ascii ''blake3 mismatch'') (\<lambda>text s.
               on_ok (stored (set_last_error did text) s) (\<lambda>_ s.
               on_ok (stored (transition did DsFailed) s) (\<lambda>_ s.
                 (Inr (Some DsFailed), fail_download env text s)))) s
             else with_message (ascii ''assemble: '' @ se_display env (SeAssemble e)) (\<lambda>text s.
               on_ok (stored (transition did DsFailed) (snd (stored (set_last_error did text) s))) (\<lambda>_ s.
                 (Inl (SeAssemble e), fail_download env text s))) s)"

definition assemble_plan :: "session_env \<Rightarrow> disk \<Rightarrow> (assemble_error + path \<times> rstring) \<times> disk" where
  "assemble_plan env =
     (let plan = se_plan env
      in assemble_and_finalize (se_os env) (se_digests env) (se_root env) (dp_download_id plan) (dp_sha256 plan)
           (se_filename env) (dp_blake3 plan) (map (\<lambda>c. (pch_index c, pch_length c)) (dp_chunks plan)) (dp_size_bytes plan))"

definition finish_download :: "session_env \<Rightarrow> receiver \<Rightarrow> download_state option session" where
  "finish_download env s =
     on_ok (stored (transition (plan_id env) DsVerifying) s) (\<lambda>_ s.
       case on_disk (assemble_plan env) (report DsVerifying None s) of (res, s) \<Rightarrow> after_assembly env res s)"

text \<open>
  The top of the loop: fill the window, ask again for the chunk with most retries, and when
  nothing is in flight say so, close and finish. \<open>None\<close> is waiting for the next frame.
\<close>

definition loop_top :: "session_env \<Rightarrow> receiver \<Rightarrow> download_state option session" where
  "loop_top env s =
     on_ok (fill_window env (rv_to_request s) s) (\<lambda>_ s.
       let s = rerequest env s
       in if rv_in_flight s = []
          then finish_download env (close (snd (send env
                 (CancelFrame \<lparr>xf_download_id = plan_id env, xf_reason = ascii ''complete''\<rparr>) s)))
          else (Inr None, s))"

definition wrapping_sub_u64 :: "nat \<Rightarrow> nat \<Rightarrow> nat" where
  "wrapping_sub_u64 a b = (a + (2 ^ 64 - b mod 2 ^ 64)) mod 2 ^ 64"

definition receive_offer :: "session_env \<Rightarrow> received \<Rightarrow> receiver \<Rightarrow> download_state option session" where
  "receive_offer env ev s =
     (case await_frame (se_wire env) ev of
        Inl e \<Rightarrow> (Inl e, s)
      | Inr (Offer offer) \<Rightarrow>
          (case verify_offer_against_plan env offer of
             Inl e \<Rightarrow> (Inl e, s)
           | Inr _ \<Rightarrow>
               (let size_bytes = dp_size_bytes (se_plan env)
                in loop_top env (s\<lparr>rv_to_request := filter (\<lambda>i. i \<notin> set (rv_have s)) (map pch_index (dp_chunks (se_plan env))),
                     rv_in_flight := [], rv_verified := [],
                     rv_transferred := min (wrapping_sub_u64 size_bytes (card (set (rv_have s)) * CHUNK_SIZE)) size_bytes\<rparr>)))
      | Inr _ \<Rightarrow> (Inl (SeWire (Malformed ''expected Offer'')), s))"

section \<open>One chunk\<close>

definition send_nak_and_requeue :: "session_env \<Rightarrow> nat \<Rightarrow> nat \<Rightarrow> receiver \<Rightarrow> unit session" where
  "send_nak_and_requeue env entry i s =
     (case find_chunk env i of
        Inl e \<Rightarrow> (Inl e, s)
      | Inr expected \<Rightarrow>
          if entry + 1 > MAX_CHUNK_RETRIES then (Inl (SeMaxRetriesExceeded i MAX_CHUNK_RETRIES), s)
          else on_ok (send env (Nak \<lparr>nf_download_id = plan_id env, nf_chunk_index = i,
                                     nf_expected_sha256 = pch_sha256 expected\<rparr>) s) (\<lambda>_ s.
               (Inr (), s\<lparr>rv_in_flight := hm_insert i (entry + 1) (rv_in_flight s)\<rparr>)))"

definition accept_chunk :: "session_env \<Rightarrow> nat \<Rightarrow> planned_chunk \<Rightarrow> bytes \<Rightarrow> receiver \<Rightarrow> (nat \<times> nat) option session" where
  "accept_chunk env i expected bs s =
     on_ok (map_err (\<lambda>_. SeIo ''write'') (on_disk (write_chunk_to_incomplete (se_root env) (plan_id env) i bs) s)) (\<lambda>_ s.
     on_ok (stored (mark_chunk_verified (plan_id env) i (pch_sha256 expected)) s) (\<lambda>_ s.
     on_ok (send env (Ack \<lparr>af_download_id = plan_id env, af_chunk_index = i\<rparr>) (s\<lparr>rv_verified := List.insert i (rv_verified s)\<rparr>)) (\<lambda>_ s.
       (Inr (Some (i, pch_length expected)), s))))"

definition handle_chunk :: "session_env \<Rightarrow> chunk_frame \<Rightarrow> receiver \<Rightarrow> (nat \<times> nat) option session" where
  "handle_chunk env chunk s =
     (let i = cf_chunk_index chunk
      in case hm_get (rv_in_flight s) i of
           None \<Rightarrow>
             if i \<in> set (rv_verified s)
             then on_ok (send env (Ack \<lparr>af_download_id = plan_id env, af_chunk_index = i\<rparr>) s) (\<lambda>_ s. (Inr None, s))
             else (Inl (SeWire (Malformed ''not in flight'')), s)
         | Some entry \<Rightarrow>
             (let s = s\<lparr>rv_in_flight := hm_remove i (rv_in_flight s)\<rparr>
              in case find_chunk env i of
                   Inl e \<Rightarrow> (Inl e, s)
                 | Inr expected \<Rightarrow>
                     (case se_b64_decode env (cf_bytes_b64 chunk) of
                        None \<Rightarrow> (Inl (SeIo ''base64 decode''), s)
                      | Some bs \<Rightarrow>
                          if length bs \<noteq> pch_length expected
                          then on_ok (send_nak_and_requeue env entry i s) (\<lambda>_ s.
                                 (Inl (SeChunkLengthMismatch i (pch_length expected) (length bs mod 2 ^ 32)), s))
                          else (case verify_chunk_sha256 (se_digests env) bs (pch_sha256 expected) of
                                  Inl _ \<Rightarrow> on_ok (send_nak_and_requeue env entry i s) (\<lambda>_ s.
                                    (Inl (SeChunkHashMismatch i (pch_sha256 expected) (cf_sha256 chunk)), s))
                                | Inr _ \<Rightarrow> accept_chunk env i expected bs s))))"

definition requeued :: "session_error \<Rightarrow> bool" where
  "requeued e \<longleftrightarrow> (case e of SeChunkHashMismatch _ _ _ \<Rightarrow> True | SeChunkLengthMismatch _ _ _ \<Rightarrow> True | _ \<Rightarrow> False)"

definition receive_chunk :: "session_env \<Rightarrow> chunk_frame \<Rightarrow> receiver \<Rightarrow> download_state option session" where
  "receive_chunk env chunk s =
     (case handle_chunk env chunk s of
        (Inr None, s) \<Rightarrow> loop_top env s
      | (Inr (Some (_, n)), s) \<Rightarrow>
          (let bytes = saturating_add_u64 (rv_transferred s) n
           in loop_top env (s\<lparr>rv_transferred := bytes, rv_emitter := record_progress bytes (rv_emitter s)\<rparr>))
      | (Inl e, s) \<Rightarrow>
          if requeued e then loop_top env s
          else with_message (se_display env e) (\<lambda>text s.
                 (Inr (Some DsFailed), report_end DsFailed (Some text)
                    (snd (stored (transition (plan_id env) DsFailed)
                      (snd (stored (set_last_error (plan_id env) text) s))))))
               (close (snd (send env (CancelFrame \<lparr>xf_download_id = plan_id env, xf_reason = ascii ''hash_mismatch''\<rparr>) s))))"

definition receive :: "session_env \<Rightarrow> received \<Rightarrow> receiver \<Rightarrow> download_state option session" where
  "receive env ev s =
     (case await_frame (se_wire env) ev of
        Inl e \<Rightarrow>
          if e \<in> {SeTransport TpClosed, SeTransport TpChannelClosed, SeTransport TpCancelled, SeCancelled}
          then (Inl SeCancelled,
                snd (stored (set_last_error (plan_id env) (ascii ''peer disappeared mid-transfer''))
                  (report_end DsCancelled None (snd (stored (transition (plan_id env) DsCancelled) s)))))
          else (Inl e, s)
      | Inr (ChunkFrame chunk) \<Rightarrow> receive_chunk env chunk s
      | Inr (CancelFrame _) \<Rightarrow> (Inr (Some DsCancelled), report_end DsCancelled None s)
      | Inr (ErrorFrame e) \<Rightarrow>
          with_message (ef_reason e) (\<lambda>text s.
            (Inl (SeIo ''peer error''), snd (stored (set_last_error (plan_id env) text) s))) s
      | Inr (Ack _) \<Rightarrow> (Inl (SeWire (Malformed ''Ack/Nak not expected on receiver'')), s)
      | Inr (Nak _) \<Rightarrow> (Inl (SeWire (Malformed ''Ack/Nak not expected on receiver'')), s)
      | Inr _ \<Rightarrow> (Inl (SeWire (Malformed ''unexpected frame kind on receiver'')), s))"

section \<open>The receiver as a machine\<close>

text \<open>\<open>run\<close> around \<open>run_inner\<close>: a cancellation that surfaced anywhere is recorded once.\<close>

definition ensure_cancelled_terminal :: "session_env \<Rightarrow> receiver \<Rightarrow> receiver" where
  "ensure_cancelled_terminal env s =
     (case stored (fetch_download (plan_id env)) s of
        (r, s) \<Rightarrow>
          if (case r of Inr d \<Rightarrow> dl_state d \<in> {DsCancelled, DsFailed, DsComplete} | Inl _ \<Rightarrow> False) then s
          else report_end DsCancelled None (snd (stored (transition (plan_id env) DsCancelled) s)))"

definition settle :: "session_env \<Rightarrow> receiver_phase \<Rightarrow> download_state option session \<Rightarrow> receiver" where
  "settle env waiting = (\<lambda>(r, s). case r of
       Inr None \<Rightarrow> s\<lparr>rv_phase := waiting\<rparr>
     | Inr (Some st) \<Rightarrow> s\<lparr>rv_phase := Finished (Inr st)\<rparr>
     | Inl e \<Rightarrow> (if e = SeCancelled then ensure_cancelled_terminal env s else s)\<lparr>rv_phase := Finished (Inl e)\<rparr>)"

definition receiver_init :: "session_env \<Rightarrow> download_db \<Rightarrow> disk \<Rightarrow> link \<Rightarrow> nat \<Rightarrow> receiver" where
  "receiver_init env db dk lk t =
     settle env AwaitOffer (receiver_start env
       \<lparr>rv_db = db, rv_disk = dk, rv_link = lk, rv_emitter = emitter_new t, rv_have = [], rv_to_request = [],
        rv_in_flight = [], rv_verified = [], rv_transferred = 0, rv_phase = AwaitOffer\<rparr>)"

text \<open>An event comes with the time that has passed since the one before.\<close>

definition receiver_step :: "session_env \<Rightarrow> receiver \<Rightarrow> nat \<times> received \<Rightarrow> receiver" where
  "receiver_step env s0 = (\<lambda>(dt, ev).
     let s = s0\<lparr>rv_emitter := emit_step (rv_emitter s0) (EoElapse dt)\<rparr>
     in case rv_phase s of
          AwaitOffer \<Rightarrow> settle env AwaitChunk (receive_offer env ev s)
        | AwaitChunk \<Rightarrow> settle env AwaitChunk (receive env ev s)
        | Finished _ \<Rightarrow> s)"

definition run_receiver :: "session_env \<Rightarrow> download_db \<Rightarrow> disk \<Rightarrow> link \<Rightarrow> nat \<Rightarrow> (nat \<times> received) list \<Rightarrow> receiver" where
  "run_receiver env db dk lk t events = foldl (receiver_step env) (receiver_init env db dk lk t) events"

end
