(* ===== verification/SessionSafety.thy ===== *)
theory SessionSafety
  imports Session
begin

text \<open>
  What a receiver can do to the library, whatever its peer sends and whatever fails: it adds at most
  the one file its plan describes, and reports the download complete only when that file is there.
\<close>

section \<open>What may change in the library\<close>

definition target :: "session_env \<Rightarrow> path \<Rightarrow> bool" where
  "target env p \<longleftrightarrow> (\<exists>out. sanitize (ov_nfc (se_os env)) (se_filename env) = Inr out
     \<and> content_addressed_path (se_root env) (dp_sha256 (se_plan env)) out = Inr p)"

definition as_planned :: "session_env \<Rightarrow> bytes \<Rightarrow> bool" where
  "as_planned env bs \<longleftrightarrow> length bs = dp_size_bytes (se_plan env)
     \<and> dg_sha256_hex (se_digests env) bs = dp_sha256 (se_plan env) \<and> dg_blake3_hex (se_digests env) bs = dp_blake3 (se_plan env)"

definition library_safe :: "session_env \<Rightarrow> disk \<Rightarrow> disk \<Rightarrow> bool" where
  "library_safe env dk dk' \<longleftrightarrow> (\<forall>q. in_library (se_root env) q \<longrightarrow>
     hm_get (dk_files dk') q = hm_get (dk_files dk) q
     \<or> target env q \<and> (\<exists>bs. hm_get (dk_files dk') q = Some bs \<and> as_planned env bs))"

definition completed :: "session_env \<Rightarrow> receiver \<Rightarrow> bool" where
  "completed env s \<longleftrightarrow> (\<exists>p bs. target env p \<and> hm_get (dk_files (rv_disk s)) p = Some bs \<and> as_planned env bs)
     \<and> map_option dl_state (hm_get (dd_downloads (rv_db s)) (plan_id env)) = Some DsComplete"

named_theorems lib_safe

lemma library_safe_refl [simp]: "library_safe env dk dk"
  by (simp add: library_safe_def)

lemma library_safe_trans: "library_safe env a b \<Longrightarrow> library_safe env b c \<Longrightarrow> library_safe env a c"
  by (simp add: library_safe_def) metis

lemma tmp_library_safe: "same_except (in_tmp (se_root env)) dk dk' \<Longrightarrow> library_safe env dk dk'"
  using tmp_not_library by (auto simp: library_safe_def same_except_def)

lemma on_ok_lib [lib_safe]:
  assumes "library_safe env dk (rv_disk (snd r))" and "\<And>a s. r = (Inr a, s) \<Longrightarrow> library_safe env (rv_disk s) (rv_disk (snd (k a s)))"
  shows "library_safe env dk (rv_disk (snd (on_ok r k)))"
  using assms by (cases r) (auto simp: on_ok_def split: sum.splits intro: library_safe_trans)

lemma rv_disk_simps [simp]:
  "rv_disk (snd (stored f s)) = rv_disk s" "rv_disk (snd (send env fr s)) = rv_disk s" "rv_disk (close s) = rv_disk s"
  "rv_disk (report st m s) = rv_disk s" "rv_disk (report_end st m s) = rv_disk s" "rv_disk (fail_download env t s) = rv_disk s"
  "rv_disk (rerequest env s) = rv_disk s"
  by (simp_all add: stored_def send_def close_def report_def report_end_def fail_download_def rerequest_def
      split: prod.splits option.splits)

lemma stored_disk: "stored f s = (r, s') \<Longrightarrow> rv_disk s' = rv_disk s"
  by (metis rv_disk_simps(1) snd_conv)

lemma send_disk: "send env fr s = (r, s') \<Longrightarrow> rv_disk s' = rv_disk s"
  by (metis rv_disk_simps(2) snd_conv)

lemma fill_window_disk [simp]: "rv_disk (snd (fill_window env is s)) = rv_disk s"
proof (induction "is" arbitrary: s)
  case (Cons i "is")
  have "rv_disk (snd (on_ok r k)) = rv_disk s0" if "rv_disk (snd r) = rv_disk s0" "\<And>a s. rv_disk (snd (k a s)) = rv_disk s"
    for r :: "unit session" and k :: "unit \<Rightarrow> receiver \<Rightarrow> unit session" and s0
    using that by (cases r) (auto simp: on_ok_def split: sum.splits)
  from this [of _ "s\<lparr>rv_to_request := is\<rparr>"] Cons show ?case by simp
qed simp

lemma with_message_lib [lib_safe]:
  "(\<And>t. library_safe env dk (rv_disk (snd (k t s)))) \<Longrightarrow> library_safe env dk (rv_disk s) \<Longrightarrow>
     library_safe env dk (rv_disk (snd (with_message msg k s)))"
  by (simp add: with_message_def split: option.splits)

section \<open>Writes outside the library\<close>

lemma remove_dir_writes: "(\<And>q. starts_with p q \<Longrightarrow> W q) \<Longrightarrow> same_except W dk (snd (remove_dir_if_exists p dk))"
proof -
  assume w: "\<And>q. starts_with p q \<Longrightarrow> W q"
  have "map_of (filter (\<lambda>(q, _). \<not> starts_with p q) m) q = map_of m q" if "\<not> W q" for m :: "(path, bytes) hashmap" and q
    using that w by (induction m) auto
  then have "same_except W d (snd (Inr (), d\<lparr>dk_files := filter (\<lambda>(q, _). \<not> starts_with p q) (dk_files d)\<rparr>))" for d
    by (simp add: same_except_def)
  then show ?thesis by (auto simp: remove_dir_if_exists_def intro!: io_writes)
qed

lemma starts_with_prefix: "starts_with (p @ r) q \<Longrightarrow> starts_with p q"
proof -
  assume "starts_with (p @ r) q"
  then have "take (length p) (take (length (p @ r)) q) = take (length p) (p @ r)" by (simp add: starts_with_def)
  then show "starts_with p q" by (simp add: starts_with_def)
qed

lemma cleanup_writes: "same_except (in_tmp root) dk (snd (cleanup_incomplete root did dk))"
proof -
  have "in_tmp root q" if "starts_with (root @ [ascii ''tmp'', x, did]) q" for x q
    using starts_with_prefix [of "root @ [ascii ''tmp'']" "[x, did]" q] that by (simp add: in_tmp_def)
  then show ?thesis unfolding cleanup_incomplete_def by (intro on_ok_writes remove_dir_writes) auto
qed

lemma write_chunk_writes: "same_except (\<lambda>q. q = chunk_file root did i) dk (snd (write_chunk_to_incomplete root did i bs dk))"
  unfolding write_chunk_to_incomplete_def
  by (auto split: sum.splits dest!: incomplete_chunk_path_Inr intro!: on_ok_writes io_call_writes create_file_writes append_file_writes)

lemma write_chunk_lib [lib_safe]: "library_safe env dk (snd (write_chunk_to_incomplete (se_root env) did i bs dk))"
  by (rule tmp_library_safe [OF same_except_mono [OF write_chunk_writes]]) simp

section \<open>Finishing\<close>

lemma execute_Inr: "execute f db = (Inr u, db') \<Longrightarrow> \<exists>fs. db' = f (db\<lparr>dd_faults := fs\<rparr>)"
  by (auto simp: execute_def sql_def Let_def split: list.splits option.splits) (metis download_db.surjective download_db.update_convs(4))+

lemma transition_Inr:
  assumes "transition did st db = (Inr u, db')"
  shows "map_option dl_state (hm_get (dd_downloads db') did) = Some st"
proof -
  from assms obtain current db1 where f: "fetch_state did db = (Inr current, db1)"
    and e: "execute (on_download did (\<lambda>d. d\<lparr>dl_state := st\<rparr>)) db1 = (Inr u, db')"
    by (auto simp: transition_def and_then_def split: prod.splits sum.splits if_splits)
  from fetch_row_result [OF f [unfolded fetch_state_def]] obtain d where "hm_get (dd_downloads db1) did = Some d" by auto
  with execute_Inr [OF e] show ?thesis by auto
qed

lemma assemble_lib:
  assumes "on_disk (assemble_plan env) s = (r, s')"
  shows "library_safe env (rv_disk s) (rv_disk s')"
    and "r = Inr x \<Longrightarrow> \<exists>p bs. target env p \<and> hm_get (dk_files (rv_disk s')) p = Some bs \<and> as_planned env bs"
proof -
  let ?plan = "se_plan env"
  let ?run = "assemble_and_finalize (se_os env) (se_digests env) (se_root env) (plan_id env) (dp_sha256 ?plan) (se_filename env)
      (dp_blake3 ?plan) (map (\<lambda>c. (pch_index c, pch_length c)) (dp_chunks ?plan)) (dp_size_bytes ?plan) (rv_disk s)"
  from assms have run: "?run = (r, rv_disk s')" by (auto simp: on_disk_def assemble_plan_def Let_def split: prod.splits)
  note spec = assembled_file_verified_lemma [where ov = "se_os env" and dg = "se_digests env" and root = "se_root env" and did = "plan_id env"
      and sha = "dp_sha256 ?plan" and name = "se_filename env" and ?blake3.0 = "dp_blake3 ?plan"
      and lens = "map (\<lambda>c. (pch_index c, pch_length c)) (dp_chunks ?plan)"
      and sz = "dp_size_bytes ?plan" and dk = "rv_disk s", unfolded run]
  show "library_safe env (rv_disk s) (rv_disk s')"
    using spec by (auto simp: library_safe_def same_except_def target_def as_planned_def split: sum.splits prod.splits)
  show "\<exists>p bs. target env p \<and> hm_get (dk_files (rv_disk s')) p = Some bs \<and> as_planned env bs" if "r = Inr x"
    using spec that by (auto simp: target_def as_planned_def split: prod.splits)
qed

lemma completed_more [simp]: "completed env (close s) = completed env s" "completed env (report_end st m s) = completed env s"
  "completed env (s\<lparr>rv_phase := ph\<rparr>) = completed env s" "completed env (s\<lparr>rv_emitter := em\<rparr>) = completed env s"
  by (simp_all add: completed_def close_def report_end_def)

lemma stored_Inr: "stored f s = (Inr a, s') \<Longrightarrow> \<exists>db. f (rv_db s) = (Inr a, db) \<and> s' = s\<lparr>rv_db := db\<rparr>"
  by (auto simp: stored_def map_err_def split: prod.splits sum.splits)

lemma cleanup_lib: "library_safe env (rv_disk s) (rv_disk (snd (on_disk (cleanup_incomplete (se_root env) did) s)))"
  using tmp_library_safe [OF cleanup_writes [of "se_root env" "rv_disk s" did]] by (simp add: on_disk_def case_prod_beta)

lemma cleanup_keeps:
  assumes "target env p"
  shows "hm_get (dk_files (rv_disk (snd (on_disk (cleanup_incomplete (se_root env) did) s)))) p = hm_get (dk_files (rv_disk s)) p"
proof -
  have "in_library (se_root env) p" using assms by (auto simp: target_def content_path_library)
  then have "\<not> in_tmp (se_root env) p" using tmp_not_library by blast
  with cleanup_writes [of "se_root env" "rv_disk s" did] show ?thesis by (simp add: on_disk_def same_except_def case_prod_beta)
qed

lemma after_assembly_lib: "library_safe env (rv_disk s) (rv_disk (snd (after_assembly env res s)))"
proof -
  have "library_safe env (rv_disk s) (rv_disk (snd (on_ok (stored (transition (plan_id env) DsComplete)
      (snd (on_disk (cleanup_incomplete (se_root env) (plan_id env)) s))) (\<lambda>_ s. (Inr (Some DsComplete), close (report_end DsComplete None s))))))"
    by (rule on_ok_lib) (simp_all add: cleanup_lib)
  then show ?thesis unfolding after_assembly_def Let_def
    by (auto split: sum.splits intro!: with_message_lib on_ok_lib)
qed

lemma finish_download_lib [lib_safe]: "library_safe env (rv_disk s) (rv_disk (snd (finish_download env s)))"
proof -
  have "library_safe env (rv_disk s1) (rv_disk (snd (case on_disk (assemble_plan env) (report DsVerifying None s1) of (res, s) \<Rightarrow> after_assembly env res s)))" for s1
    using assemble_lib(1) [of env "report DsVerifying None s1"] library_safe_trans [OF _ after_assembly_lib]
    by (auto split: prod.splits)
  then show ?thesis unfolding finish_download_def by (intro on_ok_lib) simp_all
qed

lemma after_assembly_completes:
  assumes "after_assembly env res s = (Inr (Some DsComplete), s')"
  shows "(\<exists>x. res = Inr x) \<and> (\<exists>db. map_option dl_state (hm_get (dd_downloads db) (plan_id env)) = Some DsComplete
    \<and> completed env s' = completed env ((snd (on_disk (cleanup_incomplete (se_root env) (plan_id env)) s))\<lparr>rv_db := db\<rparr>))"
proof -
  from assms obtain x where res: "res = Inr x"
    by (auto simp: after_assembly_def Let_def on_ok_Inr with_message_def split: sum.splits option.splits if_splits)
  from assms obtain s1 where "stored (transition (plan_id env) DsComplete)
      (snd (on_disk (cleanup_incomplete (se_root env) (plan_id env)) s)) = (Inr (), s1)" "s' = close (report_end DsComplete None s1)"
    by (auto simp: res after_assembly_def Let_def on_ok_Inr)
  with stored_Inr [OF this(1)] transition_Inr res show ?thesis by fastforce
qed

lemma finish_download_completes:
  assumes "finish_download env s = (Inr (Some DsComplete), s')"
  shows "completed env s'"
proof -
  from assms obtain s1 res s2 where a: "on_disk (assemble_plan env) s1 = (res, s2)"
    and rest: "after_assembly env res s2 = (Inr (Some DsComplete), s')"
    by (auto simp: finish_download_def on_ok_Inr case_prod_beta) (metis surjective_pairing)
  from after_assembly_completes [OF rest] obtain x db where res: "res = Inr x"
    and db: "map_option dl_state (hm_get (dd_downloads db) (plan_id env)) = Some DsComplete"
    and s': "completed env s' = completed env ((snd (on_disk (cleanup_incomplete (se_root env) (plan_id env)) s2))\<lparr>rv_db := db\<rparr>)" by blast
  from assemble_lib(2) [OF a res] obtain p bs where "target env p" "hm_get (dk_files (rv_disk s2)) p = Some bs" "as_planned env bs" by blast
  with cleanup_keeps [of env p "plan_id env" s2] db show ?thesis unfolding s' by (auto simp: completed_def)
qed

lemma loop_top_lib [lib_safe]: "library_safe env (rv_disk s) (rv_disk (snd (loop_top env s)))"
proof -
  have "library_safe env (rv_disk s1) (rv_disk (snd (finish_download env (close (snd (send env f (rerequest env s1)))))))" for s1 f
    using finish_download_lib [of env "close (snd (send env f (rerequest env s1)))"] by simp
  then show ?thesis unfolding loop_top_def Let_def by (intro on_ok_lib) auto
qed

lemma loop_top_completes: "loop_top env s = (Inr (Some DsComplete), s') \<Longrightarrow> completed env s'"
  by (auto simp: loop_top_def on_ok_Inr Let_def split: if_splits dest: finish_download_completes)

section \<open>Frames\<close>

lemma handle_chunk_lib [lib_safe]: "library_safe env (rv_disk s) (rv_disk (snd (handle_chunk env chunk s)))"
proof -
  have nak: "library_safe env (rv_disk s1) (rv_disk (snd (send_nak_and_requeue env e i s1)))" for e i s1
    unfolding send_nak_and_requeue_def by (auto split: sum.splits intro!: on_ok_lib)
  have wrote: "library_safe env (rv_disk s1) (rv_disk (snd (map_err g (on_disk (write_chunk_to_incomplete (se_root env) d i bs) s1))))" for g :: "io_error \<Rightarrow> session_error" and d i bs s1
    using write_chunk_lib [of env "rv_disk s1" d i bs] by (simp add: on_disk_def case_prod_beta)
  have accept: "library_safe env (rv_disk s1) (rv_disk (snd (accept_chunk env i c bs s1)))" for i c bs s1
    unfolding accept_chunk_def by (intro on_ok_lib wrote) auto
  show ?thesis unfolding handle_chunk_def Let_def
    by (auto split: option.splits sum.splits intro!: on_ok_lib
        intro: library_safe_trans [OF _ nak] library_safe_trans [OF _ accept])
qed

lemma receive_chunk_lib [lib_safe]: "library_safe env (rv_disk s) (rv_disk (snd (receive_chunk env chunk s)))"
proof -
  obtain r s1 where h: "handle_chunk env chunk s = (r, s1)" by fastforce
  have w: "library_safe env (rv_disk s) (rv_disk s1)" using handle_chunk_lib [of env s chunk] h by simp
  have top: "library_safe env (rv_disk s) (rv_disk (snd (loop_top env s2)))" if "rv_disk s2 = rv_disk s1" for s2
    using library_safe_trans [OF w] loop_top_lib [of env s2] that by simp
  show ?thesis unfolding receive_chunk_def Let_def h
    using w by (auto split: sum.splits option.splits prod.splits intro!: top with_message_lib)
qed

lemma receive_chunk_completes: "receive_chunk env chunk s = (Inr (Some DsComplete), s') \<Longrightarrow> completed env s'"
  by (auto simp: receive_chunk_def Let_def with_message_def split: prod.splits sum.splits option.splits if_splits
      dest: loop_top_completes)

lemma receive_lib: "library_safe env (rv_disk s) (rv_disk (snd (receive env ev s)))"
  unfolding receive_def by (auto split: sum.splits frame.splits intro!: lib_safe)

lemma receive_completes: "receive env ev s = (Inr (Some DsComplete), s') \<Longrightarrow> completed env s'"
  by (auto simp: receive_def with_message_def split: sum.splits frame.splits option.splits if_splits dest: receive_chunk_completes)

lemma receive_offer_lib: "library_safe env (rv_disk s) (rv_disk (snd (receive_offer env ev s)))"
proof -
  have "library_safe env (rv_disk s) (rv_disk (snd (loop_top env (s\<lparr>rv_to_request := a, rv_in_flight := b, rv_verified := c, rv_transferred := d\<rparr>))))" for a b c d
    using loop_top_lib [of env "s\<lparr>rv_to_request := a, rv_in_flight := b, rv_verified := c, rv_transferred := d\<rparr>"] by simp
  then show ?thesis unfolding receive_offer_def Let_def by (auto split: sum.splits frame.splits)
qed

lemma receive_offer_completes: "receive_offer env ev s = (Inr (Some DsComplete), s') \<Longrightarrow> completed env s'"
  by (auto simp: receive_offer_def Let_def split: sum.splits frame.splits dest: loop_top_completes)

lemma receiver_start_lib: "library_safe env (rv_disk s) (rv_disk (snd (receiver_start env s)))"
proof -
  obtain r s1 where f: "stored (fetch_download (plan_id env)) (report DsPending None s) = (r, s1)" by fastforce
  have "rv_disk s1 = rv_disk s" using stored_disk [OF f] by simp
  then have "library_safe env (rv_disk s) (rv_disk (snd (stored g s1)))" for g :: "download_db \<Rightarrow> unit dresult" by simp
  then show ?thesis unfolding receiver_start_def Let_def f
    using \<open>rv_disk s1 = rv_disk s\<close> by (auto split: sum.splits intro!: on_ok_lib)
qed

lemma receiver_start_waits: "receiver_start env s \<noteq> (Inr (Some st), s')"
  by (auto simp: receiver_start_def Let_def on_ok_Inr split: prod.splits)

section \<open>The machine\<close>

definition session_inv :: "session_env \<Rightarrow> disk \<Rightarrow> receiver \<Rightarrow> bool" where
  "session_inv env dk s \<longleftrightarrow> library_safe env dk (rv_disk s) \<and> (rv_phase s = Finished (Inr DsComplete) \<longrightarrow> completed env s)"

lemma ensure_cancelled_disk: "rv_disk (ensure_cancelled_terminal env s) = rv_disk s"
  by (auto simp: ensure_cancelled_terminal_def split: prod.splits dest: stored_disk)

lemma settle_inv:
  assumes "library_safe env dk (rv_disk (snd r))" and "\<And>s'. r = (Inr (Some DsComplete), s') \<Longrightarrow> completed env s'"
    and "waiting \<noteq> Finished (Inr DsComplete)"
  shows "session_inv env dk (settle env waiting r)"
  using assms by (cases r) (auto simp: settle_def session_inv_def ensure_cancelled_disk split: sum.splits option.splits)

lemma receiver_step_inv: "session_inv env dk s \<Longrightarrow> session_inv env dk (receiver_step env s ev)"
proof -
  assume inv: "session_inv env dk s"
  obtain dt e where ev: "ev = (dt, e)" by (cases ev)
  let ?s = "s\<lparr>rv_emitter := emit_step (rv_emitter s) (EoElapse dt)\<rparr>"
  have lib: "library_safe env dk (rv_disk ?s)" using inv by (simp add: session_inv_def)
  have one: "library_safe env dk (rv_disk (snd (receive env e ?s)))"
    and two: "library_safe env dk (rv_disk (snd (receive_offer env e ?s)))"
    by (rule library_safe_trans [OF lib receive_lib], rule library_safe_trans [OF lib receive_offer_lib])
  show ?thesis
  proof (cases "rv_phase s")
    case AwaitOffer
    with two show ?thesis by (simp add: receiver_step_def ev Let_def settle_inv receive_offer_completes)
  next
    case AwaitChunk
    with one show ?thesis by (simp add: receiver_step_def ev Let_def settle_inv receive_completes)
  next
    case (Finished r)
    with inv show ?thesis by (simp add: receiver_step_def ev Let_def session_inv_def)
  qed
qed

interpretation receiving: invariant_machine "receiver_step env" "session_inv env dk" for env dk
  by unfold_locales (rule receiver_step_inv)

section \<open>Property\<close>

text \<open>
  C23: whatever a peer sends and whatever fails, on the wire, in the store or in the file system, a
  receiver changes nothing in the library but the one file of its plan, and that only to bytes
  of the declared length with both declared digests; when it reports the download complete, the
  file is there and the row is complete.
\<close>

theorem receiver_never_corrupts:
  "let s = run_receiver env db dk lk t events
   in library_safe env dk (rv_disk s)
      \<and> (case rv_phase s of Finished (Inr DsComplete) \<Rightarrow> completed env s | _ \<Rightarrow> True)"
proof -
  have "session_inv env dk (receiver_init env db dk lk t)"
    unfolding receiver_init_def
    by (rule settle_inv)
      (use receiver_start_lib [of env "\<lparr>rv_db = db, rv_disk = dk, rv_link = lk, rv_emitter = emitter_new t, rv_have = [],
         rv_to_request = [], rv_in_flight = [], rv_verified = [], rv_transferred = 0, rv_phase = AwaitOffer\<rparr>"]
       in \<open>simp_all add: receiver_start_waits\<close>)
  from receiving.run_inv [OF this, of events] show ?thesis
    unfolding run_receiver_def Let_def session_inv_def
    by (auto split: receiver_phase.split sum.split download_state.split)
qed

end
