(* ===== verification/SessionLive.thy ===== *)
theory SessionLive
  imports SessionSafety
begin

text \<open>
  A receiver and an honest sender over a transport that neither loses nor reorders frames, with no
  failing calls: the receiver's steps in that case.
\<close>

section \<open>No failing calls\<close>

definition calm :: "disk \<Rightarrow> bool" where "calm dk \<longleftrightarrow> dk_faults dk = []"

lemma io_calm: "calm dk \<Longrightarrow> io f dk = f dk"
  by (simp add: calm_def io_def)

lemma io_call_calm: "calm dk \<Longrightarrow> io_call dk = (Inr (), dk)"
  by (simp add: io_call_def io_calm)

lemma open_file_calm: "calm dk \<Longrightarrow> hm_get (dk_files dk) p = Some bs \<Longrightarrow> open_file p dk = (Inr bs, dk)"
  by (simp add: open_file_def io_calm)

lemma file_len_calm: "calm dk \<Longrightarrow> hm_get (dk_files dk) p = Some bs \<Longrightarrow> file_len p dk = (Inr (length bs), dk)"
  by (simp add: file_len_def open_file_calm on_ok_def)

lemma create_file_calm: "calm dk \<Longrightarrow> create_file p dk = (Inr (), dk\<lparr>dk_files := hm_insert p [] (dk_files dk)\<rparr>)"
  by (simp add: create_file_def io_calm)

lemma append_file_calm: "calm dk \<Longrightarrow>
    append_file p bs dk = (Inr (), dk\<lparr>dk_files := hm_insert p (content p dk @ bs) (dk_files dk)\<rparr>)"
  by (simp add: append_file_def calm_def)

lemma calm_files [simp]: "calm (dk\<lparr>dk_files := fs\<rparr>) = calm dk"
  by (simp add: calm_def)

text \<open>Two disks that agree on every file.\<close>

definition files_like :: "(path \<Rightarrow> bytes option) \<Rightarrow> disk \<Rightarrow> bool" where
  "files_like f dk \<longleftrightarrow> calm dk \<and> (\<forall>q. hm_get (dk_files dk) q = f q)"

lemma copy_pieces_calm:
  "files_like f dk \<Longrightarrow> f out = Some old \<Longrightarrow>
     \<exists>dk'. copy_pieces out pieces h dk = (Inr (h @ concat pieces), dk') \<and> files_like (f(out \<mapsto> old @ concat pieces)) dk'"
proof (induction pieces arbitrary: h dk f old)
  case Nil
  then show ?case by (auto simp: io_call_calm on_ok_def files_like_def)
next
  case (Cons piece pieces)
  let ?dk = "dk\<lparr>dk_files := hm_insert out (content out dk @ piece) (dk_files dk)\<rparr>"
  have "content out dk = old" using Cons.prems by (simp add: files_like_def content_def)
  then have "files_like (f(out \<mapsto> old @ piece)) ?dk" using Cons.prems(1) by (auto simp: files_like_def)
  from Cons.IH [OF this fun_upd_same, of "h @ piece", unfolded fun_upd_upd] obtain dk' where
    "copy_pieces out pieces (h @ piece) ?dk = (Inr ((h @ piece) @ concat pieces), dk')"
    "files_like (f(out \<mapsto> (old @ piece) @ concat pieces)) dk'" by blast
  moreover have "calm dk" using Cons.prems(1) by (simp add: files_like_def)
  ultimately show ?case by (simp add: io_call_calm append_file_calm on_ok_def fun_upd_def)
qed

lemma read_pieces_calm: "calm dk \<Longrightarrow> read_pieces pieces h dk = (Inr (h @ concat pieces), dk)"
  by (induction pieces arbitrary: h) (simp_all add: io_call_calm on_ok_def)

lemma copy_chunks_calm:
  assumes "files_like f dk" and "f out = Some old" and "check_download_id did = Inr ()"
    and "\<And>i n. (i, n) \<in> set lens \<Longrightarrow> chunk_file root did i \<noteq> out \<and> f (chunk_file root did i) = Some (g i) \<and> length (g i) = n"
  shows "\<exists>dk'. copy_chunks root did out lens h dk = (Inr (h @ concat (map (g \<circ> fst) lens)), dk')
    \<and> files_like (f(out \<mapsto> old @ concat (map (g \<circ> fst) lens))) dk'"
  using assms
proof (induction lens arbitrary: h dk f old)
  case (Cons l lens)
  obtain i n where l: "l = (i, n)" by (cases l)
  let ?p = "chunk_file root did i"
  have p: "incomplete_chunk_path root did i = Inr ?p" using Cons.prems(3) by (simp add: incomplete_chunk_path_def chunk_file_def)
  have f: "?p \<noteq> out" "f ?p = Some (g i)" "length (g i) = n" using Cons.prems(4) [of i n] by (auto simp: l)
  then have get: "hm_get (dk_files dk) ?p = Some (g i)" and calm: "calm dk" using Cons.prems(1) by (auto simp: files_like_def)
  from copy_pieces_calm [OF Cons.prems(1,2), of "chunks IO_SCRATCH (g i)" h] obtain dk1 where
    dk1: "copy_pieces out (chunks IO_SCRATCH (g i)) h dk = (Inr (h @ g i), dk1)" "files_like (f(out \<mapsto> old @ g i)) dk1"
    by (auto simp: concat_chunks)
  have "(i', n') \<in> set lens \<Longrightarrow> chunk_file root did i' \<noteq> out \<and> (f(out \<mapsto> old @ g i)) (chunk_file root did i') = Some (g i')
      \<and> length (g i') = n'" for i' n' using Cons.prems(4) [of i' n'] by (auto simp: l)
  from Cons.IH [OF dk1(2) fun_upd_same Cons.prems(3) this, of "h @ g i", unfolded fun_upd_upd] obtain dk' where
    "copy_chunks root did out lens (h @ g i) dk1 = (Inr ((h @ g i) @ concat (map (g \<circ> fst) lens)), dk')"
    "files_like (f(out \<mapsto> (old @ g i) @ concat (map (g \<circ> fst) lens))) dk'" by blast
  then show ?case
    using dk1(1) p get calm f(3) by (simp add: l file_len_calm open_file_calm on_ok_def map_err_def fun_upd_def o_def)
qed (auto simp: fun_upd_idem)

lemma verify_file_calm:
  assumes "calm dk" "hm_get (dk_files dk) p = Some bs" "length bs = n" "dg_blake3_hex dg bs = x"
  shows "verify_full_blake3_via_file dg p n x dk = (Inr x, dk)"
  using assms by (simp add: verify_full_blake3_via_file_def file_len_calm open_file_calm read_pieces_calm concat_chunks on_ok_def map_err_def)

section \<open>An honest environment\<close>

text \<open>
  The plan slices the file and its digests are the file's; identifiers pass their checks; the
  library root is a directory and the paths used resolve below it; base64 reads back what it wrote.
\<close>

definition plan_of_file :: "session_env \<Rightarrow> bytes \<Rightarrow> bool" where
  "plan_of_file env file \<longleftrightarrow>
     distinct (map pch_index (dp_chunks (se_plan env)))
     \<and> (\<forall>c \<in> set (dp_chunks (se_plan env)). length (slice file c) = pch_length c
          \<and> dg_sha256_hex (se_digests env) (slice file c) = pch_sha256 c \<and> pch_index c < plan_total env)
     \<and> concat (map (slice file) (dp_chunks (se_plan env))) = file \<and> as_planned env file
     \<and> length (dp_chunks (se_plan env)) = plan_total env \<and> plan_total env < 2 ^ 32"

definition library_ready :: "session_env \<Rightarrow> path \<Rightarrow> bool" where
  "library_ready env dst \<longleftrightarrow>
     check_download_id (plan_id env) = Inr () \<and> validate_sha (dp_sha256 (se_plan env)) = Inr () \<and> target env dst
     \<and> ov_is_dir (se_os env) (se_root env) = Inr True
     \<and> (\<exists>croot cstaging cparent. ov_canonicalize (se_os env) (se_root env) = Inr croot
          \<and> ov_canonicalize (se_os env) (staging_file (se_root env) (plan_id env) (dp_sha256 (se_plan env))) = Inr cstaging
          \<and> ov_canonicalize (se_os env) (butlast dst) = Inr cparent \<and> starts_with croot cstaging \<and> starts_with croot cparent)"

lemma target_not_tmp: "target env p \<Longrightarrow> \<not> in_tmp (se_root env) p"
  using content_path_library tmp_not_library unfolding target_def by blast

lemma complete_download_calm:
  assumes "files_like f dk" and "library_ready env dst" and "f (staging_file (se_root env) (plan_id env) (dp_sha256 (se_plan env))) = Some bs"
    and "f dst = None"
  shows "\<exists>dk'. complete_download (se_os env) (se_root env) (dp_sha256 (se_plan env))
      (staging_file (se_root env) (plan_id env) (dp_sha256 (se_plan env))) (se_filename env) dk = (Inr dst, dk')
    \<and> hm_get (dk_files dk') dst = Some bs \<and> calm dk'"
proof -
  let ?st = "staging_file (se_root env) (plan_id env) (dp_sha256 (se_plan env))"
  have calm: "calm dk" and st: "hm_get (dk_files dk) ?st = Some bs" and dst: "hm_get (dk_files dk) dst = None"
    using assms by (auto simp: files_like_def)
  from assms(2) obtain out where out: "sanitize (ov_nfc (se_os env)) (se_filename env) = Inr out"
    "content_addressed_path (se_root env) (dp_sha256 (se_plan env)) out = Inr dst" by (auto simp: library_ready_def target_def)
  show ?thesis using assms(2) out calm st dst
    by (auto simp: library_ready_def complete_download_def move_into_library_def file_len_calm io_call_calm on_ok_def map_err_def
        assert_within_def file_exists_def rename_file_def io_calm hm_contains_def)
qed

lemma assemble_plan_calm:
  assumes plan: "plan_of_file env file" and ready: "library_ready env dst" and disk: "calm dk"
    and chunks: "\<And>c. c \<in> set (dp_chunks (se_plan env)) \<Longrightarrow>
      hm_get (dk_files dk) (chunk_file (se_root env) (plan_id env) (pch_index c)) = Some (slice file c)"
    and free: "hm_get (dk_files dk) dst = None"
  shows "\<exists>x dk'. assemble_plan env dk = (Inr x, dk') \<and> hm_get (dk_files dk') dst = Some file \<and> calm dk'"
proof -
  let ?plan = "se_plan env" and ?root = "se_root env" and ?did = "plan_id env"
  let ?st = "staging_file ?root ?did (dp_sha256 ?plan)" and ?cs = "dp_chunks ?plan"
  let ?g = "\<lambda>i. content (chunk_file ?root ?did i) dk" and ?lens = "map (\<lambda>c. (pch_index c, pch_length c)) ?cs"
  let ?d1 = "dk\<lparr>dk_files := hm_insert ?st [] (dk_files dk)\<rparr>"
  let ?f = "(\<lambda>q. hm_get (dk_files dk) q)(?st \<mapsto> [])"
  have g: "?g (pch_index c) = slice file c" if "c \<in> set ?cs" for c using chunks [OF that] by (simp add: content_def)
  have "map (?g \<circ> fst) ?lens = map (slice file) ?cs" using g by simp
  moreover have "concat (map (slice file) ?cs) = file" using plan by (simp add: plan_of_file_def)
  ultimately have all: "concat (map (?g \<circ> fst) ?lens) = file" by (simp only:)
  have like: "files_like ?f ?d1" using disk by (simp add: files_like_def)
  have did: "check_download_id ?did = Inr ()" and sha: "validate_sha (dp_sha256 ?plan) = Inr ()"
    using ready by (simp_all add: library_ready_def)
  have each: "chunk_file ?root ?did i \<noteq> ?st \<and> ?f (chunk_file ?root ?did i) = Some (?g i) \<and> length (?g i) = n"
    if "(i, n) \<in> set ?lens" for i n
    using that chunks g plan by (auto simp: plan_of_file_def)
  have "\<exists>dk'. copy_chunks ?root ?did ?st ?lens [] ?d1 = (Inr ([] @ concat (map (?g \<circ> fst) ?lens)), dk')
      \<and> files_like (?f(?st \<mapsto> [] @ concat (map (?g \<circ> fst) ?lens))) dk'"
    by (rule copy_chunks_calm [OF like fun_upd_same did]) (rule each)
  then obtain d2 where
    d2: "copy_chunks ?root ?did ?st ?lens [] ?d1 = (Inr file, d2)" "files_like ((hm_get (dk_files dk))(?st \<mapsto> file)) d2"
    unfolding all append_Nil fun_upd_upd by blast
  have calm2: "calm d2" and st2: "hm_get (dk_files d2) ?st = Some file" using d2(2) by (auto simp: files_like_def)
  have dst: "dst \<noteq> ?st" using ready target_not_tmp paths_apart(4) unfolding library_ready_def by metis
  from complete_download_calm [OF d2(2) ready] free dst obtain d3 where
    d3: "complete_download (se_os env) ?root (dp_sha256 ?plan) ?st (se_filename env) d2 = (Inr dst, d3)"
      "hm_get (dk_files d3) dst = Some file" "calm d3" by auto
  have staging: "staging_partial_path ?root ?did (dp_sha256 ?plan) = Inr ?st"
    using did sha by (simp add: staging_partial_path_def staging_file_def)
  have ok: "length file = dp_size_bytes ?plan" "dg_sha256_hex (se_digests env) file = dp_sha256 ?plan"
      "dg_blake3_hex (se_digests env) file = dp_blake3 ?plan" using plan by (auto simp: plan_of_file_def as_planned_def)
  have "assemble_plan env dk = (Inr (dst, dp_blake3 ?plan), d3)"
    using sha staging disk d2(1) calm2 st2 d3(1) ok
    by (simp add: assemble_plan_def Let_def assemble_and_finalize_def io_call_calm create_file_calm on_ok_def map_err_def
        finalize_staging_def verify_file_calm)
  with d3 show ?thesis by blast
qed

section \<open>The store without failures\<close>

definition db_ready :: "session_env \<Rightarrow> download_state \<Rightarrow> download_db \<Rightarrow> bool" where
  "db_ready env st db \<longleftrightarrow> dd_faults db = []
     \<and> (\<exists>d. hm_get (dd_downloads db) (plan_id env) = Some d \<and> dl_state d = st)
     \<and> (\<forall>c \<in> set (dp_chunks (se_plan env)). pch_index c < count_chunks (plan_id env) db
          \<and> (\<exists>row. hm_get (dd_chunks db) (plan_id env, pch_index c) = Some row \<and> ck_sha256 row = pch_sha256 c))"

lemma sql_calm: "dd_faults db = [] \<Longrightarrow> f db = (Inr a, db') \<Longrightarrow> sql f db = (Inr a, db')"
  by (simp add: sql_def)

lemma select_calm: "dd_faults db = [] \<Longrightarrow> select f db = (Inr (f db), db)"
  by (simp add: select_def sql_def)

lemma execute_calm: "dd_faults db = [] \<Longrightarrow> execute f db = (Inr (), f db)"
  by (simp add: execute_def sql_def)

lemma count_chunks_simps [simp]:
  "count_chunks did (on_download did' f db) = count_chunks did db"
  "count_chunks did (set_chunk_state did' c st db) = count_chunks did db"
proof -
  have "length (filter (\<lambda>((d, _), _). d = did) (update_where c f t)) = length (filter (\<lambda>((d, _), _). d = did) t)"
    for c f and t :: "(rstring \<times> nat, chunk_row) hashmap"
    by (induction t) (auto simp: update_where_def)
  then show "count_chunks did (set_chunk_state did' c st db) = count_chunks did db"
    by (simp add: count_chunks_def chunks_of_def set_chunk_state_def)
qed (simp add: count_chunks_def chunks_of_def)

lemma transition_ready:
  assumes "db_ready env st db" and "is_valid_transition st st'"
  shows "\<exists>db'. transition (plan_id env) st' db = (Inr (), db') \<and> db_ready env st' db' \<and> dd_chunks db' = dd_chunks db"
proof -
  from assms(1) obtain d where d: "hm_get (dd_downloads db) (plan_id env) = Some d" "dl_state d = st" and calm: "dd_faults db = []"
    by (auto simp: db_ready_def)
  then have "fetch_state (plan_id env) db = (Inr st, db)" by (simp add: fetch_state_def fetch_row_def sql_def)
  then have "transition (plan_id env) st' db = (Inr (), on_download (plan_id env) (\<lambda>d. d\<lparr>dl_state := st'\<rparr>) db)"
    using assms(2) calm by (simp add: transition_def and_then_def execute_calm del: is_valid_transition.simps)
  moreover have "db_ready env st' (on_download (plan_id env) (\<lambda>d. d\<lparr>dl_state := st'\<rparr>) db)" using assms(1) d by (auto simp: db_ready_def)
  moreover have "dd_chunks (on_download (plan_id env) (\<lambda>d. d\<lparr>dl_state := st'\<rparr>) db) = dd_chunks db" by (simp add: on_download_def)
  ultimately show ?thesis by blast
qed

lemma mark_ready:
  assumes "db_ready env st db" and "c \<in> set (dp_chunks (se_plan env))"
  shows "\<exists>db'. mark_chunk_verified (plan_id env) (pch_index c) (pch_sha256 c) db = (Inr (), db') \<and> db_ready env st db'"
proof -
  let ?did = "plan_id env" and ?i = "pch_index c"
  from assms obtain row where calm: "dd_faults db = []" and row: "hm_get (dd_chunks db) (?did, ?i) = Some row" "ck_sha256 row = pch_sha256 c"
    and i: "?i < count_chunks ?did db" by (auto simp: db_ready_def)
  let ?db1 = "set_chunk_state ?did (\<lambda>j _. j = ?i) CsVerified db"
  let ?db2 = "on_download ?did (\<lambda>d. d\<lparr>dl_transferred_bytes := transferred ?did ?db1\<rparr>) ?db1"
  have calm1: "dd_faults ?db1 = []" using calm by (simp add: set_chunk_state_def)
  have rows: "(\<exists>row. hm_get (dd_chunks ?db2) (?did, k) = Some row \<and> ck_sha256 row = sha)"
    if "\<exists>row. hm_get (dd_chunks db) (?did, k) = Some row \<and> ck_sha256 row = sha" for k sha
    using that by (elim exE conjE) simp
  have ready: "db_ready env st ?db2" using assms(1) calm1 rows by (simp add: db_ready_def) (elim exE conjE, simp)
  have wrote: "and_then (execute (set_chunk_state ?did (\<lambda>j _. j = ?i) CsVerified) db)
      (\<lambda>_ db3. refresh_transferred_bytes ?did db3) = (Inr (), ?db2)"
    using calm calm1 by (simp add: and_then_def execute_calm refresh_transferred_bytes_def)
  have "mark_chunk_verified ?did ?i (pch_sha256 c) db = (Inr (), if ck_state row = CsVerified then db else ?db2)"
    using calm i row wrote by (simp add: mark_chunk_verified_def fetch_total_chunks_def select_calm and_then_def Let_def)
  with ready assms(1) show ?thesis by auto
qed

section \<open>The transport without failures\<close>

definition carries :: "session_env \<Rightarrow> frame \<Rightarrow> bool" where
  "carries env f \<longleftrightarrow> (\<exists>bs. encode_frame (se_wire env) f [] = Inr bs \<and> decode_frame (se_wire env) bs = Inr (f, length bs))"

definition encoded :: "session_env \<Rightarrow> frame \<Rightarrow> bytes" where
  "encoded env f = (case encode_frame (se_wire env) f [] of Inr bs \<Rightarrow> bs | Inl _ \<Rightarrow> [])"

lemma await_encoded: "carries env f \<Longrightarrow> await_frame (se_wire env) (Received (encoded env f)) = Inr f"
  by (auto simp: carries_def encoded_def await_frame_def)

lemma send_frame_calm: "carries env f \<Longrightarrow> lk_sends lk = [] \<Longrightarrow>
    send_frame (se_wire env) f lk = (Inr (), lk\<lparr>lk_sent := lk_sent lk @ [f]\<rparr>)"
  by (auto simp: carries_def send_frame_def)

abbreviation request :: "session_env \<Rightarrow> nat \<Rightarrow> frame" where
  "request env i \<equiv> Request \<lparr>rf_download_id = plan_id env, rf_chunk_index = i\<rparr>"

abbreviation ack :: "session_env \<Rightarrow> nat \<Rightarrow> frame" where
  "ack env i \<equiv> Ack \<lparr>af_download_id = plan_id env, af_chunk_index = i\<rparr>"

abbreviation farewell :: "session_env \<Rightarrow> frame" where
  "farewell env \<equiv> CancelFrame \<lparr>xf_download_id = plan_id env, xf_reason = ascii ''complete''\<rparr>"

definition chunk_of :: "session_env \<Rightarrow> bytes \<Rightarrow> planned_chunk \<Rightarrow> frame" where
  "chunk_of env file c = ChunkFrame \<lparr>cf_download_id = plan_id env, cf_chunk_index = pch_index c,
     cf_bytes_b64 = se_b64_encode env (slice file c), cf_sha256 = pch_sha256 c\<rparr>"

definition frames_carried :: "session_env \<Rightarrow> bytes \<Rightarrow> bool" where
  "frames_carried env file \<longleftrightarrow> carries env (Offer (make_offer env)) \<and> carries env (farewell env)
     \<and> (\<forall>c \<in> set (dp_chunks (se_plan env)). carries env (request env (pch_index c)) \<and> carries env (ack env (pch_index c))
          \<and> carries env (chunk_of env file c))
     \<and> (\<forall>bs. se_b64_decode env (se_b64_encode env bs) = Some bs)"

section \<open>The receiver's steps\<close>

definition say :: "frame list \<Rightarrow> receiver \<Rightarrow> receiver" where
  "say fs s = s\<lparr>rv_link := (rv_link s)\<lparr>lk_sent := lk_sent (rv_link s) @ fs\<rparr>\<rparr>"

lemma say_simps [simp]: "say fs' (say fs s) = say (fs @ fs') s" "say [] s = s"
  "rv_in_flight (say fs s) = rv_in_flight s" "rv_to_request (say fs s) = rv_to_request s" "rv_verified (say fs s) = rv_verified s"
  "rv_have (say fs s) = rv_have s" "rv_db (say fs s) = rv_db s" "rv_disk (say fs s) = rv_disk s"
  "lk_sends (rv_link (say fs s)) = lk_sends (rv_link s)" "lk_sent (rv_link (say fs s)) = lk_sent (rv_link s) @ fs"
  "rv_phase (say fs s) = rv_phase s"
  by (simp_all add: say_def)

lemma send_calm: "carries env f \<Longrightarrow> lk_sends (rv_link s) = [] \<Longrightarrow> send env f s = (Inr (), say [f] s)"
  by (simp add: send_def send_frame_calm say_def)

definition indices :: "session_env \<Rightarrow> nat set" where
  "indices env = pch_index ` set (dp_chunks (se_plan env))"

definition recv_ok :: "session_env \<Rightarrow> bytes \<Rightarrow> path \<Rightarrow> receiver \<Rightarrow> bool" where
  "recv_ok env file dst s \<longleftrightarrow> calm (rv_disk s) \<and> lk_sends (rv_link s) = [] \<and> db_ready env DsTransferring (rv_db s)
     \<and> hm_get (dk_files (rv_disk s)) dst = None
     \<and> (\<forall>c \<in> set (dp_chunks (se_plan env)). pch_index c \<in> set (rv_have s) \<union> set (rv_verified s) \<longrightarrow>
          hm_get (dk_files (rv_disk s)) (chunk_file (se_root env) (plan_id env) (pch_index c)) = Some (slice file c))"

lemma recv_ok_simps [simp]: "recv_ok env file dst (say fs s) = recv_ok env file dst s"
  "recv_ok env file dst (s\<lparr>rv_in_flight := m\<rparr>) = recv_ok env file dst s"
  "recv_ok env file dst (s\<lparr>rv_to_request := is\<rparr>) = recv_ok env file dst s"
  "recv_ok env file dst (s\<lparr>rv_emitter := em\<rparr>) = recv_ok env file dst s"
  "recv_ok env file dst (s\<lparr>rv_transferred := n\<rparr>) = recv_ok env file dst s"
  "recv_ok env file dst (s\<lparr>rv_phase := ph\<rparr>) = recv_ok env file dst s"
  "recv_ok env file dst (close s) = recv_ok env file dst s"
  by (simp_all add: recv_ok_def say_def close_def)

lemma fill_window_calm:
  assumes "lk_sends (rv_link s) = []" and "\<forall>i \<in> set is. carries env (request env i)"
    and "distinct is" and "set is \<inter> fst ` set (rv_in_flight s) = {}"
  shows "\<exists>m. fill_window env is s = (Inr (), say (map (request env) (take (WINDOW_SIZE - length (rv_in_flight s)) is)) s
      \<lparr>rv_to_request := drop (WINDOW_SIZE - length (rv_in_flight s)) is, rv_in_flight := m\<rparr>)
    \<and> map fst m = map fst (rv_in_flight s) @ take (WINDOW_SIZE - length (rv_in_flight s)) is"
  using assms
proof (induction "is" arbitrary: s)
  case Nil
  show ?case by (intro exI [of _ "rv_in_flight s"]) simp
next
  case (Cons i "is")
  let ?n = "WINDOW_SIZE - length (rv_in_flight s)"
  show ?case
  proof (cases "length (rv_in_flight s) < WINDOW_SIZE")
    case False
    then show ?thesis by (intro exI [of _ "rv_in_flight s"]) simp
  next
    case True
    let ?s = "(say [request env i] (s\<lparr>rv_to_request := is\<rparr>))\<lparr>rv_in_flight := hm_insert i 1 (rv_in_flight s)\<rparr>"
    have keys: "map fst (hm_insert i 1 (rv_in_flight s)) = map fst (rv_in_flight s) @ [i]"
      using Cons.prems(4) by (simp add: update_keys image_iff)
    then have len: "length (hm_insert i 1 (rv_in_flight s)) = Suc (length (rv_in_flight s))" by (metis length_append_singleton length_map)
    have "set is \<inter> fst ` set (hm_insert i 1 (rv_in_flight s)) = {}" using Cons.prems(3,4) by (auto simp: fst_hm_insert)
    with Cons.IH [of ?s] Cons.prems obtain m where
      "fill_window env is ?s = (Inr (), say (map (request env) (take (WINDOW_SIZE - length (rv_in_flight ?s)) is)) ?s
          \<lparr>rv_to_request := drop (WINDOW_SIZE - length (rv_in_flight ?s)) is, rv_in_flight := m\<rparr>)"
      "map fst m = map fst (rv_in_flight ?s) @ take (WINDOW_SIZE - length (rv_in_flight ?s)) is" by auto
    moreover obtain k where k: "?n = Suc k" "WINDOW_SIZE - length (rv_in_flight ?s) = k" using True len by (cases ?n) auto
    ultimately show ?thesis using True Cons.prems keys
      by (intro exI [of _ m]) (simp add: send_calm on_ok_def say_def)
  qed
qed

lemma max_by_retries_key: "max_by_retries m = Some (i, r) \<Longrightarrow> i \<in> fst ` set m"
  by (induction m arbitrary: i r rule: max_by_retries.induct) (force split: option.splits if_splits)+

lemma max_by_retries_None: "max_by_retries m = None \<longleftrightarrow> m = []"
  by (induction m rule: max_by_retries.induct) (auto split: option.splits if_splits)

lemma rerequest_none: "rv_in_flight s = [] \<Longrightarrow> rerequest env s = s"
  by (simp add: rerequest_def)

lemma rerequest_calm:
  assumes "lk_sends (rv_link s) = []" and "rv_in_flight s \<noteq> []" and "\<forall>i \<in> fst ` set (rv_in_flight s). carries env (request env i)"
  shows "\<exists>j m. j \<in> fst ` set (rv_in_flight s) \<and> map fst m = map fst (rv_in_flight s)
    \<and> rerequest env s = (say [request env j] s)\<lparr>rv_in_flight := m\<rparr>"
proof -
  obtain j r where j: "max_by_retries (rv_in_flight s) = Some (j, r)" using assms(2) max_by_retries_None by fastforce
  from max_by_retries_key [OF j] have mem: "j \<in> fst ` set (rv_in_flight s)" .
  then have "map fst (hm_insert j (min (r + 1) u32_max) (rv_in_flight s)) = map fst (rv_in_flight s)" by (simp add: update_keys image_iff)
  moreover have "send env (request env j) s = (Inr (), say [request env j] s)" using assms(1,3) mem by (intro send_calm) (rule bspec)
  ultimately show ?thesis using j mem by (intro exI [of _ j] exI) (simp add: rerequest_def Let_def)
qed

text \<open>Nothing in flight and nothing to request: the download completes.\<close>

lemma stored_calm: "f (rv_db s) = (Inr a, db) \<Longrightarrow> stored f s = (Inr a, s\<lparr>rv_db := db\<rparr>)"
  by (simp add: stored_def map_err_def)

lemma report_simps [simp]: "rv_db (report st m s) = rv_db s" "rv_link (report st m s) = rv_link s"
  "rv_db (report_end st m s) = rv_db s" "rv_db (close s) = rv_db s"
  "rv_have (close s) = rv_have s" "rv_verified (close s) = rv_verified s" "lk_sent (rv_link (close s)) = lk_sent (rv_link s)"
  "rv_link (report_end st m s) = rv_link s"
  by (simp_all add: report_def report_end_def close_def)

lemma finish_calm:
  assumes plan: "plan_of_file env file" and ready: "library_ready env dst" and ok: "recv_ok env file dst s"
    and all: "indices env \<subseteq> set (rv_have s) \<union> set (rv_verified s)"
  shows "\<exists>s'. finish_download env s = (Inr (Some DsComplete), s') \<and> hm_get (dk_files (rv_disk s')) dst = Some file
    \<and> lk_sent (rv_link s') = lk_sent (rv_link s)"
proof -
  have "db_ready env DsTransferring (rv_db s)" using ok by (simp add: recv_ok_def)
  from transition_ready [OF this, of DsVerifying] obtain db1 where
    t1: "transition (plan_id env) DsVerifying (rv_db s) = (Inr (), db1)" "db_ready env DsVerifying db1" by auto
  from transition_ready [OF t1(2), of DsComplete] obtain db2 where
    t2: "transition (plan_id env) DsComplete db1 = (Inr (), db2)" by auto
  have "hm_get (dk_files (rv_disk s)) (chunk_file (se_root env) (plan_id env) (pch_index c)) = Some (slice file c)"
    if "c \<in> set (dp_chunks (se_plan env))" for c
    using ok all that unfolding recv_ok_def indices_def by (meson imageI subsetD)
  with assemble_plan_calm [OF plan ready, of "rv_disk s"] ok obtain x dk where
    dk: "assemble_plan env (rv_disk s) = (Inr x, dk)" "hm_get (dk_files dk) dst = Some file" by (auto simp: recv_ok_def)
  let ?s1 = "report DsVerifying None (s\<lparr>rv_db := db1\<rparr>)" and ?clean = "\<lambda>s. snd (on_disk (cleanup_incomplete (se_root env) (plan_id env)) s)"
  have "target env dst" using ready by (simp add: library_ready_def)
  from cleanup_keeps [OF this, of "plan_id env" "?s1\<lparr>rv_disk := dk\<rparr>"] dk(2)
  have kept: "hm_get (dk_files (rv_disk (?clean (?s1\<lparr>rv_disk := dk\<rparr>)))) dst = Some file" by simp
  have db: "rv_db (?clean (?s1\<lparr>rv_disk := dk\<rparr>)) = db1" "rv_link (?clean (?s1\<lparr>rv_disk := dk\<rparr>)) = rv_link s"
    by (simp_all add: on_disk_def case_prod_beta)
  have "finish_download env s = (Inr (Some DsComplete),
      close (report_end DsComplete None ((?clean (?s1\<lparr>rv_disk := dk\<rparr>))\<lparr>rv_db := db2\<rparr>)))"
    using stored_calm [where f = "transition (plan_id env) DsVerifying" and s = s]
      stored_calm [where f = "transition (plan_id env) DsComplete" and s = "?clean (?s1\<lparr>rv_disk := dk\<rparr>)"] dk(1) t1(1) t2 db
    by (simp add: finish_download_def on_ok_def on_disk_def [of "assemble_plan env"] after_assembly_def Let_def)
  with kept db(2) show ?thesis by simp
qed

lemma loop_top_calm:
  assumes plan: "plan_of_file env file" and ready: "library_ready env dst" and carried: "frames_carried env file"
    and ok: "recv_ok env file dst s" and dist: "distinct (map fst (rv_in_flight s) @ rv_to_request s)"
    and sub: "fst ` set (rv_in_flight s) \<union> set (rv_to_request s) \<subseteq> indices env"
  defines "n \<equiv> WINDOW_SIZE - length (rv_in_flight s)"
  shows "if rv_in_flight s = [] \<and> rv_to_request s = []
    then indices env \<subseteq> set (rv_have s) \<union> set (rv_verified s) \<longrightarrow>
      (\<exists>s'. loop_top env s = (Inr (Some DsComplete), s') \<and> hm_get (dk_files (rv_disk s')) dst = Some file
         \<and> lk_sent (rv_link s') = lk_sent (rv_link s) @ [farewell env])
    else \<exists>m j. map fst m = map fst (rv_in_flight s) @ take n (rv_to_request s) \<and> j \<in> fst ` set m
      \<and> loop_top env s = (Inr None, say (map (request env) (take n (rv_to_request s)) @ [request env j]) s
          \<lparr>rv_to_request := drop n (rv_to_request s), rv_in_flight := m\<rparr>)"
proof -
  have sends: "lk_sends (rv_link s) = []" using ok by (simp add: recv_ok_def)
  have req: "carries env (request env i)" if "i \<in> indices env" for i using carried that by (auto simp: frames_carried_def indices_def)
  have "\<forall>i \<in> set (rv_to_request s). carries env (request env i)" using req sub by auto
  moreover have "distinct (rv_to_request s)" "set (rv_to_request s) \<inter> fst ` set (rv_in_flight s) = {}" using dist by auto
  ultimately obtain m where m: "fill_window env (rv_to_request s) s = (Inr (), say (map (request env) (take n (rv_to_request s))) s
      \<lparr>rv_to_request := drop n (rv_to_request s), rv_in_flight := m\<rparr>)"
    "map fst m = map fst (rv_in_flight s) @ take n (rv_to_request s)" using fill_window_calm [OF sends] n_def by blast
  let ?s1 = "say (map (request env) (take n (rv_to_request s))) s\<lparr>rv_to_request := drop n (rv_to_request s), rv_in_flight := m\<rparr>"
  show ?thesis
  proof (cases "rv_in_flight s = [] \<and> rv_to_request s = []")
    case True
    have bye: "carries env (farewell env)" using carried by (simp add: frames_carried_def)
    let ?s2 = "s\<lparr>rv_to_request := []\<rparr>"
    have top: "loop_top env s = finish_download env (close (say [farewell env] ?s2))"
      using True bye sends by (simp add: loop_top_def on_ok_def Let_def rerequest_none send_calm)
    have "\<exists>s'. finish_download env (close (say [farewell env] ?s2)) = (Inr (Some DsComplete), s') \<and> hm_get (dk_files (rv_disk s')) dst = Some file
        \<and> lk_sent (rv_link s') = lk_sent (rv_link (close (say [farewell env] ?s2)))"
      if "indices env \<subseteq> set (rv_have s) \<union> set (rv_verified s)"
      by (rule finish_calm [OF plan ready]) (use ok that in simp_all)
    with True show ?thesis by (simp add: top)
  next
    case False
    have "m \<noteq> []"
    proof (cases "rv_in_flight s")
      case Nil
      with False obtain i where "i \<in> set (take n (rv_to_request s))" by (cases "rv_to_request s") (auto simp: n_def WINDOW_SIZE_def)
      with m(2) show ?thesis by fastforce
    qed (use m(2) in auto)
    moreover have keys: "fst ` set m \<subseteq> indices env"
      using sub set_take_subset [of n "rv_to_request s"] unfolding list.set_map [symmetric] m(2) set_append by blast
    ultimately obtain j m' where j: "j \<in> fst ` set m" "map fst m' = map fst m"
      "rerequest env ?s1 = (say [request env j] ?s1)\<lparr>rv_in_flight := m'\<rparr>"
      using rerequest_calm [of ?s1 env] sends req by (auto simp: subset_iff)
    have "m' \<noteq> []" using j(2) \<open>m \<noteq> []\<close> by auto
    moreover have "fst ` set m' = fst ` set m" using j(2) by (metis list.set_map)
    moreover have "(say [request env j] ?s1)\<lparr>rv_in_flight := m'\<rparr> = say (map (request env) (take n (rv_to_request s)) @ [request env j]) s
          \<lparr>rv_to_request := drop n (rv_to_request s), rv_in_flight := m'\<rparr>" by (simp add: say_def)
    ultimately have "loop_top env s = (Inr None, say (map (request env) (take n (rv_to_request s)) @ [request env j]) s
          \<lparr>rv_to_request := drop n (rv_to_request s), rv_in_flight := m'\<rparr>)" and "j \<in> fst ` set m'"
      using m(1) j(1,3) by (simp_all add: loop_top_def on_ok_def Let_def)
    with False m(2) j(2) show ?thesis by (auto simp del: list.set_map)
  qed
qed

section \<open>A chunk that is as planned\<close>

lemma find_chunk_plan: "plan_of_file env file \<Longrightarrow> c \<in> set (dp_chunks (se_plan env)) \<Longrightarrow> find_chunk env (pch_index c) = Inr c"
proof -
  assume plan: "plan_of_file env file" and c: "c \<in> set (dp_chunks (se_plan env))"
  then have "inj_on pch_index (set (dp_chunks (se_plan env)))" by (simp add: plan_of_file_def distinct_map)
  moreover obtain c' where "find (\<lambda>c'. pch_index c' = pch_index c) (dp_chunks (se_plan env)) = Some c'"
    using c find_None_iff_all [of "\<lambda>c'. pch_index c' = pch_index c"] by fastforce
  ultimately show ?thesis using c find_SomeD [of "\<lambda>c'. pch_index c' = pch_index c"] by (fastforce simp: find_chunk_def dest: inj_onD)
qed

lemma chunk_file_path: "check_download_id did = Inr () \<Longrightarrow> incomplete_chunk_path root did i = Inr (chunk_file root did i)"
  by (simp add: incomplete_chunk_path_def chunk_file_def)

lemma chunk_file_inject:
  assumes "check_download_id did = Inr ()" and "chunk_file root did i = chunk_file root did j"
  shows "i = j"
  using incomplete_path_inject [OF chunk_file_path [OF assms(1)] chunk_file_path [OF assms(1), of root j, folded assms(2)]]
  by (rule conjunct2)

lemma write_chunk_calm:
  assumes "calm dk" and "check_download_id did = Inr ()"
  shows "\<exists>dk'. write_chunk_to_incomplete root did i bs dk = (Inr (chunk_file root did i), dk')
    \<and> calm dk' \<and> (\<forall>q. hm_get (dk_files dk') q = (if q = chunk_file root did i then Some bs else hm_get (dk_files dk) q))"
  using assms
  by (simp add: write_chunk_to_incomplete_def incomplete_chunk_path_def chunk_file_def [symmetric] on_ok_def io_call_calm
      create_file_calm append_file_calm content_def)

lemma handle_chunk_fresh:
  assumes plan: "plan_of_file env file" and ready: "library_ready env dst" and carried: "frames_carried env file"
    and ok: "recv_ok env file dst s" and c: "c \<in> set (dp_chunks (se_plan env))"
    and flight: "pch_index c \<in> fst ` set (rv_in_flight s)"
  shows "\<exists>db dk. handle_chunk env \<lparr>cf_download_id = plan_id env, cf_chunk_index = pch_index c,
        cf_bytes_b64 = se_b64_encode env (slice file c), cf_sha256 = pch_sha256 c\<rparr> s
      = (Inr (Some (pch_index c, pch_length c)), say [ack env (pch_index c)]
          (s\<lparr>rv_in_flight := hm_remove (pch_index c) (rv_in_flight s), rv_disk := dk, rv_db := db,
             rv_verified := List.insert (pch_index c) (rv_verified s)\<rparr>))
    \<and> recv_ok env file dst (s\<lparr>rv_in_flight := hm_remove (pch_index c) (rv_in_flight s), rv_disk := dk, rv_db := db,
             rv_verified := List.insert (pch_index c) (rv_verified s)\<rparr>)"
proof -
  let ?i = "pch_index c" and ?p = "chunk_file (se_root env) (plan_id env) (pch_index c)"
  obtain r where r: "hm_get (rv_in_flight s) ?i = Some r" using hm_get_key [OF flight] by (elim exE)
  have sl: "length (slice file c) = pch_length c" "dg_sha256_hex (se_digests env) (slice file c) = pch_sha256 c"
    using plan c by (auto simp: plan_of_file_def)
  have did: "check_download_id (plan_id env) = Inr ()" using ready by (simp add: library_ready_def)
  have calm: "calm (rv_disk s)" and db: "db_ready env DsTransferring (rv_db s)" and sends: "lk_sends (rv_link s) = []"
    using ok by (simp_all add: recv_ok_def)
  from write_chunk_calm [OF calm did] obtain dk where dk: "write_chunk_to_incomplete (se_root env) (plan_id env) ?i (slice file c) (rv_disk s) = (Inr ?p, dk)"
    "calm dk" "\<And>q. hm_get (dk_files dk) q = (if q = ?p then Some (slice file c) else hm_get (dk_files (rv_disk s)) q)" by blast
  from mark_ready [OF db c] obtain db' where db': "mark_chunk_verified (plan_id env) ?i (pch_sha256 c) (rv_db s) = (Inr (), db')"
    "db_ready env DsTransferring db'" by blast
  have a: "carries env (ack env ?i)" and b64: "se_b64_decode env (se_b64_encode env bs) = Some bs" for bs
    using carried c by (auto simp: frames_carried_def)
  let ?s' = "s\<lparr>rv_in_flight := hm_remove ?i (rv_in_flight s), rv_disk := dk, rv_db := db', rv_verified := List.insert ?i (rv_verified s)\<rparr>"
  have "dst \<noteq> ?p" using ready target_not_tmp paths_apart(3) unfolding library_ready_def by metis
  moreover have "pch_index c' \<in> insert ?i (set (rv_have s) \<union> set (rv_verified s)) \<Longrightarrow> c' \<in> set (dp_chunks (se_plan env)) \<Longrightarrow>
      hm_get (dk_files dk) (chunk_file (se_root env) (plan_id env) (pch_index c')) = Some (slice file c')" for c'
    using ok c find_chunk_plan [OF plan] chunk_file_inject [OF did] unfolding dk(3) recv_ok_def
    by (metis Un_iff insert_iff sum.inject(2))
  ultimately have "recv_ok env file dst ?s'" using ok dk(2) db'(2) sends unfolding recv_ok_def by (auto simp: dk(3))
  moreover have "handle_chunk env \<lparr>cf_download_id = plan_id env, cf_chunk_index = ?i,
        cf_bytes_b64 = se_b64_encode env (slice file c), cf_sha256 = pch_sha256 c\<rparr> s = (Inr (Some (?i, pch_length c)), say [ack env ?i] ?s')"
    using r find_chunk_plan [OF plan c] b64 sl dk(1) db'(1) sends
    by (simp add: handle_chunk_def Let_def verify_chunk_sha256_def accept_chunk_def on_disk_def map_err_def on_ok_def stored_def
        send_calm [OF a])
  ultimately show ?thesis by blast
qed

lemma handle_chunk_again:
  assumes "frames_carried env file" and "c \<in> set (dp_chunks (se_plan env))" and "lk_sends (rv_link s) = []"
    and "pch_index c \<notin> fst ` set (rv_in_flight s)" and "pch_index c \<in> set (rv_verified s)"
  shows "handle_chunk env \<lparr>cf_download_id = plan_id env, cf_chunk_index = pch_index c,
        cf_bytes_b64 = x, cf_sha256 = y\<rparr> s = (Inr None, say [ack env (pch_index c)] s)"
proof -
  have "hm_get (rv_in_flight s) (pch_index c) = None" using assms(4) by (simp add: map_of_eq_None_iff)
  moreover have "carries env (ack env (pch_index c))" using assms(1,2) by (simp add: frames_carried_def)
  ultimately show ?thesis using assms(3,5) by (simp add: handle_chunk_def Let_def on_ok_def send_calm)
qed

end
