(* ===== verification/Delivery.thy ===== *)
theory Delivery
  imports SessionLive
begin

text \<open>
  A whole transfer: a receiving session and the sending session of an honest host, \<open>run_inner\<close> and
  \<open>run_after_hello\<close> of \<open>transfer/session.rs\<close>, joined by a transport that delivers every frame in
  order. The two take turns in any order. The transfer ends, and it ends with the file in the library.
\<close>

section \<open>What is under way\<close>

fun requested :: "frame list \<Rightarrow> nat list" where
  "requested [] = []"
| "requested (Request r # fs) = rf_chunk_index r # requested fs"
| "requested (_ # fs) = requested fs"

fun delivered :: "frame list \<Rightarrow> nat list" where
  "delivered [] = []"
| "delivered (ChunkFrame c # fs) = cf_chunk_index c # delivered fs"
| "delivered (_ # fs) = delivered fs"

fun acked :: "frame list \<Rightarrow> nat list" where
  "acked [] = []"
| "acked (Ack a # fs) = af_chunk_index a # acked fs"
| "acked (_ # fs) = acked fs"

text \<open>No chunk is asked for after it was acknowledged; \<open>have\<close> is what the sender knows to be there.\<close>

fun orderly :: "nat set \<Rightarrow> frame list \<Rightarrow> bool" where
  "orderly have [] \<longleftrightarrow> True"
| "orderly have (Request r # fs) \<longleftrightarrow> rf_chunk_index r \<notin> have \<and> orderly have fs"
| "orderly have (Ack a # fs) \<longleftrightarrow> orderly (insert (af_chunk_index a) have) fs"
| "orderly have (_ # fs) \<longleftrightarrow> orderly have fs"

lemma requested_append [simp]: "requested (fs @ gs) = requested fs @ requested gs"
  by (induction fs rule: requested.induct) simp_all

lemma delivered_append [simp]: "delivered (fs @ gs) = delivered fs @ delivered gs"
  by (induction fs rule: delivered.induct) simp_all

lemma delivered_mem: "ChunkFrame c \<in> set fs \<Longrightarrow> cf_chunk_index c \<in> set (delivered fs)"
  by (induction fs rule: delivered.induct) auto

lemma acked_append [simp]: "acked (fs @ gs) = acked fs @ acked gs"
  by (induction fs rule: acked.induct) simp_all

lemma orderly_append [simp]: "orderly have (fs @ gs) \<longleftrightarrow> orderly have fs \<and> orderly (have \<union> set (acked fs)) gs"
  by (induction "have" fs rule: orderly.induct) simp_all

lemma requests_only [simp]: "requested (map (request env) is) = is" "acked (map (request env) is) = []"
  "orderly have (map (request env) is) \<longleftrightarrow> set is \<inter> have = {}"
  by (induction "is") auto

section \<open>The honest sender\<close>

definition sender_ok :: "session_env \<Rightarrow> bytes \<Rightarrow> path \<Rightarrow> sender \<Rightarrow> frame list \<Rightarrow> bool" where
  "sender_ok env file src sn rs \<longleftrightarrow> calm (sn_disk sn) \<and> hm_get (dk_files (sn_disk sn)) src = Some file
     \<and> lk_sends (sn_link sn) = [] \<and> sn_phase sn = Serving
     \<and> distinct (sn_have sn) \<and> set (sn_have sn) \<subseteq> {..<plan_total env}
     \<and> (\<forall>f \<in> set rs. \<exists>i \<in> indices env. f = request env i \<or> f = ack env i) \<and> orderly (set (sn_have sn)) rs"

lemma read_chunk_calm:
  assumes "plan_of_file env file" and "c \<in> set (dp_chunks (se_plan env))" and "calm dk" and "hm_get (dk_files dk) src = Some file"
  shows "read_chunk_at env src c dk = (Inr (slice file c, pch_sha256 c), dk)"
proof -
  have sl: "length (slice file c) = pch_length c" "dg_sha256_hex (se_digests env) (slice file c) = pch_sha256 c"
    using assms(1,2) by (auto simp: plan_of_file_def)
  have "read_rest file (pch_offset c) (pch_length c) [] dk = (Inr (slice file c), dk)"
  proof (cases "pch_length c = 0")
    case False
    then have "take (pch_length c) (drop (pch_offset c) file) \<noteq> []" using sl(1) unfolding slice_def by force
    with False sl(1) assms(3) show ?thesis
      by (simp add: read_rest.simps [of _ _ _ "[]"] read_rest.simps [of _ _ _ "slice file c"] io_call_calm Let_def slice_def [symmetric])
  qed (simp add: read_rest.simps slice_def)
  with sl assms(3,4) show ?thesis
    by (simp add: read_chunk_at_def open_file_calm io_call_calm on_ok_def map_err_def verify_chunk_sha256_def)
qed

lemma sender_serves:
  assumes plan: "plan_of_file env file" and carried: "frames_carried env file" and ok: "sender_ok env file src sn (f # rs)"
  defines "sn' \<equiv> sender_step env src sn (Received (encoded env f))"
  shows "(sender_ok env file src sn' rs \<or> sn_phase sn' = SenderDone (Inr ()) \<and> set (sn_have sn') = {..<plan_total env})
    \<and> set (sn_have sn') = set (sn_have sn) \<union> set (acked [f])
    \<and> (\<exists>new. lk_sent (sn_link sn') = lk_sent (sn_link sn) @ new \<and> delivered new = requested [f]
        \<and> (\<forall>g \<in> set new. \<exists>c \<in> set (dp_chunks (se_plan env)). g = chunk_of env file c))"
proof -
  from ok obtain c where c: "c \<in> set (dp_chunks (se_plan env))" and f: "f = request env (pch_index c) \<or> f = ack env (pch_index c)"
    by (auto simp: sender_ok_def indices_def)
  have i: "pch_index c < plan_total env" "plan_total env < 2 ^ 32" using plan c by (simp_all add: plan_of_file_def)
  have carries: "carries env (request env (pch_index c))" "carries env (ack env (pch_index c))" "carries env (chunk_of env file c)"
    using carried c by (simp_all add: frames_carried_def)
  note sn = ok [unfolded sender_ok_def]
  from f show ?thesis
  proof
    assume f: "f = request env (pch_index c)"
    with sn have "pch_index c \<notin> set (sn_have sn)" by simp
    then have "sn' = sn\<lparr>sn_link := (sn_link sn)\<lparr>lk_sent := lk_sent (sn_link sn) @ [chunk_of env file c]\<rparr>, sn_phase := Serving\<rparr>"
      using sn carries read_chunk_calm [OF plan c, of "sn_disk sn" src]
      by (simp add: sn'_def f sender_step_def serve_def await_encoded send_chunk_def find_chunk_plan [OF plan c] sender_send_def
          chunk_of_def [symmetric] send_frame_calm on_ok_def sender_settle_def)
    with sn f c show ?thesis by (auto simp: sender_ok_def chunk_of_def)
  next
    assume f: "f = ack env (pch_index c)"
    let ?have = "List.insert (pch_index c) (sn_have sn)"
    have sub: "set ?have \<subseteq> {..<plan_total env}" "distinct ?have" using sn i by auto
    then have len: "length ?have \<le> plan_total env" by (metis card_lessThan card_mono distinct_card finite_lessThan)
    have full: "set ?have = {..<plan_total env}" if "length ?have \<ge> plan_total env"
      using that sub by (metis card_lessThan card_seteq distinct_card finite_lessThan)
    have "sn' = sn\<lparr>sn_have := ?have, sn_phase := (if length ?have \<ge> plan_total env then SenderDone (Inr ()) else Serving)\<rparr>"
      using sn carries(2) i len
      by (simp add: sn'_def f sender_step_def serve_def await_encoded sender_settle_def Let_def del: List.set_insert)
    with sn f sub full show ?thesis by (auto simp: sender_ok_def)
  qed
qed

section \<open>The receiver and what is on its way\<close>

definition waiting :: "session_env \<Rightarrow> receiver \<Rightarrow> nat set" where
  "waiting env s = indices env - (set (rv_have s) \<union> set (rv_verified s))"

text \<open>
  \<open>sr\<close> is on its way to the receiver, \<open>rs\<close> to the sender. Each chunk is held, in flight or to be
  requested, exactly one of them; what is in flight has a request or a chunk on its way; every
  frame on its way is one the other side accepts.
\<close>

definition flowing :: "session_env \<Rightarrow> bytes \<Rightarrow> path \<Rightarrow> receiver \<Rightarrow> frame list \<Rightarrow> frame list \<Rightarrow> nat set \<Rightarrow> bool" where
  "flowing env file dst s sr rs have \<longleftrightarrow> recv_ok env file dst s
     \<and> distinct (map fst (rv_in_flight s) @ rv_to_request s)
     \<and> fst ` set (rv_in_flight s) \<union> set (rv_to_request s) = waiting env s
     \<and> (\<forall>f \<in> set sr. \<exists>c \<in> set (dp_chunks (se_plan env)). f = chunk_of env file c
          \<and> pch_index c \<in> fst ` set (rv_in_flight s) \<union> set (rv_verified s))
     \<and> (\<forall>f \<in> set rs. \<exists>i \<in> indices env \<inter> (fst ` set (rv_in_flight s) \<union> set (rv_verified s)).
          f = request env i \<or> f = ack env i)
     \<and> fst ` set (rv_in_flight s) \<subseteq> set (delivered sr @ requested rs)
     \<and> orderly have rs \<and> have \<union> set (acked rs) \<subseteq> set (rv_have s) \<union> set (rv_verified s)"

lemma flowing_facts:
  assumes "flowing env file dst s sr rs have"
  shows "recv_ok env file dst s" "distinct (map fst (rv_in_flight s) @ rv_to_request s)"
    "fst ` set (rv_in_flight s) \<union> set (rv_to_request s) = waiting env s"
    "f \<in> set sr \<Longrightarrow> \<exists>c \<in> set (dp_chunks (se_plan env)). f = chunk_of env file c
       \<and> pch_index c \<in> fst ` set (rv_in_flight s) \<union> set (rv_verified s)"
    "f \<in> set rs \<Longrightarrow> \<exists>i \<in> indices env \<inter> (fst ` set (rv_in_flight s) \<union> set (rv_verified s)). f = request env i \<or> f = ack env i"
    "fst ` set (rv_in_flight s) \<subseteq> set (delivered sr @ requested rs)"
    "orderly have rs" "have \<union> set (acked rs) \<subseteq> set (rv_have s) \<union> set (rv_verified s)"
  using assms unfolding flowing_def by blast+

definition newly :: "link \<Rightarrow> link \<Rightarrow> frame list" where
  "newly lk lk' = drop (length (lk_sent lk)) (lk_sent lk')"

text \<open>The top of the loop, with something missing: it waits again, with something in flight.\<close>

lemma loop_top_flows:
  assumes plan: "plan_of_file env file" and ready: "library_ready env dst" and carried: "frames_carried env file"
    and flow: "flowing env file dst s sr rs have" and more: "waiting env s \<noteq> {}"
  shows "\<exists>s'. loop_top env s = (Inr None, s') \<and> flowing env file dst s' sr (rs @ newly (rv_link s) (rv_link s')) have
    \<and> rv_in_flight s' \<noteq> [] \<and> fst ` set (rv_in_flight s) \<subseteq> fst ` set (rv_in_flight s') \<and> waiting env s' = waiting env s
    \<and> (\<exists>new. lk_sent (rv_link s') = lk_sent (rv_link s) @ new)"
proof -
  let ?F = "fst ` set (rv_in_flight s)" and ?n = "WINDOW_SIZE - length (rv_in_flight s)"
  let ?new = "\<lambda>j. map (request env) (take ?n (rv_to_request s)) @ [request env j]"
  note fl = flowing_facts [OF flow]
  have sub: "?F \<union> set (rv_to_request s) \<subseteq> indices env" unfolding fl(3) by (simp add: waiting_def Diff_subset)
  have idle: "(rv_in_flight s = [] \<and> rv_to_request s = []) = False" using fl(3) more by auto
  from loop_top_calm [OF plan ready carried fl(1,2) sub, unfolded idle if_False] obtain m j where
    m: "map fst m = map fst (rv_in_flight s) @ take ?n (rv_to_request s)" "j \<in> fst ` set m"
    "loop_top env s = (Inr None, say (?new j) s\<lparr>rv_to_request := drop ?n (rv_to_request s), rv_in_flight := m\<rparr>)"
    by blast
  let ?s' = "say (?new j) s\<lparr>rv_to_request := drop ?n (rv_to_request s), rv_in_flight := m\<rparr>"
  have keys: "fst ` set m = ?F \<union> set (take ?n (rv_to_request s))" unfolding list.set_map [symmetric] m(1) set_append ..
  have new: "newly (rv_link s) (rv_link ?s') = ?new j" by (simp add: newly_def)
  have waits: "waiting env ?s' = waiting env s" by (simp add: waiting_def)
  have split: "set (take ?n (rv_to_request s)) \<union> set (drop ?n (rv_to_request s)) = set (rv_to_request s)"
    by (metis append_take_drop_id set_append)
  have inside: "fst ` set m \<subseteq> waiting env s" unfolding keys fl(3) [symmetric] using split by blast
  then have asked: "set (take ?n (rv_to_request s)) \<subseteq> waiting env s" "j \<in> waiting env s" using keys m(2) by auto
  have free: "waiting env s \<inter> (have \<union> set (acked rs)) = {}" using fl(8) by (auto simp: waiting_def)
  have "flowing env file dst ?s' sr (rs @ ?new j) have"
    unfolding flowing_def
  proof (intro conjI ballI)
    show "recv_ok env file dst ?s'" using fl(1) by simp
    show "distinct (map fst (rv_in_flight ?s') @ rv_to_request ?s')" using fl(2) m(1) by simp
    show "fst ` set (rv_in_flight ?s') \<union> set (rv_to_request ?s') = waiting env ?s'"
      unfolding waits fl(3) [symmetric] using keys split by auto
    show "\<exists>c \<in> set (dp_chunks (se_plan env)). f = chunk_of env file c
        \<and> pch_index c \<in> fst ` set (rv_in_flight ?s') \<union> set (rv_verified ?s')" if "f \<in> set sr" for f
      using fl(4) [OF that] keys by auto
    show "\<exists>i \<in> indices env \<inter> (fst ` set (rv_in_flight ?s') \<union> set (rv_verified ?s')). f = request env i \<or> f = ack env i"
      if "f \<in> set (rs @ ?new j)" for f
    proof (cases "f \<in> set rs")
      case True
      from fl(5) [OF this] keys show ?thesis by auto
    next
      case False
      with that m(2) keys obtain i where "f = request env i" "i \<in> fst ` set m" by auto
      with inside show ?thesis by (auto simp: waiting_def)
    qed
    show "fst ` set (rv_in_flight ?s') \<subseteq> set (delivered sr @ requested (rs @ ?new j))" using fl(6) keys by auto
    show "orderly have (rs @ ?new j)" using fl(7) free asked by auto
    show "have \<union> set (acked (rs @ ?new j)) \<subseteq> set (rv_have ?s') \<union> set (rv_verified ?s')" using fl(8) by simp
  qed
  moreover have "rv_in_flight ?s' \<noteq> []" using m(2) by auto
  ultimately show ?thesis using m(3) keys waits new by (intro exI [of _ ?s']) auto
qed

text \<open>Nothing missing: the download completes, and the receiver says so.\<close>

lemma loop_top_finishes:
  assumes plan: "plan_of_file env file" and ready: "library_ready env dst" and carried: "frames_carried env file"
    and flow: "flowing env file dst s sr rs have" and all: "waiting env s = {}"
  shows "\<exists>s'. loop_top env s = (Inr (Some DsComplete), s') \<and> hm_get (dk_files (rv_disk s')) dst = Some file
    \<and> lk_sent (rv_link s') = lk_sent (rv_link s) @ [farewell env]"
proof -
  note fl = flowing_facts [OF flow]
  have idle: "(rv_in_flight s = [] \<and> rv_to_request s = []) = True" using fl(3) all by auto
  have sub: "fst ` set (rv_in_flight s) \<union> set (rv_to_request s) \<subseteq> indices env" unfolding fl(3) by (simp add: waiting_def Diff_subset)
  have "indices env \<subseteq> set (rv_have s) \<union> set (rv_verified s)" using all by (auto simp: waiting_def)
  from loop_top_calm [OF plan ready carried fl(1,2) sub, unfolded idle if_True] this show ?thesis by (rule mp)
qed

section \<open>A chunk arrives\<close>

lemma handle_chunk_flows:
  assumes plan: "plan_of_file env file" and ready: "library_ready env dst" and carried: "frames_carried env file"
    and flow: "flowing env file dst s (f # sr) rs have" and f: "f = ChunkFrame chunk"
  shows "\<exists>r s1. handle_chunk env chunk s = (Inr r, s1) \<and> flowing env file dst s1 sr (rs @ [ack env (cf_chunk_index chunk)]) have
    \<and> lk_sent (rv_link s1) = lk_sent (rv_link s) @ [ack env (cf_chunk_index chunk)]
    \<and> waiting env s1 = waiting env s - {cf_chunk_index chunk}
    \<and> fst ` set (rv_in_flight s1) = fst ` set (rv_in_flight s) - {cf_chunk_index chunk}"
proof -
  note fl = flowing_facts [OF flow]
  obtain c where c: "c \<in> set (dp_chunks (se_plan env))" "f = chunk_of env file c"
    "pch_index c \<in> fst ` set (rv_in_flight s) \<union> set (rv_verified s)" using fl(4) [of f] by auto
  let ?i = "pch_index c" and ?F = "fst ` set (rv_in_flight s)"
  have chunk: "chunk = \<lparr>cf_download_id = plan_id env, cf_chunk_index = ?i,
      cf_bytes_b64 = se_b64_encode env (slice file c), cf_sha256 = pch_sha256 c\<rparr>" using c(2) f by (simp add: chunk_of_def)
  then have i: "cf_chunk_index chunk = ?i" by simp
  have i_in: "?i \<in> indices env" using c(1) by (simp add: indices_def)
  have wait: "?F \<subseteq> waiting env s" using fl(3) by auto
  show ?thesis
  proof (cases "?i \<in> ?F")
    case False
    with c(3) have v: "?i \<in> set (rv_verified s)" by simp
    have sends: "lk_sends (rv_link s) = []" using fl(1) by (simp add: recv_ok_def)
    have "handle_chunk env chunk s = (Inr None, say [ack env ?i] s)"
      unfolding chunk by (rule handle_chunk_again [OF carried c(1) sends False v])
    moreover have "flowing env file dst (say [ack env ?i] s) sr (rs @ [ack env ?i]) have"
      unfolding flowing_def
    proof (intro conjI ballI)
      show "\<exists>k \<in> indices env \<inter> (fst ` set (rv_in_flight (say [ack env ?i] s)) \<union> set (rv_verified (say [ack env ?i] s))).
          g = request env k \<or> g = ack env k" if "g \<in> set (rs @ [ack env ?i])" for g
        using that fl(5) [of g] v i_in by auto
      show "fst ` set (rv_in_flight (say [ack env ?i] s)) \<subseteq> set (delivered sr @ requested (rs @ [ack env ?i]))"
        using fl(6) by (simp add: f i subset_insert [OF False])
    qed (use fl v in \<open>simp_all add: waiting_def\<close>)
    moreover have "waiting env s = waiting env s - {?i}" using v by (auto simp: waiting_def)
    moreover have "?F = ?F - {?i}" using False by simp
    ultimately show ?thesis unfolding i by (intro exI [of _ None] exI [of _ "say [ack env ?i] s"]) (simp add: waiting_def)
  next
    case True
    from handle_chunk_fresh [OF plan ready carried fl(1) c(1) True] obtain db dk where h:
      "handle_chunk env chunk s = (Inr (Some (?i, pch_length c)), say [ack env ?i]
          (s\<lparr>rv_in_flight := hm_remove ?i (rv_in_flight s), rv_disk := dk, rv_db := db, rv_verified := List.insert ?i (rv_verified s)\<rparr>))"
      "recv_ok env file dst (s\<lparr>rv_in_flight := hm_remove ?i (rv_in_flight s), rv_disk := dk, rv_db := db,
          rv_verified := List.insert ?i (rv_verified s)\<rparr>)" unfolding chunk by blast
    let ?s1 = "say [ack env ?i] (s\<lparr>rv_in_flight := hm_remove ?i (rv_in_flight s), rv_disk := dk, rv_db := db,
        rv_verified := List.insert ?i (rv_verified s)\<rparr>)"
    have F1: "fst ` set (rv_in_flight ?s1) = ?F - {?i}" by (simp add: fst_hm_remove)
    have V1: "set (rv_verified ?s1) = insert ?i (set (rv_verified s))" "rv_have ?s1 = rv_have s" "rv_to_request ?s1 = rv_to_request s"
      by simp_all
    have W1: "waiting env ?s1 = waiting env s - {?i}" unfolding waiting_def V1 by auto
    have "flowing env file dst ?s1 sr (rs @ [ack env ?i]) have"
      unfolding flowing_def
    proof (intro conjI ballI)
      show "recv_ok env file dst ?s1" using h(2) by simp
      show "distinct (map fst (rv_in_flight ?s1) @ rv_to_request ?s1)"
        using fl(2) unfolding V1(3) distinct_append list.set_map F1 by (auto simp: distinct_delete)
      have "?i \<notin> set (rv_to_request s)" using fl(2) True by auto
      then show "fst ` set (rv_in_flight ?s1) \<union> set (rv_to_request ?s1) = waiting env ?s1"
        unfolding F1 W1 V1 fl(3) [symmetric] by auto
      show "\<exists>c \<in> set (dp_chunks (se_plan env)). g = chunk_of env file c
          \<and> pch_index c \<in> fst ` set (rv_in_flight ?s1) \<union> set (rv_verified ?s1)" if "g \<in> set sr" for g
        using fl(4) [of g] that unfolding F1 V1 by auto
      show "\<exists>k \<in> indices env \<inter> (fst ` set (rv_in_flight ?s1) \<union> set (rv_verified ?s1)). g = request env k \<or> g = ack env k"
        if "g \<in> set (rs @ [ack env ?i])" for g
        using that fl(5) [of g] i_in unfolding F1 V1 by auto
      show "fst ` set (rv_in_flight ?s1) \<subseteq> set (delivered sr @ requested (rs @ [ack env ?i]))"
        using fl(6) unfolding F1 by (auto simp: f i)
      show "orderly have (rs @ [ack env ?i])" using fl(7) by simp
      show "have \<union> set (acked (rs @ [ack env ?i])) \<subseteq> set (rv_have ?s1) \<union> set (rv_verified ?s1)" using fl(8) unfolding V1 by auto
    qed
    with h(1) F1 W1 show ?thesis unfolding i by (intro exI [of _ "Some (?i, pch_length c)"] exI [of _ ?s1]) simp
  qed
qed

section \<open>One turn of each side\<close>

lemma flowing_simps [simp]:
  "flowing env file dst (s\<lparr>rv_emitter := em\<rparr>) sr rs have = flowing env file dst s sr rs have"
  "flowing env file dst (s\<lparr>rv_transferred := n\<rparr>) sr rs have = flowing env file dst s sr rs have"
  "flowing env file dst (s\<lparr>rv_phase := ph\<rparr>) sr rs have = flowing env file dst s sr rs have"
  "waiting env (s\<lparr>rv_emitter := em\<rparr>) = waiting env s" "waiting env (s\<lparr>rv_transferred := n\<rparr>) = waiting env s"
  "waiting env (s\<lparr>rv_phase := ph\<rparr>) = waiting env s"
  by (simp_all add: flowing_def waiting_def)

lemma receive_chunk_loop: "handle_chunk env chunk s = (Inr r, s1) \<Longrightarrow>
    \<exists>t em. receive_chunk env chunk s = loop_top env (s1\<lparr>rv_transferred := t, rv_emitter := em\<rparr>)"
proof (cases r)
  case None
  moreover assume "handle_chunk env chunk s = (Inr r, s1)"
  ultimately have "receive_chunk env chunk s = loop_top env (s1\<lparr>rv_transferred := rv_transferred s1, rv_emitter := rv_emitter s1\<rparr>)"
    by (simp add: receive_chunk_def)
  then show ?thesis by blast
next
  case (Some p)
  moreover assume "handle_chunk env chunk s = (Inr r, s1)"
  ultimately have "receive_chunk env chunk s = (let bytes = saturating_add_u64 (rv_transferred s1) (snd p)
      in loop_top env (s1\<lparr>rv_transferred := bytes, rv_emitter := record_progress bytes (rv_emitter s1)\<rparr>))"
    by (simp add: receive_chunk_def case_prod_beta)
  then show ?thesis unfolding Let_def by blast
qed

lemma newly_trans: "lk_sent lk1 = lk_sent lk @ fs \<Longrightarrow> lk_sent lk2 = lk_sent lk1 @ gs \<Longrightarrow> newly lk lk2 = fs @ newly lk1 lk2"
  by (simp add: newly_def)

lemma receiver_turn_flows:
  fixes dt :: nat
  assumes plan: "plan_of_file env file" and ready: "library_ready env dst" and carried: "frames_carried env file"
    and flow: "flowing env file dst s (f # sr) rs have" and phase: "rv_phase s = AwaitChunk"
  defines "s' \<equiv> receiver_step env s (dt, Received (encoded env f))"
  shows "\<exists>i \<in> indices env. delivered [f] = [i] \<and>
    (if waiting env s - {i} = {}
     then rv_phase s' = Finished (Inr DsComplete) \<and> hm_get (dk_files (rv_disk s')) dst = Some file
       \<and> newly (rv_link s) (rv_link s') = [ack env i, farewell env]
     else rv_phase s' = AwaitChunk \<and> flowing env file dst s' sr (rs @ newly (rv_link s) (rv_link s')) have \<and> rv_in_flight s' \<noteq> []
       \<and> fst ` set (rv_in_flight s) - {i} \<subseteq> fst ` set (rv_in_flight s') \<and> waiting env s' = waiting env s - {i})"
proof -
  obtain c where c: "c \<in> set (dp_chunks (se_plan env))" "f = chunk_of env file c" using flowing_facts(4) [OF flow, of f] by auto
  then obtain chunk where f: "f = ChunkFrame chunk" "cf_chunk_index chunk = pch_index c" by (simp add: chunk_of_def)
  let ?s0 = "s\<lparr>rv_emitter := emit_step (rv_emitter s) (EoElapse dt)\<rparr>" and ?i = "pch_index c"
  have i: "?i \<in> indices env" using c(1) by (simp add: indices_def)
  have "carries env f" using c carried by (simp add: frames_carried_def)
  then have s': "s' = settle env AwaitChunk (receive_chunk env chunk ?s0)"
    by (simp add: s'_def receiver_step_def Let_def phase receive_def await_encoded f(1) del: emit_step.simps)
  have flow0: "flowing env file dst ?s0 (f # sr) rs have" using flow by simp
  from handle_chunk_flows [OF plan ready carried flow0 f(1)] f(2) obtain r s1 where s1: "handle_chunk env chunk ?s0 = (Inr r, s1)"
    "flowing env file dst s1 sr (rs @ [ack env ?i]) have" "lk_sent (rv_link s1) = lk_sent (rv_link s) @ [ack env ?i]"
    "waiting env s1 = waiting env s - {?i}" "fst ` set (rv_in_flight s1) = fst ` set (rv_in_flight s) - {?i}" by auto
  from receive_chunk_loop [OF s1(1)] obtain t em where
    top: "receive_chunk env chunk ?s0 = loop_top env (s1\<lparr>rv_transferred := t, rv_emitter := em\<rparr>)" by blast
  let ?s2 = "s1\<lparr>rv_transferred := t, rv_emitter := em\<rparr>"
  have flow2: "flowing env file dst ?s2 sr (rs @ [ack env ?i]) have" using s1(2) by simp
  have more: "delivered [f] = [?i]" by (simp add: f)
  show ?thesis
  proof (cases "waiting env s - {?i} = {}")
    case True
    then have "waiting env ?s2 = {}" using s1(4) by simp
    from loop_top_finishes [OF plan ready carried flow2 this] obtain s3 where
      "loop_top env ?s2 = (Inr (Some DsComplete), s3)" "hm_get (dk_files (rv_disk s3)) dst = Some file"
      "lk_sent (rv_link s3) = lk_sent (rv_link s1) @ [farewell env]" by auto
    then show ?thesis using True i more s1(3)
      by (intro bexI [OF _ i]) (simp add: s' top settle_def newly_def del: emit_step.simps)
  next
    case False
    then have "waiting env ?s2 \<noteq> {}" using s1(4) by simp
    from loop_top_flows [OF plan ready carried flow2 this] obtain s3 where s3:
      "loop_top env ?s2 = (Inr None, s3)" "flowing env file dst s3 sr ((rs @ [ack env ?i]) @ newly (rv_link s1) (rv_link s3)) have"
      "rv_in_flight s3 \<noteq> []" "fst ` set (rv_in_flight s1) \<subseteq> fst ` set (rv_in_flight s3)" "waiting env s3 = waiting env s1"
      "\<exists>new. lk_sent (rv_link s3) = lk_sent (rv_link s1) @ new" by auto
    then have "newly (rv_link s) (rv_link s3) = [ack env ?i] @ newly (rv_link s1) (rv_link s3)" using s1(3) newly_trans by blast
    with s3 s1(4,5) False more show ?thesis
      by (intro bexI [OF _ i]) (simp add: s' top settle_def del: emit_step.simps)
  qed
qed

lemma offer_turn_flows:
  fixes dt :: nat
  assumes plan: "plan_of_file env file" and ready: "library_ready env dst" and carried: "frames_carried env file"
    and ok: "recv_ok env file dst s" and phase: "rv_phase s = AwaitOffer" and none: "rv_verified s = []" and "have": "have \<subseteq> set (rv_have s)"
  defines "s' \<equiv> receiver_step env s (dt, Received (encoded env (Offer (make_offer env))))"
  shows "rv_phase s' = Finished (Inr DsComplete) \<and> hm_get (dk_files (rv_disk s')) dst = Some file
       \<and> newly (rv_link s) (rv_link s') = [farewell env]
     \<or> rv_phase s' = AwaitChunk \<and> flowing env file dst s' [] (newly (rv_link s) (rv_link s')) have \<and> rv_in_flight s' \<noteq> []"
proof -
  let ?s0 = "s\<lparr>rv_emitter := emit_step (rv_emitter s) (EoElapse dt)\<rparr>" and ?plan = "se_plan env"
  let ?t = "min (wrapping_sub_u64 (dp_size_bytes ?plan) (card (set (rv_have s)) * CHUNK_SIZE)) (dp_size_bytes ?plan)"
  let ?s1 = "?s0\<lparr>rv_to_request := filter (\<lambda>i. i \<notin> set (rv_have s)) (map pch_index (dp_chunks ?plan)), rv_in_flight := [],
      rv_verified := [], rv_transferred := ?t\<rparr>"
  have "verify_offer_against_plan env (make_offer env) = Inr ()" by (simp add: verify_offer_against_plan_def make_offer_def Let_def)
  moreover have "carries env (Offer (make_offer env))" using carried by (simp add: frames_carried_def)
  ultimately have s': "s' = settle env AwaitChunk (loop_top env ?s1)"
    by (simp add: s'_def receiver_step_def Let_def phase receive_offer_def await_encoded del: emit_step.simps)
  have "recv_ok env file dst ?s1" using ok none by (simp add: recv_ok_def)
  moreover have "distinct (map pch_index (dp_chunks ?plan))" using plan by (simp add: plan_of_file_def)
  ultimately have flow: "flowing env file dst ?s1 [] [] have"
    using "have" by (auto simp: flowing_def waiting_def indices_def distinct_map)
  show ?thesis
  proof (cases "waiting env ?s1 = {}")
    case True
    from loop_top_finishes [OF plan ready carried flow this] obtain s3 where
      "loop_top env ?s1 = (Inr (Some DsComplete), s3)" "hm_get (dk_files (rv_disk s3)) dst = Some file"
      "lk_sent (rv_link s3) = lk_sent (rv_link s) @ [farewell env]" by auto
    then show ?thesis by (simp add: s' settle_def newly_def del: emit_step.simps)
  next
    case False
    from loop_top_flows [OF plan ready carried flow this] obtain s3 where
      "loop_top env ?s1 = (Inr None, s3)" "flowing env file dst s3 [] ([] @ newly (rv_link ?s1) (rv_link s3)) have"
      "rv_in_flight s3 \<noteq> []" by blast
    then show ?thesis by (simp add: s' settle_def del: emit_step.simps)
  qed
qed

lemma sender_turn_flows:
  assumes plan: "plan_of_file env file" and carried: "frames_carried env file"
    and flow: "flowing env file dst s sr (f # rs) (set (sn_have sn))" and busy: "rv_in_flight s \<noteq> []"
    and ok: "sender_ok env file src sn (f # rs)"
  defines "sn' \<equiv> sender_step env src sn (Received (encoded env f))"
  shows "sender_ok env file src sn' rs" and "flowing env file dst s (sr @ newly (sn_link sn) (sn_link sn')) rs (set (sn_have sn'))"
    and "delivered (newly (sn_link sn) (sn_link sn')) = requested [f]"
proof -
  note fl = flowing_facts [OF flow]
  from sender_serves [OF plan carried ok, folded sn'_def] obtain new where sent: "lk_sent (sn_link sn') = lk_sent (sn_link sn) @ new"
    "delivered new = requested [f]" "\<forall>g \<in> set new. \<exists>c \<in> set (dp_chunks (se_plan env)). g = chunk_of env file c"
    and held: "set (sn_have sn') = set (sn_have sn) \<union> set (acked [f])"
    and "end": "sender_ok env file src sn' rs \<or> set (sn_have sn') = {..<plan_total env}" by blast
  have new: "newly (sn_link sn) (sn_link sn') = new" by (simp add: newly_def sent(1))
  then show "delivered (newly (sn_link sn) (sn_link sn')) = requested [f]" using sent(2) by simp
  have one: "\<exists>i. (f = request env i \<or> f = ack env i) \<and> i \<in> fst ` set (rv_in_flight s) \<union> set (rv_verified s)" using fl(5) [of f] by auto
  then have acks: "acked (f # rs) = acked [f] @ acked rs" "requested (f # rs) = requested [f] @ requested rs"
    "orderly (set (sn_have sn)) (f # rs) \<Longrightarrow> orderly (set (sn_have sn')) rs" unfolding held by auto
  have known: "set (sn_have sn') \<union> set (acked rs) \<subseteq> set (rv_have s) \<union> set (rv_verified s)" using fl(8) unfolding held acks by auto
  obtain i where i: "i \<in> waiting env s" using fl(3) busy by fastforce
  then have "i < plan_total env" using plan by (auto simp: waiting_def indices_def plan_of_file_def)
  moreover have "i \<notin> set (sn_have sn')" using i known by (auto simp: waiting_def)
  ultimately show "sender_ok env file src sn' rs" using "end" by auto
  show "flowing env file dst s (sr @ newly (sn_link sn) (sn_link sn')) rs (set (sn_have sn'))"
    unfolding flowing_def new
  proof (intro conjI ballI)
    show "\<exists>c \<in> set (dp_chunks (se_plan env)). g = chunk_of env file c \<and> pch_index c \<in> fst ` set (rv_in_flight s) \<union> set (rv_verified s)"
      if "g \<in> set (sr @ new)" for g
    proof (cases "g \<in> set sr")
      case False
      with that have "g \<in> set new" by simp
      with sent(3) obtain c where c: "c \<in> set (dp_chunks (se_plan env))" "g = chunk_of env file c" by blast
      have "pch_index c \<in> set (delivered new)"
        using delivered_mem [of _ new] \<open>g \<in> set new\<close> unfolding c(2) chunk_of_def by fastforce
      with sent(2) one have "pch_index c \<in> fst ` set (rv_in_flight s) \<union> set (rv_verified s)"
        by (elim exE conjE disjE) simp_all
      with c show ?thesis by blast
    qed (rule fl(4))
    show "fst ` set (rv_in_flight s) \<subseteq> set (delivered (sr @ new) @ requested rs)" using fl(6) unfolding acks by (simp add: sent(2) Un_assoc)
    show "orderly (set (sn_have sn')) rs" using acks(3) fl(7) by simp
    show "set (sn_have sn') \<union> set (acked rs) \<subseteq> set (rv_have s) \<union> set (rv_verified s)" by (rule known)
    show "\<exists>i \<in> indices env \<inter> (fst ` set (rv_in_flight s) \<union> set (rv_verified s)). g = request env i \<or> g = ack env i"
      if "g \<in> set rs" for g using fl(5) [of g] that by simp
  qed (use fl in simp_all)
qed

lemma sender_ok_flows:
  assumes "sender_ok env file src sn rs" and flow: "flowing env file dst s sr rs' (set (sn_have sn))"
  shows "sender_ok env file src sn rs'"
proof -
  have "\<forall>f \<in> set rs'. \<exists>i \<in> indices env. f = request env i \<or> f = ack env i" using flowing_facts(5) [OF flow] by blast
  with assms(1) flowing_facts(7) [OF flow] show ?thesis by (simp add: sender_ok_def)
qed

section \<open>Both together\<close>

record net =
  nt_receiver :: receiver
  nt_sender :: sender
  nt_to_receiver :: "frame list"
  nt_to_sender :: "frame list"

inductive net_step :: "session_env \<Rightarrow> path \<Rightarrow> net \<Rightarrow> net \<Rightarrow> bool" for env src where
  sender_turn: "nt_to_sender N = f # rs \<Longrightarrow> sn_phase (nt_sender N) = Serving
    \<Longrightarrow> sn' = sender_step env src (nt_sender N) (Received (encoded env f))
    \<Longrightarrow> net_step env src N (N\<lparr>nt_sender := sn', nt_to_sender := rs,
          nt_to_receiver := nt_to_receiver N @ newly (sn_link (nt_sender N)) (sn_link sn')\<rparr>)"
| receiver_turn: "nt_to_receiver N = f # sr \<Longrightarrow> rv_phase (nt_receiver N) = AwaitOffer \<or> rv_phase (nt_receiver N) = AwaitChunk
    \<Longrightarrow> s' = receiver_step env (nt_receiver N) (dt, Received (encoded env f))
    \<Longrightarrow> net_step env src N (N\<lparr>nt_receiver := s', nt_to_receiver := sr,
          nt_to_sender := nt_to_sender N @ newly (rv_link (nt_receiver N)) (rv_link s')\<rparr>)"

inductive_cases net_stepE: "net_step env src N N'"

definition net_inv :: "session_env \<Rightarrow> bytes \<Rightarrow> path \<Rightarrow> path \<Rightarrow> net \<Rightarrow> bool" where
  "net_inv env file src dst N =
     (let s = nt_receiver N; sn = nt_sender N; sr = nt_to_receiver N; rs = nt_to_sender N
      in case rv_phase s of
           AwaitOffer \<Rightarrow> recv_ok env file dst s \<and> rv_verified s = [] \<and> sr = [Offer (make_offer env)] \<and> rs = []
             \<and> sender_ok env file src sn [] \<and> set (sn_have sn) \<subseteq> set (rv_have s)
         | AwaitChunk \<Rightarrow> flowing env file dst s sr rs (set (sn_have sn)) \<and> rv_in_flight s \<noteq> [] \<and> sender_ok env file src sn rs
         | Finished r \<Rightarrow> r = Inr DsComplete \<and> hm_get (dk_files (rv_disk s)) dst = Some file
             \<and> (sn_phase sn = SenderDone (Inr ()) \<or> (\<exists>rs0. rs = rs0 @ [farewell env] \<and> sender_ok env file src sn rs0)))"

lemma farewell_ends:
  assumes "frames_carried env file" and "sn_phase sn = Serving"
  shows "sn_phase (sender_step env src sn (Received (encoded env (farewell env)))) = SenderDone (Inr ())"
  using assms by (simp add: frames_carried_def sender_step_def serve_def await_encoded sender_settle_def)

lemma net_step_inv:
  assumes plan: "plan_of_file env file" and ready: "library_ready env dst" and carried: "frames_carried env file"
    and step: "net_step env src N N'" and inv: "net_inv env file src dst N"
  shows "net_inv env file src dst N'"
  using step
proof cases
  case (sender_turn f rs sn')
  show ?thesis
  proof (cases "rv_phase (nt_receiver N)")
    case AwaitOffer
    with inv sender_turn show ?thesis by (simp add: net_inv_def Let_def)
  next
    case AwaitChunk
    with inv have "flowing env file dst (nt_receiver N) (nt_to_receiver N) (f # rs) (set (sn_have (nt_sender N)))"
      "rv_in_flight (nt_receiver N) \<noteq> []" "sender_ok env file src (nt_sender N) (f # rs)"
      by (simp_all add: net_inv_def Let_def sender_turn(2))
    from sender_turn_flows [OF plan carried this] AwaitChunk this(2) sender_turn show ?thesis by (simp add: net_inv_def Let_def)
  next
    case (Finished r)
    with inv sender_turn(3) obtain rs0 where r: "r = Inr DsComplete" "hm_get (dk_files (rv_disk (nt_receiver N))) dst = Some file"
      and rs0: "f # rs = rs0 @ [farewell env]" "sender_ok env file src (nt_sender N) rs0"
      by (auto simp: net_inv_def Let_def sender_turn(2))
    show ?thesis
    proof (cases rs0)
      case Nil
      with rs0 farewell_ends [OF carried sender_turn(3)] Finished r show ?thesis by (simp add: net_inv_def Let_def sender_turn)
    next
      case (Cons g rs1)
      with rs0 have "sender_ok env file src (nt_sender N) (f # rs1)" "rs = rs1 @ [farewell env]" by simp_all
      with sender_serves [OF plan carried this(1)] Finished r show ?thesis by (auto simp: net_inv_def Let_def sender_turn)
    qed
  qed
next
  case (receiver_turn f sr s' dt)
  show ?thesis
  proof (cases "rv_phase (nt_receiver N)")
    case AwaitOffer
    with inv have o: "recv_ok env file dst (nt_receiver N)" "rv_verified (nt_receiver N) = []" "f = Offer (make_offer env)" "sr = []"
      "nt_to_sender N = []" "sender_ok env file src (nt_sender N) []" "set (sn_have (nt_sender N)) \<subseteq> set (rv_have (nt_receiver N))"
      by (simp_all add: net_inv_def Let_def receiver_turn(2))
    from offer_turn_flows [OF plan ready carried o(1) AwaitOffer o(2,7), of dt] o sender_ok_flows [OF o(6)]
    show ?thesis by (auto simp: net_inv_def Let_def receiver_turn)
  next
    case AwaitChunk
    with inv have a: "flowing env file dst (nt_receiver N) (f # sr) (nt_to_sender N) (set (sn_have (nt_sender N)))"
      "sender_ok env file src (nt_sender N) (nt_to_sender N)" by (simp_all add: net_inv_def Let_def receiver_turn(2))
    from receiver_turn_flows [OF plan ready carried a(1) AwaitChunk, of dt] obtain i where i: "i \<in> indices env" and
      turn: "if waiting env (nt_receiver N) - {i} = {}
        then rv_phase s' = Finished (Inr DsComplete) \<and> hm_get (dk_files (rv_disk s')) dst = Some file
          \<and> newly (rv_link (nt_receiver N)) (rv_link s') = [ack env i, farewell env]
        else rv_phase s' = AwaitChunk
          \<and> flowing env file dst s' sr (nt_to_sender N @ newly (rv_link (nt_receiver N)) (rv_link s')) (set (sn_have (nt_sender N)))
          \<and> rv_in_flight s' \<noteq> []" unfolding receiver_turn(4) by (metis (no_types, lifting))
    show ?thesis
    proof (cases "waiting env (nt_receiver N) - {i} = {}")
      case True
      have "sender_ok env file src (nt_sender N) (nt_to_sender N @ [ack env i])" using a(2) i by (auto simp: sender_ok_def)
      with turn True show ?thesis by (auto simp: net_inv_def Let_def receiver_turn)
    next
      case False
      with turn sender_ok_flows [OF a(2)] show ?thesis by (auto simp: net_inv_def Let_def receiver_turn)
    qed
  next
    case (Finished r)
    with receiver_turn show ?thesis by simp
  qed
qed

section \<open>The transfer ends\<close>

text \<open>
  What decreases with every turn: first the chunks that are missing, then the distance to the next
  frame that concerns one of them, then the frames the sender has not read.
\<close>

definition distance :: "net \<Rightarrow> nat" where
  "distance N = (if rv_phase (nt_receiver N) = AwaitChunk
     then length (takeWhile (\<lambda>i. i \<notin> fst ` set (rv_in_flight (nt_receiver N))) (delivered (nt_to_receiver N) @ requested (nt_to_sender N)))
     else 0)"

definition net_less :: "session_env \<Rightarrow> (net \<times> net) set" where
  "net_less env = measures [\<lambda>N. case rv_phase (nt_receiver N) of AwaitOffer \<Rightarrow> 2 | AwaitChunk \<Rightarrow> 1 | Finished _ \<Rightarrow> 0,
     \<lambda>N. card (waiting env (nt_receiver N)), distance, \<lambda>N. length (nt_to_sender N)]"

lemma takeWhile_shrinks: "F \<subseteq> F' \<Longrightarrow> F \<inter> set q \<noteq> {} \<Longrightarrow>
    length (takeWhile (\<lambda>i. i \<notin> F') (q @ x)) \<le> length (takeWhile (\<lambda>i. i \<notin> F) q)"
  by (induction q) auto

lemma finite_waiting [simp]: "finite (waiting env s)"
  by (simp add: waiting_def indices_def)

lemma net_step_less:
  assumes plan: "plan_of_file env file" and ready: "library_ready env dst" and carried: "frames_carried env file"
    and step: "net_step env src N N'" and inv: "net_inv env file src dst N"
  shows "(N', N) \<in> net_less env"
  using step
proof cases
  case (sender_turn f rs sn')
  have "distance N' = distance N" if phase: "rv_phase (nt_receiver N) = AwaitChunk"
  proof -
    from inv phase have a: "flowing env file dst (nt_receiver N) (nt_to_receiver N) (f # rs) (set (sn_have (nt_sender N)))"
      "rv_in_flight (nt_receiver N) \<noteq> []" "sender_ok env file src (nt_sender N) (f # rs)"
      by (simp_all add: net_inv_def Let_def sender_turn(2))
    from flowing_facts(5) [OF a(1), of f] have "requested (f # rs) = requested [f] @ requested rs" by auto
    with sender_turn_flows(3) [OF plan carried a] show ?thesis by (simp add: distance_def phase sender_turn)
  qed
  moreover have "distance N' = distance N" if "rv_phase (nt_receiver N) \<noteq> AwaitChunk"
    using that by (simp add: distance_def sender_turn)
  ultimately have "distance N' = distance N" by blast
  then show ?thesis by (simp add: net_less_def sender_turn)
next
  case (receiver_turn f sr s' dt)
  show ?thesis
  proof (cases "rv_phase (nt_receiver N)")
    case AwaitOffer
    with inv have o: "recv_ok env file dst (nt_receiver N)" "rv_verified (nt_receiver N) = []" "f = Offer (make_offer env)"
      by (simp_all add: net_inv_def Let_def receiver_turn(2))
    from offer_turn_flows [OF plan ready carried o(1) AwaitOffer o(2) empty_subsetI, of dt] o(3) AwaitOffer
    show ?thesis by (auto simp: net_less_def receiver_turn)
  next
    case AwaitChunk
    with inv have a: "flowing env file dst (nt_receiver N) (f # sr) (nt_to_sender N) (set (sn_have (nt_sender N)))"
      "rv_in_flight (nt_receiver N) \<noteq> []" by (simp_all add: net_inv_def Let_def receiver_turn(2))
    let ?F = "fst ` set (rv_in_flight (nt_receiver N))" and ?W = "waiting env (nt_receiver N)"
    let ?new = "newly (rv_link (nt_receiver N)) (rv_link s')"
    from receiver_turn_flows [OF plan ready carried a(1) AwaitChunk, of dt] obtain i where i: "delivered [f] = [i]" and
      turn: "if ?W - {i} = {} then rv_phase s' = Finished (Inr DsComplete)
        else rv_phase s' = AwaitChunk \<and> ?F - {i} \<subseteq> fst ` set (rv_in_flight s') \<and> waiting env s' = ?W - {i}"
      unfolding receiver_turn(4) by (metis (no_types, lifting))
    show ?thesis
    proof (cases "?W - {i} = {}")
      case True
      with turn AwaitChunk show ?thesis by (simp add: net_less_def receiver_turn)
    next
      case False
      with turn have t: "rv_phase s' = AwaitChunk" "?F - {i} \<subseteq> fst ` set (rv_in_flight s')" "waiting env s' = ?W - {i}" by simp_all
      show ?thesis
      proof (cases "i \<in> ?W")
        case True
        then have "card (?W - {i}) < card ?W" by (rule card_Diff1_less [OF finite_waiting])
        with t AwaitChunk show ?thesis by (simp add: net_less_def receiver_turn)
      next
        case False
        then have same: "?W - {i} = ?W" and out: "i \<notin> ?F" using flowing_facts(3) [OF a(1)] by auto
        let ?q = "delivered sr @ requested (nt_to_sender N)"
        have q: "delivered (f # sr) @ requested (nt_to_sender N) = i # ?q"
          using i delivered_append [of "[f]" sr] by simp
        have "?F \<subseteq> set ?q" using flowing_facts(6) [OF a(1)] subset_insert [OF out] unfolding q by simp
        moreover have "?F \<noteq> {}" using a(2) by simp
        ultimately have "?F \<inter> set ?q \<noteq> {}" by (simp only: Int_absorb2) simp
        moreover have "?F \<subseteq> fst ` set (rv_in_flight s')" using t(2) by (simp only: Diff_insert0 [OF out] Diff_empty)
        ultimately have "length (takeWhile (\<lambda>i. i \<notin> fst ` set (rv_in_flight s')) (?q @ requested ?new)) \<le> length (takeWhile (\<lambda>i. i \<notin> ?F) ?q)"
          by (rule takeWhile_shrinks [rotated])
        then have "distance N' < distance N"
          using t(1) out q by (simp add: distance_def AwaitChunk receiver_turn)
        with t AwaitChunk same show ?thesis by (simp add: net_less_def receiver_turn)
      qed
    qed
  next
    case (Finished r)
    with receiver_turn show ?thesis by simp
  qed
qed

lemma stuck_complete:
  assumes inv: "net_inv env file src dst N" and stuck: "\<not> (\<exists>N'. net_step env src N N')"
  shows "rv_phase (nt_receiver N) = Finished (Inr DsComplete) \<and> hm_get (dk_files (rv_disk (nt_receiver N))) dst = Some file
    \<and> sn_phase (nt_sender N) = SenderDone (Inr ())"
proof -
  have no_sender: "nt_to_sender N = []" if "sn_phase (nt_sender N) = Serving"
    using stuck that net_step.sender_turn by (cases "nt_to_sender N") blast+
  have no_receiver: "nt_to_receiver N = []" if "rv_phase (nt_receiver N) = AwaitOffer \<or> rv_phase (nt_receiver N) = AwaitChunk"
    using stuck that net_step.receiver_turn by (cases "nt_to_receiver N") blast+
  show ?thesis
  proof (cases "rv_phase (nt_receiver N)")
    case AwaitOffer
    with inv no_receiver show ?thesis by (simp add: net_inv_def Let_def)
  next
    case AwaitChunk
    with inv have a: "flowing env file dst (nt_receiver N) (nt_to_receiver N) (nt_to_sender N) (set (sn_have (nt_sender N)))"
      "rv_in_flight (nt_receiver N) \<noteq> []" "sn_phase (nt_sender N) = Serving" by (simp_all add: net_inv_def Let_def sender_ok_def)
    with flowing_facts(6) [OF a(1)] no_sender no_receiver AwaitChunk show ?thesis by simp
  next
    case (Finished r)
    with inv no_sender show ?thesis by (auto simp: net_inv_def Let_def sender_ok_def)
  qed
qed

section \<open>The start\<close>

text \<open>
  Both sides after the greeting: the receiver has sent its \<open>Hello\<close>, the host has checked it and
  started its session with \<open>run_after_hello\<close>.
\<close>

definition fresh_link :: link where "fresh_link = \<lparr>lk_sends = [], lk_sent = [], lk_closed = False\<rparr>"

lemma fresh_link_simps [simp]: "lk_sends fresh_link = []" "lk_sent fresh_link = []"
  by (simp_all add: fresh_link_def)

definition net_start :: "session_env \<Rightarrow> download_db \<Rightarrow> disk \<Rightarrow> disk \<Rightarrow> nat \<Rightarrow> net" where
  "net_start env db dk host_disk t =
     (let s = receiver_init env db dk fresh_link t;
          sn = sender_settle (run_after_hello env (make_hello env (rv_have s))
                 \<lparr>sn_link = fresh_link, sn_disk = host_disk, sn_have = [], sn_phase = AwaitHello\<rparr>)
      in \<lparr>nt_receiver = s, nt_sender = sn, nt_to_receiver = lk_sent (sn_link sn), nt_to_sender = []\<rparr>)"

text \<open>
  What an honest transfer starts from: the plan is that of the host's file; the download is new or
  was interrupted, and the chunks it has are on the viewer's disk; no call fails.
\<close>

definition transfer_ready :: "session_env \<Rightarrow> bytes \<Rightarrow> path \<Rightarrow> path \<Rightarrow> download_db \<Rightarrow> disk \<Rightarrow> disk \<Rightarrow> bool" where
  "transfer_ready env file src dst db dk host_disk \<longleftrightarrow>
     plan_of_file env file \<and> library_ready env dst \<and> frames_carried env file
     \<and> (db_ready env DsPending db \<or> db_ready env DsTransferring db)
     \<and> carries env (Hello (make_hello env (indices_where is_complete_chunk (plan_id env) db)))
     \<and> calm dk \<and> hm_get (dk_files dk) dst = None
     \<and> (\<forall>c \<in> set (dp_chunks (se_plan env)). pch_index c \<in> set (indices_where is_complete_chunk (plan_id env) db) \<longrightarrow>
          hm_get (dk_files dk) (chunk_file (se_root env) (plan_id env) (pch_index c)) = Some (slice file c))
     \<and> calm host_disk \<and> hm_get (dk_files host_disk) src = Some file"

lemma fetch_ready: "db_ready env st db \<Longrightarrow> \<exists>d. fetch_download (plan_id env) db = (Inr d, db) \<and> dl_state d = st"
  by (auto simp: db_ready_def fetch_download_def fetch_row_def sql_def)

lemma indices_ready: "db_ready env st db \<Longrightarrow> completed_chunk_indices did db = (Inr (indices_where is_complete_chunk did db), db)"
  by (simp add: db_ready_def completed_chunk_indices_def select_calm)

lemma indices_where_cong: "dd_chunks db' = dd_chunks db \<Longrightarrow> indices_where P did db' = indices_where P did db"
  by (simp add: indices_where_def chunks_of_def)

lemma receiver_start_calm:
  assumes "db_ready env DsPending (rv_db s) \<or> db_ready env DsTransferring (rv_db s)" and "lk_sends (rv_link s) = []"
    and hello: "carries env (Hello (make_hello env (indices_where is_complete_chunk (plan_id env) (rv_db s))))"
  defines "have \<equiv> indices_where is_complete_chunk (plan_id env) (rv_db s)"
  shows "\<exists>db em. receiver_start env s = (Inr None, say [Hello (make_hello env have)] (s\<lparr>rv_db := db, rv_emitter := em, rv_have := have\<rparr>))
    \<and> db_ready env DsTransferring db"
  using assms(1)
proof
  assume pending: "db_ready env DsPending (rv_db s)"
  from transition_ready [OF this, of DsConnecting] obtain db1 where t1:
    "transition (plan_id env) DsConnecting (rv_db s) = (Inr (), db1)" "db_ready env DsConnecting db1" "dd_chunks db1 = dd_chunks (rv_db s)"
    by auto
  from transition_ready [OF t1(2), of DsTransferring] obtain db2 where t2:
    "transition (plan_id env) DsTransferring db1 = (Inr (), db2)" "db_ready env DsTransferring db2" "dd_chunks db2 = dd_chunks db1" by auto
  from fetch_ready [OF pending] obtain d where "fetch_download (plan_id env) (rv_db s) = (Inr d, rv_db s)" "dl_state d = DsPending" by blast
  moreover have "indices_where is_complete_chunk (plan_id env) db2 = have"
    using indices_where_cong [of db2 "rv_db s"] t1(3) t2(3) by (simp add: have_def)
  ultimately have "receiver_start env s = (Inr None, say [Hello (make_hello env have)] (s\<lparr>rv_db := db2,
      rv_emitter := record_state DsTransferring None (record_state DsConnecting None (record_state DsPending None (rv_emitter s))),
      rv_have := have\<rparr>))"
    using t1(1) t2(1) indices_ready [OF t2(2)] hello assms(2)
    by (simp add: receiver_start_def Let_def stored_def map_err_def on_ok_def report_def send_calm have_def [symmetric] say_def)
  with t2(2) show ?thesis by blast
next
  assume ready: "db_ready env DsTransferring (rv_db s)"
  from fetch_ready [OF this] obtain d where "fetch_download (plan_id env) (rv_db s) = (Inr d, rv_db s)" "dl_state d = DsTransferring" by blast
  then have "receiver_start env s = (Inr None, say [Hello (make_hello env have)] (s\<lparr>rv_db := rv_db s,
      rv_emitter := record_state DsPending None (rv_emitter s), rv_have := have\<rparr>))"
    using indices_ready [OF ready] hello assms(2)
    by (simp add: receiver_start_def Let_def stored_def map_err_def on_ok_def report_def send_calm have_def [symmetric] say_def)
  with ready show ?thesis by blast
qed

lemma net_start_inv:
  assumes "transfer_ready env file src dst db dk host_disk"
  shows "net_inv env file src dst (net_start env db dk host_disk t)"
proof -
  note r = assms [unfolded transfer_ready_def]
  let ?s = "\<lparr>rv_db = db, rv_disk = dk, rv_link = fresh_link, rv_emitter = emitter_new t, rv_have = [], rv_to_request = [],
        rv_in_flight = [], rv_verified = [], rv_transferred = 0, rv_phase = AwaitOffer\<rparr>"
  let ?have = "indices_where is_complete_chunk (plan_id env) db"
  have "\<exists>db' em. receiver_start env ?s = (Inr None, say [Hello (make_hello env ?have)] (?s\<lparr>rv_db := db', rv_emitter := em, rv_have := ?have\<rparr>))
      \<and> db_ready env DsTransferring db'"
    using receiver_start_calm [of env ?s] r by simp
  then obtain db' em where st: "receiver_start env ?s = (Inr None, say [Hello (make_hello env ?have)] (?s\<lparr>rv_db := db', rv_emitter := em, rv_have := ?have\<rparr>))"
    and db': "db_ready env DsTransferring db'" by blast
  have init: "receiver_init env db dk fresh_link t = (say [Hello (make_hello env ?have)] (?s\<lparr>rv_db := db', rv_emitter := em, rv_have := ?have\<rparr>))
      \<lparr>rv_phase := AwaitOffer\<rparr>" unfolding receiver_init_def st by (simp add: settle_def)
  have ok: "recv_ok env file dst (receiver_init env db dk fresh_link t)"
    unfolding init using r db' by (simp add: recv_ok_def say_def)
  have offer: "carries env (Offer (make_offer env))" using r by (simp add: frames_carried_def)
  have "have": "rv_have (receiver_init env db dk fresh_link t) = ?have" "rv_phase (receiver_init env db dk fresh_link t) = AwaitOffer"
    "rv_verified (receiver_init env db dk fresh_link t) = []" unfolding init by (simp_all add: say_def)
  show ?thesis using ok r offer
    by (auto simp: net_start_def Let_def net_inv_def "have" run_after_hello_def sender_send_def send_frame_calm
        on_ok_def sender_settle_def sender_ok_def make_hello_def)
qed

section \<open>Property\<close>

text \<open>
  C22: an honest transfer completes. When the plan is that of the host's file and no call fails, the
  two sessions cannot take turns for ever, in whatever order they do; and when neither can go on,
  the receiver has returned \<open>Complete\<close> with exactly the host's file in the library, and the sender
  has ended without an error.
\<close>

theorem honest_transfer_completes:
  assumes "transfer_ready env file src dst db dk host_disk"
  shows "(\<nexists>run. run 0 = net_start env db dk host_disk t \<and> (\<forall>k. net_step env src (run k) (run (Suc k))))
    \<and> (\<forall>N. rtranclp (net_step env src) (net_start env db dk host_disk t) N \<and> \<not> (\<exists>N'. net_step env src N N') \<longrightarrow>
         rv_phase (nt_receiver N) = Finished (Inr DsComplete)
         \<and> hm_get (dk_files (rv_disk (nt_receiver N))) dst = Some file
         \<and> sn_phase (nt_sender N) = SenderDone (Inr ()))"
proof (intro conjI allI impI)
  have env: "plan_of_file env file" "library_ready env dst" "frames_carried env file" using assms by (simp_all add: transfer_ready_def)
  note keeps = net_step_inv [OF env] and less = net_step_less [OF env] and start = net_start_inv [OF assms]
  show "\<nexists>run. run 0 = net_start env db dk host_disk t \<and> (\<forall>k. net_step env src (run k) (run (Suc k)))"
  proof
    assume "\<exists>run. run 0 = net_start env db dk host_disk t \<and> (\<forall>k. net_step env src (run k) (run (Suc k)))"
    then obtain run where run: "run 0 = net_start env db dk host_disk t" "\<And>k. net_step env src (run k) (run (Suc k))" by blast
    have inv: "net_inv env file src dst (run k)" for k by (induction k) (simp_all only: run(1) start keeps [OF run(2)])
    have "wf (net_less env)" by (simp add: net_less_def)
    moreover have "(run (Suc k), run k) \<in> net_less env" for k by (rule less [OF run(2) inv])
    ultimately show False unfolding wf_iff_no_infinite_down_chain by blast
  qed
  fix N
  assume N: "rtranclp (net_step env src) (net_start env db dk host_disk t) N \<and> \<not> (\<exists>N'. net_step env src N N')"
  then have "rtranclp (net_step env src) (net_start env db dk host_disk t) N" by simp
  then have "net_inv env file src dst N" by (induction rule: rtranclp_induct) (use start keeps in blast)+
  from stuck_complete [OF this] N show "rv_phase (nt_receiver N) = Finished (Inr DsComplete)"
    and "hm_get (dk_files (rv_disk (nt_receiver N))) dst = Some file" and "sn_phase (nt_sender N) = SenderDone (Inr ())" by simp_all
qed

text \<open>A file of three bytes in one chunk, a download that is new.\<close>

definition tiny_plan :: download_plan where
  "tiny_plan = \<lparr>dp_download_id = [97], dp_media_id = [49], dp_sha256 = replicate 64 97, dp_blake3 = replicate 64 98,
     dp_size_bytes = 3, dp_source = \<lparr>sel_peer_id = replicate 64 97, sel_source = example_source\<rparr>,
     dp_source_meta = \<lparr>pls_chunk_size = CHUNK_SIZE, pls_total_chunks = 1\<rparr>,
     dp_chunks = [\<lparr>pch_index = 0, pch_offset = 0, pch_length = 3, pch_sha256 = replicate 64 97\<rparr>], dp_manifest_version = 1\<rparr>"

definition tiny_frames :: "frame list" where
  "tiny_frames =
    [Hello \<lparr>hf_peer_id = replicate 64 97, hf_download_id = [97], hf_media_id = [49], hf_manifest_version = 1, hf_have_chunks = []\<rparr>,
     Offer \<lparr>of_peer_id = replicate 64 97, of_download_id = [97], of_media_id = [49], of_manifest_version = 1,
       of_total_bytes = 3, of_chunk_size_bytes = CHUNK_SIZE, of_total_chunks = 1, of_sha256 = replicate 64 97,
       of_blake3 = replicate 64 98, of_filename = [97]\<rparr>,
     Request \<lparr>rf_download_id = [97], rf_chunk_index = 0\<rparr>,
     ChunkFrame \<lparr>cf_download_id = [97], cf_chunk_index = 0, cf_bytes_b64 = [7, 8, 9], cf_sha256 = replicate 64 97\<rparr>,
     Ack \<lparr>af_download_id = [97], af_chunk_index = 0\<rparr>,
     CancelFrame \<lparr>xf_download_id = [97], xf_reason = ascii ''complete''\<rparr>]"

definition tiny_json :: wire_json where
  "tiny_json = \<lparr>wj_to_vec = (\<lambda>f. Some [case f of Hello _ \<Rightarrow> 0 | Offer _ \<Rightarrow> 1 | Request _ \<Rightarrow> 2 | ChunkFrame _ \<Rightarrow> 3 | Ack _ \<Rightarrow> 4 | _ \<Rightarrow> 5]),
     wj_from_slice = (\<lambda>bs. Some (tiny_frames ! unat (hd bs))), wj_nfc = id\<rparr>"

definition tiny_env :: session_env where
  "tiny_env = \<lparr>se_plan = tiny_plan, se_root = [[104]], se_filename = [97],
     se_os = \<lparr>ov_is_dir = (\<lambda>_. Inr True), ov_canonicalize = Inr, ov_nfc = id\<rparr>, se_digests = example_digests, se_wire = tiny_json,
     se_b64_encode = map unat, se_b64_decode = (\<lambda>s. Some (map of_nat s)), se_pubkey = [], se_display = (\<lambda>_. [])\<rparr>"

definition tiny_db :: download_db where
  "tiny_db = \<lparr>dd_downloads = [([97], \<lparr>dl_media_id = [49], dl_room_id = None, dl_user_id = [], dl_state = DsPending, dl_total_bytes = 3,
       dl_transferred_bytes = 0, dl_started_at = 0, dl_completed_at = None, dl_last_error = None, dl_source_peer_id = None,
       dl_chunk_size_bytes = 262144, dl_manifest_version = 1\<rparr>)],
     dd_chunks = [(([97], 0), \<lparr>ck_offset = 0, ck_length = 3, ck_sha256 = replicate 64 97, ck_state = CsPending\<rparr>)],
     dd_clock = 0, dd_faults = []\<rparr>"

definition tiny_target :: path where
  "tiny_target = [[104], ascii ''library'', replicate 2 97, replicate 2 97, replicate 64 97, [97]]"

lemma tiny_frames_valid: "list_all (\<lambda>f. validate_frame id f = Inr ()) tiny_frames"
  by (simp add: tiny_frames_def check_binding_def wire_check_download_id_def check_64_lowercase_hex_def check_reason_def MAX_ERROR_LEN_def
      example_hex is_64_lowercase_hex_def [symmetric] utf8_len_def utf8_width_def hex_char_def list_all_iff sum_list_replicate ascii_def
      sanitize_def is_separator_def is_control_def FORBIDDEN_CHARS_def strip_end_def dot_or_space_def is_reserved_name_def
      RESERVED_NAMES_def ascii_upper_def MAX_BYTES_def Let_def)

lemma tiny_carries: "k < 6 \<Longrightarrow> wj_to_vec tiny_json (tiny_frames ! k) = Some [of_nat k] \<Longrightarrow> se_wire env = tiny_json
    \<Longrightarrow> carries env (tiny_frames ! k)"
proof -
  assume k: "k < 6" and vec: "wj_to_vec tiny_json (tiny_frames ! k) = Some [of_nat k]" and env: "se_wire env = tiny_json"
  have "validate_frame id (tiny_frames ! k) = Inr ()"
    using tiny_frames_valid k by (simp add: list_all_length tiny_frames_def)
  moreover have "unat (of_nat k :: 8 word) = k" using k by (simp add: unat_of_nat)
  ultimately show ?thesis
    using vec by (simp add: carries_def env encode_frame_def MAX_FRAME_BYTES_def decode_frame_def from_to_be_bytes tiny_json_def)
qed

lemma tiny_frames_nth:
  "tiny_frames ! 0 = Hello (make_hello tiny_env [])" "tiny_frames ! 1 = Offer (make_offer tiny_env)"
  "tiny_frames ! 2 = request tiny_env 0"
  "tiny_frames ! 3 = chunk_of tiny_env [7, 8, 9] \<lparr>pch_index = 0, pch_offset = 0, pch_length = 3, pch_sha256 = replicate 64 97\<rparr>"
  "tiny_frames ! 4 = ack tiny_env 0" "tiny_frames ! 5 = farewell tiny_env"
  by (simp_all add: tiny_frames_def make_hello_def make_offer_def chunk_of_def tiny_env_def tiny_plan_def derive_peer_id_def
      example_digests_def slice_def)

lemma tiny_carried:
  "carries tiny_env (Hello (make_hello tiny_env []))" "carries tiny_env (Offer (make_offer tiny_env))" "carries tiny_env (request tiny_env 0)"
  "carries tiny_env (chunk_of tiny_env [7, 8, 9] \<lparr>pch_index = 0, pch_offset = 0, pch_length = 3, pch_sha256 = replicate 64 97\<rparr>)"
  "carries tiny_env (ack tiny_env 0)" "carries tiny_env (farewell tiny_env)"
proof -
  have env: "se_wire tiny_env = tiny_json" by (simp add: tiny_env_def)
  note carried = tiny_carries [OF _ _ env]
  show "carries tiny_env (Hello (make_hello tiny_env []))" using carried [of 0] unfolding tiny_frames_nth by (simp add: tiny_json_def)
  show "carries tiny_env (Offer (make_offer tiny_env))" using carried [of 1] unfolding tiny_frames_nth by (simp add: tiny_json_def)
  show "carries tiny_env (request tiny_env 0)" using carried [of 2] unfolding tiny_frames_nth by (simp add: tiny_json_def)
  show "carries tiny_env (chunk_of tiny_env [7, 8, 9] \<lparr>pch_index = 0, pch_offset = 0, pch_length = 3, pch_sha256 = replicate 64 97\<rparr>)"
    using carried [of 3] unfolding tiny_frames_nth by (simp add: tiny_json_def chunk_of_def)
  show "carries tiny_env (ack tiny_env 0)" using carried [of 4] unfolding tiny_frames_nth by (simp add: tiny_json_def)
  show "carries tiny_env (farewell tiny_env)" using carried [of 5] unfolding tiny_frames_nth by (simp add: tiny_json_def)
qed

lemma tiny_library: "library_ready tiny_env tiny_target"
proof -
  have sha: "validate_sha (replicate 64 97) = Inr ()"
    by (simp add: validate_sha_def utf8_len_def utf8_width_def is_hexdigit_def list_all_iff list_ex_iff sum_list_replicate)
  have "sanitize id [97] = Inr [97]"
    by (simp add: sanitize_def is_separator_def is_control_def FORBIDDEN_CHARS_def strip_end_def dot_or_space_def is_reserved_name_def
        RESERVED_NAMES_def ascii_upper_def ascii_def utf8_width_def MAX_BYTES_def Let_def)
  moreover have "content_addressed_path [[104]] (replicate 64 97) [97] = Inr tiny_target"
    by (simp add: content_addressed_path_def sha check_sanitized_def is_separator_def tiny_target_def take_replicate)
  ultimately show ?thesis using sha
    by (simp add: library_ready_def target_def tiny_env_def tiny_plan_def check_download_id_def hex_char_def starts_with_def
        staging_file_def tiny_target_def)
qed

theorem honest_transfer_completes_witness:
  "transfer_ready tiny_env [7, 8, 9] [[1]] tiny_target tiny_db \<lparr>dk_files = [], dk_faults = []\<rparr> \<lparr>dk_files = [([[1]], [7, 8, 9])], dk_faults = []\<rparr>
   \<and> (\<nexists>run. run 0 = net_start tiny_env tiny_db \<lparr>dk_files = [], dk_faults = []\<rparr> \<lparr>dk_files = [([[1]], [7, 8, 9])], dk_faults = []\<rparr> 0
        \<and> (\<forall>k. net_step tiny_env [[1]] (run k) (run (Suc k))))"
proof -
  have plan: "plan_of_file tiny_env [7, 8, 9]"
    by (simp add: plan_of_file_def tiny_env_def tiny_plan_def slice_def example_digests_def as_planned_def)
  have one: "dp_chunks (se_plan tiny_env) = [\<lparr>pch_index = 0, pch_offset = 0, pch_length = 3, pch_sha256 = replicate 64 97\<rparr>]"
    by (simp add: tiny_env_def tiny_plan_def)
  have "se_b64_decode tiny_env (se_b64_encode tiny_env bs) = Some bs" for bs by (simp add: tiny_env_def o_def)
  then have carried: "frames_carried tiny_env [7, 8, 9]" using tiny_carried by (simp add: frames_carried_def one)
  have none: "indices_where is_complete_chunk (plan_id tiny_env) tiny_db = []"
    by (simp add: indices_where_def chunks_of_def tiny_db_def tiny_env_def tiny_plan_def is_complete_chunk_def)
  have "db_ready tiny_env DsPending tiny_db"
    by (simp add: db_ready_def tiny_db_def tiny_env_def tiny_plan_def count_chunks_def chunks_of_def)
  then have ready: "transfer_ready tiny_env [7, 8, 9] [[1]] tiny_target tiny_db \<lparr>dk_files = [], dk_faults = []\<rparr>
      \<lparr>dk_files = [([[1]], [7, 8, 9])], dk_faults = []\<rparr>"
    using plan tiny_library carried tiny_carried(1) by (simp add: transfer_ready_def none calm_def)
  from honest_transfer_completes [OF this, of 0] ready show ?thesis by blast
qed

end
