(* ===== verification/Scheduler.thy ===== *)
theory Scheduler
  imports Session
begin

text \<open>
  \<open>transfer/scheduler.rs\<close>: the window and token bucket in front of the requests to one source, and
  the gate that stops a host's sends while its channel is full. The bucket computes in floating
  point; whether it has a token is an input of each poll.
\<close>

definition BUFFERED_AMOUNT_HIGH :: nat where "BUFFERED_AMOUNT_HIGH = 2 * 1024 * 1024"

datatype scheduler_error = SchCancelled

datatype scheduler_event = SvRequestSent nat | SvWindowFull | SvBucketDepleted | SvPaused | SvResumed

section \<open>Slots\<close>

record sched =
  sd_in_flight :: "nat list"
  sd_retries :: "(nat, nat) hashmap"

definition sched_new :: sched where "sched_new = \<lparr>sd_in_flight = [], sd_retries = []\<rparr>"

text \<open>One turn of the waiting loop: the token fired, or time passed and the bucket had a token or not.\<close>

datatype poll = PollCancelled | Poll nat bool

text \<open>
  The loop of \<open>try_acquire_slot\<close>, with the clock; \<open>None\<close> is still waiting when the polls end. The last
  component is what an observer sees.
\<close>

fun try_acquire_slot ::
    "nat \<Rightarrow> poll list \<Rightarrow> nat \<Rightarrow> sched \<Rightarrow> (scheduler_error + unit) option \<times> poll list \<times> nat \<times> sched \<times> scheduler_event list" where
  "try_acquire_slot i [] now w = (None, [], now, w, [])"
| "try_acquire_slot i (PollCancelled # polls) now w = (Some (Inl SchCancelled), polls, now, w, [])"
| "try_acquire_slot i (Poll dt token # polls) now w =
     (if WINDOW_SIZE \<le> length (sd_in_flight w)
      then (case try_acquire_slot i polls (now + dt) w of (r, ps, t, w', evs) \<Rightarrow> (r, ps, t, w', SvWindowFull # evs))
      else if \<not> token
      then (case try_acquire_slot i polls (now + dt) w of (r, ps, t, w', evs) \<Rightarrow> (r, ps, t, w', SvBucketDepleted # evs))
      else (Some (Inr ()), polls, now + dt,
            w\<lparr>sd_in_flight := List.insert i (sd_in_flight w),
              sd_retries := hm_insert i (case hm_get (sd_retries w) i of None \<Rightarrow> 1 | Some r \<Rightarrow> r + 1) (sd_retries w)\<rparr>,
            [SvRequestSent i]))"

definition release_slot :: "nat \<Rightarrow> sched \<Rightarrow> sched" where
  "release_slot i w = w\<lparr>sd_in_flight := removeAll i (sd_in_flight w)\<rparr>"

lemma release_slot_simps [simp]: "set (sd_in_flight (release_slot i w)) = set (sd_in_flight w) - {i}"
  "distinct (sd_in_flight w) \<Longrightarrow> distinct (sd_in_flight (release_slot i w))"
  by (simp_all add: release_slot_def distinct_removeAll)

text \<open>With room in the window the wait is over at the first token, unless it is cancelled before.\<close>

lemma try_acquire_slot_room:
  assumes "length (sd_in_flight w) < WINDOW_SIZE"
  shows "case try_acquire_slot i polls now w of
      (None, ps, t, w', _) \<Rightarrow> (\<forall>p \<in> set polls. \<exists>dt. p = Poll dt False) \<and> w' = w
    | (Some (Inl _), ps, t, w', _) \<Rightarrow> PollCancelled \<in> set polls \<and> w' = w
    | (Some (Inr _), ps, t, w', _) \<Rightarrow> sd_in_flight w' = List.insert i (sd_in_flight w)"
  using assms by (induction i polls now w rule: try_acquire_slot.induct) (auto split: prod.splits option.splits sum.splits)

lemma try_acquire_slot_full:
  "WINDOW_SIZE \<le> length (sd_in_flight w) \<Longrightarrow> fst (try_acquire_slot i polls now w) \<noteq> Some (Inr ())"
  by (induction i polls now w rule: try_acquire_slot.induct) (auto split: prod.splits)

section \<open>Backpressure\<close>

text \<open>\<open>gt_inner\<close> is what the wrapped transport was given, interleaved with the events of the observer.\<close>

datatype gate_event = GtSend bytes | GtEvent scheduler_event

record gate =
  gt_buffered_amount :: nat
  gt_paused :: bool
  gt_trace :: "gate_event list"

definition gate_new :: gate where "gate_new = \<lparr>gt_buffered_amount = 0, gt_paused = False, gt_trace = []\<rparr>"

text \<open>\<open>inner\<close> is the answer of the wrapped transport.\<close>

definition gate_send :: "bytes \<Rightarrow> transport_error + unit \<Rightarrow> gate \<Rightarrow> (transport_error + unit) \<times> gate" where
  "gate_send frame inner g =
     (if gt_paused g then (Inl TpBackpressurePaused, g)
      else (let g1 = g\<lparr>gt_trace := gt_trace g @ [GtSend frame]\<rparr>
            in case inner of
                 Inl e \<Rightarrow> (Inl e, g1)
               | Inr _ \<Rightarrow> (Inr (), g1\<lparr>gt_buffered_amount := saturating_add_u64 (gt_buffered_amount g1) (length frame)\<rparr>)))"

definition report_buffered_amount :: "nat \<Rightarrow> gate \<Rightarrow> gate" where
  "report_buffered_amount amount g0 =
     (let g = g0\<lparr>gt_buffered_amount := amount\<rparr>
      in if amount > BUFFERED_AMOUNT_HIGH \<and> \<not> gt_paused g
         then g\<lparr>gt_paused := True, gt_trace := gt_trace g @ [GtEvent SvPaused]\<rparr> else g)"

definition signal_buffered_amount_low :: "gate \<Rightarrow> gate" where
  "signal_buffered_amount_low g0 =
     (let g = g0\<lparr>gt_buffered_amount := 0\<rparr>
      in if gt_paused g then g\<lparr>gt_paused := False, gt_trace := gt_trace g @ [GtEvent SvResumed]\<rparr> else g)"

datatype gate_op = GoSend bytes "transport_error + unit" | GoReport nat | GoLow

fun gate_step :: "gate \<Rightarrow> gate_op \<Rightarrow> gate" where
  "gate_step g (GoSend frame inner) = snd (gate_send frame inner g)"
| "gate_step g (GoReport amount) = report_buffered_amount amount g"
| "gate_step g GoLow = signal_buffered_amount_low g"

text \<open>What may follow: sends while open, then a pause, then nothing but a resumption.\<close>

fun gate_language :: "bool \<Rightarrow> gate_event list \<Rightarrow> bool option" where
  "gate_language p [] = Some p"
| "gate_language False (GtSend _ # es) = gate_language False es"
| "gate_language False (GtEvent SvPaused # es) = gate_language True es"
| "gate_language True (GtEvent SvResumed # es) = gate_language False es"
| "gate_language _ _ = None"

lemma gate_language_append: "gate_language p (es @ fs) = Option.bind (gate_language p es) (\<lambda>q. gate_language q fs)"
  by (induction p es rule: gate_language.induct) simp_all

definition gate_inv :: "gate \<Rightarrow> bool" where
  "gate_inv g \<longleftrightarrow> gate_language False (gt_trace g) = Some (gt_paused g)"

lemma gate_step_inv: "gate_inv g \<Longrightarrow> gate_inv (gate_step g op)"
  by (cases op; cases "gt_paused g")
    (auto simp: gate_inv_def gate_send_def report_buffered_amount_def signal_buffered_amount_low_def Let_def gate_language_append
      split: sum.splits)

interpretation gating: invariant_machine gate_step gate_inv
  by unfold_locales (rule gate_step_inv)

end
