(* ===== verification/MultiSource.thy ===== *)
theory MultiSource
  imports Scheduler SessionSafety
begin

text \<open>
  \<open>transfer/multi_source.rs\<close>: one download fetched from several sources. The orchestrator keeps a
  window of requests, chooses a source for each chunk, nudges silent ones, counts failures against
  the source that caused them, demotes sources, and ends the download when a chunk has failed too
  often. The clock counts milliseconds.
\<close>

section \<open>Constants and errors\<close>

definition NAK_THRESHOLD :: nat where "NAK_THRESHOLD = 3"
definition RTT_COOLDOWN :: nat where "RTT_COOLDOWN = 30000"
definition RTT_WINDOW_CAP :: nat where "RTT_WINDOW_CAP = 64"
definition RTT_P95_WINDOW :: nat where "RTT_P95_WINDOW = 10000"
definition RTT_P95_LIMIT_MS :: nat where "RTT_P95_LIMIT_MS = 2000"
definition STUCK_REQUEST_RETRY :: nat where "STUCK_REQUEST_RETRY = 2000"
definition STUCK_REQUEST_DEMOTE_AFTER :: nat where "STUCK_REQUEST_DEMOTE_AFTER = 3"

datatype multi_error =
  MsWire wire_error
| MsTransport transport_error
| MsStorage string
| MsIo string
| MsAssemble assemble_error
| MsPeerMismatch rstring rstring
| MsDuplicatePeerId rstring
| MsNoSources
| MsAllSourcesExhausted nat
| MsAllSourcesGone
| MsCancelled
| MsMaxRetriesExceeded nat nat
| MsScheduler scheduler_error
| MsPanic

section \<open>Sources and their choice\<close>

record source_handle =
  sh_peer_id :: rstring
  sh_link :: link
  sh_priority :: int
  sh_sched :: sched
  sh_demotion_count :: nat
  sh_unavailable :: bool
  sh_unavailable_since :: "nat option"
  sh_rtt_samples :: "(nat \<times> nat) list"

text \<open>Strings compare by their UTF-8 bytes, which is the order of their scalar values.\<close>

fun rstring_less :: "rstring \<Rightarrow> rstring \<Rightarrow> bool" where
  "rstring_less s [] \<longleftrightarrow> False"
| "rstring_less [] (c # t) \<longleftrightarrow> True"
| "rstring_less (b # s) (c # t) \<longleftrightarrow> b < c \<or> b = c \<and> rstring_less s t"

definition cooling :: "nat \<Rightarrow> source_handle \<Rightarrow> bool" where
  "cooling now h \<longleftrightarrow> sh_unavailable h
     \<and> (case sh_unavailable_since h of Some since \<Rightarrow> \<not> now - since \<ge> RTT_COOLDOWN | None \<Rightarrow> False)"

definition better :: "source_handle \<Rightarrow> source_handle \<Rightarrow> bool" where
  "better h cur \<longleftrightarrow>
     (if sh_priority h < sh_priority cur then True
      else if sh_priority h > sh_priority cur then False
      else if sh_demotion_count h < sh_demotion_count cur then True
      else if sh_demotion_count h > sh_demotion_count cur then False
      else rstring_less (sh_peer_id h) (sh_peer_id cur))"

fun pick_from :: "rstring list \<Rightarrow> nat \<Rightarrow> source_handle option \<Rightarrow> source_handle list \<Rightarrow> source_handle option" where
  "pick_from tried now best [] = best"
| "pick_from tried now best (h # hs) =
     (if cooling now h then pick_from tried now best hs
      else if sh_peer_id h \<in> set tried then pick_from tried now best hs
      else pick_from tried now (case best of None \<Rightarrow> Some h | Some cur \<Rightarrow> Some (if better h cur then h else cur)) hs)"

definition pick :: "source_handle list \<Rightarrow> rstring list \<Rightarrow> nat \<Rightarrow> source_handle option" where
  "pick handles tried now = pick_from tried now None handles"

text \<open>
  The 95th percentile of the samples in the window. \<open>ceil(len * 0.95)\<close> is computed in floating point
  in the code; for the at most 64 samples a source keeps it is the integer below.
\<close>

definition rtt_p95 :: "(nat \<times> nat) list \<Rightarrow> nat \<Rightarrow> nat \<Rightarrow> nat option" where
  "rtt_p95 samples window now =
     (let in_window = map snd (filter (\<lambda>(t, _). now - t \<le> window) samples)
      in if in_window = [] then None
         else Some (sort in_window ! ((95 * length in_window + 99) div 100 - 1)))"

section \<open>The orchestrator\<close>

record inflight_record =
  ir_peer_id :: rstring
  ir_requested_at :: nat

datatype multi_phase = MsWaiting | MsBlocked | MsFinished "multi_error + download_state"

text \<open>
  \<open>ms_polls\<close> is what the waits for a slot will see. \<open>ms_have\<close> is \<open>have_set\<close>. Unknown keys of the
  counting maps count as zero, and sets of tried sources are lists without repetition.
\<close>

record multi =
  ms_db :: download_db
  ms_disk :: disk
  ms_emitter :: "nat emitter"
  ms_sources :: "source_handle list"
  ms_in_flight :: "(nat, inflight_record) hashmap"
  ms_chunk_retries :: "(nat, nat) hashmap"
  ms_chunk_tried :: "(nat, rstring list) hashmap"
  ms_nak_counters :: "(nat \<times> rstring, nat) hashmap"
  ms_consecutive_stuck :: "(nat \<times> rstring, nat) hashmap"
  ms_verified_sources :: "(nat, rstring) hashmap"
  ms_have :: "nat list"
  ms_transferred :: nat
  ms_now :: nat
  ms_polls :: "poll list"
  ms_phase :: multi_phase

text \<open>The session's environment, and the \<open>Display\<close> of this module's errors.\<close>

record multi_env =
  me_session :: session_env
  me_display :: "multi_error \<Rightarrow> rstring"

abbreviation me_plan :: "multi_env \<Rightarrow> download_plan" where "me_plan env \<equiv> se_plan (me_session env)"
abbreviation me_id :: "multi_env \<Rightarrow> rstring" where "me_id env \<equiv> plan_id (me_session env)"

type_synonym 'a run = "(multi_error + 'a) \<times> multi"

definition new_check :: "source_handle list \<Rightarrow> multi_error + unit" where
  "new_check sources =
     (if sources = [] then Inl MsNoSources
      else case find (\<lambda>k. sh_peer_id (sources ! k) \<in> sh_peer_id ` set (take k sources)) [0..<length sources] of
             Some k \<Rightarrow> Inl (MsDuplicatePeerId (sh_peer_id (sources ! k)))
           | None \<Rightarrow> Inr ())"

definition ms_stored :: "(download_db \<Rightarrow> 'a dresult) \<Rightarrow> multi \<Rightarrow> 'a run" where
  "ms_stored f s = (case f (ms_db s) of (r, db) \<Rightarrow> map_err (\<lambda>_. MsStorage ''store'') (r, s\<lparr>ms_db := db\<rparr>))"

definition ms_on_disk :: "(disk \<Rightarrow> ('e + 'a) \<times> disk) \<Rightarrow> multi \<Rightarrow> ('e + 'a) \<times> multi" where
  "ms_on_disk f s = (case f (ms_disk s) of (r, dk) \<Rightarrow> (r, s\<lparr>ms_disk := dk\<rparr>))"

definition ms_report :: "download_state \<Rightarrow> rstring option \<Rightarrow> multi \<Rightarrow> multi" where
  "ms_report st msg s = s\<lparr>ms_emitter := record_state st msg (ms_emitter s)\<rparr>"

definition ms_report_end :: "download_state \<Rightarrow> rstring option \<Rightarrow> multi \<Rightarrow> multi" where
  "ms_report_end st msg s = s\<lparr>ms_emitter := shutdown (record_state st msg (ms_emitter s))\<rparr>"

definition ms_with_message :: "rstring \<Rightarrow> (rstring \<Rightarrow> multi \<Rightarrow> 'a run) \<Rightarrow> multi \<Rightarrow> 'a run" where
  "ms_with_message msg k s = (case sanitize_error_message msg of None \<Rightarrow> (Inl MsPanic, s) | Some text \<Rightarrow> k text s)"

text \<open>Time passes, for the orchestrator and for its emitter.\<close>

definition at_time :: "nat \<Rightarrow> multi \<Rightarrow> multi" where
  "at_time now s = s\<lparr>ms_now := now, ms_emitter := (ms_emitter s)\<lparr>em_now := now\<rparr>\<rparr>"

definition source_of :: "rstring \<Rightarrow> multi \<Rightarrow> source_handle option" where
  "source_of p s = find (\<lambda>h. sh_peer_id h = p) (ms_sources s)"

definition at_source :: "rstring \<Rightarrow> (source_handle \<Rightarrow> source_handle) \<Rightarrow> multi \<Rightarrow> multi" where
  "at_source p f s = s\<lparr>ms_sources := update_first (\<lambda>h. sh_peer_id h = p) f (ms_sources s)\<rparr>"

definition ms_send_error :: "session_error \<Rightarrow> multi_error" where
  "ms_send_error e = (case e of SeCancelled \<Rightarrow> MsCancelled | SeTransport t \<Rightarrow> MsTransport t | SeWire w \<Rightarrow> MsWire w | _ \<Rightarrow> MsPanic)"

text \<open>A frame to the source with this peer id, if there is one; otherwise nothing is sent.\<close>

definition send_to :: "multi_env \<Rightarrow> rstring \<Rightarrow> frame \<Rightarrow> multi \<Rightarrow> unit run" where
  "send_to env p f s =
     (case source_of p s of
        None \<Rightarrow> (Inr (), s)
      | Some h \<Rightarrow>
          (case send_frame (se_wire (me_session env)) f (sh_link h) of
             (r, lk) \<Rightarrow> map_err ms_send_error (r, at_source p (\<lambda>h. h\<lparr>sh_link := lk\<rparr>) s)))"

definition release_at :: "rstring \<Rightarrow> nat \<Rightarrow> multi \<Rightarrow> multi" where
  "release_at p i = at_source p (\<lambda>h. h\<lparr>sh_sched := release_slot i (sh_sched h)\<rparr>)"

section \<open>Failures of a chunk\<close>

definition count_up :: "'k \<Rightarrow> ('k, nat) hashmap \<Rightarrow> ('k, nat) hashmap" where
  "count_up k m = hm_insert k (case hm_get m k of None \<Rightarrow> 1 | Some n \<Rightarrow> n + 1) m"

definition tried_of :: "nat \<Rightarrow> multi \<Rightarrow> rstring list" where
  "tried_of i s = (case hm_get (ms_chunk_tried s) i of None \<Rightarrow> [] | Some ps \<Rightarrow> ps)"

definition retries_of :: "nat \<Rightarrow> multi \<Rightarrow> nat" where
  "retries_of i s = (case hm_get (ms_chunk_retries s) i of None \<Rightarrow> 0 | Some n \<Rightarrow> n)"

definition naks_of :: "nat \<Rightarrow> rstring \<Rightarrow> multi \<Rightarrow> nat" where
  "naks_of i p s = (case hm_get (ms_nak_counters s) (i, p) of None \<Rightarrow> 0 | Some n \<Rightarrow> n)"

definition demote :: "nat \<Rightarrow> rstring \<Rightarrow> multi \<Rightarrow> multi" where
  "demote i p s0 =
     (let s1 = s0\<lparr>ms_chunk_tried := hm_insert i (List.insert p (tried_of i s0)) (ms_chunk_tried s0),
                  ms_nak_counters := hm_remove (i, p) (ms_nak_counters s0)\<rparr>;
          s2 = at_source p (\<lambda>h. h\<lparr>sh_demotion_count := min (sh_demotion_count h + 1) u32_max\<rparr>) s1;
          s3 = release_at p i s2
      in s3\<lparr>ms_in_flight := hm_remove i (ms_in_flight s3)\<rparr>)"

definition apply_nak :: "nat \<Rightarrow> rstring \<Rightarrow> multi \<Rightarrow> unit run" where
  "apply_nak i p s0 =
     (let s = s0\<lparr>ms_consecutive_stuck := hm_remove (i, p) (ms_consecutive_stuck s0)\<rparr>
      in case hm_get (ms_in_flight s) i of
           None \<Rightarrow> (Inr (), s)
         | Some rec \<Rightarrow>
             if ir_peer_id rec \<noteq> p then (Inr (), s)
             else let s1 = s\<lparr>ms_chunk_retries := count_up i (ms_chunk_retries s)\<rparr>
                  in if retries_of i s1 \<ge> MAX_CHUNK_RETRIES then (Inl (MsAllSourcesExhausted i), s1)
                     else let s2 = s1\<lparr>ms_nak_counters := count_up (i, p) (ms_nak_counters s1)\<rparr>
                          in if naks_of i p s2 \<ge> NAK_THRESHOLD then (Inr (), demote i p s2) else (Inr (), s2))"

section \<open>A chunk arrives\<close>

datatype handle_outcome =
  HoVerified nat rstring
| HoDuplicate
| HoNakTrigger nat rstring
| HoPeerMismatch rstring

definition ms_ack :: "multi_env \<Rightarrow> rstring \<Rightarrow> nat \<Rightarrow> multi \<Rightarrow> multi" where
  "ms_ack env p i s = snd (send_to env p (Ack \<lparr>af_download_id = me_id env, af_chunk_index = i\<rparr>) s)"

text \<open>The round-trip sample of an accepted chunk; a source whose 95th percentile is too high cools down.\<close>

definition push_sample :: "nat \<times> nat \<Rightarrow> (nat \<times> nat) list \<Rightarrow> (nat \<times> nat) list" where
  "push_sample x samples = (let all = samples @ [x] in drop (length all - RTT_WINDOW_CAP) all)"

definition sample_rtt :: "nat \<Rightarrow> nat \<Rightarrow> source_handle \<Rightarrow> source_handle" where
  "sample_rtt now requested_at h0 =
     (let h = h0\<lparr>sh_rtt_samples := push_sample (now, now - requested_at) (sh_rtt_samples h0)\<rparr>
      in if sh_unavailable h then h
         else case rtt_p95 (sh_rtt_samples h) RTT_P95_WINDOW now of
                None \<Rightarrow> h
              | Some p \<Rightarrow> if p > RTT_P95_LIMIT_MS then h\<lparr>sh_unavailable := True, sh_unavailable_since := Some now\<rparr> else h)"

text \<open>A chunk that is as planned: written, marked, and its request answered.\<close>

definition chunk_done :: "multi_env \<Rightarrow> rstring \<Rightarrow> nat \<Rightarrow> inflight_record \<Rightarrow> multi \<Rightarrow> multi" where
  "chunk_done env p i rec s0 =
     (let s1 = s0\<lparr>ms_in_flight := hm_remove i (ms_in_flight s0), ms_nak_counters := hm_remove (i, p) (ms_nak_counters s0),
                 ms_consecutive_stuck := hm_remove (i, p) (ms_consecutive_stuck s0)\<rparr>;
          s2 = ms_ack env p i (release_at p i s1);
          s3 = s2\<lparr>ms_verified_sources := hm_insert i p (ms_verified_sources s2)\<rparr>
      in at_source p (sample_rtt (ms_now s3) (ir_requested_at rec)) s3)"

definition store_chunk :: "multi_env \<Rightarrow> rstring \<Rightarrow> nat \<Rightarrow> planned_chunk \<Rightarrow> inflight_record \<Rightarrow> bytes \<Rightarrow> multi \<Rightarrow> handle_outcome run" where
  "store_chunk env p i expected rec bs s =
     on_ok (map_err (\<lambda>_. MsIo ''write'') (ms_on_disk (write_chunk_to_incomplete (se_root (me_session env)) (me_id env) i bs) s)) (\<lambda>_ s.
     on_ok (ms_stored (mark_chunk_verified (me_id env) i (pch_sha256 expected)) s) (\<lambda>_ s.
       (Inr (HoVerified i p), chunk_done env p i rec s)))"

definition ms_handle_chunk :: "multi_env \<Rightarrow> rstring \<Rightarrow> chunk_frame \<Rightarrow> multi \<Rightarrow> handle_outcome run" where
  "ms_handle_chunk env p chunk s =
     (let i = cf_chunk_index chunk
      in case hm_get (ms_in_flight s) i of
           None \<Rightarrow> (Inr HoDuplicate, ms_ack env p i s)
         | Some rec \<Rightarrow>
             if ir_peer_id rec \<noteq> p then (Inr (HoPeerMismatch p), ms_ack env p i s)
             else (case find (\<lambda>c. pch_index c = i) (dp_chunks (me_plan env)) of
                     None \<Rightarrow> (Inl (MsWire (Malformed ''chunk index out of range'')), s)
                   | Some expected \<Rightarrow>
                       (case se_b64_decode (me_session env) (cf_bytes_b64 chunk) of
                          None \<Rightarrow> (Inr (HoNakTrigger i p), s)
                        | Some bs \<Rightarrow>
                            if length bs \<noteq> pch_length expected then (Inr (HoNakTrigger i p), s)
                            else (case verify_chunk_sha256 (se_digests (me_session env)) bs (pch_sha256 expected) of
                                    Inl _ \<Rightarrow> (Inr (HoNakTrigger i p), s)
                                  | Inr _ \<Rightarrow> store_chunk env p i expected rec bs s))))"

definition ms_nak :: "multi_env \<Rightarrow> rstring \<Rightarrow> nat \<Rightarrow> multi \<Rightarrow> multi" where
  "ms_nak env p i s =
     (let sha = (case find (\<lambda>c. pch_index c = i) (dp_chunks (me_plan env)) of None \<Rightarrow> [] | Some c \<Rightarrow> pch_sha256 c)
      in snd (send_to env p (Nak \<lparr>nf_download_id = me_id env, nf_chunk_index = i, nf_expected_sha256 = sha\<rparr>) s))"

text \<open>A verified chunk counts; \<open>plan.chunks[index]\<close> is an index by position, which panics out of range.\<close>

definition on_verified :: "multi_env \<Rightarrow> nat \<Rightarrow> rstring \<Rightarrow> multi \<Rightarrow> unit run" where
  "on_verified env i p s0 =
     (let s = s0\<lparr>ms_have := List.insert i (ms_have s0)\<rparr>; plan = me_plan env
      in if i \<ge> length (dp_chunks plan) then (Inl MsPanic, s)
         else let bytes = min (saturating_add_u64 (ms_transferred s) (pch_length (dp_chunks plan ! i))) (dp_size_bytes plan);
                  s1 = s\<lparr>ms_transferred := bytes, ms_emitter := record_progress bytes (ms_emitter s)\<rparr>
              in (Inr (), if p \<noteq> sel_peer_id (dp_source plan) then snd (ms_stored (set_source_peer_id (me_id env) p) s1) else s1))"

text \<open>A bad chunk: counted, its request dropped so that it is asked for again, and refused when demoted.\<close>

definition drop_request :: "nat \<Rightarrow> rstring \<Rightarrow> multi \<Rightarrow> multi" where
  "drop_request i p s =
     (if hm_contains (ms_in_flight s) i then release_at p i (s\<lparr>ms_in_flight := hm_remove i (ms_in_flight s)\<rparr>) else s)"

definition on_bad_chunk :: "multi_env \<Rightarrow> nat \<Rightarrow> rstring \<Rightarrow> multi \<Rightarrow> unit run" where
  "on_bad_chunk env i p s =
     on_ok (apply_nak i p s) (\<lambda>_ s.
       let s1 = drop_request i p s
       in (Inr (), if p \<in> set (tried_of i s1) then ms_nak env p i s1 else s1))"

definition on_chunk :: "multi_env \<Rightarrow> rstring \<Rightarrow> chunk_frame \<Rightarrow> multi \<Rightarrow> unit run" where
  "on_chunk env p chunk s =
     on_ok (ms_handle_chunk env p chunk s) (\<lambda>outcome s.
       case outcome of
         HoVerified i p \<Rightarrow> on_verified env i p s
       | HoDuplicate \<Rightarrow> (Inr (), s)
       | HoNakTrigger i p \<Rightarrow> on_bad_chunk env i p s
       | HoPeerMismatch _ \<Rightarrow> (Inr (), s))"

section \<open>Asking for chunks\<close>

definition recover :: "nat \<Rightarrow> source_handle \<Rightarrow> source_handle" where
  "recover now h =
     (if sh_unavailable h
      then (case sh_unavailable_since h of
              Some since \<Rightarrow> if now - since \<ge> RTT_COOLDOWN then h\<lparr>sh_unavailable := False, sh_unavailable_since := None\<rparr> else h
            | None \<Rightarrow> h)
      else h)"

definition maybe_recover_sources :: "multi \<Rightarrow> multi" where
  "maybe_recover_sources s = s\<lparr>ms_sources := map (recover (ms_now s)) (ms_sources s)\<rparr>"

text \<open>
  One chunk to one source: a slot, the record, the request. \<open>Inr False\<close> is still waiting for the
  slot. A request that cannot be sent is taken back and ends the run.
\<close>

definition request_from :: "multi_env \<Rightarrow> nat \<Rightarrow> source_handle \<Rightarrow> multi \<Rightarrow> bool run" where
  "request_from env i h s =
     (let p = sh_peer_id h
      in case try_acquire_slot i (ms_polls s) (ms_now s) (sh_sched h) of
           (None, polls, now, w, _) \<Rightarrow> (Inr False, at_time now (s\<lparr>ms_polls := polls\<rparr>))
         | (Some (Inl e), polls, now, w, _) \<Rightarrow> (Inl (MsScheduler e), at_time now (s\<lparr>ms_polls := polls\<rparr>))
         | (Some (Inr _), polls, now, w, _) \<Rightarrow>
             (let s1 = at_source p (\<lambda>h. h\<lparr>sh_sched := w\<rparr>) (at_time now (s\<lparr>ms_polls := polls\<rparr>));
                  s2 = s1\<lparr>ms_in_flight := hm_insert i \<lparr>ir_peer_id = p, ir_requested_at = now\<rparr> (ms_in_flight s1)\<rparr>
              in case send_to env p (Request \<lparr>rf_download_id = me_id env, rf_chunk_index = i\<rparr>) s2 of
                   (Inl e, s3) \<Rightarrow> (let s4 = release_at p i s3 in (Inl e, s4\<lparr>ms_in_flight := hm_remove i (ms_in_flight s4)\<rparr>))
                 | (Inr _, s3) \<Rightarrow> (Inr True, s3)))"

fun dispatch :: "multi_env \<Rightarrow> nat list \<Rightarrow> multi \<Rightarrow> bool run" where
  "dispatch env [] s = (Inr True, s)"
| "dispatch env (i # rest) s =
     (if retries_of i s \<ge> MAX_CHUNK_RETRIES then (Inl (MsMaxRetriesExceeded i MAX_CHUNK_RETRIES), s)
      else case pick (ms_sources s) (tried_of i s) (ms_now s) of
             None \<Rightarrow>
               if ms_sources s \<noteq> [] \<and> list_all (\<lambda>h. sh_peer_id h \<in> set (tried_of i s)) (ms_sources s)
               then (Inl (MsAllSourcesExhausted i), s)
               else dispatch env rest s
           | Some h \<Rightarrow>
               (case request_from env i h s of
                  (Inl e, s1) \<Rightarrow> (Inl e, s1)
                | (Inr False, s1) \<Rightarrow> (Inr False, s1)
                | (Inr True, s1) \<Rightarrow>
                    if length (ms_in_flight s1) \<ge> WINDOW_SIZE then (Inr True, s1) else dispatch env rest s1))"

definition pending :: "multi_env \<Rightarrow> multi \<Rightarrow> nat list" where
  "pending env s = filter (\<lambda>i. \<not> hm_contains (ms_in_flight s) i \<and> i \<notin> set (ms_have s)) (map pch_index (dp_chunks (me_plan env)))"

definition refill :: "multi_env \<Rightarrow> multi \<Rightarrow> bool run" where
  "refill env s = (if length (ms_in_flight s) < WINDOW_SIZE then dispatch env (pending env s) s else (Inr True, s))"

definition stuck_now :: "multi \<Rightarrow> (nat \<times> rstring) list" where
  "stuck_now s = map (\<lambda>(i, rec). (i, ir_peer_id rec))
     (filter (\<lambda>(_, rec). ms_now s - ir_requested_at rec \<ge> STUCK_REQUEST_RETRY) (ms_in_flight s))"

text \<open>Requests without an answer are sent again; every third time in a row counts as a failure.\<close>

definition touch_request :: "nat \<Rightarrow> multi \<Rightarrow> multi" where
  "touch_request i s =
     (case hm_get (ms_in_flight s) i of
        None \<Rightarrow> s
      | Some rec \<Rightarrow> s\<lparr>ms_in_flight := hm_insert i (rec\<lparr>ir_requested_at := ms_now s\<rparr>) (ms_in_flight s)\<rparr>)"

fun nudge :: "multi_env \<Rightarrow> (nat \<times> rstring) list \<Rightarrow> multi \<Rightarrow> unit run" where
  "nudge env [] s = (Inr (), s)"
| "nudge env ((i, p) # rest) s =
     (case source_of p s of
        None \<Rightarrow> nudge env rest s
      | Some _ \<Rightarrow>
          (let s1 = touch_request i (snd (send_to env p (Request \<lparr>rf_download_id = me_id env, rf_chunk_index = i\<rparr>) s));
               s2 = s1\<lparr>ms_consecutive_stuck := count_up (i, p) (ms_consecutive_stuck s1)\<rparr>;
               count = (case hm_get (ms_consecutive_stuck s2) (i, p) of None \<Rightarrow> 0 | Some n \<Rightarrow> n)
           in if count \<ge> STUCK_REQUEST_DEMOTE_AFTER
              then on_ok (apply_nak i p (s2\<lparr>ms_consecutive_stuck := hm_remove (i, p) (ms_consecutive_stuck s2)\<rparr>)) (\<lambda>_ s.
                     nudge env rest s)
              else nudge env rest s2))"

section \<open>The end of a run\<close>

definition close_sources :: "multi \<Rightarrow> multi" where
  "close_sources s = s\<lparr>ms_sources := map (\<lambda>h. h\<lparr>sh_link := (sh_link h)\<lparr>lk_closed := True\<rparr>\<rparr>) (ms_sources s)\<rparr>"

definition ms_fail :: "rstring \<Rightarrow> multi \<Rightarrow> multi" where
  "ms_fail text s = close_sources (ms_report_end DsFailed (Some text) s)"

definition ms_after_assembly :: "multi_env \<Rightarrow> assemble_error + path \<times> rstring \<Rightarrow> multi \<Rightarrow> download_state run" where
  "ms_after_assembly env res s =
     (let did = me_id env
      in case res of
           Inr _ \<Rightarrow>
             on_ok (ms_stored (transition did DsComplete)
                     (snd (ms_on_disk (cleanup_incomplete (se_root (me_session env)) did) s))) (\<lambda>_ s.
               (Inr DsComplete, close_sources (ms_report_end DsComplete None s)))
         | Inl e \<Rightarrow>
             if e = ABlake3Mismatch
             then ms_with_message (ascii ''blake3 mismatch'') (\<lambda>text s.
               on_ok (ms_stored (set_last_error did text) s) (\<lambda>_ s.
               on_ok (ms_stored (transition did DsFailed) s) (\<lambda>_ s. (Inr DsFailed, ms_fail text s)))) s
             else ms_with_message (ascii ''assemble: '' @ se_display (me_session env) (SeAssemble e)) (\<lambda>text s.
               on_ok (ms_stored (transition did DsFailed) (snd (ms_stored (set_last_error did text) s))) (\<lambda>_ s.
                 (Inl (MsAssemble e), ms_fail text s))) s)"

definition ms_finish :: "multi_env \<Rightarrow> multi \<Rightarrow> download_state run" where
  "ms_finish env s =
     on_ok (ms_stored (transition (me_id env) DsVerifying) s) (\<lambda>_ s.
       case ms_on_disk (assemble_plan (me_session env)) (ms_report DsVerifying None s) of (res, s) \<Rightarrow> ms_after_assembly env res s)"

section \<open>The loop\<close>

text \<open>A turn ends by waiting for an event, by waiting for a slot, or with the run's result.\<close>

datatype turn = TurnWait | TurnBlocked | TurnReturn download_state

definition ms_loop_top :: "multi_env \<Rightarrow> multi \<Rightarrow> turn run" where
  "ms_loop_top env s =
     (if length (ms_have s) mod 2 ^ 32 \<ge> length (dp_chunks (me_plan env)) mod 2 ^ 32
      then on_ok (ms_finish env s) (\<lambda>st s. (Inr (TurnReturn st), s))
      else on_ok (refill env (maybe_recover_sources s)) (\<lambda>go s.
             if \<not> go then (Inr TurnBlocked, s)
             else on_ok (nudge env (stuck_now s) s) (\<lambda>_ s. (Inr TurnWait, s))))"

text \<open>What ends the wait: the token, the tick, a frame from a source, or the last source gone.\<close>

datatype multi_event = EvCancelled | EvTick | EvFrame rstring frame | EvAllGone

definition ms_receive :: "multi_env \<Rightarrow> multi_event \<Rightarrow> multi \<Rightarrow> turn run" where
  "ms_receive env ev s =
     (case ev of
        EvCancelled \<Rightarrow> (Inl MsCancelled, s)
      | EvAllGone \<Rightarrow> (Inl MsAllSourcesGone, s)
      | EvTick \<Rightarrow> ms_loop_top env s
      | EvFrame p (ChunkFrame chunk) \<Rightarrow> on_ok (on_chunk env p chunk s) (\<lambda>_ s. ms_loop_top env s)
      | EvFrame p (CancelFrame _) \<Rightarrow>
          (Inr (TurnReturn DsCancelled), snd (ms_stored (transition (me_id env) DsCancelled) (ms_report_end DsCancelled None s)))
      | EvFrame p (ErrorFrame e) \<Rightarrow>
          ms_with_message (ef_reason e) (\<lambda>text s.
            (Inl (MsIo ''peer error''), snd (ms_stored (set_last_error (me_id env) text) s))) s
      | EvFrame p (Nak nak) \<Rightarrow>
          on_ok (apply_nak (nf_chunk_index nak) p s) (\<lambda>_ s. ms_loop_top env (ms_nak env p (nf_chunk_index nak) s))
      | EvFrame p _ \<Rightarrow> ms_loop_top env s)"

text \<open>The frames one source's pump hands over, in order: it stops at the first failure to receive.\<close>

fun pump_source_frames :: "wire_json \<Rightarrow> received list \<Rightarrow> frame list" where
  "pump_source_frames wj [] = []"
| "pump_source_frames wj (Received bs # evs) =
     (case decode_frame wj bs of Inl _ \<Rightarrow> pump_source_frames wj evs | Inr (f, _) \<Rightarrow> f # pump_source_frames wj evs)"
| "pump_source_frames wj (_ # evs) = []"

text \<open>The greeting goes to every source; here a closed transport is an error like any other.\<close>

fun greet :: "frame \<Rightarrow> source_handle list \<Rightarrow> (multi_error + unit) \<times> source_handle list" where
  "greet f [] = (Inr (), [])"
| "greet f (h # hs) =
     (let lk = sh_link h;
          go = (\<lambda>outs. case greet f hs of (r, hs') \<Rightarrow> (r, h\<lparr>sh_link := lk\<lparr>lk_sends := outs, lk_sent := lk_sent lk @ [f]\<rparr>\<rparr> # hs'))
      in case lk_sends lk of
           [] \<Rightarrow> go []
         | SendOk # outs \<Rightarrow> go outs
         | SendCancelled # outs \<Rightarrow> (Inl MsCancelled, h\<lparr>sh_link := lk\<lparr>lk_sends := outs\<rparr>\<rparr> # hs)
         | SendError e # outs \<Rightarrow> (Inl (MsTransport e), h\<lparr>sh_link := lk\<lparr>lk_sends := outs\<rparr>\<rparr> # hs))"

definition ms_greet :: "multi_env \<Rightarrow> nat list \<Rightarrow> multi \<Rightarrow> unit run" where
  "ms_greet env have_chunks s =
     (let f = Hello (make_hello (me_session env) have_chunks)
      in case encode_frame (se_wire (me_session env)) f [] of
           Inl e \<Rightarrow> (Inl (MsWire e), s)
         | Inr _ \<Rightarrow> (case greet f (ms_sources s) of (r, hs) \<Rightarrow> (r, s\<lparr>ms_sources := hs\<rparr>)))"

definition held_bytes :: "multi_env \<Rightarrow> nat list \<Rightarrow> nat" where
  "held_bytes env have_chunks =
     min (sum_list (map pch_length (filter (\<lambda>c. pch_index c \<in> set have_chunks) (dp_chunks (me_plan env))))) (dp_size_bytes (me_plan env))"

definition ms_start :: "multi_env \<Rightarrow> multi \<Rightarrow> turn run" where
  "ms_start env s0 =
     (let did = me_id env;
          (current, s) = ms_stored (fetch_download did) (ms_report DsPending None s0);
          resumed = (case current of Inr d \<Rightarrow> dl_state d = DsTransferring \<or> dl_state d = DsVerifying | Inl _ \<Rightarrow> False)
      in on_ok (if resumed then (Inr (), s)
                else on_ok (ms_stored (transition did DsConnecting) s) (\<lambda>_ s.
                     on_ok (ms_stored (transition did DsTransferring) (ms_report DsConnecting None s)) (\<lambda>_ s.
                       (Inr (), ms_report DsTransferring None s)))) (\<lambda>_ s.
         on_ok (ms_stored (completed_chunk_indices did) s) (\<lambda>indices s.
         on_ok (ms_greet env indices s) (\<lambda>_ s.
         on_ok (ms_stored (completed_chunk_indices did) s) (\<lambda>indices s.
           ms_loop_top env (s\<lparr>ms_have := remdups indices, ms_transferred := held_bytes env indices\<rparr>))))))"

section \<open>The run as a machine\<close>

definition record_terminal_state_after_error :: "multi_env \<Rightarrow> multi_error \<Rightarrow> multi \<Rightarrow> unit run" where
  "record_terminal_state_after_error env err s =
     (case ms_stored (fetch_download (me_id env)) s of
        (r, s) \<Rightarrow>
          if (case r of Inr d \<Rightarrow> dl_state d \<in> {DsCancelled, DsFailed, DsComplete} | Inl _ \<Rightarrow> False) then (Inr (), s)
          else if err = MsCancelled
          then (Inr (), ms_report_end DsCancelled None (snd (ms_stored (transition (me_id env) DsCancelled) s)))
          else ms_with_message (me_display env err) (\<lambda>text s.
                 (Inr (), ms_report_end DsFailed (Some text)
                    (snd (ms_stored (transition (me_id env) DsFailed) (snd (ms_stored (set_last_error (me_id env) text) s)))))) s)"

definition discard_scratch_after_terminal_failure :: "multi_env \<Rightarrow> multi \<Rightarrow> multi" where
  "discard_scratch_after_terminal_failure env s =
     (case ms_stored (fetch_download (me_id env)) s of
        (r, s) \<Rightarrow>
          if (case r of Inr d \<Rightarrow> dl_state d \<in> {DsFailed, DsCancelled} | Inl _ \<Rightarrow> False)
          then snd (ms_on_disk (cleanup_incomplete (se_root (me_session env)) (me_id env)) s)
          else s)"

definition ms_settle :: "multi_env \<Rightarrow> turn run \<Rightarrow> multi" where
  "ms_settle env = (\<lambda>(r, s). case r of
       Inr TurnWait \<Rightarrow> s\<lparr>ms_phase := MsWaiting\<rparr>
     | Inr TurnBlocked \<Rightarrow> s\<lparr>ms_phase := MsBlocked\<rparr>
     | Inr (TurnReturn st) \<Rightarrow> (discard_scratch_after_terminal_failure env s)\<lparr>ms_phase := MsFinished (Inr st)\<rparr>
     | Inl e \<Rightarrow>
         if e = MsPanic then s\<lparr>ms_phase := MsFinished (Inl MsPanic)\<rparr>
         else (case record_terminal_state_after_error env e s of
            (Inl e', s) \<Rightarrow> s\<lparr>ms_phase := MsFinished (Inl e')\<rparr>
          | (Inr _, s) \<Rightarrow> (discard_scratch_after_terminal_failure env s)\<lparr>ms_phase := MsFinished (Inl e)\<rparr>))"

definition ms_init :: "multi_env \<Rightarrow> download_db \<Rightarrow> disk \<Rightarrow> source_handle list \<Rightarrow> poll list \<Rightarrow> nat \<Rightarrow> multi" where
  "ms_init env db dk sources polls now =
     ms_settle env (ms_start env
       \<lparr>ms_db = db, ms_disk = dk, ms_emitter = emitter_new now, ms_sources = sources, ms_in_flight = [],
        ms_chunk_retries = [], ms_chunk_tried = [], ms_nak_counters = [], ms_consecutive_stuck = [],
        ms_verified_sources = [], ms_have = [], ms_transferred = 0, ms_now = now, ms_polls = polls, ms_phase = MsWaiting\<rparr>)"

text \<open>An event comes with the time that has passed since the turn before.\<close>

definition ms_step :: "multi_env \<Rightarrow> multi \<Rightarrow> nat \<times> multi_event \<Rightarrow> multi" where
  "ms_step env s0 = (\<lambda>(dt, ev).
     case ms_phase s0 of
       MsWaiting \<Rightarrow> ms_settle env (ms_receive env ev (at_time (ms_now s0 + dt) s0))
     | _ \<Rightarrow> s0)"

definition run_multi_source ::
    "multi_env \<Rightarrow> download_db \<Rightarrow> disk \<Rightarrow> source_handle list \<Rightarrow> poll list \<Rightarrow> nat \<Rightarrow> (nat \<times> multi_event) list \<Rightarrow> multi" where
  "run_multi_source env db dk sources polls now events = foldl (ms_step env) (ms_init env db dk sources polls now) events"

end
