(* ===== verification/MultiSafety.thy ===== *)
theory MultiSafety
  imports MultiSource
begin

text \<open>
  What a download from several sources can do to the library, whatever the sources send: the same
  as one from a single source.
\<close>

section \<open>What touches the disk\<close>

definition ms_completed :: "multi_env \<Rightarrow> multi \<Rightarrow> bool" where
  "ms_completed env s \<longleftrightarrow> (\<exists>p bs. target (me_session env) p \<and> hm_get (dk_files (ms_disk s)) p = Some bs \<and> as_planned (me_session env) bs)
     \<and> map_option dl_state (hm_get (dd_downloads (ms_db s)) (me_id env)) = Some DsComplete"

lemma snd_map_err [simp]: "snd (map_err f r) = snd r"
  by (cases r) (simp add: map_err_def split: sum.splits)

lemma at_source_same [simp]: "ms_disk (at_source p f s) = ms_disk s" "ms_db (at_source p f s) = ms_db s"
  "ms_in_flight (at_source p f s) = ms_in_flight s" "ms_have (at_source p f s) = ms_have s" "ms_now (at_source p f s) = ms_now s"
  "ms_polls (at_source p f s) = ms_polls s" "ms_chunk_retries (at_source p f s) = ms_chunk_retries s"
  "ms_chunk_tried (at_source p f s) = ms_chunk_tried s" "ms_nak_counters (at_source p f s) = ms_nak_counters s"
  "ms_consecutive_stuck (at_source p f s) = ms_consecutive_stuck s"
  by (simp_all add: at_source_def)

lemma at_time_same [simp]: "ms_disk (at_time now s) = ms_disk s" "ms_db (at_time now s) = ms_db s" "ms_sources (at_time now s) = ms_sources s"
  "ms_in_flight (at_time now s) = ms_in_flight s" "ms_have (at_time now s) = ms_have s" "ms_now (at_time now s) = now"
  "ms_polls (at_time now s) = ms_polls s" "ms_chunk_retries (at_time now s) = ms_chunk_retries s"
  "ms_chunk_tried (at_time now s) = ms_chunk_tried s" "ms_nak_counters (at_time now s) = ms_nak_counters s"
  "ms_consecutive_stuck (at_time now s) = ms_consecutive_stuck s"
  by (simp_all add: at_time_def)

lemma release_at_disk [simp]: "ms_disk (release_at p i s) = ms_disk s" "ms_db (release_at p i s) = ms_db s"
  by (simp_all add: release_at_def)

lemma send_to_disk [simp]: "ms_disk (snd (send_to env p f s)) = ms_disk s" "ms_db (snd (send_to env p f s)) = ms_db s"
  by (simp_all add: send_to_def case_prod_beta split: option.splits)

lemma ms_disk_simps [simp]:
  "ms_disk (snd (ms_stored f s)) = ms_disk s" "ms_disk (ms_report st m s) = ms_disk s" "ms_disk (ms_report_end st m s) = ms_disk s"
  "ms_disk (close_sources s) = ms_disk s" "ms_disk (ms_fail t s) = ms_disk s" "ms_disk (ms_ack env p i s) = ms_disk s"
  "ms_disk (ms_nak env p i s) = ms_disk s" "ms_disk (maybe_recover_sources s) = ms_disk s" "ms_disk (touch_request i s) = ms_disk s"
  "ms_disk (drop_request i p s) = ms_disk s" "ms_disk (demote i p s) = ms_disk s" "ms_disk (snd (apply_nak i p s)) = ms_disk s"
  by (simp_all add: ms_stored_def case_prod_beta ms_report_def ms_report_end_def close_sources_def ms_fail_def ms_ack_def ms_nak_def
      maybe_recover_sources_def touch_request_def drop_request_def demote_def apply_nak_def Let_def split: option.splits)

lemma request_from_disk: "ms_disk (snd (request_from env i h s)) = ms_disk s"
proof -
  have "send_to env p f s1 = (r, s2) \<Longrightarrow> ms_disk s2 = ms_disk s1" for p f s1 r s2 by (metis send_to_disk(1) snd_conv)
  then show ?thesis by (auto simp: request_from_def Let_def split: prod.splits option.splits sum.splits)
qed

lemma dispatch_disk: "ms_disk (snd (dispatch env is s)) = ms_disk s"
proof (induction "is" arbitrary: s)
  case (Cons i "is")
  have "request_from env i h s = (r, s1) \<Longrightarrow> ms_disk s1 = ms_disk s" for h r s1 by (metis request_from_disk snd_conv)
  with Cons show ?case by (auto split: option.splits prod.splits sum.splits bool.splits)
qed simp

lemma refill_disk [simp]: "ms_disk (snd (refill env s)) = ms_disk s"
  by (simp add: refill_def dispatch_disk)

lemma on_ok_same:
  assumes "g (snd r) = g s0" and "\<And>a s. r = (Inr a, s) \<Longrightarrow> g (snd (k a s)) = g s"
  shows "g (snd (on_ok r k)) = g s0"
  using assms by (cases r) (auto simp: on_ok_def split: sum.splits)

lemma nudge_disk [simp]: "ms_disk (snd (nudge env xs s)) = ms_disk s"
proof (induction xs arbitrary: s)
  case (Cons x xs)
  obtain i p where x: "x = (i, p)" by (cases x)
  have nak: "ms_disk (snd (on_ok (apply_nak i p s1) (\<lambda>_. nudge env xs))) = ms_disk s1" for s1
    by (rule on_ok_same [where g = ms_disk]) (simp_all add: Cons.IH)
  show ?case using Cons.IH by (simp add: x Let_def nak split: option.splits)
qed simp

section \<open>Library safety\<close>

lemma on_ok_ms [lib_safe]:
  assumes "library_safe e dk (ms_disk (snd r))" and "\<And>a s. r = (Inr a, s) \<Longrightarrow> library_safe e (ms_disk s) (ms_disk (snd (k a s)))"
  shows "library_safe e dk (ms_disk (snd (on_ok r k)))"
  using assms by (cases r) (auto simp: on_ok_def split: sum.splits intro: library_safe_trans)

lemma ms_with_message_lib [lib_safe]:
  "(\<And>t. library_safe e dk (ms_disk (snd (k t s)))) \<Longrightarrow> library_safe e dk (ms_disk s) \<Longrightarrow>
     library_safe e dk (ms_disk (snd (ms_with_message msg k s)))"
  by (simp add: ms_with_message_def split: option.splits)

lemma ms_write_lib: "library_safe (me_session env) (ms_disk s)
    (ms_disk (snd (map_err g (ms_on_disk (write_chunk_to_incomplete (se_root (me_session env)) did i bs) s))))"
  using write_chunk_lib [of "me_session env" "ms_disk s"] by (simp add: ms_on_disk_def case_prod_beta)

lemma ms_cleanup_lib: "library_safe e (ms_disk s) (ms_disk (snd (ms_on_disk (cleanup_incomplete (se_root e) did) s)))"
  using tmp_library_safe [OF cleanup_writes [of "se_root e" "ms_disk s" did]] by (simp add: ms_on_disk_def case_prod_beta)

lemma ms_cleanup_keeps:
  assumes "target e p"
  shows "hm_get (dk_files (ms_disk (snd (ms_on_disk (cleanup_incomplete (se_root e) did) s)))) p = hm_get (dk_files (ms_disk s)) p"
proof -
  have "in_library (se_root e) p" using assms by (auto simp: target_def content_path_library)
  then have "\<not> in_tmp (se_root e) p" using tmp_not_library by blast
  with cleanup_writes [of "se_root e" "ms_disk s" did] show ?thesis by (simp add: ms_on_disk_def same_except_def case_prod_beta)
qed

text \<open>Assembly on the orchestrator's disk is assembly on a receiver's.\<close>

definition as_receiver :: "multi \<Rightarrow> receiver" where
  "as_receiver s = \<lparr>rv_db = ms_db s, rv_disk = ms_disk s, rv_link = \<lparr>lk_sends = [], lk_sent = [], lk_closed = False\<rparr>,
     rv_emitter = ms_emitter s, rv_have = [], rv_to_request = [], rv_in_flight = [], rv_verified = [], rv_transferred = 0,
     rv_phase = AwaitOffer\<rparr>"

lemma ms_assemble_lib:
  assumes "ms_on_disk (assemble_plan e) s = (r, s')"
  shows "library_safe e (ms_disk s) (ms_disk s')"
    and "r = Inr x \<Longrightarrow> \<exists>p bs. target e p \<and> hm_get (dk_files (ms_disk s')) p = Some bs \<and> as_planned e bs"
proof -
  have run: "on_disk (assemble_plan e) (as_receiver s) = (r, (as_receiver s)\<lparr>rv_disk := ms_disk s'\<rparr>)"
    using assms by (auto simp: ms_on_disk_def on_disk_def as_receiver_def split: prod.splits)
  show "library_safe e (ms_disk s) (ms_disk s')" using assemble_lib(1) [OF run] by (simp add: as_receiver_def)
  show "\<exists>p bs. target e p \<and> hm_get (dk_files (ms_disk s')) p = Some bs \<and> as_planned e bs" if "r = Inr x"
    using assemble_lib(2) [OF run that] by simp
qed

lemma ms_after_assembly_lib: "library_safe (me_session env) (ms_disk s) (ms_disk (snd (ms_after_assembly env res s)))"
  unfolding ms_after_assembly_def Let_def
  by (auto split: sum.splits intro!: ms_with_message_lib on_ok_ms simp: ms_cleanup_lib)

lemma ms_finish_lib [lib_safe]: "library_safe (me_session env) (ms_disk s) (ms_disk (snd (ms_finish env s)))"
proof -
  have "library_safe (me_session env) (ms_disk s1) (ms_disk (snd (case ms_on_disk (assemble_plan (me_session env)) (ms_report DsVerifying None s1) of
      (res, s) \<Rightarrow> ms_after_assembly env res s)))" for s1
    using ms_assemble_lib(1) [of "me_session env" "ms_report DsVerifying None s1"] library_safe_trans [OF _ ms_after_assembly_lib]
    by (auto split: prod.splits)
  then show ?thesis unfolding ms_finish_def by (intro on_ok_ms) simp_all
qed

lemma ms_loop_top_lib [lib_safe]: "library_safe (me_session env) (ms_disk s) (ms_disk (snd (ms_loop_top env s)))"
proof -
  have "library_safe (me_session env) (ms_disk s1) (ms_disk (snd (on_ok (nudge env xs s1) (\<lambda>_ s. (Inr TurnWait, s)))))" for s1 xs
    by (rule on_ok_ms) simp_all
  then show ?thesis unfolding ms_loop_top_def by (auto intro!: on_ok_ms ms_finish_lib)
qed

lemma store_chunk_lib: "library_safe (me_session env) (ms_disk s) (ms_disk (snd (store_chunk env p i expected rec bs s)))"
  unfolding store_chunk_def by (intro on_ok_ms ms_write_lib) (simp_all add: chunk_done_def Let_def)

lemma ms_handle_chunk_lib: "library_safe (me_session env) (ms_disk s) (ms_disk (snd (ms_handle_chunk env p chunk s)))"
  unfolding ms_handle_chunk_def Let_def by (auto split: option.splits sum.splits simp: store_chunk_lib)

lemma on_chunk_lib: "library_safe (me_session env) (ms_disk s) (ms_disk (snd (on_chunk env p chunk s)))"
proof -
  have verified: "ms_disk (snd (on_verified env i q s1)) = ms_disk s1" for i q s1
    by (simp add: on_verified_def Let_def)
  have bad: "ms_disk (snd (on_bad_chunk env i q s1)) = ms_disk s1" for i q s1
    unfolding on_bad_chunk_def by (rule on_ok_same [where g = ms_disk]) (simp_all add: Let_def)
  show ?thesis unfolding on_chunk_def
    by (rule on_ok_ms [OF ms_handle_chunk_lib]) (auto simp: verified bad split: handle_outcome.splits)
qed

lemma ms_receive_lib: "library_safe (me_session env) (ms_disk s) (ms_disk (snd (ms_receive env ev s)))"
  unfolding ms_receive_def
  by (auto split: multi_event.splits frame.splits intro!: ms_loop_top_lib on_ok_ms on_chunk_lib ms_with_message_lib)
    (use ms_loop_top_lib [of env "ms_nak env _ _ _"] in simp)

lemma ms_greet_disk [simp]: "ms_disk (snd (ms_greet env have s)) = ms_disk s"
  by (simp add: ms_greet_def Let_def split: sum.splits prod.splits)

lemma ms_start_lib: "library_safe (me_session env) (ms_disk s) (ms_disk (snd (ms_start env s)))"
proof -
  obtain r s1 where f: "ms_stored (fetch_download (me_id env)) (ms_report DsPending None s) = (r, s1)" by fastforce
  have s1: "ms_disk s1 = ms_disk s" using ms_disk_simps(1) [of "fetch_download (me_id env)" "ms_report DsPending None s"] f by simp
  have top: "library_safe (me_session env) (ms_disk s2) (ms_disk (snd (ms_loop_top env (s2\<lparr>ms_have := a, ms_transferred := b\<rparr>))))" for s2 a b
    using ms_loop_top_lib [of env "s2\<lparr>ms_have := a, ms_transferred := b\<rparr>"] by simp
  show ?thesis unfolding ms_start_def Let_def f using s1
    by (auto split: sum.splits intro!: on_ok_ms top)
qed

section \<open>What completion means\<close>

lemma ms_stored_Inr: "ms_stored f s = (Inr a, s') \<Longrightarrow> \<exists>db. f (ms_db s) = (Inr a, db) \<and> s' = s\<lparr>ms_db := db\<rparr>"
  by (auto simp: ms_stored_def map_err_def split: prod.splits sum.splits)

lemma ms_completed_more [simp]: "ms_completed env (close_sources s) = ms_completed env s"
  "ms_completed env (ms_report_end st m s) = ms_completed env s" "ms_completed env (s\<lparr>ms_phase := ph\<rparr>) = ms_completed env s"
  by (simp_all add: ms_completed_def close_sources_def ms_report_end_def)

lemma ms_after_assembly_completes:
  assumes "ms_after_assembly env res s = (Inr DsComplete, s')"
  shows "(\<exists>x. res = Inr x) \<and> (\<exists>db. map_option dl_state (hm_get (dd_downloads db) (me_id env)) = Some DsComplete
    \<and> ms_completed env s' = ms_completed env ((snd (ms_on_disk (cleanup_incomplete (se_root (me_session env)) (me_id env)) s))\<lparr>ms_db := db\<rparr>))"
proof -
  from assms obtain x where res: "res = Inr x"
    by (auto simp: ms_after_assembly_def Let_def on_ok_Inr ms_with_message_def split: sum.splits option.splits if_splits)
  from assms obtain s1 where "ms_stored (transition (me_id env) DsComplete)
      (snd (ms_on_disk (cleanup_incomplete (se_root (me_session env)) (me_id env)) s)) = (Inr (), s1)"
      "s' = close_sources (ms_report_end DsComplete None s1)"
    by (auto simp: res ms_after_assembly_def Let_def on_ok_Inr)
  with ms_stored_Inr [OF this(1)] transition_Inr res show ?thesis by fastforce
qed

lemma ms_finish_completes:
  assumes "ms_finish env s = (Inr DsComplete, s')"
  shows "ms_completed env s'"
proof -
  let ?e = "me_session env"
  from assms obtain s1 res s2 where a: "ms_on_disk (assemble_plan ?e) s1 = (res, s2)"
    and rest: "ms_after_assembly env res s2 = (Inr DsComplete, s')"
    by (auto simp: ms_finish_def on_ok_Inr case_prod_beta) (metis surjective_pairing)
  from ms_after_assembly_completes [OF rest] obtain x db where res: "res = Inr x"
    and db: "map_option dl_state (hm_get (dd_downloads db) (me_id env)) = Some DsComplete"
    and s': "ms_completed env s' = ms_completed env ((snd (ms_on_disk (cleanup_incomplete (se_root ?e) (me_id env)) s2))\<lparr>ms_db := db\<rparr>)" by blast
  from ms_assemble_lib(2) [OF a res] obtain p bs where "target ?e p" "hm_get (dk_files (ms_disk s2)) p = Some bs" "as_planned ?e bs" by blast
  with ms_cleanup_keeps [of ?e p "me_id env" s2] db show ?thesis unfolding s' by (auto simp: ms_completed_def)
qed

lemma ms_loop_top_completes: "ms_loop_top env s = (Inr (TurnReturn st), s') \<Longrightarrow> st = DsComplete \<Longrightarrow> ms_completed env s'"
  by (auto simp: ms_loop_top_def on_ok_Inr split: if_splits dest: ms_finish_completes)

lemma ms_receive_completes: "ms_receive env ev s = (Inr (TurnReturn DsComplete), s') \<Longrightarrow> ms_completed env s'"
  by (auto simp: ms_receive_def on_ok_Inr ms_with_message_def split: multi_event.splits frame.splits option.splits
      dest: ms_loop_top_completes)

lemma ms_start_completes: "ms_start env s = (Inr (TurnReturn DsComplete), s') \<Longrightarrow> ms_completed env s'"
  by (auto simp: ms_start_def Let_def on_ok_Inr split: prod.splits dest: ms_loop_top_completes)

section \<open>The machine\<close>

definition multi_safe :: "multi_env \<Rightarrow> disk \<Rightarrow> multi \<Rightarrow> bool" where
  "multi_safe env dk s \<longleftrightarrow> library_safe (me_session env) dk (ms_disk s) \<and> (ms_phase s = MsFinished (Inr DsComplete) \<longrightarrow> ms_completed env s)"

lemma discard_lib: "library_safe (me_session env) (ms_disk s) (ms_disk (discard_scratch_after_terminal_failure env s))"
proof -
  obtain r s1 where f: "ms_stored (fetch_download (me_id env)) s = (r, s1)" by fastforce
  have "ms_disk s1 = ms_disk s" using ms_disk_simps(1) [of "fetch_download (me_id env)" s] f by simp
  then show ?thesis using ms_cleanup_lib [of "me_session env" s1 "me_id env"] by (simp add: discard_scratch_after_terminal_failure_def f)
qed

lemma discard_keeps:
  assumes "ms_completed env s"
  shows "ms_completed env (discard_scratch_after_terminal_failure env s)"
proof -
  obtain r s1 where f: "ms_stored (fetch_download (me_id env)) s = (r, s1)" by fastforce
  then have disk: "ms_disk s1 = ms_disk s" using ms_disk_simps(1) [of "fetch_download (me_id env)" s] by simp
  have "dd_downloads (snd (fetch_download (me_id env) db)) = dd_downloads db" for db
    by (auto simp: fetch_download_def fetch_row_def sql_def Let_def split: list.splits option.splits)
  then have db: "dd_downloads (ms_db s1) = dd_downloads (ms_db s)" using f
    by (auto simp: ms_stored_def map_err_def split: prod.splits sum.splits) (metis snd_conv)+
  show ?thesis
    using assms disk db ms_cleanup_keeps [of "me_session env" _ "me_id env" s1]
    by (auto simp: discard_scratch_after_terminal_failure_def f ms_completed_def ms_on_disk_def case_prod_beta)
qed

lemma record_terminal_disk: "record_terminal_state_after_error env e s = (r, s') \<Longrightarrow> ms_disk s' = ms_disk s"
proof -
  assume r: "record_terminal_state_after_error env e s = (r, s')"
  obtain q s1 where f: "ms_stored (fetch_download (me_id env)) s = (q, s1)" by fastforce
  then have "ms_disk s1 = ms_disk s" using ms_disk_simps(1) [of "fetch_download (me_id env)" s] by simp
  with r show ?thesis
    by (auto simp: record_terminal_state_after_error_def f ms_with_message_def split: if_splits option.splits)
qed

lemma ms_settle_safe:
  assumes "library_safe (me_session env) dk (ms_disk (snd r))" and "\<And>s'. r = (Inr (TurnReturn DsComplete), s') \<Longrightarrow> ms_completed env s'"
  shows "multi_safe env dk (ms_settle env r)"
proof -
  obtain q s where r: "r = (q, s)" by (cases r)
  show ?thesis
  proof (cases q)
    case (Inl e)
    have "library_safe (me_session env) dk (ms_disk s')" "library_safe (me_session env) dk (ms_disk (discard_scratch_after_terminal_failure env s'))"
      if "record_terminal_state_after_error env e s = (x, s')" for x s'
      using assms(1) library_safe_trans [OF _ discard_lib] record_terminal_disk [OF that] by (simp_all add: r)
    with assms(1) show ?thesis by (auto simp: ms_settle_def r Inl multi_safe_def split: prod.splits sum.splits)
  next
    case (Inr t)
    with assms library_safe_trans [OF _ discard_lib] discard_keeps show ?thesis
      by (cases t) (auto simp: ms_settle_def r multi_safe_def)
  qed
qed

lemma ms_step_safe: "multi_safe env dk s \<Longrightarrow> multi_safe env dk (ms_step env s ev)"
proof -
  assume inv: "multi_safe env dk s"
  obtain dt e where ev: "ev = (dt, e)" by (cases ev)
  let ?s = "at_time (ms_now s + dt) s"
  have "library_safe (me_session env) dk (ms_disk (snd (ms_receive env e ?s)))"
    using inv ms_receive_lib [of env ?s e] library_safe_trans by (fastforce simp: multi_safe_def)
  then have "multi_safe env dk (ms_settle env (ms_receive env e ?s))" by (rule ms_settle_safe) (rule ms_receive_completes)
  with inv show ?thesis by (simp add: ms_step_def ev split: multi_phase.split)
qed

interpretation multi_running: invariant_machine "ms_step env" "multi_safe env dk" for env dk
  by unfold_locales (rule ms_step_safe)

section \<open>Property\<close>

text \<open>
  C24: whatever the sources send, and whatever fails on the wire, in the store or in the file system, a
  download from several sources changes nothing in the library but the one file of its plan, and
  that only to bytes of the declared length with both declared digests; when it reports complete,
  the file is there and the row is complete.
\<close>

theorem multi_source_never_corrupts:
  "let s = run_multi_source env db dk sources polls now events
   in library_safe (me_session env) dk (ms_disk s)
      \<and> (case ms_phase s of MsFinished (Inr DsComplete) \<Rightarrow> ms_completed env s | _ \<Rightarrow> True)"
proof -
  let ?s = "\<lparr>ms_db = db, ms_disk = dk, ms_emitter = emitter_new now, ms_sources = sources, ms_in_flight = [],
        ms_chunk_retries = [], ms_chunk_tried = [], ms_nak_counters = [], ms_consecutive_stuck = [],
        ms_verified_sources = [], ms_have = [], ms_transferred = 0, ms_now = now, ms_polls = polls, ms_phase = MsWaiting\<rparr>"
  have "multi_safe env dk (ms_init env db dk sources polls now)"
    unfolding ms_init_def by (rule ms_settle_safe) (use ms_start_lib [of env ?s] in simp, rule ms_start_completes)
  from multi_running.run_inv [OF this, of events] show ?thesis
    unfolding run_multi_source_def Let_def multi_safe_def
    by (auto split: multi_phase.split sum.split download_state.split)
qed

end
