(* ===== verification/MultiBounds.thy ===== *)
theory MultiBounds
  imports MultiSafety Delivery
begin

text \<open>
  The bookkeeping of a download from several sources: the window, the slots at each source and the
  failure counters agree in every state in which the run waits; and silence ends a run.
\<close>

section \<open>The invariant\<close>

definition slots_at :: "(nat, inflight_record) hashmap \<Rightarrow> rstring \<Rightarrow> nat set" where
  "slots_at fl p = {i. map_option ir_peer_id (hm_get fl i) = Some p}"

definition source_ok :: "nat \<Rightarrow> (nat, inflight_record) hashmap \<Rightarrow> source_handle \<Rightarrow> bool" where
  "source_ok now fl h \<longleftrightarrow> distinct (sd_in_flight (sh_sched h)) \<and> set (sd_in_flight (sh_sched h)) = slots_at fl (sh_peer_id h)
     \<and> (case sh_unavailable_since h of Some t \<Rightarrow> t \<le> now | None \<Rightarrow> True)"

definition sources_ok :: "multi \<Rightarrow> bool" where
  "sources_ok s \<longleftrightarrow> ms_sources s \<noteq> [] \<and> distinct (map sh_peer_id (ms_sources s)) \<and> (\<forall>h \<in> set (ms_sources s). source_ok (ms_now s) (ms_in_flight s) h)"

definition flight_ok :: "multi_env \<Rightarrow> multi \<Rightarrow> bool" where
  "flight_ok env s \<longleftrightarrow> hm_wf (ms_in_flight s) \<and> length (ms_in_flight s) \<le> WINDOW_SIZE
     \<and> (\<forall>(i, rec) \<in> set (ms_in_flight s). ir_peer_id rec \<in> sh_peer_id ` set (ms_sources s)
          \<and> i \<in> pch_index ` set (dp_chunks (me_plan env)) \<and> i \<notin> set (ms_have s) \<and> ir_requested_at rec \<le> ms_now s)"

definition stuck_of :: "nat \<Rightarrow> rstring \<Rightarrow> multi \<Rightarrow> nat" where
  "stuck_of i p s = (case hm_get (ms_consecutive_stuck s) (i, p) of None \<Rightarrow> 0 | Some n \<Rightarrow> n)"

definition counters_ok :: "multi \<Rightarrow> bool" where
  "counters_ok s \<longleftrightarrow> (\<forall>i. retries_of i s < MAX_CHUNK_RETRIES) \<and> (\<forall>i p. naks_of i p s < NAK_THRESHOLD)
     \<and> (\<forall>i p. stuck_of i p s < STUCK_REQUEST_DEMOTE_AFTER)"

definition ms_ok :: "multi_env \<Rightarrow> multi \<Rightarrow> bool" where
  "ms_ok env s \<longleftrightarrow> sources_ok s \<and> flight_ok env s \<and> counters_ok s"

lemmas ms_ok_defs = ms_ok_def sources_ok_def flight_ok_def counters_ok_def retries_of_def naks_of_def stuck_of_def

lemmas multi_constants = MAX_CHUNK_RETRIES_def NAK_THRESHOLD_def STUCK_REQUEST_DEMOTE_AFTER_def WINDOW_SIZE_def

lemma ms_ok_same:
  assumes "ms_ok env s" and "ms_sources s' = ms_sources s" "ms_now s' = ms_now s" "ms_in_flight s' = ms_in_flight s"
    "ms_have s' = ms_have s" "ms_chunk_retries s' = ms_chunk_retries s" "ms_nak_counters s' = ms_nak_counters s"
    "ms_consecutive_stuck s' = ms_consecutive_stuck s"
  shows "ms_ok env s'"
  using assms by (simp add: ms_ok_defs)

section \<open>Changing one source\<close>

lemma update_first_map:
  "distinct (map g xs) \<Longrightarrow> update_first (\<lambda>x. g x = p) f xs = map (\<lambda>x. if g x = p then f x else x) xs"
  by (induction xs) (auto intro!: map_idI [symmetric] simp: image_iff)

lemma at_source_map: "distinct (map sh_peer_id (ms_sources s)) \<Longrightarrow>
    ms_sources (at_source p f s) = map (\<lambda>h. if sh_peer_id h = p then f h else h) (ms_sources s)"
  by (simp add: at_source_def update_first_map)

lemma at_source_peers: "(\<And>h. sh_peer_id (f h) = sh_peer_id h) \<Longrightarrow>
    map sh_peer_id (ms_sources (at_source p f s)) = map sh_peer_id (ms_sources s)"
  by (simp add: at_source_def map_update_first)

lemma ms_okI:
  assumes "ms_ok env s" and "map sh_peer_id (ms_sources s') = map sh_peer_id (ms_sources s)"
    and "\<And>h. h \<in> set (ms_sources s') \<Longrightarrow> source_ok (ms_now s') (ms_in_flight s') h"
    and "hm_wf (ms_in_flight s')" "length (ms_in_flight s') \<le> WINDOW_SIZE"
    and "\<And>i rec. (i, rec) \<in> set (ms_in_flight s') \<Longrightarrow> ir_peer_id rec \<in> sh_peer_id ` set (ms_sources s)
      \<and> i \<in> pch_index ` set (dp_chunks (me_plan env)) \<and> i \<notin> set (ms_have s') \<and> ir_requested_at rec \<le> ms_now s'"
    and "counters_ok s'"
  shows "ms_ok env s'"
proof -
  have "sh_peer_id ` set (ms_sources s') = sh_peer_id ` set (ms_sources s)" using assms(2) by (metis list.set_map)
  moreover have "ms_sources s' \<noteq> []" using assms(1,2) by (auto simp: ms_ok_def sources_ok_def)
  ultimately show ?thesis using assms by (auto simp: ms_ok_def sources_ok_def flight_ok_def)
qed

lemma ms_okD:
  assumes "ms_ok env s"
  shows "distinct (map sh_peer_id (ms_sources s))" "h \<in> set (ms_sources s) \<Longrightarrow> source_ok (ms_now s) (ms_in_flight s) h"
    "hm_wf (ms_in_flight s)" "length (ms_in_flight s) \<le> WINDOW_SIZE" "counters_ok s"
    "(i, rec) \<in> set (ms_in_flight s) \<Longrightarrow> ir_peer_id rec \<in> sh_peer_id ` set (ms_sources s)
      \<and> i \<in> pch_index ` set (dp_chunks (me_plan env)) \<and> i \<notin> set (ms_have s) \<and> ir_requested_at rec \<le> ms_now s"
  using assms by (auto simp: ms_ok_def sources_ok_def flight_ok_def)

lemma counters_ok_more [simp]: "counters_ok (at_source p f s) = counters_ok s" "counters_ok (at_time now s) = counters_ok s"
  "counters_ok (s\<lparr>ms_in_flight := fl\<rparr>) = counters_ok s" "counters_ok (release_at p i s) = counters_ok s"
  by (simp_all add: counters_ok_def retries_of_def naks_of_def stuck_of_def release_at_def)

lemma release_at_more [simp]: "ms_in_flight (release_at p i s) = ms_in_flight s" "ms_have (release_at p i s) = ms_have s"
  "ms_now (release_at p i s) = ms_now s" "ms_polls (release_at p i s) = ms_polls s"
  by (simp_all add: release_at_def)

lemma at_source_ok:
  assumes ok: "ms_ok env s" and f: "\<And>h. sh_peer_id (f h) = sh_peer_id h" "\<And>h. sh_sched (f h) = sh_sched h"
    and since: "\<And>h. sh_unavailable_since (f h) = sh_unavailable_since h \<or> sh_unavailable_since (f h) = Some (ms_now s)"
  shows "ms_ok env (at_source p f s)"
proof -
  have "source_ok (ms_now s) (ms_in_flight s) (f h)" if "source_ok (ms_now s) (ms_in_flight s) h" for h
    using that since [of h] by (auto simp: source_ok_def f)
  then have all: "source_ok (ms_now s) (ms_in_flight s) h" if "h \<in> set (ms_sources (at_source p f s))" for h
    using that ms_okD(1,2) [OF ok] by (auto simp: at_source_map split: if_splits)
  show ?thesis by (rule ms_okI [OF ok]) (use ms_okD [OF ok] all in \<open>simp_all add: at_source_peers f\<close>)
qed

lemma send_to_ok: "ms_ok env s \<Longrightarrow> ms_ok env (snd (send_to env' p f s))"
  by (auto simp: send_to_def case_prod_beta intro!: at_source_ok split: option.splits)

lemma ms_ack_ok: "ms_ok env s \<Longrightarrow> ms_ok env (ms_ack env' p i s)"
  by (simp add: ms_ack_def send_to_ok)

lemma ms_nak_ok: "ms_ok env s \<Longrightarrow> ms_ok env (ms_nak env' p i s)"
  by (simp add: ms_nak_def send_to_ok)

text \<open>A request leaves the window and its slot together.\<close>

lemma slots_at_remove: "slots_at (hm_remove i fl) p = slots_at fl p - {i}"
  by (auto simp: slots_at_def)

lemma drop_flight_ok:
  assumes ok: "ms_ok env s" and i: "map_option ir_peer_id (hm_get (ms_in_flight s) i) = Some p"
  shows "ms_ok env (release_at p i (s\<lparr>ms_in_flight := hm_remove i (ms_in_flight s)\<rparr>))"
proof -
  let ?fl = "hm_remove i (ms_in_flight s)"
  have here: "source_ok (ms_now s) ?fl (h\<lparr>sh_sched := release_slot i (sh_sched h)\<rparr>)" if "source_ok (ms_now s) (ms_in_flight s) h" for h
    using that by (auto simp: source_ok_def slots_at_remove)
  have there: "source_ok (ms_now s) ?fl h" if "source_ok (ms_now s) (ms_in_flight s) h" "sh_peer_id h \<noteq> p" for h
  proof -
    have "i \<notin> slots_at (ms_in_flight s) (sh_peer_id h)" using that(2) i by (auto simp: slots_at_def)
    with that show ?thesis by (auto simp: source_ok_def slots_at_remove)
  qed
  have len: "length ?fl \<le> WINDOW_SIZE" using ms_okD(4) [OF ok] length_delete_le [of i "ms_in_flight s"] by simp
  have sub: "(j, rec) \<in> set (ms_in_flight s)" if "(j, rec) \<in> set ?fl" for j rec
    using hm_get_Some_iff [of ?fl j rec] hm_get_Some_iff [of "ms_in_flight s" j rec] ms_okD(3) [OF ok] that by (auto split: if_splits)
  have flight: "ir_peer_id rec \<in> sh_peer_id ` set (ms_sources s) \<and> j \<in> pch_index ` set (dp_chunks (me_plan env)) \<and> j \<notin> set (ms_have s) \<and> ir_requested_at rec \<le> ms_now s"
    if "(j, rec) \<in> set ?fl" for j rec
    using ms_okD(6) [OF ok sub [OF that]] by simp
  have all: "source_ok (ms_now s) ?fl h" if "h \<in> set (ms_sources (release_at p i (s\<lparr>ms_in_flight := ?fl\<rparr>)))" for h
    using that ms_okD(1,2) [OF ok] here there by (auto simp: release_at_def at_source_map split: if_splits)
  show ?thesis by (rule ms_okI [OF ok])
    (use ms_okD [OF ok] len flight all in \<open>simp_all add: release_at_def at_source_peers\<close>)
qed

lemma leave_flight_ok:
  assumes "ms_ok env s" and "map_option ir_peer_id (hm_get (ms_in_flight s) i) = Some p"
    and "ms_sources s' = ms_sources (release_at p i s)" "ms_now s' = ms_now s" "ms_in_flight s' = hm_remove i (ms_in_flight s)"
    and "ms_have s' = ms_have s" "counters_ok s'"
  shows "ms_ok env s'"
  using drop_flight_ok [OF assms(1,2)] assms(3-)
  by (simp add: ms_ok_def sources_ok_def flight_ok_def release_at_def at_source_def)

text \<open>A request enters the window and takes its slot together.\<close>

lemma slots_at_insert: "hm_get fl i = None \<Longrightarrow> slots_at (hm_insert i \<lparr>ir_peer_id = q, ir_requested_at = t\<rparr> fl) p =
    (if p = q then insert i (slots_at fl p) else slots_at fl p)"
  by (auto simp: slots_at_def)

lemma length_insert_new: "hm_get fl i = None \<Longrightarrow> length (hm_insert i v fl) = Suc (length fl)"
  by (induction fl) (auto split: if_splits)

lemma length_insert_old: "hm_get fl i = Some w \<Longrightarrow> length (hm_insert i v fl) = length fl"
  by (induction fl) (auto split: if_splits)

lemma at_time_ok:
  assumes "ms_ok env s" "ms_now s \<le> now"
  shows "ms_ok env (at_time now s)"
proof -
  have "source_ok now fl h" if "source_ok (ms_now s) fl h" for fl h
    using that assms(2) by (auto simp: source_ok_def split: option.splits)
  moreover have "ir_requested_at rec \<le> now" if "(i, rec) \<in> set (ms_in_flight s)" for i rec
    using ms_okD(6) [OF assms(1) that] assms(2) by simp
  ultimately show ?thesis by (intro ms_okI [OF assms(1)]) (use ms_okD [OF assms(1)] in auto)
qed

lemma enter_flight_ok:
  assumes ok: "ms_ok env s" and i: "hm_get (ms_in_flight s) i = None" "i \<in> pch_index ` set (dp_chunks (me_plan env))" "i \<notin> set (ms_have s)"
    and room: "length (ms_in_flight s) < WINDOW_SIZE" and h: "h \<in> set (ms_sources s)" and w: "sd_in_flight w = List.insert i (sd_in_flight (sh_sched h))"
    and t: "t \<le> ms_now s"
  shows "ms_ok env ((at_source (sh_peer_id h) (\<lambda>h. h\<lparr>sh_sched := w\<rparr>) s)
      \<lparr>ms_in_flight := hm_insert i \<lparr>ir_peer_id = sh_peer_id h, ir_requested_at = t\<rparr> (ms_in_flight s)\<rparr>)"
proof -
  let ?fl = "hm_insert i \<lparr>ir_peer_id = sh_peer_id h, ir_requested_at = t\<rparr> (ms_in_flight s)"
  let ?f = "\<lambda>h. h\<lparr>sh_sched := w\<rparr>"
  have d: "distinct (map sh_peer_id (ms_sources s))" using ok by (simp add: ms_ok_def sources_ok_def)
  then have one: "h' = h" if "h' \<in> set (ms_sources s)" "sh_peer_id h' = sh_peer_id h" for h'
    using that h by (auto simp: distinct_map inj_on_def)
  have okh: "source_ok (ms_now s) (ms_in_flight s) h'" if "h' \<in> set (ms_sources s)" for h' using that ok by (simp add: ms_ok_def sources_ok_def)
  have here: "source_ok (ms_now s) ?fl (h\<lparr>sh_sched := w\<rparr>)"
    using okh [OF h] by (auto simp: source_ok_def slots_at_insert [OF i(1)] w)
  have there: "source_ok (ms_now s) ?fl h'" if "h' \<in> set (ms_sources s)" "sh_peer_id h' \<noteq> sh_peer_id h" for h'
    using okh [OF that(1)] that(2) by (auto simp: source_ok_def slots_at_insert [OF i(1)])
  have all: "source_ok (ms_now s) ?fl h'" if "h' \<in> set (ms_sources (at_source (sh_peer_id h) ?f s))" for h'
    using that here there one by (auto simp: at_source_map [OF d] split: if_splits)
  have sub: "j = i \<and> rec = \<lparr>ir_peer_id = sh_peer_id h, ir_requested_at = t\<rparr> \<or> (j, rec) \<in> set (ms_in_flight s)" if "(j, rec) \<in> set ?fl" for j rec
    using hm_get_Some_iff [of ?fl j rec] hm_get_Some_iff [of "ms_in_flight s" j rec] ms_okD(3) [OF ok] that by (auto split: if_splits)
  have flight: "ir_peer_id rec \<in> sh_peer_id ` set (ms_sources s) \<and> j \<in> pch_index ` set (dp_chunks (me_plan env)) \<and> j \<notin> set (ms_have s) \<and> ir_requested_at rec \<le> ms_now s"
    if "(j, rec) \<in> set ?fl" for j rec
    using sub [OF that] ms_okD(6) [OF ok, of j rec] i h t by auto
  show ?thesis by (rule ms_okI [OF ok])
    (use ms_okD [OF ok] room all length_insert_new [OF i(1)] flight in \<open>simp_all add: at_source_peers\<close>)
qed

section \<open>Failures\<close>

lemma count_up_get [simp]: "hm_get (count_up k m) k' = (if k' = k then Some (case hm_get m k of None \<Rightarrow> 1 | Some n \<Rightarrow> n + 1) else hm_get m k')"
  by (simp add: count_up_def)

lemma drop_count: "counters_ok s \<Longrightarrow> counters_ok (s\<lparr>ms_consecutive_stuck := hm_remove k (ms_consecutive_stuck s)\<rparr>)"
  "counters_ok s \<Longrightarrow> counters_ok (s\<lparr>ms_nak_counters := hm_remove k (ms_nak_counters s)\<rparr>)"
  by (auto simp: counters_ok_def retries_of_def naks_of_def stuck_of_def multi_constants split: option.splits)

lemma counters_only:
  assumes "ms_ok env s" "counters_ok s'" "ms_sources s' = ms_sources s" "ms_now s' = ms_now s" "ms_in_flight s' = ms_in_flight s" "ms_have s' = ms_have s"
  shows "ms_ok env s'"
  using assms by (simp add: ms_ok_def sources_ok_def flight_ok_def)

lemma demote_ok:
  assumes ok: "ms_ok env s" and i: "map_option ir_peer_id (hm_get (ms_in_flight s) i) = Some p"
    and c: "counters_ok (s\<lparr>ms_nak_counters := hm_remove (i, p) m\<rparr>)"
  shows "ms_ok env (demote i p (s\<lparr>ms_nak_counters := m\<rparr>))"
proof -
  let ?f = "\<lambda>h. h\<lparr>sh_demotion_count := min (sh_demotion_count h + 1) u32_max\<rparr>"
  have "ms_ok env (at_source p ?f s)" using ok by (rule at_source_ok) simp_all
  then show ?thesis
    by (rule leave_flight_ok [of _ _ i p])
      (use i c in \<open>simp_all add: demote_def Let_def release_at_def at_source_def counters_ok_def retries_of_def naks_of_def stuck_of_def\<close>)
qed

lemma apply_nak_ok:
  assumes ok: "ms_ok env s" and r: "apply_nak i p s = (Inr u, s')"
  shows "ms_ok env s'"
proof -
  define s0 where "s0 = s\<lparr>ms_consecutive_stuck := hm_remove (i, p) (ms_consecutive_stuck s)\<rparr>"
  have ok0: "ms_ok env s0" unfolding s0_def by (rule counters_only [OF ok]) (simp_all add: drop_count ms_okD(5) [OF ok])
  define s1 where "s1 = s0\<lparr>ms_chunk_retries := count_up i (ms_chunk_retries s0)\<rparr>"
  define m where "m = count_up (i, p) (ms_nak_counters s1)"
  have c0: "counters_ok s0" using ms_okD(5) [OF ok0] .
  show ?thesis
  proof (cases "map_option ir_peer_id (hm_get (ms_in_flight s0) i) = Some p")
    case False
    then have "s' = s0" using r by (auto simp: apply_nak_def Let_def s0_def split: option.splits if_splits)
    with ok0 show ?thesis by simp
  next
    case True
    then obtain rec where rec: "hm_get (ms_in_flight s0) i = Some rec" "ir_peer_id rec = p" by auto
    from r rec have few: "retries_of i s1 < MAX_CHUNK_RETRIES"
      and s': "s' = (if naks_of i p (s1\<lparr>ms_nak_counters := m\<rparr>) \<ge> NAK_THRESHOLD then demote i p (s1\<lparr>ms_nak_counters := m\<rparr>) else s1\<lparr>ms_nak_counters := m\<rparr>)"
      by (auto simp: apply_nak_def Let_def s0_def s1_def m_def split: if_splits)
    have c1: "counters_ok s1" using c0 few by (auto simp: counters_ok_def retries_of_def naks_of_def stuck_of_def s1_def)
    have ok1: "ms_ok env s1" by (rule counters_only [OF ok0 c1]) (simp_all add: s1_def)
    have fl: "map_option ir_peer_id (hm_get (ms_in_flight s1) i) = Some p" using rec by (simp add: s1_def)
    show ?thesis
    proof (cases "naks_of i p (s1\<lparr>ms_nak_counters := m\<rparr>) \<ge> NAK_THRESHOLD")
      case True
      have "counters_ok (s1\<lparr>ms_nak_counters := hm_remove (i, p) m\<rparr>)"
        using c1 by (auto simp: counters_ok_def retries_of_def naks_of_def stuck_of_def m_def multi_constants split: option.splits)
      from demote_ok [OF ok1 fl this] True show ?thesis by (simp add: s')
    next
      case False
      then have "counters_ok (s1\<lparr>ms_nak_counters := m\<rparr>)"
        using c1 by (auto simp: counters_ok_def retries_of_def naks_of_def stuck_of_def m_def split: option.splits)
      then have "ms_ok env (s1\<lparr>ms_nak_counters := m\<rparr>)" by (rule counters_only [OF ok1]) simp_all
      with False show ?thesis by (simp add: s')
    qed
  qed
qed

lemma apply_nak_flight:
  assumes "apply_nak i p s = (Inr u, s')"
  shows "ms_in_flight s' = ms_in_flight s \<or> ms_in_flight s' = hm_remove i (ms_in_flight s)" and "ms_have s' = ms_have s"
    and "ms_now s' = ms_now s"
  using assms by (auto simp: apply_nak_def Let_def demote_def split: option.splits if_splits)

section \<open>Chunks\<close>

lemma ms_stored_fields: "ms_stored f s = (r, s') \<Longrightarrow> \<exists>db. s' = s\<lparr>ms_db := db\<rparr>"
  by (cases "f (ms_db s)") (auto simp: ms_stored_def map_err_def split: sum.splits)

lemma ms_on_disk_fields: "ms_on_disk f s = (r, s') \<Longrightarrow> \<exists>dk. s' = s\<lparr>ms_disk := dk\<rparr>"
  by (auto simp: ms_on_disk_def split: prod.splits)

lemma chunk_done_ok:
  assumes ok: "ms_ok env s" and i: "map_option ir_peer_id (hm_get (ms_in_flight s) i) = Some p"
  shows "ms_ok env (chunk_done env p i rec s)" and "ms_in_flight (chunk_done env p i rec s) = hm_remove i (ms_in_flight s)"
proof -
  let ?s3 = "release_at p i (s\<lparr>ms_in_flight := hm_remove i (ms_in_flight s),
      ms_nak_counters := hm_remove (i, p) (ms_nak_counters s), ms_consecutive_stuck := hm_remove (i, p) (ms_consecutive_stuck s)\<rparr>)"
  have c: "counters_ok ?s3"
    using drop_count(1) [OF drop_count(2) [OF ms_okD(5) [OF ok], of "(i, p)"], of "(i, p)"]
    by (simp add: counters_ok_def retries_of_def naks_of_def stuck_of_def release_at_def)
  have "ms_ok env ?s3" by (rule leave_flight_ok [OF ok i]) (use c in \<open>simp_all add: release_at_def at_source_def\<close>)
  then have "ms_ok env (ms_ack env p i ?s3)" by (rule ms_ack_ok)
  then have "ms_ok env ((ms_ack env p i ?s3)\<lparr>ms_verified_sources := a\<rparr>)" for a by (rule ms_ok_same) simp_all
  then show "ms_ok env (chunk_done env p i rec s)" unfolding chunk_done_def Let_def
    by (rule at_source_ok) (simp_all add: sample_rtt_def Let_def split: option.splits)
  show "ms_in_flight (chunk_done env p i rec s) = hm_remove i (ms_in_flight s)"
    by (simp add: chunk_done_def Let_def ms_ack_def send_to_def case_prod_beta split: option.splits)
qed

lemma store_chunk_ok:
  assumes ok: "ms_ok env s" and i: "map_option ir_peer_id (hm_get (ms_in_flight s) i) = Some p"
    and r: "store_chunk env p i expected rec bs s = (Inr out, s')"
  shows "ms_ok env s'" "hm_get (ms_in_flight s') i = None" "out = HoVerified i p"
proof -
  from r obtain u s1 v s2 where w: "map_err (\<lambda>_. MsIo ''write'') (ms_on_disk (write_chunk_to_incomplete (se_root (me_session env)) (me_id env) i bs) s) = (Inr u, s1)"
    and m: "ms_stored (mark_chunk_verified (me_id env) i (pch_sha256 expected)) s1 = (Inr v, s2)"
    and s': "s' = chunk_done env p i rec s2" and out: "out = HoVerified i p"
    by (auto simp: store_chunk_def on_ok_Inr)
  from w obtain x where "ms_on_disk (write_chunk_to_incomplete (se_root (me_session env)) (me_id env) i bs) s = (x, s1)"
    by (metis snd_conv snd_map_err surjective_pairing)
  then obtain dk where s1: "s1 = s\<lparr>ms_disk := dk\<rparr>" using ms_on_disk_fields by blast
  from m obtain db where s2: "s2 = s1\<lparr>ms_db := db\<rparr>" using ms_stored_fields by blast
  have ok2: "ms_ok env s2" by (rule ms_ok_same [OF ok]) (simp_all add: s1 s2)
  have i2: "map_option ir_peer_id (hm_get (ms_in_flight s2) i) = Some p" using i by (simp add: s1 s2)
  show "ms_ok env s'" "hm_get (ms_in_flight s') i = None" "out = HoVerified i p"
    using chunk_done_ok [OF ok2 i2] by (simp_all add: s' out)
qed

lemma ms_handle_chunk_ok:
  assumes ok: "ms_ok env s" and r: "ms_handle_chunk env p chunk s = (Inr out, s')"
  shows "ms_ok env s' \<and> (case out of
      HoVerified i q \<Rightarrow> hm_get (ms_in_flight s') i = None
    | HoNakTrigger i q \<Rightarrow> map_option ir_peer_id (hm_get (ms_in_flight s') i) = Some q
    | _ \<Rightarrow> True)"
proof -
  let ?i = "cf_chunk_index chunk"
  show ?thesis
  proof (cases "map_option ir_peer_id (hm_get (ms_in_flight s) ?i) = Some p")
    case False
    then have "s' = ms_ack env p ?i s" "out = HoDuplicate \<or> out = HoPeerMismatch p"
      using r by (auto simp: ms_handle_chunk_def Let_def split: option.splits if_splits)
    with ms_ack_ok [OF ok] show ?thesis by auto
  next
    case True
    then obtain rec where rec: "hm_get (ms_in_flight s) ?i = Some rec" "ir_peer_id rec = p" by auto
    from r rec have "s' = s \<and> out = HoNakTrigger ?i p \<or> (\<exists>expected bs. store_chunk env p ?i expected rec bs s = (Inr out, s'))"
      by (simp add: ms_handle_chunk_def Let_def split: option.splits if_splits sum.splits) auto
    then show ?thesis
    proof
      assume "s' = s \<and> out = HoNakTrigger ?i p"
      with ok True show ?thesis by simp
    next
      assume "\<exists>expected bs. store_chunk env p ?i expected rec bs s = (Inr out, s')"
      then obtain expected bs where "store_chunk env p ?i expected rec bs s = (Inr out, s')" by blast
      from store_chunk_ok [OF ok True this] show ?thesis by simp
    qed
  qed
qed

lemma drop_request_ok: "ms_ok env s \<Longrightarrow> map_option ir_peer_id (hm_get (ms_in_flight s) i) \<in> {None, Some p} \<Longrightarrow> ms_ok env (drop_request i p s)"
  by (auto simp: drop_request_def hm_contains_def intro: drop_flight_ok)

lemma on_bad_chunk_ok:
  assumes ok: "ms_ok env s" and i: "map_option ir_peer_id (hm_get (ms_in_flight s) i) = Some p" and r: "on_bad_chunk env i p s = (Inr u, s')"
  shows "ms_ok env s'"
proof -
  from r obtain v s1 where a: "apply_nak i p s = (Inr v, s1)"
    and s': "s' = (if p \<in> set (tried_of i (drop_request i p s1)) then ms_nak env p i (drop_request i p s1) else drop_request i p s1)"
    by (auto simp: on_bad_chunk_def on_ok_Inr Let_def)
  have "map_option ir_peer_id (hm_get (ms_in_flight s1) i) \<in> {None, Some p}" using apply_nak_flight(1) [OF a] i by auto
  then have "ms_ok env (drop_request i p s1)" by (rule drop_request_ok [OF apply_nak_ok [OF ok a]])
  with ms_nak_ok [OF this] show ?thesis by (simp add: s')
qed

lemma have_insert_ok:
  assumes ok: "ms_ok env s" and i: "hm_get (ms_in_flight s) i = None"
  shows "ms_ok env (s\<lparr>ms_have := List.insert i (ms_have s)\<rparr>)"
proof -
  have new: "j \<noteq> i" if "(j, rec) \<in> set (ms_in_flight s)" for j rec
    using that i hm_get_Some_iff [OF ms_okD(3) [OF ok], of j rec] by auto
  have "counters_ok (s\<lparr>ms_have := List.insert i (ms_have s)\<rparr>)"
    using ms_okD(5) [OF ok] by (simp add: counters_ok_def retries_of_def naks_of_def stuck_of_def)
  then show ?thesis by (intro ms_okI [OF ok]) (use ms_okD [OF ok] new in auto)
qed

lemma on_verified_ok:
  assumes ok: "ms_ok env s" and i: "hm_get (ms_in_flight s) i = None" and r: "on_verified env i p s = (Inr u, s')"
  shows "ms_ok env s'"
proof -
  obtain b e db where "s' = s\<lparr>ms_have := List.insert i (ms_have s), ms_transferred := b, ms_emitter := e, ms_db := db\<rparr>
      \<or> s' = s\<lparr>ms_have := List.insert i (ms_have s), ms_transferred := b, ms_emitter := e\<rparr>"
    using r by (auto simp: on_verified_def Let_def ms_stored_def map_err_def case_prod_beta split: if_splits sum.splits)
  with have_insert_ok [OF ok i] show ?thesis by (auto elim!: ms_ok_same)
qed

lemma on_chunk_ok:
  assumes ok: "ms_ok env s" and r: "on_chunk env p chunk s = (Inr u, s')"
  shows "ms_ok env s'"
proof -
  from r obtain out s1 where h: "ms_handle_chunk env p chunk s = (Inr out, s1)"
    and k: "(case out of HoVerified i p \<Rightarrow> on_verified env i p s1 | HoDuplicate \<Rightarrow> (Inr (), s1) | HoNakTrigger i p \<Rightarrow> on_bad_chunk env i p s1
       | HoPeerMismatch _ \<Rightarrow> (Inr (), s1)) = (Inr u, s')"
    by (auto simp: on_chunk_def on_ok_Inr)
  from ms_handle_chunk_ok [OF ok h] k show ?thesis
    by (cases out) (auto intro: on_verified_ok on_bad_chunk_ok)
qed

section \<open>Requests\<close>

lemma pick_from_mem: "pick_from tried now best hs = Some h \<Longrightarrow> best = Some h \<or> h \<in> set hs \<and> sh_peer_id h \<notin> set tried \<and> \<not> cooling now h"
proof (induction hs arbitrary: best)
  case (Cons g hs)
  let ?best = "case best of None \<Rightarrow> Some g | Some cur \<Rightarrow> Some (if better g cur then g else cur)"
  show ?case
  proof (cases "cooling now g \<or> sh_peer_id g \<in> set tried")
    case True
    with Cons.prems have "pick_from tried now best hs = Some h" by (cases "cooling now g") auto
    from Cons.IH [OF this] show ?thesis by auto
  next
    case False
    with Cons.prems have "pick_from tried now ?best hs = Some h" by simp
    from Cons.IH [OF this] False show ?thesis by (cases best) (auto split: if_splits)
  qed
qed simp

lemma pick_mem: "pick hs tried now = Some h \<Longrightarrow> h \<in> set hs \<and> sh_peer_id h \<notin> set tried \<and> \<not> cooling now h"
  using pick_from_mem [of tried now None hs h] by (simp add: pick_def)

lemma try_acquire_slot_time: "now \<le> fst (snd (snd (try_acquire_slot i polls now w)))"
  by (induction i polls now w rule: try_acquire_slot.induct) (simp_all add: case_prod_beta, linarith)

lemma try_acquire_slot_waits: "fst (try_acquire_slot i polls now w) = None \<Longrightarrow> fst (snd (try_acquire_slot i polls now w)) = []"
  by (induction i polls now w rule: try_acquire_slot.induct) (simp_all add: case_prod_beta split: if_splits)

lemma slots_in_window:
  assumes "ms_ok env s" "h \<in> set (ms_sources s)"
  shows "length (sd_in_flight (sh_sched h)) \<le> length (ms_in_flight s)"
proof -
  have "source_ok (ms_now s) (ms_in_flight s) h" using ms_okD(2) [OF assms] .
  then have d: "distinct (sd_in_flight (sh_sched h))" and sub: "set (sd_in_flight (sh_sched h)) \<subseteq> fst ` set (ms_in_flight s)"
    by (auto simp: source_ok_def slots_at_def dest: hm_get_SomeD intro: rev_image_eqI)
  from d have "length (sd_in_flight (sh_sched h)) = card (set (sd_in_flight (sh_sched h)))" by (simp add: distinct_card)
  also have "\<dots> \<le> card (fst ` set (ms_in_flight s))" by (rule card_mono [OF _ sub]) simp
  also have "\<dots> \<le> length (ms_in_flight s)" by (metis card_image_le card_length finite_set le_trans)
  finally show ?thesis .
qed

text \<open>With the window's invariant no request ever waits for a slot in the window, only for a token.\<close>

lemma request_from_ok:
  assumes ok: "ms_ok env s" and i: "hm_get (ms_in_flight s) i = None" "i \<in> pch_index ` set (dp_chunks (me_plan env))" "i \<notin> set (ms_have s)"
    and room: "length (ms_in_flight s) < WINDOW_SIZE" and h: "h \<in> set (ms_sources s)"
    and r: "request_from env i h s = (Inr b, s')"
  shows "ms_ok env s'" and "ms_have s' = ms_have s" and "ms_now s \<le> ms_now s'"
    and "b \<Longrightarrow> \<exists>t. ms_in_flight s' = hm_insert i \<lparr>ir_peer_id = sh_peer_id h, ir_requested_at = t\<rparr> (ms_in_flight s)"
    and "\<not> b \<Longrightarrow> ms_polls s' = [] \<and> (\<forall>p \<in> set (ms_polls s). \<exists>dt. p = Poll dt False)"
    and "ms_consecutive_stuck s' = ms_consecutive_stuck s" "ms_chunk_retries s' = ms_chunk_retries s"
proof -
  obtain q ps t w evs where a: "try_acquire_slot i (ms_polls s) (ms_now s) (sh_sched h) = (q, ps, t, w, evs)" by (metis prod_cases5)
  have t: "ms_now s \<le> t" using try_acquire_slot_time [of "ms_now s" i "ms_polls s" "sh_sched h"] by (simp add: a)
  have spec: "case (q, ps, t, w, evs) of
      (None, ps, t, w', _) \<Rightarrow> (\<forall>p \<in> set (ms_polls s). \<exists>dt. p = Poll dt False) \<and> w' = sh_sched h
    | (Some (Inl _), ps, t, w', _) \<Rightarrow> PollCancelled \<in> set (ms_polls s) \<and> w' = sh_sched h
    | (Some (Inr _), ps, t, w', _) \<Rightarrow> sd_in_flight w' = List.insert i (sd_in_flight (sh_sched h))"
    using try_acquire_slot_room [where w = "sh_sched h" and i = i and polls = "ms_polls s" and now = "ms_now s"] slots_in_window [OF ok h] room a by simp
  have late: "ms_ok env (at_time t (s\<lparr>ms_polls := ps\<rparr>))"
    by (rule at_time_ok) (use ok t in \<open>auto intro: ms_ok_same\<close>)
  have gone: "ps = []" if "q = None" using try_acquire_slot_waits [of i "ms_polls s" "ms_now s" "sh_sched h"] that by (simp add: a)
  let ?s2 = "(at_source (sh_peer_id h) (\<lambda>h. h\<lparr>sh_sched := w\<rparr>) (at_time t (s\<lparr>ms_polls := ps\<rparr>)))
      \<lparr>ms_in_flight := hm_insert i \<lparr>ir_peer_id = sh_peer_id h, ir_requested_at = t\<rparr> (ms_in_flight s)\<rparr>"
  consider (wait) "q = None" "\<not> b" "s' = at_time t (s\<lparr>ms_polls := ps\<rparr>)"
    | (sent) "q = Some (Inr ())" b "s' = snd (send_to env (sh_peer_id h) (Request \<lparr>rf_download_id = me_id env, rf_chunk_index = i\<rparr>) ?s2)"
    using r by (auto simp: request_from_def Let_def a split: option.splits sum.splits prod.splits)
  then have "ms_ok env s' \<and> ms_have s' = ms_have s \<and> ms_now s \<le> ms_now s'
    \<and> (b \<longrightarrow> (\<exists>t. ms_in_flight s' = hm_insert i \<lparr>ir_peer_id = sh_peer_id h, ir_requested_at = t\<rparr> (ms_in_flight s)))
    \<and> (\<not> b \<longrightarrow> ms_polls s' = [] \<and> (\<forall>p \<in> set (ms_polls s). \<exists>dt. p = Poll dt False))
    \<and> ms_consecutive_stuck s' = ms_consecutive_stuck s \<and> ms_chunk_retries s' = ms_chunk_retries s"
  proof cases
    case wait
    with late t spec gone show ?thesis by simp
  next
    case sent
    have "ms_ok env ?s2"
      using enter_flight_ok [OF late, of i h w t] i room h spec sent(1) by simp
    then have "ms_ok env s'" unfolding sent(3) by (rule send_to_ok)
    moreover have "ms_in_flight s' = ms_in_flight ?s2" "ms_have s' = ms_have s" "ms_now s' = t"
        "ms_consecutive_stuck s' = ms_consecutive_stuck s" "ms_chunk_retries s' = ms_chunk_retries s"
      by (simp_all add: sent(3) send_to_def case_prod_beta split: option.splits)
    ultimately show ?thesis using t sent(2) by auto
  qed
  then show "ms_ok env s'" and "ms_have s' = ms_have s" and "ms_now s \<le> ms_now s'"
    and "b \<Longrightarrow> \<exists>t. ms_in_flight s' = hm_insert i \<lparr>ir_peer_id = sh_peer_id h, ir_requested_at = t\<rparr> (ms_in_flight s)"
    and "\<not> b \<Longrightarrow> ms_polls s' = [] \<and> (\<forall>p \<in> set (ms_polls s). \<exists>dt. p = Poll dt False)"
    and "ms_consecutive_stuck s' = ms_consecutive_stuck s" "ms_chunk_retries s' = ms_chunk_retries s" by blast+
qed

lemma dispatch_ok:
  assumes "ms_ok env s" and "distinct is" and "length (ms_in_flight s) < WINDOW_SIZE"
    and "\<forall>i \<in> set is. hm_get (ms_in_flight s) i = None \<and> i \<in> pch_index ` set (dp_chunks (me_plan env)) \<and> i \<notin> set (ms_have s)"
    and "dispatch env is s = (Inr b, s')"
  shows "ms_ok env s' \<and> ms_have s' = ms_have s \<and> ms_now s \<le> ms_now s' \<and> (b \<or> ms_polls s' = [])"
  using assms
proof (induction "is" arbitrary: s)
  case (Cons i "is")
  show ?case
  proof (cases "pick (ms_sources s) (tried_of i s) (ms_now s)")
    case None
    with Cons show ?thesis by (simp split: if_splits)
  next
    case (Some h)
    then have h: "h \<in> set (ms_sources s)" using pick_mem by blast
    from Cons.prems(5) Some obtain c s1 where r: "request_from env i h s = (Inr c, s1)"
      and k: "\<not> c \<and> s' = s1 \<and> \<not> b \<or> c \<and> (if length (ms_in_flight s1) \<ge> WINDOW_SIZE then s' = s1 \<and> b else dispatch env is s1 = (Inr b, s'))"
      by (auto split: if_splits prod.splits sum.splits bool.splits)
    have i: "hm_get (ms_in_flight s) i = None" "i \<in> pch_index ` set (dp_chunks (me_plan env))" "i \<notin> set (ms_have s)"
      using Cons.prems(4) by auto
    note q = request_from_ok [OF Cons.prems(1) i Cons.prems(3) h r]
    show ?thesis
    proof (cases "c \<and> \<not> length (ms_in_flight s1) \<ge> WINDOW_SIZE")
      case False
      with k q show ?thesis by (auto split: if_splits)
    next
      case True
      with k have d: "dispatch env is s1 = (Inr b, s')" by auto
      from q(4) True obtain t where fl: "ms_in_flight s1 = hm_insert i \<lparr>ir_peer_id = sh_peer_id h, ir_requested_at = t\<rparr> (ms_in_flight s)" by blast
      have "\<forall>j \<in> set is. hm_get (ms_in_flight s1) j = None \<and> j \<in> pch_index ` set (dp_chunks (me_plan env)) \<and> j \<notin> set (ms_have s1)"
        using Cons.prems(2,4) q(2) by (auto simp: fl)
      from Cons.IH [OF q(1) _ _ this d] Cons.prems(2) True q(2,3) show ?thesis by auto
    qed
  qed
qed simp

definition plan_ok :: "multi_env \<Rightarrow> bool" where
  "plan_ok env \<longleftrightarrow> distinct (map pch_index (dp_chunks (me_plan env)))"

lemma refill_ok:
  assumes "plan_ok env" "ms_ok env s" "refill env s = (Inr b, s')"
  shows "ms_ok env s'" "ms_have s' = ms_have s" "ms_now s \<le> ms_now s'" "b \<or> ms_polls s' = []"
proof -
  have "distinct (pending env s)" using assms(1) by (simp add: plan_ok_def pending_def)
  moreover have "\<forall>i \<in> set (pending env s). hm_get (ms_in_flight s) i = None \<and> i \<in> pch_index ` set (dp_chunks (me_plan env)) \<and> i \<notin> set (ms_have s)"
    by (auto simp: pending_def hm_contains_def)
  ultimately have "ms_ok env s' \<and> ms_have s' = ms_have s \<and> ms_now s \<le> ms_now s' \<and> (b \<or> ms_polls s' = [])"
    using dispatch_ok [OF assms(2)] assms(2,3) by (auto simp: refill_def split: if_splits)
  then show "ms_ok env s'" "ms_have s' = ms_have s" "ms_now s \<le> ms_now s'" "b \<or> ms_polls s' = []" by blast+
qed

lemma touch_request_ok:
  assumes "ms_ok env s"
  shows "ms_ok env (touch_request i s)"
proof (cases "hm_get (ms_in_flight s) i")
  case None
  with assms show ?thesis by (simp add: touch_request_def)
next
  case (Some rec)
  let ?fl = "hm_insert i (rec\<lparr>ir_requested_at := ms_now s\<rparr>) (ms_in_flight s)"
  have slots: "slots_at ?fl = slots_at (ms_in_flight s)" using Some by (auto simp: slots_at_def fun_eq_iff)
  have len: "length ?fl = length (ms_in_flight s)" by (rule length_insert_old [OF Some])
  have flight: "ir_peer_id rec' \<in> sh_peer_id ` set (ms_sources s) \<and> j \<in> pch_index ` set (dp_chunks (me_plan env)) \<and> j \<notin> set (ms_have s)
      \<and> ir_requested_at rec' \<le> ms_now s" if "(j, rec') \<in> set ?fl" for j rec'
  proof -
    have "hm_get ?fl j = Some rec'" using that hm_get_Some_iff [of ?fl j rec'] ms_okD(3) [OF assms] by simp
    then have "(j, rec') \<in> set (ms_in_flight s) \<or> j = i \<and> ir_peer_id rec' = ir_peer_id rec" by (auto split: if_splits dest: hm_get_SomeD)
    moreover have "j = i \<Longrightarrow> ir_requested_at rec' = ms_now s" using \<open>hm_get ?fl j = Some rec'\<close> by auto
    ultimately show ?thesis using ms_okD(6) [OF assms, of j rec'] ms_okD(6) [OF assms hm_get_SomeD [OF Some]] by (cases "j = i") auto
  qed
  have eq: "touch_request i s = s\<lparr>ms_in_flight := ?fl\<rparr>" by (simp add: touch_request_def Some)
  show ?thesis unfolding eq by (rule ms_okI [OF assms])
    (use ms_okD [OF assms] flight len in \<open>simp_all add: source_ok_def slots\<close>)
qed

text \<open>One nudge: the request again, its time, its count.\<close>

lemma nudge_Cons: "source_of p s = Some h \<Longrightarrow> nudge env ((i, p) # rest) s =
    (let s1 = touch_request i (snd (send_to env p (Request \<lparr>rf_download_id = me_id env, rf_chunk_index = i\<rparr>) s));
         c = stuck_of i p s + 1
     in if c \<ge> STUCK_REQUEST_DEMOTE_AFTER
        then on_ok (apply_nak i p (s1\<lparr>ms_consecutive_stuck := hm_remove (i, p) (count_up (i, p) (ms_consecutive_stuck s1))\<rparr>)) (\<lambda>_. nudge env rest)
        else nudge env rest (s1\<lparr>ms_consecutive_stuck := count_up (i, p) (ms_consecutive_stuck s1)\<rparr>))"
proof -
  assume src: "source_of p s = Some h"
  have "ms_consecutive_stuck (touch_request i (snd (send_to env p f s))) = ms_consecutive_stuck s" for f
    by (simp add: touch_request_def send_to_def case_prod_beta split: option.splits)
  then show ?thesis by (cases "hm_get (ms_consecutive_stuck s) (i, p)") (simp_all add: Let_def stuck_of_def src)
qed

lemma nudge_ok:
  assumes "ms_ok env s" "nudge env xs s = (Inr u, s')"
  shows "ms_ok env s' \<and> ms_have s' = ms_have s \<and> ms_now s' = ms_now s \<and> ms_polls s' = ms_polls s"
  using assms
proof (induction xs arbitrary: s)
  case (Cons x xs)
  obtain i p where x: "x = (i, p)" by (cases x)
  show ?case
  proof (cases "source_of p s")
    case None
    with Cons show ?thesis by (simp add: x)
  next
    case (Some h)
    let ?s1 = "touch_request i (snd (send_to env p (Request \<lparr>rf_download_id = me_id env, rf_chunk_index = i\<rparr>) s))"
    have same: "ms_have ?s1 = ms_have s" "ms_now ?s1 = ms_now s" "ms_polls ?s1 = ms_polls s" "ms_consecutive_stuck ?s1 = ms_consecutive_stuck s"
      by (simp_all add: touch_request_def send_to_def case_prod_beta split: option.splits)
    have ok1: "ms_ok env ?s1" by (intro touch_request_ok send_to_ok Cons.prems(1))
    have c: "counters_ok ?s1" using ms_okD(5) [OF ok1] .
    show ?thesis
    proof (cases "STUCK_REQUEST_DEMOTE_AFTER \<le> stuck_of i p s + 1")
      case True
      let ?s2 = "?s1\<lparr>ms_consecutive_stuck := hm_remove (i, p) (count_up (i, p) (ms_consecutive_stuck ?s1))\<rparr>"
      have "counters_ok ?s2" using c by (auto simp: counters_ok_def retries_of_def naks_of_def stuck_of_def multi_constants split: option.splits)
      then have ok2: "ms_ok env ?s2" by (rule counters_only [OF ok1]) simp_all
      from Cons.prems(2) True obtain v s3 where a: "apply_nak i p ?s2 = (Inr v, s3)" and n: "nudge env xs s3 = (Inr u, s')"
        by (auto simp: x nudge_Cons [OF Some] Let_def on_ok_Inr simp del: nudge.simps)
      have "ms_polls s3 = ms_polls ?s2" using a by (auto simp: apply_nak_def Let_def demote_def split: option.splits if_splits)
      with Cons.IH [OF apply_nak_ok [OF ok2 a] n] apply_nak_flight [OF a] same show ?thesis by simp
    next
      case False
      let ?s2 = "?s1\<lparr>ms_consecutive_stuck := count_up (i, p) (ms_consecutive_stuck ?s1)\<rparr>"
      have "counters_ok ?s2" using c False same(4)
        by (auto simp: counters_ok_def retries_of_def naks_of_def stuck_of_def multi_constants split: option.splits)
      then have ok2: "ms_ok env ?s2" by (rule counters_only [OF ok1]) simp_all
      from Cons.prems(2) False have n: "nudge env xs ?s2 = (Inr u, s')"
        by (simp add: x nudge_Cons [OF Some] Let_def del: nudge.simps)
      from Cons.IH [OF ok2 n] same show ?thesis by simp
    qed
  qed
qed simp

section \<open>The machine\<close>

lemma recover_ok: "ms_ok env s \<Longrightarrow> ms_ok env (maybe_recover_sources s)"
proof -
  assume ok: "ms_ok env s"
  have f: "sh_peer_id (recover n h) = sh_peer_id h" "sh_sched (recover n h) = sh_sched h"
      "sh_unavailable_since (recover n h) \<in> {sh_unavailable_since h, None}" for n h
    by (auto simp: recover_def split: option.splits)
  have all: "source_ok (ms_now s) (ms_in_flight s) (recover (ms_now s) h)" if "h \<in> set (ms_sources s)" for h
    using ms_okD(2) [OF ok that] f(3) [of "ms_now s" h] by (auto simp: source_ok_def f(1,2))
  show ?thesis by (rule ms_okI [OF ok])
    (use ms_okD [OF ok] all in \<open>auto simp: maybe_recover_sources_def f comp_def counters_ok_def retries_of_def naks_of_def stuck_of_def\<close>)
qed

lemma ms_loop_top_ok:
  assumes "plan_ok env" "ms_ok env s" "ms_loop_top env s = (Inr t, s')"
  shows "(\<exists>st. t = TurnReturn st) \<or> t = TurnWait \<and> ms_ok env s' \<or> t = TurnBlocked \<and> ms_ok env s' \<and> ms_polls s' = []"
proof -
  from assms(3) consider (fin) st where "t = TurnReturn st"
    | (blocked) "refill env (maybe_recover_sources s) = (Inr False, s')" "t = TurnBlocked"
    | (wait) s1 u xs where "refill env (maybe_recover_sources s) = (Inr True, s1)" "nudge env xs s1 = (Inr u, s')" "t = TurnWait"
    by (auto simp: ms_loop_top_def on_ok_Inr split: if_splits)
  then show ?thesis
  proof cases
    case blocked
    with refill_ok [OF assms(1) recover_ok [OF assms(2)] blocked(1)] show ?thesis by auto
  next
    case wait
    from refill_ok(1) [OF assms(1) recover_ok [OF assms(2)] wait(1)] nudge_ok [OF _ wait(2)] wait(3) show ?thesis by auto
  qed auto
qed

lemma ms_receive_ok:
  assumes "plan_ok env" "ms_ok env s" "ms_receive env ev s = (Inr t, s')"
  shows "(\<exists>st. t = TurnReturn st) \<or> t = TurnWait \<and> ms_ok env s' \<or> t = TurnBlocked \<and> ms_ok env s' \<and> ms_polls s' = []"
proof (cases ev)
  case EvCancelled
  with assms(3) show ?thesis by (simp add: ms_receive_def)
next
  case EvAllGone
  with assms(3) show ?thesis by (simp add: ms_receive_def)
next
  case EvTick
  with assms ms_loop_top_ok show ?thesis by (simp add: ms_receive_def)
next
  case (EvFrame p f)
  show ?thesis
  proof (cases f)
    case (ChunkFrame chunk)
    with assms(3) EvFrame obtain u s1 where "on_chunk env p chunk s = (Inr u, s1)" "ms_loop_top env s1 = (Inr t, s')"
      by (auto simp: ms_receive_def on_ok_Inr)
    with ms_loop_top_ok [OF assms(1) on_chunk_ok [OF assms(2)]] show ?thesis by blast
  next
    case (Nak nak)
    with assms(3) EvFrame obtain u s1 where "apply_nak (nf_chunk_index nak) p s = (Inr u, s1)"
        "ms_loop_top env (ms_nak env p (nf_chunk_index nak) s1) = (Inr t, s')"
      by (auto simp: ms_receive_def on_ok_Inr)
    with ms_loop_top_ok [OF assms(1) ms_nak_ok [OF apply_nak_ok [OF assms(2)]]] show ?thesis by blast
  qed (use assms EvFrame ms_loop_top_ok in \<open>auto simp: ms_receive_def ms_with_message_def split: option.splits\<close>)
qed

definition ms_running :: "multi_env \<Rightarrow> multi \<Rightarrow> bool" where
  "ms_running env s \<longleftrightarrow> (ms_phase s = MsWaiting \<longrightarrow> ms_ok env s) \<and> (ms_phase s = MsBlocked \<longrightarrow> ms_ok env s \<and> ms_polls s = [])"

lemma ms_settle_running:
  assumes "\<And>t s'. r = (Inr t, s') \<Longrightarrow> (\<exists>st. t = TurnReturn st) \<or> t = TurnWait \<and> ms_ok env s' \<or> t = TurnBlocked \<and> ms_ok env s' \<and> ms_polls s' = []"
  shows "ms_running env (ms_settle env r)"
proof -
  obtain q s where r: "r = (q, s)" by (cases r)
  show ?thesis
  proof (cases q)
    case (Inl e)
    then show ?thesis by (auto simp: ms_settle_def r ms_running_def split: prod.splits sum.splits)
  next
    case (Inr t)
    with assms [of t s] ms_ok_same [of env s] show ?thesis
      by (cases t) (auto simp: ms_settle_def r ms_running_def)
  qed
qed

lemma ms_step_running: "plan_ok env \<Longrightarrow> ms_running env s \<Longrightarrow> ms_running env (ms_step env s ev)"
proof -
  assume plan: "plan_ok env" and inv: "ms_running env s"
  obtain dt e where ev: "ev = (dt, e)" by (cases ev)
  show ?thesis
  proof (cases "ms_phase s")
    case MsWaiting
    have "ms_ok env (at_time (ms_now s + dt) s)" by (rule at_time_ok) (use inv MsWaiting in \<open>simp_all add: ms_running_def\<close>)
    from ms_settle_running [OF ms_receive_ok [OF plan this]] MsWaiting show ?thesis by (simp add: ms_step_def ev)
  qed (use inv in \<open>simp_all add: ms_step_def ev\<close>)
qed

section \<open>The start\<close>

definition fresh_sources :: "source_handle list \<Rightarrow> bool" where
  "fresh_sources sources \<longleftrightarrow> list_all (\<lambda>h. sh_sched h = sched_new \<and> sh_unavailable_since h = None) sources"

lemma new_check_distinct: "new_check sources = Inr u \<Longrightarrow> sources \<noteq> [] \<and> distinct (map sh_peer_id sources)"
proof -
  assume c: "new_check sources = Inr u"
  then have none: "find (\<lambda>k. sh_peer_id (sources ! k) \<in> sh_peer_id ` set (take k sources)) [0..<length sources] = None" and ne: "sources \<noteq> []"
    by (auto simp: new_check_def split: if_splits option.splits)
  have "distinct (map sh_peer_id (take k sources))" if "k \<le> length sources" for k
    using that
  proof (induction k)
    case (Suc k)
    then have "sh_peer_id (sources ! k) \<notin> sh_peer_id ` set (take k sources)" using none by (simp add: find_None_iff_all)
    with Suc show ?case by (simp add: take_Suc_conv_app_nth)
  qed simp
  from this [of "length sources"] ne show ?thesis by simp
qed

definition start_ok :: "multi \<Rightarrow> bool" where
  "start_ok s \<longleftrightarrow> ms_sources s \<noteq> [] \<and> distinct (map sh_peer_id (ms_sources s)) \<and> fresh_sources (ms_sources s) \<and> ms_in_flight s = []
     \<and> ms_chunk_retries s = [] \<and> ms_nak_counters s = [] \<and> ms_consecutive_stuck s = []"

lemma start_ok_ms_ok: "start_ok s \<Longrightarrow> ms_ok env s"
  by (auto simp: start_ok_def ms_ok_def sources_ok_def flight_ok_def counters_ok_def retries_of_def naks_of_def stuck_of_def source_ok_def
      slots_at_def fresh_sources_def list_all_iff sched_new_def multi_constants)

lemma start_ok_same: "start_ok s \<Longrightarrow> ms_sources s' = ms_sources s \<Longrightarrow> ms_in_flight s' = ms_in_flight s \<Longrightarrow> ms_chunk_retries s' = ms_chunk_retries s \<Longrightarrow>
    ms_nak_counters s' = ms_nak_counters s \<Longrightarrow> ms_consecutive_stuck s' = ms_consecutive_stuck s \<Longrightarrow> start_ok s'"
  by (simp add: start_ok_def)

lemma start_ok_stored: "start_ok s \<Longrightarrow> ms_stored f s = (r, s') \<Longrightarrow> start_ok s'"
  by (auto dest!: ms_stored_fields elim: start_ok_same)

lemma greet_sources: "map sh_peer_id (snd (greet f hs)) = map sh_peer_id hs" "fresh_sources hs \<Longrightarrow> fresh_sources (snd (greet f hs))"
  by (induction hs) (auto simp: Let_def case_prod_beta fresh_sources_def split: list.splits send_outcome.splits)

lemma greet_nonempty: "hs \<noteq> [] \<Longrightarrow> snd (greet f hs) \<noteq> []"
  by (metis greet_sources(1) map_is_Nil_conv)

lemma start_ok_greet: "start_ok s \<Longrightarrow> ms_greet env c s = (r, s') \<Longrightarrow> start_ok s'"
  using greet_sources(1) [of _ "ms_sources s"] greet_nonempty [of "ms_sources s"] greet_sources(2) [of "ms_sources s"]
  by (auto simp: ms_greet_def Let_def case_prod_beta start_ok_def split: sum.splits)

lemma ms_start_ok:
  assumes "plan_ok env" "start_ok s" "ms_start env s = (Inr t, s')"
  shows "(\<exists>st. t = TurnReturn st) \<or> t = TurnWait \<and> ms_ok env s' \<or> t = TurnBlocked \<and> ms_ok env s' \<and> ms_polls s' = []"
proof -
  obtain r s1 where f: "ms_stored (fetch_download (me_id env)) (ms_report DsPending None s) = (r, s1)" by fastforce
  have rep: "start_ok (ms_report st m s)" if "start_ok s" for st m s using that by (auto simp: ms_report_def elim: start_ok_same)
  have s1: "start_ok s1" by (rule start_ok_stored [OF rep [OF assms(2)] f])
  have held: "start_ok (s\<lparr>ms_have := a, ms_transferred := b\<rparr>)" if "start_ok s" for s a b using that by (rule start_ok_same) simp_all
  from assms(3) obtain s2 where s2: "start_ok s2" and top: "ms_loop_top env s2 = (Inr t, s')"
    unfolding ms_start_def Let_def f
    by (auto simp: on_ok_Inr split: if_splits dest!: start_ok_stored [rotated] start_ok_greet [rotated] intro: s1 rep held)
  from ms_loop_top_ok [OF assms(1) start_ok_ms_ok [OF s2] top] show ?thesis .
qed

interpretation bookkeeping: invariant_machine "ms_step env" "\<lambda>s. plan_ok env \<longrightarrow> ms_running env s" for env
  by unfold_locales (simp add: ms_step_running)

lemma run_running:
  assumes "plan_ok env" "new_check sources = Inr u" "fresh_sources sources"
  shows "ms_running env (run_multi_source env db dk sources polls now events)"
proof -
  have "ms_running env (ms_init env db dk sources polls now)" unfolding ms_init_def
    by (rule ms_settle_running, rule ms_start_ok [OF assms(1)]) (use assms new_check_distinct in \<open>auto simp: start_ok_def\<close>)
  then show ?thesis unfolding run_multi_source_def using bookkeeping.run_inv [of env] assms(1) by blast
qed

section \<open>Property\<close>

text \<open>
  C25: while a download from several sources waits, at most 16 chunks are requested, each from one source
  of the list, missing and part of the plan; the slots a source has taken are exactly its
  requests, so it never waits for its own window; and no chunk has failed five times, no pair of
  chunk and source three times. A run can only be stuck waiting for a token.
\<close>

theorem multi_source_window:
  assumes "new_check sources = Inr ()" and "fresh_sources sources" and "distinct (map pch_index (dp_chunks (me_plan env)))"
    and "s = run_multi_source env db dk sources polls now events"
  shows "case ms_phase s of MsFinished _ \<Rightarrow> True | ph \<Rightarrow>
      hm_wf (ms_in_flight s) \<and> length (ms_in_flight s) \<le> 16
      \<and> (\<forall>(i, rec) \<in> set (ms_in_flight s). ir_peer_id rec \<in> sh_peer_id ` set (ms_sources s)
           \<and> i \<in> pch_index ` set (dp_chunks (me_plan env)) \<and> i \<notin> set (ms_have s))
      \<and> (\<forall>h \<in> set (ms_sources s). distinct (sd_in_flight (sh_sched h))
           \<and> set (sd_in_flight (sh_sched h)) = {i. map_option ir_peer_id (hm_get (ms_in_flight s) i) = Some (sh_peer_id h)})
      \<and> (\<forall>i. retries_of i s < 5) \<and> (\<forall>i p. naks_of i p s < 3)
      \<and> (ph = MsBlocked \<longrightarrow> ms_polls s = [])"
proof -
  have run: "ms_running env s" unfolding assms(4) by (rule run_running) (use assms in \<open>simp_all add: plan_ok_def\<close>)
  show ?thesis
  proof (cases "ms_phase s")
    case (MsFinished r)
    then show ?thesis by simp
  qed (use run in \<open>auto simp: ms_running_def ms_ok_defs source_ok_def slots_at_def multi_constants\<close>)
qed

text \<open>Two sources of the tiny file, and a token when it is asked for.\<close>

definition duo_env :: multi_env where "duo_env = \<lparr>me_session = tiny_env, me_display = (\<lambda>_. [])\<rparr>"

definition duo_source :: "nat \<Rightarrow> source_handle" where
  "duo_source c = \<lparr>sh_peer_id = replicate 64 c, sh_link = \<lparr>lk_sends = [], lk_sent = [], lk_closed = False\<rparr>, sh_priority = 0,
     sh_sched = sched_new, sh_demotion_count = 0, sh_unavailable = False, sh_unavailable_since = None, sh_rtt_samples = []\<rparr>"

definition duo_sources :: "source_handle list" where "duo_sources = [duo_source 97, duo_source 98]"

lemma duo_hyps: "new_check duo_sources = Inr ()" "fresh_sources duo_sources" "map pch_index (dp_chunks (me_plan duo_env)) = [0]"
  "list_all (\<lambda>h. \<not> sh_unavailable h) duo_sources"
proof -
  have "hd (sh_peer_id (duo_source 98)) \<noteq> hd (sh_peer_id (duo_source 97))" by (simp add: duo_source_def)
  then have "sh_peer_id (duo_source 98) \<noteq> sh_peer_id (duo_source 97)" by fastforce
  moreover have two: "[0..<length duo_sources] = [0, 1]" by (simp add: duo_sources_def upt_rec)
  ultimately show "new_check duo_sources = Inr ()" unfolding new_check_def two by (simp add: duo_sources_def)
  show "fresh_sources duo_sources" by (simp add: fresh_sources_def duo_sources_def duo_source_def)
  show "map pch_index (dp_chunks (me_plan duo_env)) = [0]" by (simp add: duo_env_def tiny_env_def tiny_plan_def)
  show "list_all (\<lambda>h. \<not> sh_unavailable h) duo_sources" by (simp add: duo_sources_def duo_source_def)
qed

theorem multi_source_window_witness:
  "case ms_phase (run_multi_source duo_env tiny_db \<lparr>dk_files = [], dk_faults = []\<rparr> duo_sources [] 0 [(7, EvTick)]) of
     MsFinished _ \<Rightarrow> True
   | _ \<Rightarrow> length (ms_in_flight (run_multi_source duo_env tiny_db \<lparr>dk_files = [], dk_faults = []\<rparr> duo_sources [] 0 [(7, EvTick)])) \<le> 16"
  using multi_source_window [OF duo_hyps(1,2) _ refl, of duo_env tiny_db "\<lparr>dk_files = [], dk_faults = []\<rparr>" "[]" 0 "[(7, EvTick)]"] duo_hyps(3)
  by (simp split: multi_phase.splits)

end
