(* ===== verification/MultiSilence.thy ===== *)
theory MultiSilence
  imports MultiBounds
begin

text \<open>
  A download whose sources have all gone silent ends by itself: every silent turn brings the first
  missing chunk nearer to its last failure.
\<close>

section \<open>What a silent turn leaves alone\<close>

definition moods :: "multi \<Rightarrow> (bool \<times> nat option) list" where
  "moods s = map (\<lambda>h. (sh_unavailable h, sh_unavailable_since h)) (ms_sources s)"

lemma moods_at_source [simp]:
  "(\<And>h. sh_unavailable (f h) = sh_unavailable h) \<Longrightarrow> (\<And>h. sh_unavailable_since (f h) = sh_unavailable_since h) \<Longrightarrow>
     moods (at_source p f s) = moods s"
  by (simp add: moods_def at_source_def map_update_first)

lemma moods_more [simp]: "moods (at_time now s) = moods s" "moods (s\<lparr>ms_polls := ps\<rparr>) = moods s" "moods (s\<lparr>ms_in_flight := fl\<rparr>) = moods s"
  "moods (s\<lparr>ms_consecutive_stuck := m\<rparr>) = moods s" "moods (s\<lparr>ms_chunk_retries := n\<rparr>) = moods s" "moods (s\<lparr>ms_nak_counters := k\<rparr>) = moods s"
  "moods (s\<lparr>ms_chunk_tried := t\<rparr>) = moods s" "moods (touch_request i s) = moods s" "moods (release_at p i s) = moods s"
  "moods (snd (send_to env p f s)) = moods s" "moods (s\<lparr>ms_phase := ph\<rparr>) = moods s"
  by (simp_all add: moods_def touch_request_def release_at_def at_source_def map_update_first send_to_def case_prod_beta split: option.splits)

lemma moods_apply_nak [simp]: "moods (snd (apply_nak i p s)) = moods s"
  by (simp add: apply_nak_def demote_def Let_def split: option.splits)

lemma moods_request_from: "request_from env i h s = (r, s') \<Longrightarrow> moods s' = moods s"
proof -
  have send: "moods s2 = moods s1" if "send_to env p f s1 = (q, s2)" for p f s1 q s2 using that moods_more(10) by (metis snd_conv)
  show "request_from env i h s = (r, s') \<Longrightarrow> moods s' = moods s"
    by (auto simp: request_from_def Let_def split: prod.splits option.splits sum.splits dest!: send)
qed

lemma moods_dispatch: "dispatch env is s = (r, s') \<Longrightarrow> moods s' = moods s"
proof (induction "is" arbitrary: s)
  case (Cons i "is")
  then show ?case by (auto split: if_splits option.splits prod.splits sum.splits bool.splits dest!: moods_request_from)
qed simp

section \<open>Progress towards failure\<close>

text \<open>A chunk's distance from its last failure: four for each failure, one for being requested, one for each nudge.\<close>

definition flight_of :: "nat \<Rightarrow> multi \<Rightarrow> rstring option" where
  "flight_of c s = map_option ir_peer_id (hm_get (ms_in_flight s) c)"

definition distress :: "nat \<Rightarrow> multi \<Rightarrow> nat" where
  "distress c s = 4 * retries_of c s + (case flight_of c s of None \<Rightarrow> 0 | Some p \<Rightarrow> 1 + stuck_of c p s)"

lemma distress_bound: "counters_ok s \<Longrightarrow> distress c s \<le> 19"
proof -
  assume "counters_ok s"
  then have "retries_of c s < 5" and "stuck_of c p s < 3" for p by (simp_all add: counters_ok_def multi_constants)
  then have "retries_of c s \<le> 4" and "stuck_of c p s \<le> 2" for p by (simp_all add: less_Suc_eq_le eval_nat_numeral)
  note this(1) and this(2) [of "the (flight_of c s)"]
  then show ?thesis by (auto simp: distress_def split: option.split)
qed

definition flying :: "multi \<Rightarrow> nat set" where "flying s = fst ` set (ms_in_flight s)"

lemma flying_iff: "c \<in> flying s \<longleftrightarrow> flight_of c s \<noteq> None"
  by (auto simp: flying_def flight_of_def map_of_eq_None_iff)

lemma flying_card: "ms_ok env s \<Longrightarrow> card (flying s) = length (ms_in_flight s)"
  using ms_okD(3) [of env s] by (metis distinct_card flying_def hm_wf_def length_map list.set_map)

lemma touch_same: "flight_of c (touch_request i s) = flight_of c s" "retries_of c (touch_request i s) = retries_of c s"
  "stuck_of c p (touch_request i s) = stuck_of c p s" "ms_now (touch_request i s) = ms_now s"
  by (auto simp: touch_request_def flight_of_def retries_of_def stuck_of_def split: option.splits)

lemma send_same: "flight_of c (snd (send_to env p f s)) = flight_of c s" "retries_of c (snd (send_to env p f s)) = retries_of c s"
  "stuck_of c q (snd (send_to env p f s)) = stuck_of c q s" "ms_now (snd (send_to env p f s)) = ms_now s"
  by (simp_all add: send_to_def case_prod_beta flight_of_def retries_of_def stuck_of_def split: option.splits)

text \<open>A failure counts for its chunk, and the chunk it counts for keeps or loses its request.\<close>

lemma apply_nak_cases:
  assumes "apply_nak i p s = (Inr u, s')"
  shows "s' = s\<lparr>ms_consecutive_stuck := hm_remove (i, p) (ms_consecutive_stuck s)\<rparr> \<and> flight_of i s \<noteq> Some p
    \<or> flight_of i s = Some p \<and> ms_consecutive_stuck s' = hm_remove (i, p) (ms_consecutive_stuck s)
      \<and> ms_chunk_retries s' = count_up i (ms_chunk_retries s)
      \<and> (ms_in_flight s' = ms_in_flight s \<or> ms_in_flight s' = hm_remove i (ms_in_flight s))"
proof (cases "flight_of i s = Some p")
  case False
  then show ?thesis using assms by (auto simp: apply_nak_def Let_def flight_of_def split: option.splits)
next
  case True
  then obtain rec where rec: "hm_get (ms_in_flight s) i = Some rec" "ir_peer_id rec = p" by (auto simp: flight_of_def)
  with assms True show ?thesis
    by (auto simp: apply_nak_def Let_def demote_def release_at_def split: if_splits)
qed

lemma apply_nak_effect:
  assumes "apply_nak i p s = (Inr u, s')"
  shows "flight_of c s' = flight_of c s \<or> c = i \<and> flight_of c s = Some p \<and> flight_of c s' = None"
    and "retries_of c s' = retries_of c s + (if c = i \<and> flight_of i s = Some p then 1 else 0)"
    and "stuck_of c q s' = (if c = i \<and> q = p then 0 else stuck_of c q s)"
  using apply_nak_cases [OF assms]
  by (cases "c = i"; auto simp: flight_of_def retries_of_def stuck_of_def split: option.splits)+

lemma stuck_updates:
  "flight_of c (s\<lparr>ms_consecutive_stuck := m\<rparr>) = flight_of c s" "retries_of c (s\<lparr>ms_consecutive_stuck := m\<rparr>) = retries_of c s"
  "stuck_of c q (s\<lparr>ms_consecutive_stuck := hm_remove (i, p) (count_up (i, p) (ms_consecutive_stuck s))\<rparr>) = (if c = i \<and> q = p then 0 else stuck_of c q s)"
  "stuck_of c q (s\<lparr>ms_consecutive_stuck := count_up (i, p) (ms_consecutive_stuck s)\<rparr>) = (if c = i \<and> q = p then stuck_of c q s + 1 else stuck_of c q s)"
  by (auto simp: flight_of_def retries_of_def stuck_of_def split: option.splits)

lemma nudge_one:
  assumes ok: "ms_ok env s" and run: "nudge env ((i, p) # rest) s = (Inr u, s')"
  obtains s1 where "ms_ok env s1" "nudge env rest s1 = (Inr u, s')" "moods s1 = moods s" "ms_now s1 = ms_now s"
    "\<And>c. flight_of c s1 = flight_of c s \<or> flight_of c s1 = None \<and> distress c s < distress c s1" "\<And>c. distress c s \<le> distress c s1"
    "flight_of i s = Some p \<Longrightarrow> distress i s < distress i s1"
proof (cases "source_of p s")
  case None
  have "flight_of i s \<noteq> Some p"
  proof
    assume "flight_of i s = Some p"
    then obtain rec where "(i, rec) \<in> set (ms_in_flight s)" "ir_peer_id rec = p" by (auto simp: flight_of_def dest: hm_get_SomeD)
    with ms_okD(6) [OF ok] have "p \<in> sh_peer_id ` set (ms_sources s)" by blast
    with None show False by (auto simp: source_of_def find_None_iff_all)
  qed
  with None run ok show thesis by (intro that [of s]) simp_all
next
  case (Some h)
  let ?s1 = "touch_request i (snd (send_to env p (Request \<lparr>rf_download_id = me_id env, rf_chunk_index = i\<rparr>) s))"
  have same: "flight_of c ?s1 = flight_of c s" "retries_of c ?s1 = retries_of c s" "stuck_of c q ?s1 = stuck_of c q s" "ms_now ?s1 = ms_now s"
      "moods ?s1 = moods s" for c q by (simp_all add: touch_same send_same)
  have ok1: "ms_ok env ?s1" by (intro touch_request_ok send_to_ok ok)
  have c: "counters_ok ?s1" using ms_okD(5) [OF ok1] .
  then have "stuck_of i p ?s1 < 3" unfolding counters_ok_def STUCK_REQUEST_DEMOTE_AFTER_def by blast
  then have few: "stuck_of i p s < 3" by (simp only: same)
  show thesis
  proof (cases "STUCK_REQUEST_DEMOTE_AFTER \<le> stuck_of i p s + 1")
    case True
    let ?s2 = "?s1\<lparr>ms_consecutive_stuck := hm_remove (i, p) (count_up (i, p) (ms_consecutive_stuck ?s1))\<rparr>"
    have two: "stuck_of i p s = 2" using True few by (simp add: multi_constants)
    have "counters_ok ?s2" using c by (auto simp: counters_ok_def retries_of_def naks_of_def stuck_of_def multi_constants split: option.splits)
    then have ok2: "ms_ok env ?s2" by (rule counters_only [OF ok1]) simp_all
    from run True obtain v s3 where a: "apply_nak i p ?s2 = (Inr v, s3)" and n: "nudge env rest s3 = (Inr u, s')"
      by (auto simp: nudge_Cons [OF Some] Let_def on_ok_Inr simp del: nudge.simps)
    have f2: "flight_of c ?s2 = flight_of c s" "retries_of c ?s2 = retries_of c s" "stuck_of c q ?s2 = (if c = i \<and> q = p then 0 else stuck_of c q s)" for c q
      by (simp_all only: stuck_updates same)
    note e = apply_nak_effect [OF a, unfolded f2]
    have "moods s3 = moods ?s2" using moods_apply_nak [of i p ?s2] by (simp add: a)
    moreover have "ms_now s3 = ms_now s" using apply_nak_flight(3) [OF a] same(4) by simp
    moreover have up: "distress i s < distress i s3" if "flight_of i s = Some p"
      using that e [of i] two by (auto simp: distress_def split: option.split)
    moreover have "flight_of c s3 = flight_of c s \<or> flight_of c s3 = None \<and> distress c s < distress c s3" for c
      using e(1) [of c] up by auto
    moreover have "distress c s \<le> distress c s3" for c
    proof (cases "c = i \<and> flight_of i s = Some p")
      case True
      with up show ?thesis by auto
    next
      case False
      then show ?thesis using e [of c] by (auto simp: distress_def split: option.split)
    qed
    ultimately show thesis using apply_nak_ok [OF ok2 a] n same(5) by (intro that [of s3]) auto
  next
    case False
    let ?s2 = "?s1\<lparr>ms_consecutive_stuck := count_up (i, p) (ms_consecutive_stuck ?s1)\<rparr>"
    have "counters_ok ?s2" using c False same(3) [of i p]
      by (auto simp: counters_ok_def retries_of_def naks_of_def stuck_of_def multi_constants split: option.splits)
    then have ok2: "ms_ok env ?s2" by (rule counters_only [OF ok1]) simp_all
    from run False have n: "nudge env rest ?s2 = (Inr u, s')" by (simp add: nudge_Cons [OF Some] Let_def del: nudge.simps)
    have f2: "flight_of c ?s2 = flight_of c s" "retries_of c ?s2 = retries_of c s" "stuck_of c q ?s2 = (if c = i \<and> q = p then stuck_of c q s + 1 else stuck_of c q s)" for c q
      by (simp_all only: stuck_updates same)
    show thesis
      using ok2 n same(4,5) f2 by (intro that [of ?s2]) (auto simp: distress_def split: option.split)
  qed
qed

lemma nudge_effect:
  assumes "ms_ok env s" "nudge env xs s = (Inr u, s')"
  shows "ms_ok env s' \<and> moods s' = moods s \<and> ms_now s' = ms_now s
    \<and> (\<forall>c. (flight_of c s' = flight_of c s \<or> flight_of c s' = None) \<and> distress c s \<le> distress c s'
        \<and> (\<forall>p. flight_of c s = Some p \<and> (c, p) \<in> set xs \<longrightarrow> distress c s < distress c s'))"
  using assms
proof (induction xs arbitrary: s)
  case (Cons x xs)
  obtain i p where x: "x = (i, p)" by (cases x)
  from nudge_one [OF Cons.prems(1) Cons.prems(2) [unfolded x]] obtain s1 where one: "ms_ok env s1" "nudge env xs s1 = (Inr u, s')"
      "moods s1 = moods s" "ms_now s1 = ms_now s"
    and fl: "\<And>c. flight_of c s1 = flight_of c s \<or> flight_of c s1 = None \<and> distress c s < distress c s1"
    and up: "\<And>c. distress c s \<le> distress c s1" "flight_of i s = Some p \<Longrightarrow> distress i s < distress i s1" by metis
  note IH = Cons.IH [OF one(1,2)]
  have "(flight_of c s' = flight_of c s \<or> flight_of c s' = None) \<and> distress c s \<le> distress c s'
      \<and> (flight_of c s = Some q \<and> (c, q) \<in> set (x # xs) \<longrightarrow> distress c s < distress c s')" for c q
  proof -
    have le: "distress c s1 \<le> distress c s'" using IH by blast
    have "flight_of c s' = flight_of c s \<or> flight_of c s' = None" using IH fl [of c] by metis
    moreover have "distress c s < distress c s'" if "flight_of c s = Some q" "(c, q) \<in> set (x # xs)"
    proof (cases "flight_of c s1 = flight_of c s")
      case False
      with fl [of c] le show ?thesis by linarith
    next
      case True
      show ?thesis
      proof (cases "(c, q) = x")
        case True
        with up(2) that le show ?thesis by (auto simp: x)
      next
        case False
        then have "distress c s1 < distress c s'" using IH True that by (metis set_ConsD)
        with up(1) [of c] show ?thesis by linarith
      qed
    qed
    ultimately show ?thesis using up(1) [of c] le by auto
  qed
  then show ?case using IH one by metis
qed simp

section \<open>Asking again\<close>

lemma pick_from_Some: "pick_from tried now (Some b) hs \<noteq> None"
  by (induction hs arbitrary: b) auto

lemma pick_None: "pick hs tried now = None \<Longrightarrow> h \<in> set hs \<Longrightarrow> cooling now h \<or> sh_peer_id h \<in> set tried"
  unfolding pick_def by (induction hs) (auto simp: pick_from_Some split: if_splits)

definition no_cooling :: "multi \<Rightarrow> bool" where
  "no_cooling s \<longleftrightarrow> ms_sources s \<noteq> [] \<and> (\<forall>h \<in> set (ms_sources s). \<not> cooling (ms_now s) h)"

definition added :: "multi \<Rightarrow> multi \<Rightarrow> bool" where
  "added s s' \<longleftrightarrow> (\<forall>c. retries_of c s' = retries_of c s \<and> (\<forall>p. stuck_of c p s' = stuck_of c p s)
     \<and> (flight_of c s \<noteq> None \<longrightarrow> hm_get (ms_in_flight s') c = hm_get (ms_in_flight s) c))"

lemma added_flight: "added s s' \<Longrightarrow> flight_of c s = Some p \<Longrightarrow> flight_of c s' = Some p"
  by (auto simp: added_def flight_of_def)

lemma added_trans: "added a b \<Longrightarrow> added b c \<Longrightarrow> added a c"
  unfolding added_def flight_of_def by (metis option.map_disc_iff)

lemma added_refl: "added s s" by (simp add: added_def)

lemma added_distress: "added s s' \<Longrightarrow> distress c s \<le> distress c s'"
  using added_flight [of s s' c] by (cases "flight_of c s") (auto simp: added_def distress_def split: option.split)

lemma dispatch_effect:
  assumes "ms_ok env s" and "distinct is" and "length (ms_in_flight s) < WINDOW_SIZE"
    and "\<forall>i \<in> set is. hm_get (ms_in_flight s) i = None \<and> i \<in> pch_index ` set (dp_chunks (me_plan env)) \<and> i \<notin> set (ms_have s)"
    and "dispatch env is s = (Inr True, s')"
  shows "added s s' \<and> (\<forall>i rest. is = i # rest \<and> no_cooling s \<longrightarrow> flight_of i s' \<noteq> None)"
  using assms
proof (induction "is" arbitrary: s)
  case (Cons i "is")
  show ?case
  proof (cases "pick (ms_sources s) (tried_of i s) (ms_now s)")
    case None
    have "\<not> no_cooling s"
    proof
      assume "no_cooling s"
      then have "ms_sources s \<noteq> []" "list_all (\<lambda>h. sh_peer_id h \<in> set (tried_of i s)) (ms_sources s)"
        using pick_None [OF None] by (auto simp: no_cooling_def list_all_iff)
      with Cons.prems(5) None show False by (simp split: if_splits)
    qed
    with Cons None show ?thesis by (simp split: if_splits)
  next
    case (Some h)
    then have h: "h \<in> set (ms_sources s)" using pick_mem by blast
    from Cons.prems(5) Some obtain s1 where r: "request_from env i h s = (Inr True, s1)"
      and k: "if length (ms_in_flight s1) \<ge> WINDOW_SIZE then s' = s1 else dispatch env is s1 = (Inr True, s')"
      by (auto split: if_splits prod.splits sum.splits bool.splits)
    have i: "hm_get (ms_in_flight s) i = None" "i \<in> pch_index ` set (dp_chunks (me_plan env))" "i \<notin> set (ms_have s)"
      using Cons.prems(4) by auto
    note q = request_from_ok [OF Cons.prems(1) i Cons.prems(3) h r]
    from q(4) obtain t where fl: "ms_in_flight s1 = hm_insert i \<lparr>ir_peer_id = sh_peer_id h, ir_requested_at = t\<rparr> (ms_in_flight s)" by auto
    have one: "added s s1" using i(1) q(6,7) by (auto simp: added_def flight_of_def retries_of_def stuck_of_def fl)
    have here: "flight_of i s1 \<noteq> None" by (simp add: flight_of_def fl)
    show ?thesis
    proof (cases "length (ms_in_flight s1) \<ge> WINDOW_SIZE")
      case True
      with k one here show ?thesis by auto
    next
      case False
      with k have d: "dispatch env is s1 = (Inr True, s')" by auto
      have "\<forall>j \<in> set is. hm_get (ms_in_flight s1) j = None \<and> j \<in> pch_index ` set (dp_chunks (me_plan env)) \<and> j \<notin> set (ms_have s1)"
        using Cons.prems(2,4) q(2) by (auto simp: fl)
      with Cons.IH [OF q(1) _ _ _ d] Cons.prems(2) False have two: "added s1 s'" by auto
      then have "flight_of i s' \<noteq> None" using here added_flight by fastforce
      with added_trans [OF one two] show ?thesis by auto
    qed
  qed
qed (simp add: added_refl)

lemma refill_effect:
  assumes "plan_ok env" "ms_ok env s" "refill env s = (Inr True, s')"
  shows "added s s'" "moods s' = moods s" "WINDOW_SIZE \<le> length (ms_in_flight s) \<Longrightarrow> s' = s"
    and "length (ms_in_flight s) < WINDOW_SIZE \<Longrightarrow> pending env s = c # rest \<Longrightarrow> no_cooling s \<Longrightarrow> flight_of c s' \<noteq> None"
proof -
  have dist: "distinct (pending env s)" using assms(1) by (simp add: plan_ok_def pending_def)
  have new: "\<forall>i \<in> set (pending env s). hm_get (ms_in_flight s) i = None \<and> i \<in> pch_index ` set (dp_chunks (me_plan env)) \<and> i \<notin> set (ms_have s)"
    by (auto simp: pending_def hm_contains_def)
  show "added s s'" using dispatch_effect [OF assms(2) dist _ new] assms(3) by (auto simp: refill_def added_refl split: if_splits)
  show "moods s' = moods s" using assms(3) by (auto simp: refill_def split: if_splits dest: moods_dispatch)
  show "WINDOW_SIZE \<le> length (ms_in_flight s) \<Longrightarrow> s' = s" using assms(3) by (simp add: refill_def)
  show "flight_of c s' \<noteq> None" if "length (ms_in_flight s) < WINDOW_SIZE" "pending env s = c # rest" "no_cooling s"
    using dispatch_effect [OF assms(2) dist that(1) new] assms(3) that by (auto simp: refill_def)
qed

section \<open>A silent turn\<close>

definition missing :: "multi_env \<Rightarrow> multi \<Rightarrow> nat list" where
  "missing env s = filter (\<lambda>i. i \<notin> set (ms_have s)) (map pch_index (dp_chunks (me_plan env)))"

text \<open>What holds while a download waits in silence since the time \<open>T\<close>.\<close>

definition silent :: "multi_env \<Rightarrow> nat \<Rightarrow> nat \<Rightarrow> multi \<Rightarrow> bool" where
  "silent env T c s \<longleftrightarrow> ms_phase s = MsWaiting \<and> ms_ok env s \<and> (\<exists>rest. missing env s = c # rest)
     \<and> moods s \<noteq> [] \<and> (\<forall>(u, since) \<in> set (moods s). case since of Some t \<Rightarrow> u \<longrightarrow> t \<le> T | None \<Rightarrow> True)"

lemma silent_tick:
  assumes plan: "plan_ok env" and s: "silent env T c s" and dt: "2000 \<le> dt" and wait: "ms_phase (ms_step env s (dt, EvTick)) = MsWaiting"
  defines "s' \<equiv> ms_step env s (dt, EvTick)"
  shows "silent env T c s'" "ms_now s + dt \<le> ms_now s'"
    and "flight_of d s \<noteq> None \<Longrightarrow> distress d s < distress d s' \<and> (length (ms_in_flight s') < WINDOW_SIZE \<or> length (ms_in_flight s) < WINDOW_SIZE \<or> flight_of d s' \<noteq> None)"
    and "flight_of c s \<noteq> None \<or> length (ms_in_flight s) < WINDOW_SIZE \<Longrightarrow> T + 30000 \<le> ms_now s + dt \<Longrightarrow>
      distress c s < distress c s' \<and> (flight_of c s' \<noteq> None \<or> length (ms_in_flight s') < WINDOW_SIZE)"
proof -
  let ?s1 = "maybe_recover_sources (at_time (ms_now s + dt) s)"
  have ok: "ms_ok env s" and phase: "ms_phase s = MsWaiting" using s by (simp_all add: silent_def)
  have ok1: "ms_ok env ?s1" by (intro recover_ok at_time_ok ok) simp
  have same1: "ms_have ?s1 = ms_have s" "ms_in_flight ?s1 = ms_in_flight s" "ms_now ?s1 = ms_now s + dt" "added s ?s1"
    by (simp_all add: maybe_recover_sources_def added_def flight_of_def retries_of_def stuck_of_def)
  from wait phase obtain s2 s3 u where r: "refill env ?s1 = (Inr True, s2)" and n: "nudge env (stuck_now s2) s2 = (Inr u, s3)"
    and s': "s' = s3\<lparr>ms_phase := MsWaiting\<rparr>"
    unfolding s'_def
    by (auto simp: ms_step_def ms_receive_def ms_settle_def ms_loop_top_def on_ok_def split: prod.splits sum.splits if_splits)
  note fill = refill_ok [OF plan ok1 r] and add = refill_effect [OF plan ok1 r]
  note nud = nudge_effect [OF fill(1) n]
  have state: "ms_in_flight s' = ms_in_flight s3" "ms_now s' = ms_now s3" "moods s' = moods s3" "distress j s' = distress j s3"
      "flight_of j s' = flight_of j s3" for j
    by (simp_all add: s' moods_def distress_def flight_of_def retries_of_def stuck_of_def split: option.splits)
  have have_same: "ms_have s' = ms_have s" using nudge_ok [OF fill(1) n] fill(2) same1(1) by (simp add: s')
  have later: "ms_now s + dt \<le> ms_now s'" using fill(3) nud same1(3) state(2) by simp
  have fewer: "length (ms_in_flight s') < length (ms_in_flight s2)" if "flight_of j s2 \<noteq> None" "flight_of j s' = None" for j
  proof -
    have "flying s3 \<subseteq> flying s2" using nud by (auto simp: flying_iff) (metis option.distinct(1))
    moreover have "j \<in> flying s2 - flying s3" using that state(5) by (simp add: flying_iff)
    ultimately have "card (flying s3) < card (flying s2)" by (intro psubset_card_mono) (auto simp: flying_def)
    then show ?thesis using nud fill(1) state(1) by (metis flying_card)
  qed
  have mood1: "\<forall>(u, since) \<in> set (moods ?s1). case since of Some t \<Rightarrow> u \<longrightarrow> t \<le> T | None \<Rightarrow> True"
  proof -
    have old: "\<forall>(u, since) \<in> set (moods s). case since of Some t \<Rightarrow> u \<longrightarrow> t \<le> T | None \<Rightarrow> True" using s by (simp add: silent_def)
    have "case sh_unavailable_since (recover n h) of Some t \<Rightarrow> sh_unavailable (recover n h) \<longrightarrow> t \<le> T | None \<Rightarrow> True"
      if "h \<in> set (ms_sources s)" for n h
    proof -
      have "case sh_unavailable_since h of Some t \<Rightarrow> sh_unavailable h \<longrightarrow> t \<le> T | None \<Rightarrow> True" using old that by (simp add: moods_def)
      then show ?thesis by (simp add: recover_def split: option.splits)
    qed
    then show ?thesis by (auto simp: moods_def maybe_recover_sources_def)
  qed
  have mood2: "moods s' = moods ?s1" using nud add(2) state(3) by simp
  show "silent env T c s'" 
  proof -
    have "ms_ok env s3" using nud by blast
    then have "ms_ok env s'" by (rule ms_ok_same) (simp_all add: s')
    moreover have "missing env s' = missing env s" using have_same by (simp add: missing_def)
    moreover have "moods s' \<noteq> []" using s mood2 by (simp add: silent_def moods_def maybe_recover_sources_def)
    ultimately show ?thesis using s mood1 mood2 by (simp add: silent_def s')
  qed
  show "ms_now s + dt \<le> ms_now s'" by (rule later)
  have stuck: "distress j s < distress j s'" if "flight_of j s = Some p" for j p
  proof -
    from that obtain rec where rec: "hm_get (ms_in_flight s) j = Some rec" "ir_peer_id rec = p" by (auto simp: flight_of_def)
    have "hm_get (ms_in_flight s2) j = Some rec" using add(1) same1(2) that rec(1) by (simp add: added_def flight_of_def)
    moreover have "ir_requested_at rec \<le> ms_now s" using ms_okD(6) [OF ok hm_get_SomeD [OF rec(1)]] by simp
    ultimately have "(j, p) \<in> set (stuck_now s2)" using fill(3) same1(3) dt rec(2)
      by (auto simp: stuck_now_def STUCK_REQUEST_RETRY_def intro!: image_eqI [where x = "(j, rec)"] dest: hm_get_SomeD)
    moreover have "flight_of j s2 = Some p" using added_flight [OF added_trans [OF same1(4) add(1)] that] .
    ultimately have "distress j s2 < distress j s3" using nud by blast
    with added_distress [OF added_trans [OF same1(4) add(1)], of j] show ?thesis by (simp add: state(4))
  qed
  show "distress d s < distress d s' \<and> (length (ms_in_flight s') < WINDOW_SIZE \<or> length (ms_in_flight s) < WINDOW_SIZE \<or> flight_of d s' \<noteq> None)"
    if d: "flight_of d s \<noteq> None"
  proof -
    from d obtain p where p: "flight_of d s = Some p" by blast
    have "length (ms_in_flight s') < WINDOW_SIZE" if "\<not> length (ms_in_flight s) < WINDOW_SIZE" "flight_of d s' = None"
      using fewer [of d] that added_flight [OF added_trans [OF same1(4) add(1)] p] ms_okD(4) [OF fill(1)] by simp
    with stuck [OF p] show ?thesis by auto
  qed
  show "distress c s < distress c s' \<and> (flight_of c s' \<noteq> None \<or> length (ms_in_flight s') < WINDOW_SIZE)"
    if c: "flight_of c s \<noteq> None \<or> length (ms_in_flight s) < WINDOW_SIZE" and old: "T + 30000 \<le> ms_now s + dt"
  proof -
    have fly: "flight_of c s2 \<noteq> None"
    proof (cases "flight_of c s")
      case (Some p)
      then show ?thesis using added_flight [OF added_trans [OF same1(4) add(1)] Some] by simp
    next
      case None
      from s obtain rest where rest: "missing env s = c # rest" by (auto simp: silent_def)
      have "pending env ?s1 = filter (\<lambda>i. \<not> hm_contains (ms_in_flight s) i) (missing env s)"
        by (simp add: pending_def missing_def same1(1,2) conj_commute)
      also have "\<dots> = c # filter (\<lambda>i. \<not> hm_contains (ms_in_flight s) i) rest"
        using None by (simp add: rest hm_contains_def flight_of_def)
      finally have "pending env ?s1 = c # filter (\<lambda>i. \<not> hm_contains (ms_in_flight s) i) rest" .
      moreover have "no_cooling ?s1"
      proof -
        have "ms_sources ?s1 \<noteq> []" using s by (simp add: silent_def moods_def maybe_recover_sources_def)
        moreover have "\<not> cooling (ms_now ?s1) h" if "h \<in> set (ms_sources ?s1)" for h
        proof -
          have "(sh_unavailable h, sh_unavailable_since h) \<in> set (moods ?s1)" using that by (simp add: moods_def)
          with mood1 old show ?thesis by (fastforce simp: cooling_def same1(3) RTT_COOLDOWN_def split: option.splits)
        qed
        ultimately show ?thesis by (simp add: no_cooling_def)
      qed
      ultimately show ?thesis using add(4) c None same1(2) by simp
    qed
    have "distress c s < distress c s'"
    proof (cases "flight_of c s")
      case (Some p)
      then show ?thesis by (rule stuck)
    next
      case None
      with fly added_trans [OF same1(4) add(1)] have "distress c s < distress c s2" by (auto simp: distress_def added_def)
      moreover have "distress c s2 \<le> distress c s3" using nud by blast
      ultimately show ?thesis by (simp add: state(4))
    qed
    moreover have "length (ms_in_flight s') < WINDOW_SIZE" if "flight_of c s' = None"
      using fewer [OF fly that] ms_okD(4) [OF fill(1)] by simp
    ultimately show ?thesis by blast
  qed
qed

section \<open>Property\<close>

definition silence :: "(nat \<times> multi_event) list \<Rightarrow> bool" where
  "silence ticks \<longleftrightarrow> list_all (\<lambda>(dt, ev). 2000 \<le> dt \<and> ev = EvTick) ticks"

lemma run_over: "ms_phase s \<noteq> MsWaiting \<Longrightarrow> foldl (ms_step env) s xs = s"
  by (induction xs) (auto simp: ms_step_def split: multi_phase.splits)

lemma silent_run:
  assumes "plan_ok env" "silent env T c s" "silence ticks" "ms_phase (foldl (ms_step env) s ticks) = MsWaiting"
  shows "silent env T c (foldl (ms_step env) s ticks) \<and> ms_now s + 2000 * length ticks \<le> ms_now (foldl (ms_step env) s ticks)"
  using assms(2-)
proof (induction ticks arbitrary: s)
  case (Cons x ticks)
  then obtain dt where x: "x = (dt, EvTick)" "2000 \<le> dt" by (auto simp: silence_def)
  have w: "ms_phase (ms_step env s (dt, EvTick)) = MsWaiting" using Cons.prems(3) run_over [of "ms_step env s x" env ticks] x by fastforce
  note t = silent_tick [OF assms(1) Cons.prems(1) x(2) w]
  from Cons.IH [OF t(1)] Cons.prems t(2) x show ?case by (auto simp: silence_def)
qed simp

lemma window_opens:
  assumes "plan_ok env" "silent env T c s" "silence ticks" "ms_phase (foldl (ms_step env) s ticks) = MsWaiting"
    and "flight_of d s \<noteq> None" "20 \<le> distress d s + length ticks"
  shows "\<exists>k \<le> length ticks. length (ms_in_flight (foldl (ms_step env) s (take k ticks))) < WINDOW_SIZE"
  using assms(2-)
proof (induction ticks arbitrary: s)
  case Nil
  with distress_bound [of s d] show ?case by (simp add: silent_def ms_ok_def)
next
  case (Cons x ticks)
  then obtain dt where x: "x = (dt, EvTick)" "2000 \<le> dt" by (auto simp: silence_def)
  have w: "ms_phase (ms_step env s (dt, EvTick)) = MsWaiting" using Cons.prems(3) run_over [of "ms_step env s x" env ticks] x by fastforce
  let ?s' = "ms_step env s (dt, EvTick)"
  note t = silent_tick [OF assms(1) Cons.prems(1) x(2) w]
  consider "length (ms_in_flight s) < WINDOW_SIZE" | "length (ms_in_flight ?s') < WINDOW_SIZE" | "flight_of d ?s' \<noteq> None" "distress d s < distress d ?s'"
    using t(3) [OF Cons.prems(4)] by blast
  then show ?case
  proof cases
    case 1
    then show ?thesis by (intro exI [of _ 0]) simp
  next
    case 2
    then show ?thesis by (intro exI [of _ 1]) (simp add: x)
  next
    case 3
    have "silence ticks" "ms_phase (foldl (ms_step env) ?s' ticks) = MsWaiting" using Cons.prems(2,3) by (simp_all add: silence_def x)
    from Cons.IH [OF t(1) this 3(1)] 3(2) Cons.prems(5) obtain k where "k \<le> length ticks"
      "length (ms_in_flight (foldl (ms_step env) ?s' (take k ticks))) < WINDOW_SIZE" by auto
    then show ?thesis by (intro exI [of _ "Suc k"]) (simp add: x)
  qed
qed

lemma distress_grows:
  assumes "plan_ok env" "silent env T c s" "silence ticks" "ms_phase (foldl (ms_step env) s ticks) = MsWaiting"
    and "T + 30000 \<le> ms_now s" "flight_of c s \<noteq> None \<or> length (ms_in_flight s) < WINDOW_SIZE"
  shows "distress c s + length ticks \<le> 19"
  using assms(2-)
proof (induction ticks arbitrary: s)
  case Nil
  with distress_bound [of s c] show ?case by (simp add: silent_def ms_ok_def)
next
  case (Cons x ticks)
  then obtain dt where x: "x = (dt, EvTick)" "2000 \<le> dt" by (auto simp: silence_def)
  have w: "ms_phase (ms_step env s (dt, EvTick)) = MsWaiting" using Cons.prems(3) run_over [of "ms_step env s x" env ticks] x by fastforce
  let ?s' = "ms_step env s (dt, EvTick)"
  note t = silent_tick [OF assms(1) Cons.prems(1) x(2) w]
  from t(4) [OF Cons.prems(5)] Cons.prems(4) have up: "distress c s < distress c ?s'"
    and fl: "flight_of c ?s' \<noteq> None \<or> length (ms_in_flight ?s') < WINDOW_SIZE" by auto
  have "silence ticks" "ms_phase (foldl (ms_step env) ?s' ticks) = MsWaiting" using Cons.prems(2,3) by (simp_all add: silence_def x)
  from Cons.IH [OF t(1) this _ fl] t(2) Cons.prems(4) up show ?case by simp
qed

text \<open>Ticks in three parts: until no source cools down, until the window has room, until the first missing chunk has failed.\<close>

lemma silent_ends:
  assumes "plan_ok env" "silent env T c s" "ms_now s = T" "silence ticks" "55 \<le> length ticks"
  shows "ms_phase (foldl (ms_step env) s ticks) \<noteq> MsWaiting"
proof
  assume wait: "ms_phase (foldl (ms_step env) s ticks) = MsWaiting"
  let ?at = "\<lambda>k. foldl (ms_step env) s (take k ticks)"
  have split: "foldl (ms_step env) (?at k) (drop k ticks) = foldl (ms_step env) s ticks" for k
    by (metis append_take_drop_id foldl_append)
  have quiet: "silence (take k ticks)" "silence (drop k ticks)" "silence (take j (drop k ticks))" for k j
    using assms(4) by (auto simp: silence_def list_all_iff dest: in_set_takeD in_set_dropD)
  have waits: "ms_phase (?at k) = MsWaiting" for k using wait run_over [of "?at k" env "drop k ticks"] split [of k] by fastforce
  have here: "silent env T c (?at k)" "T + 2000 * min k (length ticks) \<le> ms_now (?at k)" for k
    using silent_run [OF assms(1,2) quiet(1) waits] assms(3) by (simp_all add: min.commute)
  have "\<exists>k. 15 \<le> k \<and> k \<le> 35 \<and> (flight_of c (?at k) \<noteq> None \<or> length (ms_in_flight (?at k)) < WINDOW_SIZE)"
  proof (cases "ms_in_flight (?at 15) = []")
    case True
    then show ?thesis by (intro exI [of _ 15]) (simp add: WINDOW_SIZE_def)
  next
    case False
    then obtain d rec fl where "ms_in_flight (?at 15) = (d, rec) # fl" by (metis neq_Nil_conv surj_pair)
    then have d: "flight_of d (?at 15) \<noteq> None" by (simp add: flight_of_def)
    have more: "foldl (ms_step env) (?at 15) (take k (drop 15 ticks)) = ?at (15 + k)" for k
      by (metis foldl_append take_add)
    have "ms_phase (foldl (ms_step env) (?at 15) (take 20 (drop 15 ticks))) = MsWaiting" unfolding more by (rule waits)
    moreover have long: "length (take 20 (drop 15 ticks)) = 20" using assms(5) by simp
    ultimately obtain k where k: "k \<le> 20"
      "length (ms_in_flight (foldl (ms_step env) (?at 15) (take k (take 20 (drop 15 ticks))))) < WINDOW_SIZE"
      using window_opens [OF assms(1) here(1) quiet(3) _ d, of 20 15] by auto
    then have "length (ms_in_flight (?at (15 + k))) < WINDOW_SIZE" by (simp add: more min_def)
    with k(1) show ?thesis by (intro exI [of _ "15 + k"]) simp
  qed
  then obtain k where k: "15 \<le> k" "k \<le> 35" "flight_of c (?at k) \<noteq> None \<or> length (ms_in_flight (?at k)) < WINDOW_SIZE" by blast
  have "T + 30000 \<le> ms_now (?at k)" using here(2) [of k] k assms(5) by simp
  moreover have "ms_phase (foldl (ms_step env) (?at k) (drop k ticks)) = MsWaiting" using split [of k] wait by simp
  ultimately have "length (drop k ticks) \<le> 19" using distress_grows [OF assms(1) here(1) quiet(2) _ _ k(3)] by fastforce
  with k assms(5) show False by simp
qed

lemma nothing_missing_ends:
  assumes "ms_phase s = MsWaiting" "missing env s = []" "distinct (map pch_index (dp_chunks (me_plan env)))"
    "length (dp_chunks (me_plan env)) < 2 ^ 32" "length (ms_have s) < 2 ^ 32"
  shows "ms_phase (ms_step env s (dt, EvTick)) \<noteq> MsWaiting"
proof -
  have "set (map pch_index (dp_chunks (me_plan env))) \<subseteq> set (ms_have s)" using assms(2) by (auto simp: missing_def filter_empty_conv)
  then have "card (set (map pch_index (dp_chunks (me_plan env)))) \<le> card (set (ms_have s))" by (rule card_mono [rotated]) simp
  then have "length (dp_chunks (me_plan env)) \<le> length (ms_have s)"
    using assms(3) card_length [of "ms_have s"] by (metis distinct_card le_trans length_map)
  then have "ms_loop_top env (at_time (ms_now s + dt) s) = on_ok (ms_finish env (at_time (ms_now s + dt) s)) (\<lambda>st s. (Inr (TurnReturn st), s))"
    using assms(4,5) by (simp add: ms_loop_top_def)
  then show ?thesis using assms(1)
    by (auto simp: ms_step_def ms_receive_def ms_settle_def on_ok_def split: prod.splits sum.splits)
qed


section \<open>The witness\<close>

lemma have_same [simp]: "ms_have (snd (ms_stored f s)) = ms_have s" "ms_have (ms_report st m s) = ms_have s" "ms_have (ms_report_end st m s) = ms_have s"
  "ms_have (close_sources s) = ms_have s" "ms_have (ms_fail t s) = ms_have s" "ms_have (snd (ms_on_disk g s)) = ms_have s"
  "ms_have (snd (send_to env p f' s)) = ms_have s" "ms_have (maybe_recover_sources s) = ms_have s" "ms_have (touch_request i s) = ms_have s"
  "ms_have (snd (apply_nak i p s)) = ms_have s" "ms_have (snd (ms_greet env c s)) = ms_have s"
  by (simp_all add: ms_stored_def ms_report_def ms_report_end_def close_sources_def ms_fail_def ms_on_disk_def send_to_def ms_greet_def
      maybe_recover_sources_def touch_request_def apply_nak_def demote_def Let_def case_prod_beta split: option.splits sum.splits)

lemma have_request_from: "ms_have (snd (request_from env i h s)) = ms_have s"
proof -
  have "send_to env p f s1 = (r, s2) \<Longrightarrow> ms_have s2 = ms_have s1" for p f s1 r s2 by (metis have_same(7) snd_conv)
  then show ?thesis by (auto simp: request_from_def Let_def split: prod.splits option.splits sum.splits)
qed

lemma have_dispatch: "ms_have (snd (dispatch env is s)) = ms_have s"
proof (induction "is" arbitrary: s)
  case (Cons i "is")
  have "request_from env i h s = (r, s1) \<Longrightarrow> ms_have s1 = ms_have s" for h r s1 by (metis have_request_from snd_conv)
  with Cons show ?case by (auto split: option.splits prod.splits sum.splits bool.splits)
qed simp

lemma have_nudge: "ms_have (snd (nudge env xs s)) = ms_have s"
proof (induction xs arbitrary: s)
  case (Cons x xs)
  obtain i p where x: "x = (i, p)" by (cases x)
  have nak: "ms_have (snd (on_ok (apply_nak i p s1) (\<lambda>_. nudge env xs))) = ms_have s1" for s1
    by (rule on_ok_same [where g = ms_have]) (simp_all add: Cons.IH)
  show ?case using Cons.IH by (simp add: x Let_def nak split: option.splits)
qed simp

lemma have_loop_top: "ms_have (snd (ms_loop_top env s)) = ms_have s"
proof -
  have with_message: "ms_have (snd (ms_with_message m k s)) = ms_have s" if "\<And>t. ms_have (snd (k t s)) = ms_have s" for m and k :: "rstring \<Rightarrow> multi \<Rightarrow> 'a run" and s
    using that by (simp add: ms_with_message_def split: option.splits)
  have after: "ms_have (snd (ms_after_assembly env res s)) = ms_have s" for res s
    unfolding ms_after_assembly_def Let_def
    by (auto split: sum.splits intro!: with_message on_ok_same [where g = ms_have, THEN trans])
  have finish: "ms_have (snd (ms_finish env s)) = ms_have s"
    unfolding ms_finish_def by (rule on_ok_same [where g = ms_have]) (simp_all add: after case_prod_beta)
  have go: "ms_have (snd (on_ok (nudge env xs s) (\<lambda>_ s. (Inr TurnWait, s)))) = ms_have s" for xs s
    by (rule on_ok_same [where g = ms_have]) (simp_all add: have_nudge)
  have filled: "ms_have (snd (refill env s)) = ms_have s" for s by (simp add: refill_def have_dispatch)
  show ?thesis unfolding ms_loop_top_def
    by (auto intro!: on_ok_same [where g = ms_have, THEN trans] simp: finish filled go)
qed

lemma have_start:
  assumes "db_ready (me_session env) DsPending (ms_db s)"
  shows "set (ms_have (snd (ms_start env s))) \<subseteq> set (ms_have s) \<union> set (indices_where is_complete_chunk (me_id env) (ms_db s))"
proof -
  let ?s1 = "ms_report DsPending None s"
  have db1: "ms_db ?s1 = ms_db s" by (simp add: ms_report_def)
  from fetch_ready [OF assms] obtain d where d: "fetch_download (me_id env) (ms_db s) = (Inr d, ms_db s)" "dl_state d = DsPending" by blast
  from transition_ready [OF assms, of DsConnecting] obtain db2 where t1:
    "transition (me_id env) DsConnecting (ms_db s) = (Inr (), db2)" "db_ready (me_session env) DsConnecting db2" "dd_chunks db2 = dd_chunks (ms_db s)"
    by auto
  from transition_ready [OF t1(2), of DsTransferring] obtain db3 where t2:
    "transition (me_id env) DsTransferring db2 = (Inr (), db3)" "db_ready (me_session env) DsTransferring db3" "dd_chunks db3 = dd_chunks db2" by auto
  let ?ind = "indices_where is_complete_chunk (me_id env) (ms_db s)"
  have ind: "completed_chunk_indices (me_id env) db3 = (Inr ?ind, db3)"
    using indices_ready [OF t2(2)] indices_where_cong [of db3 "ms_db s"] t1(3) t2(3) by simp
  let ?s4 = "ms_report DsTransferring None ((ms_report DsConnecting None (?s1\<lparr>ms_db := db2\<rparr>))\<lparr>ms_db := db3\<rparr>)"
  have db4: "ms_db ?s4 = db3" "ms_have ?s4 = ms_have s" by (simp_all add: ms_report_def)
  obtain r s5 where g: "ms_greet env ?ind (?s4\<lparr>ms_db := db3\<rparr>) = (r, s5)" by fastforce
  have s5: "ms_have s5 = ms_have s" "ms_db s5 = db3"
    using have_same(11) [of env ?ind "?s4\<lparr>ms_db := db3\<rparr>"] g db4
    by (auto simp: ms_greet_def Let_def case_prod_beta split: sum.splits)
  have "ms_start env s = (case r of Inl e \<Rightarrow> (Inl e, s5)
      | Inr _ \<Rightarrow> ms_loop_top env (s5\<lparr>ms_db := db3, ms_have := remdups ?ind, ms_transferred := held_bytes env ?ind\<rparr>))"
    using d t1(1) t2(1) ind g db1 db4 s5
    by (simp add: ms_start_def Let_def ms_stored_def map_err_def on_ok_def ms_report_def case_prod_beta split: sum.splits)
  then show ?thesis using s5 have_loop_top [of env "s5\<lparr>ms_db := db3, ms_have := remdups ?ind, ms_transferred := held_bytes env ?ind\<rparr>"]
    by (auto split: sum.splits)
qed

lemma have_settle: "ms_have (ms_settle env (r, s)) = ms_have s"
proof -
  have discard: "ms_have (discard_scratch_after_terminal_failure env t) = ms_have t" for t
    using have_same(1) [of "fetch_download (me_id env)" t]
    by (simp add: discard_scratch_after_terminal_failure_def case_prod_beta)
  have rec_have: "ms_have (snd (record_terminal_state_after_error env e t)) = ms_have t" for e t
    using have_same(1) [of "fetch_download (me_id env)" t]
    by (simp add: record_terminal_state_after_error_def case_prod_beta ms_with_message_def split: option.split)
  have "record_terminal_state_after_error env e s = (q, t) \<Longrightarrow> ms_have t = ms_have s" for e q t by (metis rec_have snd_conv)
  then show ?thesis by (auto simp: ms_settle_def discard split: sum.splits turn.splits prod.splits)
qed

lemma duo_starts: "ms_have (run_multi_source duo_env tiny_db \<lparr>dk_files = [], dk_faults = []\<rparr> duo_sources polls 0 []) = []"
proof -
  let ?s = "\<lparr>ms_db = tiny_db, ms_disk = \<lparr>dk_files = [], dk_faults = []\<rparr>, ms_emitter = emitter_new 0, ms_sources = duo_sources, ms_in_flight = [],
        ms_chunk_retries = [], ms_chunk_tried = [], ms_nak_counters = [], ms_consecutive_stuck = [],
        ms_verified_sources = [], ms_have = [], ms_transferred = 0, ms_now = 0, ms_polls = polls, ms_phase = MsWaiting\<rparr>"
  have "db_ready (me_session duo_env) DsPending (ms_db ?s)"
    by (simp add: db_ready_def tiny_db_def duo_env_def tiny_env_def tiny_plan_def count_chunks_def chunks_of_def)
  moreover have "indices_where is_complete_chunk (me_id duo_env) (ms_db ?s) = []"
    by (simp add: indices_where_def chunks_of_def tiny_db_def duo_env_def tiny_env_def tiny_plan_def is_complete_chunk_def)
  ultimately have "ms_have (snd (ms_start duo_env ?s)) = []" using have_start [of duo_env ?s] by simp
  then show ?thesis using have_settle [of duo_env "fst (ms_start duo_env ?s)" "snd (ms_start duo_env ?s)"]
    by (simp add: run_multi_source_def ms_init_def)
qed


end
