(* ===== verification/PlaybackNumbering.thy ===== *)
theory PlaybackNumbering
  imports Playback
begin

text \<open>
  How the desktop client numbers its playback commands, \<open>PlaybackSeq\<close> of \<open>net/room.rs\<close>, and how it
  recovers when some were lost: against the server's own check in \<open>rooms/playback.rs\<close>.
\<close>

section \<open>The numbering\<close>

definition PLAYBACK_REPLAY_WINDOW :: nat where "PLAYBACK_REPLAY_WINDOW = 16"

record sent_playback =
  sp_seq :: nat
  sp_action :: playback_action
  sp_media_position_ms :: nat

record playback_seq =
  pq_next :: nat
  pq_sent :: "sent_playback list"
  pq_replayed_for :: "nat option"
  pq_known_expected :: nat

definition playback_seq_new :: playback_seq where
  "playback_seq_new = \<lparr>pq_next = 1, pq_sent = [], pq_replayed_for = None, pq_known_expected = 0\<rparr>"

text \<open>\<open>number\<close>: the new command's number. The \<open>while\<close> loop keeps the newest sixteen.\<close>

definition number_command :: "playback_action \<Rightarrow> nat \<Rightarrow> playback_seq \<Rightarrow> nat \<times> playback_seq" where
  "number_command action pos q =
     (let seq = pq_next q;
          sent = pq_sent q @ [\<lparr>sp_seq = seq, sp_action = action, sp_media_position_ms = pos\<rparr>]
      in (seq, q\<lparr>pq_next := wrapping_add_u64 seq 1,
                 pq_sent := drop (length sent - PLAYBACK_REPLAY_WINDOW) sent,
                 pq_replayed_for := None\<rparr>))"

definition give_back :: "nat \<Rightarrow> playback_seq \<Rightarrow> playback_seq" where
  "give_back seq q =
     (if pq_next q = wrapping_add_u64 seq 1 then q\<lparr>pq_next := seq, pq_sent := butlast (pq_sent q)\<rparr> else q)"

definition plan_resync :: "nat \<Rightarrow> bool \<Rightarrow> playback_seq \<Rightarrow> sent_playback list \<times> playback_seq" where
  "plan_resync expected state_refusal q0 =
     (if expected < pq_known_expected q0 then ([], q0)
      else let q = q0\<lparr>pq_known_expected := expected\<rparr>
           in if pq_sent q = [] \<or> sp_seq (List.last (pq_sent q)) < expected
              then ([], q\<lparr>pq_next := expected\<rparr>)
              else if pq_replayed_for q = Some expected then ([], q)
              else let kept = filter (\<lambda>c. sp_seq c \<ge> expected) (pq_sent q);
                       usable = (if state_refusal then dropWhile (\<lambda>c. sp_action c \<noteq> Play) kept else kept);
                       sent = map (\<lambda>(i, c). c\<lparr>sp_seq := wrapping_add_u64 expected i\<rparr>) (List.enumerate 0 usable)
                   in (sent, q\<lparr>pq_replayed_for := Some expected, pq_sent := sent,
                              pq_next := wrapping_add_u64 expected (length sent)\<rparr>))"

section \<open>Operations in any order\<close>

datatype playback_seq_op = PqNumber playback_action nat | PqGiveBack nat | PqResync nat bool

fun playback_seq_step :: "playback_seq \<Rightarrow> playback_seq_op \<Rightarrow> playback_seq" where
  "playback_seq_step q (PqNumber action pos) = snd (number_command action pos q)"
| "playback_seq_step q (PqGiveBack seq) = give_back seq q"
| "playback_seq_step q (PqResync expected refusal) = snd (plan_resync expected refusal q)"

text \<open>What the client remembers is bounded and carries rising numbers below the next one.\<close>

definition playback_seq_ok :: "playback_seq \<Rightarrow> bool" where
  "playback_seq_ok q \<longleftrightarrow> length (pq_sent q) \<le> PLAYBACK_REPLAY_WINDOW
     \<and> sorted_wrt (<) (map sp_seq (pq_sent q)) \<and> (\<forall>c \<in> set (pq_sent q). sp_seq c < pq_next q)"

text \<open>Numbers stay far from the end of their range.\<close>

definition in_range :: "playback_seq_op \<Rightarrow> bool" where
  "in_range op \<longleftrightarrow> (case op of PqNumber _ _ \<Rightarrow> True | PqGiveBack seq \<Rightarrow> seq < u64_max | PqResync expected _ \<Rightarrow> expected \<le> 2 ^ 62)"

lemma sorted_wrt_drop_map: "sorted_wrt R (map f xs) \<Longrightarrow> sorted_wrt R (map f (drop n xs))"
  by (metis append_take_drop_id map_append sorted_wrt_append)

lemma number_command_ok:
  assumes "playback_seq_ok q" "pq_next q < u64_max"
  shows "playback_seq_ok (snd (number_command a p q))"
proof -
  let ?sent = "pq_sent q @ [\<lparr>sp_seq = pq_next q, sp_action = a, sp_media_position_ms = p\<rparr>]"
  have nx: "wrapping_add_u64 (pq_next q) 1 = pq_next q + 1" using assms(2) by (intro wrapping_add_u64_small) simp
  have "sorted_wrt (<) (map sp_seq ?sent)" using assms(1) by (auto simp: playback_seq_ok_def sorted_wrt_append)
  then have "sorted_wrt (<) (map sp_seq (drop (length ?sent - PLAYBACK_REPLAY_WINDOW) ?sent))" by (rule sorted_wrt_drop_map)
  moreover have "\<forall>c \<in> set ?sent. sp_seq c < pq_next q + 1" using assms(1) by (auto simp: playback_seq_ok_def)
  ultimately show ?thesis
    by (auto simp: number_command_def Let_def playback_seq_ok_def nx [simplified] dest!: in_set_dropD)
qed

lemma resent_numbers:
  assumes "expected + length xs \<le> u64_max"
  shows "map sp_seq (map (\<lambda>(i, c). c\<lparr>sp_seq := wrapping_add_u64 expected i\<rparr>) (List.enumerate 0 xs)) = [expected..<expected + length xs]"
proof (rule nth_equalityI)
  fix i assume "i < length (map sp_seq (map (\<lambda>(i, c). c\<lparr>sp_seq := wrapping_add_u64 expected i\<rparr>) (List.enumerate 0 xs)))"
  then have "i < length xs" by simp
  then show "map sp_seq (map (\<lambda>(i, c). c\<lparr>sp_seq := wrapping_add_u64 expected i\<rparr>) (List.enumerate 0 xs)) ! i = [expected..<expected + length xs] ! i"
    using assms by (simp add: nth_enumerate_eq wrapping_add_u64_small)
qed simp

lemma plan_resync_ok:
  assumes "playback_seq_ok q" "expected + PLAYBACK_REPLAY_WINDOW \<le> u64_max"
  shows "playback_seq_ok (snd (plan_resync expected refusal q))"
proof -
  let ?kept = "filter (\<lambda>c. sp_seq c \<ge> expected) (pq_sent q)"
  let ?usable = "if refusal then dropWhile (\<lambda>c. sp_action c \<noteq> Play) ?kept else ?kept"
  let ?sent = "map (\<lambda>(i, c). c\<lparr>sp_seq := wrapping_add_u64 expected i\<rparr>) (List.enumerate 0 ?usable)"
  have "length ?usable \<le> length ?kept" using length_dropWhile_le [of "\<lambda>c. sp_action c \<noteq> Play" ?kept] by simp
  also have "\<dots> \<le> length (pq_sent q)" by simp
  also have "\<dots> \<le> PLAYBACK_REPLAY_WINDOW" using assms(1) by (simp add: playback_seq_ok_def)
  finally have few: "length ?usable \<le> PLAYBACK_REPLAY_WINDOW" .
  then have nums: "map sp_seq ?sent = [expected..<expected + length ?usable]" using assms(2) by (intro resent_numbers) simp
  have below: "sp_seq c < expected + length ?usable" if "c \<in> set ?sent" for c
  proof -
    have "sp_seq c \<in> set (map sp_seq ?sent)" unfolding set_map [of sp_seq ?sent] by (rule imageI) (rule that)
    then show ?thesis unfolding nums by simp
  qed
  have nx: "wrapping_add_u64 expected (length ?usable) = expected + length ?usable" using few assms(2) by (intro wrapping_add_u64_small) simp
  have sorted: "sorted_wrt (<) (map sp_seq ?sent)" unfolding nums by simp
  have resent: "playback_seq_ok (q\<lparr>pq_known_expected := expected, pq_replayed_for := Some expected, pq_sent := ?sent, pq_next := wrapping_add_u64 expected (length ?sent)\<rparr>)"
    using few sorted below by (simp add: playback_seq_ok_def nx)
  have ahead: "sp_seq c < expected" if "sp_seq (List.last (pq_sent q)) < expected" "c \<in> set (pq_sent q)" for c
  proof -
    from that(2) obtain i where i: "i < length (pq_sent q)" "c = pq_sent q ! i" by (auto simp: in_set_conv_nth)
    then have last_eq: "List.last (pq_sent q) = pq_sent q ! (length (pq_sent q) - 1)" by (intro last_conv_nth) auto
    have "sp_seq c \<le> sp_seq (List.last (pq_sent q))"
    proof (cases "i = length (pq_sent q) - 1")
      case True
      then show ?thesis using i by (simp add: last_eq)
    next
      case False
      then have "map sp_seq (pq_sent q) ! i < map sp_seq (pq_sent q) ! (length (pq_sent q) - 1)"
        using assms(1) i sorted_wrt_nth_less [of "(<)" "map sp_seq (pq_sent q)" i "length (pq_sent q) - 1"]
        by (simp add: playback_seq_ok_def)
      then show ?thesis using i by (simp add: last_eq)
    qed
    with that(1) show ?thesis by simp
  qed
  show ?thesis using assms(1) resent ahead
    by (auto simp: plan_resync_def Let_def playback_seq_ok_def)
qed

lemma give_back_ok:
  assumes "playback_seq_ok q"
  shows "playback_seq_ok (give_back seq q)"
proof (cases "pq_next q = wrapping_add_u64 seq 1 \<and> pq_sent q \<noteq> []")
  case True
  then obtain xs x where sent: "pq_sent q = xs @ [x]" by (metis append_butlast_last_id)
  have "pq_next q \<le> seq + 1" using True by (simp add: wrapping_add_u64_def)
  then have "sp_seq x \<le> seq" using assms by (auto simp: playback_seq_ok_def sent)
  then have "\<forall>c \<in> set xs. sp_seq c < seq" using assms by (force simp: playback_seq_ok_def sent sorted_wrt_append)
  with True assms show ?thesis by (auto simp: give_back_def playback_seq_ok_def sent sorted_wrt_append)
next
  case False
  with assms show ?thesis by (auto simp: give_back_def playback_seq_ok_def)
qed

lemma plan_resync_next:
  assumes "playback_seq_ok q" "expected + PLAYBACK_REPLAY_WINDOW \<le> u64_max"
  shows "pq_next (snd (plan_resync expected refusal q)) \<le> max (pq_next q) (expected + PLAYBACK_REPLAY_WINDOW)"
proof -
  let ?kept = "filter (\<lambda>c. sp_seq c \<ge> expected) (pq_sent q)"
  let ?usable = "if refusal then dropWhile (\<lambda>c. sp_action c \<noteq> Play) ?kept else ?kept"
  have "length ?usable \<le> length ?kept" using length_dropWhile_le [of "\<lambda>c. sp_action c \<noteq> Play" ?kept] by simp
  also have "\<dots> \<le> length (pq_sent q)" by simp
  also have "\<dots> \<le> PLAYBACK_REPLAY_WINDOW" using assms(1) by (simp add: playback_seq_ok_def)
  finally have "wrapping_add_u64 expected (length ?usable) \<le> expected + PLAYBACK_REPLAY_WINDOW"
    using assms(2) by (simp add: wrapping_add_u64_small)
  then show ?thesis by (auto simp: plan_resync_def Let_def)
qed

lemma run_ok:
  assumes "list_all in_range ops" "length ops \<le> 2 ^ 62"
  shows "playback_seq_ok (foldl playback_seq_step playback_seq_new ops)
    \<and> pq_next (foldl playback_seq_step playback_seq_new ops) \<le> 2 ^ 62 + PLAYBACK_REPLAY_WINDOW + length ops"
  using assms
proof (induction ops rule: rev_induct)
  case (snoc op ops)
  let ?q = "foldl playback_seq_step playback_seq_new ops"
  have ok: "playback_seq_ok ?q" and nx: "pq_next ?q \<le> 2 ^ 62 + PLAYBACK_REPLAY_WINDOW + length ops" using snoc by simp_all
  have small: "pq_next ?q < u64_max" using nx snoc.prems(2) by (simp add: u64_max_def PLAYBACK_REPLAY_WINDOW_def)
  show ?case
  proof (cases op)
    case (PqNumber a p)
    have "wrapping_add_u64 (pq_next ?q) 1 = pq_next ?q + 1" using small by (intro wrapping_add_u64_small) simp
    with number_command_ok [OF ok small, of a p] nx PqNumber show ?thesis by (simp add: number_command_def Let_def)
  next
    case (PqGiveBack n)
    then have "wrapping_add_u64 n 1 = n + 1" using snoc.prems(1) by (intro wrapping_add_u64_small) (simp add: in_range_def)
    then have "pq_next (give_back n ?q) \<le> pq_next ?q" by (simp add: give_back_def)
    with give_back_ok [OF ok, of n] nx PqGiveBack show ?thesis by simp
  next
    case (PqResync e r)
    then have "e \<le> 2 ^ 62" using snoc.prems(1) by (simp add: in_range_def)
    then have room: "e + PLAYBACK_REPLAY_WINDOW \<le> u64_max" by (simp add: u64_max_def PLAYBACK_REPLAY_WINDOW_def)
    from plan_resync_ok [OF ok room, of r] plan_resync_next [OF ok room, of r] nx PqResync \<open>e \<le> 2 ^ 62\<close> show ?thesis by simp
  qed
qed (simp add: playback_seq_new_def playback_seq_ok_def)

section \<open>The server accepts what is sent again\<close>

definition command_of_sent :: "millis \<Rightarrow> sent_playback \<Rightarrow> playback_command_payload" where
  "command_of_sent now_ms c = \<lparr>pc_action = sp_action c, pc_monotonic_seq = sp_seq c, pc_media_position_ms = sp_media_position_ms c, pc_client_ts_ms = now_ms\<rparr>"

text \<open>The commands reach the room in order; \<open>None\<close> when one is refused.\<close>

fun serve_commands :: "uuid \<Rightarrow> bytes \<Rightarrow> millis \<Rightarrow> sent_playback list \<Rightarrow> room_state \<Rightarrow> room_state option" where
  "serve_commands user pubkey now_ms [] rs = Some rs"
| "serve_commands user pubkey now_ms (c # cs) rs =
     (case playback_locked (command_of_sent now_ms c) user pubkey now_ms rs of
        Inl _ \<Rightarrow> None
      | Inr (_, rs') \<Rightarrow> serve_commands user pubkey now_ms cs rs')"

definition may_command :: "uuid \<Rightarrow> bytes \<Rightarrow> room_state \<Rightarrow> bool" where
  "may_command user pubkey rs \<longleftrightarrow> rs_state rs \<noteq> Ended
     \<and> (\<exists>p. live_record user rs = Some p \<and> p_pubkey p = pubkey \<and> (p_is_host p \<or> p_cap_set p AND PLAYBACK_CONTROL \<noteq> 0))"

lemma serve_commands_ok:
  assumes "may_command user pubkey rs" and "rs_state rs \<noteq> Open \<or> cs = [] \<or> sp_action (hd cs) = Play"
    and "map sp_seq cs = [last_acked user rs + 1..<last_acked user rs + 1 + length cs]"
    and "last_acked user rs + length cs < u64_max" and "pb_server_seq (rs_playback rs) + length cs \<le> u64_max"
  shows "\<exists>rs'. serve_commands user pubkey now_ms cs rs = Some rs' \<and> last_acked user rs' = last_acked user rs + length cs
    \<and> may_command user pubkey rs' \<and> pb_server_seq (rs_playback rs') = pb_server_seq (rs_playback rs) + length cs
    \<and> (cs = [] \<or> rs_state rs' \<noteq> Open)"
  using assms
proof (induction cs arbitrary: rs)
  case (Cons c cs)
  let ?cmd = "command_of_sent now_ms c" and ?a = "last_acked user rs"
  from Cons.prems(3) have seq: "sp_seq c = ?a + 1" and rest: "map sp_seq cs = [?a + 2..<?a + 2 + length cs]"
    by (auto simp: upt_conv_Cons simp del: upt_Suc)
  have "playback_allowed ?cmd user pubkey rs"
    using Cons.prems seq by (auto simp: playback_allowed_def may_command_def command_of_sent_def saturating_add_u64_def)
  then obtain ev rs1 where step: "playback_locked ?cmd user pubkey now_ms rs = Inr (ev, rs1)"
    and rs1: "rs1 = apply_playback ?cmd user now_ms (Suc (pb_server_seq (rs_playback rs))) rs"
    by (auto simp: playback_locked_iff)
  have live: "live_record user rs1 = live_record user rs" by (simp add: rs1 live_record_def)
  have state: "rs_state rs1 \<noteq> Open \<and> rs_state rs1 \<noteq> Ended"
    using Cons.prems(1,2) by (cases "sp_action c") (auto simp: rs1 may_command_def command_of_sent_def)
  have acked: "last_acked user rs1 = ?a + 1" by (simp add: last_acked_def rs1 command_of_sent_def seq)
  have may: "may_command user pubkey rs1" using Cons.prems(1) live state by (simp add: may_command_def)
  have "\<exists>rs'. serve_commands user pubkey now_ms cs rs1 = Some rs' \<and> last_acked user rs' = last_acked user rs1 + length cs
    \<and> may_command user pubkey rs' \<and> pb_server_seq (rs_playback rs') = pb_server_seq (rs_playback rs1) + length cs
    \<and> (cs = [] \<or> rs_state rs' \<noteq> Open)"
  proof (rule Cons.IH [OF may])
    show "map sp_seq cs = [last_acked user rs1 + 1..<last_acked user rs1 + 1 + length cs]" using rest by (simp add: acked)
  qed (use state acked Cons.prems(4,5) in \<open>simp_all add: rs1\<close>)
  then obtain rs' where "serve_commands user pubkey now_ms cs rs1 = Some rs'" "last_acked user rs' = last_acked user rs1 + length cs"
    "may_command user pubkey rs'" "pb_server_seq (rs_playback rs') = pb_server_seq (rs_playback rs1) + length cs"
    "cs = [] \<or> rs_state rs' \<noteq> Open" by blast
  with acked state show ?case by (cases "cs = []") (auto simp: step rs1)
qed simp

text \<open>What a resynchronisation sends again has exactly the numbers from the expected one on.\<close>

lemma plan_resync_sends:
  assumes "playback_seq_ok q" "expected + PLAYBACK_REPLAY_WINDOW \<le> u64_max" "pq_known_expected q \<le> expected" "pq_replayed_for q \<noteq> Some expected"
    and "plan_resync expected refusal q = (cs, q')"
  shows "map sp_seq cs = [expected..<expected + length cs]" and "pq_next q' = expected + length cs" and "length cs \<le> PLAYBACK_REPLAY_WINDOW"
    and "refusal \<Longrightarrow> cs \<noteq> [] \<Longrightarrow> sp_action (hd cs) = Play"
proof -
  let ?kept = "filter (\<lambda>c. sp_seq c \<ge> expected) (pq_sent q)"
  let ?usable = "if refusal then dropWhile (\<lambda>c. sp_action c \<noteq> Play) ?kept else ?kept"
  let ?sent = "map (\<lambda>(i, c). c\<lparr>sp_seq := wrapping_add_u64 expected i\<rparr>) (List.enumerate 0 ?usable)"
  have "length ?usable \<le> length ?kept" using length_dropWhile_le [of "\<lambda>c. sp_action c \<noteq> Play" ?kept] by simp
  also have "\<dots> \<le> length (pq_sent q)" by simp
  also have "\<dots> \<le> PLAYBACK_REPLAY_WINDOW" using assms(1) by (simp add: playback_seq_ok_def)
  finally have few: "length ?usable \<le> PLAYBACK_REPLAY_WINDOW" .
  consider "cs = []" "pq_next q' = expected" | "cs = ?sent" "pq_next q' = wrapping_add_u64 expected (length ?sent)"
    using assms(3-5) by (auto simp: plan_resync_def Let_def split: if_splits)
  then have "map sp_seq cs = [expected..<expected + length cs] \<and> pq_next q' = expected + length cs \<and> length cs \<le> PLAYBACK_REPLAY_WINDOW
    \<and> (refusal \<longrightarrow> cs \<noteq> [] \<longrightarrow> sp_action (hd cs) = Play)"
  proof cases
    case 2
    have len: "length cs = length ?usable" by (simp add: 2(1))
    have "map sp_seq cs = [expected..<expected + length ?usable]" unfolding 2(1)
      by (rule resent_numbers) (use few assms(2) in simp)
    moreover have "pq_next q' = expected + length ?usable" unfolding 2(2)
      using few assms(2) by (simp add: wrapping_add_u64_small)
    moreover have "sp_action (hd cs) = Play" if refusal "cs \<noteq> []"
    proof -
      have "length (dropWhile (\<lambda>c. sp_action c \<noteq> Play) ?kept) \<noteq> 0" using that len by (metis (full_types) length_0_conv)
      then obtain x xs where u: "dropWhile (\<lambda>c. sp_action c \<noteq> Play) ?kept = x # xs" by (cases "dropWhile (\<lambda>c. sp_action c \<noteq> Play) ?kept") simp_all
      then have "sp_action x = Play" using hd_dropWhile [of "\<lambda>c. sp_action c \<noteq> Play" ?kept] by simp
      with u that show ?thesis by (simp add: 2(1))
    qed
    ultimately show ?thesis using few len by simp
  qed simp
  then show "map sp_seq cs = [expected..<expected + length cs]" and "pq_next q' = expected + length cs" and "length cs \<le> PLAYBACK_REPLAY_WINDOW"
    and "refusal \<Longrightarrow> cs \<noteq> [] \<Longrightarrow> sp_action (hd cs) = Play" by blast+
qed



end
