(* ===== verification/RoomClient.thy ===== *)
theory RoomClient
  imports PlaybackNumbering Assembly Inbound Validation
begin

text \<open>
  The desktop client's side of a room, \<open>RoomClient\<close> of \<open>net/room.rs\<close>: the cached summary, the
  requests waiting for their replies, the verified manifests with their trust anchor, the outbox of
  a lost connection, and the handler of what the server sends.

  An asynchronous operation is cut where it waits for a reply: its first half registers a awaiting
  call, its second half is \<open>finish_call\<close>. Ids are kept as \<open>Uuid\<close>s where the code keeps the string
  each prints; comparing the strings is comparing the ids. A mutex is locked for one access at a time
  and an operation runs undisturbed up to its wait. Left out: fresh envelope ids, message texts that
  only a person reads, the local tables that mirror a snapshot or a manifest (best effort, never
  read here), the renaming of an event's fields for the webview, and a waiter whose sender
  disappears unsent, which the code below never does to a live one.
\<close>

section \<open>What the webview is shown\<close>

record participant_ipc =
  pi_user_id :: uuid
  pi_display_name :: rstring
  pi_joined_ms :: millis
  pi_status :: participant_status
  pi_last_seen_ms :: millis
  pi_is_host :: bool
  pi_cap_set :: u32

definition participant_ipc_from :: "participant \<Rightarrow> participant_ipc" where
  "participant_ipc_from p = \<lparr>pi_user_id = pub_user_id p, pi_display_name = pub_display_name p, pi_joined_ms = pub_joined_ms p,
     pi_status = pub_status p, pi_last_seen_ms = pub_last_seen_ms p, pi_is_host = pub_is_host p, pi_cap_set = 0\<rparr>"

record room_summary_ipc =
  si_id :: uuid
  si_code :: rstring
  si_title :: rstring
  si_host_user_id :: uuid
  si_host_migration_enabled :: bool
  si_created_ms :: millis
  si_participants :: "participant_ipc list"
  si_host_disconnected :: bool
  si_host_disconnect_deadline_ms :: "millis option"
  si_you_cap_set :: "u32 option"
  si_you_user_id :: "uuid option"
  si_playback :: "playback_snapshot option"

definition room_summary_ipc_from :: "room_summary \<Rightarrow> room_summary_ipc" where
  "room_summary_ipc_from r = \<lparr>si_id = rsum_id r, si_code = rsum_code r, si_title = rsum_title r,
     si_host_user_id = rsum_host_user_id r, si_host_migration_enabled = rsum_host_migration_enabled r,
     si_created_ms = rsum_created_ms r, si_participants = map participant_ipc_from (rsum_participants r),
     si_host_disconnected = rsum_host_disconnected r, si_host_disconnect_deadline_ms = rsum_host_disconnect_deadline_ms r,
     si_you_cap_set = None, si_you_user_id = None, si_playback = rsum_playback r\<rparr>"

text \<open>The calls of \<open>RoomEventSink\<close>, each with the payload its event is made of.\<close>

datatype shown =
  ShowState room_summary_ipc | ShowEvent room_summary_ipc | ShowCleared
| ShowManifest uuid string int
| ShowPlayback uuid playback_accepted_event
| ShowPosition uuid position_report_payload
| ShowStrokeBegin uuid uuid stroke_begin_payload nat
| ShowStrokePoint uuid uuid stroke_point_payload nat
| ShowStrokeEnd uuid uuid stroke_end_payload nat
| ShowStrokeUndo uuid uuid stroke_undo_payload nat
| ShowStrokeClear uuid uuid nat
| ShowStrokeSync uuid stroke_sync_payload
| ShowLaserMove uuid uuid f32 f32
| ShowLaserOff uuid uuid
| ShowChat uuid uuid rstring rstring "uuid option" millis

section \<open>What the client sends, and its errors\<close>

datatype client_payload =
  CpRoomCreate room_create_payload | CpRoomJoin room_join_request_payload | CpRoomLeave | CpPresence
| CpPlayback playback_command_payload | CpPermission permission_set_payload | CpChat chat_payload
| CpManifestRequest uuid | CpSkewProbe millis

record client_envelope =
  cv_type :: message_kind
  cv_room_id :: "uuid option"
  cv_ts_ms :: millis
  cv_seq :: nat
  cv_payload :: client_payload

datatype manifest_accept_error =
  BadSignature | BadRoomId | BadPubkeyLength nat | BadPubkeyFormat | NoHostSignature | NoTrustAnchor
| TrustAnchorMismatch | Canonicalize | StaleVersion int int

datatype client_error =
  CeNotConnected | CeServer room_error_code | CeUnexpected | CeSignaling | CeManifestRejected manifest_accept_error

section \<open>State\<close>

text \<open>A call that waits for its reply, with what its second half needs.\<close>

datatype client_call =
  CallCreate | CallJoin rstring rstring "uuid option" | CallRejoin | CallFetch | CallProbe millis

fun reply_kind :: "client_call \<Rightarrow> message_kind" where
  "reply_kind CallCreate = MkRoomCreated"
| "reply_kind (CallJoin _ _ _) = MkRoomJoined"
| "reply_kind CallRejoin = MkRoomJoined"
| "reply_kind CallFetch = MkManifestResponse"
| "reply_kind (CallProbe _) = MkSkewReply"

text \<open>
  \<open>rc_pending\<close> holds the senders by their call's number; \<open>rc_calls\<close> holds the receivers, each with
  the reply once it is there. A sender is closed when its receiver is gone. \<open>rc_presence\<close> is whether
  the presence task runs; \<open>rc_sent\<close> is what was handed to the connection and \<open>rc_shown\<close> what the
  sink was given, in order.
\<close>

record 'm room_client =
  rc_state :: "room_summary_ipc option"
  rc_pending :: "(message_kind, nat list) hashmap"
  rc_calls :: "(nat, client_call \<times> json envelope option) hashmap"
  rc_next_call :: nat
  rc_presence :: bool
  rc_verified_manifests :: "(uuid, 'm) hashmap"
  rc_current_versions :: "(uuid, int) hashmap"
  rc_budget :: byte_budget
  rc_manifest_parts :: part_assembler
  rc_expected_host_pubkey :: "bytes option"
  rc_local_user_id :: "uuid option"
  rc_pending_outbound :: "client_envelope list"
  rc_pending_leave :: "client_envelope option"
  rc_playback_seq :: playback_seq
  rc_active_room_code :: "(rstring \<times> rstring) option"
  rc_host_media_selection :: "rstring list option option"
  rc_sends :: nat
  rc_sent :: "client_envelope list"
  rc_shown :: "shown list"

definition MANIFEST_PARTS_IN_FLIGHT :: nat where "MANIFEST_PARTS_IN_FLIGHT = 2"
definition MANIFEST_PARTS_TTL :: nat where "MANIFEST_PARTS_TTL = 60000"
definition PENDING_OUTBOUND_CAP :: nat where "PENDING_OUTBOUND_CAP = 256"

definition manifest_parts_budget :: byte_budget where
  "manifest_parts_budget = \<lparr>bb_used = 0, bb_cap = 2 * MAX_ASSEMBLED_BYTES\<rparr>"

definition room_client_new :: "'m room_client" where
  "room_client_new = \<lparr>rc_state = None, rc_pending = [], rc_calls = [], rc_next_call = 0, rc_presence = False,
     rc_verified_manifests = [], rc_current_versions = [], rc_budget = manifest_parts_budget,
     rc_manifest_parts = assembler_new MANIFEST_PARTS_IN_FLIGHT MANIFEST_PARTS_TTL, rc_expected_host_pubkey = None,
     rc_local_user_id = None, rc_pending_outbound = [], rc_pending_leave = None, rc_playback_seq = playback_seq_new,
     rc_active_room_code = None, rc_host_media_selection = None, rc_sends = 0, rc_sent = [], rc_shown = []\<rparr>"

text \<open>
  What surrounds a step: the clocks, the connection (\<open>sr_live\<close>: connected and authenticated;
  \<open>sr_bearer\<close>: it ever was; \<open>sr_accepts n\<close>: it takes the \<open>n\<close>-th envelope given to it) and the order in which
  the pending map is walked. Payloads are decoded by the crates: \<open>cl_decode\<close> reads a payload as its kind's type.
\<close>

record surroundings =
  sr_now :: nat
  sr_now_ms :: millis
  sr_live :: bool
  sr_bearer :: bool
  sr_accepts :: "nat \<Rightarrow> bool"
  sr_order :: "message_kind list"

record 'm client_edge =
  cl_edge :: "'m edge"
  cl_decode :: "message_kind \<Rightarrow> json \<Rightarrow> 'm wire_payload option"
  cl_parse_uuid :: "rstring \<Rightarrow> uuid option"
  cl_response_value :: "'m \<Rightarrow> int \<Rightarrow> millis \<Rightarrow> json"

definition decode_payload :: "'m client_edge \<Rightarrow> json envelope \<Rightarrow> 'm wire_payload option" where
  "decode_payload ce env = cl_decode ce (env_type env) (env_payload env)"

definition client_envelope_of :: "surroundings \<Rightarrow> message_kind \<Rightarrow> uuid option \<Rightarrow> client_payload \<Rightarrow> client_envelope" where
  "client_envelope_of sr kind rid p = \<lparr>cv_type = kind, cv_room_id = rid, cv_ts_ms = sr_now_ms sr, cv_seq = 0, cv_payload = p\<rparr>"

definition playback_envelope :: "surroundings \<Rightarrow> uuid \<Rightarrow> playback_action \<Rightarrow> nat \<Rightarrow> nat \<Rightarrow> client_envelope" where
  "playback_envelope sr rid action seq pos = \<lparr>cv_type = MkPlaybackCmd, cv_room_id = Some rid, cv_ts_ms = sr_now_ms sr, cv_seq = seq,
     cv_payload = CpPlayback \<lparr>pc_action = action, pc_monotonic_seq = seq, pc_media_position_ms = pos, pc_client_ts_ms = sr_now_ms sr\<rparr>\<rparr>"

section \<open>Showing\<close>

definition with_you :: "'m room_client \<Rightarrow> room_summary_ipc \<Rightarrow> room_summary_ipc" where
  "with_you s summary = summary\<lparr>si_you_user_id := rc_local_user_id s\<rparr>"

definition emit :: "shown \<Rightarrow> 'm room_client \<Rightarrow> 'm room_client" where
  "emit ev s = s\<lparr>rc_shown := rc_shown s @ [ev]\<rparr>"

definition emit_state :: "room_summary_ipc \<Rightarrow> 'm room_client \<Rightarrow> 'm room_client" where
  "emit_state summary s = emit (ShowState (with_you s summary)) s"

definition emit_event :: "room_summary_ipc \<Rightarrow> 'm room_client \<Rightarrow> 'm room_client" where
  "emit_event summary s = emit (ShowEvent (with_you s summary)) s"

definition emit_state_cleared :: "'m room_client \<Rightarrow> 'm room_client" where
  "emit_state_cleared s = emit ShowCleared s"

definition emit_manifest_state :: "uuid \<Rightarrow> string \<Rightarrow> int \<Rightarrow> 'm room_client \<Rightarrow> 'm room_client" where
  "emit_manifest_state rid hash version s = emit (ShowManifest rid hash version) s"

section \<open>Sending\<close>

definition send_envelope :: "surroundings \<Rightarrow> client_envelope \<Rightarrow> 'm room_client \<Rightarrow> (client_error + unit) \<times> 'm room_client" where
  "send_envelope sr env s =
     (if sr_accepts sr (rc_sends s) then (Inr (), s\<lparr>rc_sends := rc_sends s + 1, rc_sent := rc_sent s @ [env]\<rparr>)
      else (Inl CeSignaling, s\<lparr>rc_sends := rc_sends s + 1\<rparr>))"

definition send_or_buffer :: "surroundings \<Rightarrow> client_envelope \<Rightarrow> 'm room_client \<Rightarrow> (client_error + unit) \<times> 'm room_client" where
  "send_or_buffer sr env s =
     (if sr_live sr \<and> sr_bearer sr then send_envelope sr env s
      else if \<not> sr_bearer sr then send_envelope sr env s
      else let g = rc_pending_outbound s;
               kept = drop (length g + 1 - PENDING_OUTBOUND_CAP) g
           in (Inr (), s\<lparr>rc_pending_outbound := kept @ [env]\<rparr>))"

fun send_all :: "surroundings \<Rightarrow> client_envelope list \<Rightarrow> 'm room_client \<Rightarrow> 'm room_client" where
  "send_all sr [] s = s"
| "send_all sr (env # envs) s = send_all sr envs (snd (send_envelope sr env s))"

definition drain_pending_outbound :: "surroundings \<Rightarrow> 'm room_client \<Rightarrow> 'm room_client" where
  "drain_pending_outbound sr s = send_all sr (rc_pending_outbound s) (s\<lparr>rc_pending_outbound := []\<rparr>)"

section \<open>Requests and their replies\<close>

definition waiter_open :: "'m room_client \<Rightarrow> nat \<Rightarrow> bool" where
  "waiter_open s w \<longleftrightarrow> (case hm_get (rc_calls s) w of Some (_, None) \<Rightarrow> True | _ \<Rightarrow> False)"

definition prune :: "message_kind \<Rightarrow> 'm room_client \<Rightarrow> 'm room_client" where
  "prune kind s =
     (case hm_get (rc_pending s) kind of
        None \<Rightarrow> s
      | Some ws \<Rightarrow> s\<lparr>rc_pending := hm_insert kind (filter (waiter_open s) ws) (rc_pending s)\<rparr>)"

text \<open>The first half of \<open>request_within\<close>: register, send, and take the registration back on an error.\<close>

definition request_start ::
    "surroundings \<Rightarrow> client_call \<Rightarrow> client_envelope \<Rightarrow> 'm room_client \<Rightarrow> (client_error + nat) \<times> 'm room_client" where
  "request_start sr call env s =
     (let w = rc_next_call s;
          kind = reply_kind call;
          senders = (case hm_get (rc_pending s) kind of None \<Rightarrow> [] | Some ws \<Rightarrow> ws);
          s1 = s\<lparr>rc_next_call := w + 1, rc_calls := hm_insert w (call, None) (rc_calls s),
                 rc_pending := hm_insert kind (senders @ [w]) (rc_pending s)\<rparr>
      in case send_or_buffer sr env s1 of
           (Inl e, s2) \<Rightarrow> (Inl e, prune kind (s2\<lparr>rc_calls := hm_remove w (rc_calls s2)\<rparr>))
         | (Inr _, s2) \<Rightarrow> (Inr w, s2))"

text \<open>Its second half, once the reply is there: a ROOM_ERROR is the server's refusal.\<close>

definition reply_result :: "'m client_edge \<Rightarrow> json envelope \<Rightarrow> client_error + json envelope" where
  "reply_result ce env =
     (if env_type env = MkRoomError
      then case decode_payload ce env of Some (WRoomError p) \<Rightarrow> Inl (CeServer (rep_code p)) | _ \<Rightarrow> Inl CeUnexpected
      else Inr env)"

text \<open>The closure \<open>deliver\<close>: the first sender still listened to, and the queue without those before it.\<close>

fun first_open :: "(nat \<Rightarrow> bool) \<Rightarrow> nat list \<Rightarrow> nat option \<times> nat list" where
  "first_open listening [] = (None, [])"
| "first_open listening (w # ws) = (if listening w then (Some w, ws) else first_open listening ws)"

definition deliver_to_kind :: "json envelope \<Rightarrow> message_kind \<Rightarrow> 'm room_client \<Rightarrow> bool \<times> 'm room_client" where
  "deliver_to_kind env kind s =
     (case hm_get (rc_pending s) kind of
        None \<Rightarrow> (False, s)
      | Some ws \<Rightarrow>
          let (hit, rest) = first_open (waiter_open s) ws;
              s1 = s\<lparr>rc_pending := hm_insert kind rest (rc_pending s)\<rparr>
          in case hit of
               None \<Rightarrow> (False, s1)
             | Some w \<Rightarrow> (case hm_get (rc_calls s1) w of
                 None \<Rightarrow> (False, s1)
               | Some (call, _) \<Rightarrow> (True, s1\<lparr>rc_calls := hm_insert w (call, Some env) (rc_calls s1)\<rparr>)))"

fun deliver_to_any :: "json envelope \<Rightarrow> message_kind list \<Rightarrow> 'm room_client \<Rightarrow> message_kind option \<times> 'm room_client" where
  "deliver_to_any env [] s = (None, s)"
| "deliver_to_any env (kind # kinds) s =
     (case deliver_to_kind env kind s of (True, s1) \<Rightarrow> (Some kind, s1) | (False, s1) \<Rightarrow> deliver_to_any env kinds s1)"

text \<open>\<open>pending.iter_mut()\<close> in the order \<open>sr_order\<close>; a kind it does not list comes after those it does.\<close>

definition walk_order :: "surroundings \<Rightarrow> (message_kind, nat list) hashmap \<Rightarrow> message_kind list" where
  "walk_order sr m = filter (hm_contains m) (sr_order sr) @ filter (\<lambda>k. k \<notin> set (sr_order sr)) (hm_keys m)"

definition deliver_to_pending ::
    "surroundings \<Rightarrow> json envelope \<Rightarrow> 'm room_client \<Rightarrow> message_kind option \<times> 'm room_client" where
  "deliver_to_pending sr env s =
     (case deliver_to_kind env (env_type env) s of
        (True, s1) \<Rightarrow> (Some (env_type env), s1)
      | (False, s1) \<Rightarrow>
          if env_type env = MkRoomError then deliver_to_any env (walk_order sr (rc_pending s1)) s1 else (None, s1))"

section \<open>The session\<close>

definition reset_playback_seq :: "'m room_client \<Rightarrow> 'm room_client" where
  "reset_playback_seq s = s\<lparr>rc_playback_seq := playback_seq_new\<rparr>"

definition spawn_presence_loop :: "'m room_client \<Rightarrow> 'm room_client" where
  "spawn_presence_loop s = s\<lparr>rc_presence := True\<rparr>"

definition abort_presence_loop :: "'m room_client \<Rightarrow> 'm room_client" where
  "abort_presence_loop s = s\<lparr>rc_presence := False\<rparr>"

definition set_expected_host_pubkey :: "bytes \<Rightarrow> 'm room_client \<Rightarrow> 'm room_client" where
  "set_expected_host_pubkey pubkey s = s\<lparr>rc_expected_host_pubkey := Some pubkey\<rparr>"

definition clear_expected_host_pubkey :: "'m room_client \<Rightarrow> 'm room_client" where
  "clear_expected_host_pubkey s = s\<lparr>rc_expected_host_pubkey := None\<rparr>"

definition set_host_media_selection :: "rstring list option \<Rightarrow> 'm room_client \<Rightarrow> 'm room_client" where
  "set_host_media_selection selection s = s\<lparr>rc_host_media_selection := Some selection\<rparr>"

definition clear_host_media_selection :: "'m room_client \<Rightarrow> 'm room_client" where
  "clear_host_media_selection s = s\<lparr>rc_host_media_selection := None\<rparr>"

definition forget_room_session :: "'m room_client \<Rightarrow> 'm room_client" where
  "forget_room_session s =
     reset_playback_seq (clear_host_media_selection (s\<lparr>rc_active_room_code := None, rc_pending_outbound := []\<rparr>))"

definition drop_room_session :: "'m room_client \<Rightarrow> 'm room_client" where
  "drop_room_session s =
     abort_presence_loop (emit_state_cleared (forget_room_session (s\<lparr>rc_state := None, rc_local_user_id := None\<rparr>)))"

definition held_room :: "'m room_client \<Rightarrow> uuid option" where
  "held_room s = map_option si_id (rc_state s)"

text \<open>A buffered leave is kept apart, because forgetting the session empties the buffer.\<close>

definition keep_leave :: "'m room_client \<Rightarrow> 'm room_client" where
  "keep_leave s =
     (let g = rc_pending_outbound s
      in case position (\<lambda>e. cv_type e = MkRoomLeave) (rev g) of
           None \<Rightarrow> s
         | Some j \<Rightarrow> let i = length g - 1 - j
             in s\<lparr>rc_pending_outbound := take i g @ drop (i + 1) g, rc_pending_leave := Some (g ! i)\<rparr>)"

definition leave_room_inner :: "surroundings \<Rightarrow> uuid option \<Rightarrow> 'm room_client \<Rightarrow> (client_error + unit) \<times> 'm room_client" where
  "leave_room_inner sr room s =
     (case send_or_buffer sr (client_envelope_of sr MkRoomLeave room CpRoomLeave) s of
        (Inl e, s1) \<Rightarrow> (Inl e, s1)
      | (Inr _, s1) \<Rightarrow>
          let s2 = keep_leave s1
          in (Inr (), abort_presence_loop (forget_room_session (s2\<lparr>rc_state := None, rc_local_user_id := None\<rparr>))))"

definition room_leave :: "surroundings \<Rightarrow> 'm room_client \<Rightarrow> (client_error + unit) \<times> 'm room_client" where
  "room_leave sr s = leave_room_inner sr None s"

definition leave_replaced_room :: "surroundings \<Rightarrow> uuid option \<Rightarrow> uuid \<Rightarrow> 'm room_client \<Rightarrow> 'm room_client" where
  "leave_replaced_room sr old new_id s =
     (case old of
        None \<Rightarrow> s
      | Some old_id \<Rightarrow> if old_id = new_id then s
          else snd (send_or_buffer sr (client_envelope_of sr MkRoomLeave (Some old_id) CpRoomLeave) s))"

section \<open>Operations of the commands\<close>

text \<open>First halves. An operation that waits gives the number of its call.\<close>

definition room_create :: "surroundings \<Rightarrow> rstring \<Rightarrow> bool \<Rightarrow> 'm room_client \<Rightarrow> (client_error + nat) \<times> 'm room_client" where
  "room_create sr title migration_enabled s =
     (let s1 = (case held_room s of None \<Rightarrow> s | Some old \<Rightarrow> snd (leave_room_inner sr (Some old) s))
      in request_start sr CallCreate
           (client_envelope_of sr MkRoomCreate None (CpRoomCreate \<lparr>rcp_title = title, rcp_migration_enabled = migration_enabled\<rparr>)) s1)"

definition join_envelope :: "surroundings \<Rightarrow> rstring \<Rightarrow> rstring \<Rightarrow> client_envelope" where
  "join_envelope sr code display_name =
     client_envelope_of sr MkRoomJoinRequest None (CpRoomJoin \<lparr>rjr_code = code, rjr_display_name = display_name\<rparr>)"

definition room_join :: "surroundings \<Rightarrow> rstring \<Rightarrow> rstring \<Rightarrow> 'm room_client \<Rightarrow> (client_error + nat) \<times> 'm room_client" where
  "room_join sr code display_name s =
     request_start sr (CallJoin code display_name (held_room s)) (join_envelope sr code display_name) s"

definition rejoin_active_room :: "surroundings \<Rightarrow> 'm room_client \<Rightarrow> (client_error + nat option) \<times> 'm room_client" where
  "rejoin_active_room sr s =
     (case rc_active_room_code s of
        None \<Rightarrow> (case rc_pending_leave s of
            None \<Rightarrow> (Inr None, s)
          | Some env \<Rightarrow> (case send_envelope sr env (s\<lparr>rc_pending_leave := None\<rparr>) of
              (Inl e, s1) \<Rightarrow> (Inl e, s1)
            | (Inr _, s1) \<Rightarrow> (Inr None, s1)))
      | Some (code, display_name) \<Rightarrow>
          (case request_start sr CallRejoin (join_envelope sr code display_name) (s\<lparr>rc_pending_leave := None\<rparr>) of
             (Inl e, s1) \<Rightarrow> (Inl e, s1)
           | (Inr w, s1) \<Rightarrow> (Inr (Some w), s1)))"

definition send_playback ::
    "surroundings \<Rightarrow> playback_action \<Rightarrow> nat \<Rightarrow> 'm room_client \<Rightarrow> (client_error + nat) \<times> 'm room_client" where
  "send_playback sr action pos s =
     (case rc_state s of
        None \<Rightarrow> (Inl CeUnexpected, s)
      | Some x \<Rightarrow>
          let (seq, q) = number_command action pos (rc_playback_seq s)
          in case send_envelope sr (playback_envelope sr (si_id x) action seq pos) (s\<lparr>rc_playback_seq := q\<rparr>) of
               (Inl e, s1) \<Rightarrow> (Inl e, s1\<lparr>rc_playback_seq := give_back seq (rc_playback_seq s1)\<rparr>)
             | (Inr _, s1) \<Rightarrow> (Inr seq, s1))"

text \<open>The re-sending stops at the first failure.\<close>

fun resend_all :: "surroundings \<Rightarrow> uuid \<Rightarrow> sent_playback list \<Rightarrow> 'm room_client \<Rightarrow> 'm room_client" where
  "resend_all sr rid [] s = s"
| "resend_all sr rid (l # ls) s =
     (case send_envelope sr (playback_envelope sr rid (sp_action l) (sp_seq l) (sp_media_position_ms l)) s of
        (Inl _, s1) \<Rightarrow> s1
      | (Inr _, s1) \<Rightarrow> resend_all sr rid ls s1)"

definition resync_playback_seq :: "surroundings \<Rightarrow> nat \<Rightarrow> bool \<Rightarrow> 'm room_client \<Rightarrow> 'm room_client" where
  "resync_playback_seq sr expected state_refusal s =
     (let (resend, q) = plan_resync expected state_refusal (rc_playback_seq s);
          s1 = s\<lparr>rc_playback_seq := q\<rparr>
      in if resend = [] then s1
         else case held_room s1 of None \<Rightarrow> s1 | Some rid \<Rightarrow> resend_all sr rid resend s1)"

definition permission_set ::
    "surroundings \<Rightarrow> uuid \<Rightarrow> uuid \<Rightarrow> u32 \<Rightarrow> u32 \<Rightarrow> 'm room_client \<Rightarrow> (client_error + unit) \<times> 'm room_client" where
  "permission_set sr rid target add_caps remove_caps s =
     send_envelope sr (client_envelope_of sr MkPermissionSet (Some rid)
       (CpPermission \<lparr>perm_target_user_id = target, perm_add_cap_set = add_caps, perm_remove_cap_set = remove_caps\<rparr>)) s"

definition send_chat_message ::
    "surroundings \<Rightarrow> uuid \<Rightarrow> rstring \<Rightarrow> uuid option \<Rightarrow> 'm room_client \<Rightarrow> (client_error + unit) \<times> 'm room_client" where
  "send_chat_message sr rid msg reply_to s =
     send_envelope sr (client_envelope_of sr MkChatMessage (Some rid)
       (CpChat \<lparr>chat_sender_id = 0, chat_text = msg, chat_reply_to = reply_to, chat_sent_ms = 0\<rparr>)) s"

definition manifest_fetch :: "surroundings \<Rightarrow> uuid \<Rightarrow> uuid \<Rightarrow> 'm room_client \<Rightarrow> (client_error + nat) \<times> 'm room_client" where
  "manifest_fetch sr rid media_id s =
     request_start sr CallFetch (client_envelope_of sr MkManifestRequest (Some rid) (CpManifestRequest media_id)) s"

definition presence :: "surroundings \<Rightarrow> 'm room_client \<Rightarrow> (client_error + unit) \<times> 'm room_client" where
  "presence sr s = send_envelope sr (client_envelope_of sr MkPresence None CpPresence) s"

text \<open>One turn of the presence task.\<close>

definition presence_turn :: "surroundings \<Rightarrow> 'm room_client \<Rightarrow> 'm room_client" where
  "presence_turn sr s = (if rc_presence s then snd (presence sr s) else s)"

definition clock_skew_probe :: "surroundings \<Rightarrow> 'm room_client \<Rightarrow> (client_error + nat) \<times> 'm room_client" where
  "clock_skew_probe sr s =
     request_start sr (CallProbe (sr_now_ms sr)) (client_envelope_of sr MkSkewProbe None (CpSkewProbe (sr_now_ms sr))) s"

section \<open>Manifests\<close>

text \<open>The key that signed a manifest, as the raw bytes compared with the anchor.\<close>

definition manifest_pubkey :: "'m client_edge \<Rightarrow> 'm \<Rightarrow> manifest_accept_error + bytes" where
  "manifest_pubkey ce m =
     (case ed_signer_key_base64 (cl_edge ce) m of
        None \<Rightarrow> Inl NoHostSignature
      | Some key \<Rightarrow> (case from_base64 (ed_codec (cl_edge ce)) key of
          None \<Rightarrow> Inl BadPubkeyFormat
        | Some b \<Rightarrow> if length b = 32 then Inr b else Inl (BadPubkeyLength (length b))))"

definition accept_manifest ::
    "'m client_edge \<Rightarrow> 'm \<Rightarrow> int \<Rightarrow> 'm room_client \<Rightarrow> (manifest_accept_error + uuid) \<times> 'm room_client" where
  "accept_manifest ce m incoming_version s =
     (if \<not> ed_verify_manifest (cl_edge ce) m then (Inl BadSignature, s)
      else case cl_parse_uuid ce (ed_manifest_room_id (cl_edge ce) m) of
        None \<Rightarrow> (Inl BadRoomId, s)
      | Some room \<Rightarrow> (case manifest_pubkey ce m of
          Inl e \<Rightarrow> (Inl e, s)
        | Inr pubkey \<Rightarrow> (case rc_expected_host_pubkey s of
            None \<Rightarrow> (Inl NoTrustAnchor, s)
          | Some expected \<Rightarrow>
              if pubkey \<noteq> expected then (Inl TrustAnchorMismatch, s)
              else case ed_canonical_bytes (cl_edge ce) m of
                None \<Rightarrow> (Inl Canonicalize, s)
              | Some canonical \<Rightarrow>
                  let stale = (case hm_get (rc_current_versions s) room of
                                 Some prev \<Rightarrow> if incoming_version < prev then Some prev else None
                               | None \<Rightarrow> None)
                  in case stale of
                       Some prev \<Rightarrow> (Inl (StaleVersion incoming_version prev), s)
                     | None \<Rightarrow> (Inr room, emit_manifest_state room (ed_blake3_hex (cl_edge ce) canonical) incoming_version
                         (s\<lparr>rc_current_versions := hm_insert room incoming_version (rc_current_versions s),
                            rc_verified_manifests := hm_insert room m (rc_verified_manifests s)\<rparr>)))))"

definition client_manifest_part :: "'m client_edge \<Rightarrow> surroundings \<Rightarrow> json envelope \<Rightarrow> 'm room_client \<Rightarrow> 'm room_client" where
  "client_manifest_part ce sr env s =
     (case env_room_id env of
        None \<Rightarrow> s
      | Some rid \<Rightarrow> (case decode_payload ce env of
          Some (WManifestPart part) \<Rightarrow>
            let (step, bb, parts) = push (ed_codec (cl_edge ce)) rid part (sr_now sr) (rc_budget s) (rc_manifest_parts s);
                s1 = s\<lparr>rc_budget := bb, rc_manifest_parts := parts\<rparr>
            in (case step of
                  Inl _ \<Rightarrow> s1
                | Inr None \<Rightarrow> s1
                | Inr (Some asm) \<Rightarrow>
                    if ed_manifest_room_id (cl_edge ce) (am_manifest asm) \<noteq> ed_uuid_string (cl_edge ce) rid then s1
                    else case am_kind asm of
                      PartPublished \<Rightarrow> snd (accept_manifest ce (am_manifest asm) (am_version asm) s1)
                    | PartResponse \<Rightarrow>
                        snd (deliver_to_pending sr
                          \<lparr>env_v = 1, env_type = MkManifestResponse, env_id = env_id env, env_room_id = env_room_id env,
                           env_sender = None, env_ts_ms = env_ts_ms env, env_seq = 0,
                           env_payload = cl_response_value ce (am_manifest asm) (am_version asm) (am_published_at_ms asm)\<rparr> s1)
                    | PartPublish \<Rightarrow> s1)
        | _ \<Rightarrow> s))"

definition handle_manifest_published :: "'m client_edge \<Rightarrow> json envelope \<Rightarrow> 'm room_client \<Rightarrow> 'm room_client" where
  "handle_manifest_published ce env s =
     (case decode_payload ce env of
        Some (WManifestPublished m version _) \<Rightarrow> snd (accept_manifest ce m version s)
      | _ \<Rightarrow> s)"

section \<open>Second halves\<close>

datatype 'm client_value = VSummary room_summary_ipc | VUnit | VFetched 'm int millis | VSkew millis millis millis millis

definition summary_with_caps :: "room_summary \<Rightarrow> u32 \<Rightarrow> room_summary_ipc" where
  "summary_with_caps room caps = (room_summary_ipc_from room)\<lparr>si_you_cap_set := Some caps\<rparr>"

definition finish_create ::
    "'m client_edge \<Rightarrow> json envelope \<Rightarrow> 'm room_client \<Rightarrow> (client_error + 'm client_value) \<times> 'm room_client" where
  "finish_create ce reply s =
     (case decode_payload ce reply of
        Some (WRoomCreated p) \<Rightarrow>
          let summary = summary_with_caps (rcd_room p) (self_cap_set (rcd_you p));
              s1 = reset_playback_seq (s\<lparr>rc_state := Some summary\<rparr>)
          in (Inr (VSummary summary), spawn_presence_loop (emit_state summary s1))
      | _ \<Rightarrow> (Inl CeUnexpected, s))"

definition finish_join ::
    "'m client_edge \<Rightarrow> surroundings \<Rightarrow> rstring \<Rightarrow> rstring \<Rightarrow> uuid option \<Rightarrow> json envelope \<Rightarrow> 'm room_client
       \<Rightarrow> (client_error + 'm client_value) \<times> 'm room_client" where
  "finish_join ce sr code display_name held reply s =
     (case decode_payload ce reply of
        Some (WRoomJoined p) \<Rightarrow>
          let summary = summary_with_caps (rjd_room p) (self_cap_set (rjd_you p));
              s1 = reset_playback_seq (s\<lparr>rc_state := Some summary\<rparr>);
              s2 = leave_replaced_room sr held (si_id summary) (spawn_presence_loop (emit_state summary s1))
          in (Inr (VSummary summary), s2\<lparr>rc_active_room_code := Some (code, display_name)\<rparr>)
      | _ \<Rightarrow> (Inl CeUnexpected, s))"

definition room_is_gone :: "room_error_code \<Rightarrow> bool" where
  "room_is_gone c \<longleftrightarrow> c \<in> {CUnauthorized, CRoomNotFound, CRoomClosed, CNotJoined}"

definition finish_rejoin ::
    "'m client_edge \<Rightarrow> surroundings \<Rightarrow> client_error + json envelope \<Rightarrow> 'm room_client
       \<Rightarrow> (client_error + 'm client_value) \<times> 'm room_client" where
  "finish_rejoin ce sr answer s =
     (case answer of
        Inr reply \<Rightarrow> (case decode_payload ce reply of
            Some (WRoomJoined p) \<Rightarrow>
              let summary = summary_with_caps (rjd_room p) (self_cap_set (rjd_you p))
              in (Inr VUnit, drain_pending_outbound sr (emit_state summary (s\<lparr>rc_state := Some summary\<rparr>)))
          | _ \<Rightarrow> (Inl CeUnexpected, s))
      | Inl (CeServer c) \<Rightarrow>
          if c = CAlreadyJoined then (Inr VUnit, drain_pending_outbound sr s)
          else if room_is_gone c then (Inl (CeServer c), drop_room_session s)
          else (Inl (CeServer c), s)
      | Inl e \<Rightarrow> (Inl e, s))"

definition finish_fetch ::
    "'m client_edge \<Rightarrow> json envelope \<Rightarrow> 'm room_client \<Rightarrow> (client_error + 'm client_value) \<times> 'm room_client" where
  "finish_fetch ce reply s =
     (case decode_payload ce reply of
        Some (WManifestResponse m version published_at_ms) \<Rightarrow>
          (case accept_manifest ce m version s of
             (Inl e, s1) \<Rightarrow> (Inl (CeManifestRejected e), s1)
           | (Inr _, s1) \<Rightarrow> (Inr (VFetched m version published_at_ms), s1))
      | _ \<Rightarrow> (Inl CeUnexpected, s))"

definition finish_probe :: "'m client_edge \<Rightarrow> surroundings \<Rightarrow> millis \<Rightarrow> json envelope \<Rightarrow> client_error + 'm client_value" where
  "finish_probe ce sr t0 reply =
     (case decode_payload ce reply of
        Some (WSkewReply server_ts_ms client_send_ms) \<Rightarrow> Inr (VSkew t0 (sr_now_ms sr) server_ts_ms client_send_ms)
      | _ \<Rightarrow> Inl CeUnexpected)"

fun finish_call ::
    "'m client_edge \<Rightarrow> surroundings \<Rightarrow> client_call \<Rightarrow> client_error + json envelope \<Rightarrow> 'm room_client
       \<Rightarrow> (client_error + 'm client_value) \<times> 'm room_client" where
  "finish_call ce sr CallRejoin answer s = finish_rejoin ce sr answer s"
| "finish_call ce sr call (Inl e) s = (Inl e, s)"
| "finish_call ce sr CallCreate (Inr reply) s = finish_create ce reply s"
| "finish_call ce sr (CallJoin code name held) (Inr reply) s = finish_join ce sr code name held reply s"
| "finish_call ce sr CallFetch (Inr reply) s = finish_fetch ce reply s"
| "finish_call ce sr (CallProbe t0) (Inr reply) s = (finish_probe ce sr t0 reply, s)"

text \<open>The call whose reply has come goes on; a call whose time is up prunes its sender; a dropped one leaves it.\<close>

definition resume_call :: "'m client_edge \<Rightarrow> surroundings \<Rightarrow> nat \<Rightarrow> 'm room_client \<Rightarrow> 'm room_client" where
  "resume_call ce sr w s =
     (case hm_get (rc_calls s) w of
        Some (call, Some reply) \<Rightarrow>
          snd (finish_call ce sr call (reply_result ce reply) (s\<lparr>rc_calls := hm_remove w (rc_calls s)\<rparr>))
      | _ \<Rightarrow> s)"

definition time_out_call :: "'m client_edge \<Rightarrow> surroundings \<Rightarrow> nat \<Rightarrow> 'm room_client \<Rightarrow> 'm room_client" where
  "time_out_call ce sr w s =
     (case hm_get (rc_calls s) w of
        Some (call, None) \<Rightarrow>
          snd (finish_call ce sr call (Inl CeUnexpected) (prune (reply_kind call) (s\<lparr>rc_calls := hm_remove w (rc_calls s)\<rparr>)))
      | _ \<Rightarrow> s)"

definition abandon_call :: "nat \<Rightarrow> 'm room_client \<Rightarrow> 'm room_client" where
  "abandon_call w s = s\<lparr>rc_calls := hm_remove w (rc_calls s)\<rparr>"

section \<open>What the server sends\<close>

definition is_room_scoped_event :: "message_kind \<Rightarrow> bool" where
  "is_room_scoped_event k \<longleftrightarrow> k \<in> {MkManifestPart, MkRoomState, MkParticipantJoined, MkParticipantLeft, MkHostDisconnected,
     MkHostReconnected, MkHostMigrated, MkCapabilityUpdate, MkRoomClosed}"

definition room_error_ends_membership :: "'m client_edge \<Rightarrow> json envelope \<Rightarrow> bool" where
  "room_error_ends_membership ce env =
     (case decode_payload ce env of Some (WRoomError p) \<Rightarrow> room_is_gone (rep_code p) | _ \<Rightarrow> True)"

definition migrated_you_cap_set :: "u32 option \<Rightarrow> uuid option \<Rightarrow> host_migrated_payload \<Rightarrow> u32 option" where
  "migrated_you_cap_set previous me m =
     (if me = Some (hm_new_host_user_id m) then Some HOST
      else if me = Some (hm_previous_host_user_id m) then Some CHAT
      else previous)"

definition stroke_sender :: "json envelope \<Rightarrow> uuid option" where
  "stroke_sender env =
     (case env_sender env of None \<Rightarrow> None | Some sd \<Rightarrow> if snd_user_id sd \<noteq> 0 then Some (snd_user_id sd) else None)"

definition laser_unit_ok :: "f32 \<Rightarrow> bool" where
  "laser_unit_ok n \<longleftrightarrow> f32_is_finite n \<and> f32_le f32_zero n \<and> f32_le n f32_one"

text \<open>The room of an envelope when it is the one held.\<close>

definition own_room :: "json envelope \<Rightarrow> 'm room_client \<Rightarrow> uuid option" where
  "own_room env s =
     (case env_room_id env of None \<Rightarrow> None | Some rid \<Rightarrow> if held_room s = Some rid then Some rid else None)"

definition laser_origin :: "json envelope \<Rightarrow> 'm room_client \<Rightarrow> (uuid \<times> uuid) option" where
  "laser_origin env s =
     (case own_room env s of
        None \<Rightarrow> None
      | Some rid \<Rightarrow> (case stroke_sender env of
          None \<Rightarrow> None
        | Some sid \<Rightarrow> if rc_local_user_id s = Some sid then None else Some (rid, sid)))"

text \<open>The arms that replace the summary, and those that update the one held, if any.\<close>

definition entered :: "room_summary \<Rightarrow> participant_self \<Rightarrow> 'm room_client \<Rightarrow> 'm room_client" where
  "entered room you s =
     (let summary = summary_with_caps room (self_cap_set you);
          s1 = s\<lparr>rc_state := Some summary, rc_local_user_id := Some (self_user_id you)\<rparr>
      in emit_event summary (emit_state summary s1))"

definition update_summary :: "(room_summary_ipc \<Rightarrow> room_summary_ipc) \<Rightarrow> 'm room_client \<Rightarrow> 'm room_client" where
  "update_summary f s =
     (case rc_state s of
        None \<Rightarrow> s
      | Some x \<Rightarrow> emit_event (f x) (emit_state (f x) (s\<lparr>rc_state := Some (f x)\<rparr>)))"

definition room_state_arm :: "room_summary \<Rightarrow> 'm room_client \<Rightarrow> 'm room_client" where
  "room_state_arm room s =
     (let summary = (room_summary_ipc_from room)\<lparr>si_you_cap_set := Option.bind (rc_state s) si_you_cap_set\<rparr>
      in emit_state summary (s\<lparr>rc_state := Some summary\<rparr>))"

definition host_migrated_arm :: "host_migrated_payload \<Rightarrow> 'm room_client \<Rightarrow> 'm room_client" where
  "host_migrated_arm m s =
     (case hm_summary m of
        Some room \<Rightarrow>
          let previous = Option.bind (rc_state s) si_you_cap_set;
              summary = (room_summary_ipc_from room)\<lparr>si_you_cap_set := migrated_you_cap_set previous (rc_local_user_id s) m\<rparr>
          in emit_event summary (emit_state summary (s\<lparr>rc_state := Some summary\<rparr>))
      | None \<Rightarrow>
          update_summary (\<lambda>x. x\<lparr>si_host_user_id := hm_new_host_user_id m, si_host_disconnected := False,
            si_host_disconnect_deadline_ms := None,
            si_you_cap_set := migrated_you_cap_set (si_you_cap_set x) (rc_local_user_id s) m\<rparr>) s)"

text \<open>\<open>iter_mut().find(..)\<close>: the first entry that satisfies \<open>P\<close> is replaced.\<close>

fun replace_first :: "('a \<Rightarrow> bool) \<Rightarrow> ('a \<Rightarrow> 'a) \<Rightarrow> 'a list \<Rightarrow> 'a list option" where
  "replace_first P f [] = None"
| "replace_first P f (x # xs) = (if P x then Some (f x # xs) else map_option ((#) x) (replace_first P f xs))"

definition put_participant :: "participant_ipc \<Rightarrow> participant_ipc list \<Rightarrow> participant_ipc list" where
  "put_participant p ps =
     (case replace_first (\<lambda>x. pi_user_id x = pi_user_id p) (\<lambda>_. p) ps of None \<Rightarrow> ps @ [p] | Some ps' \<Rightarrow> ps')"

definition capability_update_arm :: "uuid \<Rightarrow> u32 \<Rightarrow> 'm room_client \<Rightarrow> 'm room_client" where
  "capability_update_arm target caps s =
     update_summary (\<lambda>x.
       if rc_local_user_id s = Some target then x\<lparr>si_you_cap_set := Some caps\<rparr>
       else (case replace_first (\<lambda>p. pi_user_id p = target) (\<lambda>p. p\<lparr>pi_cap_set := caps\<rparr>) (si_participants x) of
               None \<Rightarrow> x
             | Some ps \<Rightarrow> x\<lparr>si_participants := ps\<rparr>)) s"

text \<open>ROOM_ERROR, by the request it answered, if any.\<close>

definition room_error_arm ::
    "'m client_edge \<Rightarrow> surroundings \<Rightarrow> json envelope \<Rightarrow> message_kind option \<Rightarrow> 'm room_client \<Rightarrow> 'm room_client" where
  "room_error_arm ce sr env resolved s =
     (if resolved = Some MkManifestResponse then s
      else if resolved = None \<and> \<not> room_error_ends_membership ce env then
        (case decode_payload ce env of
           Some (WRoomError p) \<Rightarrow> (case (rep_code p, rep_expected_seq p) of
               (CStaleCommand, Some expected) \<Rightarrow> resync_playback_seq sr expected False s
             | (CInvalidState, Some expected) \<Rightarrow> resync_playback_seq sr expected True s
             | _ \<Rightarrow> s)
         | _ \<Rightarrow> s)
      else if resolved = Some MkRoomJoined \<or> resolved = Some MkRoomCreated then s
      else drop_room_session s)"

definition chat_arm :: "'m client_edge \<Rightarrow> json envelope \<Rightarrow> chat_payload \<Rightarrow> 'm room_client \<Rightarrow> 'm room_client" where
  "chat_arm ce env p s =
     (case (own_room env s, rc_state s) of
        (Some rid, Some summary) \<Rightarrow>
          let name = (case find (\<lambda>u. pi_user_id u = chat_sender_id p) (si_participants summary) of
                        Some u \<Rightarrow> pi_display_name u
                      | None \<Rightarrow> take 8 (ed_uuid_string (cl_edge ce) (chat_sender_id p)))
          in emit (ShowChat rid (chat_sender_id p) name (chat_text p) (chat_reply_to p) (chat_sent_ms p)) s
      | _ \<Rightarrow> s)"

text \<open>The drawing arms: only for the room held, and only with a usable sender.\<close>

definition drawing_arm :: "json envelope \<Rightarrow> (uuid \<Rightarrow> uuid \<Rightarrow> shown) \<Rightarrow> 'm room_client \<Rightarrow> 'm room_client" where
  "drawing_arm env event s =
     (case (own_room env s, stroke_sender env) of
        (Some rid, Some sid) \<Rightarrow> emit (event rid sid) s
      | _ \<Rightarrow> s)"

definition own_room_arm :: "json envelope \<Rightarrow> (uuid \<Rightarrow> shown) \<Rightarrow> 'm room_client \<Rightarrow> 'm room_client" where
  "own_room_arm env event s = (case own_room env s of Some rid \<Rightarrow> emit (event rid) s | None \<Rightarrow> s)"

definition laser_arm :: "json envelope \<Rightarrow> (uuid \<Rightarrow> uuid \<Rightarrow> shown) \<Rightarrow> 'm room_client \<Rightarrow> 'm room_client" where
  "laser_arm env event s = (case laser_origin env s of Some (rid, sid) \<Rightarrow> emit (event rid sid) s | None \<Rightarrow> s)"

text \<open>
  The second half of \<open>handle_inbound\<close>, the match on the kind, with the decoded payload: what is
  drawn, what is relayed from the other participants, and what concerns the session.
\<close>

definition drawing_effect :: "'m wire_payload option \<Rightarrow> json envelope \<Rightarrow> 'm room_client \<Rightarrow> 'm room_client" where
  "drawing_effect payload env s =
     (let seq = env_seq env in case env_type env of
        MkStrokeBegin \<Rightarrow> (case payload of Some (WStrokeBegin p) \<Rightarrow> drawing_arm env (\<lambda>r u. ShowStrokeBegin r u p seq) s | _ \<Rightarrow> s)
      | MkStrokePoint \<Rightarrow> (case payload of Some (WStrokePoint p) \<Rightarrow> drawing_arm env (\<lambda>r u. ShowStrokePoint r u p seq) s | _ \<Rightarrow> s)
      | MkStrokeEnd \<Rightarrow> (case payload of Some (WStrokeEnd p) \<Rightarrow> drawing_arm env (\<lambda>r u. ShowStrokeEnd r u p seq) s | _ \<Rightarrow> s)
      | MkStrokeUndo \<Rightarrow> (case payload of Some (WStrokeUndo p) \<Rightarrow> drawing_arm env (\<lambda>r u. ShowStrokeUndo r u p seq) s | _ \<Rightarrow> s)
      | MkStrokeClear \<Rightarrow> drawing_arm env (\<lambda>r u. ShowStrokeClear r u seq) s
      | MkStrokeSync \<Rightarrow> (case payload of Some (WStrokeSync p) \<Rightarrow> own_room_arm env (\<lambda>r. ShowStrokeSync r p) s | _ \<Rightarrow> s)
      | _ \<Rightarrow> s)"

definition relay_effect :: "'m client_edge \<Rightarrow> 'm wire_payload option \<Rightarrow> json envelope \<Rightarrow> 'm room_client \<Rightarrow> 'm room_client" where
  "relay_effect ce payload env s =
     (case env_type env of
        MkPlaybackCmd \<Rightarrow> (case payload of Some (WPlaybackAccepted e) \<Rightarrow> own_room_arm env (\<lambda>r. ShowPlayback r e) s | _ \<Rightarrow> s)
      | MkPositionReport \<Rightarrow> (case payload of Some (WPositionReport p) \<Rightarrow> own_room_arm env (\<lambda>r. ShowPosition r p) s | _ \<Rightarrow> s)
      | MkChatMessage \<Rightarrow> (case payload of Some (WChat p) \<Rightarrow> chat_arm ce env p s | _ \<Rightarrow> s)
      | MkLaserMove \<Rightarrow> (case payload of
          Some (WLaserMove p) \<Rightarrow>
            if laser_unit_ok (lm_x p) \<and> laser_unit_ok (lm_y p) then laser_arm env (\<lambda>r u. ShowLaserMove r u (lm_x p) (lm_y p)) s else s
        | _ \<Rightarrow> s)
      | MkLaserOff \<Rightarrow> (case payload of Some _ \<Rightarrow> laser_arm env ShowLaserOff s | None \<Rightarrow> s)
      | _ \<Rightarrow> drawing_effect payload env s)"

definition inbound_effect ::
    "'m client_edge \<Rightarrow> surroundings \<Rightarrow> json envelope \<Rightarrow> message_kind option \<Rightarrow> 'm room_client \<Rightarrow> 'm room_client" where
  "inbound_effect ce sr env resolved s =
     (let payload = decode_payload ce env in case env_type env of
        MkRoomState \<Rightarrow> (case payload of Some (WRoomState p) \<Rightarrow> room_state_arm (rst_room p) s | _ \<Rightarrow> s)
      | MkRoomJoined \<Rightarrow> (case payload of Some (WRoomJoined p) \<Rightarrow> entered (rjd_room p) (rjd_you p) s | _ \<Rightarrow> s)
      | MkRoomCreated \<Rightarrow> (case payload of Some (WRoomCreated p) \<Rightarrow> entered (rcd_room p) (rcd_you p) s | _ \<Rightarrow> s)
      | MkHostMigrated \<Rightarrow> (case payload of Some (WHostMigrated m) \<Rightarrow> host_migrated_arm m s | _ \<Rightarrow> s)
      | MkHostReconnected \<Rightarrow> (case payload of
          Some (WHostReconnected host_id) \<Rightarrow> update_summary (\<lambda>x. x\<lparr>si_host_user_id := host_id, si_host_disconnected := False,
            si_host_disconnect_deadline_ms := None\<rparr>) s
        | _ \<Rightarrow> s)
      | MkHostDisconnected \<Rightarrow> (case payload of
          Some (WHostDisconnected m) \<Rightarrow> update_summary (\<lambda>x. x\<lparr>si_host_disconnected := True,
            si_host_disconnect_deadline_ms := Some (hd_reconnect_deadline_ms m)\<rparr>) s
        | _ \<Rightarrow> s)
      | MkParticipantJoined \<Rightarrow> (case payload of
          Some (WParticipantJoined p) \<Rightarrow>
            update_summary (\<lambda>x. x\<lparr>si_participants := put_participant (participant_ipc_from p) (si_participants x)\<rparr>) s
        | _ \<Rightarrow> s)
      | MkParticipantLeft \<Rightarrow> (case payload of
          Some (WParticipantLeft p) \<Rightarrow>
            update_summary (\<lambda>x. x\<lparr>si_participants := filter (\<lambda>u. pi_user_id u \<noteq> pl_user_id p) (si_participants x)\<rparr>) s
        | _ \<Rightarrow> s)
      | MkRoomError \<Rightarrow> room_error_arm ce sr env resolved s
      | MkRoomClosed \<Rightarrow> drop_room_session s
      | MkManifestPublished \<Rightarrow> handle_manifest_published ce env s
      | MkManifestPart \<Rightarrow> client_manifest_part ce sr env s
      | MkCapabilityUpdate \<Rightarrow> (case payload of Some (WCapabilityUpdate target caps) \<Rightarrow> capability_update_arm target caps s | _ \<Rightarrow> s)
      | _ \<Rightarrow> relay_effect ce payload env s)"

definition expire_parts :: "surroundings \<Rightarrow> 'm room_client \<Rightarrow> 'm room_client" where
  "expire_parts sr s =
     (let (bb, es) = expire (asm_ttl (rc_manifest_parts s)) (sr_now sr) (rc_budget s, asm_entries (rc_manifest_parts s))
      in s\<lparr>rc_budget := bb, rc_manifest_parts := (rc_manifest_parts s)\<lparr>asm_entries := es\<rparr>\<rparr>)"

definition foreign_event :: "json envelope \<Rightarrow> 'm room_client \<Rightarrow> bool" where
  "foreign_event env s \<longleftrightarrow> is_room_scoped_event (env_type env)
     \<and> (case (env_room_id env, held_room s) of (Some named, Some cached) \<Rightarrow> cached \<noteq> named | _ \<Rightarrow> False)"

definition handle_inbound :: "'m client_edge \<Rightarrow> surroundings \<Rightarrow> json envelope \<Rightarrow> 'm room_client \<Rightarrow> 'm room_client" where
  "handle_inbound ce sr env s =
     (let s0 = expire_parts sr s
      in if foreign_event env s0 then s0
         else let (resolved, s1) = deliver_to_pending sr env s0 in inbound_effect ce sr env resolved s1)"

section \<open>Any order of operations\<close>

datatype client_op =
  CoInbound "json envelope" | CoResume nat | CoTimeOut nat | CoAbandon nat
| CoCreate rstring bool | CoJoin rstring rstring | CoRejoin | CoLeave
| CoPlayback playback_action nat | CoSend client_envelope | CoPermission uuid uuid u32 u32 | CoChat uuid rstring "uuid option"
| CoFetch uuid uuid | CoProbe | CoPresenceTurn | CoSetAnchor bytes | CoClearAnchor | CoSelect "rstring list option" | CoUnselect

fun client_step :: "'m client_edge \<Rightarrow> 'm room_client \<Rightarrow> surroundings \<times> client_op \<Rightarrow> 'm room_client" where
  "client_step ce s (sr, CoInbound env) = handle_inbound ce sr env s"
| "client_step ce s (sr, CoResume w) = resume_call ce sr w s"
| "client_step ce s (sr, CoTimeOut w) = time_out_call ce sr w s"
| "client_step ce s (sr, CoAbandon w) = abandon_call w s"
| "client_step ce s (sr, CoCreate title mig) = snd (room_create sr title mig s)"
| "client_step ce s (sr, CoJoin code name) = snd (room_join sr code name s)"
| "client_step ce s (sr, CoRejoin) = snd (rejoin_active_room sr s)"
| "client_step ce s (sr, CoLeave) = snd (room_leave sr s)"
| "client_step ce s (sr, CoPlayback action pos) = snd (send_playback sr action pos s)"
| "client_step ce s (sr, CoSend env) = snd (send_or_buffer sr env s)"
| "client_step ce s (sr, CoPermission rid target a r) = snd (permission_set sr rid target a r s)"
| "client_step ce s (sr, CoChat rid msg reply_to) = snd (send_chat_message sr rid msg reply_to s)"
| "client_step ce s (sr, CoFetch rid media) = snd (manifest_fetch sr rid media s)"
| "client_step ce s (sr, CoProbe) = snd (clock_skew_probe sr s)"
| "client_step ce s (sr, CoPresenceTurn) = presence_turn sr s"
| "client_step ce s (sr, CoSetAnchor pubkey) = set_expected_host_pubkey pubkey s"
| "client_step ce s (sr, CoClearAnchor) = clear_expected_host_pubkey s"
| "client_step ce s (sr, CoSelect selection) = set_host_media_selection selection s"
| "client_step ce s (sr, CoUnselect) = clear_host_media_selection s"
end
