(* ===== verification/RoomFrames.thy ===== *)
theory RoomFrames
  imports RoomClient
begin

text \<open>
  Parts of the client's state that the operations of a session leave alone. The manifest cache and the
  pending requests are such parts; what follows is proved once for both.
\<close>

named_theorems view_simps \<open>operations that leave a part of the client's state alone\<close>

locale aside =
  fixes view :: "'m room_client \<Rightarrow> 'v"
  assumes view_update [view_simps]:
    "view (s\<lparr>rc_state := a\<rparr>) = view s" "view (s\<lparr>rc_presence := b\<rparr>) = view s" "view (s\<lparr>rc_budget := c\<rparr>) = view s"
    "view (s\<lparr>rc_manifest_parts := d\<rparr>) = view s" "view (s\<lparr>rc_local_user_id := e\<rparr>) = view s"
    "view (s\<lparr>rc_pending_outbound := f\<rparr>) = view s" "view (s\<lparr>rc_pending_leave := g\<rparr>) = view s"
    "view (s\<lparr>rc_playback_seq := h\<rparr>) = view s" "view (s\<lparr>rc_active_room_code := i\<rparr>) = view s"
    "view (s\<lparr>rc_host_media_selection := j\<rparr>) = view s" "view (s\<lparr>rc_sends := k\<rparr>) = view s"
    "view (s\<lparr>rc_sent := l\<rparr>) = view s" "view (s\<lparr>rc_shown := m\<rparr>) = view s"
begin

lemma view_emit [view_simps]:
  "view (emit ev s) = view s" "view (emit_state x s) = view s" "view (emit_event x s) = view s" "view (emit_state_cleared s) = view s"
  by (simp_all add: emit_def emit_state_def emit_event_def emit_state_cleared_def view_simps)

lemma view_send [view_simps]: "view (snd (send_envelope sr env s)) = view s" "view (snd (send_or_buffer sr env s)) = view s"
  by (simp_all add: send_envelope_def send_or_buffer_def Let_def view_simps)

lemma view_send_all [view_simps]: "view (send_all sr envs s) = view s"
  by (induction envs arbitrary: s) (simp_all add: view_simps)

lemma view_session [view_simps]:
  "view (drain_pending_outbound sr s) = view s"
  "view (reset_playback_seq s) = view s" "view (spawn_presence_loop s) = view s" "view (abort_presence_loop s) = view s"
  "view (set_host_media_selection sel s) = view s" "view (clear_host_media_selection s) = view s"
  "view (forget_room_session s) = view s" "view (drop_room_session s) = view s" "view (keep_leave s) = view s"
   by (simp_all add: drain_pending_outbound_def reset_playback_seq_def spawn_presence_loop_def abort_presence_loop_def
      set_host_media_selection_def clear_host_media_selection_def forget_room_session_def drop_room_session_def keep_leave_def
      Let_def view_simps split: option.splits)

lemma view_leave [view_simps]: "view (snd (leave_room_inner sr room s)) = view s"
proof -
  obtain r s1 where d: "send_or_buffer sr (client_envelope_of sr MkRoomLeave room CpRoomLeave) s = (r, s1)" by fastforce
  then have "view s1 = view s" using view_send(2) [of sr _ s] by (metis snd_conv)
  with d show ?thesis by (cases r) (simp_all add: leave_room_inner_def Let_def view_simps)
qed

lemma view_replaced [view_simps]: "view (leave_replaced_room sr old new_id s) = view s"
  by (simp add: leave_replaced_room_def view_simps split: option.splits)

lemma view_playback [view_simps]: "view (snd (send_playback sr action pos s)) = view s"
proof (cases "rc_state s")
  case (Some x)
  obtain seq q where n: "number_command action pos (rc_playback_seq s) = (seq, q)" by fastforce
  obtain r s1 where d: "send_envelope sr (playback_envelope sr (si_id x) action seq pos) (s\<lparr>rc_playback_seq := q\<rparr>) = (r, s1)" by fastforce
  then have "view s1 = view s" using view_send(1) [of sr _ "s\<lparr>rc_playback_seq := q\<rparr>"] by (metis snd_conv view_update(8))
  with Some n d show ?thesis by (cases r) (simp_all add: send_playback_def view_simps)
qed (simp add: send_playback_def)

lemma view_resend [view_simps]: "view (resend_all sr rid ls s) = view s"
proof (induction ls arbitrary: s)
  case (Cons l ls)
  obtain r s1 where d: "send_envelope sr (playback_envelope sr rid (sp_action l) (sp_seq l) (sp_media_position_ms l)) s = (r, s1)" by fastforce
  then have "view s1 = view s" using view_send(1) [of sr _ s] by (metis snd_conv)
  with d Cons show ?case by (cases r) simp_all
qed simp

lemma view_resync [view_simps]: "view (resync_playback_seq sr expected refusal s) = view s"
  by (simp add: resync_playback_seq_def Let_def case_prod_beta view_simps split: option.splits)

lemma view_expire [view_simps]: "view (expire_parts sr s) = view s"
  by (simp add: expire_parts_def Let_def case_prod_beta view_simps)

lemma view_arms [view_simps]:
  "view (entered room you s) = view s" "view (update_summary f s) = view s" "view (room_state_arm room s) = view s"
  "view (host_migrated_arm m s) = view s" "view (capability_update_arm target caps s) = view s"
  "view (chat_arm ce env p s) = view s" "view (drawing_arm env ev2 s) = view s" "view (own_room_arm env ev1 s) = view s"
  "view (laser_arm env ev2 s) = view s"
  by (simp_all add: entered_def update_summary_def room_state_arm_def host_migrated_arm_def capability_update_arm_def chat_arm_def
      drawing_arm_def own_room_arm_def laser_arm_def Let_def view_simps split: option.splits prod.splits)

lemma view_error_arm [view_simps]: "view (room_error_arm ce sr env resolved s) = view s"
  by (auto simp: room_error_arm_def view_simps split: option.splits wire_payload.splits room_error_code.splits)

lemma view_second_halves [view_simps]:
  "view (snd (finish_rejoin ce sr answer s)) = view s" "view (snd (finish_create ce reply s)) = view s"
  "view (snd (finish_join ce sr code name held reply s)) = view s"
  by (auto simp: finish_rejoin_def finish_create_def finish_join_def Let_def view_simps
      split: sum.splits option.splits wire_payload.splits client_error.splits)

end

text \<open>Parts other than the pending requests: handing over a reply leaves them alone.\<close>

locale off_desk =
  fixes view :: "'m room_client \<Rightarrow> 'v"
  assumes off_update [view_simps]:
    "view (s\<lparr>rc_pending := a\<rparr>) = view s" "view (s\<lparr>rc_calls := b\<rparr>) = view s"
begin

lemma off_prune [view_simps]: "view (prune kind s) = view s"
  by (simp add: prune_def view_simps split: option.splits)

lemma off_deliver_kind [view_simps]: "view (snd (deliver_to_kind env kind s)) = view s"
  by (auto simp: deliver_to_kind_def Let_def view_simps split: option.splits prod.splits)

lemma off_deliver_any [view_simps]: "view (snd (deliver_to_any env kinds s)) = view s"
proof (induction kinds arbitrary: s)
  case (Cons kind kinds)
  obtain b s1 where d: "deliver_to_kind env kind s = (b, s1)" by fastforce
  then have "view s1 = view s" using off_deliver_kind [of env kind s] by simp
  with d Cons show ?case by (cases b) simp_all
qed simp

lemma off_deliver [view_simps]: "view (snd (deliver_to_pending sr env s)) = view s"
proof -
  obtain b s1 where d: "deliver_to_kind env (env_type env) s = (b, s1)" by fastforce
  then have "view s1 = view s" using off_deliver_kind [of env "env_type env" s] by simp
  with d show ?thesis by (cases b) (simp_all add: deliver_to_pending_def view_simps)
qed

end

end
