(* ===== verification/RoomTrust.thy ===== *)
theory RoomTrust
  imports RoomFrames
begin

text \<open>
  Which manifests the client's cache can hold: signed by a key the user's invite vouched for, for
  the room they are cached under, and never older than one that was there before.
\<close>

section \<open>The cache, its versions and the anchor\<close>

definition vault :: "'m room_client \<Rightarrow> (uuid, 'm) hashmap \<times> (uuid, int) hashmap \<times> bytes option" where
  "vault s = (rc_verified_manifests s, rc_current_versions s, rc_expected_host_pubkey s)"

interpretation vault: aside vault
  by unfold_locales (simp_all add: vault_def)

interpretation vault_off: off_desk vault
  by unfold_locales (simp_all add: vault_def)

lemma vault_next_call [view_simps]: "vault (s\<lparr>rc_next_call := d\<rparr>) = vault s"
  by (simp add: vault_def)

lemma vault_request [view_simps]: "vault (snd (request_start sr call env s)) = vault s"
proof -
  have "vault s2 = vault s1" if "send_or_buffer sr env s1 = (r, s2)" for s1 s2 :: "'a room_client" and r
    using vault.view_send(2) [of sr env s1] that by simp
  then show ?thesis by (auto simp: request_start_def Let_def view_simps split: prod.splits sum.splits)
qed

section \<open>The one way in\<close>

text \<open>What accepting a manifest does to the cache, and when it may.\<close>

definition accepts ::
    "'m client_edge \<Rightarrow> (uuid, 'm) hashmap \<times> (uuid, int) hashmap \<times> bytes option
       \<Rightarrow> (uuid, 'm) hashmap \<times> (uuid, int) hashmap \<times> bytes option \<Rightarrow> bool" where
  "accepts ce v v' \<longleftrightarrow> (\<exists>m room version key. ed_verify_manifest (cl_edge ce) m
     \<and> cl_parse_uuid ce (ed_manifest_room_id (cl_edge ce) m) = Some room
     \<and> manifest_pubkey ce m = Inr key \<and> snd (snd v) = Some key
     \<and> (\<forall>prev. hm_get (fst (snd v)) room = Some prev \<longrightarrow> prev \<le> version)
     \<and> v' = (hm_insert room m (fst v), hm_insert room version (fst (snd v)), snd (snd v)))"

abbreviation may_accept :: "'m client_edge \<Rightarrow> 'm room_client \<Rightarrow> 'm room_client \<Rightarrow> bool" where
  "may_accept ce s s' \<equiv> vault s' = vault s \<or> accepts ce (vault s) (vault s')"

lemma accept_manifest_vault: "may_accept ce s (snd (accept_manifest ce m version s))"
proof (cases "fst (accept_manifest ce m version s)")
  case (Inl e)
  then have "snd (accept_manifest ce m version s) = s"
    by (auto simp: accept_manifest_def Let_def split: option.splits sum.splits if_splits)
  then show ?thesis by simp
next
  case (Inr room)
  then have "accepts ce (vault s) (vault (snd (accept_manifest ce m version s)))"
    unfolding accepts_def
    by (intro exI [of _ m] exI [of _ room] exI [of _ version] exI [of _ "the (rc_expected_host_pubkey s)"])
      (auto simp: accept_manifest_def Let_def vault_def emit_manifest_state_def emit_def split: option.splits sum.splits if_splits)
  then show ?thesis ..
qed

lemma manifest_part_vault: "may_accept ce s (client_manifest_part ce sr env s)"
proof -
  have "may_accept ce s (snd (accept_manifest ce m version (s\<lparr>rc_budget := bb, rc_manifest_parts := parts\<rparr>)))" for m version bb parts
    using accept_manifest_vault [where ce = ce and m = m and version = version and s = "s\<lparr>rc_budget := bb, rc_manifest_parts := parts\<rparr>"] by (simp add: view_simps)
  then show ?thesis
    by (simp add: client_manifest_part_def Let_def case_prod_beta view_simps
        split: option.split wire_payload.split sum.split manifest_part_kind.split)
qed

lemma inbound_effect_vault: "may_accept ce s (inbound_effect ce sr env resolved s)"
  by (cases "env_type env")
    (simp_all add: inbound_effect_def relay_effect_def drawing_effect_def Let_def view_simps manifest_part_vault handle_manifest_published_def accept_manifest_vault
      split: option.split wire_payload.split)

lemma handle_inbound_vault: "may_accept ce s (handle_inbound ce sr env s)"
proof -
  let ?s0 = "expire_parts sr s"
  obtain resolved s1 where d: "deliver_to_pending sr env ?s0 = (resolved, s1)" by fastforce
  then have "vault s1 = vault s" using vault_off.off_deliver [of sr env ?s0] by (simp add: view_simps)
  with d inbound_effect_vault [where ce = ce and s = s1 and sr = sr and env = env and resolved = resolved] show ?thesis by (simp add: handle_inbound_def Let_def view_simps)
qed

lemma finish_call_vault: "may_accept ce s (snd (finish_call ce sr call answer s))"
proof -
  have fetch: "may_accept ce s (snd (finish_fetch ce reply s))" for reply
  proof (cases "\<exists>m version at. decode_payload ce reply = Some (WManifestResponse m version at)")
    case True
    then obtain m version at where p: "decode_payload ce reply = Some (WManifestResponse m version at)" by blast
    show ?thesis using accept_manifest_vault [where ce = ce and m = m and version = version and s = s]
      by (cases "accept_manifest ce m version s") (simp add: finish_fetch_def p split: sum.split)
  next
    case False
    then have "snd (finish_fetch ce reply s) = s" by (auto simp: finish_fetch_def split: option.splits wire_payload.splits)
    then show ?thesis by simp
  qed
  then show ?thesis by (cases call; cases answer) (simp_all add: view_simps)
qed

lemma resume_call_vault: "may_accept ce s (resume_call ce sr w s)"
proof -
  have "may_accept ce s (snd (finish_call ce sr call answer (s\<lparr>rc_calls := calls\<rparr>)))" for call answer calls
    using finish_call_vault [where ce = ce and s = "s\<lparr>rc_calls := calls\<rparr>" and sr = sr and call = call and answer = answer] by (simp add: view_simps)
  then show ?thesis by (simp add: resume_call_def split: option.split)
qed

lemma time_out_call_vault: "may_accept ce s (time_out_call ce sr w s)"
proof -
  have "may_accept ce s (snd (finish_call ce sr call answer (prune kind (s\<lparr>rc_calls := calls\<rparr>))))" for call answer calls kind
    using finish_call_vault [where ce = ce and s = "prune kind (s\<lparr>rc_calls := calls\<rparr>)" and sr = sr and call = call and answer = answer] by (simp add: view_simps)
  then show ?thesis by (simp add: time_out_call_def split: option.split)
qed

definition anchor_op :: "client_op \<Rightarrow> bool" where
  "anchor_op op \<longleftrightarrow> (case op of CoSetAnchor _ \<Rightarrow> True | CoClearAnchor \<Rightarrow> True | _ \<Rightarrow> False)"

lemma rejoin_vault [view_simps]: "vault (snd (rejoin_active_room sr s)) = vault s"
proof -
  have "vault s1 = vault s" if "send_envelope sr env (s\<lparr>rc_pending_leave := None\<rparr>) = (r, s1)" for env r s1
    using vault.view_send(1) [of sr env "s\<lparr>rc_pending_leave := None\<rparr>"] that by (simp add: view_simps)
  moreover have "vault s1 = vault s" if "request_start sr call env (s\<lparr>rc_pending_leave := None\<rparr>) = (r, s1)" for call env r s1
    using vault_request [of sr call env "s\<lparr>rc_pending_leave := None\<rparr>"] that by (simp add: view_simps)
  ultimately show ?thesis by (auto simp: rejoin_active_room_def view_simps split: option.splits prod.splits sum.splits)
qed

lemma client_step_vault:
  assumes "\<not> anchor_op (snd op)"
  shows "may_accept ce s (client_step ce s op)"
proof (cases op)
  case (Pair sr o')
  with assms show ?thesis
    by (cases o') (simp_all add: anchor_op_def handle_inbound_vault resume_call_vault time_out_call_vault abandon_call_def
        room_create_def room_join_def room_leave_def permission_set_def send_chat_message_def manifest_fetch_def clock_skew_probe_def
        presence_turn_def presence_def Let_def view_simps split: option.split)
qed

section \<open>What the cache can hold\<close>

definition client_run :: "'m client_edge \<Rightarrow> (surroundings \<times> client_op) list \<Rightarrow> 'm room_client" where
  "client_run ce ops = foldl (client_step ce) room_client_new ops"

lemma anchor_op_vault: "anchor_op (snd op) \<Longrightarrow> fst (vault (client_step ce s op)) = fst (vault s) \<and> fst (snd (vault (client_step ce s op))) = fst (snd (vault s))"
  by (cases op, cases "snd op")
    (auto simp: anchor_op_def vault_def set_expected_host_pubkey_def clear_expected_host_pubkey_def)

definition vouched :: "'m client_edge \<Rightarrow> (surroundings \<times> client_op) list \<Rightarrow> 'm \<Rightarrow> bool" where
  "vouched ce ops m \<longleftrightarrow> (\<exists>pre post key. ops = pre @ post \<and> rc_expected_host_pubkey (client_run ce pre) = Some key \<and> manifest_pubkey ce m = Inr key)"

lemma vouched_snoc: "vouched ce ops m \<Longrightarrow> vouched ce (ops @ [op]) m"
  by (fastforce simp: vouched_def)

definition sound_cache :: "'m client_edge \<Rightarrow> (surroundings \<times> client_op) list \<Rightarrow> (uuid, 'm) hashmap \<Rightarrow> bool" where
  "sound_cache ce ops cache \<longleftrightarrow> (\<forall>r m. hm_get cache r = Some m \<longrightarrow> ed_verify_manifest (cl_edge ce) m
     \<and> cl_parse_uuid ce (ed_manifest_room_id (cl_edge ce) m) = Some r \<and> vouched ce ops m)"

lemma run_sound_cache: "sound_cache ce ops (fst (vault (client_run ce ops)))"
proof (induction ops rule: rev_induct)
  case Nil
  show ?case by (simp add: sound_cache_def client_run_def vault_def room_client_new_def)
next
  case (snoc op ops)
  let ?s = "client_run ce ops"
  have run: "client_run ce (ops @ [op]) = client_step ce ?s op" by (simp add: client_run_def)
  have kept: ?case if "fst (vault (client_step ce ?s op)) = fst (vault ?s)"
    using that snoc by (auto simp: run sound_cache_def vouched_snoc)
  show ?case
  proof (cases "anchor_op (snd op) \<or> vault (client_step ce ?s op) = vault ?s")
    case True
    then show ?thesis using anchor_op_vault [of op ce ?s] by (intro kept) auto
  next
    case False
    then have "accepts ce (vault ?s) (vault (client_step ce ?s op))" using client_step_vault [of op ce ?s] by blast
    then obtain m room version key where m: "ed_verify_manifest (cl_edge ce) m" "cl_parse_uuid ce (ed_manifest_room_id (cl_edge ce) m) = Some room"
      "manifest_pubkey ce m = Inr key" "snd (snd (vault ?s)) = Some key"
      and cache: "fst (vault (client_step ce ?s op)) = hm_insert room m (fst (vault ?s))"
      by (auto simp: accepts_def)
    have "vouched ce (ops @ [op]) m" unfolding vouched_def using m(3,4) by (auto simp: vault_def)
    with m(1,2) snoc show ?thesis by (auto simp: run cache sound_cache_def vouched_snoc split: if_splits)
  qed
qed

lemma client_step_versions:
  assumes "hm_get (rc_current_versions s) r = Some v"
  shows "\<exists>v'. hm_get (rc_current_versions (client_step ce s op)) r = Some v' \<and> v \<le> v'"
proof (cases "anchor_op (snd op)")
  case True
  with anchor_op_vault [of op ce s] assms show ?thesis by (simp add: vault_def)
next
  case False
  with client_step_vault [of op ce s] consider "vault (client_step ce s op) = vault s" | "accepts ce (vault s) (vault (client_step ce s op))" by blast
  then show ?thesis
  proof cases
    case 1
    with assms show ?thesis by (simp add: vault_def)
  next
    case 2
    with assms show ?thesis by (auto simp: accepts_def vault_def)
  qed
qed

text \<open>
  C28: every manifest in the client's cache is verified, is cached under the room it names, and is
  signed by a key that was the installed trust anchor at some moment of the run; whatever the
  server sent, in whatever order, in one frame or in pieces, broadcast or fetched.
\<close>

theorem cached_manifests_trusted:
  assumes "hm_get (rc_verified_manifests (client_run ce ops)) r = Some m"
  shows "ed_verify_manifest (cl_edge ce) m \<and> cl_parse_uuid ce (ed_manifest_room_id (cl_edge ce) m) = Some r
    \<and> (\<exists>pre post key. ops = pre @ post \<and> rc_expected_host_pubkey (client_run ce pre) = Some key \<and> manifest_pubkey ce m = Inr key)"
  using assms run_sound_cache [of ce ops] by (auto simp: sound_cache_def vouched_def vault_def)

text \<open>A host's key, one manifest of version 3 for room 1, and a run that caches it.\<close>

definition example_client_edge :: "nat client_edge" where
  "example_client_edge = \<lparr>cl_edge = example_edge\<lparr>ed_signer_key_base64 := (\<lambda>_. Some (replicate 32 CHR ''a''))\<rparr>,
     cl_decode = (\<lambda>kind _. if kind = MkManifestPublished then Some (WManifestPublished 5 3 9) else None),
     cl_parse_uuid = (\<lambda>_. Some 1), cl_response_value = (\<lambda>_ _ _. JNull)\<rparr>"

definition steady_line :: surroundings where
  "steady_line = \<lparr>sr_now = 0, sr_now_ms = 0, sr_live = True, sr_bearer = True, sr_accepts = (\<lambda>_. True), sr_order = []\<rparr>"

definition example_client_run :: "(surroundings \<times> client_op) list" where
  "example_client_run = [(steady_line, CoSetAnchor (replicate 32 97)), (steady_line, CoInbound (example_envelope MkManifestPublished (Some 1)))]"

lemma example_client_run_vault:
  "vault (client_run example_client_edge example_client_run) = ([(1, 5)], [(1, 3)], Some (replicate 32 97))"
  by (simp add: client_run_def example_client_run_def handle_inbound_def expire_parts_def expire_def retain_def release_def
      room_client_new_def set_expected_host_pubkey_def assembler_new_def manifest_parts_budget_def example_envelope_def foreign_event_def
      is_room_scoped_event_def deliver_to_pending_def deliver_to_kind_def inbound_effect_def relay_effect_def drawing_effect_def handle_manifest_published_def decode_payload_def
      accept_manifest_def manifest_pubkey_def example_client_edge_def example_edge_def example_codec_def from_base64_def
      emit_manifest_state_def emit_def vault_def Let_def)

theorem cached_manifests_trusted_witness:
  "\<exists>pre post key. example_client_run = pre @ post \<and> rc_expected_host_pubkey (client_run example_client_edge pre) = Some key
    \<and> manifest_pubkey example_client_edge 5 = Inr key"
proof -
  have "hm_get (rc_verified_manifests (client_run example_client_edge example_client_run)) 1 = Some 5"
    using example_client_run_vault by (simp add: vault_def)
  from cached_manifests_trusted [OF this] show ?thesis by blast
qed

text \<open>
  C29: the version of a room's manifest never goes back. Once a version is cached for a room, every
  later state of the client has that version or a later one: neither a replayed broadcast nor an
  old answer, a reconnect or a change of room downgrades it.
\<close>

theorem versions_only_grow:
  assumes "hm_get (rc_current_versions (client_run ce ops)) r = Some v"
  shows "\<exists>v'. hm_get (rc_current_versions (client_run ce (ops @ later))) r = Some v' \<and> v \<le> v'"
proof (induction later rule: rev_induct)
  case Nil
  with assms show ?case by simp
next
  case (snoc op later)
  then obtain v' where v': "hm_get (rc_current_versions (client_run ce (ops @ later))) r = Some v'" "v \<le> v'" by blast
  from client_step_versions [OF v'(1), of ce op] v'(2) show ?case by (auto simp: client_run_def)
qed

theorem versions_only_grow_witness:
  "\<exists>v'. hm_get (rc_current_versions (client_run example_client_edge (example_client_run @ [(steady_line, CoLeave)]))) 1 = Some v' \<and> 3 \<le> v'"
proof -
  have "hm_get (rc_current_versions (client_run example_client_edge example_client_run)) 1 = Some 3"
    using example_client_run_vault by (simp add: vault_def)
  from versions_only_grow [OF this] show ?thesis .
qed

end
