(* ===== verification/RoomReplies.thy ===== *)
theory RoomReplies
  imports RoomTrust
begin

text \<open>
  Requests and replies of the client: every awaiting call is registered exactly where its reply will
  look for it, and a reply goes to the oldest call that waits for its kind.
\<close>

section \<open>The desk\<close>

definition desk :: "'m room_client \<Rightarrow> (message_kind, nat list) hashmap \<times> (nat, client_call \<times> json envelope option) hashmap \<times> nat" where
  "desk s = (rc_pending s, rc_calls s, rc_next_call s)"

interpretation desk: aside desk
  by unfold_locales (simp_all add: desk_def)

lemma desk_update [view_simps]:
  "desk (s\<lparr>rc_verified_manifests := t\<rparr>) = desk s" "desk (s\<lparr>rc_current_versions := u\<rparr>) = desk s"
  "desk (s\<lparr>rc_expected_host_pubkey := v\<rparr>) = desk s"
  by (simp_all add: desk_def)

lemma desk_accept [view_simps]: "desk (snd (accept_manifest ce m version s)) = desk s"
  by (auto simp: accept_manifest_def Let_def emit_manifest_state_def view_simps split: option.splits sum.splits)

lemma desk_finish [view_simps]: "desk (snd (finish_call ce sr call answer s)) = desk s"
proof -
  have "desk (snd (finish_fetch ce reply s)) = desk s" for reply
  proof (cases "\<exists>m version at. decode_payload ce reply = Some (WManifestResponse m version at)")
    case True
    then obtain m version at where p: "decode_payload ce reply = Some (WManifestResponse m version at)" by blast
    show ?thesis using desk_accept [of ce m version s]
      by (cases "accept_manifest ce m version s") (simp add: finish_fetch_def p split: sum.split)
  qed (auto simp: finish_fetch_def split: option.splits wire_payload.splits)
  then show ?thesis by (cases call; cases answer) (simp_all add: view_simps)
qed

section \<open>Every awaiting call is registered\<close>

definition queued :: "'m room_client \<Rightarrow> message_kind \<Rightarrow> nat list" where
  "queued s kind = (case hm_get (rc_pending s) kind of None \<Rightarrow> [] | Some ws \<Rightarrow> ws)"

definition awaiting :: "'m room_client \<Rightarrow> message_kind \<Rightarrow> nat set" where
  "awaiting s kind = {w. \<exists>call. hm_get (rc_calls s) w = Some (call, None) \<and> reply_kind call = kind}"

definition calls_ok :: "'m room_client \<Rightarrow> bool" where
  "calls_ok s \<longleftrightarrow>
     (\<forall>kind. sorted_wrt (<) (queued s kind) \<and> (\<forall>w \<in> set (queued s kind). w < rc_next_call s \<and>
        (\<forall>call r. hm_get (rc_calls s) w = Some (call, r) \<longrightarrow> r = None \<and> reply_kind call = kind)))
   \<and> (\<forall>w call r. hm_get (rc_calls s) w = Some (call, r) \<longrightarrow> w < rc_next_call s
        \<and> (r = None \<longrightarrow> w \<in> set (queued s (reply_kind call)))
        \<and> (\<forall>env. r = Some env \<longrightarrow> env_type env \<in> {reply_kind call, MkRoomError}))"

lemma calls_okI:
  assumes "\<And>kind. sorted_wrt (<) (queued s kind)"
    and "\<And>kind w. w \<in> set (queued s kind) \<Longrightarrow> w < rc_next_call s
      \<and> (\<forall>call r. hm_get (rc_calls s) w = Some (call, r) \<longrightarrow> r = None \<and> reply_kind call = kind)"
    and "\<And>w call r. hm_get (rc_calls s) w = Some (call, r) \<Longrightarrow> w < rc_next_call s
      \<and> (r = None \<longrightarrow> w \<in> set (queued s (reply_kind call)))
      \<and> (\<forall>env. r = Some env \<longrightarrow> env_type env \<in> {reply_kind call, MkRoomError})"
  shows "calls_ok s"
  using assms by (simp add: calls_ok_def)

lemma calls_okD:
  assumes "calls_ok s"
  shows "sorted_wrt (<) (queued s kind)"
    and "w \<in> set (queued s kind) \<Longrightarrow> w < rc_next_call s
      \<and> (\<forall>call r. hm_get (rc_calls s) w = Some (call, r) \<longrightarrow> r = None \<and> reply_kind call = kind)"
    and "hm_get (rc_calls s) w = Some (call, r) \<Longrightarrow> w < rc_next_call s
      \<and> (r = None \<longrightarrow> w \<in> set (queued s (reply_kind call)))
      \<and> (\<forall>env. r = Some env \<longrightarrow> env_type env \<in> {reply_kind call, MkRoomError})"
  using assms unfolding calls_ok_def by blast+

lemma desk_parts: "rc_pending s = fst (desk s)" "rc_calls s = fst (snd (desk s))" "rc_next_call s = snd (snd (desk s))"
  by (simp_all add: desk_def)

lemma same_desk_ok: "desk s' = desk s \<Longrightarrow> calls_ok s' = calls_ok s"
  by (simp add: calls_ok_def queued_def desk_parts)

lemma same_desk_waiting: "desk s' = desk s \<Longrightarrow> awaiting s' = awaiting s"
  by (simp add: awaiting_def desk_parts fun_eq_iff)

text \<open>A call that ends, by its reply, its time or its caller.\<close>

lemma remove_call_ok: "calls_ok s \<Longrightarrow> calls_ok (s\<lparr>rc_calls := hm_remove w (rc_calls s)\<rparr>)"
  by (simp add: calls_ok_def queued_def)

lemma prune_ok:
  assumes "calls_ok s"
  shows "calls_ok (prune kind s)"
proof (cases "hm_get (rc_pending s) kind")
  case (Some ws)
  have q: "queued (prune kind s) k = (if k = kind then filter (waiter_open s) ws else queued s k)" for k
    by (simp add: queued_def prune_def Some)
  have same: "rc_calls (prune kind s) = rc_calls s" "rc_next_call (prune kind s) = rc_next_call s" by (simp_all add: prune_def Some)
  have "queued s kind = ws" by (simp add: queued_def Some)
  then show ?thesis using assms
    unfolding calls_ok_def q same by (auto simp: sorted_wrt_filter waiter_open_def)
qed (use assms in \<open>simp add: prune_def\<close>)

lemma request_start_ok:
  assumes "calls_ok s"
  shows "calls_ok (snd (request_start sr call env s))"
proof -
  let ?w = "rc_next_call s" and ?kind = "reply_kind call"
  let ?s1 = "s\<lparr>rc_next_call := ?w + 1, rc_calls := hm_insert ?w (call, None) (rc_calls s),
                 rc_pending := hm_insert ?kind (queued s ?kind @ [?w]) (rc_pending s)\<rparr>"
  have q: "queued ?s1 k = (if k = ?kind then queued s ?kind @ [?w] else queued s k)" for k by (simp add: queued_def)
  have fresh: "?w \<notin> set (queued s k)" for k using assms by (auto simp: calls_ok_def)
  have ok1: "calls_ok ?s1" using assms fresh unfolding calls_ok_def q
    by (auto simp: sorted_wrt_append less_Suc_eq split: if_splits) metis
  obtain r s2 where d: "send_or_buffer sr env ?s1 = (r, s2)" by fastforce
  then have "desk s2 = desk ?s1" using desk.view_send(2) [of sr env ?s1] by (metis snd_conv)
  then have "calls_ok s2" using ok1 same_desk_ok by blast
  with d show ?thesis by (cases r) (simp_all add: request_start_def Let_def queued_def prune_ok remove_call_ok)
qed

section \<open>The first call that still listens\<close>

lemma first_open_filter:
  "first_open P ws = (case filter P ws of [] \<Rightarrow> (None, []) | w # _ \<Rightarrow> (Some w, tl (dropWhile (\<lambda>x. \<not> P x) ws)))"
  by (induction ws) (auto split: list.splits)

lemma open_queue:
  assumes "calls_ok s"
  shows "set (filter (waiter_open s) (queued s kind)) = awaiting s kind"
proof -
  have "w \<in> awaiting s kind" if "w \<in> set (queued s kind)" "waiter_open s w" for w
    using that assms by (fastforce simp: waiter_open_def awaiting_def calls_ok_def split: option.splits)
  moreover have "w \<in> set (queued s kind) \<and> waiter_open s w" if "w \<in> awaiting s kind" for w
    using that assms by (fastforce simp: waiter_open_def awaiting_def calls_ok_def)
  ultimately show ?thesis by auto
qed

lemma sorted_hd_Min: "sorted_wrt (<) (x # xs) \<Longrightarrow> Min (set (x # xs)) = (x :: nat)"
  by (rule Min_eqI) auto

text \<open>What delivering to one kind's queue does: the oldest waiting call gets the envelope.\<close>

definition answered :: "json envelope \<Rightarrow> message_kind \<Rightarrow> 'm room_client \<Rightarrow> (nat, client_call \<times> json envelope option) hashmap" where
  "answered env kind s = (let w = Min (awaiting s kind) in hm_insert w (fst (the (hm_get (rc_calls s) w)), Some env) (rc_calls s))"

lemma deliver_to_kind_spec:
  assumes "calls_ok s" and "env_type env \<in> {kind, MkRoomError}" and d: "deliver_to_kind env kind s = (hit, s')"
  shows "hit = (awaiting s kind \<noteq> {})"
    and "rc_calls s' = (if hit then answered env kind s else rc_calls s)"
    and "hm_keys (rc_pending s') = hm_keys (rc_pending s)"
    and "calls_ok s'"
proof -
  have "hit = (awaiting s kind \<noteq> {}) \<and> rc_calls s' = (if hit then answered env kind s else rc_calls s)
    \<and> hm_keys (rc_pending s') = hm_keys (rc_pending s) \<and> calls_ok s'"
  proof (cases "hm_get (rc_pending s) kind")
    case None
    then have "awaiting s kind = {}" using open_queue [OF assms(1), of kind] by (simp add: queued_def)
    with None d assms(1) show ?thesis by (simp add: deliver_to_kind_def)
  next
    case (Some ws)
    then have qs: "queued s kind = ws" by (simp add: queued_def)
    have keys: "hm_keys (hm_insert kind v (rc_pending s)) = hm_keys (rc_pending s)" for v
      using Some by (simp add: hm_keys_def update_keys hm_key_get)
    show ?thesis
    proof (cases "filter (waiter_open s) ws")
      case Nil
      then have none: "awaiting s kind = {}" using open_queue [OF assms(1), of kind] qs by simp
      have s': "hit = False" "s' = s\<lparr>rc_pending := hm_insert kind [] (rc_pending s)\<rparr>"
        using d by (simp_all add: deliver_to_kind_def Some first_open_filter Nil)
      have "queued s' k = (if k = kind then [] else queued s k)" for k by (simp add: s' queued_def)
      moreover have "reply_kind call \<noteq> kind" if "hm_get (rc_calls s) w = Some (call, None)" for w call
        using none that by (auto simp: awaiting_def)
      ultimately have "calls_ok s'" using assms(1) unfolding calls_ok_def by (auto simp: s')
      with none s' keys show ?thesis by simp
    next
      case (Cons w rest)
      have sorted: "sorted_wrt (<) ws" using assms(1) qs by (auto simp: calls_ok_def)
      have "sorted_wrt (<) (w # rest)" using sorted_wrt_filter [OF sorted, of "waiter_open s"] Cons by simp
      then have min: "Min (awaiting s kind) = w" using sorted_hd_Min open_queue [OF assms(1), of kind] qs Cons by metis
      have "w \<in> awaiting s kind" using open_queue [OF assms(1), of kind] qs Cons by (metis list.set_intros(1))
      then obtain call where call: "hm_get (rc_calls s) w = Some (call, None)" "reply_kind call = kind" by (auto simp: awaiting_def)
      define lft where "lft = tl (dropWhile (\<lambda>x. \<not> waiter_open s x) ws)"
      have s': "hit = True" "s' = s\<lparr>rc_pending := hm_insert kind lft (rc_pending s), rc_calls := hm_insert w (call, Some env) (rc_calls s)\<rparr>"
        using d call by (simp_all add: deliver_to_kind_def Some first_open_filter Cons lft_def)
      obtain front where front: "ws = front @ w # lft" "\<forall>x \<in> set front. \<not> waiter_open s x"
      proof -
        have "dropWhile (\<lambda>x. \<not> waiter_open s x) ws \<noteq> []" using Cons by (metis dropWhile_eq_Nil_conv filter_False list.distinct(1))
        then obtain y ys where y: "dropWhile (\<lambda>x. \<not> waiter_open s x) ws = y # ys" by (cases "dropWhile (\<lambda>x. \<not> waiter_open s x) ws") auto
        then have split: "ws = takeWhile (\<lambda>x. \<not> waiter_open s x) ws @ y # ys" by (metis takeWhile_dropWhile_id)
        have "waiter_open s y" using y hd_dropWhile [of "\<lambda>x. \<not> waiter_open s x" ws] by simp
        then have "filter (waiter_open s) ws = y # filter (waiter_open s) ys"
          by (subst split) (auto simp: filter_empty_conv dest: set_takeWhileD)
        then have "y = w" using Cons by simp
        with split y lft_def that [of "takeWhile (\<lambda>x. \<not> waiter_open s x) ws"] show thesis by (auto dest: set_takeWhileD)
      qed
      have gone: "w \<notin> set lft" using sorted front by (auto simp: sorted_wrt_append)
      have q: "queued s' k = (if k = kind then lft else queued s k)" for k by (simp add: s' queued_def)
      have elsewhere: "w \<notin> set (queued s k)" if "k \<noteq> kind" for k using assms(1) call that by (auto simp: calls_ok_def)
      have kept: "v \<in> set lft" if "hm_get (rc_calls s) v = Some (c, None)" "reply_kind c = kind" "v \<noteq> w" for v c
      proof -
        have "v \<in> set ws" using assms(1) that qs by (auto simp: calls_ok_def)
        moreover have "waiter_open s v" using that by (simp add: waiter_open_def)
        ultimately show ?thesis using front that(3) by (metis Un_iff set_append set_ConsD)
      qed
      have inleft: "v \<in> set ws" if "v \<in> set lft" for v using that front(1) by (metis Un_iff list.set_intros(2) set_append)
      have "sorted_wrt (<) lft" using sorted front(1) by (metis sorted_wrt.simps(2) sorted_wrt_append)
      note sorted_left = this
      have fs: "rc_calls s' = hm_insert w (call, Some env) (rc_calls s)" "rc_next_call s' = rc_next_call s" by (simp_all add: s')
      have leftok: "v < rc_next_call s \<and> (\<forall>c r. hm_get (rc_calls s) v = Some (c, r) \<longrightarrow> r = None \<and> reply_kind c = kind)"
        if "v \<in> set lft" for v
        using calls_okD(2) [OF assms(1)] inleft [OF that] qs by blast
      have "calls_ok s'"
      proof (rule calls_okI)
        fix k
        show "sorted_wrt (<) (queued s' k)" using sorted_left calls_okD(1) [OF assms(1)] by (simp add: q)
        fix v assume "v \<in> set (queued s' k)"
        then show "v < rc_next_call s' \<and> (\<forall>c r. hm_get (rc_calls s') v = Some (c, r) \<longrightarrow> r = None \<and> reply_kind c = k)"
          using leftok gone elsewhere calls_okD(2) [OF assms(1)] by (cases "k = kind") (auto simp: q fs)
      next
        fix v c r assume v: "hm_get (rc_calls s') v = Some (c, r)"
        show "v < rc_next_call s' \<and> (r = None \<longrightarrow> v \<in> set (queued s' (reply_kind c)))
          \<and> (\<forall>e. r = Some e \<longrightarrow> env_type e \<in> {reply_kind c, MkRoomError})"
        proof (cases "v = w")
          case True
          with v assms(2) call calls_okD(3) [OF assms(1) call(1)] show ?thesis by (auto simp: fs)
        next
          case False
          with v have old: "hm_get (rc_calls s) v = Some (c, r)" by (simp add: fs)
          show ?thesis using calls_okD(3) [OF assms(1) old] kept [OF _ _ False] old by (auto simp: q fs)
        qed
      qed
      with s' keys min \<open>w \<in> awaiting s kind\<close> call show ?thesis by (auto simp: answered_def Let_def)
    qed
  qed
  then show "hit = (awaiting s kind \<noteq> {})" "rc_calls s' = (if hit then answered env kind s else rc_calls s)"
    "hm_keys (rc_pending s') = hm_keys (rc_pending s)" "calls_ok s'" by blast+
qed

lemma awaiting_calls: "rc_calls s' = rc_calls s \<Longrightarrow> awaiting s' = awaiting s"
  by (simp add: awaiting_def fun_eq_iff)

lemma answered_calls:
  assumes "rc_calls s' = rc_calls s"
  shows "answered env kind s' = answered env kind s"
  using awaiting_calls [OF assms] assms by (simp add: answered_def)

lemma deliver_to_any_spec:
  assumes "calls_ok s" and "env_type env = MkRoomError" and "deliver_to_any env kinds s = (res, s')"
  shows "res = find (\<lambda>k. awaiting s k \<noteq> {}) kinds
    \<and> rc_calls s' = (case res of None \<Rightarrow> rc_calls s | Some k \<Rightarrow> answered env k s) \<and> calls_ok s'"
  using assms
proof (induction kinds arbitrary: s)
  case (Cons kind kinds)
  obtain hit s1 where d: "deliver_to_kind env kind s = (hit, s1)" by fastforce
  note spec = deliver_to_kind_spec [OF Cons.prems(1) _ d]
  have ty: "env_type env \<in> {kind, MkRoomError}" using Cons.prems(2) by simp
  show ?case
  proof (cases hit)
    case True
    with Cons.prems(3) d spec [OF ty] show ?thesis by auto
  next
    case False
    with spec [OF ty] have s1: "rc_calls s1 = rc_calls s" "calls_ok s1" "awaiting s kind = {}" by simp_all
    have "deliver_to_any env kinds s1 = (res, s')" using Cons.prems(3) d False by simp
    from Cons.IH [OF s1(2) Cons.prems(2) this] s1 show ?thesis
      by (simp add: awaiting_calls [OF s1(1)] answered_calls [OF s1(1)] split: option.split)
  qed
qed simp

text \<open>Whose queue an envelope is for: its own kind's, or for an error any kind's, in the map's order.\<close>

definition addressee :: "surroundings \<Rightarrow> json envelope \<Rightarrow> 'm room_client \<Rightarrow> message_kind option" where
  "addressee sr env s =
     (if awaiting s (env_type env) \<noteq> {} then Some (env_type env)
      else if env_type env = MkRoomError then find (\<lambda>k. awaiting s k \<noteq> {}) (walk_order sr (rc_pending s)) else None)"

lemma walk_order_keys: "hm_keys m' = hm_keys m \<Longrightarrow> walk_order sr m' = walk_order sr m"
proof -
  assume keys: "hm_keys m' = hm_keys m"
  then have "fst ` set m' = fst ` set m" unfolding hm_keys_def by (metis set_map)
  then have "hm_contains m' = hm_contains m" by (simp add: hm_contains_iff fun_eq_iff)
  with keys show ?thesis by (simp add: walk_order_def)
qed

lemma deliver_to_pending_spec:
  assumes "calls_ok s" and d: "deliver_to_pending sr env s = (resolved, s')"
  shows "resolved = addressee sr env s
    \<and> rc_calls s' = (case addressee sr env s of None \<Rightarrow> rc_calls s | Some k \<Rightarrow> answered env k s) \<and> calls_ok s'"
proof -
  obtain hit s1 where k: "deliver_to_kind env (env_type env) s = (hit, s1)" by fastforce
  have ty: "env_type env \<in> {env_type env, MkRoomError}" by simp
  note spec = deliver_to_kind_spec [OF assms(1) ty k]
  show ?thesis
  proof (cases hit)
    case True
    with d k spec show ?thesis by (auto simp: deliver_to_pending_def addressee_def)
  next
    case False
    with spec have s1: "rc_calls s1 = rc_calls s" "calls_ok s1" "awaiting s (env_type env) = {}"
      and walk: "walk_order sr (rc_pending s1) = walk_order sr (rc_pending s)"
      by (simp_all add: walk_order_keys [OF spec(3)])
    show ?thesis
    proof (cases "env_type env = MkRoomError")
      case True
      have "deliver_to_any env (walk_order sr (rc_pending s)) s1 = (resolved, s')"
        using d k False True walk by (simp add: deliver_to_pending_def)
      from deliver_to_any_spec [OF s1(2) True this] s1 True show ?thesis
        by (simp add: addressee_def awaiting_calls [OF s1(1)] answered_calls [OF s1(1)] split: option.split)
    next
      case no_error: False
      with d k False s1 show ?thesis by (simp add: deliver_to_pending_def addressee_def)
    qed
  qed
qed

section \<open>In every state of a run\<close>

lemma deliver_ok: "calls_ok s \<Longrightarrow> calls_ok (snd (deliver_to_pending sr env s))"
  by (cases "deliver_to_pending sr env s") (auto dest: deliver_to_pending_spec)

lemma manifest_part_ok:
  assumes "calls_ok s"
  shows "calls_ok (client_manifest_part ce sr env s)"
proof -
  have same: "calls_ok (s\<lparr>rc_budget := bb, rc_manifest_parts := parts\<rparr>)" for bb parts
    using assms same_desk_ok [of "s\<lparr>rc_budget := bb, rc_manifest_parts := parts\<rparr>" s] by (simp add: view_simps)
  have "calls_ok (snd (accept_manifest ce m version (s\<lparr>rc_budget := bb, rc_manifest_parts := parts\<rparr>)))" for m version bb parts
    by (rule iffD2 [OF same_desk_ok same]) (simp add: view_simps)
  then show ?thesis using assms same deliver_ok [OF same]
    by (simp add: client_manifest_part_def Let_def case_prod_beta
        split: option.split wire_payload.split sum.split manifest_part_kind.split)
qed

lemma inbound_effect_ok:
  assumes "calls_ok s"
  shows "calls_ok (inbound_effect ce sr env resolved s)"
proof (cases "env_type env = MkManifestPart")
  case True
  with manifest_part_ok [OF assms] show ?thesis by (simp add: inbound_effect_def relay_effect_def drawing_effect_def Let_def)
next
  case False
  then have "desk (inbound_effect ce sr env resolved s) = desk s"
    by (cases "env_type env")
      (simp_all add: inbound_effect_def relay_effect_def drawing_effect_def Let_def view_simps handle_manifest_published_def split: option.split wire_payload.split)
  with assms same_desk_ok show ?thesis by blast
qed

lemma handle_inbound_ok:
  assumes "calls_ok s"
  shows "calls_ok (handle_inbound ce sr env s)"
proof -
  have s0: "calls_ok (expire_parts sr s)" using assms same_desk_ok [of "expire_parts sr s" s] by (simp add: view_simps)
  show ?thesis using s0 inbound_effect_ok [OF deliver_ok [OF s0]]
    by (simp add: handle_inbound_def Let_def case_prod_beta)
qed

lemma finish_ok: "calls_ok s \<Longrightarrow> calls_ok (snd (finish_call ce sr call answer s))"
  using same_desk_ok [of "snd (finish_call ce sr call answer s)" s] by (simp add: view_simps)

lemma client_step_ok:
  assumes "calls_ok s"
  shows "calls_ok (client_step ce s op)"
proof -
  have same: "calls_ok s'" if "desk s' = desk s" for s' :: "'a room_client" using that assms same_desk_ok by blast
  have clear: "calls_ok (s\<lparr>rc_pending_leave := None\<rparr>)" by (rule same) (simp add: view_simps)
  have rejoin: "calls_ok (snd (rejoin_active_room sr s))" for sr
  proof (cases "rc_active_room_code s")
    case None
    then have "desk (snd (rejoin_active_room sr s)) = desk s"
      by (auto simp: rejoin_active_room_def send_envelope_def view_simps split: option.splits)
    then show ?thesis by (rule same)
  next
    case (Some creds)
    then obtain code name where c: "creds = (code, name)" by (cases creds)
    show ?thesis using request_start_ok [OF clear, of sr CallRejoin "join_envelope sr code name"]
      by (auto simp: rejoin_active_room_def Some c split: prod.splits sum.splits)
  qed
  show ?thesis
  proof (cases op)
    case (Pair sr o')
    show ?thesis
    proof (cases o')
      case (CoCreate title mig)
      have "calls_ok (case held_room s of None \<Rightarrow> s | Some old \<Rightarrow> snd (leave_room_inner sr (Some old) s))"
        by (rule same) (simp add: view_simps split: option.split)
      then show ?thesis by (simp add: Pair CoCreate room_create_def Let_def request_start_ok)
    next
      case (CoResume w)
      with assms show ?thesis by (simp add: Pair resume_call_def finish_ok remove_call_ok split: option.split)
    next
      case (CoTimeOut w)
      with assms show ?thesis by (simp add: Pair time_out_call_def finish_ok prune_ok remove_call_ok split: option.split)
    next
      case (CoAbandon w)
      with assms show ?thesis by (simp add: Pair abandon_call_def remove_call_ok)
    qed (use Pair assms rejoin in \<open>simp_all add: handle_inbound_ok request_start_ok room_join_def manifest_fetch_def clock_skew_probe_def\<close>,
      (rule same, simp add: room_leave_def permission_set_def send_chat_message_def presence_turn_def presence_def
        set_expected_host_pubkey_def clear_expected_host_pubkey_def view_simps)+)
  qed
qed

lemma client_run_ok: "calls_ok (client_run ce ops)"
proof (induction ops rule: rev_induct)
  case Nil
  show ?case by (simp add: client_run_def room_client_new_def calls_ok_def queued_def)
next
  case (snoc op ops)
  then show ?case using client_step_ok [of "client_run ce ops"] by (simp add: client_run_def)
qed

text \<open>
  C31: replies reach their requests in order. In every state of the client, an incoming envelope is
  handed to the oldest call that still waits for its kind: no call is skipped, a call that was given
  up or timed out swallows nothing, and no other call is touched. A ROOM_ERROR goes to the oldest call
  of the first kind, in the order the map is walked, for which any call waits. An envelope nobody
  waits for changes no call.
\<close>

theorem replies_in_order:
  "fst (deliver_to_pending sr env (client_run ce ops)) = addressee sr env (client_run ce ops)
   \<and> rc_calls (snd (deliver_to_pending sr env (client_run ce ops)))
     = (case addressee sr env (client_run ce ops) of
          None \<Rightarrow> rc_calls (client_run ce ops)
        | Some kind \<Rightarrow> answered env kind (client_run ce ops))"
  using deliver_to_pending_spec [OF client_run_ok, of sr env ce ops] by (cases "deliver_to_pending sr env (client_run ce ops)") simp

end
