(* ===== verification/RoomSession.thy ===== *)
theory RoomSession
  imports RoomReplies
begin

text \<open>
  The client's session: what ends it, what cannot touch it, and the outbox of a lost connection.
\<close>

section \<open>Everything but the awaiting calls\<close>

definition room_part :: "'m room_client \<Rightarrow> 'm room_client" where
  "room_part s = s\<lparr>rc_pending := [], rc_calls := []\<rparr>"

interpretation room_part: off_desk room_part
  by unfold_locales (simp_all add: room_part_def)

lemma held_room_part: "rc_state (room_part s) = rc_state s" "rc_local_user_id (room_part s) = rc_local_user_id s"
  "rc_pending_outbound (room_part s) = rc_pending_outbound s"
  by (simp_all add: room_part_def)

lemma deliver_keeps:
  assumes "deliver_to_pending sr env s = (resolved, s')"
  shows "rc_state s' = rc_state s" "rc_local_user_id s' = rc_local_user_id s" "rc_pending_outbound s' = rc_pending_outbound s"
proof -
  have "room_part s' = room_part s" using room_part.off_deliver [of sr env s] assms by simp
  then show "rc_state s' = rc_state s" "rc_local_user_id s' = rc_local_user_id s" "rc_pending_outbound s' = rc_pending_outbound s"
    by (metis held_room_part(1)) (metis \<open>room_part s' = room_part s\<close> held_room_part(2), metis \<open>room_part s' = room_part s\<close> held_room_part(3))
qed

lemma expired: "rc_state (expire_parts sr s) = rc_state s" "rc_pending_outbound (expire_parts sr s) = rc_pending_outbound s"
  "rc_local_user_id (expire_parts sr s) = rc_local_user_id s" "held_room (expire_parts sr s) = held_room s"
  by (simp_all add: expire_parts_def Let_def case_prod_beta held_room_def)

lemma addressee_expired: "addressee sr' env (expire_parts sr s) = addressee sr' env s"
proof -
  have same: "rc_calls (expire_parts sr s) = rc_calls s" "rc_pending (expire_parts sr s) = rc_pending s"
    using desk.view_expire [of sr s] by (simp_all add: desk_def)
  then show ?thesis by (simp add: addressee_def awaiting_calls [OF same(1)])
qed

lemma calls_expired: "calls_ok s \<Longrightarrow> calls_ok (expire_parts sr s)"
  using same_desk_ok [of "expire_parts sr s" s] by (simp add: view_simps)

section \<open>What ends the session\<close>

definition session_forgotten :: "'m room_client \<Rightarrow> bool" where
  "session_forgotten s \<longleftrightarrow> rc_state s = None \<and> rc_local_user_id s = None \<and> rc_active_room_code s = None \<and> rc_pending_outbound s = []
     \<and> rc_host_media_selection s = None \<and> \<not> rc_presence s \<and> rc_playback_seq s = playback_seq_new"

text \<open>A ROOM_ERROR, by the request it answered.\<close>

definition ends_session :: "'m client_edge \<Rightarrow> json envelope \<Rightarrow> message_kind option \<Rightarrow> bool" where
  "ends_session ce env resolved \<longleftrightarrow>
     (case resolved of
        None \<Rightarrow> room_error_ends_membership ce env
      | Some kind \<Rightarrow> kind \<notin> {MkManifestResponse, MkRoomJoined, MkRoomCreated})"

lemma drop_forgets: "session_forgotten (drop_room_session s)"
  by (simp add: session_forgotten_def drop_room_session_def abort_presence_loop_def emit_state_cleared_def emit_def
      forget_room_session_def reset_playback_seq_def clear_host_media_selection_def)

lemma state_send: "rc_state (snd (send_envelope sr env s)) = rc_state s"
  by (simp add: send_envelope_def)

lemma state_resend: "rc_state (resend_all sr rid ls s) = rc_state s"
  by (induction ls arbitrary: s) (simp_all add: send_envelope_def)

lemma state_resync: "rc_state (resync_playback_seq sr expected refusal s) = rc_state s"
  by (simp add: resync_playback_seq_def Let_def case_prod_beta state_resend split: option.split)

lemma state_accept: "rc_state (snd (accept_manifest ce m version s)) = rc_state s"
  by (auto simp: accept_manifest_def Let_def emit_manifest_state_def emit_def split: option.splits sum.splits)

lemma state_manifest_part: "rc_state (client_manifest_part ce sr env s) = rc_state s"
proof -
  have "rc_state (snd (deliver_to_pending sr e (s\<lparr>rc_budget := bb, rc_manifest_parts := parts\<rparr>))) = rc_state s" for e bb parts
    using deliver_keeps(1) [of sr e "s\<lparr>rc_budget := bb, rc_manifest_parts := parts\<rparr>"]
    by (cases "deliver_to_pending sr e (s\<lparr>rc_budget := bb, rc_manifest_parts := parts\<rparr>)") simp
  then show ?thesis
    by (simp add: client_manifest_part_def Let_def case_prod_beta state_accept
        split: option.split wire_payload.split sum.split manifest_part_kind.split)
qed

lemma error_arm_state:
  assumes "rc_state s = Some x"
  shows "if ends_session ce env resolved then session_forgotten (room_error_arm ce sr env resolved s)
    else rc_state (room_error_arm ce sr env resolved s) \<noteq> None"
  using assms
  by (auto simp: ends_session_def room_error_arm_def drop_forgets state_resync
      split: option.split wire_payload.split room_error_code.split)

lemma inbound_effect_state:
  assumes "rc_state s = Some x" and "env_type env \<noteq> MkRoomClosed" and "env_type env \<noteq> MkRoomError"
  shows "rc_state (inbound_effect ce sr env resolved s) \<noteq> None"
  using assms
  by (cases "env_type env")
    (simp_all add: inbound_effect_def relay_effect_def drawing_effect_def Let_def handle_manifest_published_def state_accept state_manifest_part room_state_arm_def entered_def
      host_migrated_arm_def update_summary_def capability_update_arm_def chat_arm_def drawing_arm_def own_room_arm_def laser_arm_def
      emit_def emit_state_def emit_event_def case_prod_beta split: option.split wire_payload.split)

text \<open>
  C32: what ends the session. While the client holds a room, an incoming message makes it forget the
  session exactly when it is a ROOM_CLOSED of that room (or of no named room), or a ROOM_ERROR that
  answers none of its requests and says the membership is gone, or that answers a request other than
  a join, a creation or a manifest fetch. Then the identity, the rejoin credentials, the outbox, the
  selection, the playback numbering and the presence task go with it. Every other message, whatever
  it carries, leaves the client in a room.
\<close>

theorem session_ends:
  assumes "rc_state (client_run ce ops) = Some x"
  shows "if env_type env = MkRoomClosed \<and> env_room_id env \<in> {None, Some (si_id x)}
      \<or> env_type env = MkRoomError \<and> ends_session ce env (addressee sr env (client_run ce ops))
    then session_forgotten (handle_inbound ce sr env (client_run ce ops))
    else rc_state (handle_inbound ce sr env (client_run ce ops)) \<noteq> None"
proof -
  let ?s = "client_run ce ops"
  let ?quiet = "expire_parts sr ?s"
  obtain resolved s1 where d: "deliver_to_pending sr env ?quiet = (resolved, s1)" by fastforce
  have resolved: "resolved = addressee sr env ?s"
    using deliver_to_pending_spec [OF calls_expired [OF client_run_ok] d] by (simp add: addressee_expired)
  have s1: "rc_state s1 = Some x" using deliver_keeps(1) [OF d] assms by (simp add: expired)
  have step: "handle_inbound ce sr env ?s = (if foreign_event env ?quiet then ?quiet else inbound_effect ce sr env resolved s1)"
    by (simp add: handle_inbound_def Let_def d)
  have held: "held_room ?s = Some (si_id x)" using assms by (simp add: held_room_def)
  consider "env_type env = MkRoomClosed" | "env_type env = MkRoomError" | "env_type env \<noteq> MkRoomClosed" "env_type env \<noteq> MkRoomError" by blast
  then show ?thesis
  proof cases
    case 1
    then show ?thesis using assms
      by (auto simp: step foreign_event_def held is_room_scoped_event_def inbound_effect_def relay_effect_def drawing_effect_def Let_def drop_forgets expired
          split: option.split)
  next
    case 2
    then show ?thesis using error_arm_state [OF s1, of ce env "addressee sr env ?s" sr]
      by (simp add: step foreign_event_def is_room_scoped_event_def inbound_effect_def relay_effect_def drawing_effect_def Let_def resolved)
  next
    case 3
    then show ?thesis using inbound_effect_state [OF s1 3, of ce sr resolved] assms by (simp add: step expired)
  qed
qed

text \<open>A room the example client makes.\<close>

definition example_summary :: room_summary where
  "example_summary = \<lparr>rsum_id = 1, rsum_code = [], rsum_title = [], rsum_host_user_id = 7, rsum_host_migration_enabled = True,
     rsum_created_ms = 0, rsum_participants = [], rsum_host_disconnected = False, rsum_host_disconnect_deadline_ms = None,
     rsum_playback = None\<rparr>"

definition room_edge :: "nat client_edge" where
  "room_edge = example_client_edge\<lparr>cl_decode := (\<lambda>kind _.
     if kind = MkRoomCreated then Some (WRoomCreated \<lparr>rcd_room = example_summary, rcd_you = \<lparr>self_user_id = 7, self_cap_set = HOST, self_joined_ms = 0\<rparr>\<rparr>)
     else if kind = MkRoomError then Some (WRoomError \<lparr>rep_code = CNotJoined, rep_expected_seq = None\<rparr>) else None)\<rparr>"

lemma room_edge_run:
  "rc_state (client_run room_edge [(steady_line, CoInbound (example_envelope MkRoomCreated (Some 1)))]) = Some (summary_with_caps example_summary HOST)"
  "rc_calls (client_run room_edge [(steady_line, CoInbound (example_envelope MkRoomCreated (Some 1)))]) = []"
  by (simp_all add: client_run_def handle_inbound_def expire_parts_def expire_def retain_def release_def
      room_client_new_def assembler_new_def manifest_parts_budget_def example_envelope_def foreign_event_def
      is_room_scoped_event_def deliver_to_pending_def deliver_to_kind_def inbound_effect_def relay_effect_def drawing_effect_def decode_payload_def
      room_edge_def entered_def emit_def emit_state_def emit_event_def Let_def)

theorem session_ends_witness:
  "session_forgotten (handle_inbound room_edge steady_line (example_envelope MkRoomError (Some 9))
     (client_run room_edge [(steady_line, CoInbound (example_envelope MkRoomCreated (Some 1)))]))"
proof -
  let ?s = "client_run room_edge [(steady_line, CoInbound (example_envelope MkRoomCreated (Some 1)))]"
  let ?env = "example_envelope MkRoomError (Some 9)"
  have "addressee steady_line ?env ?s = None"
    by (auto simp: addressee_def awaiting_def room_edge_run find_None_iff)
  then have "ends_session room_edge ?env (addressee steady_line ?env ?s)"
    by (simp add: ends_session_def room_error_ends_membership_def decode_payload_def room_edge_def example_envelope_def room_is_gone_def)
  then show ?thesis using session_ends [OF room_edge_run(1), of ?env steady_line] by (simp add: example_envelope_def)
qed

section \<open>What another room cannot do\<close>

text \<open>
  C33: messages about another room are inert. While the client holds a room, a message that names a
  different one, unless it is the answer to a join or a creation, an error or a whole manifest, changes
  nothing but which calls still wait and which half-received manifests have expired: not the summary
  nor the roster, not the cached manifests, nothing shown to the user and nothing sent.
\<close>

theorem foreign_room_inert:
  assumes "held_room s = Some own" and "env_room_id env = Some named" and "named \<noteq> own"
    and "env_type env \<notin> {MkRoomJoined, MkRoomCreated, MkRoomError, MkManifestPublished}"
  shows "room_part (handle_inbound ce sr env s) = room_part (expire_parts sr s)"
proof (cases "foreign_event env (expire_parts sr s)")
  case True
  then show ?thesis by (simp add: handle_inbound_def Let_def)
next
  case False
  obtain resolved s1 where d: "deliver_to_pending sr env (expire_parts sr s) = (resolved, s1)" by fastforce
  have "own_room env s1 = None"
    using assms(1-3) deliver_keeps(1) [OF d] by (auto simp: own_room_def held_room_def expired)
  moreover have "\<not> is_room_scoped_event (env_type env)" using False assms(1-3) by (simp add: foreign_event_def expired)
  ultimately have "inbound_effect ce sr env resolved s1 = s1"
    using assms(4)
    by (cases "env_type env")
      (simp_all add: inbound_effect_def relay_effect_def drawing_effect_def Let_def is_room_scoped_event_def chat_arm_def drawing_arm_def own_room_arm_def
        laser_arm_def laser_origin_def split: option.split wire_payload.split)
  then have "handle_inbound ce sr env s = s1" using False d by (simp add: handle_inbound_def Let_def)
  then show ?thesis using room_part.off_deliver [of sr env "expire_parts sr s"] d by simp
qed

theorem foreign_room_inert_witness:
  "room_part (handle_inbound room_edge steady_line (example_envelope MkRoomClosed (Some 9))
       (client_run room_edge [(steady_line, CoInbound (example_envelope MkRoomCreated (Some 1)))]))
   = room_part (expire_parts steady_line (client_run room_edge [(steady_line, CoInbound (example_envelope MkRoomCreated (Some 1)))]))"
proof (rule foreign_room_inert)
  show "held_room (client_run room_edge [(steady_line, CoInbound (example_envelope MkRoomCreated (Some 1)))]) = Some 1"
    by (simp add: held_room_def room_edge_run summary_with_caps_def room_summary_ipc_from_def example_summary_def)
  show "env_room_id (example_envelope MkRoomClosed (Some 9)) = Some 9" by (simp add: example_envelope_def)
qed (simp_all add: example_envelope_def)

section \<open>The outbox\<close>

text \<open>What an outage buffers: the envelopes in the order they were given, the oldest dropped beyond 256.\<close>

definition newest :: "nat \<Rightarrow> 'a list \<Rightarrow> 'a list" where
  "newest n xs = drop (length xs - n) xs"

lemma newest_snoc:
  assumes "0 < n"
  shows "newest n (newest n xs @ [x]) = newest n (xs @ [x])"
proof (cases "length xs \<le> n")
  case True
  then show ?thesis by (simp add: newest_def)
next
  case False
  then have "length (newest n xs) = n" by (simp add: newest_def)
  then show ?thesis using False assms by (simp add: newest_def drop_drop Suc_diff_le)
qed

text \<open>A leave that waits for the connection: kept when the session is forgotten, sent on the reconnect.\<close>

lemma leave_in_outage:
  assumes "sr_bearer sr" and "\<not> sr_live sr"
  shows "rc_pending_leave (snd (room_leave sr s)) = Some (client_envelope_of sr MkRoomLeave None CpRoomLeave)"
    and "session_forgotten (snd (room_leave sr s))" and "rc_sent (snd (room_leave sr s)) = rc_sent s"
    and "fst (room_leave sr s) = Inr ()" and "rc_sends (snd (room_leave sr s)) = rc_sends s"
  using assms
  by (simp_all add: room_leave_def leave_room_inner_def send_or_buffer_def Let_def keep_leave_def client_envelope_of_def nth_append
      session_forgotten_def abort_presence_loop_def forget_room_session_def reset_playback_seq_def clear_host_media_selection_def)

lemma outage_leave_sent:
  assumes "sr_bearer down" and "\<not> sr_live down" and "\<forall>n. sr_accepts up n"
  shows "rc_sent (snd (rejoin_active_room up (snd (room_leave down s)))) = rc_sent s @ [client_envelope_of down MkRoomLeave None CpRoomLeave]"
    and "rc_pending_leave (snd (rejoin_active_room up (snd (room_leave down s)))) = None"
  using leave_in_outage [OF assms(1,2), of s] assms(3)
  by (simp_all add: rejoin_active_room_def session_forgotten_def send_envelope_def)

lemma buffer_outage:
  assumes "sr_bearer sr" and "\<not> sr_live sr"
  shows "foldl (\<lambda>s e. snd (send_or_buffer sr e s)) s envs
    = (if envs = [] then s else s\<lparr>rc_pending_outbound := newest PENDING_OUTBOUND_CAP (rc_pending_outbound s @ envs)\<rparr>)"
proof (induction envs rule: rev_induct)
  case (snoc e envs)
  have cap: "drop (length g + 1 - PENDING_OUTBOUND_CAP) g @ [e] = newest PENDING_OUTBOUND_CAP (g @ [e])" for g :: "client_envelope list"
    by (simp add: newest_def PENDING_OUTBOUND_CAP_def)
  have pos: "0 < PENDING_OUTBOUND_CAP" by (simp add: PENDING_OUTBOUND_CAP_def)
  show ?case using snoc assms newest_snoc [OF pos, of "rc_pending_outbound s @ envs" e]
    by (simp add: send_or_buffer_def Let_def cap [unfolded Suc_eq_plus1 [symmetric]] flip: append_assoc)
qed simp

lemma send_all_accepts:
  assumes "\<forall>n. sr_accepts sr n"
  shows "send_all sr envs s = s\<lparr>rc_sends := rc_sends s + length envs, rc_sent := rc_sent s @ envs\<rparr>"
  using assms by (induction envs arbitrary: s) (simp_all add: send_envelope_def)


definition outage :: surroundings where "outage = steady_line\<lparr>sr_live := False\<rparr>"


end
