(* ===== verification/Spec2Isabelle.thy ===== *)
theory Spec2Isabelle
  imports Prelude Protocol Codes Validation Ratelimit Strokes Events RoomState Store ManifestParts
    Registry Lifecycle Caps Inbound Playback Drawing Relay Assembly ManifestHandlers Signal Dispatch
    Ordering Server Feed Chunking Names TransferWire Downloads FileStore Progress
    Session SessionSafety SessionLive Delivery Scheduler MultiSource MultiSafety MultiBounds MultiSilence
    PlaybackNumbering RoomClient RoomFrames RoomTrust RoomReplies RoomSession
begin

text \<open>
  \<^bold>\<open>What this is.\<close> A model of Locast in three parts: the room service of its server, the wire protocol
  between server and clients, and the engine with which the desktop client publishes, plans,
  transfers and stores a film; with the theorems that make them correct. Locast lets people watch
  a film together: the host of a room publishes a manifest of the film, the participants fetch its
  chunks from one another, and the server keeps the rooms. It decides who may join, who is host,
  who may play, pause, draw and chat; it numbers and relays what they do; it relays WebRTC
  signalling; it survives lost connections and restarts. All source paths are relative to \<open>src/\<close>.

  \<^bold>\<open>The server's parts and how they interact.\<close> A frame of an authenticated connection passes the
  connection's rate limiter, is decoded, and goes through \<open>dispatch_authed\<close> (\<open>apps/server/src/ws/mod.rs\<close>)
  to \<open>dispatch_room_message\<close> (\<open>rooms/dispatch.rs\<close>). The dispatcher asks the capability gate
  (\<open>rooms/caps.rs\<close>), then calls one handler. A handler looks the room up in the registry
  (\<open>rooms/registry.rs\<close>), changes its state (\<open>rooms/state.rs\<close>) under the room's lock, writes to the
  store (\<open>rooms/store.rs\<close>, \<open>db.rs\<close>) and publishes events on the room's broadcast channel. Each
  connection subscribes to its room's channel through a feed (\<open>rooms/feed.rs\<close>) that repairs losses,
  and a forwarder filters what is sent. A ticker (\<open>rooms/mod.rs\<close>) ends rooms whose host did not
  come back and sweeps out silent participants.

  \<^bold>\<open>The client's parts and how they interact.\<close> (Paths below \<open>apps/client/src-tauri/src\<close>.) The host
  cuts a file into chunks (\<open>room/chunk_plan.rs\<close>) and publishes their digests in its manifest
  (\<open>room/host.rs\<close>). A viewer checks a manifest entry and makes a plan (\<open>transfer/plan.rs\<close>), enters
  it in the download tables (\<open>transfer/state.rs\<close>) and runs a session against the host's
  (\<open>transfer/session.rs\<close>): length-prefixed frames (\<open>transfer/wire.rs\<close>) ask for chunks in a window,
  each is verified (\<open>transfer/verify.rs\<close>), written below \<open>tmp/incomplete\<close> and marked; at the end
  the chunks are assembled, verified as a whole (\<open>transfer/assemble.rs\<close>) and renamed into the
  content-addressed library (\<open>library/fs.rs\<close>, \<open>core/paths.rs\<close>, \<open>core/library/sanitize.rs\<close>). What the
  user sees goes through \<open>transfer/events.rs\<close>. A download from several peers uses the orchestrator
  of \<open>transfer/multi_source.rs\<close>, with a window in front of each source (\<open>transfer/scheduler.rs\<close>). The
  room itself is mirrored by the \<open>RoomClient\<close> of \<open>net/room.rs\<close>: it matches replies to requests, keeps
  the summary that the webview shows, accepts manifests signed by the host of the invite, numbers
  the playback commands and holds back messages while the connection is down.

  \<^bold>\<open>Theories.\<close>
  \<^item> \<open>Prelude\<close>: machine integers as the code uses them (\<open>saturating_add\<close>, \<open>checked_add\<close>, \<open>wrapping_add\<close>),
    strings as lists of scalar values with their UTF-8 length, hash maps as association lists with
    distinct keys in iteration order, and the locales \<open>invariant_machine\<close> and \<open>counting_machine\<close> of
    sequences of operations. They are interpreted on the playback numbers (\<open>Playback\<close>), the
    manifest transport (\<open>Assembly\<close>), the signal relay (\<open>Signal\<close>), the download store (\<open>Downloads\<close>),
    the event emitter (\<open>Progress\<close>), the receiving session (\<open>SessionSafety\<close>) and the multi-source
    engine (\<open>MultiSafety\<close>).
  \<^item> \<open>Protocol\<close>, \<open>Events\<close>: \<open>shared/protocol/src/room.rs\<close> and \<open>envelope.rs\<close>; the events of the registry and
    their translation to broadcast items.
  \<^item> \<open>Codes\<close>, \<open>Validation\<close>: room codes (valid, each equally likely) and the validation of titles,
    names and coordinates (\<open>f32\<close> by its bit pattern).
  \<^item> \<open>Ratelimit\<close>: the token bucket at its machine widths. It never grants more than it may and never
    refuses a conforming client.
  \<^item> \<open>Strokes\<close>: \<open>StrokeBookkeeping\<close> of \<open>rooms/state.rs\<close> with its caps and its eviction; invariant of every
    operation, termination of the eviction loop, the snapshot lists the canvas.
  \<^item> \<open>RoomState\<close>: the room record, its snapshots, host election and the grace period (\<open>rooms/host.rs\<close>).
  \<^item> \<open>Store\<close>: the tables for rooms, participants and manifests; any write can fail. The locale
    \<open>participant_store\<close> states what the registry relies on and is interpreted on the tables.
  \<^item> \<open>Registry\<close>, \<open>Lifecycle\<close>: the registry's maps with their invariant; create, join, leave, lost
    connections, return, ticks, restoration at start-up; what each does on every branch.
  \<^item> \<open>Caps\<close>: the capability gate. \<open>Inbound\<close>: what handlers are given and return; domain tags.
  \<^item> \<open>Playback\<close>, \<open>Drawing\<close>, \<open>Relay\<close>, \<open>ManifestParts\<close>, \<open>Assembly\<close>, \<open>ManifestHandlers\<close>, \<open>Signal\<close>: the handlers.
    Drawing refines an abstract canvas, a finite map from strokes to owners. Splitting and
    reassembling a manifest is a round trip within the byte budget.
  \<^item> \<open>Dispatch\<close>: the dispatcher with its gate; isolation of rooms and the inertness of outsiders.
  \<^item> \<open>Ordering\<close>: what a room's channel says about the room, kept by every operation.
  \<^item> \<open>Server\<close>: the service as a step relation over messages, connections, ticks, restarts and store
    failures in any order; the invariants of every reachable state.
  \<^item> \<open>Feed\<close>: the subscriber's feed and the forwarder; a subscriber converges to the room's canvas
    whatever its receiver drops.
  \<^item> \<open>Chunking\<close>: digests, peer ids, the streaming planner of the host, the host's manifest entries
    and the viewer's plan: the planner agrees with a reference cut of the file, and what an honest
    host publishes can be planned and slices the file.
  \<^item> \<open>Names\<close>: the file-name sanitizer, the path builders and the validator of library paths.
  \<^item> \<open>TransferWire\<close>: the frames, their validation and their codec, a round trip.
  \<^item> \<open>Downloads\<close>: the two download tables and every operation on them, with statements that fail at
    any point and the transactions around them.
  \<^item> \<open>FileStore\<close>: a disk whose every call may fail; assembly, verification and the move into the
    library, and which paths each may write.
  \<^item> \<open>Progress\<close>: the sanitizer of error messages and the rate-limited emitter.
  \<^item> \<open>Session\<close>: both ends of a transfer as machines over what arrives. \<open>SessionSafety\<close>: nothing a peer
    sends can damage the library. \<open>SessionLive\<close>, \<open>Delivery\<close>: both ends together, over a transport that
    keeps order; the transfer between honest peers ends with the host's file in the library.
  \<^item> \<open>Scheduler\<close>, \<open>MultiSource\<close>: the window, the backpressure gate and the orchestrator as a machine over
    what its sources deliver. \<open>MultiSafety\<close>: nothing they send damages the library. \<open>MultiBounds\<close>: window,
    slots, requests and failure counters agree. \<open>MultiSilence\<close>: a silent run ends.
  \<^item> \<open>PlaybackNumbering\<close>: \<open>PlaybackSeq\<close> of \<open>net/room.rs\<close> against the server's \<open>playback_locked\<close>: what is sent
    again after a loss is accepted, and both sides agree on the next number.
  \<^item> \<open>RoomClient\<close>: the state and every operation of \<open>net/room.rs\<close>, an operation that waits for a reply
    cut in two; \<open>client_step\<close> is one step of any of them. \<open>RoomFrames\<close>: the locales \<open>aside\<close> and \<open>off_desk\<close>,
    parts of the state that operations leave alone, interpreted on the manifest cache (\<open>RoomTrust\<close>), the
    pending requests (\<open>RoomReplies\<close>) and the rest (\<open>RoomSession\<close>). \<open>RoomTrust\<close>: what the cache can hold.
    \<open>RoomReplies\<close>: replies reach the oldest waiting call. \<open>RoomSession\<close>: what ends the session, what cannot
    touch it, and the outbox.

  \<^bold>\<open>State and effects.\<close> A \<open>struct\<close> is a record with the same fields, an \<open>enum\<close> a datatype. A
  handler takes the state it works on and returns it updated together with its result; \<open>Err\<close> is
  \<open>Inl\<close>. A room's lock is held from the check to the publication in the code, so an operation is
  one step for its room and steps interleave freely. A channel is the list of everything published
  on it; what a receiver loses is an input of the feed. Clock readings, random bytes, fresh
  identifiers, store failures (\<open>Store\<close>, \<open>Downloads\<close>), failures of file operations (\<open>dk_faults\<close>) and of
  transports (\<open>lk_sends\<close>, \<open>received\<close>, \<open>surroundings\<close>) are inputs, so the theorems hold for all of them. Log and
  error texts are modelled only where another part reads them.

  \<^bold>\<open>Parameters.\<close> Code that is not part of the repository is an argument: on the server \<open>serde_json\<close>
  decoders, Ed25519, MessagePack and manifest canonicalisation are the fields of \<open>edge\<close>,
  \<open>signal_edge\<close>, \<open>part_edge\<close> and \<open>codec\<close>; on the client SHA-256 and BLAKE3 are \<open>digests\<close>, JSON
  \<open>wire_json\<close>, base64 and the generated \<open>Display\<close> fields of \<open>session_env\<close>, what the operating system
  resolves of a path \<open>os_view\<close>, Unicode normalisation \<open>ov_nfc\<close>. Theorems that need something of them
  (a decoder inverts an encoder) say so as a hypothesis, and their witnesses instantiate them with
  concrete functions. The room client's decoders are the fields of \<open>client_edge\<close>.

  \<^bold>\<open>Bounds and loops.\<close> Loops are structural recursions, or have a termination proof (eviction of
  strokes, slicing of manifests, reading a chunk, the stripping of paths). The generator of codes
  runs over the list of buffers that the random source yields and returns no code when the list
  ends; one buffer of eight accepted bytes is enough (\<open>Codes\<close>). The streaming planner runs over
  the reads of the file and returns exactly when they end (\<open>Chunking\<close>). \<open>next_item\<close> and the sessions
  run over what they are given and wait when it ends. Sequence numbers keep their 64-bit width: the
  drawing sequence wraps, playback numbers saturate or refuse.

  \<^bold>\<open>Not modelled.\<close> Server: the socket loop, TLS, the HELLO handshake and the bearer check of
  \<open>ws/mod.rs\<close> and \<open>auth/\<close>; configuration, audit, metrics and process start-up; the bearer,
  resume-token, audit and TURN tables of \<open>db.rs\<close>; temporary files; canonical JSON and hashing of the
  manifest crate. Client: the window, its commands and its front end, media probing, the socket
  loop of \<open>net/signaling.rs\<close> and WebRTC, the local tables that mirror a room, and the glue between
  sessions and channels (\<open>transfer/host_dispatch.rs\<close>, \<open>transfer/registry.rs\<close>). These are input and output
  around the parts above, or rest on floating-point arithmetic and on libraries. Memory exhaustion
  and panics of the runtime are not modelled, except where a theorem is about a panic.
\<close>

end
